(* ===== verification/Mofu_Prelude.thy ===== *)
theory Mofu_Prelude
  imports Main "HOL-Library.Word"
begin

text \<open>
  Shared vocabulary of the development: the machine integer types, the outcome of a Rust
  call (a value, an \<open>Err\<close>, a panic, or no return at all), slices and in-place copies of
  byte buffers, little-endian encodings, and the arithmetic of powers of two that the ring
  buffers and the hash table index with.
\<close>

unbundle bit_operations_syntax

type_synonym u8 = "8 word"
type_synonym u16 = "16 word"
type_synonym u32 = "32 word"
type_synonym u64 = "64 word"

named_theorems outcome_simps \<open>evaluation of sequenced Rust calls\<close>
named_theorems blit_simps \<open>lengths and reads of spliced buffers\<close>
named_theorems le_simps \<open>little-endian encodings\<close>

section \<open>Outcomes of Rust calls\<close>

text \<open>
  \<open>Panic\<close> stands for every panic of the source (a failed \<open>assert!\<close>, an index out of range,
  an arithmetic overflow, \<open>unwrap\<close> of \<open>None\<close>); \<open>Diverge\<close> for a loop that never ends.
\<close>

datatype ('e, 'a) outcome = Ok 'a | Err 'e | Panic | Diverge

text \<open>Sequencing with the \<open>?\<close> operator: an \<open>Err\<close> leaves the function at once.\<close>

fun and_then :: "('e, 'a) outcome \<Rightarrow> ('a \<Rightarrow> ('e, 'b) outcome) \<Rightarrow> ('e, 'b) outcome" where
  "and_then (Ok a) f = f a"
| "and_then (Err e) f = Err e"
| "and_then Panic f = Panic"
| "and_then Diverge f = Diverge"

fun map_err :: "('e \<Rightarrow> 'f) \<Rightarrow> ('e, 'a) outcome \<Rightarrow> ('f, 'a) outcome" where
  "map_err g (Ok a) = Ok a"
| "map_err g (Err e) = Err (g e)"
| "map_err g Panic = Panic"
| "map_err g Diverge = Diverge"

definition returns :: "('e, 'a) outcome \<Rightarrow> bool" where
  "returns r \<longleftrightarrow> (case r of Ok a \<Rightarrow> True | Err e \<Rightarrow> True | Panic \<Rightarrow> False | Diverge \<Rightarrow> False)"

lemma returns_simps [simp]:
  "returns (Ok a)" "returns (Err e)" "\<not> returns Panic" "\<not> returns Diverge"
  by (simp_all add: returns_def)

lemma and_then_Ok_iff [outcome_simps]:
  "and_then m f = Ok b \<longleftrightarrow> (\<exists>a. m = Ok a \<and> f a = Ok b)"
  by (cases m) auto

text \<open>
  Calls that also change a state \<open>'s\<close> (the disk behind the file system driver). The state
  left by a failing call is kept: a Rust function that returns \<open>Err\<close> has still made the
  writes it made before.
\<close>

type_synonym ('s, 'e, 'a) call = "'s \<Rightarrow> ('e, 'a) outcome \<times> 's"

definition ret :: "'a \<Rightarrow> ('s, 'e, 'a) call" where
  "ret a = (\<lambda>s. (Ok a, s))"

definition fail :: "'e \<Rightarrow> ('s, 'e, 'a) call" where
  "fail e = (\<lambda>s. (Err e, s))"

definition panic :: "('s, 'e, 'a) call" where
  "panic = (\<lambda>s. (Panic, s))"

definition diverge :: "('s, 'e, 'a) call" where
  "diverge = (\<lambda>s. (Diverge, s))"

definition bind :: "('s, 'e, 'a) call \<Rightarrow> ('a \<Rightarrow> ('s, 'e, 'b) call) \<Rightarrow> ('s, 'e, 'b) call" where
  "bind m f = (\<lambda>s. case m s of
     (Ok a, s') \<Rightarrow> f a s' | (Err e, s') \<Rightarrow> (Err e, s')
   | (Panic, s') \<Rightarrow> (Panic, s') | (Diverge, s') \<Rightarrow> (Diverge, s'))"

lemma call_simps [outcome_simps]:
  "ret a s = (Ok a, s)" "fail e s = (Err e, s)" "panic s = (Panic, s)" "diverge s = (Diverge, s)"
  by (simp_all add: ret_def fail_def panic_def diverge_def)

lemma bind_Ok [outcome_simps]: "m s = (Ok a, s') \<Longrightarrow> bind m f s = f a s'"
  by (simp add: bind_def)

lemma bind_not_Ok [outcome_simps]:
  "m s = (Err e, s') \<Longrightarrow> bind m f s = (Err e, s')"
  "m s = (Panic, s') \<Longrightarrow> bind m f s = (Panic, s')"
  "m s = (Diverge, s') \<Longrightarrow> bind m f s = (Diverge, s')"
  by (simp_all add: bind_def)

lemma bind_eq_Ok_iff:
  "bind m f s = (Ok b, t) \<longleftrightarrow> (\<exists>a s'. m s = (Ok a, s') \<and> f a s' = (Ok b, t))"
  by (auto simp: bind_def split: outcome.splits prod.splits)

lemma bind_agree:
  assumes "\<And>a s'. m s = (Ok a, s') \<Longrightarrow> f a s' = g a s'"
  shows "bind m f s = bind m g s"
  using assms by (cases "m s"; cases "fst (m s)") (auto simp: bind_def)

lemma bind_cases:
  assumes "bind m f s = (r, s')"
  obtains (ok) a t where "m s = (Ok a, t)" "f a t = (r, s')" | (err) e where "m s = (Err e, s')" "r = Err e"
    | (panic) "m s = (Panic, s')" "r = Panic" | (diverge) "m s = (Diverge, s')" "r = Diverge"
  using assms by (cases "m s"; cases "fst (m s)") (auto simp: bind_def)

text \<open>Assertions, changes of the state and calls that depend on it.\<close>

definition require :: "('s \<Rightarrow> bool) \<Rightarrow> ('s, 'e, unit) call" where
  "require p = (\<lambda>s. if p s then (Ok (), s) else (Panic, s))"

definition modify :: "('s \<Rightarrow> 's) \<Rightarrow> ('s, 'e, unit) call" where
  "modify f = (\<lambda>s. (Ok (), f s))"

definition reading :: "('s \<Rightarrow> ('s, 'e, 'a) call) \<Rightarrow> ('s, 'e, 'a) call" where
  "reading f = (\<lambda>s. f s s)"

text \<open>A call whose \<open>Err\<close> is looked at by the caller instead of leaving it.\<close>

definition attempt :: "('s, 'e, 'a) call \<Rightarrow> ('s, 'f, 'e + 'a) call" where
  "attempt c = (\<lambda>s. case c s of
     (Ok a, s') \<Rightarrow> (Ok (Inr a), s') | (Err e, s') \<Rightarrow> (Ok (Inl e), s')
   | (Panic, s') \<Rightarrow> (Panic, s') | (Diverge, s') \<Rightarrow> (Diverge, s'))"

text \<open>A computation that does not touch the state.\<close>

definition lift_outcome :: "('e, 'a) outcome \<Rightarrow> ('s, 'e, 'a) call" where
  "lift_outcome r = (\<lambda>s. (r, s))"

definition check_or_panic :: "bool \<Rightarrow> ('s, 'e, unit) call" where
  "check_or_panic b = (if b then ret () else panic)"

text \<open>Arithmetic on \<open>usize\<close> with the overflow checks of the development profile.\<close>

definition usize_add :: "nat \<Rightarrow> nat \<Rightarrow> ('s, 'e, nat) call" where
  "usize_add a b = (if a + b < 2 ^ 64 then ret (a + b) else panic)"

definition usize_sub :: "nat \<Rightarrow> nat \<Rightarrow> ('s, 'e, nat) call" where
  "usize_sub a b = (if b \<le> a then ret (a - b) else panic)"

lemma state_call_simps [outcome_simps]:
  "p s \<Longrightarrow> require p s = (Ok (), s)" "modify f s = (Ok (), f s)" "reading g s = g s s"
  by (simp_all add: require_def modify_def reading_def)

section \<open>Slices and in-place copies\<close>

text \<open>\<open>buf[i..i+n]\<close>, and \<open>buf[i..i+ys.len()].copy_from_slice(ys)\<close>.\<close>

definition chunk :: "nat \<Rightarrow> nat \<Rightarrow> 'a list \<Rightarrow> 'a list" where
  "chunk i n xs = take n (drop i xs)"

definition blit :: "nat \<Rightarrow> 'a list \<Rightarrow> 'a list \<Rightarrow> 'a list" where
  "blit i ys xs = take i xs @ ys @ drop (i + length ys) xs"

lemma length_chunk [simp, blit_simps]: "length (chunk i n xs) = min n (length xs - i)"
  by (simp add: chunk_def)

lemma length_blit [simp, blit_simps]:
  "i + length ys \<le> length xs \<Longrightarrow> length (blit i ys xs) = length xs"
  by (simp add: blit_def)

lemma nth_chunk [blit_simps]:
  "k < n \<Longrightarrow> i + k < length xs \<Longrightarrow> chunk i n xs ! k = xs ! (i + k)"
  by (simp add: chunk_def)

lemma nth_blit [blit_simps]:
  assumes "i + length ys \<le> length xs" and "k < length xs"
  shows "blit i ys xs ! k = (if i \<le> k \<and> k < i + length ys then ys ! (k - i) else xs ! k)"
  using assms by (auto simp: blit_def nth_append min_def)

lemma chunk_blit_same [simp, blit_simps]:
  "i + length ys \<le> length xs \<Longrightarrow> chunk i (length ys) (blit i ys xs) = ys"
  by (simp add: chunk_def blit_def)

lemma chunk_blit_disjoint [blit_simps]:
  assumes "i + length ys \<le> length xs" and "j + n \<le> length xs"
    and "j + n \<le> i \<or> i + length ys \<le> j"
  shows "chunk j n (blit i ys xs) = chunk j n xs"
proof (rule nth_equalityI)
  show "length (chunk j n (blit i ys xs)) = length (chunk j n xs)"
    using assms by simp
next
  fix k assume "k < length (chunk j n (blit i ys xs))"
  then have "k < n" "j + k < length xs" using assms by auto
  with assms show "chunk j n (blit i ys xs) ! k = chunk j n xs ! k"
    by (auto simp: nth_chunk nth_blit)
qed

lemma chunk_chunk: "i + m \<le> n \<Longrightarrow> chunk i m (chunk j n xs) = chunk (j + i) m xs"
  by (simp add: chunk_def drop_take add.commute min_def)

lemma chunk_blit_inside:
  assumes "j \<le> i" and "i + length ys \<le> j + n" and "j + n \<le> length xs"
  shows "chunk j n (blit i ys xs) = blit (i - j) ys (chunk j n xs)"
proof (rule nth_equalityI)
  show "length (chunk j n (blit i ys xs)) = length (blit (i - j) ys (chunk j n xs))"
    using assms by (simp add: blit_def chunk_def)
next
  fix k assume "k < length (chunk j n (blit i ys xs))"
  then have "k < n" "j + k < length xs" using assms by auto
  with assms show "chunk j n (blit i ys xs) ! k = blit (i - j) ys (chunk j n xs) ! k"
    by (auto simp: nth_chunk nth_blit add.commute)
qed

text \<open>Read a range, change a part of it, write it back: the part has changed.\<close>

lemma blit_read_modify_write:
  assumes "k + length ys \<le> n" and "j + n \<le> length xs"
  shows "blit j (blit k ys (chunk j n xs)) xs = blit (j + k) ys xs"
proof (rule nth_equalityI)
  show "length (blit j (blit k ys (chunk j n xs)) xs) = length (blit (j + k) ys xs)"
    using assms by simp
next
  fix i assume "i < length (blit j (blit k ys (chunk j n xs)) xs)"
  then have i: "i < length xs" using assms by simp
  with assms show "blit j (blit k ys (chunk j n xs)) xs ! i = blit (j + k) ys xs ! i"
    by (cases "j \<le> i \<and> i < j + n") (auto simp: nth_blit nth_chunk)
qed

lemma blit_whole [simp]: "length ys = length xs \<Longrightarrow> blit 0 ys xs = ys"
  by (simp add: blit_def)

lemma chunk_0_all [simp]: "length xs \<le> n \<Longrightarrow> chunk 0 n xs = xs"
  by (simp add: chunk_def)

section \<open>Raw allocations\<close>

text \<open>
  A heap block of \<open>n\<close> elements is a list of \<open>n\<close> cells, \<open>None\<close> for a cell that was never
  written. A raw access outside the block, or a read of an unwritten cell, is undefined
  behaviour in the source; here it is \<open>Panic\<close>, so a theorem that an operation returns
  \<open>Ok\<close> also shows that it stays inside its block.
\<close>

type_synonym 'a block = "'a option list"

text \<open>
  \<open>Layout::array::<T>(n).expect(..)\<close>: the array must fit into \<open>isize::MAX\<close> bytes. The bound
  is that of one-byte elements; for larger ones the allocator, which is taken to succeed,
  is asked for a block no machine has.
\<close>

definition layout_array_ok :: "nat \<Rightarrow> bool" where
  "layout_array_ok n \<longleftrightarrow> n < 2 ^ 63"

definition raw_alloc :: "nat \<Rightarrow> 'a block" where
  "raw_alloc n = replicate n None"

definition raw_read :: "'a block \<Rightarrow> nat \<Rightarrow> ('e, 'a) outcome" where
  "raw_read b i =
     (if i < length b then (case b ! i of Some x \<Rightarrow> Ok x | None \<Rightarrow> Panic) else Panic)"

definition raw_write :: "'a block \<Rightarrow> nat \<Rightarrow> 'a \<Rightarrow> ('e, 'a block) outcome" where
  "raw_write b i x = (if i < length b then Ok (b[i := Some x]) else Panic)"

text \<open>\<open>ptr::copy\<close> inside one block, overlapping ranges allowed.\<close>

definition raw_copy :: "'a block \<Rightarrow> nat \<Rightarrow> nat \<Rightarrow> nat \<Rightarrow> ('e, 'a block) outcome" where
  "raw_copy b src dst n =
     (if src + n \<le> length b \<and> dst + n \<le> length b then Ok (blit dst (chunk src n b) b) else Panic)"

lemma raw_read_Ok [simp]: "i < length b \<Longrightarrow> b ! i = Some x \<Longrightarrow> raw_read b i = Ok x"
  by (simp add: raw_read_def)

lemma raw_write_Ok [simp]: "i < length b \<Longrightarrow> raw_write b i x = Ok (b[i := Some x])"
  by (simp add: raw_write_def)

lemma length_raw_alloc [simp]: "length (raw_alloc n) = n"
  by (simp add: raw_alloc_def)

section \<open>Little-endian integers\<close>

definition u16_from_le_bytes :: "u8 \<Rightarrow> u8 \<Rightarrow> u16" where
  "u16_from_le_bytes b0 b1 = ucast b0 OR push_bit 8 (ucast b1)"

definition u16_to_le_bytes :: "u16 \<Rightarrow> u8 list" where
  "u16_to_le_bytes w = [ucast w, ucast (drop_bit 8 w)]"

definition u32_from_le_bytes :: "u8 \<Rightarrow> u8 \<Rightarrow> u8 \<Rightarrow> u8 \<Rightarrow> u32" where
  "u32_from_le_bytes b0 b1 b2 b3 =
     ucast b0 OR push_bit 8 (ucast b1) OR push_bit 16 (ucast b2) OR push_bit 24 (ucast b3)"

definition u32_to_le_bytes :: "u32 \<Rightarrow> u8 list" where
  "u32_to_le_bytes w =
     [ucast w, ucast (drop_bit 8 w), ucast (drop_bit 16 w), ucast (drop_bit 24 w)]"

lemma bit_u8_high [simp]: "8 \<le> n \<Longrightarrow> \<not> bit (b :: u8) n"
  using bit_imp_le_length [of b n] by auto

lemma length_to_le_bytes [simp]:
  "length (u16_to_le_bytes w) = 2" "length (u32_to_le_bytes v) = 4"
  by (simp_all add: u16_to_le_bytes_def u32_to_le_bytes_def)

lemma u16_le_roundtrip [simp, le_simps]:
  "u16_from_le_bytes (ucast w) (ucast (drop_bit 8 w)) = w"
  by (rule bit_word_eqI) (auto simp: u16_from_le_bytes_def bit_simps)

lemma u32_le_roundtrip [simp, le_simps]:
  "u32_from_le_bytes (ucast w) (ucast (drop_bit 8 w)) (ucast (drop_bit 16 w))
     (ucast (drop_bit 24 w)) = w"
proof (rule bit_word_eqI)
  fix n assume "n < LENGTH(32)"
  then consider "n < 8" | "8 \<le> n" "n < 16" | "16 \<le> n" "n < 24" | "24 \<le> n" "n < 32"
    by fastforce
  then show "bit (u32_from_le_bytes (ucast w) (ucast (drop_bit 8 w)) (ucast (drop_bit 16 w))
      (ucast (drop_bit 24 w))) n = bit w n"
    by cases (auto simp: u32_from_le_bytes_def bit_simps)
qed

lemma u16_to_from_le [simp, le_simps]:
  "u16_to_le_bytes (u16_from_le_bytes b0 b1) = [b0, b1]"
  by (auto simp: u16_to_le_bytes_def u16_from_le_bytes_def bit_simps intro!: bit_word_eqI)

lemma u32_to_from_le [simp, le_simps]:
  "u32_to_le_bytes (u32_from_le_bytes b0 b1 b2 b3) = [b0, b1, b2, b3]"
  by (auto simp: u32_to_le_bytes_def u32_from_le_bytes_def bit_simps intro!: bit_word_eqI)

section \<open>Powers of two\<close>

definition is_power_of_two :: "nat \<Rightarrow> bool" where
  "is_power_of_two n \<longleftrightarrow> n \<noteq> 0 \<and> n AND (n - 1) = 0"

text \<open>\<open>usize::next_power_of_two\<close>: the least power of two that is at least \<open>n\<close>.\<close>

function next_power_of_two_from :: "nat \<Rightarrow> nat \<Rightarrow> nat" where
  "next_power_of_two_from p n = (if p < n \<and> 0 < p then next_power_of_two_from (2 * p) n else p)"
  by pat_completeness auto
termination
  by (relation "measure (\<lambda>(p, n). n - p)") auto

declare next_power_of_two_from.simps [simp del]

definition next_power_of_two :: "nat \<Rightarrow> nat" where
  "next_power_of_two n = next_power_of_two_from 1 n"

lemma and_mask_mod: "(n :: nat) AND (2 ^ k - 1) = n mod 2 ^ k"
  by (metis mask_eq_exp_minus_1 take_bit_eq_mask take_bit_eq_mod)

lemma next_power_of_two_from_pow:
  "\<exists>k. p = 2 ^ k \<Longrightarrow> \<exists>k. next_power_of_two_from p n = 2 ^ k"
proof (induction p n rule: next_power_of_two_from.induct)
  case (1 p n)
  show ?case
  proof (cases "p < n \<and> 0 < p")
    case True
    from "1.prems" have "\<exists>k. 2 * p = 2 ^ k" by (metis power_Suc)
    with "1.IH" [OF True] True show ?thesis
      by (simp add: next_power_of_two_from.simps [of p n])
  next
    case False
    with "1.prems" show ?thesis by (auto simp: next_power_of_two_from.simps [of p n])
  qed
qed

lemma next_power_of_two_pow: "\<exists>k. next_power_of_two n = 2 ^ k"
  unfolding next_power_of_two_def by (rule next_power_of_two_from_pow) (metis power_0)

lemma next_power_of_two_from_ge: "0 < p \<Longrightarrow> n \<le> next_power_of_two_from p n"
proof (induction p n rule: next_power_of_two_from.induct)
  case (1 p n)
  show ?case
  proof (cases "p < n \<and> 0 < p")
    case True
    with "1.IH" [OF True] show ?thesis by (simp add: next_power_of_two_from.simps [of p n])
  next
    case False
    with "1.prems" show ?thesis by (auto simp: next_power_of_two_from.simps [of p n])
  qed
qed

lemma next_power_of_two_ge: "n \<le> next_power_of_two n"
  by (simp add: next_power_of_two_def next_power_of_two_from_ge)

lemma is_power_of_two_pow: "is_power_of_two n \<Longrightarrow> \<exists>k. n = 2 ^ k"
proof (induction n rule: less_induct)
  case (less n)
  show ?case
  proof (cases "odd n")
    case True
    then obtain m where m: "n = 2 * m + 1" by (elim oddE)
    with less.prems have "2 * (m AND m) = 0"
      unfolding is_power_of_two_def by (simp add: and_rec [of "Suc (2 * m)"])
    with m show ?thesis by (auto intro: exI [of _ 0])
  next
    case False
    then obtain m where m: "n = 2 * m" by auto
    with less.prems have m0: "0 < m" by (auto simp: is_power_of_two_def)
    then have "(2 * m - Suc 0) div 2 = m - Suc 0" by arith
    with less.prems m have "m AND (m - 1) = 0"
      unfolding is_power_of_two_def by (auto simp: and_rec [of "2 * m"])
    with m0 less.IH [of m] m obtain k where "m = 2 ^ k" by (auto simp: is_power_of_two_def)
    with m show ?thesis by (auto intro: exI [of _ "Suc k"])
  qed
qed

lemma pow_is_power_of_two: "is_power_of_two (2 ^ k)"
  using and_mask_mod [of "2 ^ k" k] by (simp add: is_power_of_two_def)

text \<open>Distinct offsets below the capacity are distinct cells of the ring.\<close>

lemma ring_offset_inj:
  assumes "i < c" "j < c" "((h :: nat) + i) mod c = (h + j) mod c"
  shows "i = j"
proof -
  have "(int h + int i) mod int c = (int h + int j) mod int c"
    using assms(3) by (metis of_nat_add of_nat_mod)
  then have "int i mod int c = int j mod int c"
    by (metis add_diff_cancel_left' mod_diff_left_eq)
  with assms(1,2) show ?thesis by simp
qed

text \<open>\<open>usize::wrapping_sub\<close> on 64 bits.\<close>

definition wrapping_sub64 :: "nat \<Rightarrow> nat \<Rightarrow> nat" where
  "wrapping_sub64 a b = (a + 2 ^ 64 - b) mod 2 ^ 64"

end
