(* ===== verification/Vector.thy ===== *)
theory Vector
  imports Mofu_Prelude
begin

text \<open>
  The kernel's own growable array (\<open>kernel/src/data_structures/vector.rs\<close>): a raw block, a
  size and a capacity. Growing moves the elements to a new block. The contract shared by
  the containers that are filled from the back is the locale \<open>back_pushable\<close>; the
  refinement lemmas show that every operation acts on the list \<open>vec_contents\<close>.
  Allocation is taken to succeed (the source aborts the kernel where it checks).
\<close>

section \<open>State and operations\<close>

record 'a vec =
  vec_size :: nat
  vec_capacity :: nat
  vec_data :: "'a block"

definition vec_with_capacity :: "nat \<Rightarrow> (unit, 'a vec) outcome" where
  "vec_with_capacity c =
     (if c > 0 \<and> layout_array_ok c then Ok \<lparr>vec_size = 0, vec_capacity = c, vec_data = raw_alloc c\<rparr> else Panic)"

definition vec_new :: "(unit, 'a vec) outcome" where
  "vec_new = vec_with_capacity 4"

definition vec_get :: "'a vec \<Rightarrow> nat \<Rightarrow> (unit, 'a) outcome" where
  "vec_get v i = (if i < vec_size v then raw_read (vec_data v) i else Panic)"

definition vec_set :: "'a vec \<Rightarrow> nat \<Rightarrow> 'a \<Rightarrow> (unit, 'a vec) outcome" where
  \<comment> \<open>a write through the reference returned by \<open>get_mut\<close>\<close>
  "vec_set v i x =
     (if i < vec_size v
      then and_then (raw_write (vec_data v) i x) (\<lambda>d. Ok (v\<lparr>vec_data := d\<rparr>)) else Panic)"

text \<open>
  \<open>resize\<close> first doubles \<open>self.capacity\<close> in a loop and then overwrites the result with
  \<open>new_capacity\<close>, so only \<open>new_capacity\<close> matters.
\<close>

definition vec_resize :: "nat \<Rightarrow> 'a vec \<Rightarrow> (unit, 'a vec) outcome" where
  "vec_resize new_capacity v =
     (if new_capacity \<le> vec_capacity v then Ok v
      else if \<not> layout_array_ok new_capacity then Panic
      else Ok (v\<lparr>vec_data := take (vec_size v) (vec_data v) @ raw_alloc (new_capacity - vec_size v),
                 vec_capacity := new_capacity\<rparr>))"

definition vec_reserve_one :: "'a vec \<Rightarrow> (unit, 'a vec) outcome" where
  \<comment> \<open>the growth test at the head of \<open>push\<close> and \<open>insert\<close>\<close>
  "vec_reserve_one v =
     (if vec_size v = vec_capacity v then vec_resize (vec_capacity v * 2) v else Ok v)"

definition vec_push :: "'a vec \<Rightarrow> 'a \<Rightarrow> (unit, 'a vec) outcome" where
  "vec_push v x =
     and_then (vec_reserve_one v) (\<lambda>v.
     and_then (raw_write (vec_data v) (vec_size v) x)
       (\<lambda>d. Ok (v\<lparr>vec_data := d, vec_size := vec_size v + 1\<rparr>)))"

definition vec_pop :: "'a vec \<Rightarrow> (unit, 'a option \<times> 'a vec) outcome" where
  "vec_pop v =
     (if vec_size v \<noteq> 0
      then (let n = vec_size v - 1 in
            and_then (raw_read (vec_data v) n) (\<lambda>x. Ok (Some x, v\<lparr>vec_size := n\<rparr>)))
      else Ok (None, v))"

definition vec_insert :: "'a vec \<Rightarrow> nat \<Rightarrow> 'a \<Rightarrow> (unit, 'a vec) outcome" where
  "vec_insert v i x =
     (if i \<le> vec_size v
      then and_then (vec_reserve_one v) (\<lambda>v.
           and_then (raw_copy (vec_data v) i (i + 1) (vec_size v - i)) (\<lambda>d.
           and_then (raw_write d i x)
             (\<lambda>d. Ok (v\<lparr>vec_data := d, vec_size := vec_size v + 1\<rparr>))))
      else Panic)"

definition vec_remove :: "'a vec \<Rightarrow> nat \<Rightarrow> (unit, 'a \<times> 'a vec) outcome" where
  "vec_remove v i =
     (if i < vec_size v
      then and_then (raw_read (vec_data v) i) (\<lambda>x.
           and_then (raw_copy (vec_data v) (i + 1) i (vec_size v - i - 1))
             (\<lambda>d. Ok (x, v\<lparr>vec_data := d, vec_size := vec_size v - 1\<rparr>)))
      else Panic)"

definition vec_clear :: "'a vec \<Rightarrow> 'a vec" where
  "vec_clear v = v\<lparr>vec_size := 0\<rparr>"

definition vec_as_slice :: "'a vec \<Rightarrow> 'a list" where
  "vec_as_slice v = (if vec_size v = 0 then [] else map the (take (vec_size v) (vec_data v)))"

definition vec_len :: "'a vec \<Rightarrow> nat" where
  "vec_len v = vec_size v"

definition vec_is_empty :: "'a vec \<Rightarrow> bool" where
  "vec_is_empty v \<longleftrightarrow> vec_size v = 0"

text \<open>\<open>retain\<close>: the loop over \<open>read_pos\<close> with \<open>n\<close> elements to go, and \<open>write_pos\<close>.\<close>

fun retain_loop :: "('a \<Rightarrow> bool) \<Rightarrow> 'a block \<Rightarrow> nat \<Rightarrow> nat \<Rightarrow> nat \<Rightarrow> (unit, 'a block \<times> nat) outcome" where
  "retain_loop p d read_pos 0 write_pos = Ok (d, write_pos)"
| "retain_loop p d read_pos (Suc n) write_pos =
     and_then (raw_read d read_pos) (\<lambda>x.
       if p x
       then and_then (if read_pos \<noteq> write_pos then raw_write d write_pos x else Ok d)
              (\<lambda>d. retain_loop p d (read_pos + 1) n (write_pos + 1))
       else retain_loop p d (read_pos + 1) n write_pos)"

definition vec_retain :: "('a \<Rightarrow> bool) \<Rightarrow> 'a vec \<Rightarrow> (unit, 'a vec) outcome" where
  "vec_retain p v =
     and_then (retain_loop p (vec_data v) 0 (vec_size v) 0)
       (\<lambda>(d, n). Ok (v\<lparr>vec_data := d, vec_size := n\<rparr>))"

fun vec_extend :: "'a vec \<Rightarrow> 'a list \<Rightarrow> (unit, 'a vec) outcome" where
  "vec_extend v [] = Ok v"
| "vec_extend v (x # xs) = and_then (vec_push v x) (\<lambda>v. vec_extend v xs)"

definition vec_from_iter :: "'a list \<Rightarrow> (unit, 'a vec) outcome" where
  "vec_from_iter xs = and_then vec_new (\<lambda>v. vec_extend v xs)"

definition vec_clone :: "'a vec \<Rightarrow> (unit, 'a vec) outcome" where
  "vec_clone v = and_then (vec_with_capacity (vec_capacity v)) (\<lambda>w. vec_extend w (vec_as_slice v))"

section \<open>Invariant and abstraction\<close>

definition vec_inv :: "'a vec \<Rightarrow> bool" where
  "vec_inv v \<longleftrightarrow> vec_capacity v = length (vec_data v) \<and> 0 < vec_capacity v
     \<and> vec_size v \<le> vec_capacity v \<and> (\<forall>i < vec_size v. vec_data v ! i \<noteq> None)"

definition vec_contents :: "'a vec \<Rightarrow> 'a list" where
  "vec_contents v = map the (take (vec_size v) (vec_data v))"

named_theorems vec_defs \<open>representation of a vector\<close>

lemmas vec_rep [vec_defs] = vec_inv_def vec_contents_def

lemma vec_as_slice_contents: "vec_as_slice v = vec_contents v"
  by (simp add: vec_as_slice_def vec_contents_def)

lemma vec_nth_cell: "vec_inv v \<Longrightarrow> i < vec_size v \<Longrightarrow> vec_data v ! i = Some (vec_contents v ! i)"
  by (auto simp: vec_defs)

lemma length_vec_contents: "vec_inv v \<Longrightarrow> length (vec_contents v) = vec_size v"
  by (simp add: vec_defs)

text \<open>A vector is described by its contents: the cells below the size hold them.\<close>

lemma vec_described:
  assumes "length (vec_data v) = vec_capacity v" "0 < vec_capacity v"
    and "length xs \<le> vec_capacity v" "vec_size v = length xs"
    and "\<And>i. i < length xs \<Longrightarrow> vec_data v ! i = Some (xs ! i)"
  shows "vec_inv v \<and> vec_contents v = xs"
  using assms by (auto simp: vec_defs intro!: nth_equalityI)

lemma vec_reserve_one:
  assumes "vec_inv v" and "length (vec_contents v) < 2 ^ 62"
  shows "\<exists>r. vec_reserve_one v = Ok r \<and> vec_inv r \<and> vec_contents r = vec_contents v
    \<and> vec_size r = vec_size v \<and> vec_size r < length (vec_data r)"
  using assms
  by (auto simp: vec_reserve_one_def vec_resize_def layout_array_ok_def vec_defs nth_append raw_alloc_def)

section \<open>Containers filled from the back\<close>

locale back_pushable =
  fixes invar :: "'v \<Rightarrow> bool" and contents :: "'v \<Rightarrow> 'a list"
    and push :: "'v \<Rightarrow> 'a \<Rightarrow> (unit, 'v) outcome" and limit :: nat
  assumes push_back_law: "invar v \<Longrightarrow> length (contents v) < limit \<Longrightarrow>
    \<exists>w. push v x = Ok w \<and> invar w \<and> contents w = contents v @ [x]"
begin

fun push_all :: "'v \<Rightarrow> 'a list \<Rightarrow> (unit, 'v) outcome" where
  "push_all v [] = Ok v"
| "push_all v (x # xs) = and_then (push v x) (\<lambda>v. push_all v xs)"

lemma push_all_contents:
  "invar v \<Longrightarrow> length (contents v) + length xs \<le> limit \<Longrightarrow>
    \<exists>w. push_all v xs = Ok w \<and> invar w \<and> contents w = contents v @ xs"
proof (induction xs arbitrary: v)
  case Nil
  then show ?case by simp
next
  case (Cons x xs)
  from push_back_law [OF Cons.prems(1), of x] Cons.prems(2) obtain u
    where u: "push v x = Ok u" "invar u" "contents u = contents v @ [x]" by auto
  from Cons.IH [OF u(2)] u Cons.prems(2) show ?case by auto
qed

end

lemma vec_push_refines:
  assumes "vec_inv v" and "length (vec_contents v) < 2 ^ 62"
  shows "\<exists>w. vec_push v x = Ok w \<and> vec_inv w \<and> vec_contents w = vec_contents v @ [x]"
proof -
  from vec_reserve_one [OF assms] obtain r where r: "vec_reserve_one v = Ok r" "vec_inv r"
    "vec_contents r = vec_contents v" "vec_size r < length (vec_data r)" by auto
  let ?w = "r\<lparr>vec_data := (vec_data r)[vec_size r := Some x], vec_size := vec_size r + 1\<rparr>"
  have "vec_inv ?w \<and> vec_contents ?w = vec_contents v @ [x]"
  proof (rule vec_described)
    fix i assume "i < length (vec_contents v @ [x])"
    then show "vec_data ?w ! i = Some ((vec_contents v @ [x]) ! i)"
      using r vec_nth_cell [OF r(2), of i] length_vec_contents [OF r(2)]
      by (auto simp: nth_append nth_list_update)
  qed (use r in \<open>auto simp: vec_inv_def length_vec_contents [OF r(2), unfolded r(3)]\<close>)
  with r show ?thesis by (auto simp: vec_push_def)
qed

interpretation vec: back_pushable vec_inv vec_contents vec_push "2 ^ 62"
  by unfold_locales (rule vec_push_refines)

lemma vec_extend_push_all: "vec_extend v xs = vec.push_all v xs"
  by (induction xs arbitrary: v) simp_all

section \<open>Refinement of the list operations\<close>

lemma vec_get_contents:
  "vec_inv v \<Longrightarrow> vec_get v i = (if i < length (vec_contents v) then Ok (vec_contents v ! i) else Panic)"
  using vec_nth_cell [of v i]
  by (auto simp: vec_get_def length_vec_contents vec_inv_def)

lemma vec_pop_contents:
  assumes "vec_inv v"
  shows "\<exists>w. vec_pop v = Ok (if vec_contents v = [] then None else Some (last (vec_contents v)), w)
    \<and> vec_inv w \<and> vec_contents w = butlast (vec_contents v)"
proof (cases "vec_size v")
  case 0
  with assms show ?thesis
    by (auto simp: vec_pop_def vec_contents_def)
next
  case (Suc n)
  from assms Suc have ne: "vec_contents v \<noteq> []" and ln: "length (vec_contents v) = Suc n"
    using length_vec_contents [OF assms] by auto
  from vec_nth_cell [OF assms, of n] Suc ln ne
  have rd: "vec_data v ! n = Some (last (vec_contents v))" by (simp add: last_conv_nth)
  let ?w = "v\<lparr>vec_size := n\<rparr>"
  have "vec_inv ?w \<and> vec_contents ?w = butlast (vec_contents v)"
    by (rule vec_described)
      (use assms Suc ln vec_nth_cell [OF assms] in \<open>auto simp: nth_butlast vec_inv_def\<close>)
  with assms Suc rd ne show ?thesis
    by (auto simp: vec_pop_def vec_inv_def Let_def)
qed

lemma vec_insert_contents:
  assumes "vec_inv v" and "length (vec_contents v) < 2 ^ 62" and "i \<le> length (vec_contents v)"
  shows "\<exists>w. vec_insert v i x = Ok w \<and> vec_inv w
    \<and> vec_contents w = take i (vec_contents v) @ x # drop i (vec_contents v)"
proof -
  let ?xs = "vec_contents v"
  from vec_reserve_one [OF assms(1,2)] obtain r where r: "vec_reserve_one v = Ok r" "vec_inv r"
    "vec_contents r = ?xs" "vec_size r < length (vec_data r)" "vec_size r = vec_size v" by auto
  let ?d = "(blit (i + 1) (chunk i (vec_size r - i) (vec_data r)) (vec_data r))[i := Some x]"
  let ?w = "r\<lparr>vec_data := ?d, vec_size := vec_size r + 1\<rparr>"
  have sz: "length ?xs = vec_size r" using length_vec_contents [OF r(2)] r(3) by simp
  have cell: "\<And>k. k < length ?xs \<Longrightarrow> vec_data r ! k = Some (?xs ! k)"
    using vec_nth_cell [OF r(2)] r(3) sz by simp
  have "vec_inv ?w \<and> vec_contents ?w = take i ?xs @ x # drop i ?xs"
  proof (rule vec_described)
    fix k assume "k < length (take i ?xs @ x # drop i ?xs)"
    then have "k < Suc (length ?xs)" using assms(3) by simp
    then show "vec_data ?w ! k = Some ((take i ?xs @ x # drop i ?xs) ! k)"
      using assms(3) r(4) sz cell
      by (auto simp: nth_list_update nth_blit nth_chunk nth_append nth_Cons' min_def)
  qed (use r assms(3) sz in \<open>auto simp: vec_inv_def\<close>)
  with r assms(3) sz show ?thesis
    by (auto simp: vec_insert_def raw_copy_def)
qed

lemma vec_remove_contents:
  assumes "vec_inv v" and "i < length (vec_contents v)"
  shows "\<exists>w. vec_remove v i = Ok (vec_contents v ! i, w) \<and> vec_inv w
    \<and> vec_contents w = take i (vec_contents v) @ drop (i + 1) (vec_contents v)"
proof -
  let ?xs = "vec_contents v"
  let ?d = "blit i (chunk (i + 1) (vec_size v - i - 1) (vec_data v)) (vec_data v)"
  let ?w = "v\<lparr>vec_data := ?d, vec_size := vec_size v - 1\<rparr>"
  have sz: "length ?xs = vec_size v" and le: "vec_size v \<le> length (vec_data v)"
    using length_vec_contents [OF assms(1)] assms(1) by (auto simp: vec_inv_def)
  have cell: "\<And>k. k < length ?xs \<Longrightarrow> vec_data v ! k = Some (?xs ! k)"
    using vec_nth_cell [OF assms(1)] sz by simp
  have "vec_inv ?w \<and> vec_contents ?w = take i ?xs @ drop (i + 1) ?xs"
  proof (rule vec_described)
    fix k assume "k < length (take i ?xs @ drop (i + 1) ?xs)"
    then have k: "k < vec_size v - 1" "k < length (vec_data v)" using assms(2) sz le by auto
    have "length (chunk (i + 1) (vec_size v - i - 1) (vec_data v)) = vec_size v - i - 1"
      using le by simp
    then show "vec_data ?w ! k = Some ((take i ?xs @ drop (i + 1) ?xs) ! k)"
      using assms(2) sz le cell k
      by (auto simp: nth_blit nth_chunk nth_append min_def)
  qed (use assms sz le in \<open>auto simp: vec_inv_def\<close>)
  with sz le assms(2) cell show ?thesis
    by (auto simp: vec_remove_def raw_copy_def)
qed

text \<open>C34: every list operation of the kernel vector acts on the list of its elements: push
  appends, pop takes the last element (\<open>None\<close> on an empty vector), insert and remove shift
  the tail, indexing panics out of range, and the representation invariant (no read or
  write outside the allocation) is kept.\<close>

theorem vec_refines_list:
  assumes "vec_inv v" and "length (vec_contents v) < 2 ^ 62" and "i \<le> length (vec_contents v)"
  shows "(\<exists>w. vec_push v x = Ok w \<and> vec_inv w \<and> vec_contents w = vec_contents v @ [x])
    \<and> (\<exists>w. vec_pop v = Ok (if vec_contents v = [] then None else Some (last (vec_contents v)), w)
         \<and> vec_inv w \<and> vec_contents w = butlast (vec_contents v))
    \<and> (\<exists>w. vec_insert v i x = Ok w \<and> vec_inv w
         \<and> vec_contents w = take i (vec_contents v) @ x # drop i (vec_contents v))
    \<and> (if i < length (vec_contents v)
       then \<exists>w. vec_remove v i = Ok (vec_contents v ! i, w) \<and> vec_inv w
              \<and> vec_contents w = take i (vec_contents v) @ drop (i + 1) (vec_contents v)
       else vec_remove v i = Panic)
    \<and> vec_get v i = (if i < length (vec_contents v) then Ok (vec_contents v ! i) else Panic)"
proof -
  have "\<not> i < length (vec_contents v) \<Longrightarrow> vec_remove v i = Panic"
    using length_vec_contents [OF assms(1)] by (simp add: vec_remove_def)
  then show ?thesis
    using vec_push_refines [OF assms(1,2)] vec_pop_contents [OF assms(1)]
      vec_insert_contents [OF assms] vec_remove_contents [OF assms(1)] vec_get_contents [OF assms(1)]
    by simp
qed

section \<open>Retain, collect and clone\<close>

text \<open>
  The loop keeps the accepted elements of the first \<open>read_pos\<close> cells in the first
  \<open>write_pos\<close> cells and leaves the unread cells alone.
\<close>

lemma retain_loop_filter:
  assumes "read_pos + n \<le> length d" "write_pos \<le> read_pos"
    and "map the (chunk read_pos n d) = xs" "\<forall>k < n. d ! (read_pos + k) \<noteq> None"
  shows "\<exists>d'. retain_loop p d read_pos n write_pos = Ok (d', write_pos + length (filter p xs))
    \<and> length d' = length d \<and> take write_pos d' = take write_pos d
    \<and> chunk write_pos (length (filter p xs)) d' = map Some (filter p xs)"
  using assms
proof (induction n arbitrary: d read_pos write_pos xs)
  case 0
  then show ?case by (simp add: chunk_def)
next
  case (Suc n)
  from Suc.prems(4) obtain x where x: "d ! read_pos = Some x" by fastforce
  have split: "chunk read_pos (Suc n) d = d ! read_pos # chunk (Suc read_pos) n d"
    using Suc.prems(1) by (simp add: chunk_def Cons_nth_drop_Suc [symmetric])
  with Suc.prems(3) x obtain ys where ys: "xs = x # ys" "map the (chunk (Suc read_pos) n d) = ys"
    by auto
  have rest: "\<forall>k < n. d ! (Suc read_pos + k) \<noteq> None"
    using Suc.prems(4) by (metis Suc_less_eq add_Suc_shift)
  show ?case
  proof (cases "p x")
    case False
    with Suc.IH [of "Suc read_pos" d write_pos ys] Suc.prems(1,2) ys rest x
    show ?thesis by simp
  next
    case True
    let ?d = "if read_pos \<noteq> write_pos then d[write_pos := Some x] else d"
    have d: "length ?d = length d" "?d ! write_pos = Some x" "write_pos < length ?d"
      using Suc.prems(1,2) x by auto
    have "chunk (Suc read_pos) n ?d = chunk (Suc read_pos) n d" "\<forall>k < n. ?d ! (Suc read_pos + k) \<noteq> None"
      using Suc.prems(2) rest by (auto simp: chunk_def nth_list_update)
    with Suc.IH [of "Suc read_pos" ?d "Suc write_pos" ys] Suc.prems(1,2) ys
    obtain d' where d': "retain_loop p ?d (Suc read_pos) n (Suc write_pos)
          = Ok (d', Suc write_pos + length (filter p ys))" "length d' = length d"
        "take (Suc write_pos) d' = take (Suc write_pos) ?d"
        "chunk (Suc write_pos) (length (filter p ys)) d' = map Some (filter p ys)"
      by (auto simp: d(1))
    from d'(3) d(2,3) d'(2) d(1) have nth: "d' ! write_pos = Some x"
      by (metis lessI nth_take)
    have "take write_pos (take (Suc write_pos) d') = take write_pos (take (Suc write_pos) ?d)"
      by (simp only: d'(3))
    then have "take write_pos d' = take write_pos d"
      by (simp add: min_def split: if_splits)
    moreover have "chunk write_pos (Suc (length (filter p ys))) d' = Some x # map Some (filter p ys)"
      using d'(2,4) nth d(1,3) by (simp add: chunk_def Cons_nth_drop_Suc [symmetric])
    moreover have "retain_loop p d read_pos (Suc n) write_pos
        = Ok (d', write_pos + length (filter p xs))"
      using d'(1) True x ys(1) d(1,3) Suc.prems(1) by (cases "read_pos = write_pos") simp_all
    ultimately show ?thesis
      using True ys(1) d'(2) by simp
  qed
qed

text \<open>\<open>retain\<close> compacts the vector in place to exactly the accepted elements, in order.\<close>

theorem vec_retain_filter:
  assumes "vec_inv v"
  shows "\<exists>w. vec_retain p v = Ok w \<and> vec_inv w \<and> vec_contents w = filter p (vec_contents v)"
proof -
  let ?ys = "filter p (vec_contents v)"
  have "map the (chunk 0 (vec_size v) (vec_data v)) = vec_contents v"
    by (simp add: chunk_def vec_contents_def)
  with retain_loop_filter [of 0 "vec_size v" "vec_data v" 0 "vec_contents v" p] assms
  obtain d where d: "retain_loop p (vec_data v) 0 (vec_size v) 0 = Ok (d, length ?ys)"
      "length d = length (vec_data v)" "chunk 0 (length ?ys) d = map Some ?ys"
    by (auto simp: vec_inv_def)
  have le: "length ?ys \<le> length d"
    using d(2) assms length_vec_contents [OF assms] length_filter_le [of p "vec_contents v"]
    by (simp add: vec_inv_def)
  let ?w = "v\<lparr>vec_data := d, vec_size := length ?ys\<rparr>"
  have "vec_inv ?w \<and> vec_contents ?w = ?ys"
  proof (rule vec_described)
    fix i assume "i < length ?ys"
    with d(3) le show "vec_data ?w ! i = Some (?ys ! i)"
      by (metis (no_types, lifting) add_0 length_map nth_chunk nth_map order_less_le_trans vec.select_convs(3) vec.surjective vec.update_convs(1,3))
  qed (use d assms le in \<open>auto simp: vec_inv_def\<close>)
  with d(1) show ?thesis by (auto simp: vec_retain_def)
qed

lemma vec_with_capacity_empty:
  "0 < c \<Longrightarrow> c < 2 ^ 63 \<Longrightarrow> \<exists>v. vec_with_capacity c = Ok v \<and> vec_inv v \<and> vec_contents v = []"
  by (auto simp: vec_with_capacity_def layout_array_ok_def vec_defs)

lemma vec_from_iter_contents:
  "length xs \<le> 2 ^ 62 \<Longrightarrow> \<exists>v. vec_from_iter xs = Ok v \<and> vec_inv v \<and> vec_contents v = xs"
proof -
  assume xs: "length xs \<le> 2 ^ 62"
  obtain v :: "'a vec" where v: "vec_with_capacity 4 = Ok v" "vec_inv v" "vec_contents v = []"
    using vec_with_capacity_empty [of 4] by auto
  from vec.push_all_contents [OF v(2), of xs] v xs show ?thesis
    by (simp add: vec_from_iter_def vec_new_def vec_extend_push_all)
qed

lemma vec_clone_contents:
  assumes "vec_inv v" and "vec_capacity v \<le> 2 ^ 62"
  shows "\<exists>w. vec_clone v = Ok w \<and> vec_inv w \<and> vec_contents w = vec_contents v"
proof -
  obtain w :: "'a vec" where w: "vec_with_capacity (vec_capacity v) = Ok w" "vec_inv w" "vec_contents w = []"
    using vec_with_capacity_empty [of "vec_capacity v", where 'a = 'a] assms(2)
      conjunct1 [OF conjunct2 [OF assms(1) [unfolded vec_inv_def]]] by auto
  have "length (vec_contents v) \<le> 2 ^ 62"
    using assms length_vec_contents [OF assms(1)] by (simp add: vec_inv_def)
  from vec.push_all_contents [OF w(2), of "vec_contents v"] w \<open>length (vec_contents v) \<le> 2 ^ 62\<close> show ?thesis
    by (simp add: vec_clone_def vec_extend_push_all vec_as_slice_contents)
qed

section \<open>Witnesses\<close>

definition sample_vec :: "nat vec" where
  "sample_vec = \<lparr>vec_size = 3, vec_capacity = 4, vec_data = [Some 5, Some 6, Some 7, None]\<rparr>"

lemma sample_vec_inv: "vec_inv sample_vec"
  by (auto simp: sample_vec_def vec_inv_def less_Suc_eq numeral_3_eq_3)

theorem vec_refines_list_witness:
  "\<exists>w. vec_insert sample_vec 1 (9 :: nat) = Ok w \<and> vec_inv w \<and> vec_contents w = [5, 9, 6, 7]"
proof -
  have "length (vec_contents sample_vec) < 2 ^ 62" "1 \<le> length (vec_contents sample_vec)"
    by (simp_all add: sample_vec_def vec_contents_def)
  from vec_refines_list [OF sample_vec_inv this, of 9] show ?thesis
    by (simp add: sample_vec_def vec_contents_def)
qed

theorem vec_retain_filter_witness:
  "\<exists>w. vec_retain even sample_vec = Ok w \<and> vec_inv w \<and> vec_contents w = [6]"
  using vec_retain_filter [OF sample_vec_inv, of even] by (simp add: sample_vec_def vec_contents_def)

end
