(* ===== verification/Dequeue.thy ===== *)
theory Dequeue
  imports Vector
begin

text \<open>
  The kernel's double-ended queue (\<open>kernel/src/data_structures/dequeue.rs\<close>): a ring in a
  raw block whose capacity is a power of two, so that an index wraps by masking. The locale
  \<open>deque\<close> states the contract of a double-ended queue over a list; \<open>dequeue_contents\<close>
  reads the list off the ring and the interpretation \<open>ring\<close> discharges the contract.
\<close>

section \<open>State and operations\<close>

record 'a dequeue =
  dq_head :: nat
  dq_tail :: nat
  dq_size :: nat
  dq_capacity :: nat
  dq_data :: "'a block"

definition dequeue_with_capacity :: "nat \<Rightarrow> (unit, 'a dequeue) outcome" where
  "dequeue_with_capacity c =
     (let capacity = (if is_power_of_two c then c else next_power_of_two c) in
      if capacity > 0 \<and> layout_array_ok capacity
      then Ok \<lparr>dq_head = 0, dq_tail = 0, dq_size = 0, dq_capacity = capacity,
               dq_data = raw_alloc capacity\<rparr>
      else Panic)"

definition dequeue_new :: "(unit, 'a dequeue) outcome" where
  "dequeue_new = dequeue_with_capacity 4"

definition wrap_index :: "'a dequeue \<Rightarrow> nat \<Rightarrow> nat" where
  "wrap_index dq index = index AND (dq_capacity dq - 1)"

text \<open>\<open>expand\<close>: the elements move to the start of a block of twice the capacity.\<close>

definition dequeue_expand :: "'a dequeue \<Rightarrow> (unit, 'a dequeue) outcome" where
  "dequeue_expand dq =
     (let new_capacity = dq_capacity dq * 2 in
      if \<not> layout_array_ok new_capacity then Panic
      else Ok (dq\<lparr>dq_head := 0, dq_tail := dq_size dq, dq_capacity := new_capacity,
                  dq_data := map (\<lambda>i. dq_data dq ! wrap_index dq (dq_head dq + i)) [0..<dq_size dq]
                             @ raw_alloc (new_capacity - dq_size dq)\<rparr>))"

definition dequeue_reserve_one :: "'a dequeue \<Rightarrow> (unit, 'a dequeue) outcome" where
  \<comment> \<open>the growth test at the head of \<open>push_back\<close> and \<open>push_front\<close>\<close>
  "dequeue_reserve_one dq = (if dq_size dq = dq_capacity dq then dequeue_expand dq else Ok dq)"

definition dequeue_push_back :: "'a dequeue \<Rightarrow> 'a \<Rightarrow> (unit, 'a dequeue) outcome" where
  "dequeue_push_back dq value =
     and_then (dequeue_reserve_one dq) (\<lambda>dq.
     and_then (raw_write (dq_data dq) (dq_tail dq) value) (\<lambda>d.
       Ok (dq\<lparr>dq_data := d, dq_tail := wrap_index dq (dq_tail dq + 1),
              dq_size := dq_size dq + 1\<rparr>)))"

definition dequeue_push_front :: "'a dequeue \<Rightarrow> 'a \<Rightarrow> (unit, 'a dequeue) outcome" where
  "dequeue_push_front dq value =
     and_then (dequeue_reserve_one dq) (\<lambda>dq.
       let head = wrap_index dq (wrapping_sub64 (dq_head dq) 1) in
       and_then (raw_write (dq_data dq) head value) (\<lambda>d.
         Ok (dq\<lparr>dq_head := head, dq_data := d, dq_size := dq_size dq + 1\<rparr>)))"

definition dequeue_pop_back :: "'a dequeue \<Rightarrow> (unit, 'a \<times> 'a dequeue) outcome" where
  "dequeue_pop_back dq =
     (if dq_size dq > 0
      then (let tail = wrap_index dq (wrapping_sub64 (dq_tail dq) 1) in
            and_then (raw_read (dq_data dq) tail)
              (\<lambda>value. Ok (value, dq\<lparr>dq_tail := tail, dq_size := dq_size dq - 1\<rparr>)))
      else Panic)"

definition dequeue_pop_front :: "'a dequeue \<Rightarrow> (unit, 'a \<times> 'a dequeue) outcome" where
  "dequeue_pop_front dq =
     (if dq_size dq > 0
      then and_then (raw_read (dq_data dq) (dq_head dq))
             (\<lambda>value. Ok (value, dq\<lparr>dq_head := wrap_index dq (dq_head dq + 1),
                                    dq_size := dq_size dq - 1\<rparr>))
      else Panic)"

definition dequeue_front :: "'a dequeue \<Rightarrow> (unit, 'a) outcome" where
  "dequeue_front dq = (if dq_size dq > 0 then raw_read (dq_data dq) (dq_head dq) else Panic)"

definition dequeue_back :: "'a dequeue \<Rightarrow> (unit, 'a) outcome" where
  "dequeue_back dq =
     (if dq_size dq > 0
      then raw_read (dq_data dq) (wrap_index dq (wrapping_sub64 (dq_tail dq) 1)) else Panic)"

definition dequeue_get :: "'a dequeue \<Rightarrow> nat \<Rightarrow> (unit, 'a) outcome" where
  "dequeue_get dq index =
     (if index < dq_size dq then raw_read (dq_data dq) (wrap_index dq (dq_head dq + index))
      else Panic)"

definition dequeue_len :: "'a dequeue \<Rightarrow> nat" where
  "dequeue_len dq = dq_size dq"

definition dequeue_is_empty :: "'a dequeue \<Rightarrow> bool" where
  "dequeue_is_empty dq \<longleftrightarrow> dq_size dq = 0"

definition dequeue_clear :: "'a dequeue \<Rightarrow> 'a dequeue" where
  "dequeue_clear dq = dq\<lparr>dq_head := 0, dq_tail := 0, dq_size := 0\<rparr>"

text \<open>\<open>Iter\<close>: the elements a \<open>for\<close> loop sees, from \<open>index\<close> on.\<close>

function dequeue_iter :: "'a dequeue \<Rightarrow> nat \<Rightarrow> (unit, 'a list) outcome" where
  "dequeue_iter dq index =
     (if index < dequeue_len dq
      then and_then (dequeue_get dq index) (\<lambda>item.
           and_then (dequeue_iter dq (index + 1)) (\<lambda>items. Ok (item # items)))
      else Ok [])"
  by pat_completeness auto
termination
  by (relation "measure (\<lambda>(dq, index). dequeue_len dq - index)") auto

declare dequeue_iter.simps [simp del]

text \<open>\<open>Drain\<close> dropped after \<open>n\<close> items: that many elements leave at the front.\<close>

fun dequeue_drain :: "nat \<Rightarrow> 'a dequeue \<Rightarrow> (unit, 'a dequeue) outcome" where
  "dequeue_drain 0 dq = Ok dq"
| "dequeue_drain (Suc n) dq = and_then (dequeue_pop_front dq) (\<lambda>(_, dq). dequeue_drain n dq)"

section \<open>Invariant and abstraction\<close>

definition dequeue_inv :: "'a dequeue \<Rightarrow> bool" where
  "dequeue_inv dq \<longleftrightarrow> (\<exists>k \<le> 62. dq_capacity dq = 2 ^ k) \<and> length (dq_data dq) = dq_capacity dq
     \<and> dq_head dq < dq_capacity dq \<and> dq_size dq \<le> dq_capacity dq
     \<and> dq_tail dq = (dq_head dq + dq_size dq) mod dq_capacity dq
     \<and> (\<forall>i < dq_size dq. dq_data dq ! ((dq_head dq + i) mod dq_capacity dq) \<noteq> None)"

definition dequeue_contents :: "'a dequeue \<Rightarrow> 'a list" where
  "dequeue_contents dq =
     map (\<lambda>i. the (dq_data dq ! ((dq_head dq + i) mod dq_capacity dq))) [0..<dq_size dq]"

lemma length_dequeue_contents [simp]: "length (dequeue_contents dq) = dq_size dq"
  by (simp add: dequeue_contents_def)

lemma dequeue_capacity_bounds:
  assumes "dequeue_inv dq"
  shows "0 < dq_capacity dq" "dq_capacity dq \<le> 2 ^ 62"
proof -
  from assms obtain k where "k \<le> 62" "dq_capacity dq = 2 ^ k"
    by (auto simp: dequeue_inv_def)
  then show "0 < dq_capacity dq" "dq_capacity dq \<le> 2 ^ 62"
    using power_increasing [of k 62 "2 :: nat"] by simp_all
qed

lemma wrap_index_mod:
  assumes "dequeue_inv dq"
  shows "wrap_index dq i = i mod dq_capacity dq"
proof -
  from assms obtain k where "dq_capacity dq = 2 ^ k" by (auto simp: dequeue_inv_def)
  then show ?thesis by (simp only: wrap_index_def and_mask_mod)
qed

text \<open>Stepping back by one with \<open>wrapping_sub\<close> and the mask is subtraction modulo the capacity.\<close>

lemma wrap_index_pred:
  assumes "dequeue_inv dq" and "i < dq_capacity dq"
  shows "wrap_index dq (wrapping_sub64 i 1) = (i + dq_capacity dq - 1) mod dq_capacity dq"
proof (cases i)
  case (Suc j)
  then have "wrapping_sub64 i 1 = j"
    using dequeue_capacity_bounds(2) [OF assms(1)] assms(2) by (simp add: wrapping_sub64_def)
  with Suc show ?thesis by (simp add: wrap_index_mod [OF assms(1)])
next
  case 0
  from assms(1) obtain k where k: "k \<le> 62" "dq_capacity dq = 2 ^ k"
    by (auto simp: dequeue_inv_def)
  have "(2 ^ 64 - 1 :: nat) mod 2 ^ k = 2 ^ k - 1"
  proof -
    have "(2 ^ 64 :: nat) = 2 ^ k * 2 ^ (64 - k)"
      using k(1) by (simp add: power_add [symmetric])
    moreover have "(2 ^ k * 2 ^ (64 - k) - 1 :: nat) = (2 ^ (64 - k) - 1) * 2 ^ k + (2 ^ k - 1)"
      by (simp add: algebra_simps)
    ultimately show ?thesis by (metis mod_mult_self3 mod_less diff_less zero_less_one
          zero_less_numeral zero_less_power)
  qed
  with 0 k(2) show ?thesis
    by (simp add: wrap_index_mod [OF assms(1)] wrapping_sub64_def)
qed

lemma dequeue_cell:
  assumes "dequeue_inv dq" and "i < dq_size dq"
  shows "dq_data dq ! ((dq_head dq + i) mod dq_capacity dq) = Some (dequeue_contents dq ! i)"
  using assms by (auto simp: dequeue_inv_def dequeue_contents_def)

lemma dequeue_described:
  assumes "k \<le> 62" "dq_capacity dq = 2 ^ k" "length (dq_data dq) = dq_capacity dq"
    "dq_head dq < dq_capacity dq" "length xs \<le> dq_capacity dq" "dq_size dq = length xs"
    "dq_tail dq = (dq_head dq + dq_size dq) mod dq_capacity dq"
    "\<And>i. i < length xs \<Longrightarrow> dq_data dq ! ((dq_head dq + i) mod dq_capacity dq) = Some (xs ! i)"
  shows "dequeue_inv dq \<and> dequeue_contents dq = xs"
proof
  show "dequeue_inv dq" unfolding dequeue_inv_def using assms by auto
  show "dequeue_contents dq = xs"
    using assms(6,8) by (auto simp: dequeue_contents_def intro!: nth_equalityI)
qed

section \<open>The contract of a double-ended queue\<close>

locale deque = back_pushable invar contents push_back limit
  for invar :: "'q \<Rightarrow> bool" and contents :: "'q \<Rightarrow> 'a list"
    and push_back :: "'q \<Rightarrow> 'a \<Rightarrow> (unit, 'q) outcome" and limit :: nat +
  fixes push_front :: "'q \<Rightarrow> 'a \<Rightarrow> (unit, 'q) outcome"
    and pop_front :: "'q \<Rightarrow> (unit, 'a \<times> 'q) outcome"
    and pop_back :: "'q \<Rightarrow> (unit, 'a \<times> 'q) outcome"
  assumes push_front_law: "invar q \<Longrightarrow> length (contents q) < limit \<Longrightarrow>
      \<exists>r. push_front q x = Ok r \<and> invar r \<and> contents r = x # contents q"
    and pop_front_law: "invar q \<Longrightarrow> contents q = x # xs \<Longrightarrow>
      \<exists>r. pop_front q = Ok (x, r) \<and> invar r \<and> contents r = xs"
    and pop_back_law: "invar q \<Longrightarrow> contents q = xs @ [x] \<Longrightarrow>
      \<exists>r. pop_back q = Ok (x, r) \<and> invar r \<and> contents r = xs"
    and pop_empty_law: "invar q \<Longrightarrow> contents q = [] \<Longrightarrow> pop_front q = Panic \<and> pop_back q = Panic"
begin

fun pop_fronts :: "nat \<Rightarrow> 'q \<Rightarrow> (unit, 'a list \<times> 'q) outcome" where
  "pop_fronts 0 q = Ok ([], q)"
| "pop_fronts (Suc n) q =
     and_then (pop_front q) (\<lambda>(x, q). and_then (pop_fronts n q) (\<lambda>(xs, q). Ok (x # xs, q)))"

lemma pop_fronts_contents:
  "invar q \<Longrightarrow> n \<le> length (contents q) \<Longrightarrow>
   \<exists>r. pop_fronts n q = Ok (take n (contents q), r) \<and> invar r \<and> contents r = drop n (contents q)"
proof (induction n arbitrary: q)
  case 0
  then show ?case by simp
next
  case (Suc n)
  then obtain x xs where xs: "contents q = x # xs" by (cases "contents q") auto
  with pop_front_law [OF Suc.prems(1)] obtain r
    where r: "pop_front q = Ok (x, r)" "invar r" "contents r = xs" by blast
  from Suc.IH [OF r(2)] r xs Suc.prems(2) show ?case by auto
qed

text \<open>First in, first out: what is pushed at the back of an empty queue leaves at the front
  in the same order.\<close>

lemma fifo:
  assumes "invar q" "contents q = []" "length xs \<le> limit"
  shows "\<exists>q' r. push_all q xs = Ok q' \<and> pop_fronts (length xs) q' = Ok (xs, r) \<and> contents r = []"
proof -
  from push_all_contents [OF assms(1), of xs] assms(2,3) obtain q'
    where q': "push_all q xs = Ok q'" "invar q'" "contents q' = xs" by auto
  with pop_fronts_contents [OF q'(2), of "length xs"] show ?thesis by auto
qed

end

section \<open>The ring implements the contract\<close>

lemma dequeue_expand_contents:
  assumes "dequeue_inv dq" and "dq_size dq < 2 ^ 62" and "dq_size dq = dq_capacity dq"
  shows "\<exists>r. dequeue_expand dq = Ok r \<and> dequeue_inv r \<and> dequeue_contents r = dequeue_contents dq
    \<and> dq_size r < dq_capacity r"
proof -
  from assms(1) obtain k where k: "k \<le> 62" "dq_capacity dq = 2 ^ k"
    by (auto simp: dequeue_inv_def)
  with assms(2,3) have "(2::nat) ^ k < 2 ^ 62" by simp
  then have k61: "Suc k \<le> 62" by (simp only: power_strict_increasing_iff Suc_le_eq)
  then have "(2::nat) ^ Suc k < 2 ^ 63"
    by (intro power_strict_increasing) auto
  then have ok: "layout_array_ok (dq_capacity dq * 2)"
    using k(2) by (simp add: layout_array_ok_def mult.commute)
  define r where "r = dq\<lparr>dq_head := 0, dq_tail := dq_size dq, dq_capacity := dq_capacity dq * 2,
    dq_data := map (\<lambda>i. dq_data dq ! wrap_index dq (dq_head dq + i)) [0..<dq_size dq]
      @ raw_alloc (dq_capacity dq * 2 - dq_size dq)\<rparr>"
  have "dequeue_inv r \<and> dequeue_contents r = dequeue_contents dq"
  proof (rule dequeue_described [of "Suc k"])
    fix i assume "i < length (dequeue_contents dq)"
    then show "dq_data r ! ((dq_head r + i) mod dq_capacity r) = Some (dequeue_contents dq ! i)"
      using dequeue_cell [OF assms(1), of i] assms(3)
      by (simp add: r_def wrap_index_mod [OF assms(1)] nth_append)
  qed (use k k61 assms(3) in \<open>auto simp: r_def\<close>)
  moreover have "dq_size r < dq_capacity r"
    using assms(3) dequeue_capacity_bounds(1) [OF assms(1)] by (simp add: r_def)
  ultimately show ?thesis
    using ok by (auto simp: dequeue_expand_def Let_def r_def)
qed

lemma dequeue_reserve_one:
  assumes "dequeue_inv dq" and "dq_size dq < 2 ^ 62"
  shows "\<exists>r. dequeue_reserve_one dq = Ok r \<and> dequeue_inv r
    \<and> dequeue_contents r = dequeue_contents dq \<and> dq_size r < dq_capacity r"
proof (cases "dq_size dq = dq_capacity dq")
  case True
  with dequeue_expand_contents [OF assms] show ?thesis by (simp add: dequeue_reserve_one_def)
next
  case False
  with assms(1) show ?thesis by (auto simp: dequeue_reserve_one_def dequeue_inv_def)
qed

lemma dequeue_push_back_contents:
  assumes "dequeue_inv dq" and "length (dequeue_contents dq) < 2 ^ 62"
  shows "\<exists>r. dequeue_push_back dq x = Ok r \<and> dequeue_inv r
    \<and> dequeue_contents r = dequeue_contents dq @ [x]"
proof -
  from dequeue_reserve_one [OF assms(1)] assms(2) obtain q where q: "dequeue_reserve_one dq = Ok q"
    "dequeue_inv q" "dequeue_contents q = dequeue_contents dq" "dq_size q < dq_capacity q" by auto
  from q(2) obtain k where k: "k \<le> 62" "dq_capacity q = 2 ^ k" by (auto simp: dequeue_inv_def)
  have t: "dq_tail q = (dq_head q + dq_size q) mod dq_capacity q" "dq_tail q < length (dq_data q)"
    "length (dq_data q) = dq_capacity q" "dq_head q < dq_capacity q"
    using q(2) dequeue_capacity_bounds(1) [OF q(2)] by (auto simp: dequeue_inv_def)
  define r where "r = q\<lparr>dq_data := (dq_data q)[dq_tail q := Some x],
    dq_tail := wrap_index q (dq_tail q + 1), dq_size := dq_size q + 1\<rparr>"
  have "dequeue_inv r \<and> dequeue_contents r = dequeue_contents q @ [x]"
  proof (rule dequeue_described [OF k(1)])
    show "dq_tail r = (dq_head r + dq_size r) mod dq_capacity r"
      by (simp add: r_def wrap_index_mod [OF q(2)] t(1) mod_Suc_eq)
    fix i assume "i < length (dequeue_contents q @ [x])"
    then have i: "i < Suc (dq_size q)" by simp
    show "dq_data r ! ((dq_head r + i) mod dq_capacity r) = Some ((dequeue_contents q @ [x]) ! i)"
    proof (cases "i = dq_size q")
      case True
      with t show ?thesis by (simp add: r_def nth_append)
    next
      case False
      with i have "i < dq_size q" by simp
      moreover with q(4) have "(dq_head q + i) mod dq_capacity q \<noteq> dq_tail q"
        using ring_offset_inj [of i "dq_capacity q" "dq_size q" "dq_head q"] t(1) by auto
      ultimately show ?thesis
        using dequeue_cell [OF q(2)] by (simp add: r_def nth_append)
    qed
  qed (use k t q(4) in \<open>auto simp: r_def\<close>)
  with q(1,3) t(2) show ?thesis by (auto simp: dequeue_push_back_def r_def)
qed

lemma dequeue_push_front_contents:
  assumes "dequeue_inv dq" and "length (dequeue_contents dq) < 2 ^ 62"
  shows "\<exists>r. dequeue_push_front dq x = Ok r \<and> dequeue_inv r
    \<and> dequeue_contents r = x # dequeue_contents dq"
proof -
  from dequeue_reserve_one [OF assms(1)] assms(2) obtain q where q: "dequeue_reserve_one dq = Ok q"
    "dequeue_inv q" "dequeue_contents q = dequeue_contents dq" "dq_size q < dq_capacity q" by auto
  from q(2) obtain k where k: "k \<le> 62" "dq_capacity q = 2 ^ k" by (auto simp: dequeue_inv_def)
  let ?c = "dq_capacity q" and ?h = "(dq_head q + dq_capacity q - 1) mod dq_capacity q"
  have t: "length (dq_data q) = ?c" "dq_head q < ?c" "?h < ?c"
    "dq_tail q = (dq_head q + dq_size q) mod ?c"
    using q(2) dequeue_capacity_bounds(1) [OF q(2)] by (auto simp: dequeue_inv_def)
  have step: "(?h + Suc i) mod ?c = (dq_head q + i) mod ?c" for i
  proof -
    have "(?h + Suc i) mod ?c = (dq_head q + ?c - 1 + Suc i) mod ?c" by (rule mod_add_left_eq)
    also have "dq_head q + ?c - 1 + Suc i = dq_head q + i + ?c" using t(2) by simp
    finally show ?thesis by simp
  qed
  define r where "r = q\<lparr>dq_head := ?h, dq_data := (dq_data q)[?h := Some x], dq_size := dq_size q + 1\<rparr>"
  have "dequeue_inv r \<and> dequeue_contents r = x # dequeue_contents q"
  proof (rule dequeue_described [OF k(1)])
    show "dq_tail r = (dq_head r + dq_size r) mod dq_capacity r"
      using step [of "dq_size q"] t(4) by (simp add: r_def)
    fix i assume i: "i < length (x # dequeue_contents q)"
    show "dq_data r ! ((dq_head r + i) mod dq_capacity r) = Some ((x # dequeue_contents q) ! i)"
    proof (cases i)
      case 0
      with t show ?thesis by (simp add: r_def)
    next
      case (Suc j)
      with i q(4) have j: "j < dq_size q" "Suc j < ?c" by auto
      have "(?h + Suc j) mod ?c \<noteq> ?h"
        using ring_offset_inj [of "Suc j" ?c 0 ?h] j(2) t(3) by auto
      with Suc j step [of j] dequeue_cell [OF q(2) j(1)] show ?thesis by (simp add: r_def)
    qed
  qed (use k t q(4) in \<open>auto simp: r_def\<close>)
  with q(1,3) t(1,2,3) show ?thesis
    by (auto simp: dequeue_push_front_def r_def Let_def wrap_index_pred [OF q(2) t(2), unfolded One_nat_def])
qed

lemma dequeue_pop_front_contents:
  assumes "dequeue_inv dq" and "dequeue_contents dq = x # xs"
  shows "\<exists>r. dequeue_pop_front dq = Ok (x, r) \<and> dequeue_inv r \<and> dequeue_contents r = xs"
proof -
  from assms(1) obtain k where k: "k \<le> 62" "dq_capacity dq = 2 ^ k" by (auto simp: dequeue_inv_def)
  let ?c = "dq_capacity dq"
  have sz: "dq_size dq = Suc (length xs)"
    using assms(2) length_dequeue_contents [of dq] by simp
  have t: "length (dq_data dq) = ?c" "dq_head dq < ?c" "dq_size dq \<le> ?c"
    "dq_tail dq = (dq_head dq + dq_size dq) mod ?c"
    using assms(1) by (auto simp: dequeue_inv_def)
  have cell: "i < Suc (length xs) \<Longrightarrow> dq_data dq ! ((dq_head dq + i) mod ?c) = Some ((x # xs) ! i)" for i
    using dequeue_cell [OF assms(1), of i] sz assms(2) by simp
  define r where "r = dq\<lparr>dq_head := wrap_index dq (dq_head dq + 1), dq_size := dq_size dq - 1\<rparr>"
  have "dequeue_inv r \<and> dequeue_contents r = xs"
  proof (rule dequeue_described [OF k(1)])
    show "dq_tail r = (dq_head r + dq_size r) mod dq_capacity r"
      using t(4) sz by (simp add: r_def wrap_index_mod [OF assms(1)] mod_add_left_eq)
    fix i assume "i < length xs"
    then show "dq_data r ! ((dq_head r + i) mod dq_capacity r) = Some (xs ! i)"
      using cell [of "Suc i"] by (simp add: r_def wrap_index_mod [OF assms(1)] mod_add_left_eq)
  qed (use k t sz dequeue_capacity_bounds(1) [OF assms(1)] in
      \<open>auto simp: r_def wrap_index_mod [OF assms(1)]\<close>)
  with cell [of 0] t sz show ?thesis by (auto simp: dequeue_pop_front_def r_def)
qed

lemma dequeue_pop_back_contents:
  assumes "dequeue_inv dq" and "dequeue_contents dq = xs @ [x]"
  shows "\<exists>r. dequeue_pop_back dq = Ok (x, r) \<and> dequeue_inv r \<and> dequeue_contents r = xs"
proof -
  from assms(1) obtain k where k: "k \<le> 62" "dq_capacity dq = 2 ^ k" by (auto simp: dequeue_inv_def)
  let ?c = "dq_capacity dq"
  have sz: "dq_size dq = Suc (length xs)"
    using assms(2) length_dequeue_contents [of dq] by simp
  have t: "length (dq_data dq) = ?c" "dq_head dq < ?c" "dq_size dq \<le> ?c"
    "dq_tail dq = (dq_head dq + dq_size dq) mod ?c" "dq_tail dq < ?c"
    using assms(1) dequeue_capacity_bounds(1) [OF assms(1)] by (auto simp: dequeue_inv_def)
  have tl: "wrap_index dq (wrapping_sub64 (dq_tail dq) 1) = (dq_head dq + length xs) mod ?c"
  proof -
    have "(dq_tail dq + (?c - 1)) mod ?c = (dq_head dq + dq_size dq + (?c - 1)) mod ?c"
      by (simp only: t(4) mod_add_left_eq)
    also have "dq_head dq + dq_size dq + (?c - 1) = dq_head dq + length xs + ?c"
      using sz t(2) by simp
    finally show ?thesis
      using t(2) by (simp add: wrap_index_pred [OF assms(1) t(5), unfolded One_nat_def])
  qed
  have cell: "i < Suc (length xs) \<Longrightarrow> dq_data dq ! ((dq_head dq + i) mod ?c) = Some ((xs @ [x]) ! i)" for i
    using dequeue_cell [OF assms(1), of i] sz assms(2) by simp
  define r where "r = dq\<lparr>dq_tail := (dq_head dq + length xs) mod ?c, dq_size := dq_size dq - 1\<rparr>"
  have "dequeue_inv r \<and> dequeue_contents r = xs"
    by (rule dequeue_described [OF k(1)]) (use k t sz cell in \<open>auto simp: r_def nth_append\<close>)
  with cell [of "length xs"] t sz tl dequeue_capacity_bounds(1) [OF assms(1)] show ?thesis
    by (auto simp: dequeue_pop_back_def r_def Let_def)
qed

lemma dequeue_pop_empty:
  "dequeue_contents dq = [] \<Longrightarrow> dequeue_pop_front dq = Panic \<and> dequeue_pop_back dq = Panic"
  using length_dequeue_contents [of dq] by (simp add: dequeue_pop_front_def dequeue_pop_back_def)

interpretation ring: deque dequeue_inv dequeue_contents dequeue_push_back "2 ^ 62"
  dequeue_push_front dequeue_pop_front dequeue_pop_back
proof (unfold_locales, goal_cases)
  case (1 q x) then show ?case by (rule dequeue_push_back_contents)
next
  case (2 q x) then show ?case by (rule dequeue_push_front_contents)
next
  case (3 q x xs) then show ?case by (rule dequeue_pop_front_contents)
next
  case (4 q xs x) then show ?case by (rule dequeue_pop_back_contents)
next
  case (5 q) then show ?case by (intro dequeue_pop_empty)
qed

section \<open>Creation, indexing and iteration\<close>

lemma dequeue_with_capacity_empty:
  assumes "dequeue_with_capacity c = Ok dq"
  shows "dequeue_inv dq \<and> dequeue_contents dq = []"
proof -
  let ?c = "if is_power_of_two c then c else next_power_of_two c"
  obtain k where k: "?c = 2 ^ k"
    using is_power_of_two_pow next_power_of_two_pow by (cases "is_power_of_two c") auto
  from assms have dq: "layout_array_ok ?c" "dq = \<lparr>dq_head = 0, dq_tail = 0, dq_size = 0,
      dq_capacity = ?c, dq_data = raw_alloc ?c\<rparr>"
    by (auto simp: dequeue_with_capacity_def Let_def split: if_splits)
  from dq(1) have "(2::nat) ^ k < 2 ^ 63" unfolding k by (simp add: layout_array_ok_def)
  then have "k \<le> 62" by (simp only: power_strict_increasing_iff)
  then show ?thesis
    using k dq(2) by (intro dequeue_described [of k]) auto
qed

lemma dequeue_get_contents:
  assumes "dequeue_inv dq"
  shows "dequeue_get dq i =
    (if i < length (dequeue_contents dq) then Ok (dequeue_contents dq ! i) else Panic)"
proof -
  have "(dq_head dq + i) mod dq_capacity dq < length (dq_data dq)"
    using assms dequeue_capacity_bounds(1) [OF assms] by (simp add: dequeue_inv_def)
  then show ?thesis
    using dequeue_cell [OF assms, of i] by (simp add: dequeue_get_def wrap_index_mod [OF assms])
qed

lemma dequeue_iter_contents:
  "dequeue_inv dq \<Longrightarrow> dequeue_iter dq i = Ok (drop i (dequeue_contents dq))"
proof (induction dq i rule: dequeue_iter.induct)
  case (1 dq i)
  show ?case
  proof (cases "i < dq_size dq")
    case True
    with 1 show ?thesis
      by (simp add: dequeue_iter.simps [of dq i] dequeue_len_def dequeue_get_contents
          Cons_nth_drop_Suc)
  next
    case False
    then show ?thesis by (simp add: dequeue_iter.simps [of dq i] dequeue_len_def)
  qed
qed

lemma dequeue_drain_contents:
  "dequeue_inv dq \<Longrightarrow> n \<le> length (dequeue_contents dq) \<Longrightarrow>
   \<exists>r. dequeue_drain n dq = Ok r \<and> dequeue_inv r \<and> dequeue_contents r = drop n (dequeue_contents dq)"
proof (induction n arbitrary: dq)
  case 0
  then show ?case by simp
next
  case (Suc n)
  then obtain x xs where xs: "dequeue_contents dq = x # xs" by (cases "dequeue_contents dq") auto
  from dequeue_pop_front_contents [OF Suc.prems(1) xs] obtain r
    where r: "dequeue_pop_front dq = Ok (x, r)" "dequeue_inv r" "dequeue_contents r = xs" by blast
  from Suc.IH [OF r(2)] r xs Suc.prems(2) show ?case by auto
qed

lemma dequeue_clear_contents:
  "dequeue_inv dq \<Longrightarrow> dequeue_inv (dequeue_clear dq) \<and> dequeue_contents (dequeue_clear dq) = []"
  using dequeue_capacity_bounds(1) [of dq]
  by (auto simp: dequeue_clear_def dequeue_inv_def dequeue_contents_def)

text \<open>C35: the ring buffer implements a double-ended queue over the list of its elements. For
  a queue below the layout limit, pushing at either end adds the value there (growing the
  ring when it is full), popping an end removes it, iteration yields the list, and both
  pops panic exactly on the empty queue.\<close>

theorem dequeue_refines_list:
  assumes "dequeue_inv dq" and "length (dequeue_contents dq) < 2 ^ 62"
  shows "(\<exists>r. dequeue_push_back dq x = Ok r \<and> dequeue_inv r
         \<and> dequeue_contents r = dequeue_contents dq @ [x])
    \<and> (\<exists>r. dequeue_push_front dq x = Ok r \<and> dequeue_inv r
         \<and> dequeue_contents r = x # dequeue_contents dq)
    \<and> (if dequeue_contents dq = [] then dequeue_pop_front dq = Panic \<and> dequeue_pop_back dq = Panic
       else (\<exists>r. dequeue_pop_front dq = Ok (hd (dequeue_contents dq), r) \<and> dequeue_inv r
                  \<and> dequeue_contents r = tl (dequeue_contents dq))
          \<and> (\<exists>r. dequeue_pop_back dq = Ok (last (dequeue_contents dq), r) \<and> dequeue_inv r
                  \<and> dequeue_contents r = butlast (dequeue_contents dq)))
    \<and> dequeue_iter dq 0 = Ok (dequeue_contents dq)"
proof (cases "dequeue_contents dq = []")
  case True
  with ring.push_back_law [OF assms, of x] ring.push_front_law [OF assms, of x]
    dequeue_pop_empty [OF True] dequeue_iter_contents [OF assms(1), of 0]
  show ?thesis by simp
next
  case False
  from ring.pop_front_law [OF assms(1), of "hd (dequeue_contents dq)" "tl (dequeue_contents dq)"]
    ring.pop_back_law [OF assms(1), of "butlast (dequeue_contents dq)" "last (dequeue_contents dq)"]
    ring.push_back_law [OF assms, of x] ring.push_front_law [OF assms, of x] False
    dequeue_iter_contents [OF assms(1), of 0]
  show ?thesis by simp
qed

section \<open>Witnesses\<close>

definition sample_dequeue :: "nat dequeue" where
  \<comment> \<open>a full ring whose elements wrap around the end of the block\<close>
  "sample_dequeue = \<lparr>dq_head = 3, dq_tail = 3, dq_size = 4, dq_capacity = 4,
     dq_data = [Some 11, Some 12, Some 13, Some 10]\<rparr>"

lemma sample_dequeue_inv: "dequeue_inv sample_dequeue \<and> dequeue_contents sample_dequeue = [10, 11, 12, 13]"
proof (rule dequeue_described [of 2])
  fix i assume "i < length [10 :: nat, 11, 12, 13]"
  then have "i = 0 \<or> i = 1 \<or> i = 2 \<or> i = 3" by auto
  then show "dq_data sample_dequeue ! ((dq_head sample_dequeue + i) mod dq_capacity sample_dequeue)
      = Some ([10, 11, 12, 13] ! i)"
    by (elim disjE) (simp_all add: sample_dequeue_def)
qed (simp_all add: sample_dequeue_def)

theorem dequeue_refines_list_witness:
  "\<exists>r. dequeue_push_front sample_dequeue 9 = Ok r \<and> dequeue_inv r
     \<and> dequeue_contents r = [9, 10, 11, 12, 13]"
proof -
  have "length (dequeue_contents sample_dequeue) < 2 ^ 62" by (simp add: sample_dequeue_inv)
  from dequeue_refines_list [OF conjunct1 [OF sample_dequeue_inv] this, of 9]
  show ?thesis by (simp add: sample_dequeue_inv)
qed

end
