(* ===== verification/Hash_Map_Fx.thy ===== *)
theory Hash_Map_Fx
  imports Mofu_Prelude
begin

text \<open>
  The open-addressing hash map used by the file cache
  (\<open>kernel/src/data_structures/hash_map_fx.rs\<close>; \<open>user/rustspace/src/data_structures.rs\<close> is
  the same text): linear probing over a table whose size is a power of two, deletion by
  tombstones (\<open>Dead\<close>), growth at three quarters of occupied slots. Keys are \<open>usize\<close>, as in
  every use of the type. The abstraction is the finite map of the occupied slots
  (\<open>fx_map\<close>); the locale \<open>keyed_store\<close> is the contract a client relies on.
\<close>

section \<open>The hasher\<close>

definition K :: u64 where
  "K = 0xf1357aea2e62a9c5"

definition add_to_hash :: "u64 \<Rightarrow> u64 \<Rightarrow> u64" where
  "add_to_hash hash i = (hash + i) * K"

definition finish_usize :: "u64 \<Rightarrow> u64" where
  "finish_usize hash = word_rotl 26 hash"

definition hasher_write :: "u64 \<Rightarrow> u8 list \<Rightarrow> u64" where
  "hasher_write hash bytes = foldl (\<lambda>h b. add_to_hash h (ucast b)) hash bytes"

section \<open>State and operations\<close>

datatype 'v slot = Empty | Dead | Occupied u64 'v

record 'v fxmap =
  fx_slots :: "'v slot list"
  fx_count :: nat

definition DEFAULT_CAPACITY :: nat where
  "DEFAULT_CAPACITY = 16"

definition fx_with_capacity :: "nat \<Rightarrow> (unit, 'v fxmap) outcome" where
  "fx_with_capacity c =
     (let capacity = max (next_power_of_two c) DEFAULT_CAPACITY in
      if layout_array_ok capacity
      then Ok \<lparr>fx_slots = replicate capacity Empty, fx_count = 0\<rparr> else Panic)"

definition fx_new :: "(unit, 'v fxmap) outcome" where
  "fx_new = fx_with_capacity DEFAULT_CAPACITY"

definition hash_index :: "u64 \<Rightarrow> nat \<Rightarrow> nat" where
  "hash_index key n = unat (finish_usize (add_to_hash 0 key) AND of_nat (n - 1))"

definition get_slot_index :: "'v fxmap \<Rightarrow> u64 \<Rightarrow> nat" where
  "get_slot_index m key = hash_index key (length (fx_slots m))"

definition fx_overloaded :: "'v fxmap \<Rightarrow> bool" where
  \<comment> \<open>\<open>(count + 1) * MAX_LOAD_FACTOR_DEN > slots.len() * MAX_LOAD_FACTOR_NUM\<close>\<close>
  "fx_overloaded m \<longleftrightarrow> (fx_count m + 1) * 4 > length (fx_slots m) * 3"

text \<open>The probe loop of \<open>get\<close>, \<open>get_mut\<close> and \<open>remove\<close>: \<open>n\<close> probes to go.\<close>

fun probe_find :: "'v slot list \<Rightarrow> u64 \<Rightarrow> nat \<Rightarrow> nat \<Rightarrow> nat \<Rightarrow> (nat \<times> 'v) option" where
  "probe_find slots key start probe 0 = None"
| "probe_find slots key start probe (Suc n) =
     (let idx = (start + probe) AND (length slots - 1) in
      case slots ! idx of
        Empty \<Rightarrow> None
      | Dead \<Rightarrow> probe_find slots key start (probe + 1) n
      | Occupied k v \<Rightarrow>
          if k = key then Some (idx, v) else probe_find slots key start (probe + 1) n)"

text \<open>The probe loop of \<open>insert\<close> and \<open>entry\<close>, which remembers the first tombstone.\<close>

datatype 'v spot = Vacant nat | Found nat 'v | NoSlot

fun probe_insert :: "'v slot list \<Rightarrow> u64 \<Rightarrow> nat \<Rightarrow> nat option \<Rightarrow> nat \<Rightarrow> nat \<Rightarrow> 'v spot" where
  "probe_insert slots key start first_dead probe 0 = NoSlot"
| "probe_insert slots key start first_dead probe (Suc n) =
     (let idx = (start + probe) AND (length slots - 1) in
      case slots ! idx of
        Empty \<Rightarrow> Vacant (case first_dead of Some i \<Rightarrow> i | None \<Rightarrow> idx)
      | Dead \<Rightarrow> probe_insert slots key start
                  (case first_dead of None \<Rightarrow> Some idx | Some i \<Rightarrow> Some i) (probe + 1) n
      | Occupied k v \<Rightarrow>
          if k = key then Found idx v
          else probe_insert slots key start first_dead (probe + 1) n)"

definition fx_find :: "'v fxmap \<Rightarrow> u64 \<Rightarrow> (nat \<times> 'v) option" where
  "fx_find m key =
     probe_find (fx_slots m) key (get_slot_index m key) 0 (length (fx_slots m))"

definition fx_spot :: "'v fxmap \<Rightarrow> u64 \<Rightarrow> 'v spot" where
  "fx_spot m key =
     probe_insert (fx_slots m) key (get_slot_index m key) None 0 (length (fx_slots m))"

definition fx_get :: "'v fxmap \<Rightarrow> u64 \<Rightarrow> 'v option" where
  "fx_get m key = map_option snd (fx_find m key)"

definition fx_contains_key :: "'v fxmap \<Rightarrow> u64 \<Rightarrow> bool" where
  "fx_contains_key m key \<longleftrightarrow> fx_get m key \<noteq> None"

text \<open>\<open>get_mut\<close>, with the change \<open>f\<close> the caller makes through the reference.\<close>

definition fx_modify :: "'v fxmap \<Rightarrow> u64 \<Rightarrow> ('v \<Rightarrow> 'v) \<Rightarrow> 'v fxmap" where
  "fx_modify m key f =
     (case fx_find m key of
        Some (idx, v) \<Rightarrow> m\<lparr>fx_slots := (fx_slots m)[idx := Occupied key (f v)]\<rparr>
      | None \<Rightarrow> m)"

definition fx_remove :: "'v fxmap \<Rightarrow> u64 \<Rightarrow> 'v option \<times> 'v fxmap" where
  "fx_remove m key =
     (case fx_find m key of
        Some (idx, v) \<Rightarrow>
          (Some v, m\<lparr>fx_slots := (fx_slots m)[idx := Dead], fx_count := fx_count m - 1\<rparr>)
      | None \<Rightarrow> (None, m))"

text \<open>
  \<open>insert\<close> after its growth test. A probe that meets no \<open>Empty\<close> slot ends in
  \<open>debug_assert!(false)\<close>.
\<close>

definition fx_insert_probe :: "'v fxmap \<Rightarrow> u64 \<Rightarrow> 'v \<Rightarrow> (unit, 'v option \<times> 'v fxmap) outcome" where
  "fx_insert_probe m key v =
     (case fx_spot m key of
        Vacant idx \<Rightarrow>
          Ok (None, m\<lparr>fx_slots := (fx_slots m)[idx := Occupied key v], fx_count := fx_count m + 1\<rparr>)
      | Found idx old \<Rightarrow> Ok (Some old, m\<lparr>fx_slots := (fx_slots m)[idx := Occupied key v]\<rparr>)
      | NoSlot \<Rightarrow> Panic)"

text \<open>
  \<open>grow\<close> reinserts every entry with \<open>insert\<close>, which may itself call \<open>grow\<close>: the depth of
  this mutual recursion is the first argument of \<open>fx_insert_depth\<close>. Two levels are enough
  (\<open>fx_insert_grow_once\<close> below).
\<close>

fun rehash :: "('v fxmap \<Rightarrow> u64 \<Rightarrow> 'v \<Rightarrow> (unit, 'v option \<times> 'v fxmap) outcome) \<Rightarrow>
    'v fxmap \<Rightarrow> 'v slot list \<Rightarrow> (unit, 'v fxmap) outcome" where
  "rehash ins m [] = Ok m"
| "rehash ins m (Occupied k v # ss) = and_then (ins m k v) (\<lambda>(_, m). rehash ins m ss)"
| "rehash ins m (s # ss) = rehash ins m ss"

definition fx_grow :: "('v fxmap \<Rightarrow> u64 \<Rightarrow> 'v \<Rightarrow> (unit, 'v option \<times> 'v fxmap) outcome) \<Rightarrow>
    'v fxmap \<Rightarrow> (unit, 'v fxmap) outcome" where
  "fx_grow ins m =
     (let new_cap = max (length (fx_slots m) * 2) DEFAULT_CAPACITY in
      if layout_array_ok new_cap
      then rehash ins \<lparr>fx_slots = replicate new_cap Empty, fx_count = 0\<rparr> (fx_slots m)
      else Panic)"

fun fx_insert_depth :: "nat \<Rightarrow> 'v fxmap \<Rightarrow> u64 \<Rightarrow> 'v \<Rightarrow> (unit, 'v option \<times> 'v fxmap) outcome" where
  "fx_insert_depth 0 m key v = Diverge"
| "fx_insert_depth (Suc d) m key v =
     (if fx_overloaded m
      then and_then (fx_grow (fx_insert_depth d) m) (\<lambda>m. fx_insert_probe m key v)
      else fx_insert_probe m key v)"

definition fx_insert :: "'v fxmap \<Rightarrow> u64 \<Rightarrow> 'v \<Rightarrow> (unit, 'v option \<times> 'v fxmap) outcome" where
  "fx_insert = fx_insert_depth 2"

text \<open>\<open>entry(key).or_insert_with(f)\<close>: the value found or created, and the map.\<close>

definition fx_or_insert :: "'v fxmap \<Rightarrow> u64 \<Rightarrow> 'v \<Rightarrow> (unit, 'v \<times> 'v fxmap) outcome" where
  "fx_or_insert m key dflt =
     and_then (if fx_overloaded m then fx_grow fx_insert m else Ok m) (\<lambda>m.
       case fx_spot m key of
         Vacant idx \<Rightarrow>
           Ok (dflt, m\<lparr>fx_slots := (fx_slots m)[idx := Occupied key dflt], fx_count := fx_count m + 1\<rparr>)
       | Found idx v \<Rightarrow> Ok (v, m)
       | NoSlot \<Rightarrow> Panic)"

definition fx_len :: "'v fxmap \<Rightarrow> nat" where
  "fx_len m = fx_count m"

definition fx_is_empty :: "'v fxmap \<Rightarrow> bool" where
  "fx_is_empty m \<longleftrightarrow> fx_count m = 0"

definition fx_clear :: "'v fxmap \<Rightarrow> 'v fxmap" where
  "fx_clear m = \<lparr>fx_slots = map (\<lambda>_. Empty) (fx_slots m), fx_count = 0\<rparr>"

fun occupied_entry :: "'v slot \<Rightarrow> (u64 \<times> 'v) option" where
  "occupied_entry (Occupied k v) = Some (k, v)"
| "occupied_entry _ = None"

definition fx_iter :: "'v fxmap \<Rightarrow> (u64 \<times> 'v) list" where
  "fx_iter m = List.map_filter occupied_entry (fx_slots m)"

definition fx_values :: "'v fxmap \<Rightarrow> 'v list" where
  "fx_values m = map snd (fx_iter m)"

section \<open>Invariant and abstraction\<close>

definition fx_at :: "'v slot list \<Rightarrow> u64 \<Rightarrow> nat \<Rightarrow> nat" where
  \<comment> \<open>the slot of the \<open>d\<close>-th probe for a key\<close>
  "fx_at slots key d = (hash_index key (length slots) + d) mod length slots"

definition reach :: "'v slot list \<Rightarrow> u64 \<Rightarrow> nat \<Rightarrow> bool" where
  "reach slots key i \<longleftrightarrow> (\<exists>d < length slots. i = fx_at slots key d
     \<and> (\<forall>e < d. slots ! fx_at slots key e \<noteq> Empty))"

definition slots_inv :: "'v slot list \<Rightarrow> bool" where
  "slots_inv slots \<longleftrightarrow> (\<exists>k. 4 \<le> k \<and> k \<le> 62 \<and> length slots = 2 ^ k)
     \<and> (\<forall>i < length slots. \<forall>key v. slots ! i = Occupied key v \<longrightarrow> reach slots key i)
     \<and> (\<forall>i < length slots. \<forall>j < length slots. \<forall>key v w.
          slots ! i = Occupied key v \<longrightarrow> slots ! j = Occupied key w \<longrightarrow> i = j)"

definition fx_inv :: "'v fxmap \<Rightarrow> bool" where
  "fx_inv m \<longleftrightarrow> slots_inv (fx_slots m) \<and> fx_count m = length (fx_iter m)
     \<and> fx_count m * 4 \<le> length (fx_slots m) * 3"

definition fx_map :: "'v fxmap \<Rightarrow> u64 \<Rightarrow> 'v option" where
  "fx_map m = map_of (fx_iter m)"

lemma slots_inv_length:
  assumes "slots_inv slots"
  obtains k where "4 \<le> k" "k \<le> 62" "length slots = 2 ^ k"
  using assms by (auto simp: slots_inv_def)

lemma slots_inv_pos: "slots_inv slots \<Longrightarrow> 0 < length slots"
  by (erule slots_inv_length) simp

lemma hash_index_mod:
  assumes "n = 2 ^ k" "k \<le> 62"
  shows "hash_index key n = unat (finish_usize (add_to_hash 0 key)) mod n"
proof -
  have "(of_nat (2 ^ k - 1) :: u64) = mask k"
    by (metis mask_eq_exp_minus_1 of_nat_mask_eq)
  then have "hash_index key n = unat (take_bit k (finish_usize (add_to_hash 0 key)))"
    by (simp only: hash_index_def assms(1) take_bit_eq_mask)
  also have "\<dots> = take_bit k (unat (finish_usize (add_to_hash 0 key)))"
    by (rule unsigned_take_bit_eq)
  finally show ?thesis by (simp only: take_bit_eq_mod assms(1))
qed

lemma fx_at_less [simp]: "slots_inv slots \<Longrightarrow> fx_at slots key d < length slots"
  unfolding fx_at_def by (rule mod_less_divisor) (rule slots_inv_pos)

lemma probe_idx:
  assumes "slots_inv slots"
  shows "(hash_index key (length slots) + d) AND (length slots - 1) = fx_at slots key d"
proof -
  from assms obtain k where "length slots = 2 ^ k" by (rule slots_inv_length)
  then show ?thesis by (simp only: fx_at_def and_mask_mod)
qed

text \<open>The probes of a key visit every slot.\<close>

lemma fx_at_surj:
  assumes "slots_inv slots" and "i < length slots"
  shows "\<exists>d < length slots. i = fx_at slots key d"
proof -
  let ?n = "length slots" and ?h = "hash_index key (length slots)"
  from assms(1) obtain k where k: "k \<le> 62" "?n = 2 ^ k" by (rule slots_inv_length)
  have h: "?h < ?n"
    using slots_inv_pos [OF assms(1)] by (simp add: hash_index_mod [OF k(2,1)])
  show ?thesis
  proof (cases "?h \<le> i")
    case True
    with assms(2) show ?thesis by (intro exI [of _ "i - ?h"]) (simp add: fx_at_def)
  next
    case False
    with assms(2) h show ?thesis by (intro exI [of _ "i + ?n - ?h"]) (simp add: fx_at_def)
  qed
qed

lemma fx_iter_set:
  "(key, v) \<in> set (fx_iter m) \<longleftrightarrow> (\<exists>i < length (fx_slots m). fx_slots m ! i = Occupied key v)"
proof -
  have "(key, v) \<in> set (fx_iter m) \<longleftrightarrow> (\<exists>s \<in> set (fx_slots m). occupied_entry s = Some (key, v))"
    by (force simp: fx_iter_def List.map_filter_def)
  also have "\<dots> \<longleftrightarrow> Occupied key v \<in> set (fx_slots m)"
    by (metis occupied_entry.simps occupied_entry.elims option.inject option.distinct(1) prod.inject)
  finally show ?thesis by (metis in_set_conv_nth)
qed

lemma fx_map_iff:
  assumes "slots_inv (fx_slots m)"
  shows "fx_map m key = Some v \<longleftrightarrow> (\<exists>i < length (fx_slots m). fx_slots m ! i = Occupied key v)"
proof
  assume "fx_map m key = Some v"
  then show "\<exists>i < length (fx_slots m). fx_slots m ! i = Occupied key v"
    unfolding fx_map_def by (metis fx_iter_set map_of_SomeD)
next
  assume ex: "\<exists>i < length (fx_slots m). fx_slots m ! i = Occupied key v"
  then have "(key, v) \<in> set (fx_iter m)" by (simp add: fx_iter_set)
  then obtain w where w: "fx_map m key = Some w" "(key, w) \<in> set (fx_iter m)"
    unfolding fx_map_def by (metis map_of_SomeD weak_map_of_SomeI)
  with ex assms have "w = v"
    unfolding fx_iter_set slots_inv_def by (metis slot.inject)
  with w show "fx_map m key = Some v" by simp
qed

lemma fx_map_None_iff:
  assumes "slots_inv (fx_slots m)"
  shows "fx_map m key = None \<longleftrightarrow> (\<forall>i < length (fx_slots m). \<forall>v. fx_slots m ! i \<noteq> Occupied key v)"
  using fx_map_iff [OF assms, of key] by (metis not_None_eq)

section \<open>The probe loops\<close>

text \<open>
  In both loops \<open>probe + n\<close> is the size of the table and the slots already probed were
  neither empty nor the key's.
\<close>

definition passed :: "'v slot list \<Rightarrow> u64 \<Rightarrow> nat \<Rightarrow> bool" where
  "passed slots key p \<longleftrightarrow>
     (\<forall>e < p. slots ! fx_at slots key e \<noteq> Empty \<and> (\<forall>v. slots ! fx_at slots key e \<noteq> Occupied key v))"

lemma probe_idx_Suc:
  assumes "slots_inv slots"
  shows "(hash_index key (length slots) + d) AND (length slots - Suc 0) = fx_at slots key d"
  using probe_idx [OF assms] by simp

lemma passed_Suc:
  "passed slots key p \<Longrightarrow> slots ! fx_at slots key p \<noteq> Empty \<Longrightarrow>
   (\<And>v. slots ! fx_at slots key p \<noteq> Occupied key v) \<Longrightarrow> passed slots key (Suc p)"
  by (auto simp: passed_def less_Suc_eq)

lemma passed_all_absent:
  assumes "slots_inv slots" "passed slots key (length slots)"
  shows "\<forall>i < length slots. slots ! i \<noteq> Empty \<and> (\<forall>v. slots ! i \<noteq> Occupied key v)"
  using assms fx_at_surj [OF assms(1), of _ key] by (metis passed_def)

text \<open>An empty slot on the way proves the key absent: its own slot would have been met first.\<close>

lemma passed_Empty_absent:
  assumes "slots_inv slots" "passed slots key p" "slots ! fx_at slots key p = Empty" "i < length slots"
  shows "slots ! i \<noteq> Occupied key v"
proof
  assume occ: "slots ! i = Occupied key v"
  with assms(1,4) have "reach slots key i" by (simp add: slots_inv_def)
  then obtain d where d: "i = fx_at slots key d" "\<forall>e < d. slots ! fx_at slots key e \<noteq> Empty"
    by (auto simp: reach_def)
  have "\<not> d < p" using assms(2) occ d(1) by (auto simp: passed_def)
  moreover have "d \<noteq> p" using occ d(1) assms(3) by auto
  ultimately show False using d(2) assms(3) by (metis nat_neq_iff)
qed

lemma probe_find_spec:
  assumes "slots_inv slots" "passed slots key p" "p + n = length slots"
  shows "case probe_find slots key (hash_index key (length slots)) p n of
      Some (i, v) \<Rightarrow> i < length slots \<and> slots ! i = Occupied key v
    | None \<Rightarrow> \<forall>i < length slots. \<forall>v. slots ! i \<noteq> Occupied key v"
  using assms(2,3)
proof (induction n arbitrary: p)
  case 0
  with passed_all_absent [OF assms(1)] show ?case by simp
next
  case (Suc n)
  let ?i = "fx_at slots key p"
  show ?case
  proof (cases "slots ! ?i")
    case Empty
    with Suc.prems passed_Empty_absent [OF assms(1)] show ?thesis
      by (simp add: probe_idx_Suc [OF assms(1)] Let_def)
  next
    case Dead
    with Suc.IH [of "Suc p"] Suc.prems passed_Suc [OF Suc.prems(1)] show ?thesis
      by (simp add: probe_idx_Suc [OF assms(1)] Let_def)
  next
    case (Occupied k v)
    show ?thesis
    proof (cases "k = key")
      case True
      with Occupied assms(1) show ?thesis by (simp add: probe_idx_Suc [OF assms(1)] Let_def)
    next
      case False
      with Occupied Suc.IH [of "Suc p"] Suc.prems passed_Suc [OF Suc.prems(1)] show ?thesis
        by (simp add: probe_idx_Suc [OF assms(1)] Let_def)
    qed
  qed
qed

lemma fx_find_spec:
  assumes "slots_inv (fx_slots m)"
  shows "fx_get m key = fx_map m key"
    and "fx_find m key = Some (i, v) \<Longrightarrow> i < length (fx_slots m) \<and> fx_slots m ! i = Occupied key v"
proof -
  have "passed (fx_slots m) key 0" by (simp add: passed_def)
  from probe_find_spec [OF assms this, of "length (fx_slots m)"]
  have *: "case fx_find m key of
      Some (i, v) \<Rightarrow> i < length (fx_slots m) \<and> fx_slots m ! i = Occupied key v
    | None \<Rightarrow> \<forall>i < length (fx_slots m). \<forall>v. fx_slots m ! i \<noteq> Occupied key v"
    by (simp add: fx_find_def get_slot_index_def)
  show "fx_get m key = fx_map m key"
  proof (cases "fx_find m key")
    case None
    with * fx_map_None_iff [OF assms, of key] show ?thesis by (simp add: fx_get_def)
  next
    case (Some r)
    with * fx_map_iff [OF assms, of key "snd r"] show ?thesis
      by (cases r) (auto simp: fx_get_def)
  qed
  show "fx_find m key = Some (i, v) \<Longrightarrow> i < length (fx_slots m) \<and> fx_slots m ! i = Occupied key v"
    using * by simp
qed

text \<open>A slot may take the key when it is free and the key can still be found there.\<close>

definition free_spot :: "'v slot list \<Rightarrow> u64 \<Rightarrow> nat \<Rightarrow> bool" where
  "free_spot slots key i \<longleftrightarrow> i < length slots \<and> (\<forall>k v. slots ! i \<noteq> Occupied k v)
     \<and> reach slots key i \<and> (\<forall>j < length slots. \<forall>v. slots ! j \<noteq> Occupied key v)"

lemma reach_passed:
  "passed slots key p \<Longrightarrow> d \<le> p \<Longrightarrow> d < length slots \<Longrightarrow> reach slots key (fx_at slots key d)"
  by (auto simp: reach_def passed_def)

lemma probe_insert_spec:
  assumes "slots_inv slots" "passed slots key p" "p + n = length slots"
    and "\<And>i. fd = Some i \<Longrightarrow> slots ! i = Dead \<and> (\<exists>d < p. i = fx_at slots key d)"
  shows "case probe_insert slots key (hash_index key (length slots)) fd p n of
      Vacant i \<Rightarrow> free_spot slots key i \<and> (\<exists>j < length slots. slots ! j = Empty)
    | Found i v \<Rightarrow> i < length slots \<and> slots ! i = Occupied key v
    | NoSlot \<Rightarrow> \<forall>i < length slots. slots ! i \<noteq> Empty \<and> (\<forall>v. slots ! i \<noteq> Occupied key v)"
  using assms(2-4)
proof (induction n arbitrary: p fd)
  case 0
  with passed_all_absent [OF assms(1)] show ?case by simp
next
  case (Suc n)
  let ?i = "fx_at slots key p"
  have i: "?i < length slots" using assms(1) by simp
  have pl: "p < length slots" using Suc.prems(2) by simp
  show ?case
  proof (cases "slots ! ?i")
    case Empty
    note absent = passed_Empty_absent [OF assms(1) Suc.prems(1) Empty]
    have "free_spot slots key (case fd of Some i \<Rightarrow> i | None \<Rightarrow> ?i)"
    proof (cases fd)
      case None
      with Empty i absent reach_passed [OF Suc.prems(1), of p] pl show ?thesis
        by (auto simp: free_spot_def)
    next
      case (Some j)
      with Suc.prems(3) obtain d where d: "slots ! j = Dead" "d < p" "j = fx_at slots key d" by auto
      with Some absent reach_passed [OF Suc.prems(1), of d] pl assms(1) show ?thesis
        by (auto simp: free_spot_def)
    qed
    with Empty i show ?thesis by (auto simp: probe_idx_Suc [OF assms(1)] Let_def)
  next
    case Dead
    let ?fd = "case fd of None \<Rightarrow> Some ?i | Some j \<Rightarrow> Some j"
    have "passed slots key (Suc p)" using passed_Suc [OF Suc.prems(1)] Dead by simp
    moreover have "slots ! j = Dead \<and> (\<exists>d < Suc p. j = fx_at slots key d)" if "?fd = Some j" for j
      using that Suc.prems(3) [of j] Dead by (auto split: option.splits intro: less_SucI)
    ultimately show ?thesis
      using Suc.IH [of "Suc p" ?fd] Suc.prems(2) Dead
      by (simp add: probe_idx_Suc [OF assms(1)] Let_def)
  next
    case (Occupied k v)
    show ?thesis
    proof (cases "k = key")
      case True
      with Occupied i show ?thesis by (simp add: probe_idx_Suc [OF assms(1)] Let_def)
    next
      case False
      have "passed slots key (Suc p)" using passed_Suc [OF Suc.prems(1)] Occupied False by simp
      from Suc.IH [OF this, of fd] Suc.prems(2,3) Occupied False show ?thesis
        by (simp add: probe_idx_Suc [OF assms(1)] Let_def less_Suc_eq) blast
    qed
  qed
qed

lemma fx_spot_spec:
  assumes "slots_inv (fx_slots m)"
  shows "case fx_spot m key of
      Vacant i \<Rightarrow> free_spot (fx_slots m) key i \<and> (\<exists>j < length (fx_slots m). fx_slots m ! j = Empty)
    | Found i v \<Rightarrow> i < length (fx_slots m) \<and> fx_slots m ! i = Occupied key v
    | NoSlot \<Rightarrow> \<forall>i < length (fx_slots m). fx_slots m ! i \<noteq> Empty \<and> (\<forall>v. fx_slots m ! i \<noteq> Occupied key v)"
  using probe_insert_spec [OF assms, of key 0 "length (fx_slots m)" None]
  by (simp add: fx_spot_def get_slot_index_def passed_def)

section \<open>Updates of one slot\<close>

lemma length_map_filter_update:
  "i < length xs \<Longrightarrow> length (List.map_filter f (xs[i := s])) + (if f (xs ! i) = None then 0 else 1)
     = length (List.map_filter f xs) + (if f s = None then 0 else 1)"
proof (induction xs arbitrary: i)
  case (Cons x xs)
  show ?case
  proof (cases i)
    case 0
    then show ?thesis by (simp split: option.splits)
  next
    case (Suc j)
    with Cons.IH [of j] Cons.prems show ?thesis
      by (cases "f x"; cases "f (xs ! j)"; cases "f s"; simp)
  qed
qed simp

lemma occupied_entry_None [simp]: "occupied_entry s = None \<longleftrightarrow> (\<forall>k v. s \<noteq> Occupied k v)"
  by (cases s) auto

lemma fx_at_update [simp]: "fx_at (slots[i := s]) = fx_at slots"
  by (intro ext) (simp add: fx_at_def)

lemma reach_update:
  "s \<noteq> Empty \<Longrightarrow> reach slots key i \<Longrightarrow> reach (slots[j := s]) key i"
  unfolding reach_def fx_at_update length_list_update by (metis nth_list_update_eq nth_list_update_neq
      linorder_not_less list_update_beyond)

text \<open>The three writes of the map: a new entry, a new value for a key, a tombstone.\<close>

lemma slots_inv_put:
  assumes inv: "slots_inv slots" and free: "free_spot slots key i"
  shows "slots_inv (slots[i := Occupied key v])"
  unfolding slots_inv_def
proof (intro conjI allI impI)
  show "\<exists>k. 4 \<le> k \<and> k \<le> 62 \<and> length (slots[i := Occupied key v]) = 2 ^ k"
    using inv by (simp add: slots_inv_def)
  fix j k w assume "j < length (slots[i := Occupied key v])" "slots[i := Occupied key v] ! j = Occupied k w"
  then have "reach slots k j"
    using inv free by (auto simp: slots_inv_def free_spot_def nth_list_update split: if_splits)
  then show "reach (slots[i := Occupied key v]) k j" by (rule reach_update [rotated]) simp
next
  fix j j' k w w'
  assume "j < length (slots[i := Occupied key v])" "j' < length (slots[i := Occupied key v])"
    "slots[i := Occupied key v] ! j = Occupied k w" "slots[i := Occupied key v] ! j' = Occupied k w'"
  then show "j = j'"
    using inv free by (auto simp: slots_inv_def free_spot_def nth_list_update split: if_splits)
qed

lemma slots_inv_set:
  assumes inv: "slots_inv slots" and occ: "i < length slots" "slots ! i = Occupied key w"
    and s: "s = Dead \<or> s = Occupied key v"
  shows "slots_inv (slots[i := s])"
  unfolding slots_inv_def
proof (intro conjI allI impI)
  show "\<exists>k. 4 \<le> k \<and> k \<le> 62 \<and> length (slots[i := s]) = 2 ^ k"
    using inv by (simp add: slots_inv_def)
  fix j k w' assume "j < length (slots[i := s])" "slots[i := s] ! j = Occupied k w'"
  then have "reach slots k j"
    using inv occ s by (auto simp: slots_inv_def nth_list_update split: if_splits)
  then show "reach (slots[i := s]) k j" using s by (auto intro: reach_update)
next
  fix j j' k u u'
  assume "j < length (slots[i := s])" "j' < length (slots[i := s])"
    "slots[i := s] ! j = Occupied k u" "slots[i := s] ! j' = Occupied k u'"
  then have "\<exists>u u'. slots ! j = Occupied k u \<and> slots ! j' = Occupied k u'" "j < length slots" "j' < length slots"
    using occ s by (auto simp: nth_list_update split: if_splits)
  then show "j = j'" using inv unfolding slots_inv_def by metis
qed

lemma fx_map_put:
  assumes "slots_inv (fx_slots m)" "slots_inv ((fx_slots m)[i := Occupied key v])"
    and "i < length (fx_slots m)" "\<And>k w. fx_slots m ! i = Occupied k w \<Longrightarrow> k = key"
  shows "fx_map (m\<lparr>fx_slots := (fx_slots m)[i := Occupied key v], fx_count := c\<rparr>)
    = (fx_map m)(key \<mapsto> v)"
    (is "fx_map ?m = _")
proof
  fix k
  note new = fx_map_iff [of ?m, simplified, OF assms(2)]
  show "fx_map ?m k = ((fx_map m)(key \<mapsto> v)) k"
  proof (cases "k = key")
    case True
    have "fx_map ?m key = Some v"
      unfolding new using assms(3) by (intro exI [of _ i]) simp
    with True show ?thesis by simp
  next
    case False
    have "fx_map ?m k = Some w \<longleftrightarrow> fx_map m k = Some w" for w
      unfolding new fx_map_iff [OF assms(1)]
      using False assms(3,4) by (auto simp: nth_list_update) metis+
    with False show ?thesis by (metis fun_upd_apply not_None_eq)
  qed
qed

lemma fx_map_kill:
  assumes "slots_inv (fx_slots m)" "slots_inv ((fx_slots m)[i := Dead])"
    and "i < length (fx_slots m)" "fx_slots m ! i = Occupied key w"
  shows "fx_map (m\<lparr>fx_slots := (fx_slots m)[i := Dead], fx_count := c\<rparr>) = (fx_map m)(key := None)"
    (is "fx_map ?m = _")
proof
  fix k
  note new = fx_map_iff [of ?m, simplified, OF assms(2)]
  have uniq: "j = i" if "j < length (fx_slots m)" "fx_slots m ! j = Occupied key u" for j u
    using that assms(1,3,4) unfolding slots_inv_def by metis
  show "fx_map ?m k = ((fx_map m)(key := None)) k"
  proof (cases "k = key")
    case True
    have "(fx_slots m)[i := Dead] ! j \<noteq> Occupied key u" if "j < length (fx_slots m)" for j u
      using uniq [OF that, of u] assms(3) by (cases "j = i") auto
    then have "fx_map ?m key \<noteq> Some u" for u
      unfolding new by blast
    with True show ?thesis by auto
  next
    case False
    have "fx_map ?m k = Some u \<longleftrightarrow> fx_map m k = Some u" for u
      unfolding new fx_map_iff [OF assms(1)]
      using False assms(3,4) by (auto simp: nth_list_update) (metis slot.inject)
    with False show ?thesis by (metis fun_upd_apply not_None_eq)
  qed
qed

lemma length_fx_iter_update:
  "i < length (fx_slots m) \<Longrightarrow>
   length (fx_iter (m\<lparr>fx_slots := (fx_slots m)[i := s], fx_count := c\<rparr>))
     + (if occupied_entry (fx_slots m ! i) = None then 0 else 1)
   = length (fx_iter m) + (if occupied_entry s = None then 0 else 1)"
  unfolding fx_iter_def using length_map_filter_update [of i "fx_slots m" occupied_entry s] by simp

section \<open>The operations on the abstract map\<close>

definition fx_room :: "'v fxmap \<Rightarrow> u64 \<Rightarrow> bool" where
  \<comment> \<open>a full probe for the key ends at an empty slot or at the key\<close>
  "fx_room m key \<longleftrightarrow> fx_map m key \<noteq> None \<or> (\<exists>i < length (fx_slots m). fx_slots m ! i = Empty)"

lemma fx_insert_probe_spec:
  assumes "fx_inv m" and "(fx_count m + 1) * 4 \<le> length (fx_slots m) * 3"
  shows "if fx_room m key
    then \<exists>m'. fx_insert_probe m key v = Ok (fx_map m key, m') \<and> fx_inv m'
           \<and> fx_map m' = (fx_map m)(key \<mapsto> v) \<and> length (fx_slots m') = length (fx_slots m)
           \<and> fx_count m' \<le> fx_count m + 1 \<and> (Dead \<notin> set (fx_slots m) \<longrightarrow> Dead \<notin> set (fx_slots m'))
    else fx_insert_probe m key v = Panic"
proof -
  have inv: "slots_inv (fx_slots m)" and cnt: "fx_count m = length (fx_iter m)"
    using assms(1) by (auto simp: fx_inv_def)
  note spec = fx_spot_spec [OF inv, of key]
  have dead: "Dead \<notin> set (fx_slots m) \<Longrightarrow> Dead \<notin> set ((fx_slots m)[i := Occupied key v])" for i
    using set_update_subset_insert [of "fx_slots m" i "Occupied key v"] by blast
  show ?thesis
  proof (cases "fx_spot m key")
    case (Vacant i)
    with spec have free: "free_spot (fx_slots m) key i" and room: "fx_room m key"
      by (auto simp: fx_room_def)
    then have i: "i < length (fx_slots m)" "occupied_entry (fx_slots m ! i) = None"
      "\<And>k w. fx_slots m ! i \<noteq> Occupied k w" "fx_map m key = None"
      using fx_map_None_iff [OF inv, of key] by (auto simp: free_spot_def)
    note inv' = slots_inv_put [OF inv free, of v]
    show ?thesis
      using room Vacant i inv' cnt assms(2) dead [of i]
        fx_map_put [OF inv inv' i(1)] length_fx_iter_update [OF i(1), where s = "Occupied key v" and c = "fx_count m + 1"]
      by (simp add: fx_insert_probe_def fx_inv_def)
  next
    case (Found i w)
    with spec have i: "i < length (fx_slots m)" "fx_slots m ! i = Occupied key w" by auto
    then have mp: "fx_map m key = Some w" using fx_map_iff [OF inv, of key w] by blast
    note inv' = slots_inv_set [OF inv i, of "Occupied key v" v, simplified]
    have eq: "fx_insert_probe m key v =
        Ok (Some w, m\<lparr>fx_slots := (fx_slots m)[i := Occupied key v], fx_count := fx_count m\<rparr>)"
      using Found by (simp add: fx_insert_probe_def)
    show ?thesis
      unfolding eq
      using Found i mp inv' cnt assms dead [of i]
        fx_map_put [OF inv inv' i(1), where c = "fx_count m"] length_fx_iter_update [OF i(1), where s = "Occupied key v" and c = "fx_count m"]
      by (simp add: fx_inv_def fx_room_def)
  next
    case NoSlot
    with spec have "\<not> fx_room m key"
      using fx_map_None_iff [OF inv, of key] by (auto simp: fx_room_def)
    with NoSlot show ?thesis by (simp add: fx_insert_probe_def)
  qed
qed

lemma fx_remove_spec:
  assumes "fx_inv m"
  shows "\<exists>m'. fx_remove m key = (fx_map m key, m') \<and> fx_inv m' \<and> fx_map m' = (fx_map m)(key := None)"
proof -
  have inv: "slots_inv (fx_slots m)" and cnt: "fx_count m = length (fx_iter m)"
    using assms by (auto simp: fx_inv_def)
  show ?thesis
  proof (cases "fx_find m key")
    case None
    then have "fx_map m key = None" using fx_find_spec(1) [OF inv, of key] by (simp add: fx_get_def)
    with None assms show ?thesis by (auto simp: fx_remove_def)
  next
    case (Some r)
    then obtain i w where r: "fx_find m key = Some (i, w)" by (cases r) auto
    from fx_find_spec(2) [OF inv r] have i: "i < length (fx_slots m)" "fx_slots m ! i = Occupied key w"
      by auto
    have mp: "fx_map m key = Some w"
      using fx_find_spec(1) [OF inv, of key] r by (simp add: fx_get_def)
    note inv' = slots_inv_set [OF inv i, of Dead, simplified]
    show ?thesis
      using r i mp inv' cnt assms fx_map_kill [OF inv inv' i]
        length_fx_iter_update [OF i(1), where s = Dead and c = "fx_count m - 1"]
      by (simp add: fx_remove_def fx_inv_def) arith
  qed
qed

lemma fx_modify_spec:
  assumes "fx_inv m"
  shows "fx_inv (fx_modify m key f)"
    "fx_map (fx_modify m key f) = (fx_map m)(key := map_option f (fx_map m key))"
proof -
  have inv: "slots_inv (fx_slots m)" and cnt: "fx_count m = length (fx_iter m)"
    using assms by (auto simp: fx_inv_def)
  have "fx_inv (fx_modify m key f) \<and>
      fx_map (fx_modify m key f) = (fx_map m)(key := map_option f (fx_map m key))"
  proof (cases "fx_find m key")
    case None
    then have "fx_map m key = None" using fx_find_spec(1) [OF inv, of key] by (simp add: fx_get_def)
    with None assms show ?thesis by (auto simp: fx_modify_def)
  next
    case (Some r)
    then obtain i w where r: "fx_find m key = Some (i, w)" by (cases r) auto
    from fx_find_spec(2) [OF inv r] have i: "i < length (fx_slots m)" "fx_slots m ! i = Occupied key w"
      by auto
    have mp: "fx_map m key = Some w"
      using fx_find_spec(1) [OF inv, of key] r by (simp add: fx_get_def)
    note inv' = slots_inv_set [OF inv i, of "Occupied key (f w)" "f w", simplified]
    have eq: "fx_modify m key f =
        m\<lparr>fx_slots := (fx_slots m)[i := Occupied key (f w)], fx_count := fx_count m\<rparr>"
      using r by (simp add: fx_modify_def)
    show ?thesis
      unfolding eq using i mp inv' cnt assms fx_map_put [OF inv inv' i(1), where c = "fx_count m"]
        length_fx_iter_update [OF i(1), where s = "Occupied key (f w)" and c = "fx_count m"]
      by (simp add: fx_inv_def)
  qed
  then show "fx_inv (fx_modify m key f)"
    "fx_map (fx_modify m key f) = (fx_map m)(key := map_option f (fx_map m key))" by auto
qed

section \<open>Growth\<close>

lemma distinct_keys:
  "(\<forall>i < length ss. \<forall>j < length ss. \<forall>key v w.
      ss ! i = Occupied key v \<longrightarrow> ss ! j = Occupied key w \<longrightarrow> i = j) \<Longrightarrow>
   distinct (map fst (List.map_filter occupied_entry ss))"
proof (induction ss)
  case (Cons s ss)
  have tail: "distinct (map fst (List.map_filter occupied_entry ss))"
    using Cons.prems by (intro Cons.IH) (metis Suc_less_eq Suc_inject length_Cons nth_Cons_Suc)
  show ?case
  proof (cases s)
    case (Occupied k v)
    have "(k, w) \<notin> set (List.map_filter occupied_entry ss)" for w
    proof
      assume "(k, w) \<in> set (List.map_filter occupied_entry ss)"
      then obtain j where "j < length ss" "ss ! j = Occupied k w"
        using fx_iter_set [of k w "\<lparr>fx_slots = ss, fx_count = 0\<rparr>"] by (auto simp: fx_iter_def)
      with Cons.prems Occupied show False
        by (metis Suc_less_eq length_Cons nth_Cons_0 nth_Cons_Suc old.nat.distinct(2) zero_less_Suc)
    qed
    with tail Occupied show ?thesis by force
  qed (use tail in simp_all)
qed simp

lemma fx_iter_distinct: "slots_inv (fx_slots m) \<Longrightarrow> distinct (map fst (fx_iter m))"
  unfolding fx_iter_def by (rule distinct_keys) (auto simp: slots_inv_def)

text \<open>A table without tombstones and below its load limit has an empty slot.\<close>

lemma fx_empty_slot:
  assumes "fx_inv m" "Dead \<notin> set (fx_slots m)"
  shows "\<exists>i < length (fx_slots m). fx_slots m ! i = Empty"
proof (rule ccontr)
  assume "\<not> ?thesis"
  then have "\<forall>s \<in> set (fx_slots m). s \<noteq> Empty" by (metis in_set_conv_nth)
  with assms(2) have "\<forall>s \<in> set (fx_slots m). occupied_entry s \<noteq> None"
    by (metis occupied_entry.simps(1) option.distinct(1) slot.exhaust)
  then have "length (fx_iter m) = length (fx_slots m)"
    unfolding fx_iter_def List.map_filter_def by (simp add: filter_id_conv)
  moreover have "0 < length (fx_slots m)" using assms(1) slots_inv_pos by (auto simp: fx_inv_def)
  ultimately show False using assms(1) by (auto simp: fx_inv_def)
qed

lemma fx_room_fresh: "fx_inv m \<Longrightarrow> Dead \<notin> set (fx_slots m) \<Longrightarrow> fx_room m key"
  using fx_empty_slot by (auto simp: fx_room_def)

text \<open>Reinsertion into a table that is large enough never grows again.\<close>

lemma rehash_spec:
  assumes ins: "\<And>m k v. \<not> fx_overloaded m \<Longrightarrow> ins m k v = fx_insert_probe m k v"
    and "fx_inv m" "Dead \<notin> set (fx_slots m)"
    and "(fx_count m + length (List.map_filter occupied_entry ss)) * 4 \<le> length (fx_slots m) * 3"
  shows "\<exists>m'. rehash ins m ss = Ok m' \<and> rehash fx_insert_probe m ss = Ok m' \<and> fx_inv m'
    \<and> Dead \<notin> set (fx_slots m') \<and> length (fx_slots m') = length (fx_slots m)
    \<and> fx_count m' \<le> fx_count m + length (List.map_filter occupied_entry ss)
    \<and> fx_map m' = fx_map m ++ map_of (rev (List.map_filter occupied_entry ss))"
  using assms(2-)
proof (induction ss arbitrary: m)
  case Nil
  then show ?case by simp
next
  case (Cons s ss)
  show ?case
  proof (cases s)
    case (Occupied k v)
    with Cons.prems(3) have load: "(fx_count m + 1) * 4 \<le> length (fx_slots m) * 3" by simp
    then have ins_m: "ins m k v = fx_insert_probe m k v" by (intro ins) (simp add: fx_overloaded_def)
    from fx_insert_probe_spec [OF Cons.prems(1) load, of k v] fx_room_fresh [OF Cons.prems(1,2), of k]
      Cons.prems(2)
    obtain q where q: "fx_insert_probe m k v = Ok (fx_map m k, q)" "fx_inv q"
      "Dead \<notin> set (fx_slots q)" "length (fx_slots q) = length (fx_slots m)"
      "fx_count q \<le> fx_count m + 1" "fx_map q = (fx_map m)(k \<mapsto> v)" by auto
    with Cons.IH [OF q(2,3)] Cons.prems(3) Occupied ins_m show ?thesis
      by (fastforce simp: map_add_upd_left)
  qed (use Cons in simp_all)
qed

lemma fx_with_capacity_inv:
  assumes "4 \<le> k" "k \<le> 62"
  shows "fx_inv \<lparr>fx_slots = replicate (2 ^ k) Empty, fx_count = 0\<rparr>"
    "fx_map \<lparr>fx_slots = replicate (2 ^ k) Empty, fx_count = 0\<rparr> = Map.empty"
  using assms by (auto simp: fx_inv_def slots_inv_def fx_map_def fx_iter_def List.map_filter_def)

lemma fx_grow_spec:
  assumes ins: "\<And>m k v. \<not> fx_overloaded m \<Longrightarrow> ins m k v = fx_insert_probe m k v"
    and "fx_inv m" "length (fx_slots m) < 2 ^ 62"
  shows "\<exists>m'. fx_grow ins m = Ok m' \<and> fx_grow fx_insert_probe m = Ok m' \<and> fx_inv m'
    \<and> Dead \<notin> set (fx_slots m') \<and> (fx_count m' + 1) * 4 \<le> length (fx_slots m') * 3
    \<and> fx_map m' = fx_map m"
proof -
  have inv: "slots_inv (fx_slots m)" and cnt: "fx_count m = length (fx_iter m)"
    "fx_count m * 4 \<le> length (fx_slots m) * 3" using assms(2) by (auto simp: fx_inv_def)
  from inv obtain k where k: "4 \<le> k" "k \<le> 62" "length (fx_slots m) = 2 ^ k" by (rule slots_inv_length)
  have k61: "Suc k \<le> 62"
    using assms(3) unfolding k(3) by (simp only: power_strict_increasing_iff Suc_le_eq)
  have "(16::nat) \<le> 2 ^ k" using power_increasing [OF k(1), of "2 :: nat"] by simp
  then have cap: "max (length (fx_slots m) * 2) DEFAULT_CAPACITY = 2 ^ Suc k"
    and len: "16 \<le> length (fx_slots m)" using k(3) by (auto simp: DEFAULT_CAPACITY_def)
  have ok: "layout_array_ok (2 ^ Suc k)"
    unfolding layout_array_ok_def using k61 by (intro power_strict_increasing) auto
  let ?new = "\<lparr>fx_slots = replicate (2 ^ Suc k) Empty, fx_count = 0\<rparr> :: 'a fxmap"
  have "fx_inv ?new" "fx_map ?new = Map.empty"
    using fx_with_capacity_inv [of "Suc k"] k(1) k61 by simp_all
  from rehash_spec [where ins = ins, OF ins this(1), of "fx_slots m"] this(2) cnt k(3)
  obtain r where r: "rehash ins ?new (fx_slots m) = Ok r"
    "rehash fx_insert_probe ?new (fx_slots m) = Ok r" "fx_inv r" "Dead \<notin> set (fx_slots r)"
    "length (fx_slots r) = 2 ^ Suc k" "fx_count r \<le> length (fx_iter m)"
    "fx_map r = map_of (rev (fx_iter m))" by (auto simp: fx_iter_def)
  have "fx_map r = fx_map m"
    using r(7) map_of_inject_set [of "rev (fx_iter m)" "fx_iter m"] fx_iter_distinct [OF inv]
    by (simp add: fx_map_def rev_map [symmetric])
  moreover have "(fx_count r + 1) * 4 \<le> length (fx_slots r) * 3"
    using r(5,6) cnt k(3) len by simp
  ultimately show ?thesis
    using r ok cap by (simp add: fx_grow_def Let_def)
qed

text \<open>
  The depth of the recursion between \<open>insert\<close> and \<open>grow\<close>: one growth, whose insertions do
  not grow again. Every deeper limit gives the same result.
\<close>

lemma fx_insert_grow_once:
  assumes "fx_inv m" "length (fx_slots m) < 2 ^ 62"
  shows "fx_insert_depth (Suc (Suc d)) m key v = fx_insert m key v"
proof -
  have "fx_grow (fx_insert_depth (Suc d')) m = fx_grow fx_insert_probe m" for d'
    using fx_grow_spec [of "fx_insert_depth (Suc d')", OF _ assms] by auto
  then show ?thesis by (simp add: fx_insert_def numeral_2_eq_2)
qed

lemma fx_insert_spec:
  assumes "fx_inv m" "length (fx_slots m) < 2 ^ 62"
  shows "if fx_overloaded m \<or> fx_room m key
    then \<exists>m'. fx_insert m key v = Ok (fx_map m key, m') \<and> fx_inv m' \<and> fx_map m' = (fx_map m)(key \<mapsto> v)
    else fx_insert m key v = Panic"
proof (cases "fx_overloaded m")
  case True
  from fx_grow_spec [of "fx_insert_depth (Suc 0)", OF _ assms] obtain q where q:
    "fx_grow (fx_insert_depth (Suc 0)) m = Ok q" "fx_inv q" "Dead \<notin> set (fx_slots q)"
    "(fx_count q + 1) * 4 \<le> length (fx_slots q) * 3" "fx_map q = fx_map m" by auto
  from fx_insert_probe_spec [OF q(2,4), of key v] fx_room_fresh [OF q(2,3), of key] q True
  show ?thesis by (auto simp: fx_insert_def numeral_2_eq_2)
next
  case False
  then have "(fx_count m + 1) * 4 \<le> length (fx_slots m) * 3" by (simp add: fx_overloaded_def)
  from fx_insert_probe_spec [OF assms(1) this, of key v] False show ?thesis
    by (auto simp: fx_insert_def numeral_2_eq_2 split: if_splits)
qed

lemma fx_or_insert_spec:
  assumes "fx_inv m" "length (fx_slots m) < 2 ^ 62" "fx_overloaded m \<or> fx_room m key"
  shows "\<exists>m'. fx_or_insert m key d = Ok (case fx_map m key of Some v \<Rightarrow> v | None \<Rightarrow> d, m') \<and> fx_inv m'
    \<and> fx_map m' = (case fx_map m key of Some v \<Rightarrow> fx_map m | None \<Rightarrow> (fx_map m)(key \<mapsto> d))"
proof -
  obtain q where q: "(if fx_overloaded m then fx_grow fx_insert m else Ok m) = Ok q" "fx_inv q"
    "fx_map q = fx_map m" "(fx_count q + 1) * 4 \<le> length (fx_slots q) * 3" "fx_room q key"
  proof (cases "fx_overloaded m")
    case True
    have "fx_insert q k v = fx_insert_probe q k v" if "\<not> fx_overloaded q" for q k and v :: 'a
      using that by (simp add: fx_insert_def numeral_2_eq_2)
    from fx_grow_spec [OF this assms(1,2)] True that fx_room_fresh show ?thesis by auto
  next
    case False
    with assms(1,3) that [of m] show ?thesis by (simp add: fx_overloaded_def)
  qed
  have inv: "slots_inv (fx_slots q)" using q(2) by (simp add: fx_inv_def)
  note ins = fx_insert_probe_spec [OF q(2,4), of key d] and spot = fx_spot_spec [OF inv, of key]
  show ?thesis
  proof (cases "fx_spot q key")
    case (Vacant i)
    with spot have "fx_map q key = None"
      using fx_map_None_iff [OF inv, of key] by (auto simp: free_spot_def)
    with Vacant ins q show ?thesis by (auto simp: fx_or_insert_def fx_insert_probe_def)
  next
    case (Found i w)
    with spot have "fx_map q key = Some w" using fx_map_iff [OF inv, of key w] by auto
    with Found q show ?thesis by (auto simp: fx_or_insert_def)
  next
    case NoSlot
    with ins q(5) show ?thesis by (simp add: fx_insert_probe_def)
  qed
qed

lemma fx_clear_spec:
  assumes "fx_inv m"
  shows "fx_inv (fx_clear m)" "fx_map (fx_clear m) = Map.empty"
proof -
  from assms obtain k where k: "4 \<le> k" "k \<le> 62" "length (fx_slots m) = 2 ^ k"
    using slots_inv_length by (auto simp: fx_inv_def)
  then have "fx_clear m = \<lparr>fx_slots = replicate (2 ^ k) Empty, fx_count = 0\<rparr>"
    by (simp add: fx_clear_def map_replicate_const)
  with fx_with_capacity_inv [OF k(1,2)] show "fx_inv (fx_clear m)" "fx_map (fx_clear m) = Map.empty"
    by simp_all
qed

section \<open>The contract of a keyed store\<close>

text \<open>
  \<open>insert\<close> may refuse; \<open>room\<close> says when it does not. An accepted insertion returns the
  value it replaces.
\<close>

locale keyed_store =
  fixes invar :: "'m \<Rightarrow> bool" and entries :: "'m \<Rightarrow> 'k \<Rightarrow> 'v option" and room :: "'m \<Rightarrow> 'k \<Rightarrow> bool"
    and get :: "'m \<Rightarrow> 'k \<Rightarrow> 'v option"
    and insert :: "'m \<Rightarrow> 'k \<Rightarrow> 'v \<Rightarrow> (unit, 'v option \<times> 'm) outcome"
    and remove :: "'m \<Rightarrow> 'k \<Rightarrow> 'v option \<times> 'm"
  assumes get_law: "invar m \<Longrightarrow> get m k = entries m k"
    and insert_law: "invar m \<Longrightarrow> room m k \<Longrightarrow>
      \<exists>m'. insert m k v = Ok (entries m k, m') \<and> invar m' \<and> entries m' = (entries m)(k \<mapsto> v)"
    and remove_law: "invar m \<Longrightarrow>
      \<exists>m'. remove m k = (entries m k, m') \<and> invar m' \<and> entries m' = (entries m)(k := None)"
begin

lemma insert_get:
  assumes "invar m" "room m k"
  shows "\<exists>m'. insert m k v = Ok (get m k, m') \<and> invar m'
    \<and> get m' j = (if j = k then Some v else get m j)"
  using insert_law [OF assms, of v] assms(1) by (auto simp: get_law)

text \<open>Insertion and removal undo each other, up to the previous value of the key.\<close>

lemma insert_remove:
  assumes "invar m" "room m k"
  shows "\<exists>m1 m2. insert m k v = Ok (get m k, m1) \<and> remove m1 k = (Some v, m2) \<and> invar m2
    \<and> get m2 k = None \<and> (\<forall>j. j \<noteq> k \<longrightarrow> get m2 j = get m j)"
proof -
  from insert_law [OF assms, of v] obtain m1 where m1: "insert m k v = Ok (entries m k, m1)"
    "invar m1" "entries m1 = (entries m)(k \<mapsto> v)" by auto
  from remove_law [OF m1(2), of k] m1(3) obtain m2 where m2: "remove m1 k = (Some v, m2)"
    "invar m2" "entries m2 = (entries m)(k := None)" by auto
  show ?thesis using m1 m2 assms by (auto simp: get_law)
qed

end

definition fx_accepts :: "'v fxmap \<Rightarrow> u64 \<Rightarrow> bool" where
  \<comment> \<open>the table can be doubled when it is overloaded; otherwise the probe finds a slot\<close>
  "fx_accepts m key \<longleftrightarrow> (if fx_overloaded m then length (fx_slots m) < 2 ^ 62 else fx_room m key)"

lemma fx_grow_too_large:
  assumes "fx_inv m" "\<not> length (fx_slots m) < 2 ^ 62"
  shows "fx_grow ins m = Panic"
proof -
  have "\<not> layout_array_ok (max (length (fx_slots m) * 2) DEFAULT_CAPACITY)"
    using assms(2) by (simp add: layout_array_ok_def)
  then show ?thesis by (simp add: fx_grow_def)
qed

lemma fx_insert_accepts:
  assumes "fx_inv m"
  shows "fx_accepts m key \<Longrightarrow>
      \<exists>m'. fx_insert m key v = Ok (fx_map m key, m') \<and> fx_inv m' \<and> fx_map m' = (fx_map m)(key \<mapsto> v)"
    and "\<not> fx_accepts m key \<Longrightarrow> fx_insert m key v = Panic"
proof -
  have "if fx_accepts m key
    then \<exists>m'. fx_insert m key v = Ok (fx_map m key, m') \<and> fx_inv m' \<and> fx_map m' = (fx_map m)(key \<mapsto> v)
    else fx_insert m key v = Panic"
  proof (cases "fx_overloaded m")
    case True
    with fx_insert_spec [OF assms, of key v] fx_grow_too_large [OF assms] show ?thesis
      by (cases "length (fx_slots m) < 2 ^ 62")
        (simp_all add: fx_accepts_def fx_insert_def numeral_2_eq_2)
  next
    case False
    then have "(fx_count m + 1) * 4 \<le> length (fx_slots m) * 3" by (simp add: fx_overloaded_def)
    from fx_insert_probe_spec [OF assms this, of key v] False show ?thesis
      by (auto simp: fx_accepts_def fx_insert_def numeral_2_eq_2 split: if_splits)
  qed
  then show "fx_accepts m key \<Longrightarrow>
      \<exists>m'. fx_insert m key v = Ok (fx_map m key, m') \<and> fx_inv m' \<and> fx_map m' = (fx_map m)(key \<mapsto> v)"
    and "\<not> fx_accepts m key \<Longrightarrow> fx_insert m key v = Panic" by simp_all
qed

lemma fx_get_map: "fx_inv m \<Longrightarrow> fx_get m key = fx_map m key"
  by (simp add: fx_inv_def fx_find_spec(1))

interpretation fx: keyed_store fx_inv fx_map fx_accepts fx_get fx_insert fx_remove
  by unfold_locales (auto simp: fx_get_map fx_insert_accepts fx_remove_spec)

section \<open>Properties\<close>

text \<open>C36: on every well-formed table \<open>get\<close>, \<open>get_mut\<close>, \<open>remove\<close> and \<open>iter\<close> act as lookup,
  update in place, deletion and enumeration (each key once) of the finite map of the occupied
  slots; \<open>insert\<close> acts as the update of the map and returns the replaced value exactly when it
  is accepted, and panics otherwise; every operation keeps the table well-formed.\<close>

theorem fx_refines_map:
  assumes "fx_inv m"
  shows "fx_get m key = fx_map m key
    \<and> (fx_map (fx_modify m key f) = (fx_map m)(key := map_option f (fx_map m key))
       \<and> fx_inv (fx_modify m key f))
    \<and> (\<exists>m'. fx_remove m key = (fx_map m key, m') \<and> fx_inv m' \<and> fx_map m' = (fx_map m)(key := None))
    \<and> distinct (map fst (fx_iter m)) \<and> map_of (fx_iter m) = fx_map m \<and> fx_len m = length (fx_iter m)
    \<and> (if fx_accepts m key
       then \<exists>m'. fx_insert m key v = Ok (fx_map m key, m') \<and> fx_inv m'
              \<and> fx_map m' = (fx_map m)(key \<mapsto> v)
       else fx_insert m key v = Panic)"
proof -
  have "distinct (map fst (fx_iter m))" "fx_len m = length (fx_iter m)"
    using assms by (simp_all add: fx_inv_def fx_iter_distinct fx_len_def)
  moreover have "map_of (fx_iter m) = fx_map m" by (simp add: fx_map_def)
  ultimately show ?thesis
    using fx_get_map [OF assms] fx_modify_spec [OF assms] fx_remove_spec [OF assms]
      fx_insert_accepts [OF assms, of key v] by simp
qed

definition fx_fresh :: "'v fxmap" where
  "fx_fresh = \<lparr>fx_slots = replicate 16 Empty, fx_count = 0\<rparr>"

lemma fx_new_eq: "fx_new = Ok fx_fresh"
proof -
  have "max (next_power_of_two 16) 16 = 16" by code_simp
  then show ?thesis
    by (simp add: fx_new_def fx_with_capacity_def fx_fresh_def DEFAULT_CAPACITY_def layout_array_ok_def)
qed

lemma fx_fresh_inv: "fx_inv fx_fresh"
  using fx_with_capacity_inv(1) [of 4] by (simp add: fx_fresh_def)

lemma fx_fresh_accepts: "fx_accepts fx_fresh key"
  using fx_room_fresh [OF fx_fresh_inv, of key]
  by (simp add: fx_accepts_def fx_overloaded_def) (simp add: fx_fresh_def)

theorem fx_refines_map_witness:
  "\<exists>m m'. fx_new = Ok m \<and> fx_insert m 7 (3 :: nat) = Ok (None, m') \<and> fx_map m' 7 = Some 3"
proof -
  have "fx_map fx_fresh 7 = (None :: nat option)"
    by (simp add: fx_map_def fx_iter_def List.map_filter_def fx_fresh_def)
  with fx_refines_map [OF fx_fresh_inv, of 7 id "3 :: nat"] fx_fresh_accepts [of 7, where 'a = nat]
  show ?thesis unfolding fx_new_eq by (metis fun_upd_same)
qed

text \<open>From any well-formed table, an accepted \<open>insert\<close> followed by \<open>remove\<close> of the same key
  gives the inserted value back and leaves every other key as it was.\<close>

theorem fx_insert_remove:
  assumes "fx_inv m" "fx_accepts m key"
  shows "\<exists>m1 m2. fx_insert m key v = Ok (fx_get m key, m1) \<and> fx_remove m1 key = (Some v, m2)
    \<and> fx_inv m2 \<and> fx_get m2 key = None \<and> (\<forall>j. j \<noteq> key \<longrightarrow> fx_get m2 j = fx_get m j)"
  using assms by (rule fx.insert_remove)

theorem fx_insert_remove_witness:
  "\<exists>m0 m1 m2. fx_new = Ok m0 \<and> fx_insert m0 7 (3 :: nat) = Ok (fx_get m0 7, m1)
    \<and> fx_remove m1 7 = (Some 3, m2)"
  using fx_insert_remove [OF fx_fresh_inv fx_fresh_accepts, of 7 "3 :: nat"] by (auto simp: fx_new_eq)

section \<open>Tombstones\<close>

text \<open>
  Tombstones are not counted by the load test and never turned back into empty slots, so a
  table may run out of empty slots while it is empty as a map.
\<close>

definition churn_keys :: "u64 list" where
  "churn_keys = [11, 7, 3, 14, 10, 6, 17, 2, 9, 20, 5, 1, 23, 8, 4, 26]"

fun fx_churn :: "'v \<Rightarrow> u64 list \<Rightarrow> 'v fxmap \<Rightarrow> (unit, 'v fxmap) outcome" where
  \<comment> \<open>insert and remove each key in turn\<close>
  "fx_churn v [] m = Ok m"
| "fx_churn v (k # ks) m = and_then (fx_insert m k v) (\<lambda>(_, m). fx_churn v ks (snd (fx_remove m k)))"

lemma churn_keys_hash: "map (\<lambda>k. hash_index k 16) churn_keys = [0..<16]"
  by code_simp

lemma churn_step:
  assumes "length slots = 16" "hash_index k 16 = i" "i < 16" "slots ! i = Empty"
  shows "fx_churn v (k # ks) \<lparr>fx_slots = slots, fx_count = 0\<rparr>
    = fx_churn v ks \<lparr>fx_slots = slots[i := Dead], fx_count = 0\<rparr>"
proof -
  have idx: "i AND 15 = i" using and_mask_mod [of i 4] assms(3) by simp
  have "probe_insert slots k i None 0 16 = Vacant i"
    "probe_find (slots[i := Occupied k v]) k i 0 16 = Some (i, v)"
    using assms idx probe_insert.simps(2) [of slots k i None 0 15]
      probe_find.simps(2) [of "slots[i := Occupied k v]" k i 0 15] by simp_all
  then show ?thesis
    using assms
    by (simp add: fx_insert_def numeral_2_eq_2 fx_overloaded_def fx_insert_probe_def fx_spot_def
        fx_remove_def fx_find_def get_slot_index_def Let_def)
qed

lemma churn_fills:
  "map (\<lambda>k. hash_index k 16) ks = [n..<16] \<Longrightarrow> n \<le> 16 \<Longrightarrow>
   fx_churn v ks \<lparr>fx_slots = replicate n Dead @ replicate (16 - n) Empty, fx_count = 0\<rparr>
     = Ok \<lparr>fx_slots = replicate 16 Dead, fx_count = 0\<rparr>"
proof (induction ks arbitrary: n)
  case Nil
  then have "n = 16" by (metis le_antisym list.simps(8) upt_eq_Nil_conv zero_neq_numeral)
  then show ?case by simp
next
  case (Cons k ks)
  have "n < 16" using Cons.prems by (cases "n = 16") auto
  with Cons.prems(1) have n: "n < 16" "hash_index k 16 = n" "map (\<lambda>k. hash_index k 16) ks = [Suc n..<16]"
    by (simp_all add: upt_conv_Cons)
  have upd: "(replicate n Dead @ replicate (16 - n) Empty)[n := Dead]
      = replicate (Suc n) Dead @ replicate (16 - Suc n) Empty"
    using n(1) by (intro nth_equalityI) (auto simp: nth_append nth_list_update nth_Cons')
  have "fx_churn v (k # ks) \<lparr>fx_slots = replicate n Dead @ replicate (16 - n) Empty, fx_count = 0\<rparr>
      = fx_churn v ks \<lparr>fx_slots = replicate (Suc n) Dead @ replicate (16 - Suc n) Empty, fx_count = 0\<rparr>"
    unfolding upd [symmetric] using n by (intro churn_step) (simp_all add: nth_append)
  also have "\<dots> = Ok \<lparr>fx_slots = replicate 16 Dead, fx_count = 0\<rparr>"
    using n by (intro Cons.IH) simp_all
  finally show ?case .
qed

text \<open>Sixteen keys inserted into a fresh map, each removed again at once, leave a map of
  length 0 that refuses every further key: \<open>insert\<close> reaches \<open>debug_assert!(false)\<close> (a release
  build drops the value and answers \<open>None\<close>).\<close>

theorem fx_tombstones_exhaust:
  "\<exists>m0 m. fx_new = Ok m0 \<and> fx_churn v churn_keys m0 = Ok m \<and> fx_len m = 0
     \<and> fx_map m = Map.empty \<and> (\<forall>key w. fx_insert m key w = Panic)"
proof -
  let ?m = "\<lparr>fx_slots = replicate 16 Dead, fx_count = 0\<rparr> :: 'a fxmap"
  have churn: "fx_churn v churn_keys fx_fresh = Ok ?m"
    using churn_fills [of churn_keys 0 v] churn_keys_hash by (simp add: fx_fresh_def)
  have map: "fx_map ?m = Map.empty" by (simp add: fx_map_def fx_iter_def List.map_filter_def)
  have "fx_inv ?m"
    by (auto simp: fx_inv_def slots_inv_def fx_iter_def List.map_filter_def intro!: exI [of _ 4])
  moreover have "\<not> fx_accepts ?m key" for key
    by (simp add: fx_accepts_def fx_overloaded_def fx_room_def map)
  ultimately have "fx_insert ?m key w = Panic" for key w by (rule fx_insert_accepts(2))
  with churn map show ?thesis by (auto simp: fx_new_eq fx_len_def)
qed

end
