(* ===== verification/Event_Buffer.thy ===== *)
theory Event_Buffer
  imports Mofu_Prelude
begin

text \<open>
  Input events (\<open>kernel/src/events/event_buffer.rs\<close>, \<open>kernel/src/events/keyboard_state.rs\<close>):
  the packing of mouse events into two words, the keyboard bitsets, and the ring of a page
  that the kernel fills and a window drains. The ring is modelled twice: its operations as
  functions, which implement the locale \<open>bounded_fifo\<close>, and the interleaving of one writer
  and one reader access by access, as the step relation \<open>spsc_step\<close>. Loads and stores are
  taken to be sequentially consistent. A \<open>bitflags\<close> type is the word of its bits.
\<close>

section \<open>Events\<close>

datatype key_state = Pressed | Released

datatype event_type = NoEvent | CharEvent | KeyEvent | MouseEvent | KeyStateEvent

type_synonym key_modifiers = u32

record mouse_event =
  x_delta :: u16
  y_delta :: u16
  buttons :: u16
  x_overflow :: bool
  y_overflow :: bool

record input_event =
  ev_type :: event_type
  ev_value :: u32
  ev_extra :: u32
  ev_modifiers :: u32

definition mouse_buttons_all :: u16 where
  "mouse_buttons_all = 1 OR 2 OR 4"

definition key_modifiers_all :: u32 where
  "key_modifiers_all = 0xFF"

fun key_state_code :: "key_state \<Rightarrow> u32" where
  "key_state_code Pressed = 0"
| "key_state_code Released = 1"

definition input_event_new :: "event_type \<Rightarrow> u32 \<Rightarrow> u32 \<Rightarrow> input_event" where
  "input_event_new t value extra =
     \<lparr>ev_type = t, ev_value = value, ev_extra = extra, ev_modifiers = 0\<rparr>"

definition with_modifiers :: "input_event \<Rightarrow> key_modifiers \<Rightarrow> input_event" where
  "with_modifiers e m = e\<lparr>ev_modifiers := m\<rparr>"

definition get_key_modifiers :: "input_event \<Rightarrow> key_modifiers" where
  "get_key_modifiers e = ev_modifiers e AND key_modifiers_all"

definition new_key :: "u32 \<Rightarrow> key_state \<Rightarrow> key_modifiers \<Rightarrow> input_event" where
  "new_key keycode state m =
     with_modifiers (input_event_new KeyEvent keycode (key_state_code state)) m"

definition new_key_state :: "u32 \<Rightarrow> key_state \<Rightarrow> key_modifiers \<Rightarrow> input_event" where
  "new_key_state keycode state m =
     with_modifiers (input_event_new KeyStateEvent keycode (key_state_code state)) m"

definition new_char :: "u32 \<Rightarrow> key_state \<Rightarrow> key_modifiers \<Rightarrow> input_event" where
  "new_char keycode state m =
     with_modifiers (input_event_new CharEvent keycode (key_state_code state)) m"

definition new_mouse :: "mouse_event \<Rightarrow> input_event" where
  "new_mouse e =
     (let value = (scast (x_delta e) :: u32);
          extra = (scast (y_delta e) :: u32) AND 0xFFFF;
          extra = extra OR (push_bit 16 (ucast (buttons e)) AND 0x00070000);
          overflow_bits = push_bit 0 (of_bool (x_overflow e)) OR push_bit 1 (of_bool (y_overflow e));
          extra = extra OR (push_bit 19 overflow_bits AND 0x00180000) in
      input_event_new MouseEvent value extra)"

definition decode_mouse :: "input_event \<Rightarrow> mouse_event" where
  "decode_mouse e =
     (let x = (ucast (ev_value e) :: u16);
          y = (ucast (ev_extra e AND 0xFFFF) :: u16);
          b = ((ucast (drop_bit 16 (ev_extra e)) :: u16) AND 7) AND mouse_buttons_all;
          overflow_bits = drop_bit 19 (ev_extra e) AND 3 in
      \<lparr>x_delta = x, y_delta = y, buttons = b,
       x_overflow = (overflow_bits AND 1 \<noteq> 0), y_overflow = (overflow_bits AND 2 \<noteq> 0)\<rparr>)"

text \<open>\<open>KeyState::from_raw\<close>, with its \<open>debug_assert!\<close>.\<close>

definition key_state_from_raw :: "u32 \<Rightarrow> (unit, key_state) outcome" where
  "key_state_from_raw raw =
     (if raw \<le> key_state_code Released
      then Ok (if raw = key_state_code Pressed then Pressed else Released) else Panic)"

section \<open>Keyboard state\<close>

text \<open>The modifier flags of the keyboard driver, and \<open>KeyModifiers::from\<close>.\<close>

record modifiers =
  lshift :: bool
  rshift :: bool
  lctrl :: bool
  rctrl :: bool
  lalt :: bool
  ralt :: bool
  numlock :: bool
  capslock :: bool

definition flag_set :: "u32 \<Rightarrow> u32 \<Rightarrow> bool \<Rightarrow> u32" where
  "flag_set flags flag v = (if v then flags OR flag else flags AND NOT flag)"

definition key_modifiers_from :: "modifiers \<Rightarrow> key_modifiers" where
  "key_modifiers_from m =
     (let k = 0;
          k = flag_set k 0x01 (lshift m); k = flag_set k 0x02 (rshift m);
          k = flag_set k 0x04 (lctrl m); k = flag_set k 0x08 (rctrl m);
          k = flag_set k 0x10 (lalt m); k = flag_set k 0x20 (ralt m);
          k = flag_set k 0x40 (numlock m); k = flag_set k 0x80 (capslock m) in k)"

text \<open>\<open>KeyBitset\<close>: an array of four words; a \<open>u8\<close> key always falls into it.\<close>

type_synonym key_bitset = "u64 list"

definition BITS_PER_WORD :: nat where
  "BITS_PER_WORD = 64"

definition BITSET_WORD_COUNT :: nat where
  "BITSET_WORD_COUNT = 256 div BITS_PER_WORD"

definition key_bitset_new :: key_bitset where
  "key_bitset_new = replicate BITSET_WORD_COUNT 0"

definition key_bitset_test :: "key_bitset \<Rightarrow> u8 \<Rightarrow> bool" where
  "key_bitset_test words key =
     (words ! (unat key div BITS_PER_WORD) AND push_bit (unat key mod BITS_PER_WORD) 1 \<noteq> 0)"

definition key_bitset_set :: "key_bitset \<Rightarrow> u8 \<Rightarrow> key_bitset" where
  "key_bitset_set words key =
     (let i = unat key div BITS_PER_WORD in
      words[i := words ! i OR push_bit (unat key mod BITS_PER_WORD) 1])"

definition key_bitset_clear :: "key_bitset \<Rightarrow> u8 \<Rightarrow> key_bitset" where
  "key_bitset_clear words key =
     (let i = unat key div BITS_PER_WORD in
      words[i := words ! i AND NOT (push_bit (unat key mod BITS_PER_WORD) 1)])"

definition key_bitset_clear_all :: "key_bitset \<Rightarrow> key_bitset" where
  "key_bitset_clear_all words = replicate BITSET_WORD_COUNT 0"

record keyboard_state =
  kb_down :: key_bitset
  kb_pressed :: key_bitset
  kb_released :: key_bitset
  kb_modifiers :: key_modifiers

definition keyboard_new :: keyboard_state where
  "keyboard_new = \<lparr>kb_down = key_bitset_new, kb_pressed = key_bitset_new,
                   kb_released = key_bitset_new, kb_modifiers = 0\<rparr>"

definition is_down :: "keyboard_state \<Rightarrow> u8 \<Rightarrow> bool" where
  "is_down s key = key_bitset_test (kb_down s) key"

definition was_pressed :: "keyboard_state \<Rightarrow> u8 \<Rightarrow> bool" where
  "was_pressed s key = key_bitset_test (kb_pressed s) key"

definition was_released :: "keyboard_state \<Rightarrow> u8 \<Rightarrow> bool" where
  "was_released s key = key_bitset_test (kb_released s) key"

definition keyboard_update :: "keyboard_state \<Rightarrow> u8 \<Rightarrow> key_state \<Rightarrow> key_modifiers \<Rightarrow> keyboard_state" where
  "keyboard_update s key state m =
     (let s = s\<lparr>kb_modifiers := m\<rparr> in
      case state of
        Pressed \<Rightarrow>
          (let s = (if \<not> key_bitset_test (kb_down s) key
                    then s\<lparr>kb_pressed := key_bitset_set (kb_pressed s) key\<rparr> else s) in
           s\<lparr>kb_down := key_bitset_set (kb_down s) key\<rparr>)
      | Released \<Rightarrow>
          (let s = s\<lparr>kb_down := key_bitset_clear (kb_down s) key\<rparr> in
           s\<lparr>kb_released := key_bitset_set (kb_released s) key\<rparr>))"

definition clear_transient :: "keyboard_state \<Rightarrow> keyboard_state" where
  "clear_transient s = s\<lparr>kb_pressed := key_bitset_clear_all (kb_pressed s),
                         kb_released := key_bitset_clear_all (kb_released s)\<rparr>"

section \<open>The event ring\<close>

definition BUFFER_HEADER_SIZE :: nat where
  "BUFFER_HEADER_SIZE = 4 * 4 + 8 * BITSET_WORD_COUNT"

definition MAX_EVENT_COUNT :: nat where
  \<comment> \<open>\<open>(PAGE_SIZE - BUFFER_HEADER_SIZE) / size_of::<InputEvent>()\<close>\<close>
  "MAX_EVENT_COUNT = (4096 - BUFFER_HEADER_SIZE) div 16"

datatype event_buffer_error = Full

record event_buffer =
  eb_write_idx :: u32
  eb_read_idx :: u32
  eb_event_count :: u32
  eb_modifiers :: u32
  eb_key_down :: "u64 list"
  eb_events :: "input_event list"

definition event_buffer_new :: event_buffer where
  "event_buffer_new =
     \<lparr>eb_write_idx = 0, eb_read_idx = 0, eb_event_count = 0, eb_modifiers = 0,
      eb_key_down = replicate BITSET_WORD_COUNT 0,
      eb_events = replicate MAX_EVENT_COUNT (input_event_new NoEvent 0 0)\<rparr>"

definition eb_is_empty :: "event_buffer \<Rightarrow> bool" where
  "eb_is_empty b \<longleftrightarrow> eb_event_count b = 0"

definition publish_keyboard_state :: "event_buffer \<Rightarrow> key_bitset \<Rightarrow> key_modifiers \<Rightarrow> event_buffer" where
  "publish_keyboard_state b key_down m =
     b\<lparr>eb_key_down := map snd (zip (eb_key_down b) key_down), eb_modifiers := m\<rparr>"

definition next_idx :: "u32 \<Rightarrow> u32" where
  "next_idx idx = (idx + 1) mod of_nat MAX_EVENT_COUNT"

definition eb_push :: "event_buffer \<Rightarrow> input_event \<Rightarrow> (event_buffer_error, event_buffer) outcome" where
  "eb_push b event =
     (if eb_event_count b \<ge> of_nat MAX_EVENT_COUNT then Err Full
      else (let idx = eb_write_idx b in
            if unat idx < length (eb_events b)
            then Ok (b\<lparr>eb_events := (eb_events b)[unat idx := event],
                       eb_write_idx := next_idx idx, eb_event_count := eb_event_count b + 1\<rparr>)
            else Panic))"

definition eb_read :: "event_buffer \<Rightarrow> (unit, input_event option \<times> event_buffer) outcome" where
  "eb_read b =
     (if eb_is_empty b then Ok (None, b)
      else (let idx = eb_read_idx b in
            if unat idx < length (eb_events b)
            then Ok (Some (eb_events b ! unat idx),
                     b\<lparr>eb_read_idx := next_idx idx, eb_event_count := eb_event_count b - 1\<rparr>)
            else Panic))"

section \<open>Packing and unpacking mouse events\<close>

lemma bit_lit_masks:
  "bit (65535 :: int) n \<longleftrightarrow> n < 16"
  "bit (458752 :: int) n \<longleftrightarrow> 16 \<le> n \<and> n < 19"
  "bit (1572864 :: int) n \<longleftrightarrow> 19 \<le> n \<and> n < 21"
  "bit (7 :: int) n \<longleftrightarrow> n < 3"
proof -
  have m: "(65535 :: int) = mask 16" "(458752 :: int) = push_bit 16 (mask 3)"
    "(1572864 :: int) = push_bit 19 (mask 2)" "(7 :: int) = mask 3"
    by (simp_all add: mask_eq_exp_minus_1 push_bit_eq_mult)
  show "bit (65535 :: int) n \<longleftrightarrow> n < 16"
    "bit (458752 :: int) n \<longleftrightarrow> 16 \<le> n \<and> n < 19"
    "bit (1572864 :: int) n \<longleftrightarrow> 19 \<le> n \<and> n < 21"
    "bit (7 :: int) n \<longleftrightarrow> n < 3"
    unfolding m by (auto simp: bit_simps)
qed

lemma mouse_extra_bit:
  "bit (ev_extra (new_mouse e)) n \<longleftrightarrow>
     (if n < 16 then bit (y_delta e) n else if n < 19 then bit (buttons e) (n - 16)
      else if n = 19 then x_overflow e else n = 20 \<and> y_overflow e)"
  unfolding new_mouse_def Let_def input_event_new_def
  by (auto simp: bit_simps bit_lit_masks split: if_splits)

text \<open>unpacking a packed mouse event gives the event back, for every displacement and both
  overflow flags, when the buttons are flags of \<open>MouseButtons\<close>.\<close>

theorem mouse_roundtrip:
  assumes "buttons e AND mouse_buttons_all = buttons e"
  shows "decode_mouse (new_mouse e) = e"
proof (rule mouse_event.equality)
  let ?d = "decode_mouse (new_mouse e)"
  have all: "mouse_buttons_all = (7 :: u16)" by (simp add: mouse_buttons_all_def)
  show "x_delta ?d = x_delta e"
    by (rule bit_word_eqI) (simp add: decode_mouse_def new_mouse_def input_event_new_def Let_def
        bit_unsigned_iff bit_signed_iff)
  show "y_delta ?d = y_delta e"
    by (rule bit_word_eqI) (auto simp: decode_mouse_def Let_def bit_simps mouse_extra_bit bit_lit_masks)
  have "buttons ?d = buttons e AND mouse_buttons_all"
    by (rule bit_word_eqI)
      (auto simp: decode_mouse_def Let_def bit_simps mouse_extra_bit bit_lit_masks all)
  with assms show "buttons ?d = buttons e" by simp
  show "x_overflow ?d = x_overflow e"
    using and_exp_eq_0_iff_not_bit [of "drop_bit 19 (ev_extra (new_mouse e)) AND 3" 0]
    by (simp add: decode_mouse_def Let_def bit_simps mouse_extra_bit)
  show "y_overflow ?d = y_overflow e"
    using and_exp_eq_0_iff_not_bit [of "drop_bit 19 (ev_extra (new_mouse e)) AND 3" 1]
    by (simp add: decode_mouse_def Let_def bit_simps mouse_extra_bit)
qed simp

theorem mouse_roundtrip_witness:
  "decode_mouse (new_mouse \<lparr>x_delta = 0xFFFD, y_delta = 0x8000, buttons = 5,
     x_overflow = True, y_overflow = False\<rparr>)
   = \<lparr>x_delta = 0xFFFD, y_delta = 0x8000, buttons = 5, x_overflow = True, y_overflow = False\<rparr>"
  by (rule mouse_roundtrip) (simp add: mouse_buttons_all_def)

section \<open>Keyboard bitsets\<close>

lemma BITSET_WORD_COUNT_eq [simp]: "BITSET_WORD_COUNT = 4"
  by (simp add: BITSET_WORD_COUNT_def BITS_PER_WORD_def)

lemma key_word_index: "unat (key :: u8) div 64 < 4"
  using unsigned_less [of key, where ?'a = nat] by simp

lemma key_bitset_test_bit:
  "key_bitset_test words key \<longleftrightarrow> bit (words ! (unat key div 64)) (unat key mod 64)"
  using and_exp_eq_0_iff_not_bit [of "words ! (unat key div 64)" "unat key mod 64"]
  by (simp add: key_bitset_test_def BITS_PER_WORD_def push_bit_eq_mult)

lemma key_same_cell:
  "unat (j :: u8) div 64 = unat (k :: u8) div 64 \<Longrightarrow> unat j mod 64 = unat k mod 64 \<longleftrightarrow> j = k"
  by (metis div_mult_mod_eq word_unat_eq_iff)

lemma length_key_bitset [simp]:
  "length (key_bitset_set words k) = length words" "length (key_bitset_clear words k) = length words"
  "length (key_bitset_clear_all words) = 4" "length key_bitset_new = 4"
  by (simp_all add: key_bitset_set_def key_bitset_clear_def key_bitset_clear_all_def
      key_bitset_new_def Let_def)

lemma key_bitset_test_set [simp]:
  "length words = 4 \<Longrightarrow> key_bitset_test (key_bitset_set words k) j \<longleftrightarrow> j = k \<or> key_bitset_test words j"
  using key_word_index [of k] key_same_cell [of j k]
  by (auto simp: key_bitset_test_bit key_bitset_set_def BITS_PER_WORD_def Let_def nth_list_update
      bit_simps)

lemma key_bitset_test_clear [simp]:
  "length words = 4 \<Longrightarrow> key_bitset_test (key_bitset_clear words k) j \<longleftrightarrow> j \<noteq> k \<and> key_bitset_test words j"
  using key_word_index [of k] key_same_cell [of j k]
  by (auto simp: key_bitset_test_bit key_bitset_clear_def BITS_PER_WORD_def Let_def nth_list_update
      bit_simps)

lemma key_bitset_test_new [simp]:
  "\<not> key_bitset_test key_bitset_new j" "\<not> key_bitset_test (key_bitset_clear_all words) j"
  using key_word_index [of j]
  by (simp_all add: key_bitset_test_bit key_bitset_new_def key_bitset_clear_all_def)

definition keyboard_inv :: "keyboard_state \<Rightarrow> bool" where
  "keyboard_inv s \<longleftrightarrow> length (kb_down s) = 4 \<and> length (kb_pressed s) = 4 \<and> length (kb_released s) = 4"

lemma keyboard_update_inv [simp]: "keyboard_inv s \<Longrightarrow> keyboard_inv (keyboard_update s k st m)"
  by (cases st) (auto simp: keyboard_inv_def keyboard_update_def Let_def)

lemma keyboard_update_tests [simp]:
  assumes "keyboard_inv s"
  shows "is_down (keyboard_update s k st m) j \<longleftrightarrow> (if j = k then st = Pressed else is_down s j)"
    and "was_released (keyboard_update s k st m) j \<longleftrightarrow> j = k \<and> st = Released \<or> was_released s j"
    and "was_pressed (keyboard_update s k st m) j \<longleftrightarrow>
      j = k \<and> st = Pressed \<and> \<not> is_down s k \<or> was_pressed s j"
  using assms
  by (cases st; auto simp: keyboard_inv_def keyboard_update_def is_down_def was_released_def
      was_pressed_def Let_def)+

text \<open>The reports of a keyboard: key, transition, modifiers.\<close>

type_synonym key_report = "u8 \<times> key_state \<times> key_modifiers"

definition keyboard_run :: "keyboard_state \<Rightarrow> key_report list \<Rightarrow> keyboard_state" where
  "keyboard_run s reports = foldl (\<lambda>s (k, st, m). keyboard_update s k st m) s reports"

fun last_state :: "u8 \<Rightarrow> key_report list \<Rightarrow> key_state option" where
  \<comment> \<open>of a list with the latest report first\<close>
  "last_state key [] = None"
| "last_state key ((k, st, _) # rs) = (if k = key then Some st else last_state key rs)"

lemma keyboard_run_snoc [simp]:
  "keyboard_run s (rs @ [(k, st, m)]) = keyboard_update (keyboard_run s rs) k st m"
  by (simp add: keyboard_run_def)

text \<open>C39: after any sequence of key reports on a fresh keyboard, a key is down iff its last report
  was a press, was pressed iff some report pressed it, and was released iff some report
  released it; \<open>clear_transient\<close> forgets the presses and releases and keeps the keys held.\<close>

theorem keyboard_tracks_reports:
  "(is_down (keyboard_run keyboard_new rs) key \<longleftrightarrow> last_state key (rev rs) = Some Pressed)
   \<and> (was_pressed (keyboard_run keyboard_new rs) key \<longleftrightarrow> (\<exists>m. (key, Pressed, m) \<in> set rs))
   \<and> (was_released (keyboard_run keyboard_new rs) key \<longleftrightarrow> (\<exists>m. (key, Released, m) \<in> set rs))
   \<and> \<not> was_pressed (clear_transient (keyboard_run keyboard_new rs)) key
   \<and> \<not> was_released (clear_transient (keyboard_run keyboard_new rs)) key
   \<and> is_down (clear_transient (keyboard_run keyboard_new rs)) key
     = is_down (keyboard_run keyboard_new rs) key"
proof -
  have "keyboard_inv (keyboard_run keyboard_new rs)
    \<and> (is_down (keyboard_run keyboard_new rs) key \<longleftrightarrow> last_state key (rev rs) = Some Pressed)
    \<and> (was_pressed (keyboard_run keyboard_new rs) key \<longleftrightarrow> (\<exists>m. (key, Pressed, m) \<in> set rs))
    \<and> (was_released (keyboard_run keyboard_new rs) key \<longleftrightarrow> (\<exists>m. (key, Released, m) \<in> set rs))
    \<and> (last_state key (rev rs) = Some Pressed \<longrightarrow> (\<exists>m. (key, Pressed, m) \<in> set rs))"
  proof (induction rs rule: rev_induct)
    case Nil
    show ?case
      by (simp add: keyboard_run_def keyboard_new_def keyboard_inv_def is_down_def was_pressed_def
          was_released_def)
  next
    case (snoc r rs)
    obtain k st m where r: "r = (k, st, m)" by (cases r)
    show ?case using snoc.IH unfolding r by (cases st) auto
  qed
  then show ?thesis
    by (simp add: clear_transient_def was_pressed_def was_released_def is_down_def)
qed

section \<open>The ring as a bounded queue\<close>

lemma MAX_EVENT_COUNT_eq [simp]: "MAX_EVENT_COUNT = 253"
  by (simp add: MAX_EVENT_COUNT_def BUFFER_HEADER_SIZE_def)

lemma unat_next_idx:
  assumes "unat idx < 253"
  shows "unat (next_idx idx) = Suc (unat idx) mod 253"
proof -
  have "unat (idx + 1) = Suc (unat idx)"
    using assms by (simp add: unat_word_ariths)
  then show ?thesis by (simp add: next_idx_def unat_mod)
qed

definition eb_ring :: "event_buffer \<Rightarrow> input_event list \<Rightarrow> bool" where
  \<comment> \<open>the buffer holds these events, oldest first\<close>
  "eb_ring b xs \<longleftrightarrow> length (eb_events b) = MAX_EVENT_COUNT \<and> unat (eb_read_idx b) < MAX_EVENT_COUNT
     \<and> length xs \<le> MAX_EVENT_COUNT \<and> unat (eb_event_count b) = length xs
     \<and> unat (eb_write_idx b) = (unat (eb_read_idx b) + length xs) mod MAX_EVENT_COUNT
     \<and> (\<forall>i < length xs. eb_events b ! ((unat (eb_read_idx b) + i) mod MAX_EVENT_COUNT) = xs ! i)"

definition eb_contents :: "event_buffer \<Rightarrow> input_event list" where
  "eb_contents b = map (\<lambda>i. eb_events b ! ((unat (eb_read_idx b) + i) mod MAX_EVENT_COUNT))
     [0..<unat (eb_event_count b)]"

definition eb_inv :: "event_buffer \<Rightarrow> bool" where
  "eb_inv b \<longleftrightarrow> eb_ring b (eb_contents b)"

lemma eb_ring_iff: "eb_ring b xs \<longleftrightarrow> eb_inv b \<and> eb_contents b = xs"
proof
  assume ring: "eb_ring b xs"
  then have "eb_contents b = xs"
    by (intro nth_equalityI) (auto simp: eb_ring_def eb_contents_def)
  with ring show "eb_inv b \<and> eb_contents b = xs" by (simp add: eb_inv_def)
qed (auto simp: eb_inv_def)

text \<open>The contract of a bounded first-in-first-out buffer.\<close>

locale bounded_fifo =
  fixes invar :: "'q \<Rightarrow> bool" and contents :: "'q \<Rightarrow> 'a list" and bound :: nat
    and push :: "'q \<Rightarrow> 'a \<Rightarrow> ('e, 'q) outcome" and full :: 'e
    and read :: "'q \<Rightarrow> (unit, 'a option \<times> 'q) outcome"
  assumes push_law: "invar q \<Longrightarrow> length (contents q) < bound \<Longrightarrow>
      \<exists>r. push q x = Ok r \<and> invar r \<and> contents r = contents q @ [x]"
    and push_full_law: "invar q \<Longrightarrow> \<not> length (contents q) < bound \<Longrightarrow> push q x = Err full"
    and read_empty_law: "invar q \<Longrightarrow> contents q = [] \<Longrightarrow> read q = Ok (None, q)"
    and read_law: "invar q \<Longrightarrow> contents q = x # xs \<Longrightarrow>
      \<exists>r. read q = Ok (Some x, r) \<and> invar r \<and> contents r = xs"
begin

text \<open>A writer that ignores the error, as the window manager does, and a reader that drains.\<close>

fun offer :: "'q \<Rightarrow> 'a list \<Rightarrow> 'q" where
  "offer q [] = q"
| "offer q (x # xs) = offer (case push q x of Ok r \<Rightarrow> r | _ \<Rightarrow> q) xs"

fun take_out :: "nat \<Rightarrow> 'q \<Rightarrow> 'a list" where
  "take_out 0 q = []"
| "take_out (Suc n) q = (case read q of Ok (Some x, r) \<Rightarrow> x # take_out n r | _ \<Rightarrow> [])"

lemma offer_contents:
  "invar q \<Longrightarrow> length (contents q) \<le> bound \<Longrightarrow>
   invar (offer q xs) \<and> contents (offer q xs) = contents q @ take (bound - length (contents q)) xs"
proof (induction xs arbitrary: q)
  case (Cons x xs)
  show ?case
  proof (cases "length (contents q) < bound")
    case True
    with push_law [OF Cons.prems(1), of x] obtain r
      where r: "push q x = Ok r" "invar r" "contents r = contents q @ [x]" by blast
    from Cons.IH [OF r(2)] r True show ?thesis by (simp add: take_Cons')
  next
    case False
    with push_full_law [OF Cons.prems(1)] Cons.IH [OF Cons.prems] Cons.prems(2) show ?thesis by simp
  qed
qed simp

lemma take_out_contents: "invar q \<Longrightarrow> take_out n q = take n (contents q)"
proof (induction n arbitrary: q)
  case (Suc n)
  show ?case
  proof (cases "contents q")
    case Nil
    with read_empty_law [OF Suc.prems] show ?thesis by simp
  next
    case (Cons x xs)
    with read_law [OF Suc.prems] obtain r
      where "read q = Ok (Some x, r)" "invar r" "contents r = xs" by blast
    with Suc.IH [of r] Cons show ?thesis by simp
  qed
qed simp

lemma offered_read_back:
  assumes "invar q" "contents q = []"
  shows "take_out bound (offer q xs) = take bound xs"
  using offer_contents [OF assms(1), of xs] assms(2) take_out_contents by simp

end

lemma eb_push_spec:
  assumes "eb_ring b xs"
  shows "length xs < 253 \<Longrightarrow> \<exists>r. eb_push b e = Ok r \<and> eb_ring r (xs @ [e])"
    and "\<not> length xs < 253 \<Longrightarrow> eb_push b e = Err Full"
proof -
  have cnt: "eb_event_count b \<ge> 253 \<longleftrightarrow> \<not> length xs < 253"
    using assms by (auto simp: eb_ring_def word_le_nat_alt)
  then show "\<not> length xs < 253 \<Longrightarrow> eb_push b e = Err Full" by (simp add: eb_push_def)
  assume less: "length xs < 253"
  let ?r = "unat (eb_read_idx b)"
  have w: "unat (eb_write_idx b) = (?r + length xs) mod 253" "unat (eb_write_idx b) < 253"
    "length (eb_events b) = 253" "unat (eb_event_count b) = length xs"
    using assms by (auto simp: eb_ring_def)
  have "unat (eb_event_count b + 1) = Suc (length xs)"
    using w(4) less by (simp add: unat_word_ariths)
  moreover have "unat (next_idx (eb_write_idx b)) = Suc (?r + length xs) mod 253"
    using unat_next_idx [OF w(2)] w(1) by (simp add: mod_Suc_eq)
  moreover have "unat (eb_write_idx b) \<noteq> (?r + i) mod 253" if "i < length xs" for i
    using ring_offset_inj [of i 253 "length xs" ?r] that less w(1) by auto
  ultimately have "eb_ring (b\<lparr>eb_events := (eb_events b)[unat (eb_write_idx b) := e],
      eb_write_idx := next_idx (eb_write_idx b), eb_event_count := eb_event_count b + 1\<rparr>) (xs @ [e])"
    using assms less w by (auto simp: eb_ring_def nth_append less_Suc_eq)
  with cnt less w show "\<exists>r. eb_push b e = Ok r \<and> eb_ring r (xs @ [e])"
    by (simp add: eb_push_def Let_def)
qed

lemma eb_read_spec:
  assumes "eb_ring b xs"
  shows "xs = [] \<Longrightarrow> eb_read b = Ok (None, b)"
    and "xs = x # ys \<Longrightarrow> \<exists>r. eb_read b = Ok (Some x, r) \<and> eb_ring r ys"
proof -
  have empty: "eb_is_empty b \<longleftrightarrow> xs = []"
    using assms by (auto simp: eb_is_empty_def eb_ring_def unat_eq_0)
  then show "xs = [] \<Longrightarrow> eb_read b = Ok (None, b)" by (simp add: eb_read_def)
  assume xs: "xs = x # ys"
  let ?r = "unat (eb_read_idx b)"
  have w: "?r < 253" "length (eb_events b) = 253" "unat (eb_event_count b) = Suc (length ys)"
    "eb_events b ! ?r = x" using assms xs by (auto simp: eb_ring_def)
  have cell: "eb_events b ! ((Suc ?r + i) mod 253) = ys ! i" if "i < length ys" for i
    using assms xs that by (auto simp: eb_ring_def)
  have "unat (eb_event_count b - 1) = length ys"
    using w(3) by (metis diff_Suc_1 nat.distinct(1) unat_eq_0 unat_minus_one)
  with assms xs w cell have "eb_ring (b\<lparr>eb_read_idx := next_idx (eb_read_idx b),
      eb_event_count := eb_event_count b - 1\<rparr>) ys"
    by (simp add: eb_ring_def unat_next_idx mod_add_left_eq)
  with empty xs w show "\<exists>r. eb_read b = Ok (Some x, r) \<and> eb_ring r ys"
    by (simp add: eb_read_def Let_def)
qed

interpretation eb: bounded_fifo eb_inv eb_contents 253 eb_push Full eb_read
  using eb_push_spec eb_read_spec eb_ring_iff by unfold_locales metis+

lemma eb_new_ring: "eb_ring event_buffer_new []"
  by (simp add: eb_ring_def event_buffer_new_def)

text \<open>Whatever is pushed into a fresh event buffer by a writer that drops what is refused,
  a reader gets the first 253 events, in order, and nothing else; a push is refused (\<open>Full\<close>)
  exactly at 253 events, and publishing the keyboard state leaves the queue alone.\<close>

theorem event_buffer_fifo:
  "eb.take_out 253 (eb.offer event_buffer_new es) = take 253 es
   \<and> eb_inv (eb.offer event_buffer_new es)
   \<and> (eb_push (eb.offer event_buffer_new es) e = Err Full) = (253 \<le> length es)
   \<and> eb_contents (publish_keyboard_state (eb.offer event_buffer_new es) ks m)
     = eb_contents (eb.offer event_buffer_new es)"
proof -
  have new: "eb_inv event_buffer_new" "eb_contents event_buffer_new = []"
    using eb_new_ring by (simp_all add: eb_ring_iff)
  let ?q = "eb.offer event_buffer_new es"
  have q: "eb_inv ?q" "eb_contents ?q = take 253 es"
    using eb.offer_contents [OF new(1), of es] new(2) by simp_all
  have "(eb_push ?q e = Err Full) = (253 \<le> length es)"
    using eb.push_law [OF q(1), of e] eb.push_full_law [OF q(1), of e] q(2) by fastforce
  with q(1) eb.offered_read_back [OF new, of es] show ?thesis
    by (simp add: eb_contents_def publish_keyboard_state_def)
qed

section \<open>One writer and one reader, access by access\<close>

text \<open>
  The accesses of \<open>push\<close> and \<open>read\<close> in program order. The writer has tested the count
  (\<open>Room\<close>), written the event (\<open>Stored\<close>), moved its index (\<open>Indexed\<close>) and then adds one to
  the count; the reader has tested the count (\<open>Some_there\<close>), copied the event (\<open>Copied\<close>), moved
  its index (\<open>Moved\<close>) and then subtracts one. \<open>sent\<close> and \<open>received\<close> record the completed
  calls.
\<close>

datatype writer = WIdle | Room input_event | Stored input_event | Indexed input_event

datatype reader = RIdle | Some_there | Copied input_event | Moved input_event

record spsc =
  sp_buf :: event_buffer
  sp_writer :: writer
  sp_reader :: reader
  sent :: "input_event list"
  received :: "input_event list"

definition spsc_init :: spsc where
  "spsc_init = \<lparr>sp_buf = event_buffer_new, sp_writer = WIdle, sp_reader = RIdle,
                sent = [], received = []\<rparr>"

inductive spsc_step :: "spsc \<Rightarrow> spsc \<Rightarrow> bool" where
  w_test: "sp_writer s = WIdle \<Longrightarrow> eb_event_count (sp_buf s) < of_nat MAX_EVENT_COUNT \<Longrightarrow>
    spsc_step s (s\<lparr>sp_writer := Room e\<rparr>)"
| w_store: "sp_writer s = Room e \<Longrightarrow> unat (eb_write_idx (sp_buf s)) < length (eb_events (sp_buf s)) \<Longrightarrow>
    spsc_step s (s\<lparr>sp_writer := Stored e, sp_buf := (sp_buf s)\<lparr>eb_events :=
      (eb_events (sp_buf s))[unat (eb_write_idx (sp_buf s)) := e]\<rparr>\<rparr>)"
| w_index: "sp_writer s = Stored e \<Longrightarrow>
    spsc_step s (s\<lparr>sp_writer := Indexed e, sp_buf := (sp_buf s)\<lparr>eb_write_idx :=
      next_idx (eb_write_idx (sp_buf s))\<rparr>\<rparr>)"
| w_count: "sp_writer s = Indexed e \<Longrightarrow>
    spsc_step s (s\<lparr>sp_writer := WIdle, sent := sent s @ [e], sp_buf := (sp_buf s)\<lparr>eb_event_count :=
      eb_event_count (sp_buf s) + 1\<rparr>\<rparr>)"
| r_test: "sp_reader s = RIdle \<Longrightarrow> eb_event_count (sp_buf s) \<noteq> 0 \<Longrightarrow>
    spsc_step s (s\<lparr>sp_reader := Some_there\<rparr>)"
| r_copy: "sp_reader s = Some_there \<Longrightarrow> unat (eb_read_idx (sp_buf s)) < length (eb_events (sp_buf s)) \<Longrightarrow>
    spsc_step s (s\<lparr>sp_reader := Copied (eb_events (sp_buf s) ! unat (eb_read_idx (sp_buf s)))\<rparr>)"
| r_index: "sp_reader s = Copied e \<Longrightarrow>
    spsc_step s (s\<lparr>sp_reader := Moved e, sp_buf := (sp_buf s)\<lparr>eb_read_idx :=
      next_idx (eb_read_idx (sp_buf s))\<rparr>\<rparr>)"
| r_count: "sp_reader s = Moved e \<Longrightarrow>
    spsc_step s (s\<lparr>sp_reader := RIdle, received := received s @ [e], sp_buf := (sp_buf s)\<lparr>eb_event_count :=
      eb_event_count (sp_buf s) - 1\<rparr>\<rparr>)"

inductive spsc_reachable :: "spsc \<Rightarrow> bool" where
  init: "spsc_reachable spsc_init"
| step: "spsc_reachable s \<Longrightarrow> spsc_step s t \<Longrightarrow> spsc_reachable t"

definition spsc_inv :: "spsc \<Rightarrow> bool" where
  "spsc_inv s \<longleftrightarrow> (let b = sp_buf s; S = length (sent s); R = length (received s) in
     length (eb_events b) = 253 \<and> R \<le> S \<and> S \<le> R + 253 \<and> unat (eb_event_count b) = S - R
     \<and> received s = take R (sent s)
     \<and> unat (eb_write_idx b) = (case sp_writer s of Indexed e \<Rightarrow> Suc S mod 253 | _ \<Rightarrow> S mod 253)
     \<and> unat (eb_read_idx b) = (case sp_reader s of Moved e \<Rightarrow> Suc R mod 253 | _ \<Rightarrow> R mod 253)
     \<and> (\<forall>k. R \<le> k \<and> k < S \<longrightarrow> eb_events b ! (k mod 253) = sent s ! k)
     \<and> (case sp_writer s of WIdle \<Rightarrow> True | Room e \<Rightarrow> S < R + 253
         | Stored e \<Rightarrow> S < R + 253 \<and> eb_events b ! (S mod 253) = e
         | Indexed e \<Rightarrow> S < R + 253 \<and> eb_events b ! (S mod 253) = e)
     \<and> (case sp_reader s of RIdle \<Rightarrow> True | Some_there \<Rightarrow> R < S
         | Copied e \<Rightarrow> R < S \<and> sent s ! R = e | Moved e \<Rightarrow> R < S \<and> sent s ! R = e))"

lemma ring_slots_distinct:
  assumes "k < S" "S < k + 253"
  shows "(S :: nat) mod 253 \<noteq> k mod 253"
proof
  assume "S mod 253 = k mod 253"
  then have "253 dvd S - k" using assms(1) by (metis less_imp_le mod_eq_dvd_iff_nat)
  with assms show False by (auto dest: dvd_imp_le)
qed

lemma word_add_sub_count:
  "unat (c :: u32) = n \<Longrightarrow> n < 253 \<Longrightarrow> unat (c + 1) = Suc n"
  "unat (c :: u32) = Suc n \<Longrightarrow> unat (c - 1) = n"
  by (simp add: unat_word_ariths) (metis diff_Suc_1 nat.distinct(1) unat_eq_0 unat_minus_one)

lemma spsc_step_inv:
  assumes "spsc_step s t" "spsc_inv s"
  shows "spsc_inv t"
  using assms(1)
proof cases
  case (w_test e)
  then show ?thesis using assms(2) by (auto simp: spsc_inv_def Let_def word_less_nat_alt split: reader.splits)
next
  case (w_store e)
  let ?S = "length (sent s)" and ?R = "length (received s)"
  have "?S mod 253 \<noteq> k mod 253" if "?R \<le> k" "k < ?S" for k
    using ring_slots_distinct [of k ?S] that w_store assms(2) by (auto simp: spsc_inv_def Let_def)
  with w_store assms(2) show ?thesis by (auto simp: spsc_inv_def Let_def split: reader.splits)
next
  case (w_index e)
  then show ?thesis using assms(2)
    by (auto simp: spsc_inv_def Let_def unat_next_idx mod_Suc_eq split: reader.splits)
next
  case (w_count e)
  with assms(2) word_add_sub_count(1) [of "eb_event_count (sp_buf s)"] show ?thesis
    by (auto simp: spsc_inv_def Let_def nth_append less_Suc_eq split: reader.splits)
next
  case r_test
  then show ?thesis using assms(2) by (auto simp: spsc_inv_def Let_def unat_eq_0 [symmetric] split: writer.splits)
next
  case r_copy
  then show ?thesis using assms(2) by (auto simp: spsc_inv_def Let_def split: writer.splits)
next
  case (r_index e)
  then show ?thesis using assms(2)
    by (auto simp: spsc_inv_def Let_def unat_next_idx mod_Suc_eq split: writer.splits)
next
  case (r_count e)
  let ?S = "length (sent s)" and ?R = "length (received s)"
  have lt: "?R < ?S" "sent s ! ?R = e" "received s = take ?R (sent s)"
    "unat (eb_event_count (sp_buf s)) = Suc (?S - Suc ?R)"
    using r_count assms(2) by (auto simp: spsc_inv_def Let_def)
  then have "received s @ [e] = take (Suc ?R) (sent s)" by (simp add: take_Suc_conv_app_nth)
  with word_add_sub_count(2) [OF lt(4)] r_count assms(2) lt show ?thesis
    by (auto simp: spsc_inv_def Let_def split: writer.splits)
qed

lemma spsc_reachable_inv: "spsc_reachable s \<Longrightarrow> spsc_inv s"
proof (induction rule: spsc_reachable.induct)
  case init
  show ?case by (simp add: spsc_init_def spsc_inv_def event_buffer_new_def)
next
  case (step s t)
  then show ?case by (blast intro: spsc_step_inv)
qed

text \<open>C20: however the accesses of one writer and one reader interleave, the reader has received
  a prefix of what the writer sent, in order and each event once; at most 253 events are
  underway; and every event access of either side is inside the array.\<close>

theorem spsc_prefix:
  assumes "spsc_reachable s"
  shows "received s = take (length (received s)) (sent s)
    \<and> length (sent s) \<le> length (received s) + MAX_EVENT_COUNT
    \<and> unat (eb_event_count (sp_buf s)) = length (sent s) - length (received s)
    \<and> unat (eb_write_idx (sp_buf s)) < length (eb_events (sp_buf s))
    \<and> unat (eb_read_idx (sp_buf s)) < length (eb_events (sp_buf s))"
  using spsc_reachable_inv [OF assms]
  by (auto simp: spsc_inv_def Let_def split: writer.splits reader.splits)

text \<open>One event on its way through the ring, access by access.\<close>

lemma spsc_transfer:
  "\<exists>s. spsc_reachable s \<and> sent s = [e] \<and> received s = [e]"
proof -
  define s1 where "s1 = spsc_init\<lparr>sp_writer := Room e\<rparr>"
  define s2 where "s2 = s1\<lparr>sp_writer := Stored e, sp_buf := (sp_buf s1)\<lparr>eb_events := (eb_events (sp_buf s1))[0 := e]\<rparr>\<rparr>"
  define s3 where "s3 = s2\<lparr>sp_writer := Indexed e, sp_buf := (sp_buf s2)\<lparr>eb_write_idx := next_idx 0\<rparr>\<rparr>"
  define s4 where "s4 = s3\<lparr>sp_writer := WIdle, sent := [e], sp_buf := (sp_buf s3)\<lparr>eb_event_count := 1\<rparr>\<rparr>"
  define s5 where "s5 = s4\<lparr>sp_reader := Some_there\<rparr>"
  define s6 where "s6 = s5\<lparr>sp_reader := Copied e\<rparr>"
  define s7 where "s7 = s6\<lparr>sp_reader := Moved e, sp_buf := (sp_buf s6)\<lparr>eb_read_idx := next_idx 0\<rparr>\<rparr>"
  note defs = s1_def s2_def s3_def s4_def s5_def s6_def s7_def spsc_init_def event_buffer_new_def
  have "spsc_step spsc_init s1" unfolding s1_def by (rule w_test) (simp_all add: defs word_less_nat_alt)
  moreover have "spsc_step s1 s2" using w_store [of s1 e] by (simp add: defs)
  moreover have "spsc_step s2 s3" using w_index [of s2 e] by (simp add: defs)
  moreover have "spsc_step s3 s4" using w_count [of s3 e] by (simp add: defs)
  moreover have "spsc_step s4 s5" using r_test [of s4] by (simp add: defs)
  moreover have "spsc_step s5 s6" using r_copy [of s5] by (simp add: defs)
  moreover have "spsc_step s6 s7" using r_index [of s6 e] by (simp add: defs)
  ultimately have "spsc_reachable s7" by (meson spsc_reachable.intros)
  moreover have "spsc_step s7 (s7\<lparr>sp_reader := RIdle, received := received s7 @ [e], sp_buf := (sp_buf s7)\<lparr>eb_event_count :=
      eb_event_count (sp_buf s7) - 1\<rparr>\<rparr>)"
    by (rule r_count) (simp add: defs)
  ultimately show ?thesis
    by (intro exI [of _ "s7\<lparr>sp_reader := RIdle, received := received s7 @ [e], sp_buf := (sp_buf s7)\<lparr>eb_event_count :=
      eb_event_count (sp_buf s7) - 1\<rparr>\<rparr>"]) (auto intro: spsc_reachable.step simp: defs)
qed

theorem spsc_prefix_witness:
  "\<exists>s :: spsc. sent s = [input_event_new CharEvent 65 0] \<and> received s = [input_event_new CharEvent 65 0]
     \<and> unat (eb_event_count (sp_buf s)) = 0 \<and> unat (eb_write_idx (sp_buf s)) < length (eb_events (sp_buf s))"
proof -
  obtain s where s: "spsc_reachable s" "sent s = [input_event_new CharEvent 65 0]" "received s = [input_event_new CharEvent 65 0]"
    using spsc_transfer by blast
  with spsc_prefix [OF s(1)] have "unat (eb_event_count (sp_buf s)) = 0 \<and> unat (eb_write_idx (sp_buf s)) < length (eb_events (sp_buf s))"
    by simp
  with s show ?thesis by blast
qed

end
