(* ===== verification/Fs_Types.thy ===== *)
theory Fs_Types
  imports Mofu_Prelude
begin

text \<open>
  The types the file system layers share (\<open>kernel/src/filesystem/sirius.rs\<close>): errors, file
  types and attributes, the node description; and strings, which are lists of UTF-8 bytes.
\<close>

datatype file_system_error =
    NotFound | PermissionDenied | FileExists | IsDirectory | NotDirectory | DiskOpError
  | InvalidPath | FileSizeExceeded | InvalidFilename | DirectoryNotEmpty | NoSpace
  | DirectoryFull | IoError | FileNotFound | CacheFull | NotSupported

datatype file_type = File | Directory

type_synonym str = "u8 list"

type_synonym file_node_handle = u64

text \<open>\<open>FileAttributes\<close>, a \<open>bitflags\<close> type: the word of its bits.\<close>

type_synonym file_attributes = u8

definition READ :: file_attributes where "READ = 1"

definition WRITE :: file_attributes where "WRITE = 2"

definition FILE_READONLY :: file_attributes where "FILE_READONLY = READ"

definition FILE_READ_WRITE :: file_attributes where "FILE_READ_WRITE = READ OR WRITE"

definition DIR_DEFAULT :: file_attributes where "DIR_DEFAULT = READ"

record file_node =
  fn_node_id :: file_node_handle
  fn_name :: str
  fn_file_type :: file_type
  fn_size :: nat
  fn_created_time :: nat
  fn_modified_time :: nat
  fn_attributes :: file_attributes

section \<open>Strings\<close>

text \<open>\<open>str::rfind\<close> and \<open>str::find\<close> of an ASCII character.\<close>

fun find_from :: "nat \<Rightarrow> u8 \<Rightarrow> str \<Rightarrow> nat option" where
  "find_from i c [] = None"
| "find_from i c (b # bs) = (if b = c then Some i else find_from (Suc i) c bs)"

definition str_find :: "u8 \<Rightarrow> str \<Rightarrow> nat option" where
  "str_find c s = find_from 0 c s"

definition str_rfind :: "u8 \<Rightarrow> str \<Rightarrow> nat option" where
  "str_rfind c s = map_option (\<lambda>i. length s - 1 - i) (str_find c (rev s))"

text \<open>\<open>str::split(c)\<close>: the pieces between the separators, empty ones included.\<close>

fun split_acc :: "u8 \<Rightarrow> str \<Rightarrow> str \<Rightarrow> str list" where
  "split_acc c acc [] = [rev acc]"
| "split_acc c acc (b # bs) =
     (if b = c then rev acc # split_acc c [] bs else split_acc c (b # acc) bs)"

definition str_split :: "u8 \<Rightarrow> str \<Rightarrow> str list" where
  "str_split c s = split_acc c [] s"

definition path_parts :: "str \<Rightarrow> str list" where
  \<comment> \<open>\<open>path.split('/').filter(|p| !p.is_empty())\<close>\<close>
  "path_parts p = filter (\<lambda>s. s \<noteq> []) (str_split 0x2F p)"

text \<open>\<open>core::str::from_utf8\<close> succeeds on the well-formed byte sequences of the Unicode standard.\<close>

definition utf8_tail :: "u8 \<Rightarrow> bool" where
  "utf8_tail b \<longleftrightarrow> 0x80 \<le> b \<and> b \<le> 0xBF"

fun utf8_valid :: "str \<Rightarrow> bool" where
  "utf8_valid [] = True"
| "utf8_valid (a # s) =
     (if a \<le> 0x7F then utf8_valid s
      else case s of
        [] \<Rightarrow> False
      | b # s2 \<Rightarrow>
          if 0xC2 \<le> a \<and> a \<le> 0xDF then utf8_tail b \<and> utf8_valid s2
          else (case s2 of
            [] \<Rightarrow> False
          | c # s3 \<Rightarrow>
              if 0xE0 \<le> a \<and> a \<le> 0xEF
              then (if a = 0xE0 then 0xA0 \<le> b \<and> b \<le> 0xBF
                    else if a = 0xED then 0x80 \<le> b \<and> b \<le> 0x9F else utf8_tail b)
                   \<and> utf8_tail c \<and> utf8_valid s3
              else (case s3 of
                [] \<Rightarrow> False
              | d # s4 \<Rightarrow>
                  0xF0 \<le> a \<and> a \<le> 0xF4
                  \<and> (if a = 0xF0 then 0x90 \<le> b \<and> b \<le> 0xBF
                     else if a = 0xF4 then 0x80 \<le> b \<and> b \<le> 0x8F else utf8_tail b)
                  \<and> utf8_tail c \<and> utf8_tail d \<and> utf8_valid s4)))"

text \<open>\<open>s.chars()\<close> on a well-formed string: the code points, of which the source keeps the
  low byte (\<open>c as u8\<close>).\<close>

fun utf8_chars :: "str \<Rightarrow> u32 list" where
  "utf8_chars [] = []"
| "utf8_chars (a # s) =
     (if a \<le> 0x7F then ucast a # utf8_chars s
      else case s of
        [] \<Rightarrow> []
      | b # s2 \<Rightarrow>
          if a \<le> 0xDF
          then (push_bit 6 (ucast a AND 0x1F) OR (ucast b AND 0x3F)) # utf8_chars s2
          else (case s2 of
            [] \<Rightarrow> []
          | c # s3 \<Rightarrow>
              if a \<le> 0xEF
              then (push_bit 12 (ucast a AND 0x0F) OR push_bit 6 (ucast b AND 0x3F)
                    OR (ucast c AND 0x3F)) # utf8_chars s3
              else (case s3 of
                [] \<Rightarrow> []
              | d # s4 \<Rightarrow>
                  (push_bit 18 (ucast a AND 0x07) OR push_bit 12 (ucast b AND 0x3F)
                   OR push_bit 6 (ucast c AND 0x3F) OR (ucast d AND 0x3F)) # utf8_chars s4)))"

lemma find_from_None: "find_from i c s = None \<longleftrightarrow> c \<notin> set s"
  by (induction s arbitrary: i) auto

lemma str_rfind_None: "str_rfind c s = None \<longleftrightarrow> c \<notin> set s"
  by (simp add: str_rfind_def str_find_def find_from_None)

text \<open>The last separator splits a string into a part before it and a part without one.\<close>

lemma str_rfind_append:
  assumes "c \<notin> set t"
  shows "str_rfind c (s @ c # t) = Some (length s)"
proof -
  have "find_from i c (rev t @ c # u) = Some (i + length t)" for i u
    using assms by (induction t arbitrary: i u rule: rev_induct) auto
  from this [of 0 "rev s"] show ?thesis by (simp add: str_rfind_def str_find_def)
qed

lemma str_rfind_Some:
  assumes "str_rfind c s = Some i"
  obtains t where "s = take i s @ c # t" "i < length s" "c \<notin> set t" "t = drop (Suc i) s"
proof -
  from assms have "c \<in> set s" by (metis option.distinct(1) str_rfind_None)
  then obtain u t where ut: "s = u @ c # t" "c \<notin> set t" by (meson split_list_last)
  have i: "i = length u" using assms str_rfind_append [OF ut(2), of u] unfolding ut(1) by simp
  show thesis
    by (rule that [of t]) (simp_all add: ut i)
qed

lemma utf8_chars_ascii:
  "(\<forall>b \<in> set s. b \<le> 0x7F) \<Longrightarrow> utf8_valid s \<and> utf8_chars s = map ucast s"
  by (induction s) auto

end
