(* ===== verification/Dir_Entry.thy ===== *)
theory Dir_Entry
  imports Fs_Types
begin

text \<open>
  FAT32 directory entries and the boot sector (\<open>kernel/src/filesystem/fat32/direntry.rs\<close>,
  \<open>boot_sector.rs\<close>): the 32-byte encoding of an entry and its inverse, names in 8.3 form,
  first clusters, timestamps, and the decoding of the first sector of a volume.
\<close>

section \<open>Directory entries\<close>

definition ROOT_CLUSTER :: nat where "ROOT_CLUSTER = 2"

definition MAX_CLUSTER :: nat where "MAX_CLUSTER = 0xFFFFFF"

definition FIRST_BYTE_IS_EMPTY_FLAG :: u8 where "FIRST_BYTE_IS_EMPTY_FLAG = 0"

definition FIRST_BYTE_IS_DELETED_FLAG :: u8 where "FIRST_BYTE_IS_DELETED_FLAG = 0xE5"

definition MAX_NAME_LENGTH :: nat where "MAX_NAME_LENGTH = 8"

definition MAX_EXT_LENGTH :: nat where "MAX_EXT_LENGTH = 3"

definition DIRECTORY_ENTRY_SIZE :: nat where "DIRECTORY_ENTRY_SIZE = 32"

datatype fat_file_attributes = NoAttr | ReadOnly | Hidden | System | VolumeId | DirectoryAttr | Archive

fun attr_bits :: "fat_file_attributes \<Rightarrow> u8" where
  \<comment> \<open>\<open>FatFileAttributes as u8\<close>\<close>
  "attr_bits NoAttr = 0x00"
| "attr_bits ReadOnly = 0x01"
| "attr_bits Hidden = 0x02"
| "attr_bits System = 0x04"
| "attr_bits VolumeId = 0x08"
| "attr_bits DirectoryAttr = 0x10"
| "attr_bits Archive = 0x20"

record directory_entry =
  de_name :: "u8 list"
  de_extension :: "u8 list"
  de_attributes :: u8
  de_nt_reserved :: u8
  de_creation_time_tenth :: u8
  de_creation_time :: u16
  de_creation_date :: u16
  de_access_date :: u16
  de_first_cluster_high :: u16
  de_write_time :: u16
  de_write_date :: u16
  de_first_cluster_low :: u16
  de_file_size :: u32

text \<open>The arrays of the source have 8 and 3 elements.\<close>

definition direntry_wf :: "directory_entry \<Rightarrow> bool" where
  "direntry_wf e \<longleftrightarrow> length (de_name e) = 8 \<and> length (de_extension e) = 3"

definition get_first_cluster :: "directory_entry \<Rightarrow> nat" where
  "get_first_cluster e =
     unat (push_bit 16 (ucast (de_first_cluster_high e)) OR ucast (de_first_cluster_low e) :: u32)"

definition set_first_cluster :: "nat \<Rightarrow> directory_entry \<Rightarrow> directory_entry" where
  "set_first_cluster cluster e =
     e\<lparr>de_first_cluster_high := ucast (drop_bit 16 (of_nat cluster :: u32)),
       de_first_cluster_low := ucast (of_nat cluster :: u32)\<rparr>"

definition direntry_from_bytes :: "u8 list \<Rightarrow> ('e, directory_entry) outcome" where
  "direntry_from_bytes data =
     (if \<not> 32 \<le> length data then Panic
      else let first_cluster_high = u16_from_le_bytes (data ! 20) (data ! 21);
               first_cluster_low = u16_from_le_bytes (data ! 26) (data ! 27);
               cluster = push_bit 16 (ucast first_cluster_high) OR ucast first_cluster_low :: u32 in
           if \<not> unat cluster \<le> MAX_CLUSTER then Panic
           else Ok \<lparr>de_name = [data ! 0, data ! 1, data ! 2, data ! 3, data ! 4, data ! 5, data ! 6, data ! 7],
                    de_extension = [data ! 8, data ! 9, data ! 10],
                    de_attributes = data ! 11,
                    de_nt_reserved = data ! 12,
                    de_creation_time_tenth = data ! 13,
                    de_creation_time = u16_from_le_bytes (data ! 14) (data ! 15),
                    de_creation_date = u16_from_le_bytes (data ! 16) (data ! 17),
                    de_access_date = u16_from_le_bytes (data ! 18) (data ! 19),
                    de_first_cluster_high = first_cluster_high,
                    de_write_time = u16_from_le_bytes (data ! 22) (data ! 23),
                    de_write_date = u16_from_le_bytes (data ! 24) (data ! 25),
                    de_first_cluster_low = first_cluster_low,
                    de_file_size = u32_from_le_bytes (data ! 28) (data ! 29) (data ! 30) (data ! 31)\<rparr>)"

definition direntry_as_bytes :: "directory_entry \<Rightarrow> u8 list" where
  "direntry_as_bytes e =
     (let bytes = replicate 32 0;
          bytes = blit 0 (de_name e) bytes;
          bytes = blit 8 (de_extension e) bytes;
          bytes = bytes[11 := de_attributes e, 12 := de_nt_reserved e, 13 := de_creation_time_tenth e];
          bytes = blit 14 (u16_to_le_bytes (de_creation_time e)) bytes;
          bytes = blit 16 (u16_to_le_bytes (de_creation_date e)) bytes;
          bytes = blit 18 (u16_to_le_bytes (de_access_date e)) bytes;
          bytes = blit 20 (u16_to_le_bytes (de_first_cluster_high e)) bytes;
          bytes = blit 22 (u16_to_le_bytes (de_write_time e)) bytes;
          bytes = blit 24 (u16_to_le_bytes (de_write_date e)) bytes;
          bytes = blit 26 (u16_to_le_bytes (de_first_cluster_low e)) bytes;
          bytes = blit 28 (u32_to_le_bytes (de_file_size e)) bytes in
      bytes)"

definition direntry_create_empty :: directory_entry where
  "direntry_create_empty =
     \<lparr>de_name = replicate MAX_NAME_LENGTH 0, de_extension = replicate MAX_EXT_LENGTH 0,
      de_attributes = attr_bits NoAttr, de_nt_reserved = 0, de_creation_time_tenth = 0,
      de_creation_time = 0, de_creation_date = 0, de_access_date = 0, de_first_cluster_high = 0,
      de_write_time = 0, de_write_date = 0, de_first_cluster_low = 0, de_file_size = 0\<rparr>"

definition THIS_DIR_ENTRY_NAME :: "u8 list" where
  "THIS_DIR_ENTRY_NAME = 0x2E # replicate 7 0x20"

definition PARENT_DIR_ENTRY_NAME :: "u8 list" where
  "PARENT_DIR_ENTRY_NAME = [0x2E, 0x2E] @ replicate 6 0x20"

definition THIS_DIR_ENTRY_EXT :: "u8 list" where
  \<comment> \<open>also \<open>PARENT_DIR_ENTRY_EXT\<close>\<close>
  "THIS_DIR_ENTRY_EXT = replicate 3 0x20"

definition create_dot_entry :: "nat \<Rightarrow> directory_entry" where
  "create_dot_entry cluster =
     set_first_cluster cluster
       (direntry_create_empty\<lparr>de_name := THIS_DIR_ENTRY_NAME, de_attributes := attr_bits DirectoryAttr\<rparr>)"

definition create_dot_dot_entry :: "nat \<Rightarrow> directory_entry" where
  "create_dot_dot_entry parent_cluster =
     set_first_cluster parent_cluster
       (direntry_create_empty\<lparr>de_name := PARENT_DIR_ENTRY_NAME, de_attributes := attr_bits DirectoryAttr\<rparr>)"

definition direntry_create_for_root :: directory_entry where
  "direntry_create_for_root =
     \<lparr>de_name = replicate 8 0x20, de_extension = replicate 3 0x20,
      de_attributes = attr_bits DirectoryAttr, de_nt_reserved = 0, de_creation_time_tenth = 0,
      de_creation_time = 0, de_creation_date = 0, de_access_date = 0,
      de_first_cluster_high = ucast (drop_bit 16 (of_nat ROOT_CLUSTER :: u32)),
      de_write_time = 0, de_write_date = 0,
      de_first_cluster_low = ucast (of_nat ROOT_CLUSTER :: u32), de_file_size = 0\<rparr>"

definition de_is_deleted :: "directory_entry \<Rightarrow> bool" where
  "de_is_deleted e \<longleftrightarrow> de_name e ! 0 = FIRST_BYTE_IS_DELETED_FLAG"

definition de_is_empty :: "directory_entry \<Rightarrow> bool" where
  "de_is_empty e \<longleftrightarrow> de_name e ! 0 = FIRST_BYTE_IS_EMPTY_FLAG"

definition de_is_valid :: "directory_entry \<Rightarrow> bool" where
  "de_is_valid e \<longleftrightarrow> \<not> (de_name e ! 0 = FIRST_BYTE_IS_EMPTY_FLAG \<or> de_name e ! 0 = FIRST_BYTE_IS_DELETED_FLAG)"

definition de_is_directory :: "directory_entry \<Rightarrow> bool" where
  "de_is_directory e \<longleftrightarrow> de_attributes e AND attr_bits DirectoryAttr \<noteq> 0"

definition de_is_volume_id :: "directory_entry \<Rightarrow> bool" where
  "de_is_volume_id e \<longleftrightarrow> de_attributes e AND attr_bits VolumeId \<noteq> 0"

definition is_current_directory :: "directory_entry \<Rightarrow> bool" where
  "is_current_directory e \<longleftrightarrow>
     de_name e = THIS_DIR_ENTRY_NAME \<and> de_extension e = THIS_DIR_ENTRY_EXT \<and> de_is_directory e"

definition is_parent_directory :: "directory_entry \<Rightarrow> bool" where
  "is_parent_directory e \<longleftrightarrow>
     de_name e = PARENT_DIR_ENTRY_NAME \<and> de_extension e = THIS_DIR_ENTRY_EXT \<and> de_is_directory e"

definition de_full_name :: "directory_entry \<Rightarrow> u8 list" where
  "de_full_name e = blit 8 (de_extension e) (blit 0 (de_name e) (replicate 11 0))"

definition get_file_type :: "directory_entry \<Rightarrow> file_type" where
  "get_file_type e = (if de_is_directory e then Directory else File)"

definition get_stem :: "directory_entry \<Rightarrow> str" where
  "get_stem e = takeWhile (\<lambda>c. c \<noteq> 0 \<and> c \<noteq> 0x20) (de_name e)"

definition get_filename :: "directory_entry \<Rightarrow> str" where
  "get_filename e =
     (let name = get_stem e;
          ext = takeWhile (\<lambda>c. c \<noteq> 0 \<and> c \<noteq> 0x20) (de_extension e) in
      if length ext > 0
      then name @ [0x2E] @ (if utf8_valid ext then ext else [0x3F, 0x3F, 0x3F])
      else name)"

definition full_name_matches :: "directory_entry \<Rightarrow> u8 list \<Rightarrow> bool" where
  "full_name_matches e fullname \<longleftrightarrow>
     de_name e = chunk 0 8 fullname \<and> de_extension e = chunk 8 3 fullname"

definition upcase :: "u8 \<Rightarrow> u8" where
  "upcase c = (if 0x61 \<le> c \<and> c \<le> 0x7A then c - 32 else c)"

definition split_extension :: "str \<Rightarrow> str \<times> str option" where
  \<comment> \<open>at the last dot\<close>
  "split_extension filename =
     (case str_rfind 0x2E filename of
        Some pos \<Rightarrow> (take pos filename, Some (drop (pos + 1) filename))
      | None \<Rightarrow> (filename, None))"

definition set_filename :: "str \<Rightarrow> directory_entry \<Rightarrow> (file_system_error, directory_entry) outcome" where
  "set_filename filename e =
     (let name = replicate 8 0x20; extension = replicate 3 0x20;
          (name_part, ext_part) = split_extension filename in
      if length name_part > MAX_NAME_LENGTH then Err InvalidFilename
      else case ext_part of
        None \<Rightarrow> Ok (e\<lparr>de_name := blit 0 (map upcase name_part) name, de_extension := extension\<rparr>)
      | Some ext \<Rightarrow>
          if length ext > MAX_EXT_LENGTH then Err InvalidFilename
          else Ok (e\<lparr>de_name := blit 0 (map upcase name_part) name,
                     de_extension := blit 0 (map upcase ext) extension\<rparr>))"

definition mark_deleted :: "directory_entry \<Rightarrow> directory_entry" where
  "mark_deleted e = e\<lparr>de_name := (de_name e)[0 := FIRST_BYTE_IS_DELETED_FLAG]\<rparr>"

section \<open>Timestamps\<close>

definition is_leap_year :: "nat \<Rightarrow> bool" where
  "is_leap_year year \<longleftrightarrow> year mod 4 = 0 \<and> (year mod 100 \<noteq> 0 \<or> year mod 400 = 0)"

text \<open>The \<open>while\<close> loop of the table: \<open>n\<close> years from \<open>y\<close> on, \<open>cumsum\<close> days before.\<close>

fun days_table :: "nat \<Rightarrow> nat \<Rightarrow> nat \<Rightarrow> nat list" where
  "days_table 0 y cumsum = []"
| "days_table (Suc n) y cumsum =
     cumsum # days_table n (Suc y) (cumsum + (if is_leap_year y then 366 else 365))"

definition DAYS_UNTIL_YEAR_SINCE_1970 :: "nat list" where
  "DAYS_UNTIL_YEAR_SINCE_1970 = days_table 128 1970 0"

definition month_days :: "nat \<Rightarrow> nat" where
  "month_days month =
     (if 1 \<le> month \<and> month \<le> 12
      then [0, 31, 59, 90, 120, 151, 181, 212, 243, 273, 304, 334] ! (month - 1) else 0)"

text \<open>The result is a \<open>u32\<close>; every summand is positive, so an intermediate overflow is one of the sum.\<close>

definition fat_time_to_unix_timestamp :: "u16 \<Rightarrow> u16 \<Rightarrow> ('e, nat) outcome" where
  "fat_time_to_unix_timestamp time date =
     (let seconds = unat (time AND 0x1F) * 2;
          minutes = unat (drop_bit 5 time AND 0x3F);
          hours = unat (drop_bit 11 time AND 0x1F);
          day = unat (date AND 0x1F);
          month = unat (drop_bit 5 date AND 0x0F);
          year_idx = unat (drop_bit 9 date AND 0x7F);
          days = DAYS_UNTIL_YEAR_SINCE_1970 ! year_idx + month_days month;
          year = year_idx + 1980;
          days = (if month > 2 \<and> is_leap_year year then days + 1 else days);
          days = (if day > 1 then days + (day - 1) else days);
          total = days * 86400 + hours * 3600 + minutes * 60 + seconds in
      if total < 2 ^ 32 then Ok total else Panic)"

definition get_creation_timestamp :: "directory_entry \<Rightarrow> ('e, nat) outcome" where
  "get_creation_timestamp e = fat_time_to_unix_timestamp (de_creation_time e) (de_creation_date e)"

definition get_modified_timestamp :: "directory_entry \<Rightarrow> ('e, nat) outcome" where
  "get_modified_timestamp e = fat_time_to_unix_timestamp (de_write_time e) (de_write_date e)"

section \<open>The boot sector\<close>

record boot_sector =
  jmp_boot :: "u8 list"
  oem_name :: "u8 list"
  bytes_per_sector :: u16
  bs_sectors_per_cluster :: u8
  reserved_sectors :: u16
  num_fats :: u8
  root_entries :: u16
  total_sectors_16 :: u16
  media_descriptor :: u8
  fat_size_16 :: u16
  sectors_per_track :: u16
  num_heads :: u16
  hidden_sectors :: u32
  total_sectors_32 :: u32
  fat_size_32 :: u32
  ext_flags :: u16
  fs_version :: u16
  root_cluster :: u32
  fsinfo_sector :: u16
  backup_boot_sector :: u16
  bs_reserved :: "u8 list"
  drive_number :: u8
  winnt_flags :: u8
  bs_signature :: u8
  volume_id :: u32
  volume_label :: "u8 list"
  fs_type :: "u8 list"
  bootcode :: "u8 list"
  signature_word :: u16
  root_dir_sectors :: u16

definition u16_at :: "u8 list \<Rightarrow> nat \<Rightarrow> u16" where
  "u16_at data i = u16_from_le_bytes (data ! i) (data ! (i + 1))"

definition u32_at :: "u8 list \<Rightarrow> nat \<Rightarrow> u32" where
  "u32_at data i = u32_from_le_bytes (data ! i) (data ! (i + 1)) (data ! (i + 2)) (data ! (i + 3))"

definition boot_sector_from_bytes :: "u8 list \<Rightarrow> (file_system_error, boot_sector) outcome" where
  "boot_sector_from_bytes data =
     (if length data < 512 then Err IoError
      else let bs = \<lparr>
        jmp_boot = chunk 0 3 data,
        oem_name = chunk 3 8 data,
        bytes_per_sector = u16_at data 11,
        bs_sectors_per_cluster = data ! 13,
        reserved_sectors = u16_at data 14,
        num_fats = data ! 16,
        root_entries = u16_at data 17,
        total_sectors_16 = u16_at data 19,
        media_descriptor = data ! 21,
        fat_size_16 = u16_at data 22,
        sectors_per_track = u16_at data 24,
        num_heads = u16_at data 26,
        hidden_sectors = u32_at data 28,
        total_sectors_32 = u32_at data 32,
        fat_size_32 = u32_at data 36,
        ext_flags = u16_at data 40,
        fs_version = u16_at data 42,
        root_cluster = u32_at data 44,
        fsinfo_sector = u16_at data 48,
        backup_boot_sector = u16_at data 50,
        bs_reserved = chunk 52 12 data,
        drive_number = data ! 64,
        winnt_flags = data ! 65,
        bs_signature = data ! 66,
        volume_id = u32_at data 67,
        volume_label = chunk 71 11 data,
        fs_type = chunk 82 8 data,
        bootcode = replicate 420 0,
        signature_word = u16_at data 510,
        root_dir_sectors = 0\<rparr> in
      if fat_size_32 bs = 0 then Err DiskOpError
      else if root_entries bs \<noteq> 0 then Err DiskOpError
      else Ok bs)"

section \<open>Encoding and decoding entries\<close>

lemma length_direntry_as_bytes [simp]: "direntry_wf e \<Longrightarrow> length (direntry_as_bytes e) = 32"
  by (simp add: direntry_as_bytes_def direntry_wf_def Let_def)

lemma list8: "length xs = 8 \<Longrightarrow> xs = [xs!0, xs!1, xs!2, xs!3, xs!4, xs!5, xs!6, xs!7]"
  by (rule nth_equalityI) (auto simp: less_Suc_eq numeral_eq_Suc)

lemma list3: "length xs = 3 \<Longrightarrow> xs = [xs!0, xs!1, xs!2]"
  by (rule nth_equalityI) (auto simp: less_Suc_eq numeral_eq_Suc)

text \<open>Filling a zeroed buffer from left to right: \<open>p\<close> is what has been written.\<close>

lemma fill_first: "length ys \<le> n \<Longrightarrow> blit 0 ys (replicate n z) = ys @ replicate (n - length ys) z"
  by (simp add: blit_def)

lemma fill_blit:
  "length p = i \<Longrightarrow> length ys \<le> n \<Longrightarrow>
   blit i ys (p @ replicate n z) = (p @ ys) @ replicate (n - length ys) z"
  by (simp add: blit_def)

lemma fill_update:
  "length p = i \<Longrightarrow> 0 < n \<Longrightarrow> (p @ replicate n z)[i := v] = (p @ [v]) @ replicate (n - 1) z"
  by (cases n) (simp_all add: list_update_append)

text \<open>The encoding as one list of 32 bytes.\<close>

lemma direntry_as_bytes_list:
  assumes "direntry_wf e"
  shows "direntry_as_bytes e =
    de_name e @ de_extension e @ [de_attributes e, de_nt_reserved e, de_creation_time_tenth e]
    @ u16_to_le_bytes (de_creation_time e) @ u16_to_le_bytes (de_creation_date e)
    @ u16_to_le_bytes (de_access_date e) @ u16_to_le_bytes (de_first_cluster_high e)
    @ u16_to_le_bytes (de_write_time e) @ u16_to_le_bytes (de_write_date e)
    @ u16_to_le_bytes (de_first_cluster_low e) @ u32_to_le_bytes (de_file_size e)"
proof -
  have n: "length (de_name e) = 8" "length (de_extension e) = 3" using assms by (auto simp: direntry_wf_def)
  show ?thesis
    unfolding direntry_as_bytes_def Let_def
    by (simp add: fill_first fill_blit fill_update n del: append_assoc)
qed

lemma get_set_first_cluster [simp]:
  assumes "c < 2 ^ 32"
  shows "get_first_cluster (set_first_cluster c e) = c"
proof -
  have "push_bit 16 (ucast (ucast (drop_bit 16 w) :: u16)) OR ucast (ucast w :: u16) = w" for w :: u32
    by (rule bit_word_eqI) (auto simp: bit_simps)
  then show ?thesis
    using assms by (simp add: get_first_cluster_def set_first_cluster_def unat_of_nat)
qed

lemma direntry_from_as_bytes:
  assumes "direntry_wf e"
  shows "direntry_from_bytes (direntry_as_bytes e @ rest) =
    (if get_first_cluster e \<le> MAX_CLUSTER then Ok e else Panic)"
proof -
  obtain n0 n1 n2 n3 n4 n5 n6 n7 x0 x1 x2
    where "de_name e = [n0, n1, n2, n3, n4, n5, n6, n7]" "de_extension e = [x0, x1, x2]"
    using assms list8 [of "de_name e"] list3 [of "de_extension e"] unfolding direntry_wf_def by metis
  then show ?thesis
    unfolding direntry_as_bytes_list [OF assms]
    by (simp add: direntry_from_bytes_def Let_def u16_to_le_bytes_def u32_to_le_bytes_def
        get_first_cluster_def)
qed

text \<open>C40: decoding the 32 bytes of an encoded entry gives the entry back, for every entry whose
  first cluster the driver can address; an entry with a larger first cluster makes the decoder
  panic, whatever else it holds.\<close>

theorem direntry_roundtrip:
  assumes "direntry_wf e"
  shows "direntry_from_bytes (direntry_as_bytes e @ rest) =
    (if get_first_cluster e \<le> MAX_CLUSTER then Ok e else Panic)"
  using assms by (rule direntry_from_as_bytes)

theorem direntry_roundtrip_witness:
  "direntry_from_bytes (direntry_as_bytes (create_dot_entry 77) @ []) = (Ok (create_dot_entry 77) :: (unit, directory_entry) outcome)"
proof -
  have "direntry_wf (create_dot_entry 77)"
    by (simp add: direntry_wf_def create_dot_entry_def set_first_cluster_def direntry_create_empty_def
        THIS_DIR_ENTRY_NAME_def MAX_EXT_LENGTH_def)
  moreover have "get_first_cluster (create_dot_entry 77) = 77" by (simp add: create_dot_entry_def)
  ultimately show ?thesis
    using direntry_roundtrip [of "create_dot_entry 77" "[]"] by (simp add: MAX_CLUSTER_def)
qed

text \<open>The entries written for \<open>.\<close> and \<open>..\<close> of a new directory are not recognised by
  \<open>is_current_directory\<close> and \<open>is_parent_directory\<close>: their extension is left zeroed where the
  tests ask for spaces.\<close>

theorem dot_entries_not_recognised:
  "de_is_directory (create_dot_entry c) \<and> \<not> is_current_directory (create_dot_entry c)
   \<and> de_is_directory (create_dot_dot_entry c) \<and> \<not> is_parent_directory (create_dot_dot_entry c)"
  by (simp add: is_current_directory_def is_parent_directory_def create_dot_entry_def
      create_dot_dot_entry_def set_first_cluster_def direntry_create_empty_def de_is_directory_def
      THIS_DIR_ENTRY_EXT_def MAX_EXT_LENGTH_def numeral_3_eq_3)

section \<open>Timestamps against the calendar\<close>

lemma length_days_table [simp]: "length (days_table n y c) = n"
  by (induction n arbitrary: y c) auto

lemma days_table_nth:
  "i < n \<Longrightarrow> days_table n y c ! i = c + (\<Sum>j < i. if is_leap_year (y + j) then 366 else 365)"
proof (induction n arbitrary: i y c)
  case (Suc n)
  show ?case
  proof (cases i)
    case (Suc k)
    with Suc.prems Suc.IH [of k "Suc y"] show ?thesis
      by (simp add: sum.lessThan_Suc_shift del: sum.lessThan_Suc)
  qed simp
qed simp

text \<open>Days from 1970 to the start of a year.\<close>

definition days_before_year :: "nat \<Rightarrow> nat" where
  "days_before_year year = (\<Sum>j < year - 1970. if is_leap_year (1970 + j) then 366 else 365)"

definition calendar_timestamp :: "u16 \<Rightarrow> u16 \<Rightarrow> nat" where
  \<comment> \<open>Unix time of a FAT time stamp, with the year counted from 1980 throughout\<close>
  "calendar_timestamp time date =
     (let month = unat (drop_bit 5 date AND 0x0F);
          day = unat (date AND 0x1F);
          year = 1980 + unat (drop_bit 9 date AND 0x7F) in
      (days_before_year year + month_days month + (if month > 2 \<and> is_leap_year year then 1 else 0)
       + (if day > 1 then day - 1 else 0)) * 86400
      + unat (drop_bit 11 time AND 0x1F) * 3600 + unat (drop_bit 5 time AND 0x3F) * 60
      + unat (time AND 0x1F) * 2)"

definition year_days :: "nat \<Rightarrow> nat" where
  "year_days y = (if is_leap_year y then 366 else 365)"

lemma unat_and_le: "unat ((w :: u16) AND m) \<le> unat m"
  using word_and_le1 [of w m] by (simp add: word_le_nat_alt)

lemma sum_lessThan_add: "(\<Sum>j < i + n. f j) = (\<Sum>j < i. f j) + (\<Sum>j < n. f (i + j))" for f :: "nat \<Rightarrow> nat"
  by (induction n) (simp_all add: add.assoc)

lemma DAYS_nth:
  assumes "i < 128"
  shows "DAYS_UNTIL_YEAR_SINCE_1970 ! i = (\<Sum>j < i. year_days (1970 + j))"
    "(\<Sum>j < i. year_days (1970 + j)) \<le> 46482"
proof -
  show "DAYS_UNTIL_YEAR_SINCE_1970 ! i = (\<Sum>j < i. year_days (1970 + j))"
    using assms by (simp add: DAYS_UNTIL_YEAR_SINCE_1970_def days_table_nth year_days_def)
  have "(\<Sum>j < i. year_days (1970 + j)) \<le> (\<Sum>j < i. 366)"
    by (intro sum_mono) (simp add: year_days_def)
  then show "(\<Sum>j < i. year_days (1970 + j)) \<le> 46482" using assms by simp
qed

lemma month_days_le: "month_days m \<le> 334"
proof (cases "1 \<le> m \<and> m \<le> 12")
  case True
  then have "m = 1 \<or> m = 2 \<or> m = 3 \<or> m = 4 \<or> m = 5 \<or> m = 6 \<or> m = 7 \<or> m = 8 \<or> m = 9
    \<or> m = 10 \<or> m = 11 \<or> m = 12" by arith
  then show ?thesis by (elim disjE) (simp_all add: month_days_def)
qed (auto simp: month_days_def)

text \<open>The conversion of FAT time stamps never overflows, for any two words; and the time it
  gives lies before the calendar's by the length of the ten years before the year of the stamp:
  the table of days since 1970 is indexed with a year counted from 1980.\<close>

theorem fat_time_ten_years_early:
  "\<exists>t. fat_time_to_unix_timestamp time date = Ok t
     \<and> t + 86400 * (\<Sum>j < 10. year_days (1970 + unat (drop_bit 9 date AND 0x7F) + j))
       = calendar_timestamp time date"
proof -
  define i where "i = unat (drop_bit 9 date AND 0x7F)"
  define m where "m = unat (drop_bit 5 date AND 0x0F)"
  define d where "d = unat (date AND 0x1F)"
  define days where "days = DAYS_UNTIL_YEAR_SINCE_1970 ! i + month_days m
    + (if m > 2 \<and> is_leap_year (i + 1980) then 1 else 0) + (if d > 1 then d - 1 else 0)"
  define hms where "hms = unat (drop_bit 11 time AND 0x1F) * 3600
    + unat (drop_bit 5 time AND 0x3F) * 60 + unat (time AND 0x1F) * 2"
  have i: "i < 128" unfolding i_def using unat_and_le [of "drop_bit 9 date" "0x7F"] by simp
  have d: "d \<le> 31" unfolding d_def using unat_and_le [of date "0x1F"] by simp
  have hms: "hms \<le> 31 * 3600 + 63 * 60 + 31 * 2"
    unfolding hms_def using unat_and_le [of "drop_bit 11 time" "0x1F"]
      unat_and_le [of "drop_bit 5 time" "0x3F"] unat_and_le [of time "0x1F"] by simp
  have days: "days \<le> 46482 + 334 + 1 + 30"
    unfolding days_def using DAYS_nth [OF i] month_days_le [of m] d by auto
  have if_sum: "(if q then (if p then b + 1 else b) + y else (if p then b + 1 else b))
      = b + (if p then 1 else 0) + (if q then y else 0)" for p q and b y :: nat by simp
  have "days * 86400 + hms < 2 ^ 32" using days hms by simp
  moreover have "fat_time_to_unix_timestamp time date
      = (if days * 86400 + hms < 2 ^ 32 then Ok (days * 86400 + hms) else Panic)"
    unfolding fat_time_to_unix_timestamp_def Let_def i_def [symmetric] m_def [symmetric]
      d_def [symmetric] if_sum days_def hms_def by (simp only: add.assoc)
  moreover have dby: "days_before_year (1980 + i)
      = DAYS_UNTIL_YEAR_SINCE_1970 ! i + (\<Sum>j < 10. year_days (1970 + i + j))"
    using sum_lessThan_add [of "\<lambda>j. year_days (1970 + j)" i 10] DAYS_nth [OF i]
    by (simp add: days_before_year_def year_days_def ac_simps)
  have "calendar_timestamp time date
      = (days + (\<Sum>j < 10. year_days (1970 + i + j))) * 86400 + hms"
    unfolding calendar_timestamp_def Let_def i_def [symmetric] m_def [symmetric] d_def [symmetric]
      dby days_def hms_def add.commute [of i 1980] by (simp only: ac_simps)
  ultimately show ?thesis
    unfolding i_def [symmetric] by (simp add: add_mult_distrib mult.commute)
qed

end
