(* ===== verification/Disk.thy ===== *)
theory Disk
  imports Fs_Types
begin

text \<open>
  Block devices (\<open>kernel/src/io/disk.rs\<close>): the \<open>DiskDevice\<close> trait as a record of operations
  over a device state, the in-memory device of the tests, and the disk manager. The locale
  \<open>disk_device\<close> states what the file system relies on: a device is an image of whole sectors,
  a read returns bytes of the image and a write replaces them. The in-memory device
  implements it.
\<close>

section \<open>The trait and the manager\<close>

datatype disk_op_error =
  ReadError | WriteError | InvalidSector | DeviceNotFound | BufferTooSmall | Timeout

definition SECTOR_SIZE :: nat where "SECTOR_SIZE = 512"

text \<open>
  \<open>trait DiskDevice\<close>: \<open>read_sectors\<close> gets the caller's buffer and returns it filled.
\<close>

record 'd disk_ops =
  op_read_sectors :: "nat \<Rightarrow> nat \<Rightarrow> u8 list \<Rightarrow> ('d, disk_op_error, u8 list) call"
  op_write_sectors :: "nat \<Rightarrow> nat \<Rightarrow> u8 list \<Rightarrow> ('d, disk_op_error, unit) call"
  op_sector_count :: "'d \<Rightarrow> nat"

definition mgr_read_sector :: "'d disk_ops \<Rightarrow> nat \<Rightarrow> u8 list \<Rightarrow> ('d, disk_op_error, u8 list) call" where
  "mgr_read_sector ops sector out_buffer =
     (if length out_buffer < SECTOR_SIZE then fail InvalidSector
      else op_read_sectors ops sector 1 out_buffer)"

definition mgr_read_sectors :: "'d disk_ops \<Rightarrow> nat \<Rightarrow> nat \<Rightarrow> u8 list \<Rightarrow> ('d, disk_op_error, u8 list) call" where
  "mgr_read_sectors ops start count out_buffer = op_read_sectors ops start count out_buffer"

definition mgr_write_sector :: "'d disk_ops \<Rightarrow> nat \<Rightarrow> u8 list \<Rightarrow> ('d, disk_op_error, unit) call" where
  "mgr_write_sector ops sector data =
     (if length data < SECTOR_SIZE then fail InvalidSector else op_write_sectors ops sector 1 data)"

definition mgr_write_sectors :: "'d disk_ops \<Rightarrow> nat \<Rightarrow> nat \<Rightarrow> u8 list \<Rightarrow> ('d, disk_op_error, unit) call" where
  "mgr_write_sectors ops sector count data =
     (if length data < SECTOR_SIZE then fail InvalidSector else op_write_sectors ops sector count data)"

definition mgr_sector_count :: "'d disk_ops \<Rightarrow> 'd \<Rightarrow> nat" where
  "mgr_sector_count ops d = op_sector_count ops d"

text \<open>\<open>impl From<DiskOpError> for FileSystemError\<close>, applied by the \<open>?\<close> operator.\<close>

definition lift_disk :: "('d, disk_op_error, 'a) call \<Rightarrow> ('d, file_system_error, 'a) call" where
  "lift_disk m = (\<lambda>d. case m d of (r, d') \<Rightarrow> (map_err (\<lambda>_. DiskOpError) r, d'))"

section \<open>The in-memory device\<close>

text \<open>Byte offsets are \<open>usize\<close> products: one that does not fit is an overflow.\<close>

record mock_disk =
  size_bytes :: nat
  mock_data :: "u8 list"

definition mock_new :: "nat \<Rightarrow> mock_disk" where
  "mock_new size_sectors =
     (let size = size_sectors * SECTOR_SIZE in \<lparr>size_bytes = size, mock_data = replicate size 0\<rparr>)"

definition mock_load_image :: "u8 list \<Rightarrow> (mock_disk, disk_op_error, unit) call" where
  "mock_load_image image_data = (\<lambda>d.
     if length image_data > size_bytes d then (Err InvalidSector, d)
     else if length image_data \<le> length (mock_data d)
     then (Ok (), d\<lparr>mock_data := blit 0 image_data (mock_data d)\<rparr>) else (Panic, d))"

definition mock_read_sectors :: "nat \<Rightarrow> nat \<Rightarrow> u8 list \<Rightarrow> (mock_disk, disk_op_error, u8 list) call" where
  "mock_read_sectors start_sector count out_buffer = (\<lambda>d.
     let start_byte = start_sector * SECTOR_SIZE;
         end_byte = start_byte + count * SECTOR_SIZE in
     if end_byte \<ge> 2 ^ 64 then (Panic, d)
     else if end_byte > size_bytes d then (Err InvalidSector, d)
     else if length out_buffer < count * SECTOR_SIZE then (Err InvalidSector, d)
     else if end_byte \<le> length (mock_data d)
     then (Ok (blit 0 (chunk start_byte (count * SECTOR_SIZE) (mock_data d)) out_buffer), d)
     else (Panic, d))"

definition mock_write_sectors :: "nat \<Rightarrow> nat \<Rightarrow> u8 list \<Rightarrow> (mock_disk, disk_op_error, unit) call" where
  "mock_write_sectors start_sector count data = (\<lambda>d.
     let start_byte = start_sector * SECTOR_SIZE;
         byte_count = count * SECTOR_SIZE;
         end_byte = start_byte + byte_count in
     if end_byte \<ge> 2 ^ 64 then (Panic, d)
     else if end_byte > size_bytes d then (Err InvalidSector, d)
     else if length data < byte_count then (Err InvalidSector, d)
     else if end_byte \<le> length (mock_data d)
     then (Ok (), d\<lparr>mock_data := blit start_byte (take byte_count data) (mock_data d)\<rparr>)
     else (Panic, d))"

definition mock_sector_count :: "mock_disk \<Rightarrow> nat" where
  "mock_sector_count d = size_bytes d div SECTOR_SIZE"

definition mock_ops :: "mock_disk disk_ops" where
  "mock_ops = \<lparr>op_read_sectors = mock_read_sectors, op_write_sectors = mock_write_sectors,
               op_sector_count = mock_sector_count\<rparr>"

section \<open>The contract of a device\<close>

locale disk_device =
  fixes ops :: "'d disk_ops" and invar :: "'d \<Rightarrow> bool" and image :: "'d \<Rightarrow> u8 list"
  assumes read_law: "invar d \<Longrightarrow> (start + count) * 512 \<le> length (image d) \<Longrightarrow>
      count * 512 \<le> length buf \<Longrightarrow>
      op_read_sectors ops start count buf d
        = (Ok (blit 0 (chunk (start * 512) (count * 512) (image d)) buf), d)"
    and write_law: "invar d \<Longrightarrow> (start + count) * 512 \<le> length (image d) \<Longrightarrow>
      count * 512 \<le> length data \<Longrightarrow>
      \<exists>d'. op_write_sectors ops start count data d = (Ok (), d') \<and> invar d'
         \<and> image d' = blit (start * 512) (take (count * 512) data) (image d)"
    and range_law: "invar d \<Longrightarrow> length (image d) < (start + count) * 512 \<Longrightarrow>
      (start + count) * 512 < 2 ^ 64 \<Longrightarrow>
      (\<exists>e. op_read_sectors ops start count buf d = (Err e, d))
      \<and> (\<exists>e. op_write_sectors ops start count data d = (Err e, d))"
begin

lemma read_sector_image:
  assumes "invar d" "(s + 1) * 512 \<le> length (image d)" "length buf = 512"
  shows "lift_disk (mgr_read_sector ops s buf) d = (Ok (chunk (s * 512) 512 (image d)), d)"
  using assms read_law [OF assms(1), of s 1 buf]
  by (simp add: lift_disk_def mgr_read_sector_def SECTOR_SIZE_def)

lemma read_sectors_image:
  assumes "invar d" "(s + n) * 512 \<le> length (image d)" "length buf = n * 512"
  shows "lift_disk (mgr_read_sectors ops s n buf) d = (Ok (chunk (s * 512) (n * 512) (image d)), d)"
  using assms read_law [OF assms(1), of s n buf]
  by (simp add: lift_disk_def mgr_read_sectors_def)

lemma write_sector_image:
  assumes "invar d" "(s + 1) * 512 \<le> length (image d)" "512 \<le> length data"
  shows "\<exists>d'. lift_disk (mgr_write_sector ops s data) d = (Ok (), d') \<and> invar d'
    \<and> image d' = blit (s * 512) (take 512 data) (image d)"
proof -
  from write_law [OF assms(1), of s 1 data] assms(2,3) obtain d'
    where "op_write_sectors ops s 1 data d = (Ok (), d')" "invar d'"
      "image d' = blit (s * 512) (take 512 data) (image d)" by auto
  with assms(3) show ?thesis by (auto simp: lift_disk_def mgr_write_sector_def SECTOR_SIZE_def)
qed

lemma write_sectors_image:
  assumes "invar d" "(s + n) * 512 \<le> length (image d)" "n * 512 \<le> length data" "0 < n"
  shows "\<exists>d'. lift_disk (mgr_write_sectors ops s n data) d = (Ok (), d') \<and> invar d'
    \<and> image d' = blit (s * 512) (take (n * 512) data) (image d)"
proof -
  from write_law [OF assms(1-3)] obtain d'
    where "op_write_sectors ops s n data d = (Ok (), d')" "invar d'"
      "image d' = blit (s * 512) (take (n * 512) data) (image d)" by auto
  moreover have "\<not> length data < 512" using assms(3,4) by (cases n) auto
  ultimately show ?thesis by (auto simp: lift_disk_def mgr_write_sectors_def SECTOR_SIZE_def)
qed

text \<open>What is written is read back, and the other sectors are as before.\<close>

lemma write_read:
  assumes "invar d" "(s + 1) * 512 \<le> length (image d)" "length data = 512"
    and "(t + 1) * 512 \<le> length (image d)" "length buf = 512"
  shows "\<exists>d'. lift_disk (mgr_write_sector ops s data) d = (Ok (), d')
    \<and> lift_disk (mgr_read_sector ops t buf) d'
      = (if s = t then (Ok data, d') else (fst (lift_disk (mgr_read_sector ops t buf) d), d'))"
proof -
  from write_sector_image [OF assms(1,2), of data] assms(3) obtain d' where d': "invar d'"
    "lift_disk (mgr_write_sector ops s data) d = (Ok (), d')"
    "image d' = blit (s * 512) data (image d)" by auto
  have len: "length (image d') = length (image d)" using d'(3) assms(2,3) by simp
  have "chunk (t * 512) 512 (image d') = (if s = t then data else chunk (t * 512) 512 (image d))"
  proof (cases "s = t")
    case True
    with d'(3) assms(2,3) chunk_blit_same [of "s * 512" data "image d"] show ?thesis by simp
  next
    case False
    then have "t * 512 + 512 \<le> s * 512 \<or> s * 512 + 512 \<le> t * 512" by arith
    with False d'(3) assms(2-4) show ?thesis by (simp add: chunk_blit_disjoint)
  qed
  with d' len assms read_sector_image [OF assms(1,4,5)] read_sector_image [OF d'(1), of t buf]
  show ?thesis by auto
qed

end

definition mock_inv :: "mock_disk \<Rightarrow> bool" where
  "mock_inv d \<longleftrightarrow> length (mock_data d) = size_bytes d \<and> size_bytes d < 2 ^ 64"

interpretation mock: disk_device mock_ops mock_inv mock_data
  by unfold_locales
    (auto simp: mock_ops_def mock_inv_def mock_read_sectors_def mock_write_sectors_def
      SECTOR_SIZE_def Let_def add_mult_distrib)

lemma mock_new_inv: "n * 512 < 2 ^ 64 \<Longrightarrow> mock_inv (mock_new n)" "length (mock_data (mock_new n)) = n * 512"
  by (simp_all add: mock_inv_def mock_new_def SECTOR_SIZE_def Let_def)

text \<open>on the in-memory device a sector that was written is read back, every other sector
  reads as before the write, and an access past the end is refused without a change.\<close>

theorem mock_write_read:
  assumes "mock_inv d" "(s + 1) * 512 \<le> length (mock_data d)" "length data = 512"
    and "(t + 1) * 512 \<le> length (mock_data d)" "length buf = 512"
    and "length (mock_data d) < (u + 1) * 512" "(u + 1) * 512 < 2 ^ 64"
  shows "(\<exists>d'. lift_disk (mgr_write_sector mock_ops s data) d = (Ok (), d')
      \<and> lift_disk (mgr_read_sector mock_ops t buf) d'
        = (if s = t then (Ok data, d') else (fst (lift_disk (mgr_read_sector mock_ops t buf) d), d')))
    \<and> lift_disk (mgr_write_sector mock_ops u data) d = (Err DiskOpError, d)
    \<and> lift_disk (mgr_read_sector mock_ops u buf) d = (Err DiskOpError, d)"
  using mock.write_read [OF assms(1-5)] mock.range_law [OF assms(1), of u 1 buf data] assms(3,5-)
  by (auto simp: lift_disk_def mgr_write_sector_def mgr_read_sector_def SECTOR_SIZE_def)

theorem mock_write_read_witness:
  "\<exists>d'. lift_disk (mgr_write_sector mock_ops 1 (replicate 512 7)) (mock_new 2) = (Ok (), d')
    \<and> lift_disk (mgr_read_sector mock_ops 1 (replicate 512 0)) d' = (Ok (replicate 512 7), d')"
  using mock_write_read [OF mock_new_inv(1) [of 2], of 1 "replicate 512 7" 1 "replicate 512 0" 2]
  by (simp add: mock_new_inv)

end
