(* ===== verification/Fat32.thy ===== *)
theory Fat32
  imports Dir_Entry Disk
begin

text \<open>
  The FAT32 driver (\<open>kernel/src/filesystem/fat32/mod.rs\<close>), operation by operation. Every
  operation is a call on the state of a block device whose operations are a parameter
  (\<open>ops\<close>, \<open>trait DiskDevice\<close>); the state left behind by a failing operation is kept. Cluster
  and sector numbers are natural numbers (a cluster number is a \<open>u32\<close> and no product of the
  source reaches \<open>2 ^ 64\<close>); node handles and table entries are words.

  A loop of the source is a recursion with a number of rounds as its first argument. The
  walks along a chain get \<open>max_cluster\<close> rounds: one that has not left the table by then
  has met a cluster twice and, the table being unchanged, never ends (\<open>Diverge\<close>). The
  loops that move bytes get as many rounds as there are bytes.
\<close>

section \<open>Names and node handles\<close>

definition fat_is_directory :: "u8 \<Rightarrow> bool" where
  "fat_is_directory fat_attributes \<longleftrightarrow> fat_attributes AND attr_bits DirectoryAttr \<noteq> 0"

definition is_valid_filename :: "str \<Rightarrow> bool" where
  "is_valid_filename name =
     (if name = [] \<or> hd name = 0x2E then False
      else case str_rfind 0x2E name of
        Some dot \<Rightarrow> dot \<le> MAX_NAME_LENGTH \<and> length name - dot - 1 \<le> MAX_EXT_LENGTH
      | None \<Rightarrow> length name \<le> MAX_NAME_LENGTH)"

definition encode_node_id :: "directory_entry \<Rightarrow> nat \<Rightarrow> file_node_handle" where
  "encode_node_id entry parent_cluster =
     (let cluster = get_first_cluster entry; attrs = de_attributes entry in
      push_bit 56 (ucast attrs AND 0x7F)
      OR push_bit 32 (of_nat parent_cluster AND 0xFFFFFF)
      OR (of_nat cluster AND 0xFFFFFF))"

definition decode_node_id :: "file_node_handle \<Rightarrow> nat \<times> nat \<times> u8" where
  "decode_node_id node_id =
     (let attrs = ucast (drop_bit 56 node_id AND 0x7F);
          parent_cluster = unat (ucast (drop_bit 32 node_id AND 0xFFFFFF) :: u32);
          cluster = unat (ucast (node_id AND 0xFFFFFF) :: u32) in
      (cluster, parent_cluster, attrs))"

definition to_ascii_uppercase :: "u32 \<Rightarrow> u32" where
  "to_ascii_uppercase c = (if 0x61 \<le> c \<and> c \<le> 0x7A then c - 32 else c)"

definition to_fat32_name :: "str \<Rightarrow> (file_system_error, u8 list) outcome" where
  "to_fat32_name name =
     (if \<not> is_valid_filename name then Err InvalidFilename
      else let fat32_name = replicate 11 0x20;
               (stem, ext) = split_extension name;
               letters = (\<lambda>s. map (\<lambda>c. ucast (to_ascii_uppercase c)) (utf8_chars s)) in
           if length stem > MAX_NAME_LENGTH then Err InvalidFilename
           else case ext of
             None \<Rightarrow> Ok (blit 0 (letters stem) fat32_name)
           | Some ext \<Rightarrow>
               if length ext > MAX_EXT_LENGTH then Err InvalidFilename
               else Ok (blit MAX_NAME_LENGTH (letters ext) (blit 0 (letters stem) fat32_name)))"

primrec to_fat32_names :: "str list \<Rightarrow> (file_system_error, u8 list list) outcome" where
  "to_fat32_names [] = Ok []"
| "to_fat32_names (part # parts) =
     (if part = [0x2E] \<or> part = [0x2E, 0x2E] then Err InvalidPath
      else and_then (to_fat32_name part) (\<lambda>n. and_then (to_fat32_names parts) (\<lambda>ns. Ok (n # ns))))"

definition to_fat32_path :: "str \<Rightarrow> (file_system_error, u8 list list) outcome" where
  "to_fat32_path path = to_fat32_names (path_parts path)"

definition file_attributes_from_fat_attributes :: "u8 \<Rightarrow> file_attributes" where
  "file_attributes_from_fat_attributes fat_attributes =
     (if fat_is_directory fat_attributes then DIR_DEFAULT
      else if fat_attributes AND attr_bits ReadOnly = 0 then FILE_READ_WRITE else FILE_READONLY)"

section \<open>The driver\<close>

record fat32_driver =
  fd_boot_sector :: boot_sector
  fat_start_sector :: nat
  root_start_sector :: nat
  data_start_sector :: nat
  sectors_per_cluster :: nat
  cluster_size :: nat
  max_cluster :: nat
  root_dir_node_id :: file_node_handle
  root_direntry :: directory_entry
  root_filenode :: file_node

definition END_OF_CHAIN :: nat where "END_OF_CHAIN = 0x0FFFFFFF"

definition BAD_CLUSTER :: nat where "BAD_CLUSTER = 0x0FFFFFF7"

definition FAT_ENTRY_RESERVED_BEGIN :: nat where "FAT_ENTRY_RESERVED_BEGIN = 0x0FFFFFF8"

definition FAT_ENTRY_RESERVED_END :: nat where "FAT_ENTRY_RESERVED_END = 0x0FFFFFFE"

definition EMPTY_FAT_ENTRY :: nat where "EMPTY_FAT_ENTRY = 0"

text \<open>
  \<open>new\<close>: the subtraction and the addition on \<open>u32\<close> are checked, a zero cluster size in the
  boot sector is a division by zero.
\<close>

definition fat32_new :: "u8 list \<Rightarrow> (file_system_error, fat32_driver) outcome" where
  "fat32_new boot_sector_data =
     and_then (boot_sector_from_bytes boot_sector_data) (\<lambda>bs.
       let fat_start = unat (reserved_sectors bs);
           spc = unat (bs_sectors_per_cluster bs);
           fat_size = unat (fat_size_32 bs);
           root_start = fat_start + unat (num_fats bs) * fat_size;
           data_start = root_start + 0;
           csize = spc * unat (bytes_per_sector bs);
           root_entry = direntry_create_for_root;
           root_id = encode_node_id root_entry (unat (root_cluster bs));
           root_node = \<lparr>fn_node_id = root_id, fn_name = [0x2F], fn_file_type = Directory, fn_size = 0,
                        fn_created_time = 0, fn_modified_time = 0, fn_attributes = DIR_DEFAULT\<rparr>;
           total = (if total_sectors_32 bs \<noteq> 0 then unat (total_sectors_32 bs)
                    else unat (total_sectors_16 bs));
           data_start_32 = data_start mod 2 ^ 32 in
       if total < data_start_32 then Panic
       else if spc = 0 then Panic
       else let total_clusters = (total - data_start_32) div spc in
         if total_clusters + ROOT_CLUSTER \<ge> 2 ^ 32 then Panic
         else Ok \<lparr>fd_boot_sector = bs, fat_start_sector = fat_start, root_start_sector = root_start,
                  data_start_sector = data_start, sectors_per_cluster = spc, cluster_size = csize,
                  max_cluster = total_clusters + ROOT_CLUSTER, root_dir_node_id = root_id,
                  root_direntry = root_entry, root_filenode = root_node\<rparr>)"

definition cluster_to_sector :: "fat32_driver \<Rightarrow> nat \<Rightarrow> nat" where
  "cluster_to_sector drv cluster =
     (if cluster \<ge> 2 then data_start_sector drv + (cluster - 2) * sectors_per_cluster drv
      else root_start_sector drv)"

definition bps :: "fat32_driver \<Rightarrow> nat" where
  "bps drv = unat (bytes_per_sector (fd_boot_sector drv))"

section \<open>The allocation table\<close>

definition read_fat_entry :: "'d disk_ops \<Rightarrow> fat32_driver \<Rightarrow> nat \<Rightarrow> ('d, file_system_error, nat) call" where
  "read_fat_entry ops drv cluster =
     (let fat_offset = cluster * 4 in
      if bps drv = 0 then panic
      else let fat_sector = fat_start_sector drv + fat_offset div bps drv;
               offset_in_sector = fat_offset mod bps drv in
      bind (lift_disk (mgr_read_sector ops fat_sector (replicate (bps drv) 0))) (\<lambda>sector_buffer.
        if offset_in_sector + 3 < length sector_buffer
        then ret (unat (u32_from_le_bytes (sector_buffer ! offset_in_sector)
                          (sector_buffer ! (offset_in_sector + 1))
                          (sector_buffer ! (offset_in_sector + 2))
                          (sector_buffer ! (offset_in_sector + 3)) AND 0x0FFFFFFF))
        else panic))"

definition write_fat_entry :: "'d disk_ops \<Rightarrow> fat32_driver \<Rightarrow> nat \<Rightarrow> nat \<Rightarrow> ('d, file_system_error, unit) call" where
  "write_fat_entry ops drv cluster value =
     (let fat_offset = cluster * 4 in
      if bps drv = 0 then panic
      else let fat_sector = fat_start_sector drv + fat_offset div bps drv;
               offset_in_sector = fat_offset mod bps drv in
      bind (lift_disk (mgr_read_sector ops fat_sector (replicate (bps drv) 0))) (\<lambda>sector_buffer.
        if offset_in_sector + 3 < length sector_buffer
        then let existing = u32_from_le_bytes (sector_buffer ! offset_in_sector)
                          (sector_buffer ! (offset_in_sector + 1))
                          (sector_buffer ! (offset_in_sector + 2))
                          (sector_buffer ! (offset_in_sector + 3));
                 new_entry = (existing AND 0xF0000000) OR (of_nat value AND 0x0FFFFFFF) in
             lift_disk (mgr_write_sector ops fat_sector
                          (blit offset_in_sector (u32_to_le_bytes new_entry) sector_buffer))
        else panic))"

definition get_next_cluster :: "'d disk_ops \<Rightarrow> fat32_driver \<Rightarrow> nat \<Rightarrow> ('d, file_system_error, nat option) call" where
  "get_next_cluster ops drv cluster =
     (if cluster = 0 then ret None
      else bind (read_fat_entry ops drv cluster) (\<lambda>fat_entry.
        if fat_entry = END_OF_CHAIN then ret None
        else if fat_entry = BAD_CLUSTER then fail DiskOpError
        else if FAT_ENTRY_RESERVED_BEGIN \<le> fat_entry \<and> fat_entry \<le> FAT_ENTRY_RESERVED_END then ret None
        else ret (Some fat_entry)))"

primrec read_chain_loop :: "nat \<Rightarrow> 'd disk_ops \<Rightarrow> fat32_driver \<Rightarrow> nat \<Rightarrow> nat \<Rightarrow> u8 list \<Rightarrow>
    ('d, file_system_error, nat \<times> u8 list) call" where
  "read_chain_loop 0 ops drv curr_cluster bytes_read out_buffer =
     (if bytes_read < length out_buffer \<and> curr_cluster < max_cluster drv
      then diverge else ret (bytes_read, out_buffer))"
| "read_chain_loop (Suc rounds) ops drv curr_cluster bytes_read out_buffer =
     (if bytes_read < length out_buffer \<and> curr_cluster < max_cluster drv
      then
          (let sector = cluster_to_sector drv curr_cluster;
               bytes_to_read = min (cluster_size drv) (length out_buffer - bytes_read) in
           bind (lift_disk (mgr_read_sectors ops sector (sectors_per_cluster drv)
                   (replicate (cluster_size drv) 0))) (\<lambda>cluster_buffer.
           let out_buffer = blit bytes_read (take bytes_to_read cluster_buffer) out_buffer in
           bind (get_next_cluster ops drv curr_cluster) (\<lambda>next.
             case next of
               Some n \<Rightarrow> read_chain_loop rounds ops drv n (bytes_read + bytes_to_read) out_buffer
             | None \<Rightarrow> ret (bytes_read + bytes_to_read, out_buffer))))
      else ret (bytes_read, out_buffer))"

definition read_cluster_chain :: "'d disk_ops \<Rightarrow> fat32_driver \<Rightarrow> nat \<Rightarrow> u8 list \<Rightarrow>
    ('d, file_system_error, nat \<times> u8 list) call" where
  "read_cluster_chain ops drv start_cluster out_buffer =
     read_chain_loop (length out_buffer) ops drv start_cluster 0 out_buffer"

primrec chain_length_loop :: "nat \<Rightarrow> 'd disk_ops \<Rightarrow> fat32_driver \<Rightarrow> nat \<Rightarrow> nat \<Rightarrow>
    ('d, file_system_error, nat) call" where
  "chain_length_loop 0 ops drv curr_cluster len =
     (if curr_cluster \<ge> ROOT_CLUSTER \<and> curr_cluster < max_cluster drv
      then diverge else ret len)"
| "chain_length_loop (Suc rounds) ops drv curr_cluster len =
     (if curr_cluster \<ge> ROOT_CLUSTER \<and> curr_cluster < max_cluster drv
      then
          bind (get_next_cluster ops drv curr_cluster) (\<lambda>next.
            case next of
              Some n \<Rightarrow> chain_length_loop rounds ops drv n (len + 1)
            | None \<Rightarrow> ret (len + 1))
      else ret len)"

definition get_cluster_chain_length :: "'d disk_ops \<Rightarrow> fat32_driver \<Rightarrow> nat \<Rightarrow>
    ('d, file_system_error, nat) call" where
  "get_cluster_chain_length ops drv start_cluster =
     chain_length_loop (max_cluster drv) ops drv start_cluster 0"

primrec find_free_loop :: "'d disk_ops \<Rightarrow> fat32_driver \<Rightarrow> nat list \<Rightarrow> ('d, file_system_error, nat) call" where
  "find_free_loop ops drv [] = fail NoSpace"
| "find_free_loop ops drv (cluster # clusters) =
     bind (read_fat_entry ops drv cluster) (\<lambda>fat_entry.
       if fat_entry = 0 then ret cluster else find_free_loop ops drv clusters)"

definition find_free_cluster :: "'d disk_ops \<Rightarrow> fat32_driver \<Rightarrow> ('d, file_system_error, nat) call" where
  "find_free_cluster ops drv = find_free_loop ops drv [ROOT_CLUSTER..<max_cluster drv]"

primrec link_clusters :: "nat \<Rightarrow> 'd disk_ops \<Rightarrow> fat32_driver \<Rightarrow> nat \<Rightarrow> ('d, file_system_error, nat) call" where
  \<comment> \<open>the loop \<open>for _ in 1..count\<close>\<close>
  "link_clusters 0 ops drv prev_cluster = ret prev_cluster"
| "link_clusters (Suc n) ops drv prev_cluster =
     bind (find_free_cluster ops drv) (\<lambda>new_cluster.
     bind (write_fat_entry ops drv prev_cluster new_cluster) (\<lambda>_.
       link_clusters n ops drv new_cluster))"

definition allocate_clusters :: "'d disk_ops \<Rightarrow> fat32_driver \<Rightarrow> nat \<Rightarrow> ('d, file_system_error, nat) call" where
  "allocate_clusters ops drv count =
     (if count = 0 then panic
      else bind (find_free_cluster ops drv) (\<lambda>first_cluster.
           bind (link_clusters (count - 1) ops drv first_cluster) (\<lambda>prev_cluster.
           bind (write_fat_entry ops drv prev_cluster END_OF_CHAIN) (\<lambda>_.
             ret first_cluster))))"

primrec clear_sectors :: "'d disk_ops \<Rightarrow> nat \<Rightarrow> nat \<Rightarrow> ('d, file_system_error, unit) call" where
  \<comment> \<open>\<open>n\<close> sectors from \<open>sector\<close> on, each written with the zero buffer\<close>
  "clear_sectors ops sector 0 = ret ()"
| "clear_sectors ops sector (Suc n) =
     bind (lift_disk (mgr_write_sector ops sector (replicate 4096 0))) (\<lambda>_.
       clear_sectors ops (sector + 1) n)"

primrec clear_clusters :: "'d disk_ops \<Rightarrow> fat32_driver \<Rightarrow> nat \<Rightarrow> nat \<Rightarrow> ('d, file_system_error, unit) call" where
  "clear_clusters ops drv curr_cluster 0 = ret ()"
| "clear_clusters ops drv curr_cluster (Suc count) =
     bind (clear_sectors ops (cluster_to_sector drv curr_cluster) (sectors_per_cluster drv)) (\<lambda>_.
     bind (get_next_cluster ops drv curr_cluster) (\<lambda>next.
       case next of Some n \<Rightarrow> clear_clusters ops drv n count | None \<Rightarrow> ret ()))"

primrec free_chain_loop :: "nat \<Rightarrow> 'd disk_ops \<Rightarrow> fat32_driver \<Rightarrow> nat \<Rightarrow> ('d, file_system_error, unit) call" where
  "free_chain_loop 0 ops drv curr_cluster =
     (if curr_cluster \<ge> ROOT_CLUSTER \<and> curr_cluster < max_cluster drv
      then diverge else ret ())"
| "free_chain_loop (Suc rounds) ops drv curr_cluster =
     (if curr_cluster \<ge> ROOT_CLUSTER \<and> curr_cluster < max_cluster drv
      then
          bind (get_next_cluster ops drv curr_cluster) (\<lambda>next.
          bind (case next of
                  Some n \<Rightarrow> if n \<ge> ROOT_CLUSTER \<and> n < max_cluster drv then ret () else panic
                | None \<Rightarrow> ret ()) (\<lambda>_.
          bind (write_fat_entry ops drv curr_cluster EMPTY_FAT_ENTRY) (\<lambda>_.
            case next of Some n \<Rightarrow> free_chain_loop rounds ops drv n | None \<Rightarrow> ret ())))
      else ret ())"

definition free_cluster_chain :: "'d disk_ops \<Rightarrow> fat32_driver \<Rightarrow> nat \<Rightarrow> ('d, file_system_error, unit) call" where
  "free_cluster_chain ops drv start_cluster = free_chain_loop (max_cluster drv) ops drv start_cluster"


section \<open>Directories\<close>

primrec parse_entries :: "u8 list \<Rightarrow> nat \<Rightarrow> nat \<Rightarrow> ('e, directory_entry list) outcome" where
  \<comment> \<open>\<open>n\<close> entries from the \<open>i\<close>-th on, up to the first empty one\<close>
  "parse_entries buffer i 0 = Ok []"
| "parse_entries buffer i (Suc n) =
     and_then (direntry_from_bytes (chunk (i * DIRECTORY_ENTRY_SIZE) DIRECTORY_ENTRY_SIZE buffer)) (\<lambda>entry.
       if de_is_empty entry then Ok []
       else and_then (parse_entries buffer (i + 1) n) (\<lambda>entries. Ok (entry # entries)))"

definition read_directory_entries :: "'d disk_ops \<Rightarrow> fat32_driver \<Rightarrow> nat \<Rightarrow>
    ('d, file_system_error, directory_entry list) call" where
  "read_directory_entries ops drv start_cluster =
     bind (get_cluster_chain_length ops drv start_cluster) (\<lambda>cluster_count.
     bind (read_cluster_chain ops drv start_cluster (replicate (cluster_count * cluster_size drv) 0))
       (\<lambda>(bytes_read, buffer).
     lift_outcome (parse_entries buffer 0 (bytes_read div DIRECTORY_ENTRY_SIZE))))"

definition find_entry_by_cluster :: "'d disk_ops \<Rightarrow> fat32_driver \<Rightarrow> nat \<Rightarrow> nat \<Rightarrow>
    ('d, file_system_error, directory_entry) call" where
  "find_entry_by_cluster ops drv parent_cluster target_cluster =
     bind (read_directory_entries ops drv parent_cluster) (\<lambda>entries.
       case List.find (\<lambda>e. get_first_cluster e = target_cluster) entries of
         Some entry \<Rightarrow> ret entry
       | None \<Rightarrow> fail NotFound)"

text \<open>The walk of \<open>find_direntry\<close> along the parts of a path.\<close>

primrec find_direntry_loop :: "'d disk_ops \<Rightarrow> fat32_driver \<Rightarrow> str list \<Rightarrow> nat \<Rightarrow>
    directory_entry option \<Rightarrow> nat \<Rightarrow> ('d, file_system_error, directory_entry \<times> nat) call" where
  "find_direntry_loop ops drv [] curr_cluster found_entry parent_cluster =
     (case found_entry of Some entry \<Rightarrow> ret (entry, parent_cluster) | None \<Rightarrow> panic)"
| "find_direntry_loop ops drv (part # parts) curr_cluster found_entry parent_cluster =
     bind (lift_outcome (to_fat32_name part)) (\<lambda>fat32_path_part.
     bind (read_directory_entries ops drv curr_cluster) (\<lambda>entries.
       case List.find (\<lambda>e. \<not> de_is_deleted e \<and> full_name_matches e fat32_path_part) entries of
         None \<Rightarrow> fail NotFound
       | Some entry \<Rightarrow>
           if parts \<noteq> [] \<and> \<not> de_is_directory entry then fail NotDirectory
           else find_direntry_loop ops drv parts (get_first_cluster entry) (Some entry) curr_cluster))"

definition find_direntry :: "'d disk_ops \<Rightarrow> fat32_driver \<Rightarrow> str \<Rightarrow>
    ('d, file_system_error, directory_entry \<times> nat) call" where
  "find_direntry ops drv path =
     (let parts = path_parts path; root = unat (root_cluster (fd_boot_sector drv)) in
      if parts = [] then ret (root_direntry drv, root)
      else find_direntry_loop ops drv parts root None root)"

primrec write_chain_loop :: "nat \<Rightarrow> 'd disk_ops \<Rightarrow> fat32_driver \<Rightarrow> u8 list \<Rightarrow> nat \<Rightarrow> nat \<Rightarrow>
    ('d, file_system_error, unit) call" where
  \<comment> \<open>the writing loop of \<open>write_direntry\<close>\<close>
  "write_chain_loop 0 ops drv dir_buffer bytes_written curr_cluster =
     (if bytes_written < length dir_buffer \<and> curr_cluster < max_cluster drv
      then diverge else ret ())"
| "write_chain_loop (Suc rounds) ops drv dir_buffer bytes_written curr_cluster =
     (if bytes_written < length dir_buffer \<and> curr_cluster < max_cluster drv
      then
          (let sector = cluster_to_sector drv curr_cluster;
               chunk_size = min (cluster_size drv) (length dir_buffer - bytes_written) in
           bind (lift_disk (mgr_write_sectors ops sector (sectors_per_cluster drv)
                   (chunk bytes_written chunk_size dir_buffer))) (\<lambda>_.
           bind (get_next_cluster ops drv curr_cluster) (\<lambda>next.
             case next of
               Some n \<Rightarrow> write_chain_loop rounds ops drv dir_buffer (bytes_written + chunk_size) n
             | None \<Rightarrow> ret ())))
      else ret ())"

definition write_direntry :: "'d disk_ops \<Rightarrow> fat32_driver \<Rightarrow> nat \<Rightarrow> nat \<Rightarrow> directory_entry \<Rightarrow>
    ('d, file_system_error, unit) call" where
  "write_direntry ops drv dir_cluster index_in_directory entry =
     bind (get_cluster_chain_length ops drv dir_cluster) (\<lambda>cluster_count.
     bind (read_cluster_chain ops drv dir_cluster (replicate (cluster_count * cluster_size drv) 0))
       (\<lambda>(bytes_read, dir_buffer).
     let entry_offset = index_in_directory * DIRECTORY_ENTRY_SIZE;
         entry_end = entry_offset + DIRECTORY_ENTRY_SIZE in
     if entry_end > bytes_read then fail NoSpace
     else let dir_buffer = blit entry_offset (direntry_as_bytes entry) dir_buffer in
          write_chain_loop (length dir_buffer) ops drv dir_buffer 0 dir_cluster))"

primrec last_cluster_loop :: "nat \<Rightarrow> 'd disk_ops \<Rightarrow> fat32_driver \<Rightarrow> nat \<Rightarrow> ('d, file_system_error, nat) call" where
  "last_cluster_loop 0 ops drv last_cluster =
     (if last_cluster \<ge> ROOT_CLUSTER \<and> last_cluster < max_cluster drv
      then diverge else ret last_cluster)"
| "last_cluster_loop (Suc rounds) ops drv last_cluster =
     (if last_cluster \<ge> ROOT_CLUSTER \<and> last_cluster < max_cluster drv
      then
          bind (get_next_cluster ops drv last_cluster) (\<lambda>next.
            case next of
              Some n \<Rightarrow> last_cluster_loop rounds ops drv n
            | None \<Rightarrow> ret last_cluster)
      else ret last_cluster)"

definition expand_directory :: "'d disk_ops \<Rightarrow> fat32_driver \<Rightarrow> nat \<Rightarrow> nat \<Rightarrow>
    ('d, file_system_error, nat) call" where
  "expand_directory ops drv dir_cluster curr_entry_count =
     bind (last_cluster_loop (max_cluster drv) ops drv dir_cluster) (\<lambda>last_cluster.
     bind (allocate_clusters ops drv 1) (\<lambda>new_cluster.
     bind (clear_clusters ops drv new_cluster 1) (\<lambda>_.
     bind (write_fat_entry ops drv last_cluster new_cluster) (\<lambda>_.
     bind (write_fat_entry ops drv new_cluster END_OF_CHAIN) (\<lambda>_.
       ret curr_entry_count)))))"

primrec first_index :: "('a \<Rightarrow> bool) \<Rightarrow> nat \<Rightarrow> 'a list \<Rightarrow> nat option" where
  \<comment> \<open>\<open>Iterator::position\<close>\<close>
  "first_index p i [] = None"
| "first_index p i (x # xs) = (if p x then Some i else first_index p (Suc i) xs)"

definition find_free_slot_in_directory :: "'d disk_ops \<Rightarrow> fat32_driver \<Rightarrow> nat \<Rightarrow> directory_entry list \<Rightarrow>
    ('d, file_system_error, nat) call" where
  "find_free_slot_in_directory ops drv dir_cluster entries =
     (case first_index (\<lambda>e. \<not> de_is_valid e) 0 entries of
        Some i \<Rightarrow> ret i
      | None \<Rightarrow> expand_directory ops drv dir_cluster (length entries))"


section \<open>Files\<close>

primrec skip_clusters :: "nat \<Rightarrow> 'd disk_ops \<Rightarrow> fat32_driver \<Rightarrow> nat \<Rightarrow> ('d, file_system_error, nat option) call" where
  \<comment> \<open>\<open>None\<close> where the chain ends early\<close>
  "skip_clusters 0 ops drv curr_cluster = ret (Some curr_cluster)"
| "skip_clusters (Suc n) ops drv curr_cluster =
     bind (get_next_cluster ops drv curr_cluster) (\<lambda>next.
       case next of Some c \<Rightarrow> skip_clusters n ops drv c | None \<Rightarrow> ret None)"

primrec read_file_loop :: "nat \<Rightarrow> 'd disk_ops \<Rightarrow> fat32_driver \<Rightarrow> nat \<Rightarrow> nat \<Rightarrow> nat \<Rightarrow> nat \<Rightarrow> u8 list \<Rightarrow> u8 list \<Rightarrow>
    ('d, file_system_error, nat \<times> u8 list) call" where
  "read_file_loop 0 ops drv max_to_read curr_cluster total_read current_offset temp_buffer out_buffer =
     (if total_read < max_to_read
      then diverge else ret (total_read, out_buffer))"
| "read_file_loop (Suc rounds) ops drv max_to_read curr_cluster total_read current_offset temp_buffer out_buffer =
     (if total_read < max_to_read
      then
          bind (lift_disk (mgr_read_sectors ops (cluster_to_sector drv curr_cluster)
                  (sectors_per_cluster drv) temp_buffer)) (\<lambda>temp_buffer.
          let available_in_cluster = cluster_size drv - current_offset;
              bytes_from_cluster = min available_in_cluster (max_to_read - total_read);
              out_buffer = blit total_read (chunk current_offset bytes_from_cluster temp_buffer) out_buffer;
              total_read = total_read + bytes_from_cluster in
          if total_read < max_to_read
          then bind (get_next_cluster ops drv curr_cluster) (\<lambda>next.
                 case next of
                   Some n \<Rightarrow> read_file_loop rounds ops drv max_to_read n total_read 0 temp_buffer out_buffer
                 | None \<Rightarrow> ret (total_read, out_buffer))
          else ret (total_read, out_buffer))
      else ret (total_read, out_buffer))"

definition fat_read_file :: "'d disk_ops \<Rightarrow> fat32_driver \<Rightarrow> file_node_handle \<Rightarrow> nat \<Rightarrow> u8 list \<Rightarrow>
    ('d, file_system_error, nat \<times> u8 list) call" where
  "fat_read_file ops drv node_id offset out_buffer =
     (case decode_node_id node_id of (cluster, parent_cluster, attributes) \<Rightarrow>
      if fat_is_directory attributes then fail IsDirectory
      else if cluster = 0 then fail InvalidPath
      else bind (find_entry_by_cluster ops drv parent_cluster cluster) (\<lambda>entry.
        let file_size = unat (de_file_size entry) in
        if offset \<ge> file_size then ret (0, out_buffer)
        else if cluster_size drv = 0 then panic
        else bind (skip_clusters (offset div cluster_size drv) ops drv cluster) (\<lambda>pos.
          case pos of
            None \<Rightarrow> ret (0, out_buffer)
          | Some curr_cluster \<Rightarrow>
              let max_to_read = min (length out_buffer) (file_size - offset) in
              read_file_loop max_to_read ops drv max_to_read curr_cluster 0
                (offset mod cluster_size drv) (replicate (cluster_size drv) 0) out_buffer)))"

text \<open>Where the chain of a file ends, \<open>write_file\<close> appends a cleared cluster.\<close>

definition append_cluster :: "'d disk_ops \<Rightarrow> fat32_driver \<Rightarrow> nat \<Rightarrow> ('d, file_system_error, nat) call" where
  "append_cluster ops drv curr_cluster =
     bind (allocate_clusters ops drv 1) (\<lambda>new_cluster.
     bind (clear_clusters ops drv new_cluster 1) (\<lambda>_.
     bind (write_fat_entry ops drv curr_cluster new_cluster) (\<lambda>_.
       ret new_cluster)))"

definition next_or_append :: "'d disk_ops \<Rightarrow> fat32_driver \<Rightarrow> nat \<Rightarrow> ('d, file_system_error, nat) call" where
  "next_or_append ops drv curr_cluster =
     bind (get_next_cluster ops drv curr_cluster) (\<lambda>next.
       case next of Some n \<Rightarrow> ret n | None \<Rightarrow> append_cluster ops drv curr_cluster)"

primrec walk_to_cluster :: "nat \<Rightarrow> 'd disk_ops \<Rightarrow> fat32_driver \<Rightarrow> nat \<Rightarrow> ('d, file_system_error, nat) call" where
  \<comment> \<open>\<open>target_cluster_index - cluster_index\<close> steps to go\<close>
  "walk_to_cluster 0 ops drv curr_cluster = ret curr_cluster"
| "walk_to_cluster (Suc n) ops drv curr_cluster =
     bind (next_or_append ops drv curr_cluster) (\<lambda>c. walk_to_cluster n ops drv c)"

primrec write_file_loop :: "nat \<Rightarrow> 'd disk_ops \<Rightarrow> fat32_driver \<Rightarrow> u8 list \<Rightarrow> nat \<Rightarrow> nat \<Rightarrow> nat \<Rightarrow>
    ('d, file_system_error, nat) call" where
  \<comment> \<open>\<open>offset_in_cluster\<close> is zero after the first round\<close>
  "write_file_loop 0 ops drv data data_written curr_cluster offset_in_cluster =
     (if data_written < length data then diverge else ret data_written)"
| "write_file_loop (Suc rounds) ops drv data data_written curr_cluster offset_in_cluster =
     (if data_written < length data
      then
          (let bytes_remaining_in_cluster = cluster_size drv - offset_in_cluster;
               bytes_to_write = min bytes_remaining_in_cluster (length data - data_written);
               sector = cluster_to_sector drv curr_cluster in
           bind (if offset_in_cluster \<noteq> 0 \<or> bytes_to_write < cluster_size drv
                 then bind (lift_disk (mgr_read_sectors ops sector (sectors_per_cluster drv)
                              (replicate (cluster_size drv) 0))) (\<lambda>cluster_buf.
                      lift_disk (mgr_write_sectors ops sector (sectors_per_cluster drv)
                        (blit offset_in_cluster (chunk data_written bytes_to_write data) cluster_buf)))
                 else lift_disk (mgr_write_sectors ops sector (sectors_per_cluster drv)
                        (chunk data_written bytes_to_write data))) (\<lambda>_.
           let data_written = data_written + bytes_to_write in
           if data_written < length data
           then bind (next_or_append ops drv curr_cluster) (\<lambda>c.
                  write_file_loop rounds ops drv data data_written c 0)
           else ret data_written))
      else ret data_written)"

definition fat_write_file :: "'d disk_ops \<Rightarrow> fat32_driver \<Rightarrow> file_node_handle \<Rightarrow> nat \<Rightarrow> u8 list \<Rightarrow>
    ('d, file_system_error, nat) call" where
  "fat_write_file ops drv node_id offset data =
     (if data = [] then ret 0
      else case decode_node_id node_id of (cluster, parent_cluster, attributes) \<Rightarrow>
      if fat_is_directory attributes then fail IsDirectory
      else if cluster = 0 then fail InvalidPath
      else bind (find_entry_by_cluster ops drv parent_cluster cluster) (\<lambda>entry.
        let old_size = unat (de_file_size entry); new_end = offset + length data in
        if new_end \<ge> 2 ^ 64 then panic
        else if cluster_size drv = 0 then panic
        else bind (walk_to_cluster (offset div cluster_size drv) ops drv cluster) (\<lambda>curr_cluster.
             bind (write_file_loop (length data) ops drv data 0 curr_cluster
                     (offset mod cluster_size drv)) (\<lambda>data_written.
             let entry = entry\<lparr>de_file_size := of_nat new_end\<rparr> in
             if new_end > old_size
             then bind (read_directory_entries ops drv parent_cluster) (\<lambda>entries.
                    case first_index (\<lambda>e. \<not> de_is_deleted e \<and> get_first_cluster e = cluster) 0 entries of
                      None \<Rightarrow> fail NotFound
                    | Some entry_index \<Rightarrow>
                        bind (write_direntry ops drv parent_cluster entry_index entry) (\<lambda>_.
                          ret data_written))
             else ret data_written))))"

definition direntry_node :: "file_node_handle \<Rightarrow> directory_entry \<Rightarrow> (file_system_error, file_node) outcome" where
  \<comment> \<open>the \<open>FileNode\<close> built in \<open>get_node\<close> and \<open>list_directory\<close>\<close>
  "direntry_node node_id entry =
     and_then (get_creation_timestamp entry) (\<lambda>created.
     and_then (get_modified_timestamp entry) (\<lambda>modified.
       Ok \<lparr>fn_node_id = node_id, fn_name = get_filename entry, fn_file_type = get_file_type entry,
           fn_size = unat (de_file_size entry), fn_created_time = created, fn_modified_time = modified,
           fn_attributes = file_attributes_from_fat_attributes (de_attributes entry)\<rparr>))"

definition fat_get_node :: "'d disk_ops \<Rightarrow> fat32_driver \<Rightarrow> file_node_handle \<Rightarrow>
    ('d, file_system_error, file_node) call" where
  "fat_get_node ops drv node_id =
     (case decode_node_id node_id of (cluster, parent_cluster, _) \<Rightarrow>
      if cluster \<noteq> ROOT_CLUSTER
      then bind (find_entry_by_cluster ops drv parent_cluster cluster) (\<lambda>entry.
             lift_outcome (direntry_node node_id entry))
      else ret (root_filenode drv))"

primrec direntry_nodes :: "nat \<Rightarrow> directory_entry list \<Rightarrow> (file_system_error, file_node list) outcome" where
  "direntry_nodes dir_cluster [] = Ok []"
| "direntry_nodes dir_cluster (entry # entries) =
     and_then (direntry_node (encode_node_id entry dir_cluster) entry) (\<lambda>node.
     and_then (direntry_nodes dir_cluster entries) (\<lambda>nodes. Ok (node # nodes)))"

definition fat_list_directory :: "'d disk_ops \<Rightarrow> fat32_driver \<Rightarrow> file_node_handle \<Rightarrow>
    ('d, file_system_error, file_node list) call" where
  "fat_list_directory ops drv node_id =
     (case decode_node_id node_id of (dir_cluster, _, attributes) \<Rightarrow>
      if \<not> fat_is_directory attributes then fail NotDirectory
      else bind (read_directory_entries ops drv dir_cluster) (\<lambda>entries.
        lift_outcome (direntry_nodes dir_cluster
          (filter (\<lambda>e. de_is_valid e \<and> \<not> de_is_volume_id e) entries))))"

definition fat_find_node :: "'d disk_ops \<Rightarrow> fat32_driver \<Rightarrow> str \<Rightarrow>
    ('d, file_system_error, file_node_handle) call" where
  "fat_find_node ops drv path =
     bind (find_direntry ops drv path) (\<lambda>(entry, parent_cluster).
       if de_is_directory entry \<and> de_file_size entry \<noteq> 0 then panic
       else ret (encode_node_id entry parent_cluster))"

definition fat_create_file :: "'d disk_ops \<Rightarrow> fat32_driver \<Rightarrow> file_node_handle \<Rightarrow> str \<Rightarrow>
    ('d, file_system_error, file_node_handle) call" where
  "fat_create_file ops drv parent_id name =
     (case decode_node_id parent_id of (parent_cluster, _, attrs) \<Rightarrow>
      if \<not> fat_is_directory attrs then fail NotDirectory
      else if \<not> is_valid_filename name then fail InvalidFilename
      else bind (read_directory_entries ops drv parent_cluster) (\<lambda>entries.
        if \<exists>e \<in> set entries. \<not> de_is_deleted e \<and> get_filename e = name then fail FileExists
        else bind (find_free_slot_in_directory ops drv parent_cluster entries) (\<lambda>free_slot_index.
             bind (allocate_clusters ops drv 1) (\<lambda>new_file_cluster.
             bind (clear_clusters ops drv new_file_cluster 1) (\<lambda>_.
             bind (lift_outcome (set_filename name direntry_create_empty)) (\<lambda>entry.
             let entry = set_first_cluster new_file_cluster (entry\<lparr>de_attributes := attr_bits Archive\<rparr>) in
             bind (write_direntry ops drv parent_cluster free_slot_index entry) (\<lambda>_.
               ret (encode_node_id entry parent_cluster))))))))"

definition fat_create_directory :: "'d disk_ops \<Rightarrow> fat32_driver \<Rightarrow> file_node_handle \<Rightarrow> str \<Rightarrow>
    ('d, file_system_error, file_node_handle) call" where
  "fat_create_directory ops drv parent_id name =
     (case decode_node_id parent_id of (parent_cluster, _, attrs) \<Rightarrow>
      if \<not> fat_is_directory attrs then fail NotDirectory
      else if \<not> is_valid_filename name then fail InvalidFilename
      else bind (read_directory_entries ops drv parent_cluster) (\<lambda>entries.
        if \<exists>e \<in> set entries. \<not> de_is_deleted e \<and> get_filename e = name then fail FileExists
        else bind (find_free_slot_in_directory ops drv parent_cluster entries) (\<lambda>free_slot_index.
             bind (allocate_clusters ops drv 1) (\<lambda>new_dir_cluster.
             bind (clear_clusters ops drv new_dir_cluster 1) (\<lambda>_.
             bind (write_direntry ops drv new_dir_cluster 0 (create_dot_entry new_dir_cluster)) (\<lambda>_.
             bind (write_direntry ops drv new_dir_cluster 1 (create_dot_dot_entry parent_cluster)) (\<lambda>_.
             bind (lift_outcome (set_filename name direntry_create_empty)) (\<lambda>entry.
             let entry = (set_first_cluster new_dir_cluster
                   (entry\<lparr>de_attributes := attr_bits DirectoryAttr\<rparr>))\<lparr>de_file_size := 0\<rparr> in
             bind (write_direntry ops drv parent_cluster free_slot_index entry) (\<lambda>_.
               ret (encode_node_id entry parent_cluster))))))))))"

definition fat_delete :: "'d disk_ops \<Rightarrow> fat32_driver \<Rightarrow> file_node_handle \<Rightarrow> ('d, file_system_error, unit) call" where
  "fat_delete ops drv node_id =
     (case decode_node_id node_id of (cluster, parent_cluster, attrs) \<Rightarrow>
      bind (read_directory_entries ops drv parent_cluster) (\<lambda>entries.
        case first_index (\<lambda>e. \<not> de_is_deleted e \<and> get_first_cluster e = cluster) 0 entries of
          None \<Rightarrow> fail NotFound
        | Some entry_index \<Rightarrow>
            bind (if fat_is_directory attrs
                  then bind (read_directory_entries ops drv cluster) (\<lambda>dir_entries.
                         if \<exists>e \<in> set dir_entries. de_is_valid e \<and> de_name e ! 0 \<noteq> 0x2E
                         then fail DirectoryNotEmpty
                         else free_cluster_chain ops drv cluster)
                  else free_cluster_chain ops drv cluster) (\<lambda>_.
            write_direntry ops drv parent_cluster entry_index (mark_deleted (entries ! entry_index)))))"

definition fat_root_node :: "fat32_driver \<Rightarrow> file_node_handle" where
  "fat_root_node drv = root_dir_node_id drv"

end
