(* ===== verification/Fat32_Table.thy ===== *)
theory Fat32_Table
  imports Fat32
begin

text \<open>
  The allocation table and the cluster chains of a FAT32 volume. A volume is seen as a
  function from clusters to table entries (\<open>fat_at\<close>) and a function from clusters to their
  bytes (\<open>cluster_at\<close>), both read off the image of the device. The lemmas are proved in the
  context of the contract \<open>disk_device\<close>, so they hold for every device that meets it; the
  properties carry the contract as a hypothesis and their witnesses use the in-memory device.
\<close>

section \<open>The view of a volume\<close>

text \<open>
  The layout the driver supports: sectors of the device's 512 bytes, a table that lies before
  the data area, cluster numbers that differ from the markers of the table.
\<close>

definition fat_geometry :: "fat32_driver \<Rightarrow> bool" where
  "fat_geometry drv \<longleftrightarrow> bps drv = 512 \<and> 0 < sectors_per_cluster drv
     \<and> cluster_size drv = sectors_per_cluster drv * 512
     \<and> fat_start_sector drv * 512 + max_cluster drv * 4 \<le> data_start_sector drv * 512
     \<and> 2 \<le> max_cluster drv \<and> max_cluster drv \<le> 0x0FFFFFF6"

definition volume_bytes :: "fat32_driver \<Rightarrow> nat" where
  "volume_bytes drv = (data_start_sector drv + (max_cluster drv - 2) * sectors_per_cluster drv) * 512"

definition fat_word :: "fat32_driver \<Rightarrow> u8 list \<Rightarrow> nat \<Rightarrow> u32" where
  "fat_word drv img c = u32_at img (fat_start_sector drv * 512 + c * 4)"

definition fat_at :: "fat32_driver \<Rightarrow> u8 list \<Rightarrow> nat \<Rightarrow> nat" where
  "fat_at drv img c = unat (fat_word drv img c AND 0x0FFFFFFF)"

definition cluster_at :: "fat32_driver \<Rightarrow> u8 list \<Rightarrow> nat \<Rightarrow> u8 list" where
  "cluster_at drv img c = chunk (cluster_to_sector drv c * 512) (cluster_size drv) img"

text \<open>What a successor entry says: end of chain, a bad cluster, or the next cluster.\<close>

definition is_chain_end :: "nat \<Rightarrow> bool" where
  "is_chain_end v \<longleftrightarrow> v = END_OF_CHAIN \<or> FAT_ENTRY_RESERVED_BEGIN \<le> v \<and> v \<le> FAT_ENTRY_RESERVED_END"

lemma marker_simps [simp]:
  "is_chain_end END_OF_CHAIN" "\<not> is_chain_end BAD_CLUSTER"
  "v \<le> 0x0FFFFFF6 \<Longrightarrow> \<not> is_chain_end v" "v \<le> 0x0FFFFFF6 \<Longrightarrow> v \<noteq> BAD_CLUSTER"
  by (simp_all add: is_chain_end_def END_OF_CHAIN_def BAD_CLUSTER_def FAT_ENTRY_RESERVED_BEGIN_def)

lemma fat_sector_addr:
  assumes "fat_geometry drv" "c < max_cluster drv"
  shows "(fat_start_sector drv + c * 4 div 512) * 512 + c * 4 mod 512 = fat_start_sector drv * 512 + c * 4"
    "(fat_start_sector drv + c * 4 div 512 + 1) * 512 \<le> data_start_sector drv * 512"
    "c * 4 mod 512 + 3 < 512"
proof -
  have dm: "c * 4 div 512 * 512 + c * 4 mod 512 = c * 4" by (rule div_mult_mod_eq)
  then show "(fat_start_sector drv + c * 4 div 512) * 512 + c * 4 mod 512 = fat_start_sector drv * 512 + c * 4"
    by (simp add: add_mult_distrib)
  have "fat_start_sector drv * 512 + c * 4 < data_start_sector drv * 512"
    using assms by (simp add: fat_geometry_def)
  with dm have "fat_start_sector drv + c * 4 div 512 < data_start_sector drv" by linarith
  then show "(fat_start_sector drv + c * 4 div 512 + 1) * 512 \<le> data_start_sector drv * 512" by simp
  have "c * 4 mod 512 = c mod 128 * 4" using mod_mult_mult2 [of c 4 128] by simp
  moreover have "c mod 128 < 128" by simp
  ultimately show "c * 4 mod 512 + 3 < 512" by linarith
qed

text \<open>The 28 bits of an entry and the 4 bits that are kept.\<close>

lemma entry_merge:
  fixes old :: u32
  shows "unat (((old AND 0xF0000000) OR (of_nat v AND 0x0FFFFFFF)) AND 0x0FFFFFFF) = v mod 2 ^ 28"
    "((old AND 0xF0000000) OR (of_nat v AND 0x0FFFFFFF)) AND 0xF0000000 = old AND 0xF0000000"
proof -
  have m: "(0x0FFFFFFF :: u32) = mask 28" by (simp add: mask_eq_exp_minus_1)
  have h: "(0xF0000000 :: u32) = NOT (mask 28)" by (simp add: mask_eq_exp_minus_1)
  have "((old AND NOT (mask 28)) OR (of_nat v AND mask 28)) AND mask 28 = of_nat v AND mask 28"
    by (rule bit_word_eqI) (auto simp: bit_simps)
  then have "unat (((old AND 0xF0000000) OR (of_nat v AND 0x0FFFFFFF)) AND 0x0FFFFFFF)
      = unat (take_bit 28 (of_nat v :: u32))"
    unfolding m h by (simp only: take_bit_eq_mask)
  also have "\<dots> = take_bit 28 (take_bit 32 v)"
    by (simp only: unsigned_take_bit_eq unsigned_of_nat) simp
  also have "\<dots> = v mod 2 ^ 28" by (simp add: take_bit_eq_mod mod_mod_cancel)
  finally show "unat (((old AND 0xF0000000) OR (of_nat v AND 0x0FFFFFFF)) AND 0x0FFFFFFF) = v mod 2 ^ 28" .
  show "((old AND 0xF0000000) OR (of_nat v AND 0x0FFFFFFF)) AND 0xF0000000 = old AND 0xF0000000"
    unfolding m h by (rule bit_word_eqI) (auto simp: bit_simps)
qed

lemma u32_at_chunk:
  "i + 3 < n \<Longrightarrow> j + n \<le> length img \<Longrightarrow> u32_at (chunk j n img) i = u32_at img (j + i)"
  by (simp add: u32_at_def nth_chunk add.assoc)

lemma u32_at_blit:
  assumes "i + 4 \<le> length img" "j + 4 \<le> length img" "i = j \<or> i + 4 \<le> j \<or> j + 4 \<le> i"
  shows "u32_at (blit i (u32_to_le_bytes w) img) j = (if i = j then w else u32_at img j)"
  using assms by (auto simp: u32_at_def nth_blit u32_to_le_bytes_def)

section \<open>Reading and writing table entries\<close>

definition vol_ok :: "fat32_driver \<Rightarrow> u8 list \<Rightarrow> bool" where
  "vol_ok drv img \<longleftrightarrow> volume_bytes drv \<le> length img"

lemma fat_entry_range:
  assumes "fat_geometry drv" "vol_ok drv img" "c < max_cluster drv"
  shows "fat_start_sector drv * 512 + c * 4 + 4 \<le> data_start_sector drv * 512"
    "data_start_sector drv * 512 \<le> length img"
proof -
  have "c * 4 + 4 \<le> max_cluster drv * 4" using assms(3) by simp
  then show "fat_start_sector drv * 512 + c * 4 + 4 \<le> data_start_sector drv * 512"
    using assms(1) unfolding fat_geometry_def by linarith
  show "data_start_sector drv * 512 \<le> length img"
    using assms(2) unfolding vol_ok_def volume_bytes_def by (simp add: add_mult_distrib)
qed

lemma cluster_range:
  assumes "fat_geometry drv" "vol_ok drv img" "2 \<le> c" "c < max_cluster drv"
  shows "(cluster_to_sector drv c + sectors_per_cluster drv) * 512 \<le> length img"
    "data_start_sector drv \<le> cluster_to_sector drv c"
proof -
  have "Suc (c - 2) \<le> max_cluster drv - 2" using assms(3,4) by arith
  from mult_le_mono1 [OF this, of "sectors_per_cluster drv"]
  have "(c - 2) * sectors_per_cluster drv + sectors_per_cluster drv
      \<le> (max_cluster drv - 2) * sectors_per_cluster drv" by simp
  then have "cluster_to_sector drv c + sectors_per_cluster drv
      \<le> data_start_sector drv + (max_cluster drv - 2) * sectors_per_cluster drv"
    using assms(3) by (simp add: cluster_to_sector_def)
  then show "(cluster_to_sector drv c + sectors_per_cluster drv) * 512 \<le> length img"
    using assms(2) unfolding vol_ok_def volume_bytes_def by (meson le_trans mult_le_mono1)
  show "data_start_sector drv \<le> cluster_to_sector drv c"
    using assms(3) by (simp add: cluster_to_sector_def)
qed

text \<open>
  \<open>fat_set drv img c v img'\<close>: the image changed in the table entry of \<open>c\<close>, which is now \<open>v\<close>,
  and in no other entry and no cluster of the data area.
\<close>

definition fat_set :: "fat32_driver \<Rightarrow> u8 list \<Rightarrow> nat \<Rightarrow> nat \<Rightarrow> u8 list \<Rightarrow> bool" where
  "fat_set drv img c v img' \<longleftrightarrow> vol_ok drv img' \<and> length img' = length img
     \<and> (\<forall>c' < max_cluster drv. fat_at drv img' c' = (if c' = c then v else fat_at drv img c'))
     \<and> (\<forall>c'. 2 \<le> c' \<longrightarrow> c' < max_cluster drv \<longrightarrow> cluster_at drv img' c' = cluster_at drv img c')"

lemma fat_set_blit:
  assumes "fat_geometry drv" "vol_ok drv img" "c < max_cluster drv"
  shows "fat_set drv img c (v mod 2 ^ 28) (blit (fat_start_sector drv * 512 + c * 4)
    (u32_to_le_bytes ((fat_word drv img c AND 0xF0000000) OR (of_nat v AND 0x0FFFFFFF))) img)"
    (is "fat_set drv img c _ ?img")
proof -
  note r = fat_entry_range [OF assms(1,2)]
  have len: "length ?img = length img" using r [OF assms(3)] by simp
  have "fat_at drv ?img c' = (if c' = c then v mod 2 ^ 28 else fat_at drv img c')"
    if "c' < max_cluster drv" for c'
  proof -
    have "fat_word drv ?img c' = (if c = c' then (fat_word drv img c AND 0xF0000000)
        OR (of_nat v AND 0x0FFFFFFF) else fat_word drv img c')"
      using r [OF assms(3)] r [OF that] u32_at_blit [of "fat_start_sector drv * 512 + c * 4" img
          "fat_start_sector drv * 512 + c' * 4"]
      unfolding fat_word_def by force
    then show ?thesis using entry_merge(1) by (simp add: fat_at_def)
  qed
  moreover have "cluster_at drv ?img c' = cluster_at drv img c'" if "2 \<le> c'" "c' < max_cluster drv" for c'
  proof -
    have "fat_start_sector drv * 512 + c * 4 + 4 \<le> cluster_to_sector drv c' * 512"
      using r(1) [OF assms(3)] cluster_range(2) [OF assms(1,2) that] by linarith
    moreover have "cluster_to_sector drv c' * 512 + cluster_size drv \<le> length img"
      using cluster_range(1) [OF assms(1,2) that] assms(1) by (simp add: fat_geometry_def add_mult_distrib)
    ultimately show ?thesis unfolding cluster_at_def by (intro chunk_blit_disjoint) auto
  qed
  ultimately show ?thesis
    using len assms(2) by (simp add: fat_set_def vol_ok_def)
qed

lemma fat_set_trans:
  "fat_set drv img c v img' \<Longrightarrow> fat_set drv img' c w img'' \<Longrightarrow> fat_set drv img c w img''"
  by (auto simp: fat_set_def)

text \<open>Freeing a chain clears the entries of its clusters and no others.\<close>

definition fat_freed :: "fat32_driver \<Rightarrow> u8 list \<Rightarrow> nat list \<Rightarrow> u8 list \<Rightarrow> bool" where
  "fat_freed drv img cs img' \<longleftrightarrow> vol_ok drv img' \<and> length img' = length img
     \<and> (\<forall>c < max_cluster drv. fat_at drv img' c = (if c \<in> set cs then 0 else fat_at drv img c))
     \<and> (\<forall>c. 2 \<le> c \<longrightarrow> c < max_cluster drv \<longrightarrow> cluster_at drv img' c = cluster_at drv img c)"

definition free_clusters :: "fat32_driver \<Rightarrow> u8 list \<Rightarrow> nat list" where
  "free_clusters drv img = filter (\<lambda>c. fat_at drv img c = 0) [2..<max_cluster drv]"

lemma find_as_filter: "List.find P xs = (case filter P xs of [] \<Rightarrow> None | x # _ \<Rightarrow> Some x)"
  by (induction xs) auto

context disk_device
begin

abbreviation mounted :: "fat32_driver \<Rightarrow> 'd \<Rightarrow> bool" where
  "mounted drv d \<equiv> invar d \<and> vol_ok drv (image d)"

lemma fat_buffer:
  assumes "fat_geometry drv" "mounted drv d" "c < max_cluster drv"
  obtains s off where "s = fat_start_sector drv + c * 4 div 512" "off = c * 4 mod 512"
    "(s + 1) * 512 \<le> length (image d)" "off + 3 < 512" "s * 512 + off = fat_start_sector drv * 512 + c * 4"
    "u32_at (chunk (s * 512) 512 (image d)) off = fat_word drv (image d) c"
    "lift_disk (mgr_read_sector ops s (replicate 512 0)) d = (Ok (chunk (s * 512) 512 (image d)), d)"
proof -
  define s off where so: "s = fat_start_sector drv + c * 4 div 512" "off = c * 4 mod 512"
  have a: "s * 512 + off = fat_start_sector drv * 512 + c * 4"
    "(s + 1) * 512 \<le> data_start_sector drv * 512" "off + 3 < 512"
    unfolding so by (rule fat_sector_addr [OF assms(1,3)])+
  have len: "(s + 1) * 512 \<le> length (image d)"
    using a(2) fat_entry_range(2) [OF assms(1) conjunct2 [OF assms(2)] assms(3)] by linarith
  have "u32_at (chunk (s * 512) 512 (image d)) off = fat_word drv (image d) c"
    using len a(3) by (subst u32_at_chunk) (simp_all add: fat_word_def a(1))
  with so a len read_sector_image [of d s "replicate 512 0"] assms(2) show thesis
    by (intro that [of s off]) auto
qed

lemma read_fat_entry_at:
  assumes "fat_geometry drv" "mounted drv d" "c < max_cluster drv"
  shows "read_fat_entry ops drv c d = (Ok (fat_at drv (image d) c), d)"
proof -
  from assms obtain s off where b: "s = fat_start_sector drv + c * 4 div 512" "off = c * 4 mod 512"
    "(s + 1) * 512 \<le> length (image d)" "off + 3 < 512"
    "u32_at (chunk (s * 512) 512 (image d)) off = fat_word drv (image d) c"
    "lift_disk (mgr_read_sector ops s (replicate 512 0)) d = (Ok (chunk (s * 512) 512 (image d)), d)"
    by (rule fat_buffer)
  have bps: "bps drv = 512" using assms(1) by (simp add: fat_geometry_def)
  show ?thesis
    using b(3-) unfolding read_fat_entry_def bps Let_def b(1,2) [symmetric]
    by (simp add: bind_Ok call_simps u32_at_def fat_at_def)
qed

lemma write_fat_entry_at:
  assumes "fat_geometry drv" "mounted drv d" "c < max_cluster drv"
  shows "\<exists>d'. write_fat_entry ops drv c v d = (Ok (), d') \<and> invar d'
    \<and> fat_set drv (image d) c (v mod 2 ^ 28) (image d')
    \<and> fat_word drv (image d') c AND 0xF0000000 = fat_word drv (image d) c AND 0xF0000000"
proof -
  from assms obtain s off where b: "s = fat_start_sector drv + c * 4 div 512" "off = c * 4 mod 512"
    "(s + 1) * 512 \<le> length (image d)" "off + 3 < 512" "s * 512 + off = fat_start_sector drv * 512 + c * 4"
    "u32_at (chunk (s * 512) 512 (image d)) off = fat_word drv (image d) c"
    "lift_disk (mgr_read_sector ops s (replicate 512 0)) d = (Ok (chunk (s * 512) 512 (image d)), d)"
    by (rule fat_buffer)
  have bps: "bps drv = 512" using assms(1) by (simp add: fat_geometry_def)
  define w where "w = (fat_word drv (image d) c AND 0xF0000000) OR (of_nat v AND 0x0FFFFFFF)"
  define sec where "sec = blit off (u32_to_le_bytes w) (chunk (s * 512) 512 (image d))"
  have lsec: "length sec = 512" using b(3,4) by (simp add: sec_def)
  have run: "write_fat_entry ops drv c v d = lift_disk (mgr_write_sector ops s sec) d"
    using b(3-) unfolding write_fat_entry_def bps Let_def b(1,2) [symmetric]
    by (simp add: bind_Ok u32_at_def w_def sec_def)
  from write_sector_image [OF conjunct1 [OF assms(2)] b(3), of sec] lsec obtain d' where d':
    "lift_disk (mgr_write_sector ops s sec) d = (Ok (), d')" "invar d'"
    "image d' = blit (s * 512) sec (image d)" by auto
  have "image d' = blit (fat_start_sector drv * 512 + c * 4) (u32_to_le_bytes w) (image d)"
    using blit_read_modify_write [of off "u32_to_le_bytes w" 512 "s * 512" "image d"] b(3,4)
    unfolding d'(3) sec_def b(5) [symmetric] by simp
  moreover have "fat_word drv (blit (fat_start_sector drv * 512 + c * 4) (u32_to_le_bytes w) (image d)) c = w"
    using fat_entry_range [OF assms(1) conjunct2 [OF assms(2)] assms(3)]
    by (simp add: fat_word_def u32_at_blit)
  ultimately show ?thesis
    using run d' fat_set_blit [OF assms(1) conjunct2 [OF assms(2)] assms(3), of v] entry_merge(2)
    by (auto simp: w_def)
qed

lemma get_next_cluster_at:
  assumes "fat_geometry drv" "mounted drv d" "c < max_cluster drv" "c \<noteq> 0"
  shows "get_next_cluster ops drv c d =
    (if fat_at drv (image d) c = BAD_CLUSTER then Err DiskOpError
     else if is_chain_end (fat_at drv (image d) c) then Ok None
     else Ok (Some (fat_at drv (image d) c)), d)"
  using assms(4) read_fat_entry_at [OF assms(1-3)]
  by (auto simp: get_next_cluster_def bind_Ok call_simps is_chain_end_def BAD_CLUSTER_def END_OF_CHAIN_def
      FAT_ENTRY_RESERVED_BEGIN_def)

lemma find_free_loop_at:
  assumes "fat_geometry drv" "mounted drv d" "\<forall>c \<in> set cs. c < max_cluster drv"
  shows "find_free_loop ops drv cs d =
    (case List.find (\<lambda>c. fat_at drv (image d) c = 0) cs of Some c \<Rightarrow> Ok c | None \<Rightarrow> Err NoSpace, d)"
  using assms(3)
proof (induction cs)
  case (Cons c cs)
  with read_fat_entry_at [OF assms(1,2), of c] show ?case by (simp add: bind_Ok call_simps)
qed (simp add: call_simps)

end

section \<open>Chains\<close>

lemma all_le_Suc: "(\<forall>k \<le> Suc n. Q k) \<longleftrightarrow> Q 0 \<and> (\<forall>k \<le> n. Q (Suc k))"
  by (metis Suc_le_mono le0 not0_implies_Suc)

text \<open>A walk that stays below a bound for as many steps stays below it for ever.\<close>

lemma orbit_stays:
  fixes f :: "nat \<Rightarrow> nat"
  assumes "\<forall>k \<le> m. 2 \<le> (f ^^ k) c \<and> (f ^^ k) c < m"
  shows "\<forall>k. 2 \<le> (f ^^ k) c \<and> (f ^^ k) c < m"
proof -
  have "\<not> inj_on (\<lambda>k. (f ^^ k) c) {0..m}"
  proof
    assume "inj_on (\<lambda>k. (f ^^ k) c) {0..m}"
    from card_inj_on_le [OF this, of "{0..<m}"] assms show False by force
  qed
  then obtain i j where ij: "i < j" "j \<le> m" "(f ^^ i) c = (f ^^ j) c"
    unfolding inj_on_def by (metis atLeastAtMost_iff linorder_neqE_nat)
  have rep: "\<exists>l < j. (f ^^ k) c = (f ^^ l) c" for k
  proof (induction k)
    case 0
    with ij(1) show ?case by (intro exI [of _ 0]) auto
  next
    case (Suc k)
    then obtain l where l: "l < j" "(f ^^ k) c = (f ^^ l) c" by auto
    show ?case
    proof (cases "Suc l < j")
      case True
      with l show ?thesis by (intro exI [of _ "Suc l"]) auto
    next
      case False
      with l have "j = Suc l" by simp
      with l have "(f ^^ Suc k) c = (f ^^ j) c" by simp
      with ij show ?thesis by (intro exI [of _ i]) simp
    qed
  qed
  show ?thesis
  proof
    fix k
    from rep [of k] obtain l where "l < j" "(f ^^ k) c = (f ^^ l) c" by blast
    with assms ij(2) show "2 \<le> (f ^^ k) c \<and> (f ^^ k) c < m" by simp
  qed
qed

fun is_chain :: "(nat \<Rightarrow> nat) \<Rightarrow> nat \<Rightarrow> nat list \<Rightarrow> bool" where
  \<comment> \<open>clusters linked by a table, up to an end marker\<close>
  "is_chain f m [] = False"
| "is_chain f m [c] = (2 \<le> c \<and> c < m \<and> is_chain_end (f c))"
| "is_chain f m (c # c' # cs) = (2 \<le> c \<and> c < m \<and> f c = c' \<and> is_chain f m (c' # cs))"

lemma is_chain_range: "is_chain f m cs \<Longrightarrow> c \<in> set cs \<Longrightarrow> 2 \<le> c \<and> c < m"
  by (induction f m cs rule: is_chain.induct) auto

lemma is_chain_suffix: "is_chain f m (xs @ c # ys) \<Longrightarrow> is_chain f m (c # ys)"
proof (induction xs)
  case (Cons x xs)
  then show ?case by (cases xs) auto
qed simp

lemma is_chain_ConsD:
  assumes "is_chain f m (c # c' # cs)" "m \<le> 0x0FFFFFF6"
  shows "f c = c'" "is_chain f m (c' # cs)" "\<not> is_chain_end (f c)"
proof -
  show f: "f c = c'" and ch: "is_chain f m (c' # cs)" using assms(1) by simp_all
  have "c' \<le> 0x0FFFFFF6" using is_chain_range [OF ch, of c'] assms(2) by simp
  with f show "\<not> is_chain_end (f c)" by simp
qed

lemma is_chain_unique:
  assumes "m \<le> 0x0FFFFFF6"
  shows "is_chain f m (c # xs) \<Longrightarrow> is_chain f m (c # ys) \<Longrightarrow> xs = ys"
proof (induction xs arbitrary: c ys)
  case Nil
  then show ?case using is_chain_ConsD(3) [OF _ assms, of f c] by (cases ys) auto
next
  case (Cons x xs)
  note x = is_chain_ConsD [OF Cons.prems(1) assms]
  show ?case
  proof (cases ys)
    case Nil
    with Cons.prems(2) x(3) show ?thesis by simp
  next
    case (Cons y ys')
    with Cons.prems(2) x(1,2) Cons.IH [of x ys'] show ?thesis by simp
  qed
qed

lemma is_chain_distinct: "m \<le> 0x0FFFFFF6 \<Longrightarrow> is_chain f m cs \<Longrightarrow> distinct cs"
proof (induction cs)
  case (Cons c cs)
  have "c \<notin> set cs"
  proof
    assume "c \<in> set cs"
    then obtain xs ys where cs: "cs = xs @ c # ys" by (meson split_list)
    with Cons.prems(2) is_chain_suffix [of f m "c # xs" c ys] have "is_chain f m (c # ys)" by simp
    then have "ys = cs" by (rule is_chain_unique [OF Cons.prems(1) _ Cons.prems(2)])
    with arg_cong [OF cs, of length] show False by simp
  qed
  moreover have "distinct cs"
    using Cons is_chain_suffix [of f m "[c]" "hd cs" "tl cs"] by (cases cs) auto
  ultimately show ?case by simp
qed simp

lemma is_chain_length: "m \<le> 0x0FFFFFF6 \<Longrightarrow> is_chain f m cs \<Longrightarrow> length cs + 2 \<le> m"
proof -
  assume m: "m \<le> 0x0FFFFFF6" and ch: "is_chain f m cs"
  have "set cs \<subseteq> {2..<m}" using is_chain_range [OF ch] by auto
  then have "card (set cs) \<le> m - 2" using card_mono [of "{2..<m}" "set cs"] by simp
  moreover have "length cs = card (set cs)" using is_chain_distinct [OF m ch] by (simp add: distinct_card)
  moreover obtain c where "c \<in> set cs" using ch by (cases cs) auto
  with is_chain_range [OF ch] have "2 < m" by fastforce
  ultimately show ?thesis by simp
qed

text \<open>A chain depends only on the entries of its own clusters.\<close>

lemma is_chain_cong: "(\<And>c. c \<in> set cs \<Longrightarrow> f c = g c) \<Longrightarrow> is_chain f m cs = is_chain g m cs"
  by (induction f m cs rule: is_chain.induct) auto

context disk_device
begin

lemma get_next_in_chain:
  assumes "fat_geometry drv" "mounted drv d" "is_chain (fat_at drv (image d)) (max_cluster drv) (c # cs)"
  shows "get_next_cluster ops drv c d = (Ok (case cs of [] \<Rightarrow> None | n # _ \<Rightarrow> Some n), d)"
proof -
  have c: "2 \<le> c" "c < max_cluster drv" using is_chain_range [OF assms(3)] by auto
  have m: "max_cluster drv \<le> 0x0FFFFFF6" using assms(1) by (simp add: fat_geometry_def)
  show ?thesis
  proof (cases cs)
    case Nil
    with assms(3) have "is_chain_end (fat_at drv (image d) c)" by simp
    with Nil c get_next_cluster_at [OF assms(1,2), of c] show ?thesis by (auto simp: marker_simps(2))
  next
    case (Cons n ns)
    with assms(3) is_chain_range [OF assms(3), of n] have "fat_at drv (image d) c = n" "n < max_cluster drv"
      by auto
    with Cons c m get_next_cluster_at [OF assms(1,2), of c] show ?thesis by simp
  qed
qed

lemma chain_length_loop_chain:
  assumes "fat_geometry drv" "mounted drv d"
  shows "is_chain (fat_at drv (image d)) (max_cluster drv) (c # cs) \<Longrightarrow> length (c # cs) \<le> rounds \<Longrightarrow>
    chain_length_loop rounds ops drv c n d = (Ok (n + length (c # cs)), d)"
proof (induction rounds arbitrary: c cs n)
  case (Suc rounds)
  have c: "2 \<le> c" "c < max_cluster drv" using is_chain_range [OF Suc.prems(1)] by auto
  note nxt = get_next_in_chain [OF assms Suc.prems(1)]
  show ?case
  proof (cases cs)
    case Nil
    with c nxt show ?thesis by (simp add: bind_Ok call_simps ROOT_CLUSTER_def)
  next
    case (Cons x xs)
    with Suc.prems Suc.IH [of x xs "n + 1"] c nxt show ?thesis
      by (simp add: bind_Ok call_simps ROOT_CLUSTER_def)
  qed
qed simp

lemma chain_length_of_chain:
  assumes "fat_geometry drv" "mounted drv d" "is_chain (fat_at drv (image d)) (max_cluster drv) (c # cs)"
  shows "get_cluster_chain_length ops drv c d = (Ok (length (c # cs)), d)"
proof -
  have "length (c # cs) \<le> max_cluster drv"
    using is_chain_length [OF _ assms(3)] assms(1) by (simp add: fat_geometry_def)
  from chain_length_loop_chain [OF assms this, of 0] show ?thesis
    by (simp add: get_cluster_chain_length_def)
qed

lemma find_free_cluster_at:
  assumes "fat_geometry drv" "mounted drv d"
  shows "find_free_cluster ops drv d =
    (case List.find (\<lambda>c. fat_at drv (image d) c = 0) [2..<max_cluster drv] of
       Some c \<Rightarrow> Ok c | None \<Rightarrow> Err NoSpace, d)"
  unfolding find_free_cluster_def ROOT_CLUSTER_def
  by (rule find_free_loop_at [OF assms]) simp

lemma allocate_one:
  assumes "fat_geometry drv" "mounted drv d"
  shows "case free_clusters drv (image d) of
      [] \<Rightarrow> allocate_clusters ops drv 1 d = (Err NoSpace, d)
    | c # _ \<Rightarrow> \<exists>d'. allocate_clusters ops drv 1 d = (Ok c, d') \<and> invar d'
        \<and> fat_set drv (image d) c END_OF_CHAIN (image d')"
proof (cases "free_clusters drv (image d)")
  case Nil
  with find_free_cluster_at [OF assms] show ?thesis
    by (simp add: allocate_clusters_def find_as_filter free_clusters_def bind_not_Ok)
next
  case (Cons c cs)
  then have "c \<in> set (free_clusters drv (image d))" by simp
  then have c: "c < max_cluster drv" by (simp add: free_clusters_def)
  from write_fat_entry_at [OF assms c, of END_OF_CHAIN] obtain d' where d':
    "write_fat_entry ops drv c END_OF_CHAIN d = (Ok (), d')" "invar d'"
    "fat_set drv (image d) c END_OF_CHAIN (image d')" by (auto simp: END_OF_CHAIN_def)
  have "find_free_cluster ops drv d = (Ok c, d)"
    using find_free_cluster_at [OF assms] Cons by (simp add: find_as_filter free_clusters_def)
  with Cons d' show ?thesis
    by (auto simp: allocate_clusters_def bind_Ok call_simps)
qed

text \<open>The second cluster of a longer request is looked for before the first one is marked.\<close>

lemma allocate_two:
  assumes "fat_geometry drv" "mounted drv d" "free_clusters drv (image d) = c # cs"
  shows "\<exists>d'. allocate_clusters ops drv 2 d = (Ok c, d') \<and> invar d'
    \<and> fat_set drv (image d) c END_OF_CHAIN (image d')"
proof -
  have "c \<in> set (free_clusters drv (image d))" using assms(3) by simp
  then have c: "c < max_cluster drv" by (simp add: free_clusters_def)
  have ff: "find_free_cluster ops drv d = (Ok c, d)"
    using find_free_cluster_at [OF assms(1,2)] assms(3) by (simp add: find_as_filter free_clusters_def)
  from write_fat_entry_at [OF assms(1,2) c, of c] obtain d1 where d1:
    "write_fat_entry ops drv c c d = (Ok (), d1)" "invar d1"
    "fat_set drv (image d) c (c mod 2 ^ 28) (image d1)" by auto
  then have "mounted drv d1" by (simp add: fat_set_def)
  from write_fat_entry_at [OF assms(1) this c, of END_OF_CHAIN] obtain d2 where d2:
    "write_fat_entry ops drv c END_OF_CHAIN d1 = (Ok (), d2)" "invar d2"
    "fat_set drv (image d1) c END_OF_CHAIN (image d2)" by (auto simp: END_OF_CHAIN_def)
  have "allocate_clusters ops drv 2 d = (Ok c, d2)"
    using ff d1 d2 by (simp add: allocate_clusters_def bind_Ok call_simps)
  with d2 fat_set_trans [OF d1(3) d2(3)] show ?thesis by blast
qed

lemma free_chain_loop_chain:
  assumes "fat_geometry drv"
  shows "mounted drv d \<Longrightarrow> is_chain (fat_at drv (image d)) (max_cluster drv) (c # cs) \<Longrightarrow>
    length (c # cs) \<le> rounds \<Longrightarrow>
    \<exists>d'. free_chain_loop rounds ops drv c d = (Ok (), d') \<and> invar d'
      \<and> fat_freed drv (image d) (c # cs) (image d')"
proof (induction rounds arbitrary: c cs d)
  case (Suc rounds)
  have m: "max_cluster drv \<le> 0x0FFFFFF6" using assms by (simp add: fat_geometry_def)
  have c: "2 \<le> c" "c < max_cluster drv" using is_chain_range [OF Suc.prems(2)] by auto
  note nxt = get_next_in_chain [OF assms Suc.prems(1,2)]
  from write_fat_entry_at [OF assms Suc.prems(1) c(2), of EMPTY_FAT_ENTRY] obtain d1 where d1:
    "write_fat_entry ops drv c EMPTY_FAT_ENTRY d = (Ok (), d1)" "invar d1"
    "fat_set drv (image d) c 0 (image d1)" by (auto simp: EMPTY_FAT_ENTRY_def)
  show ?case
  proof (cases cs)
    case Nil
    have "fat_freed drv (image d) [c] (image d1)" using d1(3) by (simp add: fat_set_def fat_freed_def)
    with Nil c nxt d1 show ?thesis by (simp add: bind_Ok call_simps ROOT_CLUSTER_def)
  next
    case (Cons x xs)
    have x: "2 \<le> x" "x < max_cluster drv" using is_chain_range [OF Suc.prems(2), of x] Cons by auto
    have dist: "c \<notin> set (x # xs)" using is_chain_distinct [OF m Suc.prems(2)] Cons by simp
    have "fat_at drv (image d1) y = fat_at drv (image d) y" if "y \<in> set (x # xs)" for y
      using d1(3) that dist is_chain_range [OF Suc.prems(2), of y] Cons by (auto simp: fat_set_def)
    then have "is_chain (fat_at drv (image d1)) (max_cluster drv) (x # xs)"
      using is_chain_cong [of "x # xs" "fat_at drv (image d1)" "fat_at drv (image d)"] Suc.prems(2) Cons
      by simp
    with Suc.IH [of d1 x xs] Suc.prems(3) Cons d1 obtain d2 where d2:
      "free_chain_loop rounds ops drv x d1 = (Ok (), d2)" "invar d2"
      "fat_freed drv (image d1) (x # xs) (image d2)" by (auto simp: fat_set_def)
    have "fat_freed drv (image d) (c # cs) (image d2)"
      using d1(3) d2(3) dist Cons by (auto simp: fat_freed_def fat_set_def)
    with Cons c x nxt d1 d2 show ?thesis by (simp add: bind_Ok call_simps ROOT_CLUSTER_def)
  qed
qed simp

lemma free_cluster_chain_of_chain:
  assumes "fat_geometry drv" "mounted drv d" "is_chain (fat_at drv (image d)) (max_cluster drv) (c # cs)"
  shows "\<exists>d'. free_cluster_chain ops drv c d = (Ok (), d') \<and> invar d'
    \<and> fat_freed drv (image d) (c # cs) (image d')"
proof -
  have "length (c # cs) \<le> max_cluster drv"
    using is_chain_length [OF _ assms(3)] assms(1) by (simp add: fat_geometry_def)
  from free_chain_loop_chain [OF assms this] show ?thesis by (simp add: free_cluster_chain_def)
qed

lemma chain_length_loop_diverges:
  assumes "fat_geometry drv" "mounted drv d"
  defines "f \<equiv> fat_at drv (image d)"
  shows "snd (chain_length_loop rounds ops drv c n d) = d
    \<and> (fst (chain_length_loop rounds ops drv c n d) = Diverge
       \<longleftrightarrow> (\<forall>k \<le> rounds. 2 \<le> (f ^^ k) c \<and> (f ^^ k) c < max_cluster drv))"
proof (induction rounds arbitrary: c n)
  case 0
  then show ?case by (simp add: call_simps ROOT_CLUSTER_def)
next
  case (Suc rounds)
  have m: "max_cluster drv \<le> 0x0FFFFFF6" using assms(1) by (simp add: fat_geometry_def)
  let ?in = "\<lambda>c. 2 \<le> c \<and> c < max_cluster drv"
  have split: "(\<forall>k \<le> Suc rounds. ?in ((f ^^ k) c)) \<longleftrightarrow> ?in c \<and> (\<forall>k \<le> rounds. ?in ((f ^^ k) (f c)))"
    by (simp add: all_le_Suc funpow_Suc_right del: funpow.simps(2))
  show ?case
  proof (cases "?in c")
    case False
    then show ?thesis unfolding split by (auto simp: call_simps ROOT_CLUSTER_def)
  next
    case True
    note nxt = get_next_cluster_at [OF assms(1,2), of c, folded f_def]
    show ?thesis
    proof (cases "f c = BAD_CLUSTER \<or> is_chain_end (f c)")
      case fin: True
      then have "\<not> f c \<le> 0x0FFFFFF6" by (metis marker_simps(3,4))
      with m have "\<not> (\<forall>k \<le> rounds. ?in ((f ^^ k) (f c)))" by (auto intro!: exI [of _ 0])
      with True fin nxt show ?thesis unfolding split by (auto simp: bind_def call_simps ROOT_CLUSTER_def)
    next
      case False
      with True nxt Suc.IH [of "f c" "n + 1"] show ?thesis
        unfolding split by (simp add: bind_Ok ROOT_CLUSTER_def)
    qed
  qed
qed

end

end
