(* ===== verification/Fat32_Files.thy ===== *)
theory Fat32_Files
  imports Fat32_Table
begin

text \<open>
  Reading through cluster chains: directories and files. The content of a chain is the
  concatenation of its clusters (\<open>chain_bytes\<close>); reading a directory parses that content and
  reading a file copies a range of it.
\<close>

definition chain_bytes :: "fat32_driver \<Rightarrow> u8 list \<Rightarrow> nat list \<Rightarrow> u8 list" where
  "chain_bytes drv img cs = concat (map (cluster_at drv img) cs)"

lemma chain_bytes_simps [simp]:
  "chain_bytes drv img [] = []"
  "chain_bytes drv img (c # cs) = cluster_at drv img c @ chain_bytes drv img cs"
  by (simp_all add: chain_bytes_def)

lemma length_cluster_at:
  assumes "fat_geometry drv" "vol_ok drv img" "2 \<le> c" "c < max_cluster drv"
  shows "length (cluster_at drv img c) = cluster_size drv"
  using cluster_range(1) [OF assms] assms(1)
  by (simp add: cluster_at_def fat_geometry_def add_mult_distrib)

lemma length_chain_bytes:
  assumes "fat_geometry drv" "vol_ok drv img" "\<forall>c \<in> set cs. 2 \<le> c \<and> c < max_cluster drv"
  shows "length (chain_bytes drv img cs) = length cs * cluster_size drv"
  using assms(3) by (induction cs) (simp_all add: length_cluster_at [OF assms(1,2)])

lemma blit_full: "b + length ys = length xs \<Longrightarrow> blit b ys xs = take b xs @ ys"
  by (simp add: blit_def)

lemma blit_append_split:
  "b + length ys + length zs \<le> length xs \<Longrightarrow>
   blit (b + length ys) zs (blit b ys xs) = blit b (ys @ zs) xs"
  by (simp add: blit_def ac_simps)

text \<open>A file as the directory records it: its entry in the parent and its chain.\<close>

definition file_in :: "fat32_driver \<Rightarrow> u8 list \<Rightarrow> nat \<Rightarrow> nat \<Rightarrow> directory_entry \<Rightarrow> nat list \<Rightarrow> bool" where
  "file_in drv img parent cluster e cs \<longleftrightarrow>
     (\<exists>ps es. is_chain (fat_at drv img) (max_cluster drv) (parent # ps)
        \<and> parse_entries (chain_bytes drv img (parent # ps)) 0
            (length (parent # ps) * cluster_size drv div DIRECTORY_ENTRY_SIZE)
          = (Ok es :: (file_system_error, directory_entry list) outcome)
        \<and> List.find (\<lambda>e. get_first_cluster e = cluster) es = Some e)
     \<and> is_chain (fat_at drv img) (max_cluster drv) (cluster # cs)
     \<and> unat (de_file_size e) \<le> length (chain_bytes drv img (cluster # cs))"

context disk_device
begin

lemma read_cluster_at:
  assumes "fat_geometry drv" "mounted drv d" "2 \<le> c" "c < max_cluster drv" "length buf = cluster_size drv"
  shows "lift_disk (mgr_read_sectors ops (cluster_to_sector drv c) (sectors_per_cluster drv) buf) d
    = (Ok (cluster_at drv (image d) c), d)"
  using read_sectors_image [of d "cluster_to_sector drv c" "sectors_per_cluster drv" buf] assms
    cluster_range(1) [OF assms(1) _ assms(3,4), of "image d"]
  by (simp add: cluster_at_def fat_geometry_def)

lemma read_chain_loop_chain:
  assumes "fat_geometry drv" "mounted drv d"
  shows "is_chain (fat_at drv (image d)) (max_cluster drv) (c # cs) \<Longrightarrow>
    length out = b + length (c # cs) * cluster_size drv \<Longrightarrow> length (c # cs) \<le> rounds \<Longrightarrow>
    read_chain_loop rounds ops drv c b out d
      = (Ok (length out, blit b (chain_bytes drv (image d) (c # cs)) out), d)"
proof (induction rounds arbitrary: c cs b out)
  case (Suc rounds)
  let ?n = "cluster_size drv" and ?cl = "cluster_at drv (image d) c"
  have n: "0 < ?n" using assms(1) by (simp add: fat_geometry_def)
  have c: "2 \<le> c" "c < max_cluster drv" using is_chain_range [OF Suc.prems(1)] by auto
  have lc: "length ?cl = ?n" using length_cluster_at [OF assms(1) _ c] assms(2) by simp
  note rd = read_cluster_at [OF assms c, of "replicate ?n 0", simplified]
    and nxt = get_next_in_chain [OF assms Suc.prems(1)]
  have b: "b < length out" "min ?n (length out - b) = ?n" using Suc.prems(2) n by auto
  show ?case
  proof (cases cs)
    case Nil
    with Suc.prems(2) c b rd nxt lc show ?thesis by (simp add: bind_Ok call_simps Let_def)
  next
    case (Cons x xs)
    have ch: "is_chain (fat_at drv (image d)) (max_cluster drv) (x # xs)"
      using Suc.prems(1) Cons by simp
    have "length (chain_bytes drv (image d) (x # xs)) = length (x # xs) * ?n"
      using length_chain_bytes [OF assms(1), of "image d" "x # xs"] assms(2) is_chain_range [OF ch] by simp
    then have "blit (b + ?n) (chain_bytes drv (image d) (x # xs)) (blit b ?cl out)
        = blit b (chain_bytes drv (image d) (c # cs)) out"
      using blit_append_split [of b ?cl "chain_bytes drv (image d) (x # xs)" out] Suc.prems(2) Cons lc
      by simp
    with Suc.IH [OF ch, of "blit b ?cl out" "b + ?n"] Suc.prems(2,3) Cons c b rd nxt lc show ?thesis
      by (simp add: bind_Ok call_simps Let_def)
  qed
qed simp

lemma read_cluster_chain_of_chain:
  assumes "fat_geometry drv" "mounted drv d" "is_chain (fat_at drv (image d)) (max_cluster drv) (c # cs)"
    and "length out = length (c # cs) * cluster_size drv"
  shows "read_cluster_chain ops drv c out d = (Ok (length out, chain_bytes drv (image d) (c # cs)), d)"
proof -
  have "0 < cluster_size drv" using assms(1) by (simp add: fat_geometry_def)
  then have r: "length (c # cs) \<le> length out"
    using assms(4) mult_le_mono2 [of 1 "cluster_size drv" "length (c # cs)"] by simp
  have "length (chain_bytes drv (image d) (c # cs)) = length out"
    using length_chain_bytes [OF assms(1), of "image d" "c # cs"] assms(2,4) is_chain_range [OF assms(3)]
    by simp
  with read_chain_loop_chain [OF assms(1-3), of out 0 "length out"] assms(4) r show ?thesis
    by (simp add: read_cluster_chain_def)
qed

lemma read_directory_of_chain:
  assumes "fat_geometry drv" "mounted drv d" "is_chain (fat_at drv (image d)) (max_cluster drv) (c # cs)"
  shows "read_directory_entries ops drv c d =
    (parse_entries (chain_bytes drv (image d) (c # cs)) 0
       (length (c # cs) * cluster_size drv div DIRECTORY_ENTRY_SIZE), d)"
  using chain_length_of_chain [OF assms]
    read_cluster_chain_of_chain [OF assms, of "replicate (length (c # cs) * cluster_size drv) 0"]
  by (simp add: read_directory_entries_def bind_Ok lift_outcome_def)

text \<open>
  One round copies what the current cluster still holds; the rest comes from the tail of the
  chain.
\<close>

lemma chunk_round:
  assumes "off \<le> length cl" "k = min (length cl - off) n" "off + n \<le> length (cl @ rest)"
  shows "chunk off n (cl @ rest) = chunk off k cl @ chunk 0 (n - k) rest"
  using assms by (auto simp: chunk_def min_def)

lemma read_file_loop_chain:
  assumes "fat_geometry drv" "mounted drv d"
  shows "is_chain (fat_at drv (image d)) (max_cluster drv) (c # cs) \<Longrightarrow> off < cluster_size drv \<Longrightarrow>
    off + (mx - tot) \<le> length (chain_bytes drv (image d) (c # cs)) \<Longrightarrow> tot \<le> mx \<Longrightarrow>
    mx \<le> length out \<Longrightarrow> mx - tot \<le> rounds \<Longrightarrow> length tmp = cluster_size drv \<Longrightarrow>
    read_file_loop rounds ops drv mx c tot off tmp out d
      = (Ok (mx, blit tot (chunk off (mx - tot) (chain_bytes drv (image d) (c # cs))) out), d)"
proof (induction rounds arbitrary: c cs off tot out tmp)
  case 0
  then show ?case by (simp add: call_simps chunk_def blit_def)
next
  case (Suc rounds)
  let ?cl = "cluster_at drv (image d) c" and ?rest = "chain_bytes drv (image d) cs"
  define k where "k = min (cluster_size drv - off) (mx - tot)"
  have c: "2 \<le> c" "c < max_cluster drv" using is_chain_range [OF Suc.prems(1)] by auto
  have lc: "length ?cl = cluster_size drv" using length_cluster_at [OF assms(1) _ c] assms(2) by simp
  note rd = read_cluster_at [OF assms c Suc.prems(7)] and nxt = get_next_in_chain [OF assms Suc.prems(1)]
  have lk: "length (chunk off k ?cl) = k" using lc Suc.prems(2) by (simp add: k_def)
  have content: "chunk off (mx - tot) (?cl @ ?rest) = chunk off k ?cl @ chunk 0 (mx - tot - k) ?rest"
    using chunk_round [of off ?cl k "mx - tot" ?rest] lc Suc.prems(2,3) by (simp add: k_def)
  show ?case
  proof (cases "tot < mx")
    case False
    with Suc.prems(4) show ?thesis by (simp add: call_simps chunk_def blit_def)
  next
    case True
    have step: "read_file_loop (Suc rounds) ops drv mx c tot off tmp out d =
        (if tot + k < mx
         then bind (get_next_cluster ops drv c) (\<lambda>next.
                case next of
                  Some n \<Rightarrow> read_file_loop rounds ops drv mx n (tot + k) 0 ?cl (blit tot (chunk off k ?cl) out)
                | None \<Rightarrow> ret (tot + k, blit tot (chunk off k ?cl) out)) d
         else (Ok (tot + k, blit tot (chunk off k ?cl) out), d))"
      using True rd unfolding k_def by (simp add: bind_Ok call_simps Let_def)
    show ?thesis
    proof (cases "tot + k < mx")
      case False
      then have k: "mx = tot + k" using Suc.prems(4) by (simp add: k_def)
      then have "chunk off (mx - tot) (?cl @ ?rest) = chunk off k ?cl"
        using content by (simp add: chunk_def)
      with False k show ?thesis unfolding step by simp
    next
      case more: True
      then have k: "k = cluster_size drv - off" "0 < k" using Suc.prems(2) by (auto simp: k_def)
      obtain x xs where cs: "cs = x # xs"
        using Suc.prems(3) lc more k by (cases cs) auto
      have ch: "is_chain (fat_at drv (image d)) (max_cluster drv) (x # xs)" using Suc.prems(1) cs by simp
      define out1 where "out1 = blit tot (chunk off k ?cl) out"
      have lo: "length out1 = length out" using lk more Suc.prems(5) by (simp add: out1_def)
      have "read_file_loop rounds ops drv mx x (tot + k) 0 ?cl out1 d
          = (Ok (mx, blit (tot + k) (chunk 0 (mx - (tot + k)) ?rest) out1), d)"
        using Suc.IH [OF ch, of 0 "tot + k" out1 ?cl] Suc.prems lc lo cs more k by simp
      also have "blit (tot + k) (chunk 0 (mx - (tot + k)) ?rest) out1
          = blit tot (chunk off (mx - tot) (?cl @ ?rest)) out"
        using blit_append_split [of tot "chunk off k ?cl" "chunk 0 (mx - tot - k) ?rest" out]
          lk content Suc.prems(5) more by (simp add: out1_def)
      finally show ?thesis
        using more nxt cs unfolding step by (simp add: bind_Ok out1_def)
    qed
  qed
qed

lemma skip_clusters_chain:
  assumes "fat_geometry drv" "mounted drv d"
  shows "is_chain (fat_at drv (image d)) (max_cluster drv) (c # cs) \<Longrightarrow> n < length (c # cs) \<Longrightarrow>
    skip_clusters n ops drv c d = (Ok (Some ((c # cs) ! n)), d)"
proof (induction n arbitrary: c cs)
  case (Suc n)
  then obtain x xs where cs: "cs = x # xs" by (cases cs) auto
  with Suc.IH [of x xs] Suc.prems get_next_in_chain [OF assms Suc.prems(1)] show ?case
    by (simp add: bind_Ok)
qed (simp add: call_simps)

lemma chain_bytes_skip:
  assumes "fat_geometry drv" "mounted drv d" "is_chain (fat_at drv (image d)) (max_cluster drv) cs"
    and "n < length cs"
  shows "drop (n * cluster_size drv) (chain_bytes drv (image d) cs) = chain_bytes drv (image d) (drop n cs)"
    "is_chain (fat_at drv (image d)) (max_cluster drv) (drop n cs)" "drop n cs = cs ! n # drop (Suc n) cs"
proof -
  show d: "drop n cs = cs ! n # drop (Suc n) cs" using assms(4) by (rule Cons_nth_drop_Suc [symmetric])
  have app: "cs = take n cs @ drop n cs" by simp
  then show "is_chain (fat_at drv (image d)) (max_cluster drv) (drop n cs)"
    using is_chain_suffix [of "fat_at drv (image d)" "max_cluster drv" "take n cs" "cs ! n" "drop (Suc n) cs"]
      assms(3) d by simp
  have "\<forall>c \<in> set (take n cs). 2 \<le> c \<and> c < max_cluster drv"
    using is_chain_range [OF assms(3)] by (meson in_set_takeD)
  then have len: "length (chain_bytes drv (image d) (take n cs)) = n * cluster_size drv"
    using length_chain_bytes [OF assms(1), of "image d" "take n cs"] assms(2,4) by simp
  have "chain_bytes drv (image d) cs
      = chain_bytes drv (image d) (take n cs) @ chain_bytes drv (image d) (drop n cs)"
    by (subst app) (simp add: chain_bytes_def del: append_take_drop_id)
  then show "drop (n * cluster_size drv) (chain_bytes drv (image d) cs) = chain_bytes drv (image d) (drop n cs)"
    using len by simp
qed

lemma chunk_drop: "chunk (a + b) n xs = chunk b n (drop a xs)"
  by (simp add: chunk_def add.commute)

lemma find_entry_of_file:
  assumes "fat_geometry drv" "mounted drv d" "file_in drv (image d) parent cluster e cs"
  shows "find_entry_by_cluster ops drv parent cluster d = (Ok e, d)"
  using assms(3) read_directory_of_chain [OF assms(1,2), of parent]
  unfolding file_in_def find_entry_by_cluster_def
  by (auto simp: bind_Ok call_simps)

lemma fat_read_file_content:
  fixes off :: nat and out :: "u8 list"
  assumes "fat_geometry drv" "mounted drv d" "file_in drv (image d) parent cluster e cs"
    and "decode_node_id node = (cluster, parent, attrs)" "\<not> fat_is_directory attrs"
  defines "n \<equiv> min (length out) (unat (de_file_size e) - off)"
  shows "fat_read_file ops drv node off out d =
    (Ok (n, blit 0 (chunk off n (chain_bytes drv (image d) (cluster # cs))) out), d)"
proof (cases "unat (de_file_size e) \<le> off")
  case True
  have "is_chain (fat_at drv (image d)) (max_cluster drv) (cluster # cs)"
    using assms(3) by (simp add: file_in_def)
  from is_chain_range [OF this, of cluster] have "cluster \<noteq> 0" by simp
  moreover have "n = 0" using True by (simp add: n_def)
  ultimately show ?thesis
    using True assms(4,5) find_entry_of_file [OF assms(1-3)]
    by (simp add: fat_read_file_def bind_Ok call_simps blit_def chunk_def)
next
  case False
  let ?size = "unat (de_file_size e)" and ?k = "cluster_size drv" and ?cs = "cluster # cs"
  let ?data = "chain_bytes drv (image d) ?cs"
  have ch: "is_chain (fat_at drv (image d)) (max_cluster drv) ?cs" and sz: "?size \<le> length ?data"
    using assms(3) by (auto simp: file_in_def)
  have k: "0 < ?k" using assms(1) by (simp add: fat_geometry_def)
  have c0: "cluster \<noteq> 0" using is_chain_range [OF ch, of cluster] by simp
  have ld: "length ?data = length ?cs * ?k"
    using length_chain_bytes [OF assms(1), of "image d" ?cs] assms(2) is_chain_range [OF ch] by simp
  then have q: "off div ?k < length ?cs"
    using False sz by (metis less_mult_imp_div_less linorder_not_le order_less_le_trans)
  note skip = skip_clusters_chain [OF assms(1,2) ch q] and rest = chain_bytes_skip [OF assms(1,2) ch q]
  have off: "off = off div ?k * ?k + off mod ?k" by simp
  have data: "chunk off n ?data = chunk (off mod ?k) n (chain_bytes drv (image d) (drop (off div ?k) ?cs))"
    unfolding rest(1) [symmetric] chunk_drop [symmetric] by simp
  have "read_file_loop n ops drv n (?cs ! (off div ?k)) 0 (off mod ?k) (replicate ?k 0) out d
      = (Ok (n, blit 0 (chunk (off mod ?k) (n - 0)
          (chain_bytes drv (image d) (?cs ! (off div ?k) # drop (Suc (off div ?k)) ?cs))) out), d)"
  proof (rule read_file_loop_chain [OF assms(1,2)])
    show "is_chain (fat_at drv (image d)) (max_cluster drv)
        (?cs ! (off div ?k) # drop (Suc (off div ?k)) ?cs)" using rest(2) unfolding rest(3) .
    have "off mod ?k + n + off div ?k * ?k \<le> length ?data"
      using sz False off by (simp add: n_def)
    then show "off mod ?k + (n - 0) \<le> length (chain_bytes drv (image d)
        (?cs ! (off div ?k) # drop (Suc (off div ?k)) ?cs))"
      unfolding rest(3) [symmetric] rest(1) [symmetric] length_drop by linarith
  qed (use k in \<open>auto simp: n_def\<close>)
  with False k c0 skip data rest(3) assms(4,5) find_entry_of_file [OF assms(1-3)] show ?thesis
    unfolding fat_read_file_def n_def by (simp add: bind_Ok Let_def)
qed

end

end
