(* ===== verification/Fat32_Names.thy ===== *)
theory Fat32_Names
  imports Fat32
begin

text \<open>
  File names and node handles of the FAT32 driver: the two encoders of a name agree on ASCII
  names, so a file is found under the name it was created with; the duplicate test compares
  the stored upper-case name with the given one.
\<close>

section \<open>Node handles\<close>

lemma bit_mask_lits:
  "bit (127 :: int) n \<longleftrightarrow> n < 7" "bit (16777215 :: int) n \<longleftrightarrow> n < 24"
proof -
  have m: "(127 :: int) = mask 7" "(16777215 :: int) = mask 24" by (simp_all add: mask_eq_exp_minus_1)
  show "bit (127 :: int) n \<longleftrightarrow> n < 7" "bit (16777215 :: int) n \<longleftrightarrow> n < 24"
    unfolding m by (simp_all add: bit_simps)
qed

lemma unat_low24: "unat (ucast (w AND 0xFFFFFF :: u64) :: u32) = unat w mod 2 ^ 24"
proof -
  have m: "(0xFFFFFF :: u64) = mask 24" by (simp add: mask_eq_exp_minus_1)
  have "unat (ucast (w AND 0xFFFFFF) :: u32) = take_bit 32 (take_bit 24 (unat w))"
    unfolding m take_bit_eq_mask [symmetric] by (simp only: unsigned_ucast_eq unsigned_take_bit_eq) simp
  also have "\<dots> = unat w mod 2 ^ 24" by (simp add: take_bit_eq_mod)
  finally show ?thesis .
qed

lemma node_id_decode:
  "decode_node_id (encode_node_id e p) =
     (get_first_cluster e mod 2 ^ 24, p mod 2 ^ 24, de_attributes e AND 0x7F)"
proof -
  let ?W = "encode_node_id e p"
  have W: "?W = push_bit 56 (ucast (de_attributes e) AND 0x7F) OR push_bit 32 (of_nat p AND 0xFFFFFF)
      OR (of_nat (get_first_cluster e) AND 0xFFFFFF)" by (simp add: encode_node_id_def Let_def)
  have low: "unat (ucast (of_nat n AND 0xFFFFFF :: u64) :: u32) = n mod 2 ^ 24" for n
    unfolding unat_low24 by (simp add: unat_of_nat mod_mod_cancel)
  have "ucast (drop_bit 56 ?W AND 0x7F) = de_attributes e AND 0x7F"
    unfolding W by (rule bit_word_eqI) (auto simp: bit_simps bit_mask_lits)
  moreover have "drop_bit 32 ?W AND 0xFFFFFF = of_nat p AND 0xFFFFFF"
    unfolding W by (rule bit_word_eqI) (auto simp: bit_simps bit_mask_lits)
  moreover have "?W AND 0xFFFFFF = of_nat (get_first_cluster e) AND 0xFFFFFF"
    unfolding W by (rule bit_word_eqI) (auto simp: bit_simps bit_mask_lits)
  ultimately show ?thesis
    unfolding decode_node_id_def Let_def by (simp only: low)
qed

text \<open>A node handle carries the first cluster and the parent's cluster, each below \<open>2 ^ 24\<close>,
  and seven attribute bits: decoding an encoded handle gives them back, and what is lost is
  exactly the higher bits.\<close>

theorem node_id_roundtrip:
  "decode_node_id (encode_node_id e p) =
     (get_first_cluster e mod 2 ^ 24, p mod 2 ^ 24, de_attributes e AND 0x7F)"
  by (rule node_id_decode)

section \<open>Names\<close>

definition ascii :: "str \<Rightarrow> bool" where
  "ascii s \<longleftrightarrow> (\<forall>b \<in> set s. b \<le> 0x7F)"

lemma unat_ucast_u8 [simp]: "unat (ucast (b :: u8) :: u32) = unat b"
  using unsigned_less [of b, where ?'a = nat] by (simp add: unsigned_ucast_eq take_bit_nat_eq_self)

lemma upcase_code_point: "ucast (to_ascii_uppercase (ucast b)) = upcase b"
proof (cases "0x61 \<le> b \<and> b \<le> 0x7A")
  case True
  then have "97 \<le> unat b" "unat b \<le> 122" by (auto simp: word_le_nat_alt)
  then have "ucast (ucast b - 32 :: u32) = b - 32"
    using unsigned_less [of b, where ?'a = nat]
    by (simp add: word_unat_eq_iff unsigned_ucast_eq unat_sub word_le_nat_alt take_bit_nat_eq_self)
  with True show ?thesis by (simp add: to_ascii_uppercase_def upcase_def word_le_nat_alt)
next
  case False
  then show ?thesis
    by (auto simp: to_ascii_uppercase_def upcase_def word_le_nat_alt word_unat_eq_iff
        unsigned_ucast_eq take_bit_nat_eq_self unsigned_less [where ?'a = nat and 'b = 8, simplified])
qed

lemma letters_ascii:
  "ascii s \<Longrightarrow> map (\<lambda>c. ucast (to_ascii_uppercase c)) (utf8_chars s) = map upcase s"
  using utf8_chars_ascii [of s] by (simp add: ascii_def upcase_code_point)

lemma split_extension_cases:
  obtains (plain) "0x2E \<notin> set s" "split_extension s = (s, None)"
  | (dotted) stem ext where "s = stem @ 0x2E # ext" "0x2E \<notin> set ext"
      "split_extension s = (stem, Some ext)" "str_rfind 0x2E s = Some (length stem)"
proof (cases "str_rfind 0x2E s")
  case None
  then show thesis by (intro plain) (simp_all add: split_extension_def str_rfind_None [symmetric])
next
  case (Some i)
  then obtain t where t: "s = take i s @ 0x2E # t" "i < length s" "0x2E \<notin> set t" "t = drop (Suc i) s"
    by (rule str_rfind_Some)
  with Some show thesis by (intro dotted [of "take i s" t]) (auto simp: split_extension_def)
qed

text \<open>A valid name fits the 8.3 form.\<close>

lemma valid_name_parts:
  assumes "is_valid_filename s" "split_extension s = (stem, ext)"
  shows "length stem \<le> 8" "\<And>x. ext = Some x \<Longrightarrow> length x \<le> 3" "stem \<noteq> []"
    "set stem \<subseteq> set s" "\<And>x. ext = Some x \<Longrightarrow> set x \<subseteq> set s"
proof -
  have "length stem \<le> 8 \<and> (\<forall>x. ext = Some x \<longrightarrow> length x \<le> 3) \<and> stem \<noteq> []
    \<and> set stem \<subseteq> set s \<and> (\<forall>x. ext = Some x \<longrightarrow> set x \<subseteq> set s)"
  proof (cases s rule: split_extension_cases)
    case plain
    then have "str_rfind 0x2E s = None" by (simp add: str_rfind_None)
    with plain assms show ?thesis
      by (simp add: is_valid_filename_def MAX_NAME_LENGTH_def split: if_splits)
  next
    case (dotted st ex)
    with assms have eq: "stem = st" "ext = Some ex" by simp_all
    have "st \<noteq> []" using assms(1) dotted(1) by (auto simp: is_valid_filename_def)
    moreover have "length st \<le> 8 \<and> length ex \<le> 3"
      using assms(1) dotted(4) unfolding is_valid_filename_def dotted(4)
      by (simp add: dotted(1) MAX_NAME_LENGTH_def MAX_EXT_LENGTH_def split: if_splits)
    ultimately show ?thesis using dotted(1) eq by auto
  qed
  then show "length stem \<le> 8" "\<And>x. ext = Some x \<Longrightarrow> length x \<le> 3" "stem \<noteq> []"
    "set stem \<subseteq> set s" "\<And>x. ext = Some x \<Longrightarrow> set x \<subseteq> set s" by auto
qed

definition padded_name :: "u8 list \<Rightarrow> nat \<Rightarrow> u8 list" where
  "padded_name cs n = map upcase cs @ replicate (n - length cs) 0x20"

lemma to_fat32_name_padded:
  assumes "is_valid_filename s" "ascii s" "split_extension s = (stem, ext)"
  shows "to_fat32_name s = Ok (padded_name stem 8 @ (case ext of None \<Rightarrow> replicate 3 0x20 | Some x \<Rightarrow> padded_name x 3))"
proof -
  note v = valid_name_parts [OF assms(1,3)]
  have "ascii stem" using v(4) assms(2) by (auto simp: ascii_def)
  moreover have "ascii x" if "ext = Some x" for x using v(5) [OF that] assms(2) by (auto simp: ascii_def)
  moreover have "replicate 11 z = replicate 8 z @ replicate 3 z" for z :: u8
    by (simp add: replicate_add [symmetric])
  ultimately show ?thesis
    using assms(1,3) v(1,2)
    by (auto simp: to_fat32_name_def Let_def MAX_NAME_LENGTH_def MAX_EXT_LENGTH_def letters_ascii
        padded_name_def blit_def split: option.splits)
qed

lemma set_filename_padded:
  assumes "is_valid_filename s" "split_extension s = (stem, ext)"
  shows "set_filename s e = Ok (e\<lparr>de_name := padded_name stem 8,
    de_extension := (case ext of None \<Rightarrow> replicate 3 0x20 | Some x \<Rightarrow> padded_name x 3)\<rparr>)"
  using valid_name_parts [OF assms] assms(2)
  by (auto simp: set_filename_def Let_def MAX_NAME_LENGTH_def MAX_EXT_LENGTH_def padded_name_def
      blit_def split: option.splits)

lemma takeWhile_padded:
  assumes "\<forall>b \<in> set cs. b \<noteq> 0 \<and> b \<noteq> 0x20"
  shows "takeWhile (\<lambda>c. c \<noteq> 0 \<and> c \<noteq> 0x20) (padded_name cs n) = map upcase cs"
proof -
  have "upcase b \<noteq> 0 \<and> upcase b \<noteq> 0x20" if "b \<noteq> 0" "b \<noteq> 0x20" for b
  proof (cases "0x61 \<le> b \<and> b \<le> 0x7A")
    case True
    then have "65 \<le> unat (b - 32)" by (auto simp: word_le_nat_alt unat_sub)
    with True show ?thesis by (auto simp: upcase_def)
  qed (use that in \<open>auto simp: upcase_def\<close>)
  with assms have "\<forall>b \<in> set (map upcase cs). b \<noteq> 0 \<and> b \<noteq> 0x20" by simp
  then show ?thesis unfolding padded_name_def by (subst takeWhile_append2) (auto simp: takeWhile_replicate)
qed

lemma upcase_ascii: "b \<le> 0x7F \<Longrightarrow> upcase b \<le> 0x7F"
  by (auto simp: upcase_def word_le_nat_alt unat_sub)

lemma upcase_dot [simp]: "upcase b = 0x2E \<longleftrightarrow> b = 0x2E"
proof (cases "0x61 \<le> b \<and> b \<le> 0x7A")
  case True
  then have "65 \<le> unat (b - 32)" "97 \<le> unat b" by (auto simp: word_le_nat_alt unat_sub)
  with True show ?thesis by (auto simp: upcase_def)
qed (auto simp: upcase_def)

lemma split_extension_upcase:
  "split_extension s = (stem, ext) \<Longrightarrow>
   split_extension (map upcase s) = (map upcase stem, map_option (map upcase) ext)"
proof (cases s rule: split_extension_cases)
  case plain
  assume "split_extension s = (stem, ext)"
  moreover have "str_rfind 0x2E (map upcase s) = None"
    using plain(1) by (auto simp: str_rfind_None dest: sym)
  ultimately show ?thesis using plain(2) by (simp add: split_extension_def)
next
  case (dotted st ex)
  assume "split_extension s = (stem, ext)"
  moreover have "0x2E \<notin> set (map upcase ex)" using dotted(2) by (auto dest: sym)
  moreover have "map upcase s = map upcase st @ 0x2E # map upcase ex"
    using dotted(1) upcase_dot by simp
  ultimately show ?thesis
    using dotted(3) str_rfind_append [of "0x2E" "map upcase ex" "map upcase st"]
    by (simp add: split_extension_def)
qed

lemma padded_name_upcase: "map upcase cs = map upcase ds \<Longrightarrow> padded_name cs n = padded_name ds n"
  using map_eq_imp_length_eq [of upcase cs upcase ds] by (simp add: padded_name_def)

lemma length_padded_name [simp]: "length cs \<le> n \<Longrightarrow> length (padded_name cs n) = n"
  by (simp add: padded_name_def)

lemma stored_name_matches:
  assumes "is_valid_filename s" "ascii s" "\<forall>b \<in> set s. b \<noteq> 0 \<and> b \<noteq> 0x20" "last s \<noteq> 0x2E"
    and "map upcase t = map upcase s" "is_valid_filename t" "ascii t"
  shows "\<exists>n e'. to_fat32_name t = Ok n \<and> set_filename s e = Ok e' \<and> full_name_matches e' n
    \<and> get_filename e' = map upcase s"
proof -
  obtain stem ext where sp: "split_extension s = (stem, ext)" by fastforce
  obtain stem' ext' where tp: "split_extension t = (stem', ext')" by fastforce
  note v = valid_name_parts [OF assms(1) sp]
  have same: "map upcase stem' = map upcase stem" "map_option (map upcase) ext' = map_option (map upcase) ext"
    using split_extension_upcase [OF sp] split_extension_upcase [OF tp] assms(5) by simp_all
  define x where "x = (case ext of None \<Rightarrow> replicate 3 0x20 | Some x \<Rightarrow> padded_name x 3)"
  have lx: "length x = 3" using v(2) by (simp add: x_def split: option.splits)
  define e' where "e' = e\<lparr>de_name := padded_name stem 8, de_extension := x\<rparr>"
  have n: "to_fat32_name t = Ok (padded_name stem 8 @ x)"
  proof -
    have "(case ext' of None \<Rightarrow> replicate 3 0x20 | Some y \<Rightarrow> padded_name y 3) = x"
      using same(2) padded_name_upcase [of "the ext'" "the ext" 3]
      unfolding x_def by (cases ext; cases ext') simp_all
    with to_fat32_name_padded [OF assms(6,7) tp] padded_name_upcase [OF same(1), of 8]
    show ?thesis by simp
  qed
  have e': "set_filename s e = Ok e'"
    using set_filename_padded [OF assms(1) sp, of e] by (simp add: e'_def x_def)
  have "full_name_matches e' (padded_name stem 8 @ x)"
    using v(1) lx by (simp add: full_name_matches_def e'_def chunk_def)
  moreover have "get_filename e' = map upcase s"
  proof (cases s rule: split_extension_cases)
    case plain
    with sp have "stem = s" "x = padded_name [] 3" by (auto simp: x_def padded_name_def)
    then show ?thesis
      using takeWhile_padded [of s 8] takeWhile_padded [of "[]" 3] assms(3)
      by (simp add: get_filename_def get_stem_def e'_def Let_def)
  next
    case (dotted st ex)
    with sp have eq: "stem = st" "x = padded_name ex 3" by (auto simp: x_def)
    have "ex \<noteq> []" using dotted(1) assms(4) by auto
    moreover have "utf8_valid (map upcase ex)"
      using utf8_chars_ascii [of "map upcase ex"] assms(2) upcase_ascii dotted(1) by (simp add: ascii_def)
    ultimately show ?thesis
      using takeWhile_padded [of st 8] takeWhile_padded [of ex 3] assms(3) dotted(1) eq upcase_dot [of "0x2E"]
      by (simp add: get_filename_def get_stem_def e'_def Let_def)
  qed
  ultimately show ?thesis using n e' by blast
qed

text \<open>A file created under a valid ASCII name is found under that name, in any mixture of
  cases: the name the lookup searches for is the name the entry stores. The entry reports its
  name in upper case.\<close>

theorem created_name_found:
  assumes "is_valid_filename s" "ascii s" "\<forall>b \<in> set s. b \<noteq> 0 \<and> b \<noteq> 0x20" "last s \<noteq> 0x2E"
    and "map upcase t = map upcase s" "is_valid_filename t" "ascii t"
  shows "\<exists>n e'. to_fat32_name t = Ok n \<and> set_filename s e = Ok e' \<and> full_name_matches e' n
    \<and> get_filename e' = map upcase s"
  using assms by (rule stored_name_matches)

theorem created_name_found_witness:
  "\<exists>n e'. to_fat32_name [0x61, 0x2E, 0x54] = Ok n \<and> set_filename [0x41, 0x2E, 0x74] direntry_create_empty = Ok e'
     \<and> full_name_matches e' n \<and> get_filename e' = [0x41, 0x2E, 0x54]"
proof -
  have "is_valid_filename [0x41, 0x2E, 0x74]" "is_valid_filename [0x61, 0x2E, 0x54]"
    by (simp_all add: is_valid_filename_def str_rfind_def str_find_def MAX_NAME_LENGTH_def MAX_EXT_LENGTH_def)
  with created_name_found [of "[0x41, 0x2E, 0x74]" "[0x61, 0x2E, 0x54]" direntry_create_empty] show ?thesis
    by (simp add: ascii_def upcase_def)
qed

text \<open>The test for an existing file in \<open>create_file\<close> and \<open>create_directory\<close> compares the
  reported upper-case name with the given name: for a name with a lower-case letter it never
  sees the entry that was created under the very same name, although the lookup finds it.\<close>

theorem duplicate_test_misses_lower_case:
  assumes "is_valid_filename s" "ascii s" "\<forall>b \<in> set s. b \<noteq> 0 \<and> b \<noteq> 0x20" "last s \<noteq> 0x2E"
    and "\<exists>b \<in> set s. 0x61 \<le> b \<and> b \<le> 0x7A"
  shows "\<exists>n e'. set_filename s e = Ok e' \<and> to_fat32_name s = Ok n \<and> full_name_matches e' n
    \<and> get_filename e' \<noteq> s"
proof -
  from assms(5) obtain b where b: "b \<in> set s" "0x61 \<le> b" "b \<le> 0x7A" by blast
  have "b - 32 \<noteq> b" by simp
  with b have "upcase b \<noteq> b" by (simp add: upcase_def)
  with b(1) have "map upcase s \<noteq> s" by (metis map_eq_conv map_ident)
  with stored_name_matches [OF assms(1-4) refl assms(1,2), of e] show ?thesis by metis
qed

theorem duplicate_test_misses_lower_case_witness:
  "\<exists>n e'. set_filename [0x61, 0x2E, 0x74] direntry_create_empty = Ok e'
     \<and> to_fat32_name [0x61, 0x2E, 0x74] = Ok n \<and> full_name_matches e' n \<and> get_filename e' \<noteq> [0x61, 0x2E, 0x74]"
proof -
  have "is_valid_filename [0x61, 0x2E, 0x74]"
    by (simp add: is_valid_filename_def str_rfind_def str_find_def MAX_NAME_LENGTH_def MAX_EXT_LENGTH_def)
  with duplicate_test_misses_lower_case [of "[0x61, 0x2E, 0x74]" direntry_create_empty] show ?thesis
    by (simp add: ascii_def)
qed

end
