(* ===== verification/Fat32_Props.thy ===== *)
theory Fat32_Props
  imports Fat32_Files Fat32_Names
begin

text \<open>
  Properties of the FAT32 driver on every device that meets the contract \<open>disk_device\<close>, and a
  small volume on the in-memory device on which they are applied.
\<close>

section \<open>A sample volume\<close>

text \<open>
  Five sectors: boot sector, table, root directory (cluster 2) and two data clusters (3 and 4)
  that hold a file of 600 bytes. Cluster 5 is free.
\<close>

definition sample_boot :: boot_sector where
  "sample_boot = \<lparr>jmp_boot = [], oem_name = [], bytes_per_sector = 512, bs_sectors_per_cluster = 1,
     reserved_sectors = 1, num_fats = 1, root_entries = 0, total_sectors_16 = 0, media_descriptor = 0,
     fat_size_16 = 0, sectors_per_track = 0, num_heads = 0, hidden_sectors = 0, total_sectors_32 = 6,
     fat_size_32 = 1, ext_flags = 0, fs_version = 0, root_cluster = 2, fsinfo_sector = 0,
     backup_boot_sector = 0, bs_reserved = [], drive_number = 0, winnt_flags = 0, bs_signature = 0,
     volume_id = 0, volume_label = [], fs_type = [], bootcode = [], signature_word = 0,
     root_dir_sectors = 0\<rparr>"

definition sample_driver :: fat32_driver where
  "sample_driver = \<lparr>fd_boot_sector = sample_boot, fat_start_sector = 1, root_start_sector = 2,
     data_start_sector = 2, sectors_per_cluster = 1, cluster_size = 512, max_cluster = 6,
     root_dir_node_id = 0, root_direntry = direntry_create_for_root,
     root_filenode = \<lparr>fn_node_id = 0, fn_name = [], fn_file_type = Directory, fn_size = 0,
       fn_created_time = 0, fn_modified_time = 0, fn_attributes = 0\<rparr>\<rparr>"

definition sample_entry :: directory_entry where
  "sample_entry = set_first_cluster 3 (direntry_create_empty\<lparr>de_name := [0x41, 0x20, 0x20, 0x20, 0x20, 0x20, 0x20, 0x20],
     de_extension := [0x20, 0x20, 0x20], de_attributes := attr_bits Archive, de_file_size := 600\<rparr>)"

definition sample_table :: "u8 list" where
  "sample_table = concat (map (\<lambda>v. u32_to_le_bytes v)
     [0x0FFFFFF8, 0x0FFFFFFF, 0x0FFFFFFF, 4, 0x0FFFFFFF, 0]) @ replicate 488 0"

definition sample_image :: "u8 list" where
  "sample_image = replicate 512 0 @ sample_table @ (direntry_as_bytes sample_entry @ replicate 480 0)
     @ replicate 512 0x61 @ replicate 512 0x62 @ replicate 512 0"

definition sample_disk :: mock_disk where
  "sample_disk = \<lparr>size_bytes = 3072, mock_data = sample_image\<rparr>"

lemma sample_entry_wf: "direntry_wf sample_entry"
  by (simp add: direntry_wf_def sample_entry_def set_first_cluster_def direntry_create_empty_def
      MAX_EXT_LENGTH_def)

lemma sample_entry_fields:
  "get_first_cluster sample_entry = 3" "unat (de_file_size sample_entry) = 600"
  "de_is_empty sample_entry = False"
proof -
  show "get_first_cluster sample_entry = 3" by (simp add: sample_entry_def)
  show "unat (de_file_size sample_entry) = 600" "de_is_empty sample_entry = False"
    by (simp_all add: sample_entry_def set_first_cluster_def de_is_empty_def FIRST_BYTE_IS_EMPTY_FLAG_def)
qed

lemma length_sample_parts [simp]: "length sample_table = 512" "length sample_image = 3072"
  by (simp_all add: sample_table_def sample_image_def length_concat sample_entry_wf)

lemma sample_fields [simp]:
  "max_cluster sample_driver = 6" "cluster_size sample_driver = 512"
  "mock_data sample_disk = sample_image"
  by (simp_all add: sample_driver_def sample_disk_def)

lemma sample_geometry: "fat_geometry sample_driver"
  by (simp add: fat_geometry_def sample_driver_def sample_boot_def bps_def)

lemma sample_mounted: "mock_inv sample_disk" "vol_ok sample_driver (mock_data sample_disk)"
  by (simp_all add: mock_inv_def sample_disk_def vol_ok_def volume_bytes_def sample_driver_def)

lemma sample_fat:
  "fat_at sample_driver sample_image 2 = END_OF_CHAIN" "fat_at sample_driver sample_image 3 = 4"
  "fat_at sample_driver sample_image 4 = END_OF_CHAIN" "fat_at sample_driver sample_image 5 = 0"
proof -
  have "u32_at sample_image (512 + i) = u32_at sample_table i" if "i + 3 < 512" for i
    using that by (simp add: sample_image_def u32_at_def nth_append add.commute)
  then have w: "fat_word sample_driver sample_image c = u32_at sample_table (c * 4)" if "c < 6" for c
    using that by (simp add: fat_word_def sample_driver_def)
  have "u32_at sample_table 8 = 0x0FFFFFFF" "u32_at sample_table 12 = 4"
    "u32_at sample_table 16 = 0x0FFFFFFF" "u32_at sample_table 20 = 0"
    by (simp_all add: sample_table_def u32_at_def u32_to_le_bytes_def nth_append u32_from_le_bytes_def)
  then show "fat_at sample_driver sample_image 2 = END_OF_CHAIN" "fat_at sample_driver sample_image 3 = 4"
  "fat_at sample_driver sample_image 4 = END_OF_CHAIN" "fat_at sample_driver sample_image 5 = 0"
    using w [of 2] w [of 3] w [of 4] w [of 5] by (simp_all add: fat_at_def END_OF_CHAIN_def)
qed

lemma sample_chains:
  "is_chain (fat_at sample_driver sample_image) 6 [2]"
  "is_chain (fat_at sample_driver sample_image) 6 [3, 4]"
  "free_clusters sample_driver sample_image = [5]"
proof -
  show "is_chain (fat_at sample_driver sample_image) 6 [2]"
    "is_chain (fat_at sample_driver sample_image) 6 [3, 4]"
    by (simp_all add: sample_fat)
  have "[2..<6] = [2, 3, 4, 5 :: nat]" by (simp add: upt_rec)
  moreover have "max_cluster sample_driver = 6" by (simp add: sample_driver_def)
  ultimately show "free_clusters sample_driver sample_image = [5]"
    by (simp add: free_clusters_def sample_fat END_OF_CHAIN_def)
qed

lemma sample_clusters:
  "cluster_at sample_driver sample_image 2 = direntry_as_bytes sample_entry @ replicate 480 0"
  "cluster_at sample_driver sample_image 3 = replicate 512 0x61"
  "cluster_at sample_driver sample_image 4 = replicate 512 0x62"
  by (simp_all add: cluster_at_def cluster_to_sector_def sample_driver_def sample_image_def chunk_def
      sample_entry_wf)

lemma direntry_empty_bytes:
  "\<exists>e. direntry_from_bytes (replicate 32 0) = (Ok e :: (file_system_error, directory_entry) outcome)
    \<and> de_is_empty e"
  by (simp add: direntry_from_bytes_def Let_def u16_from_le_bytes_def MAX_CLUSTER_def de_is_empty_def
      FIRST_BYTE_IS_EMPTY_FLAG_def)

lemma sample_directory:
  "parse_entries (cluster_at sample_driver sample_image 2) 0 16
   = (Ok [sample_entry] :: (file_system_error, directory_entry list) outcome)"
proof -
  let ?b = "direntry_as_bytes sample_entry @ replicate 480 0"
  have "chunk 0 32 ?b = direntry_as_bytes sample_entry" "chunk 32 32 ?b = replicate 32 0"
    by (simp_all add: chunk_def sample_entry_wf)
  moreover have "direntry_from_bytes (direntry_as_bytes sample_entry)
      = (Ok sample_entry :: (file_system_error, directory_entry) outcome)"
    using direntry_from_as_bytes [OF sample_entry_wf, of "[]"] by (simp add: sample_entry_fields MAX_CLUSTER_def)
  note bytes = calculation this
  have "parse_entries ?b 1 (Suc 14) = (Ok [] :: (file_system_error, directory_entry list) outcome)"
    unfolding parse_entries.simps using direntry_empty_bytes bytes by (auto simp: DIRECTORY_ENTRY_SIZE_def)
  then have tail: "parse_entries ?b (Suc 0) 15 = (Ok [] :: (file_system_error, directory_entry list) outcome)"
    by simp
  have "parse_entries ?b 0 (Suc 15)
      = (Ok [sample_entry] :: (file_system_error, directory_entry list) outcome)"
    by (subst parse_entries.simps(2)) (simp add: DIRECTORY_ENTRY_SIZE_def bytes tail sample_entry_fields)
  then show ?thesis unfolding sample_clusters by simp
qed

section \<open>The table\<close>

text \<open>C2: on every device that meets the contract, writing a table entry and reading any entry
  back gives the written 28-bit value at that cluster and the old value at every other cluster;
  the four reserved bits of the entry and all clusters of the data area are unchanged.\<close>

theorem fat_entry_write_read:
  assumes "disk_device ops invar img" "fat_geometry drv" "invar d" "vol_ok drv (img d)"
    and "c < max_cluster drv" "c' < max_cluster drv" "v < 2 ^ 28"
  shows "\<exists>d'. write_fat_entry ops drv c v d = (Ok (), d')
    \<and> read_fat_entry ops drv c' d' = (Ok (if c' = c then v else fat_at drv (img d) c'), d')
    \<and> read_fat_entry ops drv c' d = (Ok (fat_at drv (img d) c'), d)
    \<and> fat_word drv (img d') c AND 0xF0000000 = fat_word drv (img d) c AND 0xF0000000
    \<and> (\<forall>k. 2 \<le> k \<longrightarrow> k < max_cluster drv \<longrightarrow> cluster_at drv (img d') k = cluster_at drv (img d) k)"
proof -
  have m: "invar d \<and> vol_ok drv (img d)" using assms(3,4) ..
  from disk_device.write_fat_entry_at [OF assms(1,2) m assms(5), of v] obtain d' where d':
    "write_fat_entry ops drv c v d = (Ok (), d')" "invar d'" "fat_set drv (img d) c v (img d')"
    "fat_word drv (img d') c AND 0xF0000000 = fat_word drv (img d) c AND 0xF0000000"
    using assms(7) by auto
  then have m': "invar d' \<and> vol_ok drv (img d')" by (simp add: fat_set_def)
  from d' disk_device.read_fat_entry_at [OF assms(1,2) m' assms(6)]
    disk_device.read_fat_entry_at [OF assms(1,2) m assms(6)] assms(6)
  show ?thesis by (auto simp: fat_set_def)
qed

theorem fat_entry_write_read_witness:
  "\<exists>d'. write_fat_entry mock_ops sample_driver 5 7 sample_disk = (Ok (), d')
    \<and> read_fat_entry mock_ops sample_driver 5 d' = (Ok 7, d')"
  using fat_entry_write_read [OF mock.disk_device_axioms sample_geometry sample_mounted, of 5 5 7]
  by (auto simp: sample_driver_def)

text \<open>C13: allocating one cluster takes the lowest free cluster, marks it as the end of a chain and
  changes nothing else; with no free cluster it fails with \<open>NoSpace\<close> and leaves the disk as it
  was.\<close>

theorem allocate_lowest_free:
  assumes "disk_device ops invar img" "fat_geometry drv" "invar d" "vol_ok drv (img d)"
  shows "case free_clusters drv (img d) of
      [] \<Rightarrow> allocate_clusters ops drv 1 d = (Err NoSpace, d)
    | c # _ \<Rightarrow> \<exists>d'. allocate_clusters ops drv 1 d = (Ok c, d')
        \<and> fat_set drv (img d) c END_OF_CHAIN (img d')"
  using disk_device.allocate_one [OF assms(1,2), of d] assms(3,4) by (auto split: list.splits)

theorem allocate_lowest_free_witness:
  "\<exists>d'. allocate_clusters mock_ops sample_driver 1 sample_disk = (Ok 5, d')"
  using allocate_lowest_free [OF mock.disk_device_axioms sample_geometry sample_mounted]
  by (auto simp: sample_chains)

text \<open>A request for two clusters is answered with a chain of one: the first cluster is not yet
  marked when the second is looked for, so the search finds it again and the entry that links
  it to itself is then overwritten by the end marker. The result is that of a request for one
  cluster.\<close>

theorem allocate_two_gives_one:
  assumes "disk_device ops invar img" "fat_geometry drv" "invar d" "vol_ok drv (img d)"
    and "free_clusters drv (img d) = c # cs"
  shows "\<exists>d'. allocate_clusters ops drv 2 d = (Ok c, d') \<and> fat_set drv (img d) c END_OF_CHAIN (img d')
    \<and> get_cluster_chain_length ops drv c d' = (Ok 1, d')"
proof -
  from disk_device.allocate_two [OF assms(1,2) _ assms(5)] assms(3,4) obtain d' where d':
    "allocate_clusters ops drv 2 d = (Ok c, d')" "invar d'"
    "fat_set drv (img d) c END_OF_CHAIN (img d')" by blast
  have "c \<in> set (free_clusters drv (img d))" using assms(5) by simp
  then have "2 \<le> c" "c < max_cluster drv" by (auto simp: free_clusters_def)
  with d'(3) have "is_chain (fat_at drv (img d')) (max_cluster drv) [c]" by (simp add: fat_set_def)
  with disk_device.chain_length_of_chain [OF assms(1,2), of d' c "[]"] d' show ?thesis
    by (auto simp: fat_set_def)
qed

theorem allocate_two_gives_one_witness:
  "\<exists>d'. allocate_clusters mock_ops sample_driver 2 sample_disk = (Ok 5, d')
    \<and> get_cluster_chain_length mock_ops sample_driver 5 d' = (Ok 1, d')"
  using allocate_two_gives_one [OF mock.disk_device_axioms sample_geometry sample_mounted, of 5 "[]"]
  by (auto simp: sample_chains)

text \<open>C6: freeing a chain terminates, clears the entries of exactly the clusters of the chain and
  leaves every other entry and all cluster contents alone.\<close>

theorem free_chain_exact:
  assumes "disk_device ops invar img" "fat_geometry drv" "invar d" "vol_ok drv (img d)"
    and "is_chain (fat_at drv (img d)) (max_cluster drv) (c # cs)"
  shows "\<exists>d'. free_cluster_chain ops drv c d = (Ok (), d') \<and> fat_freed drv (img d) (c # cs) (img d')
    \<and> (\<forall>k. k \<in> set (free_clusters drv (img d')) \<longleftrightarrow> k \<in> set (c # cs) \<or> k \<in> set (free_clusters drv (img d)))"
proof -
  from disk_device.free_cluster_chain_of_chain [OF assms(1,2) _ assms(5)] assms(3,4) obtain d' where d':
    "free_cluster_chain ops drv c d = (Ok (), d')" "fat_freed drv (img d) (c # cs) (img d')" by blast
  have "k \<in> set (free_clusters drv (img d')) \<longleftrightarrow> k \<in> set (c # cs) \<or> k \<in> set (free_clusters drv (img d))" for k
    using d'(2) is_chain_range [OF assms(5), of k] by (auto simp: free_clusters_def fat_freed_def)
  with d' show ?thesis by blast
qed

theorem free_chain_exact_witness:
  "\<exists>d'. free_cluster_chain mock_ops sample_driver 3 sample_disk = (Ok (), d')
    \<and> set (free_clusters sample_driver (mock_data d')) = {3, 4, 5}"
proof -
  have "is_chain (fat_at sample_driver (mock_data sample_disk)) (max_cluster sample_driver) [3, 4]"
    using sample_chains(2) by simp
  from free_chain_exact [OF mock.disk_device_axioms sample_geometry sample_mounted this]
  show ?thesis by (auto simp: sample_chains)
qed

text \<open>C16: computing the length of a chain changes nothing; it never returns exactly when the
  successors of the first cluster stay inside the table for ever, that is when the table holds
  a cycle; on a chain it returns the number of its clusters.\<close>

theorem chain_length_total:
  assumes "disk_device ops invar img" "fat_geometry drv" "invar d" "vol_ok drv (img d)"
  shows "snd (get_cluster_chain_length ops drv c d) = d
    \<and> (fst (get_cluster_chain_length ops drv c d) = Diverge \<longleftrightarrow>
       (\<forall>k. 2 \<le> (fat_at drv (img d) ^^ k) c \<and> (fat_at drv (img d) ^^ k) c < max_cluster drv))
    \<and> (\<forall>cs. is_chain (fat_at drv (img d)) (max_cluster drv) (c # cs) \<longrightarrow>
         fst (get_cluster_chain_length ops drv c d) = Ok (length (c # cs)))"
proof (intro conjI allI impI)
  let ?f = "fat_at drv (img d)" and ?r = "get_cluster_chain_length ops drv c d"
  have m: "invar d \<and> vol_ok drv (img d)" using assms(3,4) ..
  note loop = disk_device.chain_length_loop_diverges [OF assms(1,2) m, of "max_cluster drv" c 0,
      folded get_cluster_chain_length_def]
  show "snd ?r = d" using loop by (rule conjunct1)
  show "fst ?r = Diverge \<longleftrightarrow> (\<forall>k. 2 \<le> (?f ^^ k) c \<and> (?f ^^ k) c < max_cluster drv)"
    unfolding conjunct2 [OF loop] using orbit_stays [of "max_cluster drv" ?f c] by blast
  fix cs assume "is_chain ?f (max_cluster drv) (c # cs)"
  from disk_device.chain_length_of_chain [OF assms(1,2) m this] show "fst ?r = Ok (length (c # cs))"
    by simp
qed

theorem chain_length_total_witness:
  "fst (get_cluster_chain_length mock_ops sample_driver 3 sample_disk) = Ok 2"
proof -
  have "is_chain (fat_at sample_driver (mock_data sample_disk)) (max_cluster sample_driver) (3 # [4])"
    using sample_chains(2) by simp
  with chain_length_total [OF mock.disk_device_axioms sample_geometry sample_mounted, of 3] show ?thesis
    by fastforce
qed

section \<open>Files\<close>

text \<open>C1: reading a file from an offset copies the bytes of its chain that lie between the offset
  and the end of the file, as many as fit into the buffer, reports their number, leaves the rest
  of the buffer and the disk alone, and always returns; past the end of the file it reads
  nothing.\<close>

theorem read_file_content:
  assumes "disk_device ops invar img" "fat_geometry drv" "invar d" "vol_ok drv (img d)"
    and "decode_node_id node = (cluster, parent, attrs)" "\<not> fat_is_directory attrs"
    and "file_in drv (img d) parent cluster e cs"
  shows "fat_read_file ops drv node off out d =
    (let n = min (length out) (unat (de_file_size e) - off) in
     (Ok (n, chunk off n (chain_bytes drv (img d) (cluster # cs)) @ drop n out), d))"
proof -
  define n where "n = min (length out) (unat (de_file_size e) - off)"
  have "fat_read_file ops drv node off out d
      = (Ok (n, blit 0 (chunk off n (chain_bytes drv (img d) (cluster # cs))) out), d)"
    unfolding n_def
    by (rule disk_device.fat_read_file_content [OF assms(1,2) _ assms(7) assms(5,6)]) (use assms in simp)
  moreover have "length (chunk off n (chain_bytes drv (img d) (cluster # cs))) = n"
    using assms(7) by (auto simp: n_def file_in_def)
  ultimately show ?thesis by (simp add: blit_def Let_def n_def)
qed

theorem read_file_content_witness:
  "fat_read_file mock_ops sample_driver (encode_node_id sample_entry 2) 510 (replicate 4 0) sample_disk
   = (Ok (4, replicate 2 0x61 @ replicate 2 0x62), sample_disk)"
proof -
  have dec: "decode_node_id (encode_node_id sample_entry 2) = (3, 2, 0x20)"
    by (simp add: node_id_decode sample_entry_fields) (simp add: sample_entry_def set_first_cluster_def)
  have "file_in sample_driver (mock_data sample_disk) 2 3 sample_entry [4]"
    unfolding file_in_def
  proof (intro conjI exI [of _ "[] :: nat list"] exI [of _ "[sample_entry]"])
    show "parse_entries (chain_bytes sample_driver (mock_data sample_disk) [2]) 0
        (length [2] * cluster_size sample_driver div DIRECTORY_ENTRY_SIZE)
        = (Ok [sample_entry] :: (file_system_error, directory_entry list) outcome)"
      using sample_directory by (simp add: DIRECTORY_ENTRY_SIZE_def)
  qed (use sample_chains in \<open>simp_all add: sample_entry_fields sample_clusters\<close>)
  moreover have "chunk 510 4 (chain_bytes sample_driver sample_image [3, 4]) = replicate 2 0x61 @ replicate 2 0x62"
    by (simp add: sample_clusters chunk_def)
  moreover have "min 4 (unat (de_file_size sample_entry) - 510) = 4" by (simp add: sample_entry_fields)
  ultimately show ?thesis
    using read_file_content [OF mock.disk_device_axioms sample_geometry sample_mounted dec, of sample_entry "[4]" 510 "replicate 4 0"]
    by (simp add: fat_is_directory_def Let_def)
qed

end
