(* ===== verification/Frame_Alloc.thy ===== *)
theory Frame_Alloc
  imports Mofu_Prelude "HOL-Library.Multiset"
begin

text \<open>
  The physical frame allocator (\<open>memory/memory.rs\<close>): a bump pointer over the usable entries of
  the boot memory map, with a stack of returned frames in front of it. Addresses are natural
  numbers below \<open>2 ^ 64\<close>; an addition that would leave that range is a panic of the source. A
  frame is its start address. The allocator is shown to refine a pair of lists (the returned
  frames and the frames not handed out yet), and from that, that no frame has two holders.
\<close>

section \<open>Addresses and alignment\<close>

definition PAGE_SIZE :: nat where
  "PAGE_SIZE = 4096"

text \<open>\<open>x & !(align - 1)\<close> on 64 bits.\<close>

definition align_down :: "nat \<Rightarrow> nat \<Rightarrow> nat" where
  "align_down x align = x AND (2 ^ 64 - 1 - (align - 1))"

definition align_up :: "nat \<Rightarrow> nat \<Rightarrow> ('e, nat) outcome" where
  "align_up x align =
     (if x + align - 1 < 2 ^ 64 then Ok ((x + align - 1) AND (2 ^ 64 - 1 - (align - 1))) else Panic)"

text \<open>The checked constructors of the address types: 52 bits physical, sign-extended 48 virtual.\<close>

definition phys_addr_ok :: "nat \<Rightarrow> bool" where
  "phys_addr_ok a \<longleftrightarrow> a < 2 ^ 52"

definition virt_addr_ok :: "nat \<Rightarrow> bool" where
  "virt_addr_ok a \<longleftrightarrow> a < 2 ^ 47 \<or> 2 ^ 64 - 2 ^ 47 \<le> a \<and> a < 2 ^ 64"

text \<open>\<open>PhysFrame::containing_address\<close> and \<open>Page::containing_address\<close>.\<close>

definition containing_address :: "nat \<Rightarrow> nat" where
  "containing_address a = align_down a PAGE_SIZE"

section \<open>The allocator\<close>

definition MEMMAP_USABLE :: nat where
  "MEMMAP_USABLE = 0"

record memmap_entry =
  base :: nat
  entry_length :: nat
  entry_type :: nat

record frame_allocator =
  memory_map :: "memmap_entry list"
  curr_region_index :: nat
  frame_offset_in_region :: nat
  free_list :: "nat list"

definition frame_allocator_init :: "memmap_entry list \<Rightarrow> frame_allocator" where
  "frame_allocator_init mm =
     \<lparr>memory_map = mm, curr_region_index = 0, frame_offset_in_region = 0, free_list = []\<rparr>"

definition deallocate_frame :: "nat \<Rightarrow> (frame_allocator, 'e, unit) call" where
  "deallocate_frame frame = (\<lambda>fa.
     if frame mod PAGE_SIZE = 0 then (Ok (), fa\<lparr>free_list := free_list fa @ [frame]\<rparr>)
     else (Panic, fa))"

definition next_region :: "frame_allocator \<Rightarrow> frame_allocator" where
  "next_region fa =
     fa\<lparr>curr_region_index := curr_region_index fa + 1, frame_offset_in_region := 0\<rparr>"

text \<open>One pass of the loop body for a usable region: \<open>None\<close> sends the loop to the next region.\<close>

definition frame_in_region :: "memmap_entry \<Rightarrow> nat \<Rightarrow> ('e, nat option) outcome" where
  "frame_in_region region offset =
     and_then (align_up (base region) PAGE_SIZE) (\<lambda>start.
       let end1 = base region + entry_length region; addr = start + offset in
       if 2 ^ 64 \<le> end1 \<or> 2 ^ 64 \<le> addr + PAGE_SIZE then Panic
       else if addr + PAGE_SIZE \<le> end1 then
         (if phys_addr_ok addr then Ok (Some (containing_address addr)) else Panic)
       else Ok None)"

function allocate_loop :: "(frame_allocator, 'e, nat option) call" where
  "allocate_loop fa =
     (if length (memory_map fa) \<le> curr_region_index fa then (Ok None, fa)
      else
        let region = memory_map fa ! curr_region_index fa in
        if entry_type region \<noteq> MEMMAP_USABLE then allocate_loop (next_region fa)
        else
          (case frame_in_region region (frame_offset_in_region fa) of
             Ok (Some frame) \<Rightarrow>
               (Ok (Some frame),
                fa\<lparr>frame_offset_in_region := frame_offset_in_region fa + PAGE_SIZE\<rparr>)
           | Ok None \<Rightarrow> allocate_loop (next_region fa)
           | Err e \<Rightarrow> (Err e, fa)
           | Panic \<Rightarrow> (Panic, fa)
           | Diverge \<Rightarrow> (Diverge, fa)))"
  by pat_completeness auto
termination
  by (relation "measure (\<lambda>fa. length (memory_map fa) - curr_region_index fa)")
    (auto simp: next_region_def)

declare allocate_loop.simps [simp del]

definition allocate_frame :: "(frame_allocator, 'e, nat option) call" where
  "allocate_frame fa =
     (if free_list fa \<noteq> [] then
        (Ok (Some (last (free_list fa))), fa\<lparr>free_list := butlast (free_list fa)\<rparr>)
      else allocate_loop fa)"

text \<open>\<open>windows(2).any(|pair| pair[0] == pair[1])\<close> on the sorted addresses.\<close>

fun equal_neighbours :: "nat list \<Rightarrow> bool" where
  "equal_neighbours (x # y # zs) = (x = y \<or> equal_neighbours (y # zs))"
| "equal_neighbours zs = False"

definition free_list_has_duplicates :: "frame_allocator \<Rightarrow> bool" where
  "free_list_has_duplicates fa = equal_neighbours (sort (free_list fa))"

definition free_frame_count :: "frame_allocator \<Rightarrow> nat" where
  "free_frame_count fa = length (free_list fa)"

text \<open>
  The frames of one finished region in \<open>allocated_bump_frames\<close>, and the loop over the regions
  before the current one. The test \<open>idx == curr_region_index\<close> inside the loop never holds, as the
  loop stops before that index.
\<close>

definition region_frame_count :: "memmap_entry \<Rightarrow> ('e, nat) outcome" where
  "region_frame_count region =
     (if entry_type region = MEMMAP_USABLE then
        and_then (align_up (base region) PAGE_SIZE) (\<lambda>start.
          let end1 = base region + entry_length region in
          if 2 ^ 64 \<le> end1 then Panic
          else if start < end1 then Ok ((end1 - start) div PAGE_SIZE)
          else Ok 0)
      else Ok 0)"

primrec bump_count_loop :: "memmap_entry list \<Rightarrow> nat \<Rightarrow> ('e, nat) outcome" where
  "bump_count_loop [] frames = Ok frames"
| "bump_count_loop (region # rest) frames =
     and_then (region_frame_count region) (\<lambda>n. bump_count_loop rest (frames + n))"

definition allocated_bump_frames :: "frame_allocator \<Rightarrow> ('e, nat) outcome" where
  "allocated_bump_frames fa =
     (if length (memory_map fa) < curr_region_index fa then Panic
      else and_then (bump_count_loop (take (curr_region_index fa) (memory_map fa)) 0) (\<lambda>before.
        let here =
          (if curr_region_index fa < length (memory_map fa)
              \<and> entry_type (memory_map fa ! curr_region_index fa) = MEMMAP_USABLE
           then frame_offset_in_region fa div PAGE_SIZE else 0);
          frames = before + here in
        Ok (if length (free_list fa) \<le> frames then frames - length (free_list fa) else 0)))"

section \<open>What the memory map offers\<close>

text \<open>
  The frames of an entry are the whole aligned pages inside it. A memory map is as the boot
  protocol promises it when its usable entries lie in physical memory and do not overlap.
\<close>

definition round_up :: "nat \<Rightarrow> nat" where
  "round_up x = (x + 4095) div 4096 * 4096"

definition entry_frames :: "memmap_entry \<Rightarrow> nat list" where
  "entry_frames e =
     (if entry_type e = MEMMAP_USABLE then
        map (\<lambda>k. round_up (base e) + k * 4096)
          [0..<(base e + entry_length e - round_up (base e)) div 4096]
      else [])"

definition usable_frames :: "memmap_entry list \<Rightarrow> nat list" where
  "usable_frames mm = concat (map entry_frames mm)"

definition entry_ok :: "memmap_entry \<Rightarrow> bool" where
  "entry_ok e \<longleftrightarrow> (entry_type e = MEMMAP_USABLE \<longrightarrow> base e + entry_length e \<le> 2 ^ 52)"

definition entries_apart :: "memmap_entry \<Rightarrow> memmap_entry \<Rightarrow> bool" where
  "entries_apart a b \<longleftrightarrow>
     (entry_type a = MEMMAP_USABLE \<longrightarrow> entry_type b = MEMMAP_USABLE \<longrightarrow>
        base a + entry_length a \<le> base b \<or> base b + entry_length b \<le> base a)"

definition memory_map_ok :: "memmap_entry list \<Rightarrow> bool" where
  "memory_map_ok mm \<longleftrightarrow> list_all entry_ok mm \<and> sorted_wrt entries_apart mm"

text \<open>The frames the bump pointer has not reached, and those it has passed.\<close>

definition pending :: "frame_allocator \<Rightarrow> nat list" where
  "pending fa =
     (if curr_region_index fa < length (memory_map fa) then
        drop (frame_offset_in_region fa div 4096)
          (entry_frames (memory_map fa ! curr_region_index fa))
        @ usable_frames (drop (Suc (curr_region_index fa)) (memory_map fa))
      else [])"

definition allocator_ok :: "frame_allocator \<Rightarrow> bool" where
  "allocator_ok fa \<longleftrightarrow>
     list_all entry_ok (memory_map fa)
     \<and> curr_region_index fa \<le> length (memory_map fa)
     \<and> frame_offset_in_region fa mod 4096 = 0
     \<and> (if curr_region_index fa < length (memory_map fa)
        then frame_offset_in_region fa div 4096
               \<le> length (entry_frames (memory_map fa ! curr_region_index fa))
        else frame_offset_in_region fa = 0)
     \<and> list_all (\<lambda>f. f mod 4096 = 0) (free_list fa)"

section \<open>Alignment on 64 bits\<close>

lemma and_page_mask:
  assumes "(x :: nat) < 2 ^ 64"
  shows "x AND 0xFFFFFFFFFFFFF000 = x div 4096 * 4096"
proof -
  have m: "(0xFFFFFFFFFFFFF000 :: nat) = push_bit 12 (mask 52)"
    by (simp add: push_bit_eq_mult mask_eq_exp_minus_1)
  have x: "x = take_bit 64 x" using assms by (simp add: take_bit_nat_eq_self)
  have b: "n < 64" if "bit x n" for n
    using that by (subst (asm) x) (simp add: bit_take_bit_iff)
  have "x AND push_bit 12 (mask 52) = push_bit 12 (drop_bit 12 x)"
    by (rule bit_eqI) (auto simp: bit_simps dest: b)
  then show ?thesis
    unfolding m by (simp add: push_bit_eq_mult drop_bit_eq_div)
qed

lemma align_down_page: "x < 2 ^ 64 \<Longrightarrow> align_down x PAGE_SIZE = x div 4096 * 4096"
  using and_page_mask [of x] by (simp add: align_down_def PAGE_SIZE_def)

lemma align_up_page: "x + 4095 < 2 ^ 64 \<Longrightarrow> align_up x PAGE_SIZE = Ok (round_up x)"
  using and_page_mask [of "x + 4095"]
  by (simp add: align_up_def PAGE_SIZE_def round_up_def add.commute)

lemma align_up_page_overflow: "2 ^ 64 \<le> x + 4095 \<Longrightarrow> align_up x PAGE_SIZE = Panic"
  by (simp add: align_up_def PAGE_SIZE_def)

lemma round_up_bounds: "x \<le> round_up x" "round_up x < x + 4096" "round_up x mod 4096 = 0"
proof -
  have "(x + 4095) div 4096 * 4096 + (x + 4095) mod 4096 = x + 4095" by simp
  moreover have "(x + 4095) mod 4096 < 4096" by simp
  ultimately show "x \<le> round_up x" "round_up x < x + 4096"
    unfolding round_up_def by linarith+
qed (simp add: round_up_def)

lemma round_up_aligned: "x mod 4096 = 0 \<Longrightarrow> round_up x = x"
proof -
  assume "x mod 4096 = 0"
  then obtain k where "x = 4096 * k" by auto
  then show ?thesis by (simp add: round_up_def)
qed

section \<open>Refinement of the bump pointer\<close>

lemma length_entry_frames:
  "entry_type e = MEMMAP_USABLE \<Longrightarrow>
   length (entry_frames e) = (base e + entry_length e - round_up (base e)) div 4096"
  by (simp add: entry_frames_def)

lemma entry_frames_unusable: "entry_type e \<noteq> MEMMAP_USABLE \<Longrightarrow> entry_frames e = []"
  by (simp add: entry_frames_def)

lemma nth_entry_frames:
  "k < length (entry_frames e) \<Longrightarrow> entry_frames e ! k = round_up (base e) + k * 4096"
  by (auto simp: entry_frames_def split: if_splits)

lemma frame_in_region_eq:
  assumes "entry_ok e" "entry_type e = MEMMAP_USABLE" "k \<le> length (entry_frames e)"
  shows "frame_in_region e (k * 4096) =
    Ok (if k < length (entry_frames e) then Some (entry_frames e ! k) else None)"
proof -
  let ?s = "round_up (base e)" and ?e = "base e + entry_length e"
  have e: "?e \<le> 2 ^ 52" using assms(1,2) by (simp add: entry_ok_def)
  then have lt: "base e + 4095 < 2 ^ 64" by simp
  have s: "?s < 2 ^ 52 + 4096" using round_up_bounds(2) [of "base e"] e by simp
  have L: "length (entry_frames e) = (?e - ?s) div 4096" by (rule length_entry_frames [OF assms(2)])
  then have k: "k * 4096 \<le> ?e - ?s" using assms(3) by (simp add: less_eq_div_iff_mult_less_eq)
  show ?thesis
  proof (cases "k < length (entry_frames e)")
    case True
    then have "Suc k * 4096 \<le> ?e - ?s" unfolding L by (simp add: less_eq_div_iff_mult_less_eq Suc_le_eq [symmetric] del: mult_Suc)
    then have le: "?s + k * 4096 + 4096 \<le> ?e" by simp
    have "(?s + k * 4096) mod 4096 = 0" using round_up_bounds(3) [of "base e"] by simp
    then have "containing_address (?s + k * 4096) = ?s + k * 4096"
      using le e by (simp add: containing_address_def align_down_page) (metis mod_eq_0_iff_dvd dvd_div_mult_self)
    with True le e show ?thesis
      unfolding frame_in_region_def align_up_page [OF lt] and_then.simps
      by (simp add: PAGE_SIZE_def nth_entry_frames phys_addr_ok_def Let_def)
  next
    case False
    then have "k = (?e - ?s) div 4096" using assms(3) L by simp
    then have "?e - ?s < k * 4096 + 4096"
      using div_mult_mod_eq [of "?e - ?s" 4096] mod_less_divisor [of 4096 "?e - ?s"] by linarith
    then have "\<not> ?s + k * 4096 + 4096 \<le> ?e" by linarith
    moreover have "?s + k * 4096 + 4096 < 2 ^ 64" using k e s by simp
    ultimately show ?thesis using e False
      unfolding frame_in_region_def align_up_page [OF lt] and_then.simps
      by (simp add: PAGE_SIZE_def Let_def)
  qed
qed

lemma offset_in_pages: "allocator_ok fa \<Longrightarrow>
  frame_offset_in_region fa = frame_offset_in_region fa div 4096 * 4096"
  by (simp add: allocator_ok_def) (metis mod_eq_0_iff_dvd dvd_div_mult_self)

lemma allocator_ok_next_region:
  assumes "allocator_ok fa" "curr_region_index fa < length (memory_map fa)"
  shows "allocator_ok (next_region fa)"
  using assms by (auto simp: allocator_ok_def next_region_def)

lemma pending_next_region:
  assumes "curr_region_index fa < length (memory_map fa)"
    and "length (entry_frames (memory_map fa ! curr_region_index fa))
           \<le> frame_offset_in_region fa div 4096"
  shows "pending (next_region fa) = pending fa"
proof (cases "Suc (curr_region_index fa) < length (memory_map fa)")
  case True
  then show ?thesis using assms
    by (simp add: pending_def next_region_def usable_frames_def Cons_nth_drop_Suc [symmetric])
next
  case False
  then show ?thesis using assms by (simp add: pending_def next_region_def usable_frames_def)
qed

definition hd_opt :: "'a list \<Rightarrow> 'a option" where
  "hd_opt xs = (case xs of [] \<Rightarrow> None | x # _ \<Rightarrow> Some x)"

lemma hd_opt_simps [simp]: "hd_opt [] = None" "hd_opt (x # xs) = Some x"
  by (simp_all add: hd_opt_def)

definition bumped :: "frame_allocator \<Rightarrow> frame_allocator \<Rightarrow> bool" where
  "bumped fa fa' \<longleftrightarrow> allocator_ok fa' \<and> pending fa' = tl (pending fa)
     \<and> memory_map fa' = memory_map fa \<and> free_list fa' = free_list fa"

lemma bump_in_region:
  assumes ok: "allocator_ok fa" and i: "curr_region_index fa < length (memory_map fa)"
    and k: "frame_offset_in_region fa div 4096
              < length (entry_frames (memory_map fa ! curr_region_index fa))"
  shows "hd_opt (pending fa) =
      Some (entry_frames (memory_map fa ! curr_region_index fa) ! (frame_offset_in_region fa div 4096))"
    and "bumped fa (fa\<lparr>frame_offset_in_region := frame_offset_in_region fa + PAGE_SIZE\<rparr>)"
proof -
  let ?fs = "entry_frames (memory_map fa ! curr_region_index fa)"
    and ?k = "frame_offset_in_region fa div 4096"
  have "drop ?k ?fs = ?fs ! ?k # drop (Suc ?k) ?fs" using k by (simp add: Cons_nth_drop_Suc)
  with i ok k show "hd_opt (pending fa) = Some (?fs ! ?k)"
    and "bumped fa (fa\<lparr>frame_offset_in_region := frame_offset_in_region fa + PAGE_SIZE\<rparr>)"
    by (auto simp: pending_def bumped_def allocator_ok_def PAGE_SIZE_def)
qed

lemma allocate_loop_eq:
  "allocator_ok fa \<Longrightarrow>
   \<exists>fa'. allocate_loop fa = (Ok (hd_opt (pending fa)) :: ('e, nat option) outcome, fa')
     \<and> bumped fa fa'"
proof (induction "length (memory_map fa) - curr_region_index fa" arbitrary: fa rule: less_induct)
  case less
  let ?i = "curr_region_index fa" and ?k = "frame_offset_in_region fa div 4096"
  let ?r = "memory_map fa ! ?i"
  show ?case
  proof (cases "?i < length (memory_map fa)")
    case False
    then show ?thesis using less.prems
      by (simp add: allocate_loop.simps pending_def bumped_def)
  next
    case i: True
    have b: "bumped (next_region fa) = bumped fa" if "length (entry_frames ?r) \<le> ?k"
      using pending_next_region [OF i that]
      by (intro ext, simp add: bumped_def) (simp add: next_region_def)
    have skip: "\<exists>fa'. allocate_loop (next_region fa)
        = (Ok (hd_opt (pending fa)) :: ('e, nat option) outcome, fa') \<and> bumped fa fa'"
      if "length (entry_frames ?r) \<le> ?k"
    proof -
      have "length (memory_map (next_region fa)) - curr_region_index (next_region fa)
          < length (memory_map fa) - ?i"
        using i by (simp add: next_region_def)
      from less.hyps [OF this allocator_ok_next_region [OF less.prems i]] show ?thesis
        by (simp add: b [OF that] pending_next_region [OF i that])
    qed
    have len: "?k \<le> length (entry_frames ?r)" using less.prems i by (simp add: allocator_ok_def)
    show ?thesis
    proof (cases "entry_type ?r = MEMMAP_USABLE")
      case False
      with skip len i show ?thesis
        by (simp add: allocate_loop.simps [of fa] entry_frames_unusable)
    next
      case True
      have "entry_ok ?r" using less.prems i by (simp add: allocator_ok_def list_all_length)
      from frame_in_region_eq [OF this True len]
      have r: "frame_in_region ?r (frame_offset_in_region fa) =
          (Ok (if ?k < length (entry_frames ?r) then Some (entry_frames ?r ! ?k) else None)
            :: ('e, nat option) outcome)"
        using offset_in_pages [OF less.prems] by simp
      show ?thesis
      proof (cases "?k < length (entry_frames ?r)")
        case k: True
        from bump_in_region [OF less.prems i k] show ?thesis
          using i True r k by (simp add: allocate_loop.simps [of fa])
      next
        case False
        with skip show ?thesis using i True r by (simp add: allocate_loop.simps [of fa])
      qed
    qed
  qed
qed

text \<open>The whole operation: the last returned frame first, then the next frame of the map.\<close>

lemma allocate_frame_eq:
  assumes "allocator_ok fa"
  shows "\<exists>fa'. allocate_frame fa =
      (Ok (hd_opt (rev (free_list fa) @ pending fa)) :: ('e, nat option) outcome, fa')
    \<and> allocator_ok fa' \<and> memory_map fa' = memory_map fa
    \<and> rev (free_list fa') @ pending fa' = tl (rev (free_list fa) @ pending fa)"
proof (cases "free_list fa" rule: rev_cases)
  case Nil
  with allocate_loop_eq [OF assms] show ?thesis by (fastforce simp: allocate_frame_def bumped_def)
next
  case (snoc fs f)
  then show ?thesis using assms by (auto simp: allocate_frame_def allocator_ok_def pending_def)
qed

lemma deallocate_frame_eq:
  assumes "allocator_ok fa" "frame mod 4096 = 0"
  shows "\<exists>fa'. deallocate_frame frame fa = (Ok () :: ('e, unit) outcome, fa')
    \<and> allocator_ok fa' \<and> memory_map fa' = memory_map fa
    \<and> rev (free_list fa') @ pending fa' = frame # rev (free_list fa) @ pending fa"
  using assms by (auto simp: deallocate_frame_def allocator_ok_def pending_def PAGE_SIZE_def)

section \<open>Holders of frames\<close>

text \<open>
  The states a kernel reaches that gives back only frames it holds: the allocator and the frames
  held.
\<close>

inductive frames_run :: "memmap_entry list \<Rightarrow> frame_allocator \<Rightarrow> nat list \<Rightarrow> bool"
  for mm where
  run_init: "frames_run mm (frame_allocator_init mm) []"
| run_alloc: "frames_run mm fa held \<Longrightarrow>
    allocate_frame fa = (Ok (Some f) :: (unit, nat option) outcome, fa') \<Longrightarrow>
    frames_run mm fa' (f # held)"
| run_out: "frames_run mm fa held \<Longrightarrow>
    allocate_frame fa = (Ok None :: (unit, nat option) outcome, fa') \<Longrightarrow>
    frames_run mm fa' held"
| run_free: "frames_run mm fa held \<Longrightarrow> f \<in> set held \<Longrightarrow>
    deallocate_frame f fa = (Ok () :: (unit, unit) outcome, fa') \<Longrightarrow>
    frames_run mm fa' (remove1 f held)"

lemma pending_init: "pending (frame_allocator_init mm) = usable_frames mm"
proof (cases mm)
  case (Cons e es)
  then show ?thesis by (simp add: pending_def frame_allocator_init_def usable_frames_def)
qed (simp add: pending_def frame_allocator_init_def usable_frames_def)

lemma entry_frames_bounds:
  "f \<in> set (entry_frames e) \<Longrightarrow> entry_type e = MEMMAP_USABLE \<and> f mod 4096 = 0 \<and> base e \<le> f
     \<and> f + 4096 \<le> base e + entry_length e"
proof -
  assume f: "f \<in> set (entry_frames e)"
  then have u: "entry_type e = MEMMAP_USABLE" by (simp add: entry_frames_def split: if_splits)
  from f obtain k where k: "k < length (entry_frames e)" "f = round_up (base e) + k * 4096"
    by (metis in_set_conv_nth nth_entry_frames)
  then have "Suc k * 4096 \<le> base e + entry_length e - round_up (base e)"
    unfolding length_entry_frames [OF u]
    by (simp add: less_eq_div_iff_mult_less_eq Suc_le_eq [symmetric] del: mult_Suc)
  with k(2) u round_up_bounds(1,3) [of "base e"] show ?thesis by simp
qed

lemma usable_frame_region:
  "f \<in> set (usable_frames mm) \<Longrightarrow> \<exists>e \<in> set mm. entry_type e = MEMMAP_USABLE \<and> f mod 4096 = 0
     \<and> base e \<le> f \<and> f + 4096 \<le> base e + entry_length e"
  using entry_frames_bounds by (fastforce simp: usable_frames_def)

lemma distinct_entry_frames: "distinct (entry_frames e)"
  by (auto simp: entry_frames_def distinct_map inj_on_def)

lemma distinct_usable_frames: "memory_map_ok mm \<Longrightarrow> distinct (usable_frames mm)"
proof (induction mm)
  case (Cons e es)
  have "set (entry_frames e) \<inter> set (usable_frames es) = {}"
  proof (intro equals0I, elim IntE)
    fix f assume e: "f \<in> set (entry_frames e)" and "f \<in> set (usable_frames es)"
    from usable_frame_region [OF this(2)] entry_frames_bounds [OF e] Cons.prems
    show False by (force simp: memory_map_ok_def entries_apart_def)
  qed
  with Cons distinct_entry_frames show ?case by (simp add: usable_frames_def memory_map_ok_def)
qed (simp add: usable_frames_def)

lemma hd_opt_None [simp]: "hd_opt xs = None \<longleftrightarrow> xs = []"
  by (cases xs) simp_all

lemma hd_opt_tl: "hd_opt xs = Some x \<Longrightarrow> xs = x # tl xs"
  "hd_opt xs = None \<Longrightarrow> xs = []"
  by (cases xs; simp)+

lemma frames_run_inv:
  assumes "frames_run mm fa held" "memory_map_ok mm"
  shows "allocator_ok fa \<and> memory_map fa = mm
    \<and> mset held + mset (rev (free_list fa) @ pending fa) = mset (usable_frames mm)"
  using assms
proof (induction rule: frames_run.induct)
  case run_init
  then show ?case
    by (simp add: pending_init)
      (simp add: allocator_ok_def frame_allocator_init_def memory_map_ok_def)
next
  case (run_alloc fa held f fa')
  from allocate_frame_eq [of fa, where 'e = unit] run_alloc
  have "allocator_ok fa'" "memory_map fa' = mm"
    "hd_opt (rev (free_list fa) @ pending fa) = Some f"
    "rev (free_list fa') @ pending fa' = tl (rev (free_list fa) @ pending fa)" by auto
  with run_alloc hd_opt_tl(1) show ?case by (metis mset.simps(2) union_mset_add_mset_left union_mset_add_mset_right)
next
  case (run_out fa held fa')
  from allocate_frame_eq [of fa, where 'e = unit] run_out
  have "allocator_ok fa'" "memory_map fa' = mm"
    "hd_opt (rev (free_list fa) @ pending fa) = None"
    "rev (free_list fa') @ pending fa' = tl (rev (free_list fa) @ pending fa)" by auto
  with run_out hd_opt_tl(2) show ?case by (metis list.sel(2))
next
  case (run_free fa held f fa')
  then have f: "f \<in> set (usable_frames mm)" by (metis mset_eq_setD set_mset_mset union_iff)
  with usable_frame_region have "f mod 4096 = 0" by blast
  from deallocate_frame_eq [of fa f, where 'e = unit, OF _ this] run_free
  have "allocator_ok fa'" "memory_map fa' = mm"
    "rev (free_list fa') @ pending fa' = f # rev (free_list fa) @ pending fa" by auto
  with run_free f show ?case by (simp add: insert_DiffM)
qed

section \<open>Counting\<close>

lemma region_frame_count_eq:
  assumes "entry_ok e"
  shows "region_frame_count e = Ok (length (entry_frames e))"
proof (cases "entry_type e = MEMMAP_USABLE")
  case True
  then have e: "base e + entry_length e \<le> 2 ^ 52" using assms by (simp add: entry_ok_def)
  then have lt: "base e + 4095 < 2 ^ 64" by simp
  show ?thesis using e True
    unfolding region_frame_count_def align_up_page [OF lt] and_then.simps length_entry_frames [OF True]
    by (simp add: PAGE_SIZE_def Let_def)
qed (simp add: region_frame_count_def entry_frames_unusable)

lemma bump_count_loop_eq:
  "list_all entry_ok mm \<Longrightarrow> bump_count_loop mm n = Ok (n + length (usable_frames mm))"
  by (induction mm arbitrary: n) (simp_all add: region_frame_count_eq usable_frames_def)

lemma usable_frames_split:
  assumes "i < length mm"
  shows "usable_frames mm = usable_frames (take i mm) @ entry_frames (mm ! i) @ usable_frames (drop (Suc i) mm)"
proof -
  have "mm = take i mm @ mm ! i # drop (Suc i) mm" using assms by (rule id_take_nth_drop)
  then have "usable_frames mm = usable_frames (take i mm @ mm ! i # drop (Suc i) mm)" by simp
  then show ?thesis by (simp add: usable_frames_def)
qed

lemma allocated_bump_frames_eq:
  assumes "allocator_ok fa"
    and "length (usable_frames (memory_map fa))
      = n + length (free_list fa) + length (pending fa)"
  shows "allocated_bump_frames fa = Ok n"
proof -
  let ?i = "curr_region_index fa" and ?mm = "memory_map fa"
  have le: "?i \<le> length ?mm" and ok: "list_all entry_ok (take ?i ?mm)"
    using assms(1) by (auto simp: allocator_ok_def list_all_iff dest: in_set_takeD)
  show ?thesis
  proof (cases "?i < length ?mm")
    case True
    then show ?thesis using assms usable_frames_split [OF True] le
      by (cases "entry_type (?mm ! ?i) = MEMMAP_USABLE")
        (auto simp: allocated_bump_frames_def bump_count_loop_eq [OF ok] pending_def
           allocator_ok_def PAGE_SIZE_def entry_frames_unusable Let_def)
  next
    case False
    then have "list_all entry_ok ?mm" using ok by simp
    with False show ?thesis using assms le
      by (simp add: allocated_bump_frames_def bump_count_loop_eq pending_def Let_def)
  qed
qed

lemma equal_neighbours_sorted: "sorted xs \<Longrightarrow> equal_neighbours xs \<longleftrightarrow> \<not> distinct xs"
  by (induction xs rule: equal_neighbours.induct) auto

lemma free_list_has_duplicates_iff: "free_list_has_duplicates fa \<longleftrightarrow> \<not> distinct (free_list fa)"
  by (simp add: free_list_has_duplicates_def equal_neighbours_sorted)

section \<open>Properties\<close>

text \<open>C10: whatever the order of allocations and of returns of held frames, no frame has two
  holders: the frames held are pairwise distinct, none of them is on the free list, each is a
  whole aligned page inside a usable entry of the memory map, the free list holds no duplicate,
  and the allocator never panics on the next request, nor on the return of a held frame.\<close>

theorem frame_exclusive:
  assumes "frames_run mm fa held" and "memory_map_ok mm"
  shows "distinct held \<and> set held \<inter> set (free_list fa) = {}
    \<and> (\<forall>f \<in> set held. \<exists>e \<in> set mm. entry_type e = MEMMAP_USABLE \<and> f mod 4096 = 0
          \<and> base e \<le> f \<and> f + 4096 \<le> base e + entry_length e)
    \<and> \<not> free_list_has_duplicates fa
    \<and> returns (fst (allocate_frame fa :: (unit, nat option) outcome \<times> frame_allocator))
    \<and> (\<forall>f \<in> set held. fst (deallocate_frame f fa) = (Ok () :: (unit, unit) outcome))"
proof -
  from frames_run_inv [OF assms] have ok: "allocator_ok fa"
    and m: "mset (held @ free_list fa @ pending fa) = mset (usable_frames mm)" by auto
  have "distinct (held @ free_list fa @ pending fa)"
    using m distinct_usable_frames [OF assms(2)] by (metis mset_eq_imp_distinct_iff)
  moreover have h: "\<exists>e \<in> set mm. entry_type e = MEMMAP_USABLE \<and> f mod 4096 = 0
      \<and> base e \<le> f \<and> f + 4096 \<le> base e + entry_length e" if "f \<in> set held" for f
    using that m by (intro usable_frame_region) (metis UnCI mset_eq_setD set_append)
  moreover have "returns (fst (allocate_frame fa :: (unit, nat option) outcome \<times> frame_allocator))"
    using allocate_frame_eq [OF ok, where 'e = unit] by auto
  moreover have "fst (deallocate_frame f fa) = (Ok () :: (unit, unit) outcome)"
    if "f \<in> set held" for f
    using h [OF that] by (auto simp: deallocate_frame_def PAGE_SIZE_def)
  ultimately show ?thesis by (auto simp: free_list_has_duplicates_iff)
qed

text \<open>
  A map with a usable entry of one whole page, a reserved one and another usable one: two frames
  are taken, the first is given back.
\<close>

definition sample_map :: "memmap_entry list" where
  "sample_map = [\<lparr>base = 4097, entry_length = 12000, entry_type = 0\<rparr>,
     \<lparr>base = 20480, entry_length = 8192, entry_type = 1\<rparr>,
     \<lparr>base = 65536, entry_length = 4096, entry_type = 0\<rparr>]"

definition sample_allocator :: frame_allocator where
  "sample_allocator = \<lparr>memory_map = sample_map, curr_region_index = 2,
     frame_offset_in_region = 4096, free_list = [8192]\<rparr>"

lemma sample_map_ok: "memory_map_ok sample_map"
  by (simp add: memory_map_ok_def sample_map_def entry_ok_def entries_apart_def MEMMAP_USABLE_def)

lemma sample_run: "frames_run sample_map sample_allocator [65536]"
proof -
  let ?b = "\<lparr>memory_map = sample_map, curr_region_index = 2,
     frame_offset_in_region = 4096, free_list = []\<rparr>"
  let ?a = "\<lparr>memory_map = sample_map, curr_region_index = 0,
     frame_offset_in_region = 4096, free_list = []\<rparr>"
  note eval = allocate_frame_def allocate_loop.simps frame_allocator_init_def next_region_def
    frame_in_region_def align_up_page round_up_def containing_address_def align_down_page
    phys_addr_ok_def MEMMAP_USABLE_def sample_map_def
  have a: "allocate_frame (frame_allocator_init sample_map)
      = (Ok (Some 8192) :: (unit, nat option) outcome, ?a)"
    by (simp add: eval) (simp add: PAGE_SIZE_def)
  have b: "allocate_frame ?a = (Ok (Some 65536) :: (unit, nat option) outcome, ?b)"
    by (simp add: eval) (simp add: PAGE_SIZE_def)
  have c: "deallocate_frame 8192 ?b = (Ok () :: (unit, unit) outcome, sample_allocator)"
    by (simp add: deallocate_frame_def PAGE_SIZE_def sample_allocator_def)
  from run_alloc [OF run_alloc [OF run_init a] b] have "frames_run sample_map ?b [65536, 8192]" .
  from run_free [OF this _ c] show ?thesis by simp
qed

theorem frame_exclusive_witness:
  "frames_run sample_map sample_allocator [65536] \<and> memory_map_ok sample_map
   \<and> set [65536] \<inter> set (free_list sample_allocator) = {}
   \<and> \<not> free_list_has_duplicates sample_allocator"
  using frame_exclusive [OF sample_run sample_map_ok] sample_run sample_map_ok by blast

text \<open>No usable memory is lost. A request is refused only when every whole page of the usable
  entries is held, and the counter reported for tests is exactly the number of frames held.\<close>

theorem frame_complete:
  assumes "frames_run mm fa held" and "memory_map_ok mm"
  shows "(fst (allocate_frame fa) = (Ok None :: (unit, nat option) outcome)
            \<longleftrightarrow> mset held = mset (usable_frames mm))
    \<and> (allocated_bump_frames fa :: (unit, nat) outcome) = Ok (length held)"
proof
  from frames_run_inv [OF assms] have ok: "allocator_ok fa" and mm: "memory_map fa = mm"
    and m: "mset held + mset (rev (free_list fa) @ pending fa) = mset (usable_frames mm)" by auto
  have "fst (allocate_frame fa) = (Ok None :: (unit, nat option) outcome)
      \<longleftrightarrow> rev (free_list fa) @ pending fa = []"
    using allocate_frame_eq [OF ok, where 'e = unit] by auto
  with m show "fst (allocate_frame fa) = (Ok None :: (unit, nat option) outcome)
      \<longleftrightarrow> mset held = mset (usable_frames mm)"
    by (metis add_cancel_right_right mset_zero_iff)
  have "length (usable_frames mm) = length held + length (free_list fa) + length (pending fa)"
    using arg_cong [OF m, of size] by simp
  then show "(allocated_bump_frames fa :: (unit, nat) outcome) = Ok (length held)"
    using allocated_bump_frames_eq [OF ok] mm by simp
qed

theorem frame_complete_witness:
  "frames_run sample_map sample_allocator [65536] \<and> memory_map_ok sample_map
   \<and> (allocated_bump_frames sample_allocator :: (unit, nat) outcome) = Ok (length [65536 :: nat])"
  using frame_complete [OF sample_run sample_map_ok] sample_run sample_map_ok by blast

end
