(* ===== verification/User_Mem.thy ===== *)
theory User_Mem
  imports Frame_Alloc
begin

text \<open>
  Address spaces of user processes (\<open>memory/usermem.rs\<close>) and the mapping of the ACPI tables
  (\<open>memory/memory.rs\<close>). Physical memory is a function from the address of a 64-bit word to its
  value; the higher-half direct map makes every physical address readable at a fixed offset, so
  an access through it is an access of physical memory once the virtual address is canonical.
  The mapper of the \<open>x86_64\<close> crate (\<open>OffsetPageTable\<close>) is not part of the repository: its three
  operations are a parameter of every definition that calls them. TLB flushes have no effect on
  the model.
\<close>

section \<open>The machine and the mapper\<close>

type_synonym phys_mem = "nat \<Rightarrow> u64"

record machine =
  mem :: phys_mem
  frames :: frame_allocator

datatype map_to_error = FrameAllocationFailed | ParentEntryHugePage | PageAlreadyMapped nat

record mapper_ops =
  map_to :: "nat \<Rightarrow> nat \<Rightarrow> nat \<Rightarrow> u64 \<Rightarrow> (machine, map_to_error, unit) call"
  unmap :: "nat \<Rightarrow> nat \<Rightarrow> (machine, unit, nat) call"
  update_flags :: "nat \<Rightarrow> nat \<Rightarrow> u64 \<Rightarrow> (machine, unit, unit) call"

definition PRESENT :: u64 where "PRESENT = 0x1"
definition WRITABLE :: u64 where "WRITABLE = 0x2"
definition USER_ACCESSIBLE :: u64 where "USER_ACCESSIBLE = 0x4"
definition NO_CACHE :: u64 where "NO_CACHE = 0x10"
definition HUGE_PAGE :: u64 where "HUGE_PAGE = 0x80"
definition NO_EXECUTE :: u64 where "NO_EXECUTE = 0x8000000000000000"

definition contains_flag :: "u64 \<Rightarrow> u64 \<Rightarrow> bool" where
  "contains_flag flags f \<longleftrightarrow> flags AND f = f"

text \<open>\<open>PageTableEntry\<close>: bits 12 to 51 are the frame, all others are flags; zero is unused.\<close>

definition ADDR_MASK :: u64 where "ADDR_MASK = 0x000FFFFFFFFFF000"

definition entry_addr :: "u64 \<Rightarrow> nat" where
  "entry_addr e = unat (e AND ADDR_MASK)"

definition entry_flags :: "u64 \<Rightarrow> u64" where
  "entry_flags e = e AND NOT ADDR_MASK"

definition read_entry :: "phys_mem \<Rightarrow> nat \<Rightarrow> nat \<Rightarrow> u64" where
  "read_entry m table idx = m (table + 8 * idx)"

definition write_entry :: "nat \<Rightarrow> nat \<Rightarrow> u64 \<Rightarrow> phys_mem \<Rightarrow> phys_mem" where
  "write_entry table idx e m = m(table + 8 * idx := e)"

text \<open>Zeroing of the 4096 bytes of a frame.\<close>

definition zero_page :: "nat \<Rightarrow> phys_mem \<Rightarrow> phys_mem" where
  "zero_page frame m = (\<lambda>a. if frame \<le> a \<and> a < frame + PAGE_SIZE then 0 else m a)"

definition lift_frames ::
    "(frame_allocator, 'e, 'a) call \<Rightarrow> (machine, 'e, 'a) call" where
  "lift_frames c = (\<lambda>s. case c (frames s) of (r, fa) \<Rightarrow> (r, s\<lparr>frames := fa\<rparr>))"

definition on_mem :: "(phys_mem \<Rightarrow> phys_mem) \<Rightarrow> (machine, 'e, unit) call" where
  "on_mem f = (\<lambda>s. (Ok (), s\<lparr>mem := f (mem s)\<rparr>))"

section \<open>Mapped regions\<close>

datatype frame_ownership = Owned | Borrowed

record mapped_region =
  start_virt :: nat
  size_bytes :: nat
  page_flags :: u64
  frame_ownership :: frame_ownership

text \<open>\<open>VirtAddr + u64\<close> and \<open>VirtAddr - u64\<close> panic on a non-canonical result.\<close>

definition virt_add :: "nat \<Rightarrow> nat \<Rightarrow> ('s, 'e, nat) call" where
  "virt_add a n = (if virt_addr_ok (a + n) then ret (a + n) else panic)"

definition virt_sub :: "nat \<Rightarrow> nat \<Rightarrow> ('s, 'e, nat) call" where
  "virt_sub a n = (if n \<le> a \<and> virt_addr_ok (a - n) then ret (a - n) else panic)"

text \<open>\<open>Page::range_inclusive\<close> between two page starts.\<close>

definition pages_inclusive :: "nat \<Rightarrow> nat \<Rightarrow> nat list" where
  "pages_inclusive a b =
     (if a \<le> b then map (\<lambda>k. a + k * PAGE_SIZE) [0..<(b - a) div PAGE_SIZE + 1] else [])"

section \<open>The user memory manager\<close>

definition LEVEL_4_KERNEL_ENTRIES_START :: nat where "LEVEL_4_KERNEL_ENTRIES_START = 256"
definition LEVEL_4_KERNEL_ENTRIES_END :: nat where "LEVEL_4_KERNEL_ENTRIES_END = 512"
definition ENTRIES_PER_TABLE :: nat where "ENTRIES_PER_TABLE = 512"
definition HHDM_OFFSET :: nat where "HHDM_OFFSET = 0xFFFF800000000000"

record user_mem_manager =
  kernel_page_table_phys :: nat
  phys_offset :: nat

text \<open>\<open>VirtAddr::new(phys + phys_offset)\<close>, then dereferenced.\<close>

definition direct_map :: "nat \<Rightarrow> nat \<Rightarrow> ('s, 'e, unit) call" where
  "direct_map offset phys =
     check_or_panic (phys + offset < 2 ^ 64 \<and> virt_addr_ok (phys + offset))"

definition zero_frame :: "user_mem_manager \<Rightarrow> nat \<Rightarrow> (machine, 'e, unit) call" where
  "zero_frame umm frame =
     bind (direct_map (phys_offset umm) frame) (\<lambda>_. on_mem (zero_page frame))"

primrec copy_entries :: "nat \<Rightarrow> nat \<Rightarrow> nat list \<Rightarrow> phys_mem \<Rightarrow> phys_mem" where
  "copy_entries dst src [] m = m"
| "copy_entries dst src (i # is) m =
     copy_entries dst src is (write_entry dst i (read_entry m src i) m)"

definition allocate_new_address_space ::
    "user_mem_manager \<Rightarrow> (machine, map_to_error, nat) call" where
  "allocate_new_address_space umm =
     bind (lift_frames allocate_frame) (\<lambda>frame.
       case frame of None \<Rightarrow> fail FrameAllocationFailed
       | Some table \<Rightarrow>
           bind (direct_map (phys_offset umm) table) (\<lambda>_.
           bind (on_mem (zero_page table)) (\<lambda>_.
           bind (direct_map (phys_offset umm) (kernel_page_table_phys umm)) (\<lambda>_.
           bind (on_mem (copy_entries table (kernel_page_table_phys umm)
             [LEVEL_4_KERNEL_ENTRIES_START..<LEVEL_4_KERNEL_ENTRIES_END])) (\<lambda>_.
           bind (direct_map HHDM_OFFSET (kernel_page_table_phys umm)) (\<lambda>_.
             ret table))))))"

text \<open>The page walks of the source. Reading does not change the machine.\<close>

definition table_index :: "nat \<Rightarrow> nat \<Rightarrow> nat" where
  "table_index shift vaddr = drop_bit shift vaddr AND 0x1FF"

definition walk_step ::
    "user_mem_manager \<Rightarrow> nat \<Rightarrow> nat \<Rightarrow> nat \<Rightarrow> (u64 \<Rightarrow> (machine, 'e, 'a) call) \<Rightarrow> 'a \<Rightarrow>
     (machine, 'e, 'a) call" where
  "walk_step umm table shift vaddr k absent =
     bind (direct_map (phys_offset umm) table) (\<lambda>_ s.
       let e = read_entry (mem s) table (table_index shift vaddr) in
       if contains_flag (entry_flags e) PRESENT then k e s else ret absent s)"

definition translate_user_virt_to_phys ::
    "user_mem_manager \<Rightarrow> nat \<Rightarrow> nat \<Rightarrow> (machine, 'e, nat option) call" where
  "translate_user_virt_to_phys umm pml4 vaddr =
     walk_step umm pml4 39 vaddr (\<lambda>e4.
     walk_step umm (entry_addr e4) 30 vaddr (\<lambda>e3.
     walk_step umm (entry_addr e3) 21 vaddr (\<lambda>e2.
       if contains_flag (entry_flags e2) HUGE_PAGE then
         bind (check_or_panic (phys_addr_ok (entry_addr e2 + (vaddr AND 0x1FFFFF)))) (\<lambda>_.
           ret (Some (entry_addr e2 + (vaddr AND 0x1FFFFF))))
       else
         walk_step umm (entry_addr e2) 12 vaddr (\<lambda>e1.
           bind (check_or_panic (phys_addr_ok (entry_addr e1 + (vaddr AND 0xFFF)))) (\<lambda>_.
             ret (Some (entry_addr e1 + (vaddr AND 0xFFF))))) None) None) None) None"

definition get_page_flags ::
    "user_mem_manager \<Rightarrow> nat \<Rightarrow> nat \<Rightarrow> (machine, 'e, u64) call" where
  "get_page_flags umm pml4 page =
     walk_step umm pml4 39 page (\<lambda>e4.
     walk_step umm (entry_addr e4) 30 page (\<lambda>e3.
     walk_step umm (entry_addr e3) 21 page (\<lambda>e2.
       bind (direct_map (phys_offset umm) (entry_addr e2)) (\<lambda>_ s.
         ret (entry_flags (read_entry (mem s) (entry_addr e2) (table_index 12 page))) s)) 0) 0) 0"

text \<open>Unmapping frees a frame only for a region that owns its frames; absent pages are skipped.\<close>

primrec unmap_pages ::
    "mapper_ops \<Rightarrow> nat \<Rightarrow> frame_ownership \<Rightarrow> nat list \<Rightarrow> (machine, 'e, unit) call" where
  "unmap_pages ops pml4 own [] = ret ()"
| "unmap_pages ops pml4 own (page # pages) =
     bind (attempt (unmap ops pml4 page)) (\<lambda>r.
     bind (case r of
         Inr frame \<Rightarrow> if own = Owned then lift_frames (deallocate_frame frame) else ret ()
       | Inl e \<Rightarrow> ret ()) (\<lambda>_.
       unmap_pages ops pml4 own pages))"

definition unmap_user_region ::
    "mapper_ops \<Rightarrow> user_mem_manager \<Rightarrow> nat \<Rightarrow> mapped_region \<Rightarrow> (machine, 'e, unit) call" where
  "unmap_user_region ops umm pml4 region =
     (if size_bytes region = 0 then ret ()
      else
        bind (direct_map (phys_offset umm) pml4) (\<lambda>_.
        bind (virt_add (start_virt region) (size_bytes region)) (\<lambda>e.
        bind (virt_sub e 1) (\<lambda>last_byte.
          unmap_pages ops pml4 (frame_ownership region)
            (pages_inclusive (containing_address (start_virt region))
               (containing_address last_byte))))))"

definition rollback_partial_mapping ::
    "mapper_ops \<Rightarrow> user_mem_manager \<Rightarrow> nat \<Rightarrow> nat \<Rightarrow> nat \<Rightarrow> u64 \<Rightarrow> (machine, 'e, unit) call" where
  "rollback_partial_mapping ops umm pml4 start_page failed_page flags =
     unmap_user_region ops umm pml4
       \<lparr>start_virt = start_page, size_bytes = failed_page - start_page, page_flags = flags,
        frame_ownership = Owned\<rparr>"

text \<open>Flags of a page that two segments share: all permissions of both, no-execute only if both.\<close>

definition merge_page_flags :: "u64 \<Rightarrow> u64 \<Rightarrow> u64" where
  "merge_page_flags existing user =
     (if contains_flag existing NO_EXECUTE \<and> contains_flag user NO_EXECUTE
      then existing OR user
      else (existing OR user) AND NOT NO_EXECUTE)"

primrec map_pages ::
    "mapper_ops \<Rightarrow> user_mem_manager \<Rightarrow> nat \<Rightarrow> nat \<Rightarrow> u64 \<Rightarrow> nat list \<Rightarrow>
     (machine, map_to_error, unit) call" where
  "map_pages ops umm pml4 start_page flags [] = ret ()"
| "map_pages ops umm pml4 start_page flags (page # pages) =
     bind (lift_frames allocate_frame) (\<lambda>frame.
       case frame of
         None \<Rightarrow>
           bind (rollback_partial_mapping ops umm pml4 start_page page flags) (\<lambda>_.
             fail FrameAllocationFailed)
       | Some phys_frame \<Rightarrow>
           bind (zero_frame umm phys_frame) (\<lambda>_.
           bind (attempt (map_to ops pml4 page phys_frame (flags OR USER_ACCESSIBLE))) (\<lambda>r.
             case r of
               Inr _ \<Rightarrow> map_pages ops umm pml4 start_page flags pages
             | Inl (PageAlreadyMapped existing_frame) \<Rightarrow>
                 bind (lift_frames (deallocate_frame phys_frame)) (\<lambda>_.
                 bind (get_page_flags umm pml4 page) (\<lambda>existing.
                 bind (attempt (update_flags ops pml4 page
                     (merge_page_flags existing (flags OR USER_ACCESSIBLE)))) (\<lambda>_.
                   map_pages ops umm pml4 start_page flags pages)))
             | Inl e \<Rightarrow>
                 bind (lift_frames (deallocate_frame phys_frame)) (\<lambda>_.
                 bind (rollback_partial_mapping ops umm pml4 start_page page flags) (\<lambda>_.
                   fail e)))))"

definition map_virt_mem_region ::
    "mapper_ops \<Rightarrow> user_mem_manager \<Rightarrow> nat \<Rightarrow> nat \<Rightarrow> nat \<Rightarrow> u64 \<Rightarrow>
     (machine, map_to_error, unit) call" where
  "map_virt_mem_region ops umm pml4 vaddr nbytes flags =
     bind (direct_map (phys_offset umm) pml4) (\<lambda>_.
     bind (virt_add vaddr nbytes) (\<lambda>e.
     bind (virt_sub e 1) (\<lambda>last_byte.
       map_pages ops umm pml4 (containing_address vaddr) flags
         (pages_inclusive (containing_address vaddr) (containing_address last_byte)))))"

text \<open>
  The \<open>debug_assert!\<close> on an already mapped page stops the kernel when the frames differ, so the
  \<open>Err\<close> behind it is not reached in this build.
\<close>

definition map_specific_frame ::
    "mapper_ops \<Rightarrow> user_mem_manager \<Rightarrow> nat \<Rightarrow> nat \<Rightarrow> nat \<Rightarrow> u64 \<Rightarrow>
     (machine, map_to_error, unit) call" where
  "map_specific_frame ops umm pml4 vaddr phys flags =
     bind (direct_map (phys_offset umm) pml4) (\<lambda>_.
       let page = containing_address vaddr; phys_frame = containing_address phys;
         user_flags = flags OR USER_ACCESSIBLE in
       bind (attempt (map_to ops pml4 page phys_frame user_flags)) (\<lambda>r.
         case r of
           Inr _ \<Rightarrow> ret ()
         | Inl (PageAlreadyMapped existing_frame) \<Rightarrow>
             bind (check_or_panic (existing_frame = phys_frame)) (\<lambda>_.
             bind (attempt (update_flags ops pml4 page user_flags)) (\<lambda>_. ret ()))
         | Inl e \<Rightarrow> fail e))"

definition translate_kernel_heap_virt_to_phys ::
    "user_mem_manager \<Rightarrow> nat \<Rightarrow> (machine, 'e, nat) call" where
  "translate_kernel_heap_virt_to_phys umm vaddr =
     bind (check_or_panic (virt_addr_ok vaddr)) (\<lambda>_.
     bind (translate_user_virt_to_phys umm (kernel_page_table_phys umm) vaddr) (\<lambda>r.
       case r of Some a \<Rightarrow> ret a | None \<Rightarrow> panic))"

definition is_table_entry :: "u64 \<Rightarrow> bool" where
  "is_table_entry e \<longleftrightarrow>
     contains_flag (entry_flags e) PRESENT \<and> \<not> contains_flag (entry_flags e) HUGE_PAGE"

text \<open>
  \<open>free_user_tables\<close> walks three levels and releases every table once the level below it is
  done. The loops over one table have the same shape: skip an entry that is no table, do the
  work of the level below, read the entry again, clear it and release the frame.
\<close>

primrec free_tables_loop ::
    "(nat \<Rightarrow> (machine, 'e, unit) call) \<Rightarrow> nat \<Rightarrow> nat list \<Rightarrow> (machine, 'e, unit) call" where
  "free_tables_loop below table [] = ret ()"
| "free_tables_loop below table (i # is) = (\<lambda>s.
     if is_table_entry (read_entry (mem s) table i) then
       (let child = entry_addr (read_entry (mem s) table i) in
        bind (below child) (\<lambda>_ s'.
          let child' = entry_addr (read_entry (mem s') table i) in
          bind (on_mem (write_entry table i 0)) (\<lambda>_.
          bind (lift_frames (deallocate_frame (containing_address child'))) (\<lambda>_.
            free_tables_loop below table is)) s') s)
     else free_tables_loop below table is s)"

definition check_leaf_table :: "user_mem_manager \<Rightarrow> nat \<Rightarrow> (machine, 'e, unit) call" where
  "check_leaf_table umm pt =
     bind (direct_map (phys_offset umm) pt) (\<lambda>_ s.
       check_or_panic (list_all (\<lambda>i. read_entry (mem s) pt i = 0) [0..<ENTRIES_PER_TABLE]) s)"

definition free_pd :: "user_mem_manager \<Rightarrow> nat \<Rightarrow> (machine, 'e, unit) call" where
  "free_pd umm pd =
     bind (direct_map (phys_offset umm) pd) (\<lambda>_.
       free_tables_loop (check_leaf_table umm) pd [0..<ENTRIES_PER_TABLE])"

definition free_pdpt :: "user_mem_manager \<Rightarrow> nat \<Rightarrow> (machine, 'e, unit) call" where
  "free_pdpt umm pdpt =
     bind (direct_map (phys_offset umm) pdpt) (\<lambda>_.
       free_tables_loop (free_pd umm) pdpt [0..<ENTRIES_PER_TABLE])"

definition free_user_tables :: "user_mem_manager \<Rightarrow> nat \<Rightarrow> (machine, 'e, unit) call" where
  "free_user_tables umm pml4 =
     bind (direct_map (phys_offset umm) pml4) (\<lambda>_.
       free_tables_loop (free_pdpt umm) pml4 [0..<LEVEL_4_KERNEL_ENTRIES_START])"

definition free_pml4_frame :: "nat \<Rightarrow> (machine, 'e, unit) call" where
  "free_pml4_frame pml4 =
     bind (check_or_panic (pml4 mod PAGE_SIZE = 0)) (\<lambda>_.
       lift_frames (deallocate_frame (containing_address pml4)))"

definition allocate_zeroed_page :: "(machine, 'e, (nat \<times> nat) option) call" where
  "allocate_zeroed_page =
     bind (lift_frames allocate_frame) (\<lambda>frame.
       case frame of None \<Rightarrow> ret None
       | Some phys \<Rightarrow>
           bind (direct_map HHDM_OFFSET phys) (\<lambda>_.
           bind (on_mem (zero_page phys)) (\<lambda>_.
             ret (Some (phys, phys + HHDM_OFFSET)))))"

section \<open>Mapping of the ACPI tables\<close>

text \<open>
  \<open>map_region\<close> identity-maps a physical range into the direct map; a page that is mapped already
  is reported and skipped. \<open>pages\<close> is the number of rounds of the loop.
\<close>

primrec map_region_loop ::
    "mapper_ops \<Rightarrow> nat \<Rightarrow> nat \<Rightarrow> u64 \<Rightarrow> nat \<Rightarrow> nat \<Rightarrow> (machine, map_to_error, unit) call" where
  "map_region_loop ops pml4 offset flags 0 phys = ret ()"
| "map_region_loop ops pml4 offset flags (Suc n) phys =
     bind (check_or_panic (phys_addr_ok phys)) (\<lambda>_.
     bind (direct_map offset phys) (\<lambda>_.
     bind (attempt (map_to ops pml4 (containing_address (phys + offset)) (containing_address phys)
         flags)) (\<lambda>r.
       case r of
         Inr _ \<Rightarrow> map_region_loop ops pml4 offset flags n (phys + PAGE_SIZE)
       | Inl (PageAlreadyMapped f) \<Rightarrow> map_region_loop ops pml4 offset flags n (phys + PAGE_SIZE)
       | Inl e \<Rightarrow> fail e)))"

definition map_region ::
    "mapper_ops \<Rightarrow> nat \<Rightarrow> nat \<Rightarrow> nat \<Rightarrow> nat \<Rightarrow> bool \<Rightarrow> (machine, map_to_error, unit) call" where
  "map_region ops pml4 phys_start phys_end offset cached =
     bind (check_or_panic (phys_start < phys_end)) (\<lambda>_.
       map_region_loop ops pml4 offset
         (if cached then PRESENT OR WRITABLE else PRESENT OR WRITABLE OR NO_CACHE)
         ((phys_end - phys_start + PAGE_SIZE - 1) div PAGE_SIZE) phys_start)"

definition MEMMAP_ACPI_RECLAIMABLE :: nat where "MEMMAP_ACPI_RECLAIMABLE = 2"
definition MEMMAP_ACPI_NVS :: nat where "MEMMAP_ACPI_NVS = 3"

primrec map_acpi_entries ::
    "mapper_ops \<Rightarrow> nat \<Rightarrow> nat \<Rightarrow> memmap_entry list \<Rightarrow> (machine, map_to_error, unit) call" where
  "map_acpi_entries ops pml4 offset [] = ret ()"
| "map_acpi_entries ops pml4 offset (e # es) =
     bind
       (if entry_type e = MEMMAP_ACPI_RECLAIMABLE \<or> entry_type e = MEMMAP_ACPI_NVS then
          bind (check_or_panic (base e + entry_length e < 2 ^ 64)) (\<lambda>_ s.
            case align_up (base e + entry_length e) PAGE_SIZE of
              Ok end1 \<Rightarrow> map_region ops pml4 (align_down (base e) PAGE_SIZE) end1 offset True s
            | Err x \<Rightarrow> (Err x, s)
            | Panic \<Rightarrow> (Panic, s)
            | Diverge \<Rightarrow> (Diverge, s))
        else ret ())
       (\<lambda>_. map_acpi_entries ops pml4 offset es)"

definition map_acpi_regions ::
    "mapper_ops \<Rightarrow> nat \<Rightarrow> nat \<Rightarrow> nat \<Rightarrow> (machine, map_to_error, unit) call" where
  "map_acpi_regions ops pml4 rsdp offset =
     (let rsdp_start = align_down rsdp PAGE_SIZE in
      bind (check_or_panic (rsdp_start + PAGE_SIZE < 2 ^ 64)) (\<lambda>_.
      bind (map_region ops pml4 rsdp_start (rsdp_start + PAGE_SIZE) offset True) (\<lambda>_ s.
        map_acpi_entries ops pml4 offset (memory_map (frames s)) s)))"

section \<open>A new address space\<close>

lemma lift_frames_simp: "c (frames s) = (r, fa) \<Longrightarrow> lift_frames c s = (r, s\<lparr>frames := fa\<rparr>)"
  by (simp add: lift_frames_def)

lemma direct_map_Ok:
  "p + off < 2 ^ 64 \<Longrightarrow> virt_addr_ok (p + off) \<Longrightarrow> direct_map off p s = (Ok (), s)"
  by (simp add: direct_map_def check_or_panic_def ret_def)

lemma on_mem_simp: "on_mem f s = (Ok (), s\<lparr>mem := f (mem s)\<rparr>)"
  by (simp add: on_mem_def)

text \<open>Two page-aligned tables are the same or do not share a word.\<close>

lemma aligned_apart:
  fixes a b :: nat
  assumes "a mod 4096 = 0" "b mod 4096 = 0" "a \<noteq> b"
  shows "a + 4096 \<le> b \<or> b + 4096 \<le> a"
proof -
  obtain x y where "a = 4096 * x" "b = 4096 * y"
    using assms(1,2) by (metis dvdE mod_eq_0_iff_dvd)
  with assms(3) show ?thesis by auto
qed

lemma copy_entries_other:
  "(\<forall>i \<in> set is. a \<noteq> dst + 8 * i) \<Longrightarrow> copy_entries dst src is m a = m a"
  by (induction "is" arbitrary: m) (auto simp: write_entry_def)

lemma copy_entries_at:
  assumes "distinct is" "i \<in> set is" "\<forall>i \<in> set is. i < 512"
    and "dst + 4096 \<le> src \<or> src + 4096 \<le> dst"
  shows "copy_entries dst src is m (dst + 8 * i) = m (src + 8 * i)"
  using assms(1-3)
proof (induction "is" arbitrary: m)
  case (Cons j js)
  show ?case
  proof (cases "i = j")
    case True
    then have "\<forall>k \<in> set js. dst + 8 * j \<noteq> dst + 8 * k" using Cons.prems by auto
    with True show ?thesis by (simp add: copy_entries_other write_entry_def read_entry_def)
  next
    case False
    then have "i \<in> set js" "distinct js" "\<forall>i \<in> set js. i < 512" "j < 512" "i < 512"
      using Cons.prems by auto
    with Cons.IH assms(4) False show ?thesis
      by (auto simp: write_entry_def)
  qed
qed simp

lemma table_index_user: "v < 2 ^ 47 \<Longrightarrow> table_index 39 v < 256"
proof -
  assume "v < 2 ^ 47"
  then have "v div 2 ^ 39 < 256" by (simp add: less_mult_imp_div_less)
  moreover have "table_index 39 v = (v div 2 ^ 39) mod 2 ^ 9"
    using and_mask_mod [of "v div 2 ^ 39" 9] by (simp add: table_index_def drop_bit_eq_div)
  ultimately show ?thesis by simp
qed

lemma walk_step_absent:
  assumes "p + phys_offset umm < 2 ^ 64" "virt_addr_ok (p + phys_offset umm)"
    and "\<not> contains_flag (entry_flags (read_entry (mem s) p (table_index sh v))) PRESENT"
  shows "walk_step umm p sh v k d s = (Ok d, s)"
  using assms by (simp add: walk_step_def bind_def direct_map_Ok Let_def ret_def)

lemma zero_entry_absent: "\<not> contains_flag (entry_flags 0) PRESENT"
  by (simp add: contains_flag_def entry_flags_def PRESENT_def)

text \<open>C31: a new address space maps nothing for the user and shares the kernel half. When a frame
  is left, the call returns it as the top table; its lower 256 entries are empty, so no user
  address translates in it, its upper 256 entries are those of the kernel's table, and no other
  word of memory has changed. When no frame is left, the call reports that and changes no memory.\<close>

theorem new_address_space:
  assumes ok: "allocator_ok (frames s)"
    and dm: "\<forall>p < 2 ^ 46. virt_addr_ok (p + phys_offset umm) \<and> p + phys_offset umm < 2 ^ 64"
    and k: "kernel_page_table_phys umm mod 4096 = 0" "kernel_page_table_phys umm < 2 ^ 46"
    and free: "\<forall>f. hd_opt (rev (free_list (frames s)) @ pending (frames s)) = Some f \<longrightarrow>
       f mod 4096 = 0 \<and> f < 2 ^ 46 \<and> f \<noteq> kernel_page_table_phys umm"
  shows "case allocate_new_address_space umm s of (r, s') \<Rightarrow>
    (case hd_opt (rev (free_list (frames s)) @ pending (frames s)) of
       None \<Rightarrow> r = Err FrameAllocationFailed \<and> mem s' = mem s
     | Some f \<Rightarrow> r = Ok f
         \<and> (\<forall>v < 2 ^ 47. translate_user_virt_to_phys umm f v s'
              = (Ok None :: (unit, nat option) outcome, s'))
         \<and> (\<forall>i. 256 \<le> i \<and> i < 512 \<longrightarrow> read_entry (mem s') f i
              = read_entry (mem s) (kernel_page_table_phys umm) i)
         \<and> (\<forall>a. a < f \<or> f + 4096 \<le> a \<longrightarrow> mem s' a = mem s a))"
proof -
  let ?k = "kernel_page_table_phys umm" 
    and ?is = "[LEVEL_4_KERNEL_ENTRIES_START..<LEVEL_4_KERNEL_ENTRIES_END]"
  obtain fa' where al: "allocate_frame (frames s) =
      (Ok (hd_opt (rev (free_list (frames s)) @ pending (frames s)))
        :: (map_to_error, nat option) outcome, fa')"
    using allocate_frame_eq [OF ok, where 'e = map_to_error] by blast
  note lf = lift_frames_simp [of allocate_frame s, OF al]
  show ?thesis
  proof (cases "hd_opt (rev (free_list (frames s)) @ pending (frames s))")
    case None
    with lf show ?thesis
      by (simp add: allocate_new_address_space_def bind_Ok call_simps)
  next
    case (Some f)
    let ?m = "copy_entries f ?k ?is (zero_page f (mem s))"
    let ?s = "s\<lparr>frames := fa', mem := ?m\<rparr>"
    from free Some have f: "f mod 4096 = 0" "f < 2 ^ 46" "f \<noteq> ?k" by auto
    have apart: "f + 4096 \<le> ?k \<or> ?k + 4096 \<le> f" using aligned_apart [OF f(1) k(1) f(3)] .
    have hh: "?k + HHDM_OFFSET < 2 ^ 64" "virt_addr_ok (?k + HHDM_OFFSET)"
      using k(2) by (auto simp: HHDM_OFFSET_def virt_addr_ok_def)
    have run: "allocate_new_address_space umm s = (Ok f, ?s)"
      using lf Some dm f(2) k(2) hh
      by (simp add: allocate_new_address_space_def bind_def direct_map_Ok on_mem_simp ret_def)
    have low: "read_entry ?m f i = 0" if "i < 256" for i
      unfolding read_entry_def using that
      by (subst copy_entries_other)
        (auto simp: LEVEL_4_KERNEL_ENTRIES_START_def zero_page_def PAGE_SIZE_def)
    have up: "read_entry ?m f i = read_entry (mem s) ?k i" if "256 \<le> i" "i < 512" for i
      using that apart copy_entries_at [of ?is i f ?k "zero_page f (mem s)"]
      by (auto simp: read_entry_def LEVEL_4_KERNEL_ENTRIES_START_def
          LEVEL_4_KERNEL_ENTRIES_END_def zero_page_def PAGE_SIZE_def
          simp del: upt_rec_numeral)
    have oth: "?m a = mem s a" if "a < f \<or> f + 4096 \<le> a" for a
      using that by (subst copy_entries_other)
        (auto simp: LEVEL_4_KERNEL_ENTRIES_END_def zero_page_def PAGE_SIZE_def)
    have tr: "translate_user_virt_to_phys umm f v ?s = (Ok None :: (unit, nat option) outcome, ?s)"
      if "v < 2 ^ 47" for v
      using dm f(2) low [OF table_index_user [OF that]]
      by (simp add: translate_user_virt_to_phys_def walk_step_absent zero_entry_absent)
    from run Some up oth tr show ?thesis by simp
  qed
qed

definition sample_manager :: user_mem_manager where
  "sample_manager = \<lparr>kernel_page_table_phys = 65536, phys_offset = HHDM_OFFSET\<rparr>"

definition sample_machine :: machine where
  "sample_machine =
     \<lparr>mem = (\<lambda>a. if a = 65536 + 8 * 256 then 0x12003 else 0), frames = sample_allocator\<rparr>"

lemma sample_allocator_ok: "allocator_ok sample_allocator"
  using frames_run_inv [OF sample_run sample_map_ok] by blast

lemma sample_next_frame:
  "hd_opt (rev (free_list (frames sample_machine)) @ pending (frames sample_machine)) = Some 8192"
  by (simp add: sample_machine_def sample_allocator_def)

theorem new_address_space_witness:
  "allocator_ok (frames sample_machine)
   \<and> fst (allocate_new_address_space sample_manager sample_machine) = Ok 8192
   \<and> read_entry (mem (snd (allocate_new_address_space sample_manager sample_machine))) 8192 256
       = 0x12003"
proof -
  have ok: "allocator_ok (frames sample_machine)"
    by (simp add: sample_machine_def sample_allocator_ok)
  have "case allocate_new_address_space sample_manager sample_machine of (r, s') \<Rightarrow>
      r = Ok 8192 \<and> (\<forall>i. 256 \<le> i \<and> i < 512 \<longrightarrow> read_entry (mem s') 8192 i
        = read_entry (mem sample_machine) (kernel_page_table_phys sample_manager) i)"
    using new_address_space [of sample_machine sample_manager, OF ok]
    by (simp add: sample_next_frame sample_manager_def HHDM_OFFSET_def virt_addr_ok_def
        split: prod.splits)
  then show ?thesis using ok
    by (auto simp: sample_manager_def sample_machine_def read_entry_def split: prod.splits)
qed

lemma bit_NO_EXECUTE: "bit NO_EXECUTE n \<longleftrightarrow> n = 63"
proof -
  have nx: "NO_EXECUTE = 2 ^ 63" by (simp add: NO_EXECUTE_def)
  show ?thesis unfolding nx bit_exp_iff by auto
qed

text \<open>A page shared by two segments gets every permission bit either of them asks for, and
  stays non-executable exactly when both ask for that.\<close>

lemma merge_page_flags_bits:
  "bit (merge_page_flags a b) n =
     (if n = 63 then bit a 63 \<and> bit b 63 else bit a n \<or> bit b n)"
proof -
  have c: "contains_flag x NO_EXECUTE \<longleftrightarrow> bit x 63" for x
  proof
    assume "contains_flag x NO_EXECUTE"
    then have "bit (x AND NO_EXECUTE) 63 = bit NO_EXECUTE 63" by (simp add: contains_flag_def)
    then show "bit x 63" by (simp add: bit_and_iff bit_NO_EXECUTE)
  next
    assume "bit x 63"
    then show "contains_flag x NO_EXECUTE"
      unfolding contains_flag_def
      by (intro bit_word_eqI) (auto simp: bit_and_iff bit_NO_EXECUTE)
  qed
  show ?thesis
    unfolding merge_page_flags_def c
    by (auto simp: bit_and_iff bit_or_iff bit_not_iff bit_NO_EXECUTE dest: bit_imp_le_length)
qed

section \<open>A flat mapper\<close>

text \<open>
  A concrete mapper for examples: one word per page, kept outside physical memory, instead of a
  tree of tables. It answers as the crate documents: a present page is reported as already
  mapped, an absent one as not mapped.
\<close>

definition flat_slot :: "nat \<Rightarrow> nat" where
  "flat_slot page = 2 ^ 60 + page"

definition flat_mapper :: mapper_ops where
  "flat_mapper =
     \<lparr>map_to = (\<lambda>pml4 page frame flags s.
        if mem s (flat_slot page) = 0 then
          (Ok (), s\<lparr>mem := (mem s)(flat_slot page := word_of_nat frame OR flags)\<rparr>)
        else (Err (PageAlreadyMapped (entry_addr (mem s (flat_slot page)))), s)),
      unmap = (\<lambda>pml4 page s.
        if mem s (flat_slot page) = 0 then (Err (), s)
        else (Ok (entry_addr (mem s (flat_slot page))), s\<lparr>mem := (mem s)(flat_slot page := 0)\<rparr>)),
      update_flags = (\<lambda>pml4 page flags s.
        if mem s (flat_slot page) = 0 then (Err (), s)
        else (Ok (), s\<lparr>mem := (mem s)(flat_slot page :=
               (mem s (flat_slot page) AND ADDR_MASK) OR flags)\<rparr>))\<rparr>"

text \<open>A failed mapping takes down pages it did not map. The first page of the range is mapped
  already (frame 0x5000, flags 7) and one frame is left. The call adds the flags to the first page, maps
  the second and finds no frame for the third; undoing its work it unmaps the first page as well
  and puts that page's frame, still part of the earlier mapping, on the free list.\<close>

theorem rollback_unmaps_earlier_page:
  defines "s \<equiv> \<lparr>mem = (\<lambda>a. 0)(flat_slot 0x1000 := 0x5007), frames = \<lparr>memory_map = [], curr_region_index = 0,
     frame_offset_in_region = 0, free_list = [0x2000]\<rparr>\<rparr>"
  defines "res \<equiv> map_virt_mem_region flat_mapper sample_manager 0x9000 0x1000 0x3000 3 s"
  shows "fst res = Err FrameAllocationFailed \<and> mem (snd res) (flat_slot 0x1000) = 0
    \<and> free_list (frames (snd res)) = [0x5000, 0x2000]"
proof -
  have pages: "pages_inclusive 0x1000 0x3000 = [0x1000, 0x2000, 0x3000]"
    by (simp add: pages_inclusive_def PAGE_SIZE_def upt_rec)
  have "pages_inclusive 0x1000 0x2000 = [0x1000, 0x2000]"
    by (simp add: pages_inclusive_def PAGE_SIZE_def)
  note eval = map_virt_mem_region_def direct_map_def check_or_panic_def sample_manager_def
    HHDM_OFFSET_def virt_addr_ok_def ret_def virt_add_def virt_sub_def
    containing_address_def align_down_page pages this lift_frames_def allocate_frame_def
    allocate_loop.simps zero_frame_def on_mem_def attempt_def flat_mapper_def flat_slot_def
    zero_page_def deallocate_frame_def get_page_flags_def walk_step_def read_entry_def
    contains_flag_def entry_flags_def PRESENT_def rollback_partial_mapping_def
    unmap_user_region_def USER_ACCESSIBLE_def merge_page_flags_def NO_EXECUTE_def ADDR_MASK_def
    entry_addr_def fail_def table_index_def
  show ?thesis unfolding res_def s_def
    by (simp add: eval bind_def) (simp add: PAGE_SIZE_def eval bind_def)
qed

end
