(* ===== verification/Process_Mem.thy ===== *)
theory Process_Mem
  imports User_Mem
begin

text \<open>
  The memory layout of a process (\<open>process/process_mem.rs\<close>): the list of mapped regions, sorted
  by start and merged where neighbours agree, the heap, and the reservation of address ranges.
  The lemmas describe the list by what it tracks: which address is tracked with which flags and
  which ownership.
\<close>

section \<open>The layout and its constants\<close>

definition PROCESS_USER_VADDR_ALLOC_MAX_SIZE :: nat where
  "PROCESS_USER_VADDR_ALLOC_MAX_SIZE = 0x50000000"
definition PROCESS_USER_VADDR_ALLOC_START :: nat where
  "PROCESS_USER_VADDR_ALLOC_START = 0x10000000"
definition PROCESS_USER_VADDR_ALLOC_END :: nat where
  "PROCESS_USER_VADDR_ALLOC_END =
     PROCESS_USER_VADDR_ALLOC_START + PROCESS_USER_VADDR_ALLOC_MAX_SIZE"
definition PROCESS_WINDOW_BUFFER_BASE :: nat where
  "PROCESS_WINDOW_BUFFER_BASE = 0x100000000"
definition PROCESS_HEAP_VIRT_START :: nat where
  "PROCESS_HEAP_VIRT_START = 0x60000000"
definition PROCESS_HEAP_SIZE_BYTES :: nat where
  "PROCESS_HEAP_SIZE_BYTES = PROCESS_WINDOW_BUFFER_BASE - PROCESS_HEAP_VIRT_START"
definition PROCESS_HEAP_VIRT_END :: nat where
  "PROCESS_HEAP_VIRT_END = PROCESS_HEAP_VIRT_START + PROCESS_HEAP_SIZE_BYTES"

lemmas window_consts = PROCESS_USER_VADDR_ALLOC_MAX_SIZE_def PROCESS_USER_VADDR_ALLOC_START_def
  PROCESS_USER_VADDR_ALLOC_END_def

lemmas heap_consts = PROCESS_WINDOW_BUFFER_BASE_def PROCESS_HEAP_VIRT_START_def
  PROCESS_HEAP_SIZE_BYTES_def PROCESS_HEAP_VIRT_END_def

record process_memory_layout =
  top_page_table_phys :: nat
  heap_end :: nat
  next_alloc_vaddr :: nat
  regions :: "mapped_region list"

datatype process_memory_error = OutOfVirtualRange | MapTo map_to_error

type_synonym process = "process_memory_layout \<times> machine"

text \<open>
  The end of a tracked region stays below \<open>2 ^ 64\<close> (part of the invariant below), so the addition
  does not overflow; the end of a new region is checked where it is computed.
\<close>

definition end_virt :: "mapped_region \<Rightarrow> nat" where
  "end_virt r = start_virt r + size_bytes r"

definition align_to_page_size :: "nat \<Rightarrow> nat" where
  "align_to_page_size n = (n + PAGE_SIZE - 1) div PAGE_SIZE * PAGE_SIZE"

definition align_down_to_page_size :: "nat \<Rightarrow> nat" where
  "align_down_to_page_size a = a AND (2 ^ 64 - 1 - (PAGE_SIZE - 1))"

definition lift_machine :: "(machine, 'e, 'a) call \<Rightarrow> (process, 'e, 'a) call" where
  "lift_machine c = (\<lambda>(l, s). case c s of (r, s') \<Rightarrow> (r, (l, s')))"

definition map_to_err :: "(process, map_to_error, 'a) call \<Rightarrow> (process, process_memory_error, 'a) call" where
  "map_to_err c = (\<lambda>p. case c p of (r, p') \<Rightarrow> (map_err MapTo r, p'))"

definition with_page_table :: "nat \<Rightarrow> process_memory_layout" where
  "with_page_table pml4 =
     \<lparr>top_page_table_phys = pml4, heap_end = PROCESS_HEAP_VIRT_START,
      next_alloc_vaddr = PROCESS_USER_VADDR_ALLOC_START, regions = []\<rparr>"

definition layout_new ::
    "user_mem_manager \<Rightarrow> (machine, map_to_error, process_memory_layout) call" where
  "layout_new umm = bind (allocate_new_address_space umm) (\<lambda>pml4. ret (with_page_table pml4))"

section \<open>Tracking of regions\<close>

definition can_merge :: "mapped_region \<Rightarrow> mapped_region \<Rightarrow> bool" where
  "can_merge existing candidate \<longleftrightarrow> page_flags existing = page_flags candidate
     \<and> frame_ownership existing = frame_ownership candidate"

text \<open>Merging with the region before the insertion point; the flag says whether it was used up.\<close>

definition merge_prev :: "mapped_region \<Rightarrow> mapped_region \<Rightarrow> mapped_region option" where
  "merge_prev previous merged =
     (if can_merge previous merged \<and> start_virt merged \<le> end_virt previous then
        Some (merged\<lparr>start_virt := start_virt previous,
                size_bytes := max (end_virt merged) (end_virt previous) - start_virt previous\<rparr>)
      else None)"

primrec merge_next :: "mapped_region \<Rightarrow> mapped_region list \<Rightarrow> mapped_region list" where
  "merge_next merged [] = [merged]"
| "merge_next merged (next # rest) =
     (if can_merge next merged \<and> start_virt next \<le> end_virt merged then
        merge_next
          (merged\<lparr>size_bytes := max (end_virt merged) (end_virt next) - start_virt merged\<rparr>) rest
      else merged # next # rest)"

text \<open>
  \<open>partition_point\<close> on the sorted list is the number of leading regions that start before the
  new one.
\<close>

definition insert_region :: "mapped_region \<Rightarrow> mapped_region list \<Rightarrow> mapped_region list" where
  "insert_region merged rs =
     (let i = length (takeWhile (\<lambda>r. start_virt r < start_virt merged) rs);
        before = take i rs; after = drop i rs in
      case (if 0 < i then merge_prev (rs ! (i - 1)) merged else None) of
        Some merged' \<Rightarrow> butlast before @ merge_next merged' after
      | None \<Rightarrow> before @ merge_next merged after)"

definition track_region ::
    "mapped_region \<Rightarrow> process_memory_layout \<Rightarrow> ('e, process_memory_layout) outcome" where
  "track_region region l =
     (if size_bytes region = 0 \<or> 2 ^ 64 \<le> end_virt region + PAGE_SIZE - 1 then Panic
      else
        let aligned_start = align_down_to_page_size (start_virt region);
          aligned_end = align_to_page_size (end_virt region) in
        if \<not> virt_addr_ok aligned_start then Panic
        else Ok (l\<lparr>regions := insert_region
          \<lparr>start_virt = aligned_start, size_bytes = aligned_end - aligned_start,
           page_flags = page_flags region, frame_ownership = frame_ownership region\<rparr>
          (regions l)\<rparr>))"

definition track_region_call :: "mapped_region \<Rightarrow> (process, 'e, unit) call" where
  "track_region_call region = (\<lambda>(l, s). case track_region region l of
     Ok l' \<Rightarrow> (Ok (), (l', s)) | Err e \<Rightarrow> (Err e, (l, s))
   | Panic \<Rightarrow> (Panic, (l, s)) | Diverge \<Rightarrow> (Diverge, (l, s)))"

section \<open>Mapping and unmapping\<close>

definition map_owned_region ::
    "mapper_ops \<Rightarrow> user_mem_manager \<Rightarrow> nat \<Rightarrow> nat \<Rightarrow> u64 \<Rightarrow> (process, map_to_error, unit) call" where
  "map_owned_region ops umm start nbytes flags =
     (if nbytes = 0 then ret ()
      else (\<lambda>(l, s).
        bind (lift_machine
            (map_virt_mem_region ops umm (top_page_table_phys l) start nbytes flags)) (\<lambda>_.
          track_region_call
            \<lparr>start_virt = start, size_bytes = nbytes, page_flags = flags, frame_ownership = Owned\<rparr>)
          (l, s)))"

primrec map_frames_loop ::
    "mapper_ops \<Rightarrow> user_mem_manager \<Rightarrow> nat \<Rightarrow> nat \<Rightarrow> u64 \<Rightarrow> nat \<Rightarrow> nat list \<Rightarrow>
     (machine, map_to_error, unit) call" where
  "map_frames_loop ops umm pml4 start flags page_index [] = ret ()"
| "map_frames_loop ops umm pml4 start flags page_index (frame_phys # rest) =
     bind (virt_add start (page_index * PAGE_SIZE)) (\<lambda>page_virt.
     bind (attempt (map_specific_frame ops umm pml4 page_virt frame_phys flags)) (\<lambda>r.
       case r of
         Inr _ \<Rightarrow> map_frames_loop ops umm pml4 start flags (page_index + 1) rest
       | Inl error \<Rightarrow>
           bind (unmap_user_region ops umm pml4
             \<lparr>start_virt = start, size_bytes = page_index * PAGE_SIZE, page_flags = flags,
              frame_ownership = Borrowed\<rparr>) (\<lambda>_.
             fail error)))"

definition map_frames ::
    "mapper_ops \<Rightarrow> user_mem_manager \<Rightarrow> nat \<Rightarrow> nat list \<Rightarrow> u64 \<Rightarrow> frame_ownership \<Rightarrow>
     (process, map_to_error, unit) call" where
  "map_frames ops umm start fs flags own =
     bind (check_or_panic (start mod PAGE_SIZE = 0)) (\<lambda>_.
       if fs = [] then ret ()
       else (\<lambda>(l, s).
         bind (lift_machine
             (map_frames_loop ops umm (top_page_table_phys l) start flags 0 fs)) (\<lambda>_.
           track_region_call
             \<lparr>start_virt = start, size_bytes = length fs * PAGE_SIZE, page_flags = flags,
              frame_ownership = own\<rparr>)
           (l, s)))"

definition covers :: "nat \<Rightarrow> nat \<Rightarrow> mapped_region \<Rightarrow> bool" where
  "covers range_start range_end r \<longleftrightarrow> start_virt r \<le> range_start \<and> range_end \<le> end_virt r"

definition is_range_tracked ::
    "process_memory_layout \<Rightarrow> nat \<Rightarrow> nat \<Rightarrow> ('e, bool) outcome" where
  "is_range_tracked l start nbytes =
     (if 2 ^ 64 \<le> start + nbytes then Panic
      else Ok (list_ex (covers start (start + nbytes)) (regions l)))"

primrec position :: "('a \<Rightarrow> bool) \<Rightarrow> 'a list \<Rightarrow> nat option" where
  "position p [] = None"
| "position p (x # xs) = (if p x then Some 0 else map_option Suc (position p xs))"

text \<open>What is kept of a region when a range inside it is unmapped.\<close>

definition keep_pieces :: "mapped_region \<Rightarrow> nat \<Rightarrow> nat \<Rightarrow> mapped_region list" where
  "keep_pieces region range_start range_end =
     (if start_virt region < range_start
      then [region\<lparr>size_bytes := range_start - start_virt region\<rparr>] else [])
     @ (if range_end < end_virt region
        then [region\<lparr>start_virt := range_end, size_bytes := end_virt region - range_end\<rparr>] else [])"

definition unmap_region ::
    "mapper_ops \<Rightarrow> user_mem_manager \<Rightarrow> nat \<Rightarrow> nat \<Rightarrow> (process, 'e, bool) call" where
  "unmap_region ops umm start nbytes =
     bind (check_or_panic (start mod PAGE_SIZE = 0 \<and> 0 < nbytes \<and> nbytes mod PAGE_SIZE = 0
       \<and> start + nbytes < 2 ^ 64)) (\<lambda>_ (l, s).
       case position (covers start (start + nbytes)) (regions l) of
         None \<Rightarrow> ret False (l, s)
       | Some i \<Rightarrow>
           let region = regions l ! i in
           bind (lift_machine (unmap_user_region ops umm (top_page_table_phys l)
             \<lparr>start_virt = start, size_bytes = nbytes, page_flags = page_flags region,
              frame_ownership = frame_ownership region\<rparr>)) (\<lambda>_ (l, s).
             (Ok True,
              (l\<lparr>regions := take i (regions l) @ keep_pieces region start (start + nbytes)
                   @ drop (Suc i) (regions l)\<rparr>, s))) (l, s))"

section \<open>Heap\<close>

definition heap_flags :: u64 where
  "heap_flags = PRESENT OR WRITABLE OR NO_EXECUTE"

definition set_heap_end :: "nat \<Rightarrow> (process, 'e, unit) call" where
  "set_heap_end a = (\<lambda>(l, s). (Ok (), (l\<lparr>heap_end := a\<rparr>, s)))"

definition grow_heap ::
    "mapper_ops \<Rightarrow> user_mem_manager \<Rightarrow> nat \<Rightarrow> (process, process_memory_error, nat) call" where
  "grow_heap ops umm new_heap_end = (\<lambda>(l, s).
     if new_heap_end \<le> heap_end l then ret (heap_end l) (l, s)
     else if PROCESS_HEAP_VIRT_END < new_heap_end then fail OutOfVirtualRange (l, s)
     else
       let grow_by = align_to_page_size (new_heap_end - heap_end l) in
       if grow_by = 0 then ret (heap_end l) (l, s)
       else
         bind (map_to_err (map_owned_region ops umm (heap_end l) grow_by heap_flags)) (\<lambda>_.
         bind (virt_add (heap_end l) grow_by) (\<lambda>new_end.
         bind (set_heap_end new_end) (\<lambda>_.
           ret new_end))) (l, s))"

definition allocate_heap ::
    "mapper_ops \<Rightarrow> user_mem_manager \<Rightarrow> nat \<Rightarrow> (process, process_memory_error, nat) call" where
  "allocate_heap ops umm nbytes = (\<lambda>(l, s).
     if nbytes = 0 then ret (heap_end l) (l, s)
     else if PROCESS_HEAP_SIZE_BYTES < nbytes then fail OutOfVirtualRange (l, s)
     else
       bind (virt_add (heap_end l) (align_to_page_size nbytes)) (\<lambda>new_heap_end.
       bind (grow_heap ops umm new_heap_end) (\<lambda>_.
         ret (heap_end l))) (l, s))"

section \<open>Reservation of address ranges\<close>

definition saturating_add64 :: "nat \<Rightarrow> nat \<Rightarrow> nat" where
  "saturating_add64 a b = min (a + b) (2 ^ 64 - 1)"

primrec gap_loop :: "nat \<Rightarrow> mapped_region list \<Rightarrow> nat \<Rightarrow> nat option \<times> nat" where
  "gap_loop aligned_size [] cursor = (None, cursor)"
| "gap_loop aligned_size (region # rest) cursor =
     (if end_virt region \<le> PROCESS_USER_VADDR_ALLOC_START then gap_loop aligned_size rest cursor
      else if PROCESS_USER_VADDR_ALLOC_END \<le> start_virt region then (None, cursor)
      else if saturating_add64 cursor aligned_size \<le> start_virt region then (Some cursor, cursor)
      else gap_loop aligned_size rest (max cursor (end_virt region)))"

definition find_free_gap :: "process_memory_layout \<Rightarrow> nat \<Rightarrow> nat option" where
  "find_free_gap l nbytes =
     (let aligned_size = align_to_page_size nbytes in
      if aligned_size = 0 then None
      else
        case gap_loop aligned_size (regions l) PROCESS_USER_VADDR_ALLOC_START of
          (Some v, _) \<Rightarrow> Some v
        | (None, cursor) \<Rightarrow>
            if saturating_add64 cursor aligned_size \<le> PROCESS_USER_VADDR_ALLOC_END
            then Some cursor else None)"

definition allocate_virtual_range ::
    "process_memory_layout \<Rightarrow> nat \<Rightarrow> nat option \<times> process_memory_layout" where
  "allocate_virtual_range l nbytes =
     (if PROCESS_USER_VADDR_ALLOC_MAX_SIZE < nbytes then (None, l)
      else
        let aligned_size = align_to_page_size nbytes;
          alloc_vaddr = next_alloc_vaddr l; range_end = alloc_vaddr + aligned_size in
        if PROCESS_USER_VADDR_ALLOC_END < range_end then (find_free_gap l aligned_size, l)
        else (Some alloc_vaddr, l\<lparr>next_alloc_vaddr := range_end\<rparr>))"

section \<open>Release of the whole space\<close>

primrec unmap_all ::
    "mapper_ops \<Rightarrow> user_mem_manager \<Rightarrow> nat \<Rightarrow> mapped_region list \<Rightarrow> (machine, 'e, unit) call" where
  "unmap_all ops umm pml4 [] = ret ()"
| "unmap_all ops umm pml4 (r # rs) =
     bind (unmap_user_region ops umm pml4 r) (\<lambda>_. unmap_all ops umm pml4 rs)"

definition free_address_space ::
    "mapper_ops \<Rightarrow> user_mem_manager \<Rightarrow> process_memory_layout \<Rightarrow> (machine, 'e, unit) call" where
  "free_address_space ops umm l =
     (if top_page_table_phys l = 0 then ret ()
      else
        bind (unmap_all ops umm (top_page_table_phys l) (regions l)) (\<lambda>_.
        bind (free_user_tables umm (top_page_table_phys l)) (\<lambda>_.
          free_pml4_frame (top_page_table_phys l))))"

section \<open>What a layout tracks\<close>

type_synonym region_key = "u64 \<times> frame_ownership"

definition region_key :: "mapped_region \<Rightarrow> region_key" where
  "region_key r = (page_flags r, frame_ownership r)"

definition in_region :: "nat \<Rightarrow> mapped_region \<Rightarrow> bool" where
  "in_region a r \<longleftrightarrow> start_virt r \<le> a \<and> a < end_virt r"

definition tracked :: "region_key \<Rightarrow> nat \<Rightarrow> mapped_region list \<Rightarrow> bool" where
  "tracked k a rs \<longleftrightarrow> (\<exists>r \<in> set rs. region_key r = k \<and> in_region a r)"

definition region_ok :: "mapped_region \<Rightarrow> bool" where
  "region_ok r \<longleftrightarrow> 0 < size_bytes r \<and> start_virt r mod 4096 = 0 \<and> size_bytes r mod 4096 = 0
     \<and> end_virt r < 2 ^ 64"

definition regions_ok :: "mapped_region list \<Rightarrow> bool" where
  "regions_ok rs \<longleftrightarrow> list_all region_ok rs \<and> sorted (map start_virt rs)"

definition apart :: "mapped_region \<Rightarrow> mapped_region \<Rightarrow> bool" where
  "apart r q \<longleftrightarrow> end_virt r \<le> start_virt q \<or> end_virt q \<le> start_virt r"

definition regions_disjoint :: "mapped_region list \<Rightarrow> bool" where
  "regions_disjoint rs \<longleftrightarrow> sorted_wrt (\<lambda>r q. end_virt r \<le> start_virt q) rs"

lemma tracked_simps [simp]:
  "\<not> tracked k a []"
  "tracked k a (r # rs) \<longleftrightarrow> region_key r = k \<and> in_region a r \<or> tracked k a rs"
  "tracked k a (rs @ qs) \<longleftrightarrow> tracked k a rs \<or> tracked k a qs"
  by (auto simp: tracked_def)

lemma region_key_update [simp]:
  "region_key (r\<lparr>start_virt := x\<rparr>) = region_key r" "region_key (r\<lparr>size_bytes := y\<rparr>) = region_key r"
  by (simp_all add: region_key_def)

lemma can_merge_key: "can_merge r q \<longleftrightarrow> region_key r = region_key q"
  by (simp add: can_merge_def region_key_def)

lemma region_ok_end: "region_ok r \<Longrightarrow> start_virt r < end_virt r \<and> end_virt r mod 4096 = 0"
  by (auto simp: region_ok_def end_virt_def)

lemma region_okI:
  "start_virt r mod 4096 = 0 \<Longrightarrow> e mod 4096 = 0 \<Longrightarrow> start_virt r < e \<Longrightarrow> e < 2 ^ 64 \<Longrightarrow>
   size_bytes r = e - start_virt r \<Longrightarrow> region_ok r \<and> end_virt r = e"
  by (auto simp: region_ok_def end_virt_def mod_eq_0_iff_dvd)

section \<open>Tracking a region\<close>

lemma merge_prev_Some:
  assumes "merge_prev p m = Some m'" "region_ok p" "region_ok m" "start_virt p \<le> start_virt m"
  shows "region_ok m' \<and> region_key m' = region_key m \<and> region_key p = region_key m
    \<and> start_virt m' = start_virt p \<and> end_virt m' = max (end_virt m) (end_virt p)
    \<and> start_virt m \<le> end_virt p"
proof -
  from assms(1) have m': "m' = m\<lparr>start_virt := start_virt p,
      size_bytes := max (end_virt m) (end_virt p) - start_virt p\<rparr>"
    and c: "can_merge p m" "start_virt m \<le> end_virt p"
    by (auto simp: merge_prev_def split: if_splits)
  have "region_ok m' \<and> end_virt m' = max (end_virt m) (end_virt p)"
    using assms(2-4) region_ok_end [OF assms(2)] region_ok_end [OF assms(3)] m'
    by (intro region_okI) (auto simp: region_ok_def max_def)
  with m' c show ?thesis by (simp add: can_merge_key)
qed

lemma merge_next_step:
  assumes "region_ok q" "region_ok m" "start_virt m \<le> start_virt q" "start_virt q \<le> end_virt m"
  defines "m' \<equiv> m\<lparr>size_bytes := max (end_virt m) (end_virt q) - start_virt m\<rparr>"
  shows "region_ok m' \<and> end_virt m' = max (end_virt m) (end_virt q)"
  unfolding m'_def using assms(1-4) region_ok_end [OF assms(1)] region_ok_end [OF assms(2)]
  by (intro region_okI) (auto simp: region_ok_def max_def)

lemma merge_next_props:
  assumes "region_ok m" "list_all region_ok rs" "sorted (map start_virt (m # rs))"
  shows "list_all region_ok (merge_next m rs) \<and> sorted (map start_virt (merge_next m rs))
    \<and> (\<forall>r \<in> set (merge_next m rs). start_virt m \<le> start_virt r)
    \<and> (\<forall>k a. tracked k a (merge_next m rs) \<longleftrightarrow> tracked k a (m # rs))"
  using assms
proof (induction rs arbitrary: m)
  case (Cons q rs)
  show ?case
  proof (cases "can_merge q m \<and> start_virt q \<le> end_virt m")
    case True
    let ?m = "m\<lparr>size_bytes := max (end_virt m) (end_virt q) - start_virt m\<rparr>"
    have m': "region_ok ?m" "end_virt ?m = max (end_virt m) (end_virt q)"
      using merge_next_step [of q m] Cons.prems True by auto
    have "tracked k a (?m # rs) \<longleftrightarrow> tracked k a (m # q # rs)" for k a
      using True m'(2) Cons.prems by (auto simp: in_region_def can_merge_key max_def)
    with Cons.IH [of ?m] m' Cons.prems True show ?thesis by simp
  next
    case False
    then show ?thesis using Cons.prems by auto
  qed
qed auto

text \<open>The split of the list at the insertion point.\<close>

lemma insert_region_split:
  assumes "regions_ok rs"
  obtains before after where "rs = before @ after"
    "\<forall>r \<in> set before. start_virt r < start_virt m" "\<forall>r \<in> set after. start_virt m \<le> start_virt r"
    "insert_region m rs =
       (case (if before \<noteq> [] then merge_prev (last before) m else None) of
          Some m' \<Rightarrow> butlast before @ merge_next m' after
        | None \<Rightarrow> before @ merge_next m after)"
proof -
  let ?P = "\<lambda>r. start_virt r < start_virt m"
  let ?b = "takeWhile ?P rs" and ?a = "dropWhile ?P rs"
  have after: "\<forall>r \<in> set ?a. start_virt m \<le> start_virt r"
  proof (cases ?a)
    case Nil
    then show ?thesis by (simp only: list.set ball_empty)
  next
    case (Cons q qs)
    then have "\<not> ?P q" by (metis dropWhile_eq_Cons_conv)
    moreover have "sorted (map start_virt ?a)"
      using assms by (simp add: regions_ok_def dropWhile_eq_drop drop_map [symmetric] sorted_wrt_drop)
    ultimately show ?thesis using Cons by auto
  qed
  have "rs ! (length ?b - 1) = last ?b" if "?b \<noteq> []"
    using that by (metis diff_less last_conv_nth length_greater_0_conv takeWhile_nth zero_less_one)
  moreover have tk: "take (length ?b) rs = ?b" and dr: "drop (length ?b) rs = ?a"
    by (simp_all only: takeWhile_eq_take [symmetric] dropWhile_eq_drop [symmetric])
  ultimately have "insert_region m rs =
       (case (if ?b \<noteq> [] then merge_prev (last ?b) m else None) of
          Some m' \<Rightarrow> butlast ?b @ merge_next m' ?a | None \<Rightarrow> ?b @ merge_next m ?a)"
    unfolding insert_region_def Let_def tk dr by simp
  with after show ?thesis using that [of ?b ?a] set_takeWhileD by fastforce
qed

lemma insert_region_props:
  assumes rs: "regions_ok rs" and m: "region_ok m"
  shows "regions_ok (insert_region m rs)
    \<and> (\<forall>k a. tracked k a (insert_region m rs)
          \<longleftrightarrow> tracked k a rs \<or> k = region_key m \<and> in_region a m)"
proof -
  obtain before after where split: "rs = before @ after"
    "\<forall>r \<in> set before. start_virt r < start_virt m" "\<forall>r \<in> set after. start_virt m \<le> start_virt r"
    and ins: "insert_region m rs =
       (case (if before \<noteq> [] then merge_prev (last before) m else None) of
          Some m' \<Rightarrow> butlast before @ merge_next m' after
        | None \<Rightarrow> before @ merge_next m after)"
    using insert_region_split [OF rs] .
  show ?thesis
  proof (cases "if before \<noteq> [] then merge_prev (last before) m else None")
    case None
    have "list_all region_ok after" "sorted (map start_virt (m # after))"
      using rs split by (auto simp: regions_ok_def sorted_append)
    note mn = merge_next_props [OF m this]
    have "regions_ok (before @ merge_next m after)"
      unfolding regions_ok_def list_all_append map_append sorted_append
      using mn rs split by (auto simp: regions_ok_def sorted_append) (meson less_imp_le less_le_trans)
    then show ?thesis using ins None mn split by auto
  next
    case (Some m')
    then obtain bs p where b: "before = bs @ [p]" and mp: "merge_prev p m = Some m'"
      by (cases before rule: rev_cases) auto
    have p: "region_ok p" "start_virt p \<le> start_virt m" using rs split b by (auto simp: regions_ok_def)
    note m' = merge_prev_Some [OF mp p(1) m p(2)]
    have "list_all region_ok after" "sorted (map start_virt (m' # after))"
      using rs split b m' by (auto simp: regions_ok_def sorted_append)
    from merge_next_props [OF _ this] m'
    have mn: "list_all region_ok (merge_next m' after)" "sorted (map start_virt (merge_next m' after))"
      "\<forall>r \<in> set (merge_next m' after). start_virt m' \<le> start_virt r"
      "\<And>k a. tracked k a (merge_next m' after) \<longleftrightarrow> tracked k a (m' # after)" by auto
    have "in_region a m' \<longleftrightarrow> in_region a p \<or> in_region a m" for a
      using m' p by (auto simp: in_region_def)
    moreover have "regions_ok (bs @ merge_next m' after)"
      using mn m' rs split b by (fastforce simp: regions_ok_def sorted_append)
    ultimately show ?thesis using ins Some b mn(4) m' split by auto
  qed
qed

text \<open>
  Regions that do not overlap stay so, as long as the new range overlaps only regions it can be
  merged with.
\<close>

lemma merge_next_disjoint:
  assumes "region_ok m" "list_all region_ok rs" "regions_disjoint rs"
    "\<forall>q \<in> set rs. start_virt m \<le> start_virt q"
    "\<forall>q \<in> set rs. region_key q \<noteq> region_key m \<longrightarrow> end_virt m \<le> start_virt q"
  shows "regions_disjoint (merge_next m rs) \<and> (\<forall>r \<in> set (merge_next m rs). start_virt m \<le> start_virt r)"
  using assms
proof (induction rs arbitrary: m)
  case (Cons q rs)
  show ?case
  proof (cases "can_merge q m \<and> start_virt q \<le> end_virt m")
    case True
    let ?m = "m\<lparr>size_bytes := max (end_virt m) (end_virt q) - start_virt m\<rparr>"
    have m': "region_ok ?m" "end_virt ?m = max (end_virt m) (end_virt q)"
      using merge_next_step [of q m] Cons.prems True by auto
    with Cons.IH [of ?m] Cons.prems True show ?thesis by (simp add: regions_disjoint_def)
  next
    case False
    then have "end_virt m \<le> start_virt q" using Cons.prems by (auto simp: can_merge_key)
    moreover have "start_virt q < end_virt q" using Cons.prems region_ok_end by simp
    ultimately have "\<forall>r \<in> set (q # rs). end_virt m \<le> start_virt r"
      using Cons.prems by (auto simp: regions_disjoint_def)
    with False Cons.prems show ?thesis by (auto simp: regions_disjoint_def)
  qed
qed (auto simp: regions_disjoint_def)

lemma insert_region_disjoint:
  assumes rs: "regions_ok rs" and m: "region_ok m" and dis: "regions_disjoint rs"
    and key: "\<forall>r \<in> set rs. region_key r \<noteq> region_key m \<longrightarrow> apart r m"
  shows "regions_disjoint (insert_region m rs)"
proof -
  obtain before after where split: "rs = before @ after"
    "\<forall>r \<in> set before. start_virt r < start_virt m" "\<forall>r \<in> set after. start_virt m \<le> start_virt r"
    and ins: "insert_region m rs =
       (case (if before \<noteq> [] then merge_prev (last before) m else None) of
          Some m' \<Rightarrow> butlast before @ merge_next m' after
        | None \<Rightarrow> before @ merge_next m after)"
    using insert_region_split [OF rs] .
  have ok: "list_all region_ok after" "list_all region_ok before"
    and d: "regions_disjoint before" "regions_disjoint after"
    "\<forall>r \<in> set before. \<forall>q \<in> set after. end_virt r \<le> start_virt q"
    using rs dis split by (auto simp: regions_ok_def regions_disjoint_def sorted_wrt_append)
  have m1: "start_virt m < end_virt m" using region_ok_end [OF m] by simp
  have ends: "start_virt r < end_virt r" if "r \<in> set rs" for r
    using rs that region_ok_end by (auto simp: regions_ok_def list_all_iff)
  have aft: "end_virt m \<le> start_virt q" if "q \<in> set after" "region_key q \<noteq> region_key m" for q
    using key split that ends [of q] by (force simp: apart_def)
  show ?thesis
  proof (cases "if before \<noteq> [] then merge_prev (last before) m else None")
    case None
    have "end_virt r \<le> start_virt m" if r: "r \<in> set before" for r
    proof -
      from r obtain bs p where b: "before = bs @ [p]" by (cases before rule: rev_cases) auto
      have "end_virt p \<le> start_virt m"
        using None b key split ends m1 by (auto simp: merge_prev_def can_merge_key apart_def split: if_splits)
      moreover have "r = p \<or> end_virt r \<le> start_virt p"
        using r b d(1) by (auto simp: regions_disjoint_def sorted_wrt_append)
      ultimately show ?thesis using split(2) b by force
    qed
    with merge_next_disjoint [OF m ok(1) d(2)] aft split(3) d(1) ins None show ?thesis
      by (fastforce simp: regions_disjoint_def sorted_wrt_append)
  next
    case (Some m')
    then obtain bs p where b: "before = bs @ [p]" and mp: "merge_prev p m = Some m'"
      by (cases before rule: rev_cases) auto
    have p: "region_ok p" "start_virt p \<le> start_virt m" using ok split b by auto
    note m' = merge_prev_Some [OF mp p(1) m p(2)]
    have "\<forall>q \<in> set after. region_key q \<noteq> region_key m' \<longrightarrow> end_virt m' \<le> start_virt q"
      "\<forall>q \<in> set after. start_virt m' \<le> start_virt q"
      using aft m' d(3) b split(3) p(2) by fastforce+
    from merge_next_disjoint [OF _ ok(1) d(2) this(2,1)] m' d(1) b ins Some show ?thesis
      by (fastforce simp: regions_disjoint_def sorted_wrt_append)
  qed
qed

lemma align_to_page_size_eq: "align_to_page_size n = round_up n"
  by (simp add: align_to_page_size_def round_up_def PAGE_SIZE_def)

lemma align_down_to_page_size_eq: "a < 2 ^ 64 \<Longrightarrow> align_down_to_page_size a = a div 4096 * 4096"
  using align_down_page [of a] by (simp add: align_down_to_page_size_def align_down_def)

lemma virt_addr_ok_page: "virt_addr_ok a \<Longrightarrow> virt_addr_ok (a div 4096 * 4096)"
proof -
  assume a: "virt_addr_ok a"
  have "a div 4096 * 4096 \<le> a" by simp
  moreover have "2 ^ 64 - 2 ^ 47 \<le> a div 4096 * 4096" if "2 ^ 64 - 2 ^ 47 \<le> a"
    using div_le_mono [OF that, of 4096] by simp
  ultimately show ?thesis using a unfolding virt_addr_ok_def by (meson le_less_trans)
qed

text \<open>The region \<open>track_region\<close> inserts.\<close>

definition page_region :: "mapped_region \<Rightarrow> mapped_region" where
  "page_region r = r\<lparr>start_virt := start_virt r div 4096 * 4096,
     size_bytes := round_up (end_virt r) - start_virt r div 4096 * 4096\<rparr>"

lemma page_region_props:
  assumes "0 < size_bytes r" "end_virt r + 4095 < 2 ^ 64"
  shows "region_ok (page_region r)" "end_virt (page_region r) = round_up (end_virt r)"
    "start_virt (page_region r) = start_virt r div 4096 * 4096"
    "region_key (page_region r) = region_key r"
proof -
  have "start_virt r div 4096 * 4096 \<le> start_virt r" "start_virt r < end_virt r"
    using assms(1) by (simp_all add: end_virt_def)
  with round_up_bounds [of "end_virt r"] assms(2)
  have "region_ok (page_region r) \<and> end_virt (page_region r) = round_up (end_virt r)"
    by (intro region_okI) (auto simp: page_region_def)
  then show "region_ok (page_region r)" "end_virt (page_region r) = round_up (end_virt r)" by auto
qed (simp_all add: page_region_def)

lemma track_region_eq:
  fixes r :: mapped_region
  assumes "0 < size_bytes r" "end_virt r + 4095 < 2 ^ 64" "virt_addr_ok (start_virt r)"
  shows "track_region r l = Ok (l\<lparr>regions := insert_region (page_region r) (regions l)\<rparr>)"
proof -
  have "start_virt r < 2 ^ 64" using assms(2) by (simp add: end_virt_def)
  moreover have "page_region r = \<lparr>start_virt = start_virt r div 4096 * 4096,
      size_bytes = round_up (end_virt r) - start_virt r div 4096 * 4096,
      page_flags = page_flags r, frame_ownership = frame_ownership r\<rparr>"
    by (cases r) (simp add: page_region_def)
  ultimately show ?thesis using assms virt_addr_ok_page [OF assms(3)]
    by (simp add: track_region_def Let_def align_to_page_size_eq align_down_to_page_size_eq
        PAGE_SIZE_def)
qed

section \<open>Unmapping a range\<close>

lemma position_None: "position p xs = None \<longleftrightarrow> \<not> list_ex p xs"
  by (induction xs) auto

lemma position_Some: "position p xs = Some i \<Longrightarrow> i < length xs \<and> p (xs ! i)"
  by (induction xs arbitrary: i) (auto split: if_splits)

lemma keep_pieces_props:
  assumes "region_ok r" "covers a b r" "a mod 4096 = 0" "b mod 4096 = 0" "a < b"
  shows "list_all region_ok (keep_pieces r a b)"
    and "regions_disjoint (keep_pieces r a b)"
    and "\<forall>q \<in> set (keep_pieces r a b). start_virt r \<le> start_virt q \<and> end_virt q \<le> end_virt r"
    and "tracked k x (keep_pieces r a b) \<longleftrightarrow> region_key r = k \<and> in_region x r \<and> \<not> (a \<le> x \<and> x < b)"
proof -
  have r: "start_virt r mod 4096 = 0" "end_virt r mod 4096 = 0" "start_virt r \<le> a" "b \<le> end_virt r"
    "start_virt r < end_virt r" "end_virt r < 2 ^ 64"
    using assms(1,2) region_ok_end [OF assms(1)] by (auto simp: covers_def region_ok_def)
  let ?p = "r\<lparr>size_bytes := a - start_virt r\<rparr>"
    and ?q = "r\<lparr>start_virt := b, size_bytes := end_virt r - b\<rparr>"
  have p: "region_ok ?p \<and> end_virt ?p = a" if "start_virt r < a"
    by (intro region_okI) (use that r assms in auto)
  have q: "region_ok ?q \<and> end_virt ?q = end_virt r" if "b < end_virt r"
    by (intro region_okI) (use that r assms in auto)
  show "list_all region_ok (keep_pieces r a b)" using p q by (simp add: keep_pieces_def)
  show "regions_disjoint (keep_pieces r a b)"
    using p q assms(5) by (simp add: keep_pieces_def regions_disjoint_def)
  show "\<forall>q \<in> set (keep_pieces r a b). start_virt r \<le> start_virt q \<and> end_virt q \<le> end_virt r"
    using p q r assms(5) by (auto simp: keep_pieces_def)
  show "tracked k x (keep_pieces r a b) \<longleftrightarrow> region_key r = k \<and> in_region x r \<and> \<not> (a \<le> x \<and> x < b)"
    using p q r assms(5) by (auto simp: keep_pieces_def in_region_def)
qed

text \<open>Replacing one region of a disjoint list by pieces of it.\<close>

lemma replace_region:
  assumes ok: "regions_ok (xs @ r # ys)" and dis: "regions_disjoint (xs @ r # ys)"
    and c: "covers a b r" "a mod 4096 = 0" "b mod 4096 = 0" "a < b"
  defines "rs' \<equiv> xs @ keep_pieces r a b @ ys"
  shows "regions_ok rs'" and "regions_disjoint rs'"
    and "tracked k x rs' \<longleftrightarrow> tracked k x (xs @ r # ys) \<and> \<not> (a \<le> x \<and> x < b)"
proof -
  have r: "region_ok r" using ok by (simp add: regions_ok_def)
  note kp = keep_pieces_props [OF r c]
  have ends: "start_virt q < end_virt q" if "q \<in> set (xs @ r # ys)" for q
    using ok that region_ok_end by (auto simp: regions_ok_def list_all_iff)
  show d: "regions_disjoint rs'"
    using dis kp(2,3) unfolding rs'_def regions_disjoint_def
    by (auto simp: sorted_wrt_append dest: order_trans)
  have all: "list_all region_ok rs'" using ok kp(1) by (auto simp: rs'_def regions_ok_def)
  then have "sorted (map start_virt rs')"
    using d region_ok_end unfolding regions_disjoint_def list_all_iff sorted_map
    by (elim sorted_wrt_mono_rel [rotated]) (meson less_imp_le less_le_trans)
  with all show "regions_ok rs'" by (simp add: regions_ok_def)
  have "\<not> (in_region x q \<and> a \<le> x \<and> x < b)" if "q \<in> set xs \<union> set ys" for q
    using that dis c(1) by (auto simp: regions_disjoint_def sorted_wrt_append in_region_def covers_def)
  then have "\<not> (tracked k x (xs @ ys) \<and> a \<le> x \<and> x < b)" by (auto simp: tracked_def)
  then show "tracked k x rs' \<longleftrightarrow> tracked k x (xs @ r # ys) \<and> \<not> (a \<le> x \<and> x < b)"
    unfolding rs'_def tracked_simps kp(4) by auto
qed

section \<open>Free gaps\<close>

definition meets :: "nat \<Rightarrow> nat \<Rightarrow> mapped_region \<Rightarrow> bool" where
  "meets v n r \<longleftrightarrow> start_virt r < v + n \<and> v < end_virt r"

lemma saturating_le: "x < 2 ^ 64 - 1 \<Longrightarrow> saturating_add64 c n \<le> x \<longleftrightarrow> c + n \<le> x"
  by (auto simp: saturating_add64_def min_def)

lemma gap_loop_Some:
  assumes "gap_loop n rs c = (Some v, c')" "sorted (map start_virt rs)" "list_all region_ok rs"
    "c mod 4096 = 0" "PROCESS_USER_VADDR_ALLOC_START \<le> c"
  shows "v mod 4096 = 0 \<and> c \<le> v \<and> v + n < PROCESS_USER_VADDR_ALLOC_END
    \<and> (\<forall>r \<in> set rs. \<not> meets v n r) \<and> (\<forall>w. c \<le> w \<and> w < v \<longrightarrow> list_ex (meets w n) rs)"
  using assms
proof (induction rs arbitrary: c)
  case (Cons r rs)
  have we: "PROCESS_USER_VADDR_ALLOC_END < 2 ^ 64 - 1" by (simp add: window_consts)
  consider (skip) "end_virt r \<le> PROCESS_USER_VADDR_ALLOC_START"
    | (hit) "PROCESS_USER_VADDR_ALLOC_START < end_virt r"
        "start_virt r < PROCESS_USER_VADDR_ALLOC_END" "saturating_add64 c n \<le> start_virt r"
    | (on) "PROCESS_USER_VADDR_ALLOC_START < end_virt r"
        "start_virt r < PROCESS_USER_VADDR_ALLOC_END" "\<not> saturating_add64 c n \<le> start_virt r"
    using Cons.prems(1) by (fastforce split: if_splits)
  then show ?case
  proof cases
    case skip
    with Cons.IH [of c] Cons.prems show ?thesis by (auto simp: meets_def)
  next
    case hit
    then have "c + n \<le> start_virt r" using we saturating_le by simp
    with hit Cons.prems show ?thesis by (auto simp: meets_def)
  next
    case on
    then have lt: "start_virt r < c + n" using we saturating_le [of "start_virt r" c n] by simp
    have "(max c (end_virt r)) mod 4096 = 0"
      using Cons.prems region_ok_end [of r] by (simp add: max_def)
    with Cons.IH [of "max c (end_virt r)"] Cons.prems on
    have IH: "v mod 4096 = 0" "max c (end_virt r) \<le> v" "v + n < PROCESS_USER_VADDR_ALLOC_END"
      "\<forall>r \<in> set rs. \<not> meets v n r"
      "\<forall>w. max c (end_virt r) \<le> w \<and> w < v \<longrightarrow> list_ex (meets w n) rs" by auto
    have "meets w n r \<or> list_ex (meets w n) rs" if "c \<le> w" "w < v" for w
      using that lt IH(5) by (cases "w < end_virt r") (auto simp: meets_def)
    moreover have "\<not> meets v n r" using IH(2) by (simp add: meets_def)
    ultimately show ?thesis using IH by auto
  qed
qed simp

lemma gap_loop_None:
  assumes "gap_loop n rs c = (None, c')" "sorted (map start_virt rs)" "list_all region_ok rs"
    "c mod 4096 = 0" "PROCESS_USER_VADDR_ALLOC_START \<le> c"
  shows "c' mod 4096 = 0 \<and> c \<le> c'
    \<and> (\<forall>r \<in> set rs. end_virt r \<le> c' \<or> PROCESS_USER_VADDR_ALLOC_END \<le> start_virt r)
    \<and> (\<forall>w. c \<le> w \<and> w < c' \<longrightarrow> list_ex (meets w n) rs)"
  using assms
proof (induction rs arbitrary: c)
  case (Cons r rs)
  have we: "PROCESS_USER_VADDR_ALLOC_END < 2 ^ 64 - 1" by (simp add: window_consts)
  consider (skip) "end_virt r \<le> PROCESS_USER_VADDR_ALLOC_START"
    | (stop) "PROCESS_USER_VADDR_ALLOC_START < end_virt r"
        "PROCESS_USER_VADDR_ALLOC_END \<le> start_virt r"
    | (on) "PROCESS_USER_VADDR_ALLOC_START < end_virt r"
        "start_virt r < PROCESS_USER_VADDR_ALLOC_END" "\<not> saturating_add64 c n \<le> start_virt r"
    using Cons.prems(1) by (fastforce split: if_splits)
  then show ?case
  proof cases
    case skip
    with Cons.IH [of c] Cons.prems show ?thesis by auto
  next
    case stop
    with Cons.prems show ?thesis by auto
  next
    case on
    then have lt: "start_virt r < c + n" using we saturating_le [of "start_virt r" c n] by simp
    have "(max c (end_virt r)) mod 4096 = 0"
      using Cons.prems region_ok_end [of r] by (simp add: max_def)
    with Cons.IH [of "max c (end_virt r)"] Cons.prems on
    have IH: "c' mod 4096 = 0" "max c (end_virt r) \<le> c'"
      "\<forall>r \<in> set rs. end_virt r \<le> c' \<or> PROCESS_USER_VADDR_ALLOC_END \<le> start_virt r"
      "\<forall>w. max c (end_virt r) \<le> w \<and> w < c' \<longrightarrow> list_ex (meets w n) rs" by auto
    have "meets w n r \<or> list_ex (meets w n) rs" if "c \<le> w" "w < c'" for w
      using that lt IH(4) by (cases "w < end_virt r") (auto simp: meets_def)
    with IH show ?thesis by auto
  qed
qed simp

lemma find_free_gap_props:
  assumes "regions_ok (regions l)"
  shows "case find_free_gap l n of
      Some v \<Rightarrow> v mod 4096 = 0 \<and> PROCESS_USER_VADDR_ALLOC_START \<le> v
        \<and> v + round_up n \<le> PROCESS_USER_VADDR_ALLOC_END
        \<and> (\<forall>r \<in> set (regions l). \<not> meets v (round_up n) r)
        \<and> (\<forall>w. PROCESS_USER_VADDR_ALLOC_START \<le> w \<and> w < v
              \<longrightarrow> list_ex (meets w (round_up n)) (regions l))
    | None \<Rightarrow> n = 0 \<or> (\<forall>w. PROCESS_USER_VADDR_ALLOC_START \<le> w
        \<and> w + round_up n \<le> PROCESS_USER_VADDR_ALLOC_END
          \<longrightarrow> list_ex (meets w (round_up n)) (regions l))"
proof -
  let ?n = "round_up n" and ?c = "PROCESS_USER_VADDR_ALLOC_START"
  have we: "PROCESS_USER_VADDR_ALLOC_END < 2 ^ 64 - 1" and c: "?c mod 4096 = 0"
    by (simp_all add: window_consts)
  have n0: "?n = 0 \<longleftrightarrow> n = 0" using round_up_bounds(1,2) [of n] by (auto simp: round_up_def)
  have rs: "sorted (map start_virt (regions l))" "list_all region_ok (regions l)"
    using assms by (simp_all add: regions_ok_def)
  obtain r c' where g: "gap_loop ?n (regions l) ?c = (r, c')" by fastforce
  show ?thesis
  proof (cases "?n = 0")
    case True
    then show ?thesis using n0 by (simp add: find_free_gap_def align_to_page_size_eq)
  next
    case False
    show ?thesis
    proof (cases r)
      case None
      note gl = gap_loop_None [OF g [unfolded None] rs c order_refl]
      show ?thesis
      proof (cases "c' + ?n \<le> PROCESS_USER_VADDR_ALLOC_END")
        case True
        with False None g gl saturating_le [OF we] show ?thesis
          by (fastforce simp: find_free_gap_def align_to_page_size_eq meets_def)
      next
        case over: False
        with False None g saturating_le [OF we] have "find_free_gap l n = None"
          by (simp add: find_free_gap_def align_to_page_size_eq)
        moreover have "w < c'" if "w + ?n \<le> PROCESS_USER_VADDR_ALLOC_END" for w
          using over that by simp
        ultimately show ?thesis using gl by simp
      qed
    next
      case (Some v)
      with gap_loop_Some [OF g [unfolded Some] rs c order_refl] False g show ?thesis
        by (simp add: find_free_gap_def align_to_page_size_eq)
    qed
  qed
qed

section \<open>Properties\<close>

text \<open>C22: recording a mapped region keeps the list of regions sorted, page aligned and free of
  empty regions, and changes what is tracked in exactly one way: the pages that the new range
  touches are now tracked with its flags and its ownership, everything else is as before. If
  regions did not overlap, and the new pages overlap only regions with the same flags and
  ownership, then no two regions overlap afterwards.\<close>

theorem track_region_exact:
  fixes r :: mapped_region
  assumes "regions_ok (regions l)" "0 < size_bytes r" "end_virt r + 4095 < 2 ^ 64"
    "virt_addr_ok (start_virt r)"
  shows "\<exists>rs. track_region r l = (Ok (l\<lparr>regions := rs\<rparr>) :: (unit, process_memory_layout) outcome)
    \<and> regions_ok rs
    \<and> (\<forall>k a. tracked k a rs \<longleftrightarrow> tracked k a (regions l)
          \<or> k = (page_flags r, frame_ownership r)
            \<and> start_virt r div 4096 * 4096 \<le> a \<and> a < round_up (end_virt r))
    \<and> (regions_disjoint (regions l)
        \<and> (\<forall>q \<in> set (regions l). (page_flags q, frame_ownership q) \<noteq> (page_flags r, frame_ownership r)
             \<longrightarrow> end_virt q \<le> start_virt r div 4096 * 4096 \<or> round_up (end_virt r) \<le> start_virt q)
        \<longrightarrow> regions_disjoint rs)"
proof -
  note pr = page_region_props [OF assms(2,3)]
  let ?rs = "insert_region (page_region r) (regions l)"
  have k: "region_key (page_region r) = (page_flags r, frame_ownership r)"
    using pr(4) by (simp add: region_key_def)
  have "track_region r l = (Ok (l\<lparr>regions := ?rs\<rparr>) :: (unit, process_memory_layout) outcome)"
    by (rule track_region_eq [OF assms(2-4)])
  moreover have "regions_ok ?rs"
    "\<forall>k a. tracked k a ?rs \<longleftrightarrow> tracked k a (regions l) \<or> k = (page_flags r, frame_ownership r)
       \<and> start_virt r div 4096 * 4096 \<le> a \<and> a < round_up (end_virt r)"
    using insert_region_props [OF assms(1) pr(1)] k pr(2,3) by (simp_all add: in_region_def)
  moreover have "regions_disjoint ?rs" if "regions_disjoint (regions l)"
    "\<forall>q \<in> set (regions l). (page_flags q, frame_ownership q) \<noteq> (page_flags r, frame_ownership r)
       \<longrightarrow> end_virt q \<le> start_virt r div 4096 * 4096 \<or> round_up (end_virt r) \<le> start_virt q"
    using insert_region_disjoint [OF assms(1) pr(1) that(1)] that(2) pr(2,3) k
    by (simp add: apart_def region_key_def)
  ultimately show ?thesis by blast
qed

definition sample_layout :: process_memory_layout where
  "sample_layout = \<lparr>top_page_table_phys = 8192, heap_end = 0x60000000,
     next_alloc_vaddr = 0x10000000,
     regions = [\<lparr>start_virt = 0x400000, size_bytes = 0x2000, page_flags = 3, frame_ownership = Owned\<rparr>,
       \<lparr>start_virt = 0x404000, size_bytes = 0x1000, page_flags = 3, frame_ownership = Owned\<rparr>]\<rparr>"

lemma sample_layout_ok: "regions_ok (regions sample_layout)" "regions_disjoint (regions sample_layout)"
  by (simp_all add: regions_ok_def regions_disjoint_def sample_layout_def region_ok_def end_virt_def)

theorem track_region_exact_witness:
  "\<exists>rs. track_region \<lparr>start_virt = 0x402010, size_bytes = 0x1800, page_flags = 3,
       frame_ownership = Owned\<rparr> sample_layout
     = (Ok (sample_layout\<lparr>regions := rs\<rparr>) :: (unit, process_memory_layout) outcome)
   \<and> regions_ok rs \<and> tracked (3, Owned) 0x403FFF rs"
proof -
  let ?r = "\<lparr>start_virt = 0x402010, size_bytes = 0x1800, page_flags = 3,
       frame_ownership = Owned\<rparr> :: mapped_region"
  have "0 < size_bytes ?r" "end_virt ?r + 4095 < 2 ^ 64" "virt_addr_ok (start_virt ?r)"
    by (simp_all add: end_virt_def virt_addr_ok_def)
  from track_region_exact [OF sample_layout_ok(1) this]
  obtain rs where "track_region ?r sample_layout
      = (Ok (sample_layout\<lparr>regions := rs\<rparr>) :: (unit, process_memory_layout) outcome)" "regions_ok rs"
    and t: "\<forall>k a. tracked k a rs \<longleftrightarrow> tracked k a (regions sample_layout)
       \<or> k = (page_flags ?r, frame_ownership ?r)
         \<and> start_virt ?r div 4096 * 4096 \<le> a \<and> a < round_up (end_virt ?r)"
    by blast
  moreover have "tracked (3, Owned) 0x403FFF rs" using t by (simp add: round_up_def end_virt_def)
  ultimately show ?thesis by blast
qed

lemma disjoint_covers_unique:
  assumes "regions_disjoint rs" "i < length rs" "r \<in> set rs" "covers a b (rs ! i)" "covers a b r" "a < b"
  shows "r = rs ! i"
proof (rule ccontr)
  assume "r \<noteq> rs ! i"
  then obtain j where j: "j < length rs" "r = rs ! j" "j \<noteq> i" using assms(3) by (metis in_set_conv_nth)
  have "end_virt (rs ! i) \<le> start_virt r \<or> end_virt r \<le> start_virt (rs ! i)"
    using assms(1,2) j by (metis linorder_neqE_nat regions_disjoint_def sorted_wrt_iff_nth_less)
  with assms(4-6) show False by (auto simp: covers_def)
qed

lemma unmap_region_run:
  assumes "start mod 4096 = 0" "0 < n" "n mod 4096 = 0" "start + n < 2 ^ 64"
    and "position (covers start (start + n)) (regions l) = Some i"
    and "unmap_user_region ops umm (top_page_table_phys l)
        \<lparr>start_virt = start, size_bytes = n, page_flags = page_flags (regions l ! i),
         frame_ownership = frame_ownership (regions l ! i)\<rparr> s
        = (Ok () :: ('e, unit) outcome, s')"
  shows "unmap_region ops umm start n (l, s) =
    (Ok True :: ('e, bool) outcome, (l\<lparr>regions := take i (regions l) @ keep_pieces (regions l ! i) start (start + n)
         @ drop (Suc i) (regions l)\<rparr>, s'))"
  using assms by (simp add: unmap_region_def bind_def check_or_panic_def PAGE_SIZE_def ret_def
      lift_machine_def Let_def)

text \<open>C26: unmapping a page-aligned range takes exactly that range out of the layout. If no region
  covers it, the call answers false and changes nothing. If a region does, the page tables are
  asked to release the range with that region's ownership, and once they have, the addresses of
  the range are tracked no more, every other address is tracked as before, and the regions stay
  sorted, aligned and disjoint.\<close>

theorem unmap_region_exact:
  assumes ok: "regions_ok (regions l)" "regions_disjoint (regions l)"
    and range: "start mod 4096 = 0" "0 < n" "n mod 4096 = 0" "start + n < 2 ^ 64"
  shows "(list_all (\<lambda>r. \<not> covers start (start + n) r) (regions l) \<longrightarrow>
      unmap_region ops umm start n (l, s) = (Ok False :: (unit, bool) outcome, (l, s)))
    \<and> (\<forall>r \<in> set (regions l). \<forall>s'. covers start (start + n) r \<and>
        unmap_user_region ops umm (top_page_table_phys l)
          \<lparr>start_virt = start, size_bytes = n, page_flags = page_flags r,
           frame_ownership = frame_ownership r\<rparr> s = (Ok () :: (unit, unit) outcome, s') \<longrightarrow>
        (\<exists>rs. unmap_region ops umm start n (l, s)
            = (Ok True :: (unit, bool) outcome, (l\<lparr>regions := rs\<rparr>, s'))
          \<and> regions_ok rs \<and> regions_disjoint rs
          \<and> (\<forall>k a. tracked k a rs \<longleftrightarrow> tracked k a (regions l) \<and> \<not> (start \<le> a \<and> a < start + n))))"
proof (intro conjI impI ballI allI)
  assume "list_all (\<lambda>r. \<not> covers start (start + n) r) (regions l)"
  then have "position (covers start (start + n)) (regions l) = None"
    by (simp add: position_None list_all_iff list_ex_iff)
  then show "unmap_region ops umm start n (l, s) = (Ok False :: (unit, bool) outcome, (l, s))"
    using range by (simp add: unmap_region_def bind_def check_or_panic_def PAGE_SIZE_def ret_def)
next
  fix r s' assume r: "r \<in> set (regions l)" and u: "covers start (start + n) r \<and>
      unmap_user_region ops umm (top_page_table_phys l)
        \<lparr>start_virt = start, size_bytes = n, page_flags = page_flags r,
         frame_ownership = frame_ownership r\<rparr> s = (Ok () :: (unit, unit) outcome, s')"
  then have "position (covers start (start + n)) (regions l) \<noteq> None"
    by (auto simp: position_None list_ex_iff)
  then obtain i where i: "position (covers start (start + n)) (regions l) = Some i" by blast
  note il = position_Some [OF i]
  have ri: "r = regions l ! i"
    using disjoint_covers_unique [OF ok(2) conjunct1 [OF il] r conjunct2 [OF il]] u range(2) by simp
  have e: "regions l = take i (regions l) @ r # drop (Suc i) (regions l)"
    using il ri by (simp add: id_take_nth_drop)
  have n: "(start + n) mod 4096 = 0" "start < start + n" using range by auto
  have ok': "regions_ok (take i (regions l) @ r # drop (Suc i) (regions l))"
    "regions_disjoint (take i (regions l) @ r # drop (Suc i) (regions l))"
    using ok e by simp_all
  note rep = replace_region [OF ok' conjunct1 [OF u] range(1) n, folded e]
  show "\<exists>rs. unmap_region ops umm start n (l, s)
            = (Ok True :: (unit, bool) outcome, (l\<lparr>regions := rs\<rparr>, s'))
          \<and> regions_ok rs \<and> regions_disjoint rs
          \<and> (\<forall>k a. tracked k a rs \<longleftrightarrow> tracked k a (regions l) \<and> \<not> (start \<le> a \<and> a < start + n))"
    using unmap_region_run [OF range i conjunct2 [OF u, unfolded ri]] rep ri by blast
qed

theorem unmap_region_exact_witness:
  "\<exists>rs. unmap_region flat_mapper sample_manager 0x401000 0x1000 (sample_layout, sample_machine)
     = (Ok True :: (unit, bool) outcome, (sample_layout\<lparr>regions := rs\<rparr>, sample_machine))
   \<and> regions_ok rs \<and> \<not> tracked (3, Owned) 0x401000 rs \<and> tracked (3, Owned) 0x400FFF rs"
proof -
  let ?r = "\<lparr>start_virt = 0x400000, size_bytes = 0x2000, page_flags = 3, frame_ownership = Owned\<rparr>
    :: mapped_region"
  have r: "?r \<in> set (regions sample_layout)" by (simp add: sample_layout_def)
  have u: "covers 0x401000 (0x401000 + 0x1000) ?r \<and>
      unmap_user_region flat_mapper sample_manager (top_page_table_phys sample_layout)
        \<lparr>start_virt = 0x401000, size_bytes = 0x1000, page_flags = page_flags ?r,
         frame_ownership = frame_ownership ?r\<rparr> sample_machine
      = (Ok () :: (unit, unit) outcome, sample_machine)"
    by (simp add: covers_def end_virt_def unmap_user_region_def sample_layout_def sample_manager_def
        direct_map_def check_or_panic_def HHDM_OFFSET_def virt_addr_ok_def bind_def ret_def
        virt_add_def virt_sub_def containing_address_def align_down_page pages_inclusive_def
        flat_mapper_def attempt_def sample_machine_def flat_slot_def)
  have t: "tracked (3, Owned) 0x400FFF (regions sample_layout)"
    by (simp add: sample_layout_def region_key_def in_region_def end_virt_def)
  from unmap_region_exact [OF sample_layout_ok, of "0x401000" "0x1000" flat_mapper sample_manager sample_machine]
  obtain rs where "unmap_region flat_mapper sample_manager 0x401000 0x1000 (sample_layout, sample_machine)
     = (Ok True :: (unit, bool) outcome, (sample_layout\<lparr>regions := rs\<rparr>, sample_machine))" "regions_ok rs"
    and "\<forall>k a. tracked k a rs \<longleftrightarrow> tracked k a (regions sample_layout)
       \<and> \<not> (0x401000 \<le> a \<and> a < 0x401000 + 0x1000)"
    using r u by fastforce
  with t show ?thesis by (intro exI [of _ rs]) simp
qed

section \<open>The heap\<close>

definition heap_ok :: "process_memory_layout \<Rightarrow> bool" where
  "heap_ok l \<longleftrightarrow> regions_ok (regions l) \<and> heap_end l mod 4096 = 0
     \<and> PROCESS_HEAP_VIRT_START \<le> heap_end l \<and> heap_end l \<le> PROCESS_HEAP_VIRT_END
     \<and> (\<forall>a. PROCESS_HEAP_VIRT_START \<le> a \<and> a < heap_end l \<longrightarrow>
          tracked (heap_flags, Owned) a (regions l))"

lemma heap_ok_new: "heap_ok (with_page_table pml4)"
  by (simp add: heap_ok_def with_page_table_def regions_ok_def heap_consts)

lemma track_owned:
  fixes flags
  assumes "0 < n" "start + n < 2 ^ 40"
  defines "r \<equiv> \<lparr>start_virt = start, size_bytes = n, page_flags = flags, frame_ownership = Owned\<rparr>"
  shows "track_region r l = Ok (l\<lparr>regions := insert_region (page_region r) (regions l)\<rparr>)"
  by (rule track_region_eq) (use assms in \<open>simp_all add: end_virt_def virt_addr_ok_def\<close>)

lemma map_owned_region_Ok:
  assumes "map_owned_region ops umm start n flags (l, s) = (Ok u, (l', s'))" "0 < n" "start + n < 2 ^ 40"
  shows "l' = l\<lparr>regions := insert_region (page_region
      \<lparr>start_virt = start, size_bytes = n, page_flags = flags, frame_ownership = Owned\<rparr>) (regions l)\<rparr>"
  using assms by (auto simp: map_owned_region_def bind_def lift_machine_def track_region_call_def
      track_owned split: outcome.splits prod.splits)

lemma map_owned_region_Err:
  assumes "map_owned_region ops umm start n flags (l, s) = (Err e, (l', s'))" "0 < n" "start + n < 2 ^ 40"
  shows "l' = l"
  using assms by (auto simp: map_owned_region_def bind_def lift_machine_def track_region_call_def
      track_owned ret_def split: outcome.splits prod.splits)

text \<open>Rounding up between two aligned addresses does not pass the upper one.\<close>

lemma round_up_between:
  assumes "h mod 4096 = 0" "e mod 4096 = 0" "h < x" "x \<le> e"
  shows "x \<le> h + round_up (x - h)" "h + round_up (x - h) \<le> e" "(h + round_up (x - h)) mod 4096 = 0"
    "0 < round_up (x - h)" "h + round_up (x - h) < x + 4096"
proof -
  obtain a b where ab: "h = 4096 * a" "e = 4096 * b" using assms(1,2) by (metis dvdE mod_eq_0_iff_dvd)
  let ?r = "round_up (x - h)"
  have r: "x - h \<le> ?r" "?r < x - h + 4096" "?r mod 4096 = 0" by (rule round_up_bounds)+
  then obtain c where c: "?r = 4096 * c" by (metis dvdE mod_eq_0_iff_dvd)
  show "x \<le> h + ?r" "(h + ?r) mod 4096 = 0" "0 < ?r" "h + ?r < x + 4096" using r assms by auto
  have "4096 * (a + c) < 4096 * (b + 1)" using r(2) c ab assms(3,4) by simp
  then have "a + c < b + 1" by (simp only: nat_mult_less_cancel_disj) 
  then have "a + c \<le> b" by simp
  then show "h + ?r \<le> e" using ab c by simp
qed

lemma grow_heap_grown:
  assumes ok: "heap_ok l" and lt: "heap_end l < x" "x \<le> PROCESS_HEAP_VIRT_END"
  defines "n \<equiv> round_up (x - heap_end l)"
  defines "r \<equiv> \<lparr>start_virt = heap_end l, size_bytes = n, page_flags = heap_flags, frame_ownership = Owned\<rparr>"
  shows "heap_ok (l\<lparr>regions := insert_region (page_region r) (regions l), heap_end := heap_end l + n\<rparr>)"
    and "0 < n" and "heap_end l + n < 2 ^ 40" and "x \<le> heap_end l + n"
    and "heap_end l + n < x + 4096"
proof -
  have e: "PROCESS_HEAP_VIRT_END mod 4096 = 0" "PROCESS_HEAP_VIRT_END < 2 ^ 39"
    by (simp_all add: heap_consts)
  have h: "heap_end l mod 4096 = 0" using ok by (simp add: heap_ok_def)
  note b = round_up_between [OF h e(1) lt, folded n_def]
  show "0 < n" "x \<le> heap_end l + n" "heap_end l + n < x + 4096" "heap_end l + n < 2 ^ 40"
    using b e by auto
  have "0 < size_bytes r" "end_virt r + 4095 < 2 ^ 64"
    using b e by (simp_all add: r_def end_virt_def)
  note pr = page_region_props [OF this]
  have "start_virt (page_region r) = heap_end l" "end_virt (page_region r) = heap_end l + n"
    using pr(2,3) h b(3) by (auto simp: r_def end_virt_def round_up_aligned)
  moreover have "region_key (page_region r) = (heap_flags, Owned)"
    using pr(4) by (simp add: r_def region_key_def)
  ultimately show "heap_ok (l\<lparr>regions := insert_region (page_region r) (regions l), heap_end := heap_end l + n\<rparr>)"
    using ok insert_region_props [OF _ pr(1), of "regions l"] b
    by (auto simp: heap_ok_def in_region_def)
qed

text \<open>C28: growing the heap keeps it a single owned range. If the call succeeds, the heap ends at
  the returned page-aligned address, at or above the one asked for and less than a page above it
  (or where it was), never above the heap's limit, and every address from the start of the heap to
  its end is tracked as owned, writable and not executable. A request above the limit is refused,
  and a refused or failed request leaves the layout as it was (not the page tables, see
  \<open>rollback_unmaps_earlier_page\<close>).\<close>

theorem grow_heap_spec:
  assumes ok: "heap_ok l" and run: "grow_heap ops umm x (l, s) = (r, (l', s'))"
  shows "(\<forall>e. r = Ok e \<longrightarrow> heap_ok l' \<and> e = heap_end l' \<and> x \<le> e \<and> heap_end l \<le> e
           \<and> (e < x + 4096 \<or> l' = l))
    \<and> (\<forall>err. r = Err err \<longrightarrow> l' = l)
    \<and> (r = Err OutOfVirtualRange \<longleftrightarrow> PROCESS_HEAP_VIRT_END < x)"
proof -
  have he: "heap_end l \<le> PROCESS_HEAP_VIRT_END" using ok by (simp add: heap_ok_def)
  consider "x \<le> heap_end l" | "PROCESS_HEAP_VIRT_END < x"
    | (grow) "heap_end l < x" "x \<le> PROCESS_HEAP_VIRT_END" by linarith
  then show ?thesis
  proof cases
    case grow
    let ?n = "round_up (x - heap_end l)"
    note g = grow_heap_grown [OF ok grow]
    obtain r1 l1 s1 where m: "map_owned_region ops umm (heap_end l) ?n heap_flags (l, s) = (r1, (l1, s1))"
      by (metis prod.exhaust)
    have run': "bind (map_to_err (map_owned_region ops umm (heap_end l) ?n heap_flags)) (\<lambda>_.
         bind (virt_add (heap_end l) ?n) (\<lambda>new_end.
         bind (set_heap_end new_end) (\<lambda>_. ret new_end))) (l, s) = (r, (l', s'))"
      using run grow g(2) by (simp add: grow_heap_def align_to_page_size_eq Let_def)
    have va: "virt_addr_ok (heap_end l + ?n)" using g(3) by (simp add: virt_addr_ok_def)
    show ?thesis
    proof (cases r1)
      case (Ok u)
      note l1 = map_owned_region_Ok [OF m [unfolded Ok] g(2,3)]
      have "r = Ok (heap_end l + ?n)" "l' = l1\<lparr>heap_end := heap_end l + ?n\<rparr>"
        using run' m Ok va
        by (auto simp: bind_def map_to_err_def virt_add_def set_heap_end_def ret_def)
      with l1 g grow show ?thesis by auto
    next
      case (Err e)
      with map_owned_region_Err [OF m [unfolded Err] g(2,3)] run' m grow show ?thesis
        by (auto simp: bind_def map_to_err_def)
    next
      case Panic
      with run' m grow show ?thesis by (auto simp: bind_def map_to_err_def)
    next
      case Diverge
      with run' m grow show ?thesis by (auto simp: bind_def map_to_err_def)
    qed
  qed (use run ok he in \<open>auto simp: grow_heap_def ret_def fail_def\<close>)
qed

theorem grow_heap_spec_witness:
  "heap_ok (with_page_table 8192)
   \<and> fst (grow_heap flat_mapper sample_manager 0x200000000 (with_page_table 8192, sample_machine))
       = Err OutOfVirtualRange"
proof -
  obtain r l' s' where run: "grow_heap flat_mapper sample_manager 0x200000000
      (with_page_table 8192, sample_machine) = (r, (l', s'))" by (metis prod.exhaust)
  from grow_heap_spec [OF heap_ok_new run] have "r = Err OutOfVirtualRange"
    by (simp add: heap_consts)
  with run heap_ok_new show ?thesis by simp
qed

text \<open>The search for a free gap finds the lowest one. The answer is a page-aligned address in
  the reservation window such that the requested pages lie inside the window and meet no tracked
  region, and no lower address of the window will do; there is no answer exactly when nothing was
  asked for or no place in the window is free.\<close>

theorem find_free_gap_lowest:
  assumes "regions_ok (regions l)"
  shows "find_free_gap l n = Some v \<longleftrightarrow>
      0 < n \<and> PROCESS_USER_VADDR_ALLOC_START \<le> v \<and> v + round_up n \<le> PROCESS_USER_VADDR_ALLOC_END
      \<and> \<not> list_ex (meets v (round_up n)) (regions l)
      \<and> (\<forall>w. PROCESS_USER_VADDR_ALLOC_START \<le> w \<and> w < v \<longrightarrow> list_ex (meets w (round_up n)) (regions l))"
    (is "_ \<longleftrightarrow> ?low v")
proof
  assume f: "find_free_gap l n = Some v"
  then have "n \<noteq> 0"
    by (cases "n = 0") (simp_all add: find_free_gap_def align_to_page_size_eq round_up_def)
  with find_free_gap_props [OF assms, of n] f show "?low v" by (simp add: list_ex_iff)
next
  assume low: "?low v"
  show "find_free_gap l n = Some v"
  proof (cases "find_free_gap l n")
    case None
    with find_free_gap_props [OF assms, of n] low show ?thesis by auto
  next
    case (Some u)
    with find_free_gap_props [OF assms, of n] low have "\<not> u < v" "\<not> v < u"
      by (auto simp: list_ex_iff)
    with Some show ?thesis by simp
  qed
qed

theorem find_free_gap_lowest_witness: "find_free_gap sample_layout 1 = Some 0x10000000"
proof -
  have "PROCESS_USER_VADDR_ALLOC_START \<le> 0x10000000 \<and> 0x10000000 + round_up 1 \<le> PROCESS_USER_VADDR_ALLOC_END
      \<and> \<not> list_ex (meets 0x10000000 (round_up 1)) (regions sample_layout)"
    by (simp add: window_consts round_up_def sample_layout_def meets_def end_virt_def)
  then show ?thesis
    using find_free_gap_lowest [OF sample_layout_ok(1), of 1 "0x10000000"]
    by (simp add: window_consts) linarith
qed

text \<open>A reserved range is page aligned, lies in the window and meets no tracked region, as long
  as the bump pointer is aligned and no region of the window reaches past it.\<close>

theorem virtual_range_fresh:
  assumes "regions_ok (regions l)"
    and "next_alloc_vaddr l mod 4096 = 0" "PROCESS_USER_VADDR_ALLOC_START \<le> next_alloc_vaddr l"
    and "\<forall>r \<in> set (regions l). end_virt r \<le> next_alloc_vaddr l \<or> PROCESS_USER_VADDR_ALLOC_END \<le> start_virt r"
    and "fst (allocate_virtual_range l n) = Some v"
  shows "v mod 4096 = 0 \<and> PROCESS_USER_VADDR_ALLOC_START \<le> v
    \<and> v + round_up n \<le> PROCESS_USER_VADDR_ALLOC_END
    \<and> (\<forall>r \<in> set (regions l). \<not> meets v (round_up n) r)
    \<and> regions (snd (allocate_virtual_range l n)) = regions l"
proof (cases "PROCESS_USER_VADDR_ALLOC_END < next_alloc_vaddr l + round_up n")
  case True
  have "round_up (round_up n) = round_up n" by (rule round_up_aligned [OF round_up_bounds(3)])
  with True assms(5) find_free_gap_props [OF assms(1), of "round_up n"] show ?thesis
    by (auto simp: allocate_virtual_range_def Let_def align_to_page_size_eq split: if_splits)
next
  case False
  with assms show ?thesis
    by (force simp: allocate_virtual_range_def Let_def align_to_page_size_eq meets_def split: if_splits)
qed

theorem virtual_range_fresh_witness:
  "fst (allocate_virtual_range sample_layout 1) = Some 0x10000000
   \<and> \<not> list_ex (meets 0x10000000 (round_up 1)) (regions sample_layout)"
proof -
  have "fst (allocate_virtual_range sample_layout 1) = Some 0x10000000"
    by (simp add: allocate_virtual_range_def window_consts sample_layout_def align_to_page_size_def
        PAGE_SIZE_def)
  moreover have "\<forall>r \<in> set (regions sample_layout). end_virt r \<le> next_alloc_vaddr sample_layout
      \<or> PROCESS_USER_VADDR_ALLOC_END \<le> start_virt r"
    by (simp add: sample_layout_def end_virt_def)
  moreover have "next_alloc_vaddr sample_layout mod 4096 = 0"
    "PROCESS_USER_VADDR_ALLOC_START \<le> next_alloc_vaddr sample_layout"
    by (simp_all add: sample_layout_def window_consts)
  ultimately show ?thesis
    using virtual_range_fresh [OF sample_layout_ok(1), of 1 "0x10000000"] by (simp add: list_ex_iff)
qed

text \<open>The two ways to reserve a range get in each other's way. With one page left above the bump
  pointer and the page below it free again, a request for two pages is served from the gap that
  spans both; after it has been mapped, a request for one page is served from the bump pointer,
  which still stands in the middle of it: the same page is handed out twice.\<close>

theorem virtual_range_handed_out_twice:
  defines "full \<equiv> \<lparr>start_virt = 0x10000000, size_bytes = 0x50000000 - 0x2000, page_flags = 3,
     frame_ownership = Owned\<rparr> :: mapped_region"
    and "two \<equiv> \<lparr>start_virt = 0x60000000 - 0x2000, size_bytes = 0x2000, page_flags = 7,
     frame_ownership = Borrowed\<rparr> :: mapped_region"
  defines "l \<equiv> \<lparr>top_page_table_phys = 8192, heap_end = 0x60000000,
     next_alloc_vaddr = 0x60000000 - 0x1000, regions = [full]\<rparr>"
  shows "allocate_virtual_range l 0x2000 = (Some (start_virt two), l)
    \<and> track_region two l = (Ok (l\<lparr>regions := [full, two]\<rparr>) :: (unit, process_memory_layout) outcome)
    \<and> fst (allocate_virtual_range (l\<lparr>regions := [full, two]\<rparr>) 0x1000) = Some (0x60000000 - 0x1000)
    \<and> meets (0x60000000 - 0x1000) 0x1000 two"
proof -
  have "track_region two l = (Ok (l\<lparr>regions := [full, two]\<rparr>) :: (unit, process_memory_layout) outcome)"
    using track_region_eq [of two l]
    by (simp add: l_def two_def full_def end_virt_def virt_addr_ok_def page_region_def round_up_def
        insert_region_def merge_prev_def can_merge_def)
  then show ?thesis
    by (simp add: l_def two_def full_def allocate_virtual_range_def find_free_gap_def window_consts
        align_to_page_size_def PAGE_SIZE_def end_virt_def saturating_add64_def meets_def)
qed

end
