(* ===== verification/Tasks.thy ===== *)
theory Tasks
  imports Mofu_Prelude
begin

text \<open>
  The table of kernel tasks (\<open>process/task.rs\<close>): 64 slots, each with its state, its owner and the
  link of the run queue it is in. The table is a function from slot indices; every access checks
  the index as \<open>task::slot\<close> does. The compare-and-exchange of a state is one step. The saved stack
  pointer, the naked entry code and the stack image of a task that never ran belong to the
  context switch in assembly and are not modelled.
\<close>

definition MAX_TASKS :: nat where "MAX_TASKS = 64"
definition INVALID_SLOT :: nat where "INVALID_SLOT = 65535"
definition INVALID_PID :: nat where "INVALID_PID = 2 ^ 64 - 1"
definition MAX_CORES :: nat where "MAX_CORES = 4"

lemma INVALID_not_slot [simp]: "\<not> INVALID_SLOT < MAX_TASKS"
  by (simp add: INVALID_SLOT_def MAX_TASKS_def)

lemma slot_not_INVALID [simp]: "x < MAX_TASKS \<Longrightarrow> x \<noteq> INVALID_SLOT" "x < MAX_TASKS \<Longrightarrow> INVALID_SLOT \<noteq> x"
  by (auto simp: INVALID_SLOT_def MAX_TASKS_def)

section \<open>Floating point state\<close>

definition FPU_STATE_SIZE_BYTES :: nat where "FPU_STATE_SIZE_BYTES = 512"
definition FCW_DEFAULT :: u16 where "FCW_DEFAULT = 0x37F"
definition MXCSR_DEFAULT :: u32 where "MXCSR_DEFAULT = 0x1F80"

definition fpu_state_new :: "u8 list" where
  "fpu_state_new =
     blit 24 (u32_to_le_bytes MXCSR_DEFAULT)
       (blit 0 (u16_to_le_bytes FCW_DEFAULT) (replicate FPU_STATE_SIZE_BYTES 0))"

section \<open>Slots\<close>

datatype task_state = Free | Creating | Ready | Running | Blocked | Dead

fun task_state_from_raw :: "nat \<Rightarrow> (unit, task_state) outcome" where
  "task_state_from_raw raw =
     (if raw = 0 then Ok Free else if raw = 1 then Ok Creating else if raw = 2 then Ok Ready
      else if raw = 3 then Ok Running else if raw = 4 then Ok Blocked else if raw = 5 then Ok Dead
      else Panic)"

record task_ref =
  tr_slot :: nat
  tr_pid :: nat

record task_slot =
  ts_pid :: nat
  ts_state :: task_state
  ts_priority :: nat
  ts_home_core :: nat
  ts_on_cpu :: bool
  ts_kill_pending :: bool
  ts_exit_code_request :: int
  ts_cpu_ticks :: u64
  ts_core_migration_count :: u32
  ts_cr3 :: nat
  ts_kernel_stack_top :: nat
  ts_next :: nat
  ts_fpu_state :: "u8 list"

type_synonym task_table = "nat \<Rightarrow> task_slot"

definition task_slot_new :: task_slot where
  "task_slot_new =
     \<lparr>ts_pid = INVALID_PID, ts_state = Free, ts_priority = 0, ts_home_core = 0, ts_on_cpu = False,
      ts_kill_pending = False, ts_exit_code_request = 0, ts_cpu_ticks = 0,
      ts_core_migration_count = 0, ts_cr3 = 0, ts_kernel_stack_top = 0, ts_next = INVALID_SLOT,
      ts_fpu_state = fpu_state_new\<rparr>"

definition set_state :: "task_state \<Rightarrow> task_slot \<Rightarrow> task_slot" where
  "set_state st task = task\<lparr>ts_state := st\<rparr>"

definition transition :: "task_state \<Rightarrow> task_state \<Rightarrow> task_slot \<Rightarrow> bool \<times> task_slot" where
  "transition old_state new_state task =
     (if ts_state task = old_state then (True, set_state new_state task) else (False, task))"

primrec find_slot_from :: "(task_slot \<Rightarrow> bool) \<Rightarrow> task_table \<Rightarrow> nat list \<Rightarrow> nat option" where
  "find_slot_from p t [] = None"
| "find_slot_from p t (i # is) = (if p (t i) then Some i else find_slot_from p t is)"

definition find_slot_by_pid :: "nat \<Rightarrow> task_table \<Rightarrow> nat option" where
  "find_slot_by_pid pid t = find_slot_from (\<lambda>task. ts_pid task = pid) t [0..<MAX_TASKS]"

definition is_alive :: "task_ref \<Rightarrow> task_table \<Rightarrow> (unit, bool) outcome" where
  "is_alive r t =
     (if tr_slot r < MAX_TASKS then Ok (ts_pid (t (tr_slot r)) = tr_pid r) else Panic)"

text \<open>
  \<open>stack_top\<close> stands for \<open>gdt::task_stack_top\<close>, the top of the static stack of a slot.
\<close>

definition claim_slot ::
    "(nat \<Rightarrow> nat) \<Rightarrow> nat \<Rightarrow> nat \<Rightarrow> nat \<Rightarrow> nat \<Rightarrow> nat \<Rightarrow> task_slot \<Rightarrow> task_slot" where
  "claim_slot stack_top i pid priority home_core cr3 task =
     (snd (transition Free Creating task))\<lparr>ts_priority := priority, ts_home_core := home_core,
       ts_on_cpu := False, ts_kill_pending := False, ts_exit_code_request := 0, ts_cpu_ticks := 0,
       ts_core_migration_count := 0, ts_cr3 := cr3, ts_next := INVALID_SLOT,
       ts_kernel_stack_top := stack_top i, ts_fpu_state := fpu_state_new, ts_pid := pid\<rparr>"

definition allocate_task_slot ::
    "(nat \<Rightarrow> nat) \<Rightarrow> nat \<Rightarrow> nat \<Rightarrow> nat \<Rightarrow> nat \<Rightarrow> task_table \<Rightarrow> nat option \<times> task_table" where
  "allocate_task_slot stack_top pid priority home_core cr3 t =
     (case find_slot_from (\<lambda>task. fst (transition Free Creating task)) t [0..<MAX_TASKS] of
        None \<Rightarrow> (None, t)
      | Some i \<Rightarrow> (Some i, t(i := claim_slot stack_top i pid priority home_core cr3 (t i))))"

definition release_task_slot :: "nat \<Rightarrow> task_table \<Rightarrow> (unit, task_table) outcome" where
  "release_task_slot i t =
     (if i < MAX_TASKS then Ok (t(i := set_state Free ((t i)\<lparr>ts_pid := INVALID_PID\<rparr>))) else Panic)"

section \<open>Lemmas\<close>

lemma find_slot_from_Some:
  "find_slot_from p t xs = Some i \<Longrightarrow> i \<in> set xs \<and> p (t i)"
  by (induction xs) (auto split: if_splits)

lemma find_slot_from_None: "find_slot_from p t xs = None \<longleftrightarrow> (\<forall>i \<in> set xs. \<not> p (t i))"
  by (induction xs) auto

lemma transition_simps [simp]:
  "fst (transition a b task) \<longleftrightarrow> ts_state task = a"
  "ts_state task = a \<Longrightarrow> transition a b task = (True, task\<lparr>ts_state := b\<rparr>)"
  "ts_state task \<noteq> a \<Longrightarrow> transition a b task = (False, task)"
  by (auto simp: transition_def set_state_def)

lemma allocate_task_slot_cases:
  assumes "allocate_task_slot stack_top pid prio core cr3 t = (r, t')"
  obtains (full) "r = None" "t' = t" "\<forall>i < MAX_TASKS. ts_state (t i) \<noteq> Free"
  | (got) i where "r = Some i" "i < MAX_TASKS" "ts_state (t i) = Free"
      "t' = t(i := claim_slot stack_top i pid prio core cr3 (t i))"
proof (cases "find_slot_from (\<lambda>task. fst (transition Free Creating task)) t [0..<MAX_TASKS]")
  case None
  then have "\<forall>i < MAX_TASKS. ts_state (t i) \<noteq> Free" by (auto simp: find_slot_from_None)
  with None show ?thesis using assms full by (simp add: allocate_task_slot_def)
next
  case (Some i)
  from find_slot_from_Some [OF this] Some show ?thesis
    using assms got [of i] by (simp add: allocate_task_slot_def)
qed

lemma claim_slot_fields [simp]:
  assumes "ts_state task = Free"
  shows "ts_state (claim_slot stack_top i pid prio core cr3 task) = Creating"
    "ts_pid (claim_slot stack_top i pid prio core cr3 task) = pid"
    "ts_priority (claim_slot stack_top i pid prio core cr3 task) = prio"
    "ts_home_core (claim_slot stack_top i pid prio core cr3 task) = core"
    "\<not> ts_on_cpu (claim_slot stack_top i pid prio core cr3 task)"
    "ts_next (claim_slot stack_top i pid prio core cr3 task) = INVALID_SLOT"
  using assms by (simp_all add: claim_slot_def)

end
