(* ===== verification/Run_Queue.thy ===== *)
theory Run_Queue
  imports Tasks
begin

text \<open>
  The queues of the scheduler (\<open>process/scheduler.rs\<close>): a queue of slots linked through the \<open>next\<close>
  field of the task table, one queue per priority with a bitmap of the non-empty ones, and the run
  queue of a core with its two tables and its sleeping tasks. A queue is related to the list of
  its slots; walking a list that closes on itself never ends, which the walks report as
  \<open>Diverge\<close> after as many rounds as there are slots.
\<close>

section \<open>Linked queues\<close>

record slot_queue =
  sq_head :: nat
  sq_tail :: nat

definition slot_queue_new :: slot_queue where
  "slot_queue_new = \<lparr>sq_head = INVALID_SLOT, sq_tail = INVALID_SLOT\<rparr>"

definition set_next :: "nat \<Rightarrow> nat \<Rightarrow> task_table \<Rightarrow> task_table" where
  "set_next i n t = t(i := (t i)\<lparr>ts_next := n\<rparr>)"

definition sq_push_back :: "nat \<Rightarrow> slot_queue \<Rightarrow> task_table \<Rightarrow> (unit, slot_queue \<times> task_table) outcome" where
  "sq_push_back i q t =
     (if MAX_TASKS \<le> i then Panic
      else let t = set_next i INVALID_SLOT t in
        if sq_tail q = INVALID_SLOT then Ok (\<lparr>sq_head = i, sq_tail = i\<rparr>, t)
        else if MAX_TASKS \<le> sq_tail q then Panic
        else Ok (q\<lparr>sq_tail := i\<rparr>, set_next (sq_tail q) i t))"

definition sq_pop_front :: "slot_queue \<Rightarrow> task_table \<Rightarrow> (unit, nat \<times> slot_queue) outcome" where
  "sq_pop_front q t =
     (if sq_head q = INVALID_SLOT \<or> MAX_TASKS \<le> sq_head q then Panic
      else let n = ts_next (t (sq_head q)) in
        Ok (sq_head q,
            \<lparr>sq_head = n, sq_tail = (if n = INVALID_SLOT then INVALID_SLOT else sq_tail q)\<rparr>))"

definition sq_unlink ::
    "slot_queue \<Rightarrow> nat \<Rightarrow> nat \<Rightarrow> task_table \<Rightarrow> (unit, slot_queue \<times> task_table) outcome" where
  "sq_unlink q previous cursor t =
     (let n = ts_next (t cursor);
        q' = q\<lparr>sq_tail := (if sq_tail q = cursor then previous else sq_tail q)\<rparr> in
      if previous = INVALID_SLOT then Ok (q'\<lparr>sq_head := n\<rparr>, t)
      else if MAX_TASKS \<le> previous then Panic
      else Ok (q', set_next previous n t))"

primrec sq_remove_loop ::
    "nat \<Rightarrow> (nat \<Rightarrow> bool) \<Rightarrow> slot_queue \<Rightarrow> nat \<Rightarrow> nat \<Rightarrow> task_table \<Rightarrow>
     (unit, nat \<times> slot_queue \<times> task_table) outcome" where
  "sq_remove_loop 0 accepts q previous cursor t =
     (if cursor = INVALID_SLOT then Ok (INVALID_SLOT, q, t) else Diverge)"
| "sq_remove_loop (Suc rounds) accepts q previous cursor t =
     (if cursor = INVALID_SLOT then Ok (INVALID_SLOT, q, t)
      else if MAX_TASKS \<le> cursor then Panic
      else if accepts cursor then
        and_then (sq_unlink q previous cursor t) (\<lambda>(q', t'). Ok (cursor, q', t'))
      else sq_remove_loop rounds accepts q cursor (ts_next (t cursor)) t)"

definition sq_remove_first_where ::
    "(nat \<Rightarrow> bool) \<Rightarrow> slot_queue \<Rightarrow> task_table \<Rightarrow> (unit, nat \<times> slot_queue \<times> task_table) outcome" where
  "sq_remove_first_where accepts q t =
     sq_remove_loop MAX_TASKS accepts q INVALID_SLOT (sq_head q) t"

primrec sq_contains_loop :: "nat \<Rightarrow> nat \<Rightarrow> nat \<Rightarrow> task_table \<Rightarrow> (unit, bool) outcome" where
  "sq_contains_loop 0 i cursor t = (if cursor = INVALID_SLOT then Ok False else Diverge)"
| "sq_contains_loop (Suc rounds) i cursor t =
     (if cursor = INVALID_SLOT then Ok False
      else if cursor = i then Ok True
      else if MAX_TASKS \<le> cursor then Panic
      else sq_contains_loop rounds i (ts_next (t cursor)) t)"

definition sq_contains :: "nat \<Rightarrow> slot_queue \<Rightarrow> task_table \<Rightarrow> (unit, bool) outcome" where
  "sq_contains i q t = sq_contains_loop MAX_TASKS i (sq_head q) t"

section \<open>Priority tables\<close>

definition MAX_PRIORITY :: nat where "MAX_PRIORITY = 7"
definition PRIORITY_LEVEL_COUNT :: nat where "PRIORITY_LEVEL_COUNT = MAX_PRIORITY + 1"

record slot_table =
  st_queues :: "slot_queue list"
  st_non_empty :: u8

definition slot_table_new :: slot_table where
  "slot_table_new = \<lparr>st_queues = replicate PRIORITY_LEVEL_COUNT slot_queue_new, st_non_empty = 0\<rparr>"

definition st_push :: "nat \<Rightarrow> nat \<Rightarrow> slot_table \<Rightarrow> task_table \<Rightarrow> (unit, slot_table \<times> task_table) outcome" where
  "st_push i priority tab t =
     (if MAX_PRIORITY < priority then Panic
      else and_then (sq_push_back i (st_queues tab ! priority) t) (\<lambda>(q, t').
        Ok (\<lparr>st_queues = (st_queues tab)[priority := q],
             st_non_empty = st_non_empty tab OR push_bit priority 1\<rparr>, t')))"

definition st_is_empty :: "slot_table \<Rightarrow> bool" where
  "st_is_empty tab \<longleftrightarrow> st_non_empty tab = 0"

definition leading_zeros8 :: "u8 \<Rightarrow> nat" where
  "leading_zeros8 w = length (takeWhile (\<lambda>i. \<not> bit w i) [7, 6, 5, 4, 3, 2, 1, 0])"

text \<open>Clears the bit of a level whose queue has become empty.\<close>

definition st_update :: "nat \<Rightarrow> slot_queue \<Rightarrow> slot_table \<Rightarrow> slot_table" where
  "st_update level q tab =
     \<lparr>st_queues = (st_queues tab)[level := q],
      st_non_empty = (if sq_head q = INVALID_SLOT then st_non_empty tab AND NOT (push_bit level 1)
                      else st_non_empty tab)\<rparr>"

definition st_pop :: "slot_table \<Rightarrow> task_table \<Rightarrow> (unit, nat \<times> slot_table) outcome" where
  "st_pop tab t =
     (if st_is_empty tab then Panic
      else let level = 8 - 1 - leading_zeros8 (st_non_empty tab) in
        and_then (sq_pop_front (st_queues tab ! level) t) (\<lambda>(i, q). Ok (i, st_update level q tab)))"

primrec st_contains_from :: "nat \<Rightarrow> slot_queue list \<Rightarrow> task_table \<Rightarrow> (unit, bool) outcome" where
  "st_contains_from i [] t = Ok False"
| "st_contains_from i (q # qs) t =
     and_then (sq_contains i q t) (\<lambda>found. if found then Ok True else st_contains_from i qs t)"

definition st_contains :: "nat \<Rightarrow> slot_table \<Rightarrow> task_table \<Rightarrow> (unit, bool) outcome" where
  "st_contains i tab t = st_contains_from i (st_queues tab) t"

primrec st_take_from ::
    "nat list \<Rightarrow> slot_table \<Rightarrow> task_table \<Rightarrow> (unit, nat \<times> slot_table \<times> task_table) outcome" where
  "st_take_from [] tab t = Ok (INVALID_SLOT, tab, t)"
| "st_take_from (level # levels) tab t =
     and_then (sq_remove_first_where (\<lambda>queued. \<not> ts_on_cpu (t queued)) (st_queues tab ! level) t)
       (\<lambda>(i, q, t').
         if i = INVALID_SLOT then st_take_from levels tab t
         else Ok (i, st_update level q tab, t'))"

definition st_take_not_on_cpu ::
    "slot_table \<Rightarrow> task_table \<Rightarrow> (unit, nat \<times> slot_table \<times> task_table) outcome" where
  "st_take_not_on_cpu tab t = st_take_from (rev [0..<PRIORITY_LEVEL_COUNT]) tab t"

section \<open>The run queue of a core\<close>

record sleeping_task =
  sl_ref :: task_ref
  sl_wake_time_us :: nat

record core_run_queue =
  executing_tasks :: slot_table
  yielding_tasks :: slot_table
  sleeping_tasks :: "sleeping_task list"
  sleeping_tasks_count :: nat

definition sleeping_task_empty :: sleeping_task where
  "sleeping_task_empty =
     \<lparr>sl_ref = \<lparr>tr_slot = INVALID_SLOT, tr_pid = INVALID_PID\<rparr>, sl_wake_time_us = 0\<rparr>"

definition core_run_queue_new :: core_run_queue where
  "core_run_queue_new =
     \<lparr>executing_tasks = slot_table_new, yielding_tasks = slot_table_new,
      sleeping_tasks = replicate MAX_TASKS sleeping_task_empty, sleeping_tasks_count = 0\<rparr>"

text \<open>A reference is stale when its slot has a new owner or its task no longer waits.\<close>

definition ref_is_stale :: "task_ref \<Rightarrow> task_table \<Rightarrow> (unit, bool) outcome" where
  "ref_is_stale r t =
     (if tr_slot r < MAX_TASKS
      then Ok (ts_pid (t (tr_slot r)) \<noteq> tr_pid r \<or> ts_state (t (tr_slot r)) \<noteq> Blocked)
      else Panic)"

text \<open>\<open>count -= 1; array[index] = array[count]\<close>: the last entry takes the place of a removed one.\<close>

definition swap_remove_at :: "nat \<Rightarrow> 'a list \<times> nat \<Rightarrow> 'a list \<times> nat" where
  "swap_remove_at index = (\<lambda>(xs, n). (xs[index := xs ! (n - 1)], n - 1))"

text \<open>\<open>rounds\<close> is the distance between the index and the count, which every round makes smaller.\<close>

primrec remove_stale_loop ::
    "nat \<Rightarrow> ('a \<Rightarrow> task_ref) \<Rightarrow> task_table \<Rightarrow> nat \<Rightarrow> 'a list \<times> nat \<Rightarrow> (unit, 'a list \<times> nat) outcome" where
  "remove_stale_loop 0 ref_of t index arr = Ok arr"
| "remove_stale_loop (Suc rounds) ref_of t index arr =
     and_then (ref_is_stale (ref_of (fst arr ! index)) t) (\<lambda>stale.
       if stale then remove_stale_loop rounds ref_of t index (swap_remove_at index arr)
       else remove_stale_loop rounds ref_of t (index + 1) arr)"

definition remove_stale_sleeping_tasks ::
    "task_table \<Rightarrow> core_run_queue \<Rightarrow> (unit, core_run_queue) outcome" where
  "remove_stale_sleeping_tasks t rq =
     and_then (remove_stale_loop (sleeping_tasks_count rq) sl_ref t 0
         (sleeping_tasks rq, sleeping_tasks_count rq)) (\<lambda>(xs, n).
       Ok (rq\<lparr>sleeping_tasks := xs, sleeping_tasks_count := n\<rparr>))"

definition add_sleeping_task ::
    "task_ref \<Rightarrow> nat \<Rightarrow> task_table \<Rightarrow> core_run_queue \<Rightarrow> (unit, core_run_queue) outcome" where
  "add_sleeping_task r wake_time_us t rq =
     and_then (if sleeping_tasks_count rq = length (sleeping_tasks rq)
               then remove_stale_sleeping_tasks t rq else Ok rq) (\<lambda>rq.
       if length (sleeping_tasks rq) \<le> sleeping_tasks_count rq then Panic
       else Ok (rq\<lparr>sleeping_tasks := (sleeping_tasks rq)[sleeping_tasks_count rq :=
                      \<lparr>sl_ref = r, sl_wake_time_us = wake_time_us\<rparr>],
                   sleeping_tasks_count := sleeping_tasks_count rq + 1\<rparr>))"

text \<open>
  The loop of \<open>wake_due_sleeping_tasks\<close> works on the run queue, the task table, the number of
  runnable tasks of the core and the highest priority woken so far.
\<close>

type_synonym wake_state = "core_run_queue \<times> task_table \<times> nat \<times> nat option"

definition drop_sleeper :: "nat \<Rightarrow> core_run_queue \<Rightarrow> core_run_queue" where
  "drop_sleeper index rq =
     (case swap_remove_at index (sleeping_tasks rq, sleeping_tasks_count rq) of
        (xs, n) \<Rightarrow> rq\<lparr>sleeping_tasks := xs, sleeping_tasks_count := n\<rparr>)"

definition wake_sleeper :: "nat \<Rightarrow> wake_state \<Rightarrow> (unit, wake_state) outcome" where
  "wake_sleeper i = (\<lambda>(rq, t, runnable, highest).
     if ts_state (t i) = Blocked then
       (let priority = ts_priority (t i);
          t = t(i := snd (transition Blocked Ready (t i))) in
        and_then (st_push i priority (executing_tasks rq) t) (\<lambda>(tab, t).
          Ok (rq\<lparr>executing_tasks := tab\<rparr>, t, runnable + 1,
              Some (case highest of None \<Rightarrow> priority | Some p \<Rightarrow> max p priority))))
     else Ok (rq, t, runnable, highest))"

primrec wake_due_loop :: "nat \<Rightarrow> nat \<Rightarrow> nat \<Rightarrow> wake_state \<Rightarrow> (unit, wake_state) outcome" where
  "wake_due_loop 0 now_us index w = Ok w"
| "wake_due_loop (Suc rounds) now_us index w =
     (case w of (rq, t, runnable, highest) \<Rightarrow>
       let sleeper = sleeping_tasks rq ! index in
       and_then (ref_is_stale (sl_ref sleeper) t) (\<lambda>stale.
         if stale then
           wake_due_loop rounds now_us index (drop_sleeper index rq, t, runnable, highest)
         else if now_us < sl_wake_time_us sleeper then wake_due_loop rounds now_us (index + 1) w
         else
           and_then (wake_sleeper (tr_slot (sl_ref sleeper)) w) (\<lambda>(rq, t, runnable, highest).
             wake_due_loop rounds now_us index (drop_sleeper index rq, t, runnable, highest))))"

definition rq_wake_due_sleeping_tasks ::
    "nat \<Rightarrow> core_run_queue \<Rightarrow> task_table \<Rightarrow> nat \<Rightarrow> (unit, wake_state) outcome" where
  "rq_wake_due_sleeping_tasks now_us rq t runnable =
     wake_due_loop (sleeping_tasks_count rq) now_us 0 (rq, t, runnable, None)"

definition push_executing_task ::
    "nat \<Rightarrow> nat \<Rightarrow> core_run_queue \<Rightarrow> task_table \<Rightarrow> (unit, core_run_queue \<times> task_table) outcome" where
  "push_executing_task i priority rq t =
     and_then (st_push i priority (executing_tasks rq) t) (\<lambda>(tab, t').
       Ok (rq\<lparr>executing_tasks := tab\<rparr>, t'))"

definition push_yielding_task ::
    "nat \<Rightarrow> nat \<Rightarrow> core_run_queue \<Rightarrow> task_table \<Rightarrow> (unit, core_run_queue \<times> task_table) outcome" where
  "push_yielding_task i priority rq t =
     and_then (st_push i priority (yielding_tasks rq) t) (\<lambda>(tab, t').
       Ok (rq\<lparr>yielding_tasks := tab\<rparr>, t'))"

definition pick_next_task ::
    "core_run_queue \<Rightarrow> task_table \<Rightarrow> (unit, nat \<times> core_run_queue) outcome" where
  "pick_next_task rq t =
     (if st_is_empty (executing_tasks rq) \<and> st_is_empty (yielding_tasks rq)
      then Ok (INVALID_SLOT, rq)
      else
        let rq = (if st_is_empty (executing_tasks rq)
                  then rq\<lparr>executing_tasks := yielding_tasks rq, yielding_tasks := executing_tasks rq\<rparr>
                  else rq) in
        and_then (st_pop (executing_tasks rq) t) (\<lambda>(i, tab). Ok (i, rq\<lparr>executing_tasks := tab\<rparr>)))"

definition take_stealable_task ::
    "core_run_queue \<Rightarrow> task_table \<Rightarrow> (unit, nat \<times> core_run_queue \<times> task_table) outcome" where
  "take_stealable_task rq t =
     and_then (st_take_not_on_cpu (executing_tasks rq) t) (\<lambda>(i, tab, t').
       if i \<noteq> INVALID_SLOT then Ok (i, rq\<lparr>executing_tasks := tab\<rparr>, t')
       else
         and_then (st_take_not_on_cpu (yielding_tasks rq) t) (\<lambda>(i, tab, t').
           Ok (i, rq\<lparr>yielding_tasks := tab\<rparr>, t')))"

definition rq_contains :: "nat \<Rightarrow> core_run_queue \<Rightarrow> task_table \<Rightarrow> (unit, bool) outcome" where
  "rq_contains i rq t =
     and_then (st_contains i (executing_tasks rq) t) (\<lambda>found.
       if found then Ok True else st_contains i (yielding_tasks rq) t)"

section \<open>A linked queue is a list\<close>

primrec slot_path :: "task_table \<Rightarrow> nat \<Rightarrow> nat list \<Rightarrow> bool" where
  "slot_path t h [] \<longleftrightarrow> h = INVALID_SLOT"
| "slot_path t h (x # xs) \<longleftrightarrow> h = x \<and> x < MAX_TASKS \<and> slot_path t (ts_next (t x)) xs"

definition queue_rel :: "task_table \<Rightarrow> slot_queue \<Rightarrow> nat list \<Rightarrow> bool" where
  "queue_rel t q xs \<longleftrightarrow> slot_path t (sq_head q) xs \<and> distinct xs
     \<and> sq_tail q = (if xs = [] then INVALID_SLOT else last xs)"

definition last_slot :: "nat list \<Rightarrow> nat" where
  "last_slot xs = (if xs = [] then INVALID_SLOT else last xs)"

definition head_slot :: "nat list \<Rightarrow> nat" where
  "head_slot xs = (if xs = [] then INVALID_SLOT else hd xs)"

lemma end_slot_simps [simp]:
  "last_slot [] = INVALID_SLOT" "last_slot (xs @ [x]) = x" "head_slot [] = INVALID_SLOT"
  "head_slot (x # xs) = x"
  by (simp_all add: last_slot_def head_slot_def)

text \<open>Two tables that differ in links only, and only at the given slots.\<close>

definition links_only :: "nat set \<Rightarrow> task_table \<Rightarrow> task_table \<Rightarrow> bool" where
  "links_only S t t' \<longleftrightarrow> (\<forall>i. t' i = (t i)\<lparr>ts_next := ts_next (t' i)\<rparr>) \<and> (\<forall>i. i \<notin> S \<longrightarrow> t' i = t i)"

lemma links_only_refl [simp]: "links_only S t t"
  by (simp add: links_only_def)

lemma links_only_set_next: "links_only {i} t (set_next i n t)"
  by (simp add: links_only_def set_next_def)

lemma links_only_trans: "links_only S t t' \<Longrightarrow> links_only S' t' t'' \<Longrightarrow> links_only (S \<union> S') t t''"
  unfolding links_only_def by (metis (no_types, lifting) UnCI task_slot.select_convs task_slot.surjective
      task_slot.update_convs(12))

lemma links_only_mono: "links_only S t t' \<Longrightarrow> S \<subseteq> S' \<Longrightarrow> links_only S' t t'"
  by (auto simp: links_only_def)

lemma links_only_fields:
  assumes "links_only S t t'"
  shows "ts_state (t' i) = ts_state (t i)" "ts_pid (t' i) = ts_pid (t i)"
    "ts_priority (t' i) = ts_priority (t i)" "ts_home_core (t' i) = ts_home_core (t i)"
    "ts_on_cpu (t' i) = ts_on_cpu (t i)" "ts_kill_pending (t' i) = ts_kill_pending (t i)"
  using assms unfolding links_only_def
  by (metis task_slot.select_convs(1-6) task_slot.surjective task_slot.update_convs(12))+

lemma slot_path_cong:
  "(\<And>x. x \<in> set xs \<Longrightarrow> ts_next (t' x) = ts_next (t x)) \<Longrightarrow> slot_path t' h xs = slot_path t h xs"
  by (induction xs arbitrary: h) auto

lemma slot_path_range: "slot_path t h xs \<Longrightarrow> x \<in> set xs \<Longrightarrow> x < MAX_TASKS"
  by (induction xs arbitrary: h) auto

lemma queue_rel_cong:
  "(\<And>x. x \<in> set xs \<Longrightarrow> ts_next (t' x) = ts_next (t x)) \<Longrightarrow> queue_rel t' q xs = queue_rel t q xs"
  unfolding queue_rel_def by (simp cong: slot_path_cong)

lemma queue_rel_frame:
  "links_only S t t' \<Longrightarrow> S \<inter> set xs = {} \<Longrightarrow> queue_rel t' q xs = queue_rel t q xs"
  by (rule queue_rel_cong) (auto simp: links_only_def)

lemma queue_rel_Nil: "queue_rel t q [] \<longleftrightarrow> q = slot_queue_new"
  by (cases q) (auto simp: queue_rel_def slot_queue_new_def)

lemma queue_rel_head: "queue_rel t q xs \<Longrightarrow> sq_head q = INVALID_SLOT \<longleftrightarrow> xs = []"
  by (cases xs) (auto simp: queue_rel_def)

lemma ts_next_set_next [simp]: "ts_next (set_next i n t j) = (if j = i then n else ts_next (t j))"
  by (simp add: set_next_def)

lemma slot_path_snoc:
  assumes "slot_path t h xs" "distinct (xs @ [x])" "x < MAX_TASKS" "xs \<noteq> []"
  shows "slot_path (set_next (last xs) x (set_next x INVALID_SLOT t)) h (xs @ [x])"
  using assms
proof (induction xs arbitrary: h)
  case (Cons y ys)
  show ?case
  proof (cases "ys = []")
    case True
    with Cons.prems show ?thesis by auto
  next
    case False
    with Cons.IH [of "ts_next (t y)"] Cons.prems have
      "slot_path (set_next (last ys) x (set_next x INVALID_SLOT t)) (ts_next (t y)) (ys @ [x])" by auto
    moreover have "last ys \<noteq> y" "x \<noteq> y" using Cons.prems False by auto
    ultimately show ?thesis using Cons.prems False by simp
  qed
qed simp

lemma sq_push_back_rel:
  assumes "queue_rel t q xs" "x \<notin> set xs" "x < MAX_TASKS"
  obtains q' t' where "sq_push_back x q t = Ok (q', t')" "queue_rel t' q' (xs @ [x])"
    "links_only (insert x (set xs)) t t'"
proof (cases "xs = []")
  case True
  let ?t = "set_next x INVALID_SLOT t"
  have "sq_push_back x q t = Ok (\<lparr>sq_head = x, sq_tail = x\<rparr>, ?t)"
    using True assms by (simp add: sq_push_back_def queue_rel_def Let_def)
  moreover have "queue_rel ?t \<lparr>sq_head = x, sq_tail = x\<rparr> [x]"
    using assms by (simp add: queue_rel_def set_next_def)
  ultimately show ?thesis
    using that True links_only_mono [OF links_only_set_next] by fastforce
next
  case False
  let ?t = "set_next (last xs) x (set_next x INVALID_SLOT t)"
  have l: "last xs < MAX_TASKS" using assms False by (auto simp: queue_rel_def intro: slot_path_range)
  have "sq_push_back x q t = Ok (q\<lparr>sq_tail := x\<rparr>, ?t)"
    using False assms l by (simp add: sq_push_back_def queue_rel_def Let_def not_le)
  moreover have "queue_rel ?t (q\<lparr>sq_tail := x\<rparr>) (xs @ [x])"
    using slot_path_snoc [of t "sq_head q" xs x] assms False by (simp add: queue_rel_def)
  moreover have "links_only (insert x (set xs)) t ?t"
    using links_only_mono [OF links_only_trans [OF links_only_set_next links_only_set_next]] False
    by (metis insert_subset last_in_set subset_insertI2 insert_is_Un empty_subsetI insertI1)
  ultimately show ?thesis using that by blast
qed

lemma sq_pop_front_rel:
  assumes "queue_rel t q (x # xs)"
  obtains q' where "sq_pop_front q t = Ok (x, q')" "queue_rel t q' xs"
proof -
  let ?q = "\<lparr>sq_head = ts_next (t x),
    sq_tail = (if ts_next (t x) = INVALID_SLOT then INVALID_SLOT else sq_tail q)\<rparr>"
  have "ts_next (t x) = INVALID_SLOT \<longleftrightarrow> xs = []" using assms by (cases xs) (auto simp: queue_rel_def)
  then have "queue_rel t ?q xs" using assms by (auto simp: queue_rel_def)
  moreover have "sq_pop_front q t = Ok (x, ?q)"
    using assms by (auto simp: sq_pop_front_def queue_rel_def Let_def)
  ultimately show ?thesis using that by blast
qed

text \<open>Removal of a slot from the middle of a queue.\<close>

primrec path_to :: "task_table \<Rightarrow> nat \<Rightarrow> nat list \<Rightarrow> nat \<Rightarrow> bool" where
  "path_to t h [] e \<longleftrightarrow> h = e"
| "path_to t h (x # xs) e \<longleftrightarrow> h = x \<and> x < MAX_TASKS \<and> path_to t (ts_next (t x)) xs e"

lemma slot_path_split: "slot_path t h (ys @ zs) \<longleftrightarrow> (\<exists>e. path_to t h ys e \<and> slot_path t e zs)"
  by (induction ys arbitrary: h) auto

lemma path_to_cong:
  "(\<And>x. x \<in> set xs \<Longrightarrow> ts_next (t' x) = ts_next (t x)) \<Longrightarrow> path_to t' h xs e = path_to t h xs e"
  by (induction xs arbitrary: h) auto

lemma path_to_redirect:
  assumes "path_to t h ys e" "distinct ys" "ys \<noteq> []"
  shows "path_to (set_next (last ys) e' t) h ys e'"
proof (cases ys rule: rev_cases)
  case (snoc xs x)
  have snoc_path: "path_to t' h (xs @ [x]) e \<longleftrightarrow> path_to t' h xs x \<and> x < MAX_TASKS \<and> ts_next (t' x) = e"
    for t' h e by (induction xs arbitrary: h) auto
  have "path_to (set_next x e' t) h xs x = path_to t h xs x"
    by (rule path_to_cong) (use snoc assms(2) in auto)
  with assms(1) snoc snoc_path show ?thesis by simp
qed (use assms in simp)

lemma sq_unlink_rel:
  assumes rel: "queue_rel t q (ys @ z # zs)"
  obtains q' t' where
    "sq_unlink q (last_slot ys) z t = Ok (q', t')"
    "queue_rel t' q' (ys @ zs)" "links_only (set ys) t t'"
proof (cases "ys = []")
  case True
  let ?q = "q\<lparr>sq_tail := (if sq_tail q = z then INVALID_SLOT else sq_tail q), sq_head := ts_next (t z)\<rparr>"
  have "sq_tail q = z \<longleftrightarrow> zs = []"
    using rel True by (cases zs rule: rev_cases) (auto simp: queue_rel_def)
  then have "queue_rel t ?q zs" using rel True by (auto simp: queue_rel_def)
  then show ?thesis using that [of ?q t] True by (simp add: sq_unlink_def Let_def)
next
  case False
  let ?t = "set_next (last ys) (ts_next (t z)) t"
    and ?q = "q\<lparr>sq_tail := (if sq_tail q = z then last ys else sq_tail q)\<rparr>"
  have d: "distinct ys" "z \<notin> set ys" "set ys \<inter> set zs = {}" "distinct (ys @ zs)" "z \<notin> set zs"
    using rel by (auto simp: queue_rel_def)
  obtain e where "path_to t (sq_head q) ys e" "slot_path t (ts_next (t z)) zs"
    using rel by (auto simp: queue_rel_def slot_path_split)
  moreover have "last ys \<notin> set zs" using d(3) False last_in_set by blast
  ultimately have "slot_path ?t (sq_head q) (ys @ zs)"
    using path_to_redirect [OF _ d(1) False] slot_path_cong [of zs ?t t]
    by (metis slot_path_split ts_next_set_next)
  then have "queue_rel ?t ?q (ys @ zs)" using rel False d by (auto simp: queue_rel_def)
  moreover have "last ys < MAX_TASKS"
    using rel False slot_path_range [of t "sq_head q" "ys @ z # zs" "last ys"] by (auto simp: queue_rel_def)
  ultimately show ?thesis
    using that [of ?q ?t] False links_only_mono [OF links_only_set_next]
    by (simp add: sq_unlink_def last_slot_def Let_def not_le)
qed

lemma sq_remove_loop_rel:
  assumes "queue_rel t q (ys @ zs)" "length zs \<le> rounds"
  shows "sq_remove_loop rounds acc q (last_slot ys) (head_slot zs) t
    = (case dropWhile (\<lambda>x. \<not> acc x) zs of
         [] \<Rightarrow> Ok (INVALID_SLOT, q, t)
       | z # rest \<Rightarrow>
           and_then (sq_unlink q (last_slot (ys @ takeWhile (\<lambda>x. \<not> acc x) zs)) z t)
             (\<lambda>(q', t'). Ok (z, q', t')))"
  using assms
proof (induction zs arbitrary: ys rounds)
  case Nil
  then show ?case by (cases rounds) auto
next
  case (Cons z zs)
  then obtain r where r: "rounds = Suc r" by (cases rounds) auto
  have z: "z < MAX_TASKS" using Cons.prems slot_path_range by (fastforce simp: queue_rel_def)
  show ?case
  proof (cases "acc z")
    case True
    then show ?thesis using r z by simp
  next
    case False
    have n: "ts_next (t z) = head_slot zs"
      using Cons.prems by (cases zs) (auto simp: queue_rel_def slot_path_split)
    have "last_slot ((ys @ [z]) @ takeWhile (\<lambda>x. \<not> acc x) zs)
        = last_slot (ys @ takeWhile (\<lambda>x. \<not> acc x) (z # zs))" using False by simp
    with Cons.IH [of "ys @ [z]" r] Cons.prems r False z n show ?thesis by (simp cong: list.case_cong)
  qed
qed

lemma queue_rel_length: "queue_rel t q xs \<Longrightarrow> length xs \<le> MAX_TASKS"
proof -
  assume rel: "queue_rel t q xs"
  have "set xs \<subseteq> {..<MAX_TASKS}" using rel slot_path_range by (auto simp: queue_rel_def)
  from card_mono [OF _ this] show ?thesis using rel by (simp add: queue_rel_def distinct_card)
qed

lemma sq_remove_first_where_rel:
  assumes rel: "queue_rel t q xs"
  obtains (none) "sq_remove_first_where acc q t
      = (Ok (INVALID_SLOT, q, t) :: (unit, nat \<times> slot_queue \<times> task_table) outcome)" "\<forall>x \<in> set xs. \<not> acc x"
  | (some) ys z zs q' t' where "xs = ys @ z # zs" "acc z" "\<forall>y \<in> set ys. \<not> acc y"
      "sq_remove_first_where acc q t = Ok (z, q', t')" "queue_rel t' q' (ys @ zs)"
      "links_only (set ys) t t'"
proof -
  let ?d = "dropWhile (\<lambda>x. \<not> acc x) xs" and ?w = "takeWhile (\<lambda>x. \<not> acc x) xs"
  have h: "sq_head q = head_slot xs"
    using rel by (cases xs) (auto simp: queue_rel_def)
  have run: "(sq_remove_first_where acc q t :: (unit, nat \<times> slot_queue \<times> task_table) outcome) = (case ?d of
         [] \<Rightarrow> Ok (INVALID_SLOT, q, t)
       | z # rest \<Rightarrow>
           and_then (sq_unlink q (last_slot ?w) z t) (\<lambda>(q', t'). Ok (z, q', t')))"
    using sq_remove_loop_rel [of t q "[]" xs MAX_TASKS acc] rel queue_rel_length [OF rel]
    by (simp add: sq_remove_first_where_def h cong: list.case_cong)
  show ?thesis
  proof (cases ?d)
    case Nil
    then have "\<forall>x \<in> set xs. \<not> acc x" using dropWhile_eq_Nil_conv by fastforce
    then show ?thesis using none run unfolding Nil by simp
  next
    case (Cons z zs)
    then have xs: "xs = ?w @ z # zs" by (metis takeWhile_dropWhile_id)
    moreover have "acc z" using Cons by (metis dropWhile_eq_Cons_conv)
    moreover obtain q' t' where "sq_unlink q (last_slot ?w) z t = Ok (q', t')"
      "queue_rel t' q' (?w @ zs)" "links_only (set ?w) t t'"
      using sq_unlink_rel rel xs by metis
    ultimately show ?thesis using some [of ?w z zs q' t'] run Cons by (auto dest: set_takeWhileD)
  qed
qed

lemma sq_contains_loop_rel:
  "slot_path t h xs \<Longrightarrow> length xs \<le> rounds \<Longrightarrow> i < MAX_TASKS \<Longrightarrow>
   sq_contains_loop rounds i h t = Ok (i \<in> set xs)"
proof (induction xs arbitrary: h rounds)
  case Nil
  then show ?case by (cases rounds) auto
next
  case (Cons x xs)
  then obtain r where "rounds = Suc r" by (cases rounds) auto
  with Cons show ?case by auto
qed

lemma sq_contains_rel:
  "queue_rel t q xs \<Longrightarrow> i < MAX_TASKS \<Longrightarrow> sq_contains i q t = Ok (i \<in> set xs)"
  using queue_rel_length [of t q xs]
  by (simp add: sq_contains_def queue_rel_def sq_contains_loop_rel)

section \<open>A table is a family of lists\<close>

type_synonym levels = "nat \<Rightarrow> nat list"

definition slots_of :: "levels \<Rightarrow> nat set" where
  "slots_of L = (\<Union>l. set (L l))"

definition table_rel :: "task_table \<Rightarrow> slot_table \<Rightarrow> levels \<Rightarrow> bool" where
  "table_rel t tab L \<longleftrightarrow> length (st_queues tab) = 8
     \<and> (\<forall>l < 8. queue_rel t (st_queues tab ! l) (L l)) \<and> (\<forall>l \<ge> 8. L l = [])
     \<and> (\<forall>l l'. l \<noteq> l' \<longrightarrow> set (L l) \<inter> set (L l') = {})
     \<and> (\<forall>l < 8. bit (st_non_empty tab) l \<longleftrightarrow> L l \<noteq> [])"

lemma in_slots_of [intro]: "x \<in> set (L l) \<Longrightarrow> x \<in> slots_of L"
  by (auto simp: slots_of_def)

lemma slots_of_upd:
  "slots_of (L(l := xs)) = set xs \<union> (\<Union>k \<in> - {l}. set (L k))"
  by (auto simp: slots_of_def split: if_splits)

lemma slots_of_push: "slots_of (L(p := L p @ [x])) = insert x (slots_of L)"
  by (auto simp: slots_of_def split: if_splits)

lemma slots_of_empty: "slots_of L = {} \<longleftrightarrow> (\<forall>l. L l = [])"
  by (auto simp: slots_of_def)

lemma table_rel_range: "table_rel t tab L \<Longrightarrow> x \<in> slots_of L \<Longrightarrow> x < MAX_TASKS"
proof -
  assume r: "table_rel t tab L" and "x \<in> slots_of L"
  then obtain l where l: "x \<in> set (L l)" by (auto simp: slots_of_def)
  with r have "l < 8" by (auto simp: table_rel_def not_less [symmetric])
  with r l show ?thesis by (auto simp: table_rel_def queue_rel_def intro: slot_path_range)
qed

lemma slots_of_pop:
  assumes "table_rel t tab L" "L l = ys @ x # zs"
  shows "slots_of (L(l := ys @ zs)) = slots_of L - {x}" "x \<in> slots_of L"
proof -
  have "x \<notin> set (ys @ zs)"
  proof (cases "l < 8")
    case True
    then have "distinct (L l)" using assms(1) by (simp add: table_rel_def queue_rel_def)
    with assms(2) show ?thesis by simp
  qed (use assms in \<open>auto simp: table_rel_def\<close>)
  moreover have "x \<notin> set (L k)" if "k \<noteq> l" for k
    using assms that by (fastforce simp: table_rel_def)
  ultimately have "x \<notin> slots_of (L(l := ys @ zs))" by (auto simp: slots_of_upd)
  moreover have "slots_of L = insert x (slots_of (L(l := ys @ zs)))"
    using slots_of_upd [of L l "L l", unfolded fun_upd_triv] slots_of_upd [of L l "ys @ zs"]
    unfolding assms(2) by simp
  ultimately show "slots_of (L(l := ys @ zs)) = slots_of L - {x}" by auto
  show "x \<in> slots_of L" by (rule in_slots_of [of _ _ l]) (simp add: assms(2))
qed

lemma table_rel_frame:
  assumes "table_rel t tab L" "links_only S t t'" "S \<inter> slots_of L = {}"
  shows "table_rel t' tab L"
  using assms queue_rel_frame [OF assms(2)] by (fastforce simp: table_rel_def slots_of_def)

lemma table_rel_new: "table_rel t slot_table_new (\<lambda>l. [])"
  by (auto simp: table_rel_def slot_table_new_def PRIORITY_LEVEL_COUNT_def MAX_PRIORITY_def queue_rel_Nil)

lemma bit_u8_one: "bit (2 ^ p :: u8) l \<longleftrightarrow> l = p \<and> p < 8"
  by (auto simp: bit_exp_iff)

lemma st_push_rel:
  assumes rel: "table_rel t tab L" and x: "x \<notin> slots_of L" "x < MAX_TASKS" and p: "p \<le> MAX_PRIORITY"
  obtains tab' t' where "st_push x p tab t = Ok (tab', t')" "table_rel t' tab' (L(p := L p @ [x]))"
    "links_only (insert x (slots_of L)) t t'" "links_only (insert x (set (L p))) t t'"
proof -
  have p8: "p < 8" using p by (simp add: MAX_PRIORITY_def)
  have q: "queue_rel t (st_queues tab ! p) (L p)" "x \<notin> set (L p)"
    using rel p8 x by (auto simp: table_rel_def)
  obtain q' t' where pb: "sq_push_back x (st_queues tab ! p) t = Ok (q', t')"
    and q': "queue_rel t' q' (L p @ [x])" "links_only (insert x (set (L p))) t t'"
    using sq_push_back_rel [OF q x(2)] .
  let ?tab = "\<lparr>st_queues = (st_queues tab)[p := q'], st_non_empty = st_non_empty tab OR push_bit p 1\<rparr>"
  have "queue_rel t' (st_queues tab ! l) (L l)" if "l < 8" "l \<noteq> p" for l
  proof -
    have "insert x (set (L p)) \<inter> set (L l) = {}" using rel x(1) that by (auto simp: table_rel_def)
    with queue_rel_frame [OF q'(2) this] rel that show ?thesis by (simp add: table_rel_def)
  qed
  moreover have "bit (st_non_empty ?tab) l \<longleftrightarrow> (L(p := L p @ [x])) l \<noteq> []" if "l < 8" for l
    using rel that by (auto simp: table_rel_def bit_or_iff bit_u8_one p8)
  moreover have "set ((L(p := L p @ [x])) l) \<inter> set ((L(p := L p @ [x])) l') = {}" if "l \<noteq> l'" for l l'
    using rel x(1) that by (auto simp: table_rel_def)
  ultimately have "table_rel t' ?tab (L(p := L p @ [x]))"
    using rel q' p8 by (auto simp: table_rel_def nth_list_update)
  moreover have "links_only (insert x (slots_of L)) t t'"
    by (rule links_only_mono [OF q'(2)]) (auto simp: slots_of_def)
  ultimately show ?thesis using that [OF _ _ _ q'(2)] pb p by (simp add: st_push_def)
qed

lemma st_is_empty_rel: "table_rel t tab L \<Longrightarrow> st_is_empty tab \<longleftrightarrow> (\<forall>l. L l = [])"
proof -
  assume rel: "table_rel t tab L"
  have "st_non_empty tab = 0 \<longleftrightarrow> (\<forall>l < 8. \<not> bit (st_non_empty tab) l)"
    by (auto intro: bit_word_eqI)
  moreover have "(\<forall>l. L l = []) \<longleftrightarrow> (\<forall>l < 8. L l = [])"
    using rel by (metis not_le table_rel_def)
  ultimately show ?thesis using rel by (simp add: st_is_empty_def table_rel_def)
qed

lemma leading_zeros8_highest:
  assumes "w \<noteq> 0"
  shows "bit w (7 - leading_zeros8 w)" "\<forall>k. 7 - leading_zeros8 w < k \<longrightarrow> k < 8 \<longrightarrow> \<not> bit w k"
    "leading_zeros8 w < 8"
proof -
  have "\<exists>k < 8. bit w k" using assms bit_word_eqI [of w 0] by auto
  then have cases: "bit w 7 \<or> bit w 6 \<or> bit w 5 \<or> bit w 4 \<or> bit w 3 \<or> bit w 2 \<or> bit w 1 \<or> bit w 0"
    by (auto simp: less_Suc_eq numeral_eq_Suc)
  have k8: "k < 8 \<longleftrightarrow> k = 0 \<or> k = 1 \<or> k = 2 \<or> k = 3 \<or> k = 4 \<or> k = 5 \<or> k = 6 \<or> k = (7 :: nat)" for k
    by auto
  show "bit w (7 - leading_zeros8 w)" "leading_zeros8 w < 8"
    using cases by (auto simp: leading_zeros8_def)
  show "\<forall>k. 7 - leading_zeros8 w < k \<longrightarrow> k < 8 \<longrightarrow> \<not> bit w k"
    using cases unfolding k8 by (auto simp: leading_zeros8_def split: if_splits)
qed

lemma st_update_rel:
  assumes rel: "table_rel t tab L" and l: "l < 8" and q: "queue_rel t' q xs" "set xs \<subseteq> set (L l)"
    and links: "links_only (set (L l)) t t'"
  shows "table_rel t' (st_update l q tab) (L(l := xs))"
proof -
  have "queue_rel t' (st_queues tab ! k) (L k)" if "k < 8" "k \<noteq> l" for k
  proof -
    have "set (L l) \<inter> set (L k) = {}" using rel that by (auto simp: table_rel_def)
    with queue_rel_frame [OF links this] rel that show ?thesis by (simp add: table_rel_def)
  qed
  moreover have "bit (st_non_empty (st_update l q tab)) k \<longleftrightarrow> (L(l := xs)) k \<noteq> []" if "k < 8" for k
    using rel that l queue_rel_head [OF q(1)] q(2)
    by (auto simp: st_update_def table_rel_def bit_and_iff bit_not_iff bit_u8_one)
  moreover have sub: "set ((L(l := xs)) k) \<subseteq> set (L k)" for k using q(2) by simp
  then have "set ((L(l := xs)) k) \<inter> set ((L(l := xs)) k') = {}" if "k \<noteq> k'" for k k'
    using rel that unfolding table_rel_def by (meson disjoint_iff subsetD)
  ultimately show ?thesis using rel q(1) l
    by (auto simp: table_rel_def st_update_def nth_list_update)
qed

lemma st_pop_rel:
  assumes rel: "table_rel t tab L" and ne: "\<exists>l. L l \<noteq> []"
  obtains l x xs tab' where "L l = x # xs" "\<forall>k > l. L k = []" "l < 8"
    "st_pop tab t = Ok (x, tab')" "table_rel t tab' (L(l := xs))"
proof -
  have w: "st_non_empty tab \<noteq> 0" using st_is_empty_rel [OF rel] ne by (auto simp: st_is_empty_def)
  define l where "l = 7 - leading_zeros8 (st_non_empty tab)"
  note hi = leading_zeros8_highest [OF w, folded l_def]
  have l8: "l < 8" by (simp add: l_def)
  with hi(1) rel have "L l \<noteq> []" by (simp add: table_rel_def)
  then obtain x xs where xs: "L l = x # xs" by (cases "L l") auto
  have up: "\<forall>k > l. L k = []" using hi(2) rel by (metis not_le table_rel_def)
  have "queue_rel t (st_queues tab ! l) (x # xs)" using rel l8 xs by (metis table_rel_def)
  then obtain q' where q': "sq_pop_front (st_queues tab ! l) t = Ok (x, q')" "queue_rel t q' xs"
    by (rule sq_pop_front_rel)
  have "st_pop tab t = Ok (x, st_update l q' tab)"
    using w q'(1) by (simp add: st_pop_def st_is_empty_def l_def Let_def)
  moreover have "table_rel t (st_update l q' tab) (L(l := xs))"
    by (rule st_update_rel [OF rel l8 q'(2)]) (auto simp: xs)
  ultimately show ?thesis using that xs up l8 by blast
qed

lemma st_take_from_rel:
  assumes rel: "table_rel t tab L" and lv: "set levels \<subseteq> {..<8}"
  obtains (none) "st_take_from levels tab t = Ok (INVALID_SLOT, tab, t)"
    "\<forall>l \<in> set levels. \<forall>x \<in> set (L l). ts_on_cpu (t x)"
  | (some) l ys x zs tab' t' where "l < 8" "L l = ys @ x # zs" "\<not> ts_on_cpu (t x)"
      "st_take_from levels tab t = Ok (x, tab', t')" "table_rel t' tab' (L(l := ys @ zs))"
      "links_only (set (L l)) t t'"
  using lv
proof (induction levels)
  case Nil
  then show ?case by simp
next
  case (Cons l levels)
  have l8: "l < 8" using Cons.prems by simp
  have q: "queue_rel t (st_queues tab ! l) (L l)" using rel l8 by (simp add: table_rel_def)
  show ?case
  proof (cases rule: sq_remove_first_where_rel [OF q, of "\<lambda>x. \<not> ts_on_cpu (t x)"])
    case 1
    then have run: "st_take_from (l # levels) tab t = st_take_from levels tab t" by simp
    show ?thesis
    proof (rule Cons.IH)
      assume "st_take_from levels tab t = Ok (INVALID_SLOT, tab, t)"
        "\<forall>l \<in> set levels. \<forall>x \<in> set (L l). ts_on_cpu (t x)"
      with 1(2) run show ?thesis by (intro Cons.prems(1)) auto
    qed (use Cons.prems run in auto)
  next
    case (2 ys z zs q' t')
    have z: "z < MAX_TASKS" by (rule table_rel_range [OF rel slots_of_pop(2) [OF rel 2(1)]])
    have links: "links_only (set (L l)) t t'" by (rule links_only_mono [OF 2(6)]) (use 2(1) in auto)
    have "table_rel t' (st_update l q' tab) (L(l := ys @ zs))"
      by (rule st_update_rel [OF rel l8 2(5) _ links]) (use 2(1) in auto)
    moreover have "st_take_from (l # levels) tab t = Ok (z, st_update l q' tab, t')"
      using 2(4) z by simp
    ultimately show ?thesis using Cons.prems(2) [OF l8 2(1) _ _ _ links] 2(2) by blast
  qed
qed

lemma st_take_rel:
  assumes rel: "table_rel t tab L"
  obtains (none) "st_take_not_on_cpu tab t = Ok (INVALID_SLOT, tab, t)" "\<forall>x \<in> slots_of L. ts_on_cpu (t x)"
  | (some) l ys x zs tab' t' where "l < 8" "L l = ys @ x # zs" "\<not> ts_on_cpu (t x)"
      "st_take_not_on_cpu tab t = Ok (x, tab', t')" "table_rel t' tab' (L(l := ys @ zs))"
      "links_only (set (L l)) t t'"
proof (rule st_take_from_rel [OF rel, of "rev [0..<PRIORITY_LEVEL_COUNT]"])
  show "set (rev [0..<PRIORITY_LEVEL_COUNT]) \<subseteq> {..<8}"
    by (auto simp: PRIORITY_LEVEL_COUNT_def MAX_PRIORITY_def)
next
  assume r: "st_take_from (rev [0..<PRIORITY_LEVEL_COUNT]) tab t = Ok (INVALID_SLOT, tab, t)"
    and a: "\<forall>l \<in> set (rev [0..<PRIORITY_LEVEL_COUNT]). \<forall>x \<in> set (L l). ts_on_cpu (t x)"
  have "\<forall>x \<in> slots_of L. ts_on_cpu (t x)"
  proof
    fix x assume "x \<in> slots_of L"
    then obtain l where "x \<in> set (L l)" by (auto simp: slots_of_def)
    moreover from this rel have "l < 8" by (auto simp: table_rel_def not_less [symmetric])
    ultimately show "ts_on_cpu (t x)" using a by (simp add: PRIORITY_LEVEL_COUNT_def MAX_PRIORITY_def)
  qed
  with none r show ?thesis by (simp add: st_take_not_on_cpu_def)
next
  fix l ys x zs tab' t'
  assume "l < 8" "L l = ys @ x # zs" "\<not> ts_on_cpu (t x)"
    "st_take_from (rev [0..<PRIORITY_LEVEL_COUNT]) tab t = Ok (x, tab', t')"
    "table_rel t' tab' (L(l := ys @ zs))" "links_only (set (L l)) t t'"
  then show ?thesis using some by (simp add: st_take_not_on_cpu_def)
qed

end
