(* ===== verification/Scheduler.thy ===== *)
theory Scheduler
  imports Run_Queue
begin

text \<open>
  The scheduler (\<open>process/scheduler.rs\<close>) and the waiting of tasks (\<open>process/wait.rs\<close>, and the parts of
  \<open>process/task.rs\<close> that call the scheduler). The per-core statics are functions from the core
  number, guarded by the index check of the arrays. Each operation runs under the locks and with
  interrupts off as in the source and is one transition of the state; \<open>me\<close> is the core that
  executes it (\<open>get_current_core_id\<close>) and \<open>now_us\<close> the time stamp it reads. A function that switches
  contexts is modelled up to the switch: what the scheduler loop does on the other side is
  \<open>run_task_leave\<close>. Interrupts sent to other cores are recorded in \<open>sent_ipis\<close>.
\<close>

record sched =
  tasks :: task_table
  current_slot :: "nat \<Rightarrow> nat"
  current_process :: "nat \<Rightarrow> nat"
  should_be_rescheduled :: "nat \<Rightarrow> bool"
  slice_remaining_ticks :: "nat \<Rightarrow> nat"
  runnable_tasks_count :: "nat \<Rightarrow> nat"
  run_queues :: "nat \<Rightarrow> core_run_queue"
  sent_ipis :: "nat list"

type_synonym 'a kcall = "(sched, unit, 'a) call"

definition sched_init :: sched where
  "sched_init =
     \<lparr>tasks = (\<lambda>i. task_slot_new), current_slot = (\<lambda>c. INVALID_SLOT),
      current_process = (\<lambda>c. INVALID_PID), should_be_rescheduled = (\<lambda>c. False),
      slice_remaining_ticks = (\<lambda>c. 0), runnable_tasks_count = (\<lambda>c. 0),
      run_queues = (\<lambda>c. core_run_queue_new), sent_ipis = []\<rparr>"

definition BASE_SLICE_TICKS :: nat where "BASE_SLICE_TICKS = 1"
definition WORK_STEALING_ENABLED :: bool where "WORK_STEALING_ENABLED = True"

definition core_in_range :: "nat \<Rightarrow> unit kcall" where
  "core_in_range core = require (\<lambda>s. core < MAX_CORES)"

definition slot_in_range :: "nat \<Rightarrow> unit kcall" where
  "slot_in_range i = require (\<lambda>s. i < MAX_TASKS)"

definition update_task :: "nat \<Rightarrow> (task_slot \<Rightarrow> task_slot) \<Rightarrow> sched \<Rightarrow> sched" where
  "update_task i f s = s\<lparr>tasks := (tasks s)(i := f (tasks s i))\<rparr>"

section \<open>Per-core state\<close>

definition set_current_task_for_core :: "nat \<Rightarrow> nat \<Rightarrow> nat \<Rightarrow> unit kcall" where
  "set_current_task_for_core core i pid =
     bind (core_in_range core) (\<lambda>_.
       modify (\<lambda>s. s\<lparr>current_slot := (current_slot s)(core := i),
                     current_process := (current_process s)(core := pid)\<rparr>))"

definition get_current_slot_for_core :: "nat \<Rightarrow> nat kcall" where
  "get_current_slot_for_core core =
     bind (core_in_range core) (\<lambda>_. reading (\<lambda>s. ret (current_slot s core)))"

definition get_current_process_for_core :: "nat \<Rightarrow> nat kcall" where
  "get_current_process_for_core core =
     bind (core_in_range core) (\<lambda>_. reading (\<lambda>s. ret (current_process s core)))"

definition core_runnable_tasks_count :: "nat \<Rightarrow> nat kcall" where
  "core_runnable_tasks_count core =
     bind (core_in_range core) (\<lambda>_. reading (\<lambda>s. ret (runnable_tasks_count s core)))"

definition add_runnable :: "nat \<Rightarrow> sched \<Rightarrow> sched" where
  "add_runnable core s =
     s\<lparr>runnable_tasks_count := (runnable_tasks_count s)(core := runnable_tasks_count s core + 1)\<rparr>"

definition sub_runnable :: "nat \<Rightarrow> sched \<Rightarrow> sched" where
  "sub_runnable core s =
     s\<lparr>runnable_tasks_count := (runnable_tasks_count s)(core := runnable_tasks_count s core - 1)\<rparr>"

definition core_task_leave_run_queue :: "nat \<Rightarrow> unit kcall" where
  "core_task_leave_run_queue core =
     bind (core_in_range core) (\<lambda>_.
     bind (require (\<lambda>s. 0 < runnable_tasks_count s core)) (\<lambda>_.
       modify (sub_runnable core)))"

definition get_slice_ticks_for_priority :: "nat \<Rightarrow> nat" where
  "get_slice_ticks_for_priority priority = (priority + 1) * BASE_SLICE_TICKS"

definition mark_core_for_reschedule :: "nat \<Rightarrow> unit kcall" where
  "mark_core_for_reschedule core =
     bind (core_in_range core) (\<lambda>_.
       modify (\<lambda>s. s\<lparr>should_be_rescheduled := (should_be_rescheduled s)(core := True)\<rparr>))"

definition send_reschedule_ipi :: "nat \<Rightarrow> unit kcall" where
  "send_reschedule_ipi core =
     bind (core_in_range core) (\<lambda>_. modify (\<lambda>s. s\<lparr>sent_ipis := sent_ipis s @ [core]\<rparr>))"

definition set_slice :: "nat \<Rightarrow> nat \<Rightarrow> sched \<Rightarrow> sched" where
  "set_slice core n s = s\<lparr>slice_remaining_ticks := (slice_remaining_ticks s)(core := n)\<rparr>"

text \<open>An operation on the run queue of a core and the links of the task table.\<close>

definition on_run_queue ::
    "nat \<Rightarrow> (core_run_queue \<Rightarrow> task_table \<Rightarrow> (unit, core_run_queue \<times> task_table) outcome) \<Rightarrow> unit kcall" where
  "on_run_queue core f = (\<lambda>s. case f (run_queues s core) (tasks s) of
     Ok (rq, t) \<Rightarrow> (Ok (), s\<lparr>run_queues := (run_queues s)(core := rq), tasks := t\<rparr>)
   | Err e \<Rightarrow> (Err e, s) | Panic \<Rightarrow> (Panic, s) | Diverge \<Rightarrow> (Diverge, s))"

section \<open>Queueing and waking\<close>

definition core_enqueue_ready_task :: "nat \<Rightarrow> nat \<Rightarrow> nat \<Rightarrow> nat \<Rightarrow> unit kcall" where
  "core_enqueue_ready_task me core i priority =
     bind (core_in_range core) (\<lambda>_.
     bind (modify (add_runnable core)) (\<lambda>_.
     bind (on_run_queue core (push_executing_task i priority)) (\<lambda>_.
     bind (get_current_slot_for_core core) (\<lambda>running_slot.
     bind (if running_slot = INVALID_SLOT then ret True
           else bind (slot_in_range running_slot) (\<lambda>_.
             reading (\<lambda>s. ret (ts_priority (tasks s running_slot) < priority)))) (\<lambda>should_preempt.
       if \<not> should_preempt then ret ()
       else if core = me then mark_core_for_reschedule core
       else send_reschedule_ipi core)))))"

definition wake_task :: "nat \<Rightarrow> task_ref \<Rightarrow> unit kcall" where
  "wake_task me r =
     bind (slot_in_range (tr_slot r)) (\<lambda>_ s.
       if ts_pid (tasks s (tr_slot r)) \<noteq> tr_pid r \<or> ts_state (tasks s (tr_slot r)) \<noteq> Blocked
       then ret () s
       else
         bind (modify (update_task (tr_slot r) (\<lambda>task. snd (transition Blocked Ready task)))) (\<lambda>_.
           core_enqueue_ready_task me (ts_home_core (tasks s (tr_slot r))) (tr_slot r)
             (ts_priority (tasks s (tr_slot r)))) s)"

definition wake_due_sleeping_tasks :: "nat \<Rightarrow> nat \<Rightarrow> unit kcall" where
  "wake_due_sleeping_tasks now_us core =
     bind (core_in_range core) (\<lambda>_ s.
       case rq_wake_due_sleeping_tasks now_us (run_queues s core) (tasks s) (runnable_tasks_count s core) of
         Ok (rq, t, runnable, highest) \<Rightarrow>
           (let s = s\<lparr>run_queues := (run_queues s)(core := rq), tasks := t,
                      runnable_tasks_count := (runnable_tasks_count s)(core := runnable)\<rparr> in
            case highest of
              None \<Rightarrow> ret () s
            | Some woken_priority \<Rightarrow>
                if current_slot s core = INVALID_SLOT then ret () s
                else
                  bind (slot_in_range (current_slot s core)) (\<lambda>_.
                    if ts_priority (tasks s (current_slot s core)) < woken_priority
                    then mark_core_for_reschedule core else ret ()) s)
       | Err e \<Rightarrow> (Err e, s) | Panic \<Rightarrow> (Panic, s) | Diverge \<Rightarrow> (Diverge, s))"

definition on_timer_tick :: "nat \<Rightarrow> nat \<Rightarrow> unit kcall" where
  "on_timer_tick now_us core =
     bind (wake_due_sleeping_tasks now_us core) (\<lambda>_.
     bind (get_current_slot_for_core core) (\<lambda>i.
       if i = INVALID_SLOT then ret ()
       else
         bind (slot_in_range i) (\<lambda>_.
         bind (modify (update_task i (\<lambda>task. task\<lparr>ts_cpu_ticks := ts_cpu_ticks task + 1\<rparr>))) (\<lambda>_.
         reading (\<lambda>s.
           if 1 < slice_remaining_ticks s core then
             modify (set_slice core (slice_remaining_ticks s core - 1))
           else if 1 < runnable_tasks_count s core then
             bind (modify (set_slice core 0)) (\<lambda>_. mark_core_for_reschedule core)
           else
             modify (set_slice core (get_slice_ticks_for_priority (ts_priority (tasks s i)))))))))"

section \<open>Giving up the core\<close>

definition core_current_task_ref :: "nat \<Rightarrow> task_ref kcall" where
  "core_current_task_ref core =
     bind (get_current_slot_for_core core) (\<lambda>i.
     bind (require (\<lambda>s. i \<noteq> INVALID_SLOT)) (\<lambda>_.
     bind (get_current_process_for_core core) (\<lambda>pid.
       ret \<lparr>tr_slot = i, tr_pid = pid\<rparr>)))"

definition core_current_task_kill_pending :: "nat \<Rightarrow> bool kcall" where
  "core_current_task_kill_pending core =
     bind (core_current_task_ref core) (\<lambda>r.
     bind (slot_in_range (tr_slot r)) (\<lambda>_.
       reading (\<lambda>s. ret (ts_kill_pending (tasks s (tr_slot r))))))"

datatype requeue_type = ExecutingTasks | YieldingTasks

definition core_switch_executing_yielding :: "nat \<Rightarrow> requeue_type \<Rightarrow> unit kcall" where
  "core_switch_executing_yielding core requeue =
     bind (get_current_slot_for_core core) (\<lambda>i.
     bind (require (\<lambda>s. i \<noteq> INVALID_SLOT)) (\<lambda>_.
     bind (slot_in_range i) (\<lambda>_ s.
       if ts_state (tasks s i) = Running then
         bind (modify (update_task i (\<lambda>task. snd (transition Running Ready task)))) (\<lambda>_.
         bind (require (\<lambda>s. ts_home_core (tasks s i) = core)) (\<lambda>_.
           on_run_queue core (case requeue of
               ExecutingTasks \<Rightarrow> push_executing_task i (ts_priority (tasks s i))
             | YieldingTasks \<Rightarrow> push_yielding_task i (ts_priority (tasks s i))))) s
       else ret () s)))"

definition core_run_scheduling :: "nat \<Rightarrow> unit kcall" where
  "core_run_scheduling core =
     bind (core_in_range core) (\<lambda>_ s.
       core_switch_executing_yielding core
         (if slice_remaining_ticks s core = 0 then YieldingTasks else ExecutingTasks) s)"

text \<open>\<open>True\<close> when the task really switches away.\<close>

definition core_yield_executing_tasks :: "nat \<Rightarrow> bool kcall" where
  "core_yield_executing_tasks core =
     bind (core_runnable_tasks_count core) (\<lambda>n.
       if n \<le> 1 then ret False
       else bind (core_switch_executing_yielding core YieldingTasks) (\<lambda>_. ret True))"

text \<open>The part of \<open>core_block_current_task_until_wake_time\<close> before the switch.\<close>

definition block_until_wake_time :: "nat \<Rightarrow> nat \<Rightarrow> nat kcall" where
  "block_until_wake_time wake_time_us core =
     bind (core_current_task_ref core) (\<lambda>r.
     bind (slot_in_range (tr_slot r)) (\<lambda>_ s.
       let home_core = ts_home_core (tasks s (tr_slot r)) in
       bind (core_in_range home_core) (\<lambda>_.
       bind (on_run_queue home_core (\<lambda>rq t.
           and_then (add_sleeping_task r wake_time_us t rq) (\<lambda>rq. Ok (rq, t)))) (\<lambda>_.
       bind (require (\<lambda>s. ts_state (tasks s (tr_slot r)) = Running)) (\<lambda>_.
       bind (modify (update_task (tr_slot r) (\<lambda>task. snd (transition Running Blocked task)))) (\<lambda>_.
       bind (core_task_leave_run_queue home_core) (\<lambda>_.
         ret home_core))))) s))"

definition core_block_current_task_until_wake_time :: "nat \<Rightarrow> nat \<Rightarrow> unit kcall" where
  "core_block_current_task_until_wake_time wake_time_us core =
     bind (block_until_wake_time wake_time_us core) core_run_scheduling"

section \<open>The scheduler loop\<close>

text \<open>\<open>run_task\<close> up to the switch into the task, and from the switch back to its end.\<close>

definition run_task_enter :: "nat \<Rightarrow> nat \<Rightarrow> unit kcall" where
  "run_task_enter core i =
     bind (slot_in_range i) (\<lambda>_.
     bind (require (\<lambda>s. ts_state (tasks s i) = Ready)) (\<lambda>_ s.
       bind (modify (update_task i (\<lambda>task. (set_state Running task)\<lparr>ts_on_cpu := True\<rparr>))) (\<lambda>_.
       bind (set_current_task_for_core core i (ts_pid (tasks s i))) (\<lambda>_.
         modify (\<lambda>s. set_slice core (get_slice_ticks_for_priority (ts_priority (tasks s i)))
           (s\<lparr>should_be_rescheduled := (should_be_rescheduled s)(core := False)\<rparr>)))) s))"

definition run_task_leave :: "nat \<Rightarrow> nat \<Rightarrow> unit kcall" where
  "run_task_leave core i =
     bind (slot_in_range i) (\<lambda>_.
     bind (modify (update_task i (\<lambda>task. task\<lparr>ts_on_cpu := False\<rparr>))) (\<lambda>_.
     bind (set_current_task_for_core core INVALID_SLOT INVALID_PID) (\<lambda>_ s.
       if ts_state (tasks s i) = Dead then
         (case release_task_slot i (tasks s) of
            Ok t \<Rightarrow> (Ok (), s\<lparr>tasks := t\<rparr>)
          | Err e \<Rightarrow> (Err e, s) | Panic \<Rightarrow> (Panic, s) | Diverge \<Rightarrow> (Diverge, s))
       else ret () s)))"

definition move_stolen :: "nat \<Rightarrow> nat \<Rightarrow> nat \<Rightarrow> unit kcall" where
  "move_stolen core core_from i =
     bind (slot_in_range i) (\<lambda>_.
     bind (modify (update_task i (\<lambda>task. task\<lparr>ts_home_core := core,
         ts_core_migration_count := ts_core_migration_count task + 1\<rparr>))) (\<lambda>_.
     bind (modify (sub_runnable core_from)) (\<lambda>_.
     bind (core_in_range core) (\<lambda>_.
     bind (modify (add_runnable core)) (\<lambda>_ s.
       on_run_queue core (push_executing_task i (ts_priority (tasks s i))) s)))))"

text \<open>\<open>locked\<close> tells which run queues another core holds at that moment (\<open>try_lock\<close> fails).\<close>

primrec steal_from :: "(nat \<Rightarrow> bool) \<Rightarrow> nat \<Rightarrow> nat list \<Rightarrow> bool kcall" where
  "steal_from locked core [] = ret False"
| "steal_from locked core (core_from # rest) = (\<lambda>s.
     if core_from = core \<or> runnable_tasks_count s core_from \<le> 1 \<or> locked core_from
     then steal_from locked core rest s
     else
       case take_stealable_task (run_queues s core_from) (tasks s) of
         Ok (i, rq, t) \<Rightarrow>
           let s = s\<lparr>run_queues := (run_queues s)(core_from := rq), tasks := t\<rparr> in
           if i = INVALID_SLOT then steal_from locked core rest s
           else bind (move_stolen core core_from i) (\<lambda>_. ret True) s
       | Err e \<Rightarrow> (Err e, s) | Panic \<Rightarrow> (Panic, s) | Diverge \<Rightarrow> (Diverge, s))"

definition try_steal_task :: "(nat \<Rightarrow> bool) \<Rightarrow> nat \<Rightarrow> bool kcall" where
  "try_steal_task locked core = steal_from locked core [1..<MAX_CORES]"

datatype loop_result = Runs nat | Stole | Halts

text \<open>One round of \<open>scheduler_loop\<close> up to the switch into a task or the halt.\<close>

definition scheduler_loop_round :: "(nat \<Rightarrow> bool) \<Rightarrow> nat \<Rightarrow> loop_result kcall" where
  "scheduler_loop_round locked core =
     bind (core_in_range core) (\<lambda>_ s.
       case pick_next_task (run_queues s core) (tasks s) of
         Ok (i, rq) \<Rightarrow>
           let s = s\<lparr>run_queues := (run_queues s)(core := rq)\<rparr> in
           if i = INVALID_SLOT then
             (if WORK_STEALING_ENABLED
              then bind (try_steal_task locked core) (\<lambda>stole. ret (if stole then Stole else Halts)) s
              else ret Halts s)
           else bind (run_task_enter core i) (\<lambda>_. ret (Runs i)) s
       | Err e \<Rightarrow> (Err e, s) | Panic \<Rightarrow> (Panic, s) | Diverge \<Rightarrow> (Diverge, s))"

primrec any_queue_contains :: "nat \<Rightarrow> nat list \<Rightarrow> bool kcall" where
  "any_queue_contains i [] = ret False"
| "any_queue_contains i (core # cores) = (\<lambda>s.
     case rq_contains i (run_queues s core) (tasks s) of
       Ok found \<Rightarrow> if found then ret True s else any_queue_contains i cores s
     | Err e \<Rightarrow> (Err e, s) | Panic \<Rightarrow> (Panic, s) | Diverge \<Rightarrow> (Diverge, s))"

definition is_pid_queued :: "nat \<Rightarrow> bool kcall" where
  "is_pid_queued pid = (\<lambda>s.
     case find_slot_by_pid pid (tasks s) of
       None \<Rightarrow> ret False s
     | Some i \<Rightarrow>
         bind (any_queue_contains i [0..<MAX_CORES]) (\<lambda>found.
           if found then ret True
           else ret (list_ex (\<lambda>core. current_slot s core = i) [0..<MAX_CORES])) s)"

section \<open>Exit and kill\<close>

text \<open>
  The end of \<open>exit_current\<close>, after windows and process have been torn down; the switch follows.
\<close>

definition exit_current_tail :: "nat \<Rightarrow> unit kcall" where
  "exit_current_tail core =
     bind (get_current_slot_for_core core) (\<lambda>i.
     bind (require (\<lambda>s. i \<noteq> INVALID_SLOT)) (\<lambda>_.
     bind (slot_in_range i) (\<lambda>_.
     bind (modify (update_task i (set_state Dead))) (\<lambda>_.
     bind (reading (\<lambda>s. core_task_leave_run_queue (ts_home_core (tasks s i)))) (\<lambda>_.
       core_run_scheduling core)))))"

definition request_kill :: "nat \<Rightarrow> nat \<Rightarrow> int \<Rightarrow> bool kcall" where
  "request_kill me pid exit_code = (\<lambda>s.
     case find_slot_by_pid pid (tasks s) of
       None \<Rightarrow> ret False s
     | Some i \<Rightarrow>
         bind (modify (update_task i (\<lambda>task.
             task\<lparr>ts_exit_code_request := exit_code, ts_kill_pending := True\<rparr>))) (\<lambda>_.
         bind (wake_task me \<lparr>tr_slot = i, tr_pid = pid\<rparr>) (\<lambda>_.
         bind (reading (\<lambda>s.
           if ts_state (tasks s i) = Running then
             (let running_core = ts_home_core (tasks s i) in
              if running_core = me then mark_core_for_reschedule running_core
              else send_reschedule_ipi running_core)
           else ret ())) (\<lambda>_. ret True))) s)"

text \<open>\<open>Some code\<close> when the task has to exit with that code now.\<close>

definition exit_if_kill_pending :: "nat \<Rightarrow> int option kcall" where
  "exit_if_kill_pending me =
     bind (get_current_slot_for_core me) (\<lambda>i.
     bind (require (\<lambda>s. i \<noteq> INVALID_SLOT)) (\<lambda>_.
     bind (slot_in_range i) (\<lambda>_.
       reading (\<lambda>s. ret (if ts_kill_pending (tasks s i)
                          then Some (ts_exit_code_request (tasks s i)) else None)))))"

text \<open>
  One round of \<open>exit_to_user\<close>: the task exits, returns to ring 3, or switches away and comes back
  here for the next round.
\<close>

datatype user_exit = Exits int | ReturnsToUser | SwitchesAway

definition exit_to_user_round :: "nat \<Rightarrow> user_exit kcall" where
  "exit_to_user_round me =
     bind (exit_if_kill_pending me) (\<lambda>kill.
       case kill of
         Some code \<Rightarrow> ret (Exits code)
       | None \<Rightarrow>
           bind (core_in_range me) (\<lambda>_. reading (\<lambda>s.
             bind (modify (\<lambda>s. s\<lparr>should_be_rescheduled := (should_be_rescheduled s)(me := False)\<rparr>)) (\<lambda>_.
               if \<not> should_be_rescheduled s me then ret ReturnsToUser
               else bind (core_run_scheduling me) (\<lambda>_. ret SwitchesAway)))))"

text \<open>
  How \<open>create_process_from_elf\<close> starts a task: the slot is claimed, made ready and queued. \<open>False\<close>
  when there is no free slot.
\<close>

definition start_task ::
    "(nat \<Rightarrow> nat) \<Rightarrow> nat \<Rightarrow> nat \<Rightarrow> nat \<Rightarrow> nat \<Rightarrow> nat \<Rightarrow> bool kcall" where
  "start_task stack_top me pid priority core cr3 = (\<lambda>s.
     case allocate_task_slot stack_top pid priority core cr3 (tasks s) of
       (None, t) \<Rightarrow> ret False (s\<lparr>tasks := t\<rparr>)
     | (Some i, t) \<Rightarrow>
         bind (modify (update_task i (set_state Ready))) (\<lambda>_.
         bind (core_enqueue_ready_task me core i priority) (\<lambda>_. ret True)) (s\<lparr>tasks := t\<rparr>))"

section \<open>Wait queues\<close>

record waiter_list =
  waiters :: "task_ref list"
  waiter_count :: nat

definition waiter_list_new :: waiter_list where
  "waiter_list_new =
     \<lparr>waiters = replicate MAX_TASKS \<lparr>tr_slot = INVALID_SLOT, tr_pid = INVALID_PID\<rparr>, waiter_count = 0\<rparr>"

definition waiters_remove_stale :: "task_table \<Rightarrow> waiter_list \<Rightarrow> (unit, waiter_list) outcome" where
  "waiters_remove_stale t w =
     and_then (remove_stale_loop (waiter_count w) (\<lambda>r. r) t 0 (waiters w, waiter_count w)) (\<lambda>(xs, n).
       Ok \<lparr>waiters = xs, waiter_count = n\<rparr>)"

definition waiters_push :: "task_ref \<Rightarrow> task_table \<Rightarrow> waiter_list \<Rightarrow> (unit, waiter_list) outcome" where
  "waiters_push r t w =
     and_then (if waiter_count w = length (waiters w) then waiters_remove_stale t w else Ok w) (\<lambda>w.
       if length (waiters w) \<le> waiter_count w then Panic
       else Ok \<lparr>waiters = (waiters w)[waiter_count w := r], waiter_count = waiter_count w + 1\<rparr>)"

primrec index_of :: "'a \<Rightarrow> 'a list \<Rightarrow> nat option" where
  "index_of x [] = None"
| "index_of x (y # ys) = (if y = x then Some 0 else map_option Suc (index_of x ys))"

definition waiters_remove :: "task_ref \<Rightarrow> waiter_list \<Rightarrow> waiter_list" where
  "waiters_remove r w =
     (case index_of r (take (waiter_count w) (waiters w)) of
        None \<Rightarrow> w
      | Some i \<Rightarrow> (case swap_remove_at i (waiters w, waiter_count w) of
          (xs, n) \<Rightarrow> \<lparr>waiters = xs, waiter_count = n\<rparr>))"

text \<open>The wait queue is part of the state the caller threads beside the scheduler.\<close>

definition add_current_task_and_mark_blocked :: "nat \<Rightarrow> waiter_list \<Rightarrow> waiter_list kcall" where
  "add_current_task_and_mark_blocked me w =
     bind (core_current_task_ref me) (\<lambda>r.
     bind (slot_in_range (tr_slot r)) (\<lambda>_ s.
       case waiters_push r (tasks s) w of
         Ok w' \<Rightarrow>
           bind (require (\<lambda>s. ts_state (tasks s (tr_slot r)) = Running)) (\<lambda>_.
           bind (modify (update_task (tr_slot r) (\<lambda>task. snd (transition Running Blocked task)))) (\<lambda>_.
           bind (reading (\<lambda>s. core_task_leave_run_queue (ts_home_core (tasks s (tr_slot r))))) (\<lambda>_.
             ret w'))) s
       | Err e \<Rightarrow> (Err e, s) | Panic \<Rightarrow> (Panic, s) | Diverge \<Rightarrow> (Diverge, s)))"

primrec wake_each :: "nat \<Rightarrow> task_ref list \<Rightarrow> unit kcall" where
  "wake_each me [] = ret ()"
| "wake_each me (r # rs) = bind (wake_task me r) (\<lambda>_. wake_each me rs)"

definition wake_all :: "nat \<Rightarrow> waiter_list \<Rightarrow> waiter_list kcall" where
  "wake_all me w =
     bind (wake_each me (take (waiter_count w) (waiters w))) (\<lambda>_. ret (w\<lparr>waiter_count := 0\<rparr>))"

text \<open>
  One round of \<open>block_current_task_until_event\<close> up to the switch: \<open>Inl\<close> when the call returns, \<open>Inr\<close>
  when the task switches away and comes back for the next round. \<open>core\<close> is the number the function
  has read once, before its loop; \<open>me\<close> is the core that executes this round. The condition is asked
  twice.
\<close>

definition block_round ::
    "bool \<Rightarrow> bool \<Rightarrow> nat \<Rightarrow> nat \<Rightarrow> waiter_list \<Rightarrow> (waiter_list + waiter_list) kcall" where
  "block_round cond1 cond2 core me w =
     bind (if cond1 then ret True else core_current_task_kill_pending core) (\<lambda>leave.
       if leave then ret (Inl w)
       else
         bind (add_current_task_and_mark_blocked me w) (\<lambda>w.
         bind (if cond2 then ret True else core_current_task_kill_pending core) (\<lambda>undo.
         bind (if undo then
                 bind (core_current_task_ref core) (\<lambda>r.
                   let w = waiters_remove r w in bind (wake_task me r) (\<lambda>_. ret w))
               else ret w) (\<lambda>w.
         bind (core_run_scheduling core) (\<lambda>_. ret (Inr w))))))"

text \<open>
  \<open>sleep_current_task_ms\<close>: the point in time where the sleep ends, whose computation overflows for
  long durations, and one round of its loop up to the switch (\<open>True\<close> when the task switches away).
\<close>

definition MICROSECONDS_PER_MILLISECOND :: nat where "MICROSECONDS_PER_MILLISECOND = 1000"

definition sleep_wake_time_us :: "nat \<Rightarrow> nat \<Rightarrow> (unit, nat) outcome" where
  "sleep_wake_time_us now_us duration_ms =
     (if duration_ms * MICROSECONDS_PER_MILLISECOND < 2 ^ 64
         \<and> now_us + duration_ms * MICROSECONDS_PER_MILLISECOND < 2 ^ 64
      then Ok (now_us + duration_ms * MICROSECONDS_PER_MILLISECOND) else Panic)"

definition sleep_round :: "nat \<Rightarrow> nat \<Rightarrow> nat \<Rightarrow> bool kcall" where
  "sleep_round now_us wake_time_us core =
     (if now_us < wake_time_us then
        bind (core_current_task_kill_pending core) (\<lambda>killed.
          if killed then ret False
          else bind (core_block_current_task_until_wake_time wake_time_us core) (\<lambda>_. ret True))
      else ret False)"

end
