(* ===== verification/Elf_Loader.thy ===== *)
theory Elf_Loader
  imports Mofu_Prelude
begin

text \<open>
  The ELF loader (\<open>process/elf_loader.rs\<close>): the loadable segments of a program are collected
  with their bytes and merged where they touch. Parsing of the file is that of the \<open>elf\<close> crate,
  a parameter that yields the header and the program headers. Addresses and sizes are \<open>u64\<close>
  values with the overflow checks of the development profile written out.
\<close>

section \<open>Data\<close>

record load_segment =
  ls_vaddr :: nat
  ls_in_file_size :: nat
  ls_in_memory_size :: nat
  ls_flags :: u32
  ls_data :: "u8 list"

record elf_load_info =
  entry_point :: nat
  min_vaddr :: nat
  max_vaddr :: nat
  elf_segments :: "load_segment list"

datatype 'p elf_load_error =
  InvalidMagic | InvalidHeader | InvalidArch | InvalidType | NoLoadableSegments | ElfReadError | ElfParseError 'p

text \<open>What the parser of the crate returns: \<open>ElfBytes\<close> with the header and \<open>segments()\<close>.\<close>

record program_header =
  p_type :: u32
  p_offset :: nat
  p_vaddr :: nat
  p_filesz :: nat
  p_memsz :: nat
  p_flags :: u32

record elf_bytes =
  e_machine :: u16
  e_entry :: nat
  e_segments :: "program_header list option"

definition EM_X86_64 :: u16 where "EM_X86_64 = 62"
definition PT_LOAD :: u32 where "PT_LOAD = 1"

definition checked_add :: "nat \<Rightarrow> nat \<Rightarrow> ('e, nat) outcome" where
  "checked_add a b = (if a + b < 2 ^ 64 then Ok (a + b) else Panic)"

section \<open>Merging\<close>

definition merge_data :: "load_segment \<Rightarrow> load_segment \<Rightarrow> ('e, u8 list) outcome" where
  "merge_data curr_seg next =
     (if ls_in_file_size next > 0
      then let offset_in_curr = ls_vaddr next - ls_vaddr curr_seg in
        and_then (checked_add offset_in_curr (length (ls_data next))) (\<lambda>merged_data_size.
          let data = (if length (ls_data curr_seg) < merged_data_size
                      then ls_data curr_seg @ replicate (merged_data_size - length (ls_data curr_seg)) 0
                      else ls_data curr_seg) in
          Ok (blit offset_in_curr (ls_data next) data))
      else Ok (ls_data curr_seg))"

definition merge_pair :: "load_segment \<Rightarrow> load_segment \<Rightarrow> nat \<Rightarrow> ('e, load_segment) outcome" where
  "merge_pair curr_seg next curr_end =
     and_then (checked_add (ls_vaddr next) (ls_in_memory_size next)) (\<lambda>next_end.
     and_then (merge_data curr_seg next) (\<lambda>data.
     and_then (checked_add (ls_vaddr next) (ls_in_file_size next)) (\<lambda>file_end.
     and_then (checked_add (ls_vaddr curr_seg) (ls_in_file_size curr_seg)) (\<lambda>curr_file_end.
       Ok (curr_seg\<lparr>ls_in_memory_size := max next_end curr_end - ls_vaddr curr_seg,
                    ls_flags := ls_flags curr_seg OR ls_flags next, ls_data := data,
                    ls_in_file_size := (if file_end > curr_file_end then file_end - ls_vaddr curr_seg
                                        else ls_in_file_size curr_seg)\<rparr>)))))"

fun merge_loop :: "load_segment \<Rightarrow> load_segment list \<Rightarrow> ('e, load_segment list) outcome" where
  "merge_loop curr_seg [] = Ok [curr_seg]"
| "merge_loop curr_seg (next # sorted_iter) =
     and_then (checked_add (ls_vaddr curr_seg) (ls_in_memory_size curr_seg)) (\<lambda>curr_end.
       if ls_vaddr next \<le> curr_end
       then and_then (merge_pair curr_seg next curr_end) (\<lambda>curr_seg. merge_loop curr_seg sorted_iter)
       else and_then (merge_loop next sorted_iter) (\<lambda>merged. Ok (curr_seg # merged)))"

definition merge_segments :: "load_segment list \<Rightarrow> ('e, load_segment list) outcome" where
  "merge_segments segments =
     (case sort_key ls_vaddr segments of [] \<Rightarrow> Panic | curr_seg # sorted_iter \<Rightarrow> merge_loop curr_seg sorted_iter)"

section \<open>Collecting the segments\<close>

definition segment_data :: "u8 list \<Rightarrow> program_header \<Rightarrow> ('p elf_load_error, u8 list) outcome" where
  "segment_data elf_data segment =
     (if p_filesz segment > 0
      then and_then (checked_add (p_offset segment) (p_filesz segment)) (\<lambda>data_end.
        if data_end > length elf_data then Err ElfReadError
        else Ok (chunk (p_offset segment) (p_filesz segment) elf_data))
      else Ok [])"

primrec collect_segments :: "u8 list \<Rightarrow> program_header list \<Rightarrow> nat \<Rightarrow> nat \<Rightarrow> load_segment list \<Rightarrow>
    ('p elf_load_error, nat \<times> nat \<times> load_segment list) outcome" where
  "collect_segments elf_data [] min_v max_v segments = Ok (min_v, max_v, segments)"
| "collect_segments elf_data (segment # segments_iter) min_v max_v segments =
     (if p_type segment = PT_LOAD
      then and_then (checked_add (p_vaddr segment) (p_memsz segment)) (\<lambda>seg_end.
           and_then (segment_data elf_data segment) (\<lambda>data.
             collect_segments elf_data segments_iter (min (p_vaddr segment) min_v) (max seg_end max_v)
               (segments @ [\<lparr>ls_vaddr = p_vaddr segment, ls_in_file_size = p_filesz segment,
                  ls_in_memory_size = p_memsz segment, ls_flags = p_flags segment, ls_data = data\<rparr>])))
      else collect_segments elf_data segments_iter min_v max_v segments)"

definition from_elf_data :: "(u8 list \<Rightarrow> ('p, elf_bytes) outcome) \<Rightarrow> u8 list \<Rightarrow> ('p elf_load_error, elf_load_info) outcome" where
  "from_elf_data minimal_parse elf_data =
     and_then (map_err ElfParseError (minimal_parse elf_data)) (\<lambda>elf.
       if e_machine elf \<noteq> EM_X86_64 then Err InvalidArch
       else case e_segments elf of
         None \<Rightarrow> Err InvalidHeader
       | Some segments_iter \<Rightarrow>
           and_then (collect_segments elf_data segments_iter (2 ^ 64 - 1) 0 []) (\<lambda>(min_v, max_v, segments).
             if segments = [] then Err NoLoadableSegments
             else and_then (merge_segments segments) (\<lambda>segments.
               if max_v < min_v then Panic \<comment> \<open>the size in the log message\<close>
               else Ok \<lparr>entry_point = e_entry elf, min_vaddr = min_v, max_vaddr = max_v, elf_segments = segments\<rparr>)))"

section \<open>The memory a segment describes\<close>

definition seg_end :: "load_segment \<Rightarrow> nat" where
  "seg_end s = ls_vaddr s + ls_in_memory_size s"

definition seg_byte :: "load_segment \<Rightarrow> nat \<Rightarrow> u8 option" where
  "seg_byte s a = (if ls_vaddr s \<le> a \<and> a < seg_end s
     then Some (if a - ls_vaddr s < length (ls_data s) then ls_data s ! (a - ls_vaddr s) else 0) else None)"

text \<open>
  The image of a list of segments that are put into memory one after the other: an address is there
  when a segment covers it, with the byte of the last segment that has one in the file, or zero.
\<close>

definition overlay :: "nat \<Rightarrow> u8 \<Rightarrow> load_segment \<Rightarrow> u8" where
  "overlay a v s = (if ls_vaddr s \<le> a \<and> a - ls_vaddr s < length (ls_data s) then ls_data s ! (a - ls_vaddr s) else v)"

definition covers_addr :: "load_segment \<Rightarrow> nat \<Rightarrow> bool" where
  "covers_addr s a \<longleftrightarrow> ls_vaddr s \<le> a \<and> a < seg_end s"

definition image_of :: "load_segment list \<Rightarrow> nat \<Rightarrow> u8 option" where
  "image_of segs a = (if list_ex (\<lambda>s. covers_addr s a) segs then Some (foldl (overlay a) 0 segs) else None)"

definition image_at :: "load_segment list \<Rightarrow> nat \<Rightarrow> u8 \<Rightarrow> bool" where
  "image_at segs a b \<longleftrightarrow> (\<exists>s \<in> set segs. seg_byte s a = Some b)"

definition seg_ok :: "load_segment \<Rightarrow> bool" where
  \<comment> \<open>the bytes are there, they fit into the memory, and there are some\<close>
  "seg_ok s \<longleftrightarrow> 0 < ls_in_file_size s \<and> length (ls_data s) = ls_in_file_size s \<and> ls_in_file_size s \<le> ls_in_memory_size s
     \<and> seg_end s < 2 ^ 64"

definition segs_apart :: "load_segment \<Rightarrow> load_segment \<Rightarrow> bool" where
  "segs_apart s t \<longleftrightarrow> seg_end s \<le> ls_vaddr t \<or> seg_end t \<le> ls_vaddr s"

definition inside :: "load_segment \<Rightarrow> load_segment \<Rightarrow> bool" where
  \<comment> \<open>in the range of the other segment, with no permission it does not have\<close>
  "inside s m \<longleftrightarrow> ls_vaddr m \<le> ls_vaddr s \<and> seg_end s \<le> seg_end m \<and> ls_flags s AND ls_flags m = ls_flags s"

lemma inside_trans: "inside s m \<Longrightarrow> inside m n \<Longrightarrow> inside s n"
  unfolding inside_def by (metis (no_types, lifting) and.assoc order_trans)

text \<open>Two segments that touch or overlap become one; a gap behind the bytes of the first is filled with zeros.\<close>

lemma overlay_outside: "seg_ok s \<Longrightarrow> a < ls_vaddr s \<or> seg_end s \<le> a \<Longrightarrow> overlay a v s = v"
  by (auto simp: overlay_def seg_ok_def seg_end_def)

lemma merge_data_bytes:
  assumes "seg_ok c" "seg_ok n" "ls_vaddr c \<le> ls_vaddr n"
  shows "\<exists>data. merge_data c n = (Ok data :: ('e, u8 list) outcome)
    \<and> length data = max (length (ls_data c)) (ls_vaddr n - ls_vaddr c + length (ls_data n))
    \<and> (\<forall>a. ls_vaddr c \<le> a \<and> a - ls_vaddr c < length data \<longrightarrow> data ! (a - ls_vaddr c) = overlay a (overlay a 0 c) n)"
proof -
  let ?off = "ls_vaddr n - ls_vaddr c"
  define ext where "ext = ls_data c @ replicate (?off + length (ls_data n) - length (ls_data c)) 0"
  define data where "data = blit ?off (ls_data n) ext"
  note d = assms [unfolded seg_ok_def seg_end_def]
  have e: "length ext = max (length (ls_data c)) (?off + length (ls_data n))" by (simp add: ext_def)
  have "merge_data c n = (Ok data :: ('e, u8 list) outcome)"
    using d by (auto simp: merge_data_def checked_add_def Let_def data_def ext_def)
  moreover have "length data = max (length (ls_data c)) (?off + length (ls_data n))" using e by (simp add: data_def)
  moreover have "data ! (a - ls_vaddr c) = overlay a (overlay a 0 c) n" if "ls_vaddr c \<le> a" "a - ls_vaddr c < length data" for a
  proof -
    have i: "a - ls_vaddr c < length ext" using that(2) e by (simp add: data_def)
    have "a - ls_vaddr c - ?off = a - ls_vaddr n" using that(1) assms(3) by linarith
    moreover have "?off \<le> a - ls_vaddr c \<longleftrightarrow> ls_vaddr n \<le> a" using that(1) assms(3) by linarith
    moreover have "a - ls_vaddr c < ?off + length (ls_data n) \<longleftrightarrow> a - ls_vaddr n < length (ls_data n)" if "ls_vaddr n \<le> a"
      using that \<open>ls_vaddr c \<le> a\<close> assms(3) by linarith
    moreover have "ext ! (a - ls_vaddr c) = overlay a 0 c" using i that(1) by (auto simp: ext_def overlay_def nth_append)
    ultimately show ?thesis using i e by (auto simp: data_def nth_blit overlay_def [of a _ n])
  qed
  ultimately show ?thesis by blast
qed

lemma merge_pair_overlay:
  assumes c: "seg_ok c" and n: "seg_ok n" and t: "ls_vaddr c \<le> ls_vaddr n" "ls_vaddr n \<le> seg_end c"
  shows "\<exists>m. merge_pair c n (seg_end c) = (Ok m :: ('e, load_segment) outcome) \<and> seg_ok m \<and> ls_vaddr m = ls_vaddr c
    \<and> seg_end m = max (seg_end n) (seg_end c) \<and> inside c m \<and> inside n m
    \<and> (\<forall>a. overlay a 0 m = overlay a (overlay a 0 c) n)"
proof -
  from merge_data_bytes [OF c n t(1), where 'e = 'e] obtain data where
    data: "merge_data c n = (Ok data :: ('e, u8 list) outcome)"
      "length data = max (length (ls_data c)) (ls_vaddr n - ls_vaddr c + length (ls_data n))"
      "\<And>a. ls_vaddr c \<le> a \<and> a - ls_vaddr c < length data \<Longrightarrow> data ! (a - ls_vaddr c) = overlay a (overlay a 0 c) n" by blast
  note d = c [unfolded seg_ok_def seg_end_def] n [unfolded seg_ok_def seg_end_def] t [unfolded seg_end_def]
  define m where "m = c\<lparr>ls_in_memory_size := max (seg_end n) (seg_end c) - ls_vaddr c, ls_flags := ls_flags c OR ls_flags n,
    ls_data := data, ls_in_file_size := length data\<rparr>"
  have size: "length data = (if ls_vaddr n + ls_in_file_size n > ls_vaddr c + ls_in_file_size c
      then ls_vaddr n + ls_in_file_size n - ls_vaddr c else ls_in_file_size c)" using data(2) d by (auto simp: max_def)
  have eq: "merge_pair c n (seg_end c) = (Ok m :: ('e, load_segment) outcome)"
    using d size unfolding merge_pair_def by (auto simp: data(1) checked_add_def seg_end_def m_def)
  have fields: "ls_vaddr m = ls_vaddr c" "seg_end m = max (seg_end n) (seg_end c)" "ls_data m = data" "ls_in_file_size m = length data"
    using d by (simp_all add: m_def seg_end_def)
  have ok: "seg_ok m" using d size fields by (auto simp: seg_ok_def seg_end_def max_def m_def split: if_splits)
  have fl: "ls_flags c AND ls_flags m = ls_flags c" "ls_flags n AND ls_flags m = ls_flags n"
    by (rule bit_word_eqI; auto simp: m_def bit_simps)+
  have ins: "inside c m" "inside n m" using fl fields t by (simp_all add: inside_def)
  have "overlay a 0 m = overlay a (overlay a 0 c) n" for a
  proof (cases "ls_vaddr c \<le> a \<and> a - ls_vaddr c < length data")
    case True
    then show ?thesis using data(3) [OF True] fields by (simp add: overlay_def [of a 0 m])
  next
    case False
    then show ?thesis using data(2) d fields by (auto simp: overlay_def)
  qed
  then show ?thesis using eq ok fields ins by blast
qed

lemma foldl_overlay_outside:
  "list_all seg_ok ss \<Longrightarrow> \<forall>s \<in> set ss. a < ls_vaddr s \<Longrightarrow> foldl (overlay a) v ss = v"
  by (induction ss arbitrary: v) (simp_all add: overlay_outside)

lemma image_of_Cons_before:
  assumes "seg_ok c" "list_all seg_ok ss" "\<forall>s \<in> set ss. seg_end c \<le> ls_vaddr s"
  shows "image_of (c # ss) a = (if a < seg_end c then image_of [c] a else image_of ss a)"
proof (cases "a < seg_end c")
  case True
  then have "\<forall>s \<in> set ss. a < ls_vaddr s" using assms(3) by auto
  with foldl_overlay_outside [OF assms(2) this] True show ?thesis by (auto simp: image_of_def list_ex_iff covers_addr_def)
next
  case False
  then show ?thesis using overlay_outside [OF assms(1), of a 0] by (auto simp: image_of_def covers_addr_def)
qed

lemma merge_loop_spec:
  "list_all seg_ok (c # rest) \<Longrightarrow> sorted (map ls_vaddr (c # rest)) \<Longrightarrow>
   \<exists>merged. merge_loop c rest = (Ok merged :: ('e, load_segment list) outcome) \<and> list_all seg_ok merged \<and> sorted_wrt (\<lambda>s t. seg_end s < ls_vaddr t) merged
     \<and> ls_vaddr c = ls_vaddr (hd merged) \<and> merged \<noteq> []
     \<and> (\<forall>a. image_of merged a = image_of (c # rest) a) \<and> (\<forall>s \<in> set (c # rest). \<exists>m \<in> set merged. inside s m)"
proof (induction rest arbitrary: c)
  case Nil
  then show ?case by (auto simp: inside_def)
next
  case (Cons n rest)
  have ok: "seg_ok c" "seg_ok n" "list_all seg_ok rest" using Cons.prems by simp_all
  have le: "ls_vaddr c \<le> ls_vaddr n" "sorted (map ls_vaddr (n # rest))" using Cons.prems by simp_all
  have step: "checked_add (ls_vaddr c) (ls_in_memory_size c) = (Ok (seg_end c) :: ('e, nat) outcome)" using ok(1) by (simp add: checked_add_def seg_ok_def seg_end_def)
  show ?case
  proof (cases "ls_vaddr n \<le> seg_end c")
    case True
    from merge_pair_overlay [OF ok(1,2) le(1) this] obtain m where m: "merge_pair c n (seg_end c) = (Ok m :: ('e, load_segment) outcome)" "seg_ok m"
      "seg_end m = max (seg_end n) (seg_end c)" "ls_vaddr m = ls_vaddr c" "inside c m" "inside n m" "\<And>a. overlay a 0 m = overlay a (overlay a 0 c) n" by blast
    have cov: "covers_addr m a \<longleftrightarrow> covers_addr c a \<or> covers_addr n a" for a using True m(3,4) le(1) by (auto simp: covers_addr_def)
    have im: "image_of (m # rest) a = image_of (c # n # rest) a" for a by (simp add: image_of_def cov m(7))
    have "list_all seg_ok (m # rest)" "sorted (map ls_vaddr (m # rest))" using m(2,4) ok(3) le Cons.prems(2) by auto
    from Cons.IH [OF this] obtain merged where r: "merge_loop m rest = (Ok merged :: ('e, load_segment list) outcome)" "list_all seg_ok merged"
      "sorted_wrt (\<lambda>s t. seg_end s < ls_vaddr t) merged" "ls_vaddr m = ls_vaddr (hd merged)" "merged \<noteq> []"
      "\<And>a. image_of merged a = image_of (m # rest) a" "\<forall>s \<in> set (m # rest). \<exists>t \<in> set merged. inside s t" by blast
    show ?thesis
    proof (intro exI [of _ merged] conjI)
      show "merge_loop c (n # rest) = (Ok merged :: ('e, load_segment list) outcome)" using True step m(1) r(1) by simp
      show "\<forall>a. image_of merged a = image_of (c # n # rest) a" using r(6) im by simp
      show "\<forall>s \<in> set (c # n # rest). \<exists>t \<in> set merged. inside s t" using r(7) inside_trans [OF m(5)] inside_trans [OF m(6)] by auto
    qed (use r m(4) in auto)
  next
    case False
    have "list_all seg_ok (n # rest)" using ok by simp
    from Cons.IH [OF this le(2)] obtain merged where r: "merge_loop n rest = (Ok merged :: ('e, load_segment list) outcome)" "list_all seg_ok merged"
      "sorted_wrt (\<lambda>s t. seg_end s < ls_vaddr t) merged" "ls_vaddr n = ls_vaddr (hd merged)" "merged \<noteq> []"
      "\<And>a. image_of merged a = image_of (n # rest) a" "\<forall>s \<in> set (n # rest). \<exists>t \<in> set merged. inside s t" by blast
    have gap: "seg_end c < ls_vaddr t" if "t \<in> set merged" for t
      using that False r(3-5) by (cases merged) (auto simp: seg_end_def)
    have gap': "seg_end c < ls_vaddr t" if "t \<in> set (n # rest)" for t using that False le(2) by auto
    have "image_of (c # merged) a = image_of (c # n # rest) a" for a
      using image_of_Cons_before [OF ok(1) r(2), of a] image_of_Cons_before [OF ok(1), of "n # rest" a] gap gap' ok r(6)
      by (simp add: less_imp_le)
    then show ?thesis
      by (intro exI [of _ "c # merged"] conjI; use False step r ok(1) gap in \<open>auto simp: inside_def\<close>)
  qed
qed

section \<open>The merged segments\<close>

lemma sorted_wrt_insort:
  assumes "symp R"
  shows "sorted_wrt R xs \<Longrightarrow> \<forall>y \<in> set xs. R x y \<Longrightarrow> sorted_wrt R (insort_key f x xs)"
  by (induction xs) (auto simp: set_insort_key intro: sympD [OF assms])

lemma sorted_wrt_sort: "symp R \<Longrightarrow> sorted_wrt R xs \<Longrightarrow> sorted_wrt R (sort_key f xs)"
  by (induction xs) (simp_all add: sorted_wrt_insort)

lemma apart_in_order:
  assumes "sorted_wrt segs_apart segs" "list_all seg_ok segs" "sorted (map ls_vaddr segs)"
  shows "sorted_wrt (\<lambda>s t. seg_end s \<le> ls_vaddr t) segs"
  using assms
proof (induction segs)
  case (Cons s segs)
  have "seg_end s \<le> ls_vaddr t" if "t \<in> set segs" for t
  proof -
    have "segs_apart s t" "ls_vaddr s \<le> ls_vaddr t" "seg_ok s" "seg_ok t" using Cons.prems that by (auto simp: list_all_iff)
    then show ?thesis by (auto simp: segs_apart_def seg_ok_def seg_end_def)
  qed
  with Cons show ?case by simp
qed simp

text \<open>Without overlaps the order does not matter: the image holds what each segment says.\<close>

lemma image_of_apart:
  "list_all seg_ok ss \<Longrightarrow> sorted_wrt (\<lambda>s t. seg_end s \<le> ls_vaddr t) ss \<Longrightarrow> image_of ss a = Some b \<longleftrightarrow> image_at ss a b"
proof (induction ss)
  case (Cons s ss)
  have one: "image_of [s] a = Some b \<longleftrightarrow> seg_byte s a = Some b"
    by (auto simp: image_of_def covers_addr_def seg_byte_def overlay_def)
  have out: "seg_byte s a \<noteq> Some b" if "\<not> a < seg_end s" using that by (simp add: seg_byte_def)
  have "seg_byte t a \<noteq> Some b" if "a < seg_end s" "t \<in> set ss" for t
    using that Cons.prems(2) by (auto simp: seg_byte_def)
  then have "image_at (s # ss) a b \<longleftrightarrow> (if a < seg_end s then seg_byte s a = Some b else image_at ss a b)"
    using out by (auto simp: image_at_def)
  with image_of_Cons_before [of s ss a] Cons one show ?case by simp
qed (simp add: image_of_def image_at_def)

text \<open>C23: merging the loadable segments of a program, each of which has bytes in the file, keeps the
  memory they describe byte for byte, also where they overlap: the merged segments are well formed,
  come in the order of their addresses with a gap between any two, and give the same image as the
  segments put into memory in the order of their addresses, the later bytes over the earlier ones; every
  segment ends up in one with at least its permissions. Where no two segments overlap, every address
  has the byte its segment says. (For a segment without bytes in the file \<open>merge_reads_past_data\<close> applies.)\<close>

theorem merge_segments_image:
  assumes "segs \<noteq> []" "list_all seg_ok segs"
  shows "\<exists>merged. merge_segments segs = (Ok merged :: ('e, load_segment list) outcome) \<and> list_all seg_ok merged
    \<and> sorted_wrt (\<lambda>s t. seg_end s < ls_vaddr t) merged
    \<and> (\<forall>a. image_of merged a = image_of (sort_key ls_vaddr segs) a)
    \<and> (sorted_wrt segs_apart segs \<longrightarrow> (\<forall>a b. image_at merged a b \<longleftrightarrow> image_at segs a b))
    \<and> (\<forall>s \<in> set segs. \<exists>m \<in> set merged. inside s m)"
proof -
  have ok: "list_all seg_ok (sort_key ls_vaddr segs)" using assms(2) by (simp add: list_all_iff)
  obtain c rest where s: "sort_key ls_vaddr segs = c # rest"
    using assms(1) by (cases "sort_key ls_vaddr segs") (auto dest: arg_cong [where f = length])
  have same: "set segs = set (c # rest)" using arg_cong [OF s, of set] by simp
  have ord: "sorted (map ls_vaddr (c # rest))" unfolding s [symmetric] by simp
  from merge_loop_spec [OF ok [unfolded s] ord, where 'e = 'e] obtain merged where
    m: "merge_loop c rest = (Ok merged :: ('e, load_segment list) outcome)" "list_all seg_ok merged" "sorted_wrt (\<lambda>s t. seg_end s < ls_vaddr t) merged"
      "\<forall>a. image_of merged a = image_of (c # rest) a" "\<forall>s \<in> set (c # rest). \<exists>m \<in> set merged. inside s m" by blast
  have "image_at merged a b \<longleftrightarrow> image_at segs a b" if "sorted_wrt segs_apart segs" for a b
  proof -
    have "symp segs_apart" by (auto simp: symp_def segs_apart_def)
    from apart_in_order [OF sorted_wrt_sort [OF this that] ok]
    have "sorted_wrt (\<lambda>s t. seg_end s \<le> ls_vaddr t) (c # rest)" using ord s by simp
    from image_of_apart [OF ok [unfolded s] this] have "image_of (c # rest) a = Some b \<longleftrightarrow> image_at (c # rest) a b" .
    moreover have "sorted_wrt (\<lambda>s t. seg_end s \<le> ls_vaddr t) merged"
      by (rule sorted_wrt_mono_rel [OF _ m(3)]) simp
    from image_of_apart [OF m(2) this] have "image_of merged a = Some b \<longleftrightarrow> image_at merged a b" .
    ultimately show ?thesis using m(4) same by (simp add: image_at_def)
  qed
  with m s same show ?thesis by (auto simp: merge_segments_def)
qed

definition sample_segments :: "load_segment list" where
  "sample_segments =
     [\<lparr>ls_vaddr = 0x2000, ls_in_file_size = 2, ls_in_memory_size = 4, ls_flags = 6, ls_data = [7, 8]\<rparr>,
      \<lparr>ls_vaddr = 0x1000, ls_in_file_size = 3, ls_in_memory_size = 0x1000, ls_flags = 5, ls_data = [1, 2, 3]\<rparr>]"

text \<open>The first two overlap: the later bytes win, the zeros at the end of the second do not.\<close>

definition overlapping_segments :: "load_segment list" where
  "overlapping_segments = \<lparr>ls_vaddr = 0x1001, ls_in_file_size = 1, ls_in_memory_size = 8, ls_flags = 4, ls_data = [9]\<rparr> # sample_segments"

theorem merge_segments_image_witness:
  "\<exists>merged. merge_segments overlapping_segments = (Ok merged :: (unit, load_segment list) outcome)
     \<and> image_of merged 0x1001 = Some 9 \<and> image_of merged 0x1002 = Some 3 \<and> image_of merged 0x2001 = Some 8
     \<and> image_of merged 0x1FFF = Some 0 \<and> image_of merged 0x2004 = None"
proof -
  have "sort_key ls_vaddr overlapping_segments = [sample_segments ! 1, hd overlapping_segments, sample_segments ! 0]"
    by (simp add: overlapping_segments_def sample_segments_def)
  then have "image_of (sort_key ls_vaddr overlapping_segments) 0x1001 = Some 9" "image_of (sort_key ls_vaddr overlapping_segments) 0x1002 = Some 3"
    "image_of (sort_key ls_vaddr overlapping_segments) 0x2001 = Some 8" "image_of (sort_key ls_vaddr overlapping_segments) 0x1FFF = Some 0"
    "image_of (sort_key ls_vaddr overlapping_segments) 0x2004 = None"
    by (simp_all add: overlapping_segments_def sample_segments_def image_of_def covers_addr_def overlay_def seg_end_def)
  moreover have "overlapping_segments \<noteq> []" "list_all seg_ok overlapping_segments"
    by (simp_all add: overlapping_segments_def sample_segments_def seg_ok_def seg_end_def)
  ultimately show ?thesis using merge_segments_image [where 'e = unit, of overlapping_segments] by auto
qed

text \<open>A segment without bytes in the file that follows the zero-filled end of another one raises
  the size of the merged segment in the file, but not its bytes: the copy of the segment into the
  process then reads past them.\<close>

theorem merge_reads_past_data:
  "merge_segments [\<lparr>ls_vaddr = 0x1000, ls_in_file_size = 3, ls_in_memory_size = 0x20, ls_flags = 6, ls_data = [1, 2, 3]\<rparr>,
     \<lparr>ls_vaddr = 0x1020, ls_in_file_size = 0, ls_in_memory_size = 0x40, ls_flags = 6, ls_data = []\<rparr>]
   = Ok [\<lparr>ls_vaddr = 0x1000, ls_in_file_size = 0x20, ls_in_memory_size = 0x60, ls_flags = 6, ls_data = [1, 2, 3]\<rparr>]"
  by (simp add: merge_segments_def merge_pair_def merge_data_def checked_add_def)

section \<open>Loading\<close>

lemma collect_segments_spec:
  assumes "collect_segments elf_data phs lo hi segs = (Ok (lo', hi', segs') :: ('p elf_load_error, nat \<times> nat \<times> load_segment list) outcome)"
  shows "\<exists>new. segs' = segs @ new \<and> lo' \<le> lo \<and> hi \<le> hi'
    \<and> list_all (\<lambda>s. lo' \<le> ls_vaddr s \<and> seg_end s \<le> hi' \<and> seg_end s < 2 ^ 64 \<and> length (ls_data s) = ls_in_file_size s
         \<and> ls_in_file_size s \<le> length elf_data) new"
  using assms
proof (induction phs arbitrary: lo hi segs)
  case (Cons ph phs)
  show ?case
  proof (cases "p_type ph = PT_LOAD")
    case True
    with Cons.prems obtain data where d: "p_vaddr ph + p_memsz ph < 2 ^ 64" "segment_data elf_data ph = (Ok data :: ('p elf_load_error, u8 list) outcome)"
      "collect_segments elf_data phs (min (p_vaddr ph) lo) (max (p_vaddr ph + p_memsz ph) hi) (segs @ [\<lparr>ls_vaddr = p_vaddr ph,
         ls_in_file_size = p_filesz ph, ls_in_memory_size = p_memsz ph, ls_flags = p_flags ph, ls_data = data\<rparr>])
       = (Ok (lo', hi', segs') :: ('p elf_load_error, nat \<times> nat \<times> load_segment list) outcome)"
      by (auto simp: and_then_Ok_iff checked_add_def split: if_splits)
    have "length data = p_filesz ph \<and> p_filesz ph \<le> length elf_data"
      using d(2) by (auto simp: segment_data_def and_then_Ok_iff checked_add_def split: if_splits)
    with Cons.IH [OF d(3)] d(1) show ?thesis by (auto simp: seg_end_def)
  qed (use Cons in auto)
qed simp

lemma collect_below:
  assumes "collect_segments elf_data phs lo hi segs = (Ok (lo', hi', segs') :: ('p elf_load_error, nat \<times> nat \<times> load_segment list) outcome)" "hi < 2 ^ 64"
  shows "hi' < 2 ^ 64"
  using assms
  by (induction phs arbitrary: lo hi segs) (auto simp: and_then_Ok_iff checked_add_def split: if_splits)

text \<open>Segments between two addresses stay there when they are merged, whether they overlap or not.\<close>

definition in_bounds :: "nat \<Rightarrow> nat \<Rightarrow> load_segment \<Rightarrow> bool" where
  "in_bounds lo hi s \<longleftrightarrow> lo \<le> ls_vaddr s \<and> seg_end s \<le> hi \<and> length (ls_data s) \<le> ls_in_file_size s"

lemma merge_pair_bounds:
  assumes "merge_pair c n (seg_end c) = (Ok m :: ('e, load_segment) outcome)" "in_bounds lo hi c" "in_bounds lo hi n" "ls_vaddr c \<le> ls_vaddr n"
  shows "in_bounds lo hi m \<and> ls_vaddr m = ls_vaddr c \<and> seg_end m = max (seg_end n) (seg_end c)"
proof -
  from assms(1) obtain data where d: "merge_data c n = (Ok data :: ('e, u8 list) outcome)"
    "m = c\<lparr>ls_in_memory_size := max (seg_end n) (seg_end c) - ls_vaddr c, ls_flags := ls_flags c OR ls_flags n, ls_data := data,
       ls_in_file_size := (if ls_vaddr c + ls_in_file_size c < ls_vaddr n + ls_in_file_size n
         then ls_vaddr n + ls_in_file_size n - ls_vaddr c else ls_in_file_size c)\<rparr>"
    by (auto simp: merge_pair_def and_then_Ok_iff checked_add_def seg_end_def split: if_splits)
  have "length data \<le> max (length (ls_data c)) (ls_vaddr n - ls_vaddr c + length (ls_data n))"
    using d(1) by (auto simp: merge_data_def and_then_Ok_iff checked_add_def Let_def split: if_splits)
  with d(2) assms(2-4) show ?thesis by (auto simp: in_bounds_def seg_end_def)
qed

lemma merge_loop_bounds:
  assumes "merge_loop c rest = (Ok merged :: ('e, load_segment list) outcome)" "list_all (in_bounds lo hi) (c # rest)" "sorted (map ls_vaddr (c # rest))"
  shows "list_all (in_bounds lo hi) merged \<and> sorted_wrt (\<lambda>s t. seg_end s < ls_vaddr t) merged \<and> merged \<noteq> []
    \<and> ls_vaddr (hd merged) = ls_vaddr c"
  using assms
proof (induction c rest arbitrary: merged rule: merge_loop.induct)
  case (2 c n rest)
  note step = "2.prems" [simplified, unfolded and_then_Ok_iff checked_add_def seg_end_def [symmetric]]
  have add: "seg_end c < 2 ^ 64" using step(1) by (auto split: if_splits)
  show ?case
  proof (cases "ls_vaddr n \<le> seg_end c")
    case True
    with step(1) add obtain m where m: "merge_pair c n (seg_end c) = (Ok m :: ('e, load_segment) outcome)" "merge_loop m rest = (Ok merged :: ('e, load_segment list) outcome)"
      by (auto simp: and_then_Ok_iff)
    have b: "in_bounds lo hi m" "ls_vaddr m = ls_vaddr c" using merge_pair_bounds [OF m(1), of lo hi] "2.prems"(2,3) by auto
    from "2.IH"(1) [OF True m(2)] b "2.prems"(2,3) show ?thesis by auto
  next
    case False
    with step(1) add obtain ms where m: "merge_loop n rest = (Ok ms :: ('e, load_segment list) outcome)" "merged = c # ms" by (auto simp: and_then_Ok_iff)
    from "2.IH"(2) [OF False m(1)] "2.prems"(2,3)
    have ih: "list_all (in_bounds lo hi) ms" "sorted_wrt (\<lambda>s t. seg_end s < ls_vaddr t) ms" "ms \<noteq> []" "ls_vaddr (hd ms) = ls_vaddr n" by auto
    have "seg_end c < ls_vaddr t" if "t \<in> set ms" for t
      using that False ih(2-4) by (cases ms) (auto simp: seg_end_def)
    with m(2) ih "2.prems"(2) show ?thesis by auto
  qed
qed auto

text \<open>C27: whatever the program headers say, a program that loads has at least one segment, all of its
  segments lie between the two addresses that are reported for it, below \<open>2 ^ 64\<close>, in order and with
  a gap between any two, and none has more bytes than its size in the file.\<close>

theorem from_elf_data_bounds:
  fixes minimal_parse :: "u8 list \<Rightarrow> ('p, elf_bytes) outcome"
  assumes "from_elf_data minimal_parse elf_data = Ok info"
  shows "elf_segments info \<noteq> [] \<and> min_vaddr info \<le> max_vaddr info \<and> max_vaddr info < 2 ^ 64
    \<and> (\<forall>s \<in> set (elf_segments info). min_vaddr info \<le> ls_vaddr s \<and> seg_end s \<le> max_vaddr info
         \<and> length (ls_data s) \<le> ls_in_file_size s)
    \<and> sorted_wrt (\<lambda>s t. seg_end s < ls_vaddr t) (elf_segments info)"
proof -
  from assms obtain e phs lo hi segs merged where s:
    "collect_segments elf_data phs (2 ^ 64 - 1) 0 [] = (Ok (lo, hi, segs) :: ('p elf_load_error, nat \<times> nat \<times> load_segment list) outcome)"
    "segs \<noteq> []" "merge_segments segs = (Ok merged :: ('p elf_load_error, load_segment list) outcome)" "lo \<le> hi"
    "info = \<lparr>entry_point = e, min_vaddr = lo, max_vaddr = hi, elf_segments = merged\<rparr>"
    by (auto simp: from_elf_data_def and_then_Ok_iff split: if_splits option.splits prod.splits)
  from collect_segments_spec [OF s(1)] have segs: "list_all (in_bounds lo hi) segs" by (auto simp: list_all_iff in_bounds_def)
  obtain c rest where c: "sort_key ls_vaddr segs = c # rest" "merge_loop c rest = (Ok merged :: ('p elf_load_error, load_segment list) outcome)"
    using s(3) by (auto simp: merge_segments_def split: list.splits)
  have "list_all (in_bounds lo hi) (c # rest)" using segs unfolding c(1) [symmetric] by (simp add: list_all_iff)
  moreover have "sorted (map ls_vaddr (c # rest))" unfolding c(1) [symmetric] by simp
  ultimately have "list_all (in_bounds lo hi) merged \<and> sorted_wrt (\<lambda>s t. seg_end s < ls_vaddr t) merged \<and> merged \<noteq> []"
    using merge_loop_bounds [OF c(2)] by blast
  moreover have "hi < 2 ^ 64" by (rule collect_below [OF s(1)]) simp
  ultimately show ?thesis using s(4) unfolding s(5) list_all_iff in_bounds_def by simp
qed

definition sample_headers :: "program_header list" where
  "sample_headers = [\<lparr>p_type = 6, p_offset = 0, p_vaddr = 0, p_filesz = 0, p_memsz = 0, p_flags = 4\<rparr>,
     \<lparr>p_type = 1, p_offset = 1, p_vaddr = 0x2000, p_filesz = 2, p_memsz = 4, p_flags = 6\<rparr>,
     \<lparr>p_type = 1, p_offset = 0, p_vaddr = 0x1000, p_filesz = 3, p_memsz = 8, p_flags = 5\<rparr>]"

theorem from_elf_data_bounds_witness:
  "\<exists>info. from_elf_data (\<lambda>_. Ok \<lparr>e_machine = EM_X86_64, e_entry = 0x1000, e_segments = Some sample_headers\<rparr>) [7, 8, 9]
       = (Ok info :: (unit elf_load_error, elf_load_info) outcome)
     \<and> min_vaddr info = 0x1000 \<and> max_vaddr info = 0x2004 \<and> sorted_wrt (\<lambda>s t. seg_end s < ls_vaddr t) (elf_segments info)"
proof -
  let ?parse = "\<lambda>_. Ok \<lparr>e_machine = EM_X86_64, e_entry = 0x1000, e_segments = Some sample_headers\<rparr> :: (unit, elf_bytes) outcome"
  obtain info where "from_elf_data ?parse [7, 8, 9] = Ok info" "min_vaddr info = 0x1000" "max_vaddr info = 0x2004"
    by (simp add: from_elf_data_def sample_headers_def PT_LOAD_def checked_add_def segment_data_def merge_segments_def)
  with from_elf_data_bounds [of ?parse "[7, 8, 9]" info] show ?thesis by blast
qed

end
