(* ===== verification/Processes.thy ===== *)
theory Processes
  imports Process_Mem Scheduler Elf_Loader
begin

text \<open>
  Processes: the shared pages every process gets (\<open>process/shared_state.rs\<close>), the process and its
  creation from an ELF image (\<open>process/process.rs\<close>), the first stack of its task
  (\<open>process/task.rs\<close>), the core pool (\<open>process/core_pool.rs\<close>) and the process manager
  (\<open>process/process_manager.rs\<close>). Page tables, frames and regions are those of \<open>User_Mem\<close> and
  \<open>Process_Mem\<close>, task slots and run queues those of \<open>Scheduler\<close>.
\<close>

section \<open>Bytes of the physical memory\<close>

text \<open>The memory is one of 64-bit words at multiples of eight; a byte is a part of its word.\<close>

definition word_of_byte :: "nat \<Rightarrow> nat" where
  "word_of_byte a = a - a mod 8"

definition load_byte :: "phys_mem \<Rightarrow> nat \<Rightarrow> u8" where
  "load_byte m a = ucast (drop_bit (8 * (a mod 8)) (m (word_of_byte a)))"

definition store_byte :: "nat \<Rightarrow> u8 \<Rightarrow> phys_mem \<Rightarrow> phys_mem" where
  "store_byte a b m = m(word_of_byte a :=
     (m (word_of_byte a) AND NOT (push_bit (8 * (a mod 8)) 0xFF)) OR push_bit (8 * (a mod 8)) (ucast b))"

primrec store_bytes :: "nat \<Rightarrow> u8 list \<Rightarrow> phys_mem \<Rightarrow> phys_mem" where
  "store_bytes a [] m = m"
| "store_bytes a (b # bs) m = store_bytes (Suc a) bs (store_byte a b m)"

section \<open>Shared pages\<close>

datatype shared_region_type = DefaultRegion | EventBufferRegion | ProgramSharedDataBuffer

record shared_region =
  sr_phys_addr :: nat
  sr_kernel_vaddr :: nat
  sr_default_user_vaddr :: nat
  sr_size_bytes :: nat
  sr_region_type :: shared_region_type
  sr_page_table_flags :: u64

definition SHARED_REGION_COUNT :: nat where "SHARED_REGION_COUNT = 1"
definition PROGRAM_SHARED_DATA_INDEX :: nat where "PROGRAM_SHARED_DATA_INDEX = 0"
definition EVENT_BUFFER_ADDR :: nat where "EVENT_BUFFER_ADDR = 0x0000000700000000"
definition PROGRAM_SHARED_DATA_ADDR :: nat where "PROGRAM_SHARED_DATA_ADDR = EVENT_BUFFER_ADDR + PAGE_SIZE"

definition shared_region_new :: shared_region where
  "shared_region_new = \<lparr>sr_phys_addr = 0, sr_kernel_vaddr = 0, sr_default_user_vaddr = 0, sr_size_bytes = 0,
     sr_region_type = DefaultRegion, sr_page_table_flags = 0x200\<rparr>"

definition shared_state_new :: "shared_region list" where
  "shared_state_new = replicate SHARED_REGION_COUNT shared_region_new"

definition register_region :: "nat \<Rightarrow> shared_region \<Rightarrow> shared_region list \<Rightarrow> ('e, shared_region list) outcome" where
  "register_region region_index region rs =
     (if region_index < SHARED_REGION_COUNT \<and> region_index < length rs then Ok (rs[region_index := region]) else Panic)"

definition init_shared_state :: "(machine, 'e, shared_region list) call" where
  \<comment> \<open>without a free frame the region keeps its default, whose address is 0\<close>
  "init_shared_state =
     bind allocate_zeroed_page (\<lambda>page.
       case page of
         Some (buffer_phys, buffer_virt) \<Rightarrow>
           (\<lambda>s. (register_region PROGRAM_SHARED_DATA_INDEX
              \<lparr>sr_phys_addr = buffer_phys, sr_kernel_vaddr = buffer_virt, sr_default_user_vaddr = PROGRAM_SHARED_DATA_ADDR,
               sr_size_bytes = PAGE_SIZE, sr_region_type = ProgramSharedDataBuffer,
               sr_page_table_flags = PRESENT OR WRITABLE OR USER_ACCESSIBLE OR NO_EXECUTE\<rparr> shared_state_new, s))
       | None \<Rightarrow> ret shared_state_new)"

primrec map_into_process :: "mapper_ops \<Rightarrow> user_mem_manager \<Rightarrow> shared_region list \<Rightarrow> (process, map_to_error, unit) call" where
  "map_into_process ops umm [] = ret ()"
| "map_into_process ops umm (region # rs) =
     bind (map_frames ops umm (sr_default_user_vaddr region) [sr_phys_addr region] (sr_page_table_flags region) Borrowed)
       (\<lambda>_. map_into_process ops umm rs)"

section \<open>The process\<close>

datatype process_state = ReadyProcess | RunningProcess | WaitingProcess | Terminated

record process_resources =
  memory_limit :: nat
  memory_used :: nat
  cpu_time_slice :: nat

record file_descriptor =
  fdesc_node_id :: nat
  fdesc_flags :: u8

record proc =
  pr_pid :: nat
  pr_parent_pid :: nat
  pr_priority :: nat
  pr_state :: process_state
  pr_name :: "u8 list"
  pr_children :: "nat list"
  pr_file_descriptors :: "file_descriptor list"
  pr_resources :: process_resources
  pr_exit_code :: "int option"
  pr_is_out :: bool
  pr_memory_layout :: process_memory_layout

definition resources_default :: process_resources where
  "resources_default = \<lparr>memory_limit = 0, memory_used = 0, cpu_time_slice = 0\<rparr>"

definition process_new :: "nat \<Rightarrow> nat \<Rightarrow> nat \<Rightarrow> u8 list \<Rightarrow> bool \<Rightarrow> process_resources \<Rightarrow> nat \<Rightarrow> proc" where
  "process_new pid parent_pid priority name is_out resources page_table_base_phys =
     \<lparr>pr_pid = pid, pr_parent_pid = parent_pid, pr_priority = priority, pr_state = ReadyProcess, pr_name = name,
      pr_children = [], pr_file_descriptors = [], pr_resources = resources, pr_exit_code = None, pr_is_out = is_out,
      pr_memory_layout = with_page_table page_table_base_phys\<rparr>"

section \<open>Loading a segment\<close>

text \<open>
  The bytes are written page by page through the direct map. A round moves at least one byte, so
  the number of bytes bounds the rounds. Reading behind the bytes of the segment is undefined in
  the source, and a panic here.
\<close>

definition user_page :: "user_mem_manager \<Rightarrow> nat \<Rightarrow> nat \<Rightarrow> (machine, 'e, nat) call" where
  "user_page umm pml4 vaddr =
     bind (translate_user_virt_to_phys umm pml4 vaddr) (\<lambda>r.
       case r of None \<Rightarrow> panic
       | Some phys \<Rightarrow> bind (direct_map (phys_offset umm) phys) (\<lambda>_. ret phys))"

primrec copy_loop :: "nat \<Rightarrow> user_mem_manager \<Rightarrow> nat \<Rightarrow> nat \<Rightarrow> u8 list \<Rightarrow> nat \<Rightarrow> nat \<Rightarrow> (machine, 'e, unit) call" where
  "copy_loop 0 umm pml4 vaddr data file_size bytes_copied = (if bytes_copied < file_size then diverge else ret ())"
| "copy_loop (Suc rounds) umm pml4 vaddr data file_size bytes_copied =
     (if bytes_copied < file_size
      then bind (virt_add vaddr bytes_copied) (\<lambda>src_vaddr.
           bind (user_page umm pml4 src_vaddr) (\<lambda>phys.
             let page_offset = src_vaddr AND 0xFFF; bytes_in_page = min (0x1000 - page_offset) (file_size - bytes_copied) in
             bind (check_or_panic (bytes_copied + bytes_in_page \<le> length data)) (\<lambda>_.
             bind (on_mem (store_bytes phys (chunk bytes_copied bytes_in_page data))) (\<lambda>_.
               copy_loop rounds umm pml4 vaddr data file_size (bytes_copied + bytes_in_page)))))
      else ret ())"

primrec zero_loop :: "nat \<Rightarrow> user_mem_manager \<Rightarrow> nat \<Rightarrow> nat \<Rightarrow> nat \<Rightarrow> nat \<Rightarrow> nat \<Rightarrow> (machine, 'e, unit) call" where
  "zero_loop 0 umm pml4 vaddr bss_offset bss_size bytes_zeroed = (if bytes_zeroed < bss_size then diverge else ret ())"
| "zero_loop (Suc rounds) umm pml4 vaddr bss_offset bss_size bytes_zeroed =
     (if bytes_zeroed < bss_size
      then bind (virt_add vaddr bss_offset) (\<lambda>bss_start.
           bind (virt_add bss_start bytes_zeroed) (\<lambda>bss_vaddr.
           bind (user_page umm pml4 bss_vaddr) (\<lambda>phys.
             let page_offset = bss_vaddr AND 0xFFF; bytes_in_page = min (0x1000 - page_offset) (bss_size - bytes_zeroed) in
             bind (on_mem (store_bytes phys (replicate bytes_in_page 0))) (\<lambda>_.
               zero_loop rounds umm pml4 vaddr bss_offset bss_size (bytes_zeroed + bytes_in_page)))))
      else ret ())"

definition fill_segment :: "user_mem_manager \<Rightarrow> nat \<Rightarrow> load_segment \<Rightarrow> (machine, 'e, unit) call" where
  "fill_segment umm pml4 segment =
     bind (copy_loop (ls_in_file_size segment) umm pml4 (ls_vaddr segment) (ls_data segment) (ls_in_file_size segment) 0) (\<lambda>_.
       if ls_in_memory_size segment > ls_in_file_size segment
       then let bss_size = ls_in_memory_size segment - ls_in_file_size segment in
         zero_loop bss_size umm pml4 (ls_vaddr segment) (ls_in_file_size segment) bss_size 0
       else ret ())"

definition segment_flags :: "u32 \<Rightarrow> u64" where
  "segment_flags elf_flags =
     (PRESENT OR USER_ACCESSIBLE OR (if elf_flags AND 2 \<noteq> 0 then WRITABLE else 0)
      OR (if elf_flags AND 1 = 0 then NO_EXECUTE else 0))"

text \<open>A failed mapping gives the whole address space back.\<close>

definition or_free :: "mapper_ops \<Rightarrow> user_mem_manager \<Rightarrow> (process, map_to_error, unit) call \<Rightarrow> (process, map_to_error, unit) call" where
  "or_free ops umm m = bind (attempt m) (\<lambda>r.
     case r of
       Inr _ \<Rightarrow> ret ()
     | Inl e \<Rightarrow> reading (\<lambda>(l, _). bind (lift_machine (free_address_space ops umm l)) (\<lambda>_. fail e)))"

primrec load_segments :: "mapper_ops \<Rightarrow> user_mem_manager \<Rightarrow> load_segment list \<Rightarrow> (process, map_to_error, unit) call" where
  "load_segments ops umm [] = ret ()"
| "load_segments ops umm (segment # segments) =
     bind (check_or_panic (virt_addr_ok (ls_vaddr segment))) (\<lambda>_.
     bind (or_free ops umm (map_owned_region ops umm (ls_vaddr segment) (ls_in_memory_size segment)
            (segment_flags (ls_flags segment)))) (\<lambda>_.
     bind (reading (\<lambda>(l, _). lift_machine (fill_segment umm (top_page_table_phys l) segment))) (\<lambda>_.
       load_segments ops umm segments)))"

definition DEFAULT_NEW_PROCESS_STACK_SIZE :: nat where "DEFAULT_NEW_PROCESS_STACK_SIZE = 1024 * 1024"
definition USER_STACK_TOP :: nat where "USER_STACK_TOP = 0x7FFFFFFFF000"

definition unwrap_call :: "('s, 'e, 'a) call \<Rightarrow> ('s, 'f, 'a) call" where
  "unwrap_call m = bind (attempt m) (\<lambda>r. case r of Inr a \<Rightarrow> ret a | Inl e \<Rightarrow> panic)"

text \<open>The layout of the new process, built up in a machine; \<open>shared\<close> are the registered regions.\<close>

definition load_program :: "mapper_ops \<Rightarrow> user_mem_manager \<Rightarrow> shared_region list \<Rightarrow> elf_load_info \<Rightarrow> (process, map_to_error, unit) call" where
  "load_program ops umm shared elf_info =
     bind (load_segments ops umm (elf_segments elf_info)) (\<lambda>_.
     bind (unwrap_call (map_into_process ops umm shared)) (\<lambda>_.
     bind (virt_sub USER_STACK_TOP DEFAULT_NEW_PROCESS_STACK_SIZE) (\<lambda>stack_start.
       or_free ops umm (map_owned_region ops umm stack_start DEFAULT_NEW_PROCESS_STACK_SIZE
         (PRESENT OR WRITABLE OR NO_EXECUTE)))))"

definition create_with_elf :: "mapper_ops \<Rightarrow> user_mem_manager \<Rightarrow> shared_region list \<Rightarrow> elf_load_info \<Rightarrow> u8 list \<Rightarrow> nat \<Rightarrow> nat \<Rightarrow>
    (machine, map_to_error, proc) call" where
  "create_with_elf ops umm shared elf_info name pid parent_pid =
     bind (layout_new umm) (\<lambda>l0 s.
       case load_program ops umm shared elf_info (l0, s) of
         (r, (l, s')) \<Rightarrow>
           (and_then r (\<lambda>_. Ok \<lparr>pr_pid = pid, pr_parent_pid = parent_pid, pr_priority = 1, pr_state = ReadyProcess,
              pr_name = name, pr_children = [], pr_file_descriptors = [], pr_resources = resources_default,
              pr_exit_code = None, pr_is_out = True, pr_memory_layout = l\<rparr>), s'))"

section \<open>The first stack of a task\<close>

text \<open>
  \<open>TrapFrame\<close>, lowest address first: the fifteen general registers, then what \<open>iretq\<close> pops. The
  kernel stacks are words at multiples of eight; \<open>entry\<close> is the address of \<open>task_first_entry\<close>.
\<close>

definition USER_CODE_SELECTOR_VALUE :: u64 where "USER_CODE_SELECTOR_VALUE = 0x23"
definition USER_DATA_SELECTOR_VALUE :: u64 where "USER_DATA_SELECTOR_VALUE = 0x1B"
definition RFLAGS_DEFAULT :: u64 where "RFLAGS_DEFAULT = 0x202"
definition TRAP_FRAME_SIZE :: nat where "TRAP_FRAME_SIZE = 20 * 8"
definition RETURN_ADDRESS_SIZE :: nat where "RETURN_ADDRESS_SIZE = 8"
definition CALLEE_SAVED_REGISTER_COUNT :: nat where "CALLEE_SAVED_REGISTER_COUNT = 6"
definition CALLEE_SAVED_SIZE :: nat where "CALLEE_SAVED_SIZE = CALLEE_SAVED_REGISTER_COUNT * 8"

record trap_frame =
  tf_gprs :: "u64 list"
  tf_rip :: u64
  tf_cs :: u64
  tf_rflags :: u64
  tf_rsp :: u64
  tf_ss :: u64

definition trap_frame_zeroed :: trap_frame where
  "trap_frame_zeroed = \<lparr>tf_gprs = replicate 15 0, tf_rip = 0, tf_cs = 0, tf_rflags = 0, tf_rsp = 0, tf_ss = 0\<rparr>"

definition frame_words :: "trap_frame \<Rightarrow> u64 list" where
  "frame_words f = tf_gprs f @ [tf_rip f, tf_cs f, tf_rflags f, tf_rsp f, tf_ss f]"

primrec store_words :: "nat \<Rightarrow> u64 list \<Rightarrow> (nat \<Rightarrow> u64) \<Rightarrow> nat \<Rightarrow> u64" where
  "store_words a [] m = m"
| "store_words a (w # ws) m = store_words (a + 8) ws (m(a := w))"

definition init_task_stack :: "u64 \<Rightarrow> nat \<Rightarrow> u64 \<Rightarrow> u64 \<Rightarrow> (nat \<Rightarrow> u64) \<Rightarrow> ('e, nat \<times> (nat \<Rightarrow> u64)) outcome" where
  \<comment> \<open>the saved stack pointer and the stack; fails where the subtractions of the source underflow\<close>
  "init_task_stack entry stack_top user_rip user_rsp stack =
     (if stack_top mod 16 \<noteq> 0 \<or> stack_top < TRAP_FRAME_SIZE + RETURN_ADDRESS_SIZE + CALLEE_SAVED_SIZE then Panic
      else let trap_frame_addr = stack_top - TRAP_FRAME_SIZE;
               return_address_slot = trap_frame_addr - RETURN_ADDRESS_SIZE;
               saved_rsp = return_address_slot - CALLEE_SAVED_SIZE;
               frame = trap_frame_zeroed\<lparr>tf_rip := user_rip, tf_cs := USER_CODE_SELECTOR_VALUE, tf_rflags := RFLAGS_DEFAULT,
                 tf_rsp := user_rsp, tf_ss := USER_DATA_SELECTOR_VALUE\<rparr> in
        Ok (saved_rsp, store_words saved_rsp (replicate CALLEE_SAVED_REGISTER_COUNT 0)
              (store_words return_address_slot [entry] (store_words trap_frame_addr (frame_words frame) stack))))"

section \<open>The core pool\<close>

record core_pool =
  cp_total_cores :: nat
  cp_lapic_ids :: "u8 list"

definition core_pool_new :: core_pool where
  "core_pool_new = \<lparr>cp_total_cores = 1, cp_lapic_ids = replicate MAX_CORES 0\<rparr>"

primrec set_lapic_ids :: "nat list \<Rightarrow> u8 list \<Rightarrow> u8 list \<Rightarrow> ('e, u8 list) outcome" where
  "set_lapic_ids [] cpus ids = Ok ids"
| "set_lapic_ids (i # is) cpus ids =
     (if i < length cpus \<and> i < length ids then set_lapic_ids is cpus (ids[i := cpus ! i]) else Panic)"

text \<open>
  \<open>init_with_core_count\<close> with the low byte of the LAPIC id of each core. A count above \<open>MAX_CORES\<close>
  is reported and then used all the same.
\<close>

definition init_with_core_count :: "nat \<Rightarrow> u8 list \<Rightarrow> core_pool \<Rightarrow> ('e, core_pool) outcome" where
  "init_with_core_count core_count cpus cp =
     (if core_count = 0 then Ok cp
      else and_then (set_lapic_ids [0..<core_count] cpus (cp_lapic_ids cp)) (\<lambda>ids.
        Ok \<lparr>cp_total_cores = core_count, cp_lapic_ids = ids\<rparr>))"

definition lapic_id_of_core :: "core_pool \<Rightarrow> nat \<Rightarrow> ('e, u8) outcome" where
  "lapic_id_of_core cp core_id =
     (if core_id < cp_total_cores cp \<and> core_id < length (cp_lapic_ids cp) then Ok (cp_lapic_ids cp ! core_id) else Panic)"

section \<open>The process manager\<close>

datatype process_error =
  ProcessNotFound | ParentNotFound | DoubleDelete | ElfLoadFailed | NoCoresAvailable | SchedulerError | OutOfTaskSlots

definition ARCHE_PID :: nat where "ARCHE_PID = 0"
definition PROCESS_MAX_PRIORITY :: nat where "PROCESS_MAX_PRIORITY = 8"

record process_manager =
  pm_processes :: "proc list"
  pm_new_pid :: nat

text \<open>What the manager works on: itself, the memory, the scheduler, the kernel stacks and the core pool.\<close>

record kernel =
  k_pm :: process_manager
  k_machine :: machine
  k_sched :: sched
  k_stacks :: "nat \<Rightarrow> u64"
  k_saved_rsp :: "nat \<Rightarrow> nat"
  k_core_pool :: core_pool

type_synonym 'a pcall = "(kernel, process_error, 'a) call"

definition on_machine :: "(machine, 'e, 'a) call \<Rightarrow> (kernel, 'e, 'a) call" where
  "on_machine m = (\<lambda>k. case m (k_machine k) of (r, s) \<Rightarrow> (r, k\<lparr>k_machine := s\<rparr>))"

definition on_sched :: "'a kcall \<Rightarrow> (kernel, unit, 'a) call" where
  "on_sched m = (\<lambda>k. case m (k_sched k) of (r, s) \<Rightarrow> (r, k\<lparr>k_sched := s\<rparr>))"

definition with_error :: "'f \<Rightarrow> ('s, 'e, 'a) call \<Rightarrow> ('s, 'f, 'a) call" where
  "with_error e m = (\<lambda>s. case m s of (r, s') \<Rightarrow> (map_err (\<lambda>_. e) r, s'))"

definition process_manager_new :: process_manager where
  "process_manager_new = \<lparr>pm_processes = [], pm_new_pid = 1\<rparr>"

definition init_arche :: "process_manager \<Rightarrow> process_manager" where
  "init_arche pm = pm\<lparr>pm_processes := pm_processes pm @ [process_new ARCHE_PID ARCHE_PID PROCESS_MAX_PRIORITY
     [0x61, 0x72, 0x63, 0x68, 0x65] True \<lparr>memory_limit = 2 ^ 64 - 1, memory_used = 0, cpu_time_slice = 0\<rparr> 0]\<rparr>"

definition get_process :: "nat \<Rightarrow> proc pcall" where
  "get_process pid =
     (if pid = INVALID_PID then panic
      else reading (\<lambda>k. case List.find (\<lambda>p. pr_pid p = pid) (pm_processes (k_pm k)) of
        Some p \<Rightarrow> ret p | None \<Rightarrow> fail ProcessNotFound))"

text \<open>\<open>get_process_mut\<close> with the change that is made through the reference.\<close>

primrec update_first :: "(proc \<Rightarrow> bool) \<Rightarrow> (proc \<Rightarrow> proc) \<Rightarrow> proc list \<Rightarrow> proc list" where
  "update_first q f [] = []"
| "update_first q f (p # ps) = (if q p then f p # ps else p # update_first q f ps)"

definition change_process :: "nat \<Rightarrow> (proc \<Rightarrow> proc) \<Rightarrow> unit pcall" where
  "change_process pid f =
     bind (get_process pid) (\<lambda>_.
       modify (\<lambda>k. k\<lparr>k_pm := (k_pm k)\<lparr>pm_processes := update_first (\<lambda>p. pr_pid p = pid) f (pm_processes (k_pm k))\<rparr>\<rparr>))"

text \<open>The core with the fewest runnable tasks, the first of them when there are several.\<close>

primrec best_core_loop :: "nat list \<Rightarrow> nat \<Rightarrow> nat \<Rightarrow> nat kcall" where
  "best_core_loop [] best_core best_count = ret best_core"
| "best_core_loop (c # cs) best_core best_count =
     bind (core_runnable_tasks_count c) (\<lambda>queued.
       if queued < best_count then best_core_loop cs c queued else best_core_loop cs best_core best_count)"

definition best_core :: "nat \<Rightarrow> nat kcall" where
  "best_core total_cores = best_core_loop [1..<total_cores] 1 (2 ^ 64 - 1)"

definition store_task_stack :: "u64 \<Rightarrow> nat \<Rightarrow> u64 \<Rightarrow> unit pcall" where
  "store_task_stack entry slot user_rip = reading (\<lambda>k.
     case init_task_stack entry (ts_kernel_stack_top (tasks (k_sched k) slot)) user_rip (of_nat USER_STACK_TOP) (k_stacks k) of
       Ok (saved_rsp, stacks) \<Rightarrow> modify (\<lambda>k. k\<lparr>k_stacks := stacks, k_saved_rsp := (k_saved_rsp k)(slot := saved_rsp)\<rparr>)
     | Err e \<Rightarrow> fail e | Panic \<Rightarrow> panic | Diverge \<Rightarrow> diverge)"

definition queue_process :: "(nat \<Rightarrow> nat) \<Rightarrow> u64 \<Rightarrow> nat \<Rightarrow> mapper_ops \<Rightarrow> user_mem_manager \<Rightarrow> elf_load_info \<Rightarrow> nat \<Rightarrow> proc \<Rightarrow> unit pcall" where
  "queue_process stack_top entry me ops umm elf_info core_id process =
     (\<lambda>k. case allocate_task_slot stack_top (pr_pid process) (pr_priority process) core_id
            (top_page_table_phys (pr_memory_layout process)) (tasks (k_sched k)) of
       (None, t) \<Rightarrow>
         bind (on_machine (free_address_space ops umm (pr_memory_layout process))) (\<lambda>_. fail OutOfTaskSlots)
           (k\<lparr>k_sched := (k_sched k)\<lparr>tasks := t\<rparr>\<rparr>)
     | (Some slot_index, t) \<Rightarrow>
         bind (store_task_stack entry slot_index (of_nat (entry_point elf_info))) (\<lambda>_.
         bind (modify (\<lambda>k. k\<lparr>k_pm := (k_pm k)\<lparr>pm_processes := pm_processes (k_pm k) @ [process]\<rparr>\<rparr>)) (\<lambda>_.
         with_error SchedulerError (on_sched (bind (modify (update_task slot_index (set_state Ready))) (\<lambda>_.
           core_enqueue_ready_task me core_id slot_index (pr_priority process))))))
           (k\<lparr>k_sched := (k_sched k)\<lparr>tasks := t\<rparr>\<rparr>))"

text \<open>The part behind the choice of the identifier.\<close>

definition spawn_process :: "(nat \<Rightarrow> nat) \<Rightarrow> u64 \<Rightarrow> nat \<Rightarrow> mapper_ops \<Rightarrow> user_mem_manager \<Rightarrow> shared_region list \<Rightarrow>
    nat \<Rightarrow> elf_load_info \<Rightarrow> u8 list \<Rightarrow> nat \<Rightarrow> nat \<Rightarrow> nat pcall" where
  "spawn_process stack_top entry me ops umm shared parent_pid elf_info name priority new_pid =
     bind (reading (\<lambda>k. with_error NoCoresAvailable (on_sched (best_core (cp_total_cores (k_core_pool k)))))) (\<lambda>core_id.
     bind (with_error SchedulerError (on_machine (create_with_elf ops umm shared elf_info name new_pid parent_pid))) (\<lambda>process.
     bind (queue_process stack_top entry me ops umm elf_info core_id (process\<lparr>pr_priority := priority, pr_state := ReadyProcess\<rparr>)) (\<lambda>_.
       ret new_pid)))"

definition create_process_from_elf :: "(nat \<Rightarrow> nat) \<Rightarrow> u64 \<Rightarrow> nat \<Rightarrow> mapper_ops \<Rightarrow> user_mem_manager \<Rightarrow> shared_region list \<Rightarrow>
    nat \<Rightarrow> elf_load_info \<Rightarrow> u8 list \<Rightarrow> nat \<Rightarrow> nat pcall" where
  "create_process_from_elf stack_top entry me ops umm shared parent_pid elf_info name priority =
     bind (with_error ParentNotFound (get_process parent_pid)) (\<lambda>_. reading (\<lambda>k.
       let new_pid = pm_new_pid (k_pm k) in
       bind (usize_add new_pid 1) (\<lambda>next_pid.
       bind (modify (\<lambda>k. k\<lparr>k_pm := (k_pm k)\<lparr>pm_new_pid := next_pid\<rparr>\<rparr>)) (\<lambda>_.
         spawn_process stack_top entry me ops umm shared parent_pid elf_info name priority new_pid))))"

primrec kill_children :: "nat \<Rightarrow> int \<Rightarrow> nat list \<Rightarrow> unit kcall" where
  "kill_children me exit_code [] = ret ()"
| "kill_children me exit_code (child_pid # children) =
     bind (request_kill me child_pid exit_code) (\<lambda>_. kill_children me exit_code children)"

primrec reparent_children :: "nat list \<Rightarrow> unit pcall" where
  "reparent_children [] = ret ()"
| "reparent_children (child_pid # children) =
     bind (attempt (change_process child_pid (\<lambda>child. child\<lparr>pr_parent_pid := ARCHE_PID\<rparr>))) (\<lambda>_.
     bind (attempt (change_process ARCHE_PID (\<lambda>arche. arche\<lparr>pr_children := pr_children arche @ [child_pid]\<rparr>))) (\<lambda>_.
       reparent_children children))"

definition terminate_process :: "nat \<Rightarrow> mapper_ops \<Rightarrow> user_mem_manager \<Rightarrow> nat \<Rightarrow> int \<Rightarrow> bool \<Rightarrow> unit pcall" where
  "terminate_process me ops umm pid exit_code cascade =
     (if pid = INVALID_PID then fail DoubleDelete
      else bind (get_process pid) (\<lambda>process.
        bind (change_process pid (\<lambda>p. p\<lparr>pr_state := Terminated, pr_exit_code := Some exit_code\<rparr>)) (\<lambda>_.
        bind (if top_page_table_phys (pr_memory_layout process) \<noteq> 0
              then bind (on_machine (free_address_space ops umm (pr_memory_layout process))) (\<lambda>_.
                change_process pid (\<lambda>p. p\<lparr>pr_memory_layout := (pr_memory_layout p)\<lparr>top_page_table_phys := 0, regions := []\<rparr>\<rparr>))
              else ret ()) (\<lambda>_.
        if cascade then with_error SchedulerError (on_sched (kill_children me exit_code (pr_children process)))
        else reparent_children (pr_children process)))))"

definition cleanup_dead :: "kernel \<Rightarrow> kernel" where
  "cleanup_dead k = k\<lparr>k_pm := (k_pm k)\<lparr>pm_processes := filter (\<lambda>p. pr_state p \<noteq> Terminated) (pm_processes (k_pm k))\<rparr>\<rparr>"

definition process_count :: "kernel \<Rightarrow> nat" where
  "process_count k = length (pm_processes (k_pm k))"

end
