(* ===== verification/Process_Props.thy ===== *)
theory Process_Props
  imports Processes
begin

text \<open>
  A loaded segment has its bytes at its virtual addresses; process identifiers are unique; what
  the manager does with children.
\<close>

section \<open>Bytes\<close>

lemma ff_mask: "(0xFF :: u64) = mask 8"
  by (simp add: mask_eq_exp_minus_1)

lemma load_store_same [simp]: "load_byte (store_byte a b m) a = b"
proof (rule bit_word_eqI)
  fix n assume n: "n < LENGTH(8)"
  have "8 * (a mod 8) + n < 64" using n mod_less_divisor [of 8 a] by simp
  then show "bit (load_byte (store_byte a b m) a) n = bit b n"
    using n by (simp add: load_byte_def store_byte_def ff_mask bit_simps)
qed

lemma load_store_other [simp]:
  assumes "a' \<noteq> a"
  shows "load_byte (store_byte a b m) a' = load_byte m a'"
proof (cases "word_of_byte a' = word_of_byte a")
  case False
  then show ?thesis by (simp add: load_byte_def store_byte_def)
next
  case True
  have ne: "a' mod 8 \<noteq> a mod 8"
  proof
    assume "a' mod 8 = a mod 8"
    with True have "a' = a" unfolding word_of_byte_def by (metis le_add_diff_inverse2 mod_less_eq_dividend)
    with assms show False by simp
  qed
  show ?thesis
  proof (rule bit_word_eqI)
    fix n assume n: "n < LENGTH(8)"
    have "8 * (a' mod 8) + n < 64" using n mod_less_divisor [of 8 a'] by simp
    moreover have "8 * (a' mod 8) + n < 8 * (a mod 8) \<or> 8 * (a mod 8) + 8 \<le> 8 * (a' mod 8) + n"
    proof (cases "a' mod 8 < a mod 8")
      case True
      then have "8 * (a' mod 8) + 8 \<le> 8 * (a mod 8)" by simp
      with n show ?thesis by simp
    next
      case False
      with ne have "8 * (a mod 8) + 8 \<le> 8 * (a' mod 8)" by simp
      then show ?thesis by simp
    qed
    ultimately show "bit (load_byte (store_byte a b m) a') n = bit (load_byte m a') n"
      using n True by (auto simp: load_byte_def store_byte_def ff_mask bit_simps)
  qed
qed

lemma load_store_bytes:
  "load_byte (store_bytes a bs m) x = (if a \<le> x \<and> x < a + length bs then bs ! (x - a) else load_byte m x)"
  by (induction bs arbitrary: a m) (auto simp: nth_Cons' Suc_diff_le not_le)

text \<open>Which words a store changes.\<close>

lemma store_bytes_words:
  "w \<notin> word_of_byte ` {a ..< a + length bs} \<Longrightarrow> store_bytes a bs m w = m w"
proof (induction bs arbitrary: a m)
  case (Cons b bs)
  have "store_byte a b m w = m w" using Cons.prems by (auto simp: store_byte_def)
  moreover have "w \<notin> word_of_byte ` {Suc a ..< Suc a + length bs}" using Cons.prems by (auto simp: image_def)
  ultimately show ?case using Cons.IH [of "Suc a" "store_byte a b m"] by simp
qed simp

section \<open>Translation\<close>

text \<open>The words a page walk looks at.\<close>

definition walk_words :: "phys_mem \<Rightarrow> nat \<Rightarrow> nat \<Rightarrow> nat list" where
  "walk_words m pml4 v =
     (let w4 = pml4 + 8 * table_index 39 v; w3 = entry_addr (m w4) + 8 * table_index 30 v;
          w2 = entry_addr (m w3) + 8 * table_index 21 v; w1 = entry_addr (m w2) + 8 * table_index 12 v in [w4, w3, w2, w1])"

lemma walk_step_run:
  "walk_step umm table shift v k absent s =
     (if table + phys_offset umm < 2 ^ 64 \<and> virt_addr_ok (table + phys_offset umm)
      then if contains_flag (entry_flags (mem s (table + 8 * table_index shift v))) PRESENT
           then k (mem s (table + 8 * table_index shift v)) s else (Ok absent, s)
      else (Panic, s))"
  by (simp add: walk_step_def direct_map_def check_or_panic_def bind_def ret_def panic_def read_entry_def Let_def)

lemma translate_stable:
  assumes "\<forall>w \<in> set (walk_words (mem s) pml4 v). mem s' w = mem s w"
    and "translate_user_virt_to_phys umm pml4 v s = (r, s)"
  shows "translate_user_virt_to_phys umm pml4 v s' = (r, s')"
  using assms
  by (simp add: translate_user_virt_to_phys_def walk_step_run walk_words_def Let_def check_or_panic_def bind_def ret_def panic_def
      split: if_splits)

section \<open>A mapped range\<close>

text \<open>
  The virtual addresses from \<open>v\<close> on are mapped, the \<open>i\<close>-th to the physical address \<open>pa i\<close>: whole
  pages to whole frames, no two addresses to the same byte, and no word of the page tables that
  are looked at lies in the range itself.
\<close>

definition range_words :: "(nat \<Rightarrow> nat) \<Rightarrow> nat \<Rightarrow> nat set" where
  "range_words pa n = (\<lambda>i. word_of_byte (pa i)) ` {..<n}"

definition mapped_at :: "user_mem_manager \<Rightarrow> nat \<Rightarrow> machine \<Rightarrow> nat \<Rightarrow> nat \<Rightarrow> (nat \<Rightarrow> nat) \<Rightarrow> bool" where
  "mapped_at umm pml4 s v n pa \<longleftrightarrow> inj_on pa {..<n}
     \<and> (\<forall>i < n. translate_user_virt_to_phys umm pml4 (v + i) s = ((Ok (Some (pa i)) :: (map_to_error, nat option) outcome), s)
          \<and> virt_addr_ok (v + i) \<and> pa i + phys_offset umm < 2 ^ 64 \<and> virt_addr_ok (pa i + phys_offset umm)
          \<and> pa i mod 4096 = (v + i) mod 4096 \<and> set (walk_words (mem s) pml4 (v + i)) \<inter> range_words pa n = {}
          \<and> (\<forall>j < n. (v + i) div 4096 = (v + j) div 4096 \<longrightarrow> pa i div 4096 = pa j div 4096))"

definition same_outside :: "nat set \<Rightarrow> machine \<Rightarrow> machine \<Rightarrow> bool" where
  "same_outside W s s' \<longleftrightarrow> frames s' = frames s \<and> (\<forall>w. w \<notin> W \<longrightarrow> mem s' w = mem s w)"

lemma same_outside_trans: "same_outside W s s' \<Longrightarrow> same_outside W s' s'' \<Longrightarrow> same_outside W s s''"
  by (simp add: same_outside_def)

lemma and_page_offset: "(a :: nat) AND 0xFFF = a mod 4096"
  using and_mask_mod [of a 12] by simp

lemma user_page_mapped:
  assumes "mapped_at umm pml4 s v n pa" "i < n" "same_outside (range_words pa n) s s'"
  shows "user_page umm pml4 (v + i) s' = (Ok (pa i) :: (map_to_error, nat) outcome, s')"
proof -
  have "\<forall>w \<in> set (walk_words (mem s) pml4 (v + i)). mem s' w = mem s w"
    using assms unfolding mapped_at_def same_outside_def by (metis disjoint_iff)
  then have "translate_user_virt_to_phys umm pml4 (v + i) s' = (Ok (Some (pa i)) :: (map_to_error, nat option) outcome, s')"
    by (rule translate_stable) (use assms(1,2) in \<open>simp add: mapped_at_def\<close>)
  moreover have "pa i + phys_offset umm < 2 ^ 64" "virt_addr_ok (pa i + phys_offset umm)"
    using assms(1,2) by (simp_all add: mapped_at_def)
  ultimately show ?thesis
    by (simp add: user_page_def bind_def direct_map_def check_or_panic_def ret_def)
qed

text \<open>Inside a page the bytes follow one another.\<close>

lemma within_page:
  assumes "(a :: nat) mod 4096 + j < 4096"
  shows "(a + j) div 4096 = a div 4096" "(a + j) mod 4096 = a mod 4096 + j"
proof -
  have eq: "a + j = (a mod 4096 + j) + a div 4096 * 4096" by simp
  show "(a + j) div 4096 = a div 4096" by (subst eq, subst div_mult_self1) (use assms in simp_all)
  show "(a + j) mod 4096 = a mod 4096 + j" by (subst eq, subst mod_mult_self1) (use assms in simp)
qed

lemma mapped_consecutive:
  assumes "mapped_at umm pml4 s v n pa" "c + j < n" "(v + c) mod 4096 + j < 4096"
  shows "pa (c + j) = pa c + j"
proof -
  note page = within_page [OF assms(3), unfolded add.assoc]
  have "pa (c + j) div 4096 = pa c div 4096" "pa (c + j) mod 4096 = (v + (c + j)) mod 4096" "pa c mod 4096 = (v + c) mod 4096"
    using assms(1,2) page(1) unfolding mapped_at_def by (metis add_lessD1)+
  with page(2) show ?thesis by (metis add.assoc div_mult_mod_eq)
qed

lemma write_in_page:
  assumes m: "mapped_at umm pml4 s v n pa" and b: "c + length bs \<le> n" "(v + c) mod 4096 + length bs \<le> 4096"
    and same: "same_outside (range_words pa n) s s'"
  defines "s'' \<equiv> s'\<lparr>mem := store_bytes (pa c) bs (mem s')\<rparr>"
  shows "same_outside (range_words pa n) s s''"
    and "\<And>j. j < length bs \<Longrightarrow> load_byte (mem s'') (pa (c + j)) = bs ! j"
    and "\<And>x. x \<notin> pa ` {c ..< c + length bs} \<Longrightarrow> load_byte (mem s'') x = load_byte (mem s') x"
proof -
  have pos: "pa (c + j) = pa c + j" if "j < length bs" for j
    using mapped_consecutive [OF m, of c j] b that by simp
  have range: "{pa c ..< pa c + length bs} = pa ` {c ..< c + length bs}"
  proof (intro equalityI subsetI)
    fix x assume "x \<in> {pa c ..< pa c + length bs}"
    then have "x = pa (c + (x - pa c))" "c + (x - pa c) \<in> {c ..< c + length bs}" using pos [of "x - pa c"] by auto
    then show "x \<in> pa ` {c ..< c + length bs}" by blast
  next
    fix x assume "x \<in> pa ` {c ..< c + length bs}"
    then obtain j where "x = pa (c + j)" "j < length bs" by (metis (no_types, lifting) atLeastLessThan_iff imageE le_Suc_ex nat_add_left_cancel_less)
    with pos show "x \<in> {pa c ..< pa c + length bs}" by simp
  qed
  have "word_of_byte ` {pa c ..< pa c + length bs} \<subseteq> range_words pa n" unfolding range range_words_def using b(1) by auto
  with same show "same_outside (range_words pa n) s s''"
    using store_bytes_words [of _ "pa c" bs "mem s'"] unfolding s''_def same_outside_def by (metis (no_types, lifting) machine.select_convs machine.surjective machine.update_convs(1) subsetD)
  show "load_byte (mem s'') (pa (c + j)) = bs ! j" if "j < length bs" for j
    using pos [OF that] that by (simp add: s''_def load_store_bytes)
  show "load_byte (mem s'') x = load_byte (mem s') x" if "x \<notin> pa ` {c ..< c + length bs}" for x
    using that unfolding range [symmetric] by (auto simp: s''_def load_store_bytes)
qed

section \<open>Loading a segment\<close>

text \<open>The state after the bytes from \<open>lo\<close> to \<open>hi\<close> have been written.\<close>

definition wrote :: "(nat \<Rightarrow> nat) \<Rightarrow> nat \<Rightarrow> nat \<Rightarrow> nat \<Rightarrow> (nat \<Rightarrow> u8) \<Rightarrow> machine \<Rightarrow> machine \<Rightarrow> bool" where
  "wrote pa n lo hi byte s s' \<longleftrightarrow> same_outside (range_words pa n) s s'
     \<and> (\<forall>i. lo \<le> i \<and> i < hi \<longrightarrow> load_byte (mem s') (pa i) = byte i)
     \<and> (\<forall>x. x \<notin> pa ` {lo ..< hi} \<longrightarrow> load_byte (mem s') x = load_byte (mem s) x)"

lemma wrote_nothing: "hi \<le> lo \<Longrightarrow> wrote pa n lo hi byte s s"
  by (auto simp: wrote_def same_outside_def)

lemma wrote_append:
  assumes "inj_on pa {..<n}" "lo \<le> mid" "mid \<le> hi" "hi \<le> n" "wrote pa n lo mid byte s s'" "wrote pa n mid hi byte s' s''"
  shows "wrote pa n lo hi byte s s''"
proof -
  have "load_byte (mem s'') (pa i) = byte i" if "lo \<le> i" "i < hi" for i
  proof (cases "i < mid")
    case True
    have "pa i \<notin> pa ` {mid ..< hi}" using inj_onD [OF assms(1), of i] assms(3,4) that True by fastforce
    with assms(5,6) that True show ?thesis by (simp add: wrote_def)
  qed (use assms(6) that in \<open>simp add: wrote_def\<close>)
  moreover have "load_byte (mem s'') x = load_byte (mem s) x" if "x \<notin> pa ` {lo ..< hi}" for x
  proof -
    have "x \<notin> pa ` {lo ..< mid}" "x \<notin> pa ` {mid ..< hi}" using that assms(2,3) by auto
    with assms(5,6) show ?thesis by (simp add: wrote_def)
  qed
  ultimately show ?thesis using assms(5,6) same_outside_trans unfolding wrote_def by blast
qed

lemma write_page_wrote:
  assumes "mapped_at umm pml4 s v n pa" "c + length bs \<le> n" "(v + c) mod 4096 + length bs \<le> 4096"
    and "same_outside (range_words pa n) s s'" "\<And>j. j < length bs \<Longrightarrow> bs ! j = byte (c + j)"
  shows "wrote pa n c (c + length bs) byte s' (s'\<lparr>mem := store_bytes (pa c) bs (mem s')\<rparr>)"
proof -
  let ?s = "s'\<lparr>mem := store_bytes (pa c) bs (mem s')\<rparr>"
  note w = write_in_page [OF assms(1-4)]
  have "same_outside (range_words pa n) s' ?s" using w(1) assms(4) by (simp add: same_outside_def)
  moreover have "load_byte (mem ?s) (pa i) = byte i" if "c \<le> i" "i < c + length bs" for i
    using w(2) [of "i - c"] assms(5) [of "i - c"] that by simp
  ultimately show ?thesis using w(3) unfolding wrote_def by blast
qed

lemma page_rest: "(a :: nat) mod 4096 + min (4096 - a mod 4096) k \<le> 4096" "0 < k \<Longrightarrow> 0 < min (4096 - a mod 4096) k"
  using mod_less_divisor [of 4096 a] by auto

lemma copy_loop_mapped:
  assumes m: "mapped_at umm pml4 s v n pa" and fits: "file_size \<le> n" "file_size \<le> length data"
  shows "file_size - c \<le> rounds \<Longrightarrow> c \<le> file_size \<Longrightarrow> same_outside (range_words pa n) s s' \<Longrightarrow>
    \<exists>s''. copy_loop rounds umm pml4 v data file_size c s' = (Ok () :: (map_to_error, unit) outcome, s'')
      \<and> wrote pa n c file_size (\<lambda>i. data ! i) s' s''"
proof (induction rounds arbitrary: c s')
  case 0
  then show ?case using wrote_nothing [of file_size c] by (auto simp: ret_def)
next
  case (Suc rounds)
  show ?case
  proof (cases "c < file_size")
    case False
    then show ?thesis using wrote_nothing [of file_size c] by (auto simp: ret_def)
  next
    case True
    define k where "k = min (4096 - (v + c) mod 4096) (file_size - c)"
    define bs where "bs = chunk c k data"
    define s1 where "s1 = s'\<lparr>mem := store_bytes (pa c) bs (mem s')\<rparr>"
    have k: "0 < k" "c + k \<le> file_size" "(v + c) mod 4096 + k \<le> 4096"
      using page_rest [of "v + c" "file_size - c"] True by (auto simp: k_def)
    then have len: "length bs = k" using fits(2) by (simp add: bs_def)
    have c: "c < n" using True fits(1) by simp
    have "wrote pa n c (c + length bs) (\<lambda>i. data ! i) s' s1" unfolding s1_def
    proof (rule write_page_wrote [OF m _ _ Suc.prems(3)])
      show "bs ! j = data ! (c + j)" if "j < length bs" for j using that k(2) fits(2) len by (simp add: bs_def nth_chunk)
    qed (use k fits(1) in \<open>simp_all add: len\<close>)
    then have w: "wrote pa n c (c + k) (\<lambda>i. data ! i) s' s1" unfolding len .
    then have same: "same_outside (range_words pa n) s s1" using same_outside_trans [OF Suc.prems(3)] by (simp add: wrote_def)
    have "file_size - (c + k) \<le> rounds" using k(1) Suc.prems(1) by linarith
    from Suc.IH [OF this k(2) same] obtain s'' where r:
      "copy_loop rounds umm pml4 v data file_size (c + k) s1 = (Ok () :: (map_to_error, unit) outcome, s'')"
      "wrote pa n (c + k) file_size (\<lambda>i. data ! i) s1 s''" by blast
    have "virt_addr_ok (v + c)" using m c by (simp add: mapped_at_def)
    moreover have "c + k \<le> length data" using k(2) fits(2) by simp
    ultimately have "copy_loop (Suc rounds) umm pml4 v data file_size c s' = (Ok () :: (map_to_error, unit) outcome, s'')"
      using True r(1) user_page_mapped [OF m c Suc.prems(3)] unfolding s1_def bs_def
      by (simp add: bind_def virt_add_def ret_def check_or_panic_def on_mem_def and_page_offset Let_def flip: k_def)
    moreover have "wrote pa n c file_size (\<lambda>i. data ! i) s' s''"
      by (rule wrote_append [OF _ _ k(2) fits(1) w r(2)]) (use m in \<open>simp_all add: mapped_at_def\<close>)
    ultimately show ?thesis by blast
  qed
qed

lemma zero_loop_mapped:
  assumes m: "mapped_at umm pml4 s v n pa" and fits: "off + bss_size \<le> n"
  shows "bss_size - z \<le> rounds \<Longrightarrow> z \<le> bss_size \<Longrightarrow> same_outside (range_words pa n) s s' \<Longrightarrow>
    \<exists>s''. zero_loop rounds umm pml4 v off bss_size z s' = (Ok () :: (map_to_error, unit) outcome, s'')
      \<and> wrote pa n (off + z) (off + bss_size) (\<lambda>i. 0) s' s''"
proof (induction rounds arbitrary: z s')
  case 0
  then show ?case using wrote_nothing [of "off + bss_size" "off + z"] by (auto simp: ret_def)
next
  case (Suc rounds)
  show ?case
  proof (cases "z < bss_size")
    case False
    then show ?thesis using wrote_nothing [of "off + bss_size" "off + z"] by (auto simp: ret_def)
  next
    case True
    define k where "k = min (4096 - (v + off + z) mod 4096) (bss_size - z)"
    define s1 where "s1 = s'\<lparr>mem := store_bytes (pa (off + z)) (replicate k 0) (mem s')\<rparr>"
    have k: "0 < k" "off + z + k \<le> off + bss_size" "(v + (off + z)) mod 4096 + k \<le> 4096"
      using page_rest [of "v + off + z" "bss_size - z"] True by (auto simp: k_def add.assoc)
    have c: "off < n" "off + z < n" using True fits by simp_all
    have "wrote pa n (off + z) (off + z + length (replicate k (0 :: u8))) (\<lambda>i. 0) s' s1" unfolding s1_def
      by (rule write_page_wrote [OF m _ _ Suc.prems(3)]) (use k fits in simp_all)
    then have w: "wrote pa n (off + z) (off + z + k) (\<lambda>i. 0) s' s1" by simp
    then have same: "same_outside (range_words pa n) s s1" using same_outside_trans [OF Suc.prems(3)] by (simp add: wrote_def)
    have "bss_size - (z + k) \<le> rounds" "z + k \<le> bss_size" using k(1,2) Suc.prems(1) by linarith+
    from Suc.IH [OF this same] obtain s'' where r:
      "zero_loop rounds umm pml4 v off bss_size (z + k) s1 = (Ok () :: (map_to_error, unit) outcome, s'')"
      "wrote pa n (off + (z + k)) (off + bss_size) (\<lambda>i. 0) s1 s''" by blast
    have "virt_addr_ok (v + off)" "virt_addr_ok (v + off + z)" using m c by (simp_all add: mapped_at_def add.assoc)
    then have "zero_loop (Suc rounds) umm pml4 v off bss_size z s' = (Ok () :: (map_to_error, unit) outcome, s'')"
      using True r(1) user_page_mapped [OF m c(2) Suc.prems(3), unfolded add.assoc [symmetric]] unfolding s1_def
      by (simp add: bind_def virt_add_def ret_def on_mem_def and_page_offset Let_def flip: k_def)
    moreover have "wrote pa n (off + z) (off + bss_size) (\<lambda>i. 0) s' s''"
      by (rule wrote_append [OF _ _ k(2) fits w]) (use m r(2) in \<open>simp_all add: mapped_at_def add.assoc\<close>)
    ultimately show ?thesis by blast
  qed
qed

text \<open>C11: once the pages of a segment are mapped, filling it returns and leaves at every virtual address
  of the segment the byte of the program file, or zero behind the end of the bytes in the file; no
  other byte of the physical memory changes. (The segment may start and end anywhere in a page and
  span any number of pages; its frames are not page tables, no two of its addresses share a byte.)\<close>

theorem fill_segment_bytes:
  assumes m: "mapped_at umm pml4 s (ls_vaddr seg) (ls_in_memory_size seg) pa"
    and ok: "length (ls_data seg) = ls_in_file_size seg" "ls_in_file_size seg \<le> ls_in_memory_size seg"
  shows "\<exists>s'. fill_segment umm pml4 seg s = (Ok () :: (map_to_error, unit) outcome, s') \<and> frames s' = frames s
    \<and> (\<forall>i < ls_in_memory_size seg. load_byte (mem s') (pa i) = (if i < ls_in_file_size seg then ls_data seg ! i else 0))
    \<and> (\<forall>x. x \<notin> pa ` {..<ls_in_memory_size seg} \<longrightarrow> load_byte (mem s') x = load_byte (mem s) x)"
proof -
  let ?v = "ls_vaddr seg" and ?f = "ls_in_file_size seg" and ?n = "ls_in_memory_size seg"
  let ?byte = "\<lambda>i. if i < ?f then ls_data seg ! i else 0"
  have refl: "same_outside (range_words pa ?n) s s" by (simp add: same_outside_def)
  obtain s1 where s1: "copy_loop ?f umm pml4 ?v (ls_data seg) ?f 0 s = (Ok () :: (map_to_error, unit) outcome, s1)"
    "wrote pa ?n 0 ?f (\<lambda>i. ls_data seg ! i) s s1"
    using copy_loop_mapped [OF m ok(2), of "ls_data seg" 0 ?f s] ok refl by auto
  then have same: "same_outside (range_words pa ?n) s s1" and w1: "wrote pa ?n 0 ?f ?byte s s1" by (simp_all add: wrote_def)
  have "\<exists>s'. fill_segment umm pml4 seg s = (Ok () :: (map_to_error, unit) outcome, s') \<and> wrote pa ?n ?f ?n ?byte s1 s'"
  proof (cases "?f < ?n")
    case True
    then obtain s' where "zero_loop (?n - ?f) umm pml4 ?v ?f (?n - ?f) 0 s1 = (Ok () :: (map_to_error, unit) outcome, s')"
      "wrote pa ?n ?f ?n (\<lambda>i. 0) s1 s'"
      using zero_loop_mapped [OF m, of ?f "?n - ?f" 0 "?n - ?f" s1] same by auto
    with True s1(1) show ?thesis by (auto simp: fill_segment_def bind_def Let_def wrote_def)
  next
    case False
    then show ?thesis using s1(1) ok wrote_nothing [of ?n ?f] by (auto simp: fill_segment_def bind_def ret_def)
  qed
  then obtain s' where s': "fill_segment umm pml4 seg s = (Ok () :: (map_to_error, unit) outcome, s')" "wrote pa ?n ?f ?n ?byte s1 s'" by blast
  have "wrote pa ?n 0 ?n ?byte s s'"
    by (rule wrote_append [OF _ _ ok(2) le_refl w1 s'(2)]) (use m in \<open>simp_all add: mapped_at_def\<close>)
  with s'(1) show ?thesis by (auto simp: wrote_def same_outside_def atLeast0LessThan)
qed

text \<open>Four tables that map the page at \<open>0x400000\<close> to the frame at \<open>0x5000\<close>.\<close>

definition sample_tables :: phys_mem where
  "sample_tables a = (if a = 0x1000 then 0x2007 else if a = 0x2000 then 0x3007 else if a = 0x3010 then 0x4007
     else if a = 0x4000 then 0x5007 else 0)"

definition sample_umm :: user_mem_manager where
  "sample_umm = \<lparr>kernel_page_table_phys = 0x9000, phys_offset = HHDM_OFFSET\<rparr>"

lemma sample_indices:
  "table_index 39 (0x400FFE + i) = 0" "table_index 30 (0x400FFE + i) = 0" "table_index 21 (0x400FFE + i) = 2"
  "table_index 12 (0x400FFE + i) = 0" "(0x400FFE + i) AND 0xFFF = 0xFFE + i" if "i < 2"
  using that by (auto simp: less_2_cases_iff table_index_def)

lemma sample_entries:
  "entry_addr 0x2007 = 0x2000" "entry_addr 0x3007 = 0x3000" "entry_addr 0x4007 = 0x4000" "entry_addr 0x5007 = 0x5000"
  "contains_flag (entry_flags 0x2007) PRESENT" "contains_flag (entry_flags 0x3007) PRESENT" "contains_flag (entry_flags 0x4007) PRESENT"
  "contains_flag (entry_flags 0x5007) PRESENT" "\<not> contains_flag (entry_flags 0x4007) HUGE_PAGE"
  by (simp_all add: entry_addr_def entry_flags_def contains_flag_def ADDR_MASK_def PRESENT_def HUGE_PAGE_def)

lemma sample_mapped: "mapped_at sample_umm 0x1000 \<lparr>mem = sample_tables, frames = fa\<rparr> 0x400FFE 2 (\<lambda>i. 0x5FFE + i)"
proof -
  have "translate_user_virt_to_phys sample_umm 0x1000 (0x400FFE + i) \<lparr>mem = sample_tables, frames = fa\<rparr>
      = (Ok (Some (0x5FFE + i)) :: (map_to_error, nat option) outcome, \<lparr>mem = sample_tables, frames = fa\<rparr>)" if "i < 2" for i
    using that by (simp add: translate_user_virt_to_phys_def walk_step_run sample_indices sample_tables_def sample_umm_def HHDM_OFFSET_def
        virt_addr_ok_def sample_entries bind_def check_or_panic_def ret_def phys_addr_ok_def)
  moreover have "walk_words sample_tables 0x1000 (0x400FFE + i) = [0x1000, 0x2000, 0x3010, 0x4000]" if "i < 2" for i
    using that by (simp add: walk_words_def sample_indices sample_tables_def sample_entries)
  moreover have "range_words (\<lambda>i. 0x5FFE + i) 2 = {0x5FF8}"
    by (simp add: range_words_def word_of_byte_def numeral_2_eq_2 lessThan_Suc)
  ultimately show ?thesis
    by (auto simp: mapped_at_def inj_on_def virt_addr_ok_def sample_umm_def HHDM_OFFSET_def less_2_cases_iff)
qed

theorem fill_segment_bytes_witness:
  "\<exists>s'. fill_segment sample_umm 0x1000 \<lparr>ls_vaddr = 0x400FFE, ls_in_file_size = 1, ls_in_memory_size = 2, ls_flags = 6, ls_data = [7]\<rparr>
       \<lparr>mem = sample_tables, frames = sample_allocator\<rparr> = (Ok () :: (map_to_error, unit) outcome, s')
     \<and> load_byte (mem s') 0x5FFE = 7 \<and> load_byte (mem s') 0x5FFF = 0"
proof -
  let ?seg = "\<lparr>ls_vaddr = 0x400FFE, ls_in_file_size = 1, ls_in_memory_size = 2, ls_flags = 6, ls_data = [7]\<rparr>"
  obtain s' where "fill_segment sample_umm 0x1000 ?seg \<lparr>mem = sample_tables, frames = sample_allocator\<rparr>
      = (Ok () :: (map_to_error, unit) outcome, s')"
    and s': "\<forall>i < 2. load_byte (mem s') (0x5FFE + i) = (if i < 1 then [7] ! i else 0)"
    using fill_segment_bytes [of sample_umm "0x1000" "\<lparr>mem = sample_tables, frames = sample_allocator\<rparr>" ?seg "\<lambda>i. 0x5FFE + i"]
      sample_mapped [of sample_allocator] by auto
  then show ?thesis using s' [rule_format, of 0] s' [rule_format, of 1] by auto
qed

section \<open>The manager\<close>

definition pm_ok :: "process_manager \<Rightarrow> bool" where
  "pm_ok pm \<longleftrightarrow> distinct (map pr_pid (pm_processes pm)) \<and> (\<forall>p \<in> set (pm_processes pm). pr_pid p < pm_new_pid pm)"

definition no_children :: "process_manager \<Rightarrow> bool" where
  "no_children pm \<longleftrightarrow> (\<forall>p \<in> set (pm_processes pm). pr_children p = [])"

lemma update_first_pids: "(\<And>p. pr_pid (f p) = pr_pid p) \<Longrightarrow> map pr_pid (update_first q f ps) = map pr_pid ps"
  by (induction ps) auto

lemma update_first_set: "set (update_first q f ps) \<subseteq> set ps \<union> f ` set ps"
  by (induction ps) auto

lemma get_process_pm: "get_process pid k = (r, k') \<Longrightarrow> k' = k"
  by (auto simp: get_process_def reading_def ret_def fail_def panic_def split: option.splits if_splits)

lemma get_process_Ok:
  "get_process pid k = (Ok p, k') \<Longrightarrow> pid \<noteq> INVALID_PID \<and> p \<in> set (pm_processes (k_pm k)) \<and> pr_pid p = pid
     \<and> List.find (\<lambda>p. pr_pid p = pid) (pm_processes (k_pm k)) = Some p"
  by (auto simp: get_process_def reading_def ret_def fail_def panic_def find_Some_iff split: option.splits if_splits)

lemma create_with_elf_fields:
  assumes "create_with_elf ops umm shared elf_info name pid parent_pid s = (Ok p, s')"
  shows "pr_pid p = pid \<and> pr_parent_pid p = parent_pid \<and> pr_name p = name \<and> pr_children p = [] \<and> pr_exit_code p = None"
  using assms
  by (auto simp: create_with_elf_def bind_def and_then_Ok_iff split: prod.splits outcome.splits)

lemma queue_process_pm:
  assumes "queue_process stack_top entry me ops umm elf_info core_id process k = (r, k')"
  shows "pm_new_pid (k_pm k') = pm_new_pid (k_pm k)
    \<and> (pm_processes (k_pm k') = pm_processes (k_pm k) \<and> r \<noteq> Ok () \<or> pm_processes (k_pm k') = pm_processes (k_pm k) @ [process])"
proof -
  obtain o1 t where slot: "allocate_task_slot stack_top (pr_pid process) (pr_priority process) core_id
      (top_page_table_phys (pr_memory_layout process)) (tasks (k_sched k)) = (o1, t)" by fastforce
  let ?k = "k\<lparr>k_sched := (k_sched k)\<lparr>tasks := t\<rparr>\<rparr>"
  show ?thesis
  proof (cases o1)
    case None
    with assms slot have "bind (on_machine (free_address_space ops umm (pr_memory_layout process))) (\<lambda>_. fail OutOfTaskSlots) ?k = (r, k')"
      by (simp add: queue_process_def)
    then show ?thesis by (rule bind_cases) (auto simp: on_machine_def fail_def split: prod.splits)
  next
    case (Some i)
    define rest where "rest = bind (modify (\<lambda>k. k\<lparr>k_pm := (k_pm k)\<lparr>pm_processes := pm_processes (k_pm k) @ [process]\<rparr>\<rparr>)) (\<lambda>_.
      with_error SchedulerError (on_sched (bind (modify (update_task i (set_state Ready))) (\<lambda>_.
        core_enqueue_ready_task me core_id i (pr_priority process)))))"
    have run: "bind (store_task_stack entry i (of_nat (entry_point elf_info))) (\<lambda>_. rest) ?k = (r, k')"
      using assms slot Some by (simp add: queue_process_def rest_def)
    have store: "store_task_stack entry i w k0 = (r0, k1) \<Longrightarrow> k_pm k1 = k_pm k0" for w k0 r0 k1
      by (auto simp: store_task_stack_def reading_def modify_def fail_def panic_def diverge_def split: outcome.splits prod.splits)
    have tail: "rest k0 = (r, k') \<Longrightarrow> k_pm k' = (k_pm k0)\<lparr>pm_processes := pm_processes (k_pm k0) @ [process]\<rparr>" for k0
      unfolding rest_def by (auto simp: bind_def modify_def with_error_def on_sched_def split: prod.splits)
    from run show ?thesis by (rule bind_cases) (auto dest!: store tail)
  qed
qed

lemma with_error_Ok: "with_error e m s = (Ok a, s') \<longleftrightarrow> m s = (Ok a, s')"
proof (cases "m s")
  case (Pair r t)
  then show ?thesis by (cases r) (auto simp: with_error_def)
qed

text \<open>What a new process looks like.\<close>

definition fresh_process :: "nat \<Rightarrow> nat \<Rightarrow> nat \<Rightarrow> u8 list \<Rightarrow> proc \<Rightarrow> bool" where
  "fresh_process pid parent_pid priority name p \<longleftrightarrow> pr_pid p = pid \<and> pr_parent_pid p = parent_pid \<and> pr_priority p = priority
     \<and> pr_state p = ReadyProcess \<and> pr_name p = name \<and> pr_children p = [] \<and> pr_exit_code p = None"

lemma spawn_process_pm:
  assumes "spawn_process stack_top entry me ops umm shared parent_pid elf_info name priority new_pid k = (r, k')"
  shows "pm_new_pid (k_pm k') = pm_new_pid (k_pm k)
    \<and> (pm_processes (k_pm k') = pm_processes (k_pm k) \<and> (\<forall>pid. r \<noteq> Ok pid)
       \<or> (\<exists>p. pm_processes (k_pm k') = pm_processes (k_pm k) @ [p] \<and> fresh_process new_pid parent_pid priority name p
            \<and> (\<forall>pid. r = Ok pid \<longrightarrow> pid = new_pid)))"
proof -
  let ?core = "reading (\<lambda>k. with_error NoCoresAvailable (on_sched (best_core (cp_total_cores (k_core_pool k)))))"
  let ?make = "with_error SchedulerError (on_machine (create_with_elf ops umm shared elf_info name new_pid parent_pid))"
  let ?set = "\<lambda>p. p\<lparr>pr_priority := priority, pr_state := ReadyProcess\<rparr>"
  have core: "?core k0 = (q, k1) \<Longrightarrow> k_pm k1 = k_pm k0" for k0 q k1
    by (auto simp: reading_def with_error_def on_sched_def split: prod.splits)
  have make: "?make k0 = (q, k1) \<Longrightarrow> k_pm k1 = k_pm k0" for k0 q k1
    by (auto simp: with_error_def on_machine_def split: prod.splits)
  have made: "fresh_process new_pid parent_pid priority name (?set p)" if "?make k0 = (Ok p, k1)" for k0 p k1
    using that unfolding with_error_Ok
    by (auto simp: on_machine_def fresh_process_def dest: create_with_elf_fields split: prod.splits)
  from assms show ?thesis unfolding spawn_process_def
  proof (cases rule: bind_cases)
    case (ok core_id k1)
    from ok(2) show ?thesis
    proof (cases rule: bind_cases)
      case (ok p k2)
      note same = core [OF \<open>?core k = (Ok core_id, k1)\<close>] make [OF ok(1)] and fresh = made [OF ok(1)]
      from ok(2) show ?thesis
      proof (cases rule: bind_cases)
        case (ok u k3)
        from queue_process_pm [OF ok(1)] ok(2) same fresh show ?thesis by (auto simp: ret_def)
      qed (use same fresh in \<open>auto dest!: queue_process_pm\<close>)
    qed (use core [OF ok(1)] in \<open>auto dest: make\<close>)
  qed (auto dest: core)
qed

lemma create_process_pm:
  assumes "create_process_from_elf stack_top entry me ops umm shared parent_pid elf_info name priority k = (r, k')"
  shows "k_pm k' = k_pm k \<and> (\<forall>pid. r \<noteq> Ok pid)
    \<or> pm_new_pid (k_pm k') = pm_new_pid (k_pm k) + 1
       \<and> (pm_processes (k_pm k') = pm_processes (k_pm k) \<and> (\<forall>pid. r \<noteq> Ok pid)
          \<or> (\<exists>p. pm_processes (k_pm k') = pm_processes (k_pm k) @ [p] \<and> fresh_process (pm_new_pid (k_pm k)) parent_pid priority name p
               \<and> (\<forall>pid. r = Ok pid \<longrightarrow> pid = pm_new_pid (k_pm k))))"
proof -
  have parent: "with_error ParentNotFound (get_process parent_pid) k = (q, k1) \<Longrightarrow> k1 = k" for q k1
    by (auto simp: with_error_def dest: get_process_pm split: prod.splits)
  from assms show ?thesis unfolding create_process_from_elf_def
  proof (cases rule: bind_cases)
    case (ok p k1)
    show ?thesis
    proof (cases "pm_new_pid (k_pm k) + 1 < 2 ^ 64")
      case True
      let ?k = "k\<lparr>k_pm := (k_pm k)\<lparr>pm_new_pid := pm_new_pid (k_pm k) + 1\<rparr>\<rparr>"
      have "spawn_process stack_top entry me ops umm shared parent_pid elf_info name priority (pm_new_pid (k_pm k)) ?k = (r, k')"
        using ok(2) True unfolding parent [OF ok(1)] by (simp add: reading_def Let_def bind_def usize_add_def ret_def modify_def)
      from spawn_process_pm [OF this] show ?thesis by auto
    next
      case False
      with ok(2) show ?thesis unfolding parent [OF ok(1)] by (auto simp: reading_def Let_def bind_def usize_add_def panic_def)
    qed
  qed (auto dest: parent)
qed

section \<open>Every reachable manager\<close>

text \<open>
  The manager from boot on: processes are created and terminated and dead ones removed, with any
  arguments and any result. In between a system call changes the descriptors, the memory layout or
  another field of a process other than its identifier and its children, and everything else of the
  kernel changes in any way.
\<close>

inductive pm_reachable :: "kernel \<Rightarrow> bool" where
  boot: "k_pm k = init_arche process_manager_new \<Longrightarrow> pm_reachable k"
| create: "pm_reachable k \<Longrightarrow> create_process_from_elf stack_top entry me ops umm shared parent_pid elf_info name priority k = (r, k') \<Longrightarrow>
    pm_reachable k'"
| terminate: "pm_reachable k \<Longrightarrow> terminate_process me ops umm pid exit_code cascade k = (r, k') \<Longrightarrow> pm_reachable k'"
| cleanup: "pm_reachable k \<Longrightarrow> pm_reachable (cleanup_dead k)"
| amend: "pm_reachable k \<Longrightarrow> (\<And>p. pr_pid (g p) = pr_pid p \<and> pr_children (g p) = pr_children p) \<Longrightarrow>
    k_pm k' = (k_pm k)\<lparr>pm_processes := update_first (\<lambda>p. pr_pid p = pid) g (pm_processes (k_pm k))\<rparr> \<Longrightarrow> pm_reachable k'"
| other: "pm_reachable k \<Longrightarrow> k_pm k' = k_pm k \<Longrightarrow> pm_reachable k'"

definition pm_inv :: "process_manager \<Rightarrow> bool" where
  "pm_inv pm \<longleftrightarrow> pm_ok pm \<and> no_children pm"

lemma pm_invD: "pm_inv pm \<Longrightarrow> p \<in> set (pm_processes pm) \<Longrightarrow> pr_pid p < pm_new_pid pm \<and> pr_children p = []"
  by (simp add: pm_inv_def pm_ok_def no_children_def)

lemma pm_inv_boot: "pm_inv (init_arche process_manager_new)"
  by (simp add: pm_inv_def pm_ok_def no_children_def init_arche_def process_manager_new_def process_new_def ARCHE_PID_def)

lemma pm_inv_create:
  assumes "pm_inv (k_pm k)" "create_process_from_elf stack_top entry me ops umm shared parent_pid elf_info name priority k = (r, k')"
  shows "pm_inv (k_pm k')"
  using create_process_pm [OF assms(2)] assms(1)
  by (elim disjE conjE exE) (auto simp: pm_inv_def pm_ok_def no_children_def fresh_process_def)

lemma pm_inv_update:
  assumes "pm_inv pm" "\<And>p. pr_pid (f p) = pr_pid p" "\<And>p. pr_children (f p) = pr_children p"
  shows "pm_inv (pm\<lparr>pm_processes := update_first q f (pm_processes pm)\<rparr>)"
proof -
  let ?ps = "update_first q f (pm_processes pm)"
  have pids: "map pr_pid ?ps = map pr_pid (pm_processes pm)" using update_first_pids assms(2) by blast
  have "pr_pid p < pm_new_pid pm \<and> pr_children p = []" if "p \<in> set ?ps" for p
    using that update_first_set [of q f "pm_processes pm"] pm_invD [OF assms(1)] assms(2,3) by auto
  with pids assms(1) show ?thesis by (simp add: pm_inv_def pm_ok_def no_children_def)
qed

lemma change_process_cases:
  assumes "change_process pid f k = (r, k')"
  shows "k' = k \<and> r \<noteq> Ok () \<or> r = Ok () \<and> k' = k\<lparr>k_pm := (k_pm k)\<lparr>pm_processes := update_first (\<lambda>p. pr_pid p = pid) f (pm_processes (k_pm k))\<rparr>\<rparr>"
  using assms unfolding change_process_def
  by (cases rule: bind_cases) (auto simp: modify_def dest: get_process_pm)

lemma pm_inv_change:
  assumes "pm_inv (k_pm k)" "change_process pid f k = (r, k')" "\<And>p. pr_pid (f p) = pr_pid p" "\<And>p. pr_children (f p) = pr_children p"
  shows "pm_inv (k_pm k')"
  using change_process_cases [OF assms(2)] pm_inv_update [OF assms(1,3,4)] assms(1) by auto

lemma no_children_calls:
  "pr_children p = [] \<Longrightarrow> (if cascade then with_error SchedulerError (on_sched (kill_children me exit_code (pr_children p)))
     else reparent_children (pr_children p)) = ret ()"
  by (auto simp: with_error_def on_sched_def ret_def)

lemma pm_inv_terminate:
  assumes "pm_inv (k_pm k)" "terminate_process me ops umm pid exit_code cascade k = (r, k')"
  shows "pm_inv (k_pm k')"
proof (cases "pid = INVALID_PID")
  case True
  with assms show ?thesis by (auto simp: terminate_process_def fail_def)
next
  case False
  define die where "die = change_process pid (\<lambda>p. p\<lparr>pr_state := Terminated, pr_exit_code := Some exit_code\<rparr>)"
  define wipe where "wipe = change_process pid (\<lambda>p. p\<lparr>pr_memory_layout := (pr_memory_layout p)\<lparr>top_page_table_phys := 0, regions := []\<rparr>\<rparr>)"
  have die: "pm_inv (k_pm k0) \<Longrightarrow> die k0 = (q, k1) \<Longrightarrow> pm_inv (k_pm k1)" for k0 q k1
    unfolding die_def by (erule pm_inv_change, assumption) simp_all
  have wipe: "pm_inv (k_pm k0) \<Longrightarrow> wipe k0 = (q, k1) \<Longrightarrow> pm_inv (k_pm k1)" for k0 q k1
    unfolding wipe_def by (erule pm_inv_change, assumption) simp_all
  have mach: "on_machine m k0 = (q, k1) \<Longrightarrow> k_pm k1 = k_pm k0" for m k0 q k1
    by (auto simp: on_machine_def split: prod.splits)
  from assms(2) False have "bind (get_process pid) (\<lambda>process. bind die (\<lambda>_.
      bind (if top_page_table_phys (pr_memory_layout process) \<noteq> 0
            then bind (on_machine (free_address_space ops umm (pr_memory_layout process))) (\<lambda>_. wipe) else ret ()) (\<lambda>_.
      if cascade then with_error SchedulerError (on_sched (kill_children me exit_code (pr_children process)))
      else reparent_children (pr_children process)))) k = (r, k')"
    by (simp only: terminate_process_def die_def wipe_def if_False)
  then show ?thesis
  proof (cases rule: bind_cases)
    case (ok p k1)
    have p: "k1 = k" "pr_children p = []" using get_process_pm [OF ok(1)] get_process_Ok [OF ok(1)] pm_invD [OF assms(1)] by auto
    let ?free = "if top_page_table_phys (pr_memory_layout p) \<noteq> 0
      then bind (on_machine (free_address_space ops umm (pr_memory_layout p))) (\<lambda>_. wipe) else ret ()"
    have free: "pm_inv (k_pm k0) \<Longrightarrow> ?free k0 = (q, k2) \<Longrightarrow> pm_inv (k_pm k2)" for k0 q k2
      by (auto simp: ret_def split: if_splits elim!: bind_cases dest!: mach) (metis wipe)
    from ok(2) have "bind die (\<lambda>_. bind ?free (\<lambda>_. ret ())) k = (r, k')" unfolding no_children_calls [OF p(2)] p(1) .
    then show ?thesis
    proof (cases rule: bind_cases)
      case (ok u k2)
      from ok(2) free [OF die [OF assms(1) ok(1)]] show ?thesis by (cases rule: bind_cases) (auto simp: ret_def)
    qed (use die [OF assms(1)] in auto)
  qed (use assms(1) in \<open>auto dest: get_process_pm\<close>)
qed

lemma pm_reachable_inv: "pm_reachable k \<Longrightarrow> pm_inv (k_pm k)"
proof (induction rule: pm_reachable.induct)
  case (boot k)
  then show ?case using pm_inv_boot by simp
next
  case (cleanup k)
  then show ?case by (auto simp: pm_inv_def pm_ok_def no_children_def cleanup_dead_def distinct_map_filter)
next
  case (amend k g k' pid)
  then show ?case using pm_inv_update [of "k_pm k" g "\<lambda>p. pr_pid p = pid"] by simp
qed (auto intro: pm_inv_create pm_inv_terminate)

text \<open>C24: at any time no two processes have the same identifier and the identifier that is given next
  is larger than all of them. Creating a process appends exactly one process, ready to run, with that
  identifier, the given parent, name and priority, and leaves the others alone; when it fails with an
  error or stops the kernel, at most that process has been added.\<close>

theorem process_ids_unique:
  assumes "pm_reachable k" "create_process_from_elf stack_top entry me ops umm shared parent_pid elf_info name priority k = (r, k')"
  shows "distinct (map pr_pid (pm_processes (k_pm k'))) \<and> (\<forall>p \<in> set (pm_processes (k_pm k)). pr_pid p < pm_new_pid (k_pm k))
    \<and> (case r of
         Ok pid \<Rightarrow> (\<exists>p. pm_processes (k_pm k') = pm_processes (k_pm k) @ [p] \<and> fresh_process pid parent_pid priority name p
            \<and> pid = pm_new_pid (k_pm k))
       | _ \<Rightarrow> pm_processes (k_pm k') = pm_processes (k_pm k)
            \<or> (\<exists>p. pm_processes (k_pm k') = pm_processes (k_pm k) @ [p] \<and> fresh_process (pm_new_pid (k_pm k)) parent_pid priority name p))"
proof -
  have inv: "pm_inv (k_pm k)" "pm_inv (k_pm k')" using pm_reachable_inv [OF assms(1)] pm_inv_create [OF _ assms(2)] by blast+
  have "case r of
      Ok pid \<Rightarrow> (\<exists>p. pm_processes (k_pm k') = pm_processes (k_pm k) @ [p] \<and> fresh_process pid parent_pid priority name p \<and> pid = pm_new_pid (k_pm k))
    | _ \<Rightarrow> pm_processes (k_pm k') = pm_processes (k_pm k)
        \<or> (\<exists>p. pm_processes (k_pm k') = pm_processes (k_pm k) @ [p] \<and> fresh_process (pm_new_pid (k_pm k)) parent_pid priority name p)"
    using create_process_pm [OF assms(2)] by (cases r) auto
  with inv show ?thesis by (simp add: pm_inv_def pm_ok_def)
qed

definition no_mapper :: mapper_ops where
  "no_mapper = \<lparr>map_to = (\<lambda>_ _ _ _. fail FrameAllocationFailed), unmap = (\<lambda>_ _. fail ()), update_flags = (\<lambda>_ _ _. fail ())\<rparr>"

definition idle_kernel :: kernel where
  "idle_kernel = \<lparr>k_pm = init_arche process_manager_new, k_machine = \<lparr>mem = sample_tables, frames = sample_allocator\<rparr>,
     k_sched = sched_init, k_stacks = (\<lambda>_. 0), k_saved_rsp = (\<lambda>_. 0), k_core_pool = core_pool_new\<rparr>"

theorem process_ids_unique_witness:
  "\<exists>k'. create_process_from_elf (\<lambda>i. 0) 0 0 no_mapper sample_umm [] 7 \<lparr>entry_point = 0, min_vaddr = 0, max_vaddr = 0, elf_segments = []\<rparr> [] 3 idle_kernel
       = (Err ParentNotFound, k') \<and> distinct (map pr_pid (pm_processes (k_pm k')))"
proof -
  let ?info = "\<lparr>entry_point = 0, min_vaddr = 0, max_vaddr = 0, elf_segments = []\<rparr>"
  have "create_process_from_elf (\<lambda>i. 0) 0 0 no_mapper sample_umm [] 7 ?info [] 3 idle_kernel = (Err ParentNotFound, idle_kernel)"
    by (simp add: create_process_from_elf_def get_process_def INVALID_PID_def idle_kernel_def init_arche_def process_manager_new_def
        process_new_def ARCHE_PID_def reading_def bind_def with_error_def fail_def)
  moreover have "pm_reachable idle_kernel" by (rule boot) (simp add: idle_kernel_def)
  ultimately show ?thesis using process_ids_unique [of idle_kernel "\<lambda>i. 0" 0 0 no_mapper sample_umm "[]" 7 ?info "[]" 3] by blast
qed

text \<open>A new process is never entered into the list of children of its parent, so whether the
  termination of a process takes its children down or hands them over to the first process makes no
  difference: neither happens.\<close>

theorem cascade_has_no_effect:
  assumes "pm_reachable k"
  shows "terminate_process me ops umm pid exit_code True k = terminate_process me ops umm pid exit_code False k
    \<and> (\<forall>p \<in> set (pm_processes (k_pm k)). pr_children p = [])"
proof -
  have inv: "pm_inv (k_pm k)" by (rule pm_reachable_inv [OF assms])
  have none: "pr_children p = []" if "get_process pid k = (Ok p, k')" for p k'
    using get_process_Ok [OF that] pm_invD [OF inv] by blast
  have "terminate_process me ops umm pid exit_code True k = terminate_process me ops umm pid exit_code False k"
  proof (cases "pid = INVALID_PID")
    case False
    show ?thesis unfolding terminate_process_def if_not_P [OF False]
      by (rule bind_agree) (simp only: no_children_calls [OF none])
  qed (simp add: terminate_process_def)
  with pm_invD [OF inv] show ?thesis by blast
qed

theorem cascade_has_no_effect_witness:
  "terminate_process 0 no_mapper sample_umm 0 1 True idle_kernel = terminate_process 0 no_mapper sample_umm 0 1 False idle_kernel"
proof -
  have "pm_reachable idle_kernel" by (rule boot) (simp add: idle_kernel_def)
  from cascade_has_no_effect [OF this] show ?thesis by blast
qed

text \<open>A machine with more cores than the kernel supports is reported, and then stops the kernel.\<close>

lemma too_many_cores_panic: "init_with_core_count 5 [0, 1, 2, 3, 4] core_pool_new = Panic"
  by (simp add: init_with_core_count_def core_pool_new_def MAX_CORES_def upt_rec)

end
