(* ===== verification/Machine.thy ===== *)
theory Machine
  imports Mofu_Prelude
begin

text \<open>
  Systems whose clients start operations in any order: which states are initial, which operations
  can start in a state, and what an operation does. The locale is the contract of such a system:
  an invariant of the initial states under which every operation that can start returns and that
  it keeps.
\<close>

inductive reaches ::
    "('s \<Rightarrow> bool) \<Rightarrow> ('a \<Rightarrow> 's \<Rightarrow> bool) \<Rightarrow> ('a \<Rightarrow> 's \<Rightarrow> ('e, 's) outcome) \<Rightarrow> 's \<Rightarrow> bool"
  for is_init can perform where
  reaches_init: "is_init s \<Longrightarrow> reaches is_init can perform s"
| reaches_step: "reaches is_init can perform s \<Longrightarrow> can a s \<Longrightarrow> perform a s = Ok s' \<Longrightarrow>
    reaches is_init can perform s'"

primrec run_all :: "('a \<Rightarrow> 's \<Rightarrow> ('e, 's) outcome) \<Rightarrow> 'a list \<Rightarrow> 's \<Rightarrow> ('e, 's) outcome" where
  "run_all perform [] s = Ok s"
| "run_all perform (a # as) s = and_then (perform a s) (run_all perform as)"

primrec can_all :: "('a \<Rightarrow> 's \<Rightarrow> bool) \<Rightarrow> ('a \<Rightarrow> 's \<Rightarrow> ('e, 's) outcome) \<Rightarrow> 'a list \<Rightarrow> 's \<Rightarrow> bool" where
  "can_all can perform [] s \<longleftrightarrow> True"
| "can_all can perform (a # as) s \<longleftrightarrow>
     can a s \<and> (case perform a s of Ok s' \<Rightarrow> can_all can perform as s' | _ \<Rightarrow> False)"

lemma run_all_reaches:
  "reaches is_init can perform s \<Longrightarrow> can_all can perform as s \<Longrightarrow> run_all perform as s = Ok s' \<Longrightarrow>
   reaches is_init can perform s'"
  by (induction "as" arbitrary: s) (auto split: outcome.splits intro: reaches_step)

locale safe_machine =
  fixes is_init :: "'s \<Rightarrow> bool" and can :: "'a \<Rightarrow> 's \<Rightarrow> bool"
    and perform :: "'a \<Rightarrow> 's \<Rightarrow> ('e, 's) outcome" and inv :: "'s \<Rightarrow> bool"
  assumes inv_init: "is_init s \<Longrightarrow> inv s"
    and inv_step: "inv s \<Longrightarrow> can a s \<Longrightarrow> \<exists>s'. perform a s = Ok s' \<and> inv s'"
begin

lemma reached_inv: "reaches is_init can perform s \<Longrightarrow> inv s"
proof (induction rule: reaches.induct)
  case (reaches_init s)
  then show ?case by (rule inv_init)
next
  case (reaches_step s a s')
  with inv_step [of s a] show ?case by auto
qed

lemma never_stuck: "reaches is_init can perform s \<Longrightarrow> can a s \<Longrightarrow> \<exists>s'. perform a s = Ok s'"
  using reached_inv inv_step by blast

end

end
