(* ===== verification/Heap_Alloc.thy ===== *)
theory Heap_Alloc
  imports Machine User_Mem "HOL-Library.Multiset"
begin

text \<open>
  The kernel heap (\<open>memory/allocator.rs\<close>): lists of free blocks of ten sizes in front of a general
  allocator. A free block holds the pointer to the next one in its first word, so the lists live
  in the memory that clients write to when they hold a block; the memory is a function from
  addresses to words, and a null pointer is 0. The general allocator is \<open>linked_list_allocator::Heap\<close>
  of another crate: its operations are a parameter, and \<open>fallback_ok\<close> states what its documentation
  promises.
\<close>

definition HEAP_POINTER :: nat where "HEAP_POINTER = 0xFFFF808000000000"
definition HEAP_SIZE_BYTES :: nat where "HEAP_SIZE_BYTES = 32 * 1024 * 1024"

definition BLOCK_SIZES :: "nat list" where
  "BLOCK_SIZES = [8, 16, 32, 64, 128, 256, 512, 1024, 2048, 4096]"

record layout =
  l_size :: nat
  l_align :: nat

record 'h fallback_ops =
  fb_empty :: 'h
  fb_init :: "nat \<Rightarrow> nat \<Rightarrow> 'h \<Rightarrow> 'h"
  fb_allocate_first_fit :: "layout \<Rightarrow> 'h \<Rightarrow> nat option \<times> 'h"
  fb_deallocate :: "nat \<Rightarrow> layout \<Rightarrow> 'h \<Rightarrow> 'h"

record 'h block_allocator =
  ba_lists :: "nat option list"
  ba_fallback :: 'h

text \<open>The allocator and the words of the heap.\<close>

record 'h heap =
  hp_alloc :: "'h block_allocator"
  hp_mem :: "nat \<Rightarrow> nat"

definition block_allocator_new :: "'h fallback_ops \<Rightarrow> 'h block_allocator" where
  "block_allocator_new ops = \<lparr>ba_lists = replicate (length BLOCK_SIZES) None, ba_fallback = fb_empty ops\<rparr>"

definition init_fallback_allocator :: "'h fallback_ops \<Rightarrow> nat \<Rightarrow> nat \<Rightarrow> 'h block_allocator \<Rightarrow> 'h block_allocator" where
  "init_fallback_allocator ops heap_start heap_size a =
     a\<lparr>ba_fallback := fb_init ops heap_start heap_size (ba_fallback a)\<rparr>"

definition allocate_with_fallback_allocator ::
    "'h fallback_ops \<Rightarrow> layout \<Rightarrow> 'h block_allocator \<Rightarrow> nat \<times> 'h block_allocator" where
  "allocate_with_fallback_allocator ops l a =
     (case fb_allocate_first_fit ops l (ba_fallback a) of
        (Some ptr, h) \<Rightarrow> (ptr, a\<lparr>ba_fallback := h\<rparr>)
      | (None, h) \<Rightarrow> (0, a\<lparr>ba_fallback := h\<rparr>))"

primrec first_at_least :: "nat \<Rightarrow> nat list \<Rightarrow> nat option" where
  "first_at_least n [] = None"
| "first_at_least n (s # sizes) = (if n \<le> s then Some 0 else map_option Suc (first_at_least n sizes))"

definition get_block_index :: "layout \<Rightarrow> nat option" where
  "get_block_index l = first_at_least (max (l_size l) (l_align l)) BLOCK_SIZES"

text \<open>The \<open>next\<close> field of a node as the word it is stored as.\<close>

definition node_word :: "nat option \<Rightarrow> nat" where
  "node_word next = (case next of None \<Rightarrow> 0 | Some p \<Rightarrow> p)"

definition word_node :: "nat \<Rightarrow> nat option" where
  "word_node w = (if w = 0 then None else Some w)"

definition heap_alloc :: "'h fallback_ops \<Rightarrow> layout \<Rightarrow> 'h heap \<Rightarrow> nat \<times> 'h heap" where
  "heap_alloc ops l hp =
     (case get_block_index l of
        Some index \<Rightarrow>
          (case ba_lists (hp_alloc hp) ! index of
             Some node \<Rightarrow>
               (node, hp\<lparr>hp_alloc := (hp_alloc hp)\<lparr>ba_lists :=
                    (ba_lists (hp_alloc hp))[index := word_node (hp_mem hp node)]\<rparr>,
                  hp_mem := (hp_mem hp)(node := node_word None)\<rparr>)
           | None \<Rightarrow>
               (case allocate_with_fallback_allocator ops
                  \<lparr>l_size = BLOCK_SIZES ! index, l_align = BLOCK_SIZES ! index\<rparr> (hp_alloc hp) of
                (ptr, a) \<Rightarrow> (ptr, hp\<lparr>hp_alloc := a\<rparr>)))
      | None \<Rightarrow>
          (case allocate_with_fallback_allocator ops l (hp_alloc hp) of
             (ptr, a) \<Rightarrow> (ptr, hp\<lparr>hp_alloc := a\<rparr>)))"

definition NODE_SIZE :: nat where "NODE_SIZE = 8"

definition heap_dealloc :: "'h fallback_ops \<Rightarrow> nat \<Rightarrow> layout \<Rightarrow> 'h heap \<Rightarrow> (unit, 'h heap) outcome" where
  "heap_dealloc ops ptr l hp =
     (case get_block_index l of
        Some index \<Rightarrow>
          if \<not> NODE_SIZE \<le> BLOCK_SIZES ! index then Panic
          else Ok (hp\<lparr>hp_alloc := (hp_alloc hp)\<lparr>ba_lists := (ba_lists (hp_alloc hp))[index := Some ptr]\<rparr>,
                 hp_mem := (hp_mem hp)(ptr := node_word (ba_lists (hp_alloc hp) ! index))\<rparr>)
      | None \<Rightarrow>
          if ptr = 0 then Panic
          else Ok (hp\<lparr>hp_alloc := (hp_alloc hp)\<lparr>ba_fallback :=
                 fb_deallocate ops ptr l (ba_fallback (hp_alloc hp))\<rparr>\<rparr>))"

text \<open>Mapping the pages of the heap; the frames come from the frame allocator of the kernel.\<close>

primrec map_heap_pages :: "mapper_ops \<Rightarrow> nat \<Rightarrow> nat list \<Rightarrow> (machine, map_to_error, unit) call" where
  "map_heap_pages ops table [] = ret ()"
| "map_heap_pages ops table (page # pages) =
     bind (lift_frames allocate_frame) (\<lambda>frame. case frame of
         None \<Rightarrow> fail FrameAllocationFailed
       | Some f \<Rightarrow>
           bind (map_to ops table page f (PRESENT OR WRITABLE)) (\<lambda>_. map_heap_pages ops table pages))"

definition heap_pages :: "nat list" where
  "heap_pages = pages_inclusive (containing_address HEAP_POINTER)
     (containing_address (HEAP_POINTER + HEAP_SIZE_BYTES - 1))"

definition init_heap ::
    "mapper_ops \<Rightarrow> 'h fallback_ops \<Rightarrow> nat \<Rightarrow> 'h block_allocator \<Rightarrow> (machine, map_to_error, 'h block_allocator) call" where
  "init_heap ops fb table a =
     bind (map_heap_pages ops table heap_pages) (\<lambda>_.
       ret (init_fallback_allocator fb HEAP_POINTER HEAP_SIZE_BYTES a))"

section \<open>Size classes\<close>

lemma first_at_least_Some:
  "first_at_least n sizes = Some i \<Longrightarrow> i < length sizes \<and> n \<le> sizes ! i"
  by (induction sizes arbitrary: i) (auto split: if_splits)

lemma get_block_index_Some:
  assumes "get_block_index l = Some i"
  shows "i < 10" "l_size l \<le> BLOCK_SIZES ! i" "l_align l \<le> BLOCK_SIZES ! i"
  using first_at_least_Some [OF assms [unfolded get_block_index_def]] by (auto simp: BLOCK_SIZES_def)

lemma block_size_pow: "i < 10 \<Longrightarrow> BLOCK_SIZES ! i = 2 ^ (i + 3)"
  by (auto simp: BLOCK_SIZES_def less_Suc_eq numeral_eq_Suc)

lemma block_size_pos: "i < 10 \<Longrightarrow> 8 \<le> BLOCK_SIZES ! i"
  by (simp add: block_size_pow power_add)

definition layout_ok :: "layout \<Rightarrow> bool" where
  "layout_ok l \<longleftrightarrow> 0 < l_size l \<and> is_power_of_two (l_align l)"

text \<open>The bytes a client really gets: a whole block of a size class, or what it asked for.\<close>

definition real_size :: "layout \<Rightarrow> nat" where
  "real_size l = (case get_block_index l of Some i \<Rightarrow> BLOCK_SIZES ! i | None \<Rightarrow> l_size l)"

definition real_align :: "layout \<Rightarrow> nat" where
  "real_align l = (case get_block_index l of Some i \<Rightarrow> BLOCK_SIZES ! i | None \<Rightarrow> l_align l)"

lemma real_size_ge: "l_size l \<le> real_size l"
  using get_block_index_Some(2) by (auto simp: real_size_def split: option.splits)

lemma power_of_two_dvd:
  assumes "is_power_of_two a" "a \<le> 2 ^ n"
  shows "a dvd 2 ^ n"
proof -
  obtain k where "a = 2 ^ k" using is_power_of_two_pow [OF assms(1)] by blast
  then show ?thesis using assms(2) by (simp add: le_imp_power_dvd)
qed

lemma align_dvd_real: "layout_ok l \<Longrightarrow> l_align l dvd real_align l"
  using get_block_index_Some [of l] power_of_two_dvd [of "l_align l"]
  by (auto simp: real_align_def layout_ok_def block_size_pow split: option.splits)

section \<open>What the general allocator promises\<close>

text \<open>
  \<open>blocks h\<close> are the blocks (start and size) that an allocator in state \<open>h\<close> has given out, \<open>good\<close> its
  own well-formedness. A new block is aligned, inside the heap and apart from all others; a failed
  request and the return of a block change nothing else.
\<close>

definition apart :: "nat \<times> nat \<Rightarrow> nat \<times> nat \<Rightarrow> bool" where
  "apart b c \<longleftrightarrow> fst b + snd b \<le> fst c \<or> fst c + snd c \<le> fst b"

definition fallback_ok ::
    "'h fallback_ops \<Rightarrow> ('h \<Rightarrow> (nat \<times> nat) set) \<Rightarrow> ('h \<Rightarrow> bool) \<Rightarrow> nat \<Rightarrow> nat \<Rightarrow> bool" where
  "fallback_ok ops blocks good start len \<longleftrightarrow>
     (let h = fb_init ops start len (fb_empty ops) in good h \<and> blocks h = {}) \<and>
     (\<forall>h l ptr h'. good h \<longrightarrow> layout_ok l \<longrightarrow> fb_allocate_first_fit ops l h = (Some ptr, h') \<longrightarrow>
        good h' \<and> start \<le> ptr \<and> ptr + l_size l \<le> start + len \<and> l_align l dvd ptr
        \<and> (\<forall>b \<in> blocks h. apart (ptr, l_size l) b) \<and> blocks h' = insert (ptr, l_size l) (blocks h)) \<and>
     (\<forall>h l h'. good h \<longrightarrow> layout_ok l \<longrightarrow> fb_allocate_first_fit ops l h = (None, h') \<longrightarrow>
        good h' \<and> blocks h' = blocks h) \<and>
     (\<forall>h l ptr. good h \<longrightarrow> layout_ok l \<longrightarrow> (ptr, l_size l) \<in> blocks h \<longrightarrow>
        good (fb_deallocate ops ptr l h) \<and> blocks (fb_deallocate ops ptr l h) = blocks h - {(ptr, l_size l)})"

section \<open>The heap and its clients\<close>

text \<open>
  Clients hold blocks with the layout they asked for, give them back with the same layout, and
  write to addresses inside their blocks.
\<close>

record 'h heap_system =
  hs_ops :: "'h fallback_ops"
  hs_heap :: "'h heap"
  hs_held :: "(nat \<times> layout) list"

datatype heap_action = HeapAlloc layout | HeapFree nat | HeapWrite nat nat

definition heap_booted ::
    "('h \<Rightarrow> (nat \<times> nat) set) \<Rightarrow> ('h \<Rightarrow> bool) \<Rightarrow> nat \<Rightarrow> nat \<Rightarrow> 'h heap_system \<Rightarrow> bool" where
  "heap_booted blocks good start len \<sigma> \<longleftrightarrow> 0 < start \<and> fallback_ok (hs_ops \<sigma>) blocks good start len
     \<and> hp_alloc (hs_heap \<sigma>) = init_fallback_allocator (hs_ops \<sigma>) start len (block_allocator_new (hs_ops \<sigma>))
     \<and> hs_held \<sigma> = []"

fun heap_can :: "heap_action \<Rightarrow> 'h heap_system \<Rightarrow> bool" where
  "heap_can (HeapAlloc l) \<sigma> \<longleftrightarrow> layout_ok l"
| "heap_can (HeapFree k) \<sigma> \<longleftrightarrow> k < length (hs_held \<sigma>)"
| "heap_can (HeapWrite a v) \<sigma> \<longleftrightarrow>
     list_ex (\<lambda>(ptr, l). ptr \<le> a \<and> a < ptr + l_size l) (hs_held \<sigma>)"

fun heap_act :: "heap_action \<Rightarrow> 'h heap_system \<Rightarrow> (unit, 'h heap_system) outcome" where
  "heap_act (HeapAlloc l) \<sigma> =
     (case heap_alloc (hs_ops \<sigma>) l (hs_heap \<sigma>) of
        (ptr, hp) \<Rightarrow> Ok (\<sigma>\<lparr>hs_heap := hp, hs_held := (if ptr = 0 then hs_held \<sigma> else (ptr, l) # hs_held \<sigma>)\<rparr>))"
| "heap_act (HeapFree k) \<sigma> =
     (case hs_held \<sigma> ! k of (ptr, l) \<Rightarrow>
        and_then (heap_dealloc (hs_ops \<sigma>) ptr l (hs_heap \<sigma>)) (\<lambda>hp.
          Ok (\<sigma>\<lparr>hs_heap := hp, hs_held := take k (hs_held \<sigma>) @ drop (Suc k) (hs_held \<sigma>)\<rparr>)))"
| "heap_act (HeapWrite a v) \<sigma> =
     Ok (\<sigma>\<lparr>hs_heap := (hs_heap \<sigma>)\<lparr>hp_mem := (hp_mem (hs_heap \<sigma>))(a := v)\<rparr>\<rparr>)"

section \<open>Free lists\<close>

primrec free_path :: "(nat \<Rightarrow> nat) \<Rightarrow> nat option \<Rightarrow> nat list \<Rightarrow> bool" where
  "free_path m q [] \<longleftrightarrow> q = None"
| "free_path m q (x # xs) \<longleftrightarrow> q = Some x \<and> x \<noteq> 0 \<and> free_path m (word_node (m x)) xs"

lemma free_path_upd: "a \<notin> set xs \<Longrightarrow> free_path (m(a := v)) q xs = free_path m q xs"
  by (induction xs arbitrary: q) auto

lemma free_path_head: "free_path m q xs \<Longrightarrow> q \<noteq> Some 0"
  by (cases xs) auto

lemma node_word_inverse [simp]: "q \<noteq> Some 0 \<Longrightarrow> word_node (node_word q) = q"
  by (auto simp: word_node_def node_word_def split: option.splits)

text \<open>All blocks in use: those of the clients and those of the free lists.\<close>

definition free_blocks :: "(nat \<Rightarrow> nat list) \<Rightarrow> (nat \<times> nat) multiset" where
  "free_blocks F = (\<Sum>i < 10. image_mset (\<lambda>x. (x, BLOCK_SIZES ! i)) (mset (F i)))"

definition held_blocks :: "(nat \<times> layout) list \<Rightarrow> (nat \<times> nat) multiset" where
  "held_blocks held = image_mset (\<lambda>(ptr, l). (ptr, real_size l)) (mset held)"

lemma free_blocks_upd:
  assumes "i < 10"
  shows "free_blocks (F(i := x # xs)) = add_mset (x, BLOCK_SIZES ! i) (free_blocks (F(i := xs)))"
proof -
  let ?f = "\<lambda>F i. image_mset (\<lambda>x. (x, BLOCK_SIZES ! i)) (mset (F i))"
  have split: "(\<Sum>j < 10. ?f G j) = ?f G i + (\<Sum>j \<in> {..<10} - {i}. ?f G j)" for G
    using assms by (simp add: sum.remove)
  have "(\<Sum>j \<in> {..<10} - {i}. ?f (F(i := x # xs)) j) = (\<Sum>j \<in> {..<10} - {i}. ?f (F(i := xs)) j)"
    by (rule sum.cong) auto
  then show ?thesis unfolding free_blocks_def split by simp
qed

lemma in_free_blocks: "i < 10 \<Longrightarrow> x \<in> set (F i) \<Longrightarrow> (x, BLOCK_SIZES ! i) \<in># free_blocks F"
proof -
  assume i: "i < 10" "x \<in> set (F i)"
  then obtain ys zs where "F i = ys @ x # zs" by (auto dest: split_list)
  have "image_mset (\<lambda>x. (x, BLOCK_SIZES ! i)) (mset (F i)) \<subseteq># free_blocks F"
    unfolding free_blocks_def using i(1) by (simp add: sum.remove [of _ i])
  moreover have "(x, BLOCK_SIZES ! i) \<in># image_mset (\<lambda>x. (x, BLOCK_SIZES ! i)) (mset (F i))" using i(2) by auto
  ultimately show ?thesis by (rule mset_subset_eqD)
qed

section \<open>The invariant\<close>

definition blocks_apart :: "nat \<Rightarrow> nat \<Rightarrow> (nat \<times> nat) set \<Rightarrow> bool" where
  "blocks_apart start len S \<longleftrightarrow> finite S \<and>
     (\<forall>b \<in> S. 0 < snd b \<and> start \<le> fst b \<and> fst b + snd b \<le> start + len) \<and>
     (\<forall>b \<in> S. \<forall>c \<in> S. b \<noteq> c \<longrightarrow> apart b c)"

text \<open>Every block of the general allocator is held by one client or in one free list.\<close>

definition heap_rel :: "(nat \<times> nat) set \<Rightarrow> (nat \<Rightarrow> nat) \<Rightarrow> nat option list \<Rightarrow> (nat \<times> layout) list \<Rightarrow> (nat \<Rightarrow> nat list) \<Rightarrow> bool" where
  "heap_rel S m heads held F \<longleftrightarrow> length heads = 10 \<and> (\<forall>i < 10. free_path m (heads ! i) (F i))
     \<and> held_blocks held + free_blocks F = mset_set S
     \<and> (\<forall>(ptr, l) \<in> set held. layout_ok l \<and> real_align l dvd ptr)
     \<and> (\<forall>i < 10. \<forall>x \<in> set (F i). BLOCK_SIZES ! i dvd x)"

definition heap_inv ::
    "('h \<Rightarrow> (nat \<times> nat) set) \<Rightarrow> ('h \<Rightarrow> bool) \<Rightarrow> nat \<Rightarrow> nat \<Rightarrow> 'h heap_system \<Rightarrow> bool" where
  "heap_inv blocks good start len \<sigma> \<longleftrightarrow> 0 < start \<and> fallback_ok (hs_ops \<sigma>) blocks good start len
     \<and> (let h = ba_fallback (hp_alloc (hs_heap \<sigma>)) in good h \<and> blocks_apart start len (blocks h)
        \<and> (\<exists>F. heap_rel (blocks h) (hp_mem (hs_heap \<sigma>)) (ba_lists (hp_alloc (hs_heap \<sigma>))) (hs_held \<sigma>) F))"

lemma mset_set_once: "B = mset_set S \<Longrightarrow> B = add_mset b (add_mset c C) \<Longrightarrow> b \<noteq> c"
proof
  assume "B = mset_set S" "B = add_mset b (add_mset c C)" "b = c"
  then have "mset_set S = add_mset b (add_mset b C)" by simp
  then have "count (mset_set S) b = Suc (Suc (count C b))" by (metis count_add_mset)
  moreover have "count (mset_set S) b \<le> 1" by (cases "finite S"; cases "b \<in> S") simp_all
  ultimately show False by simp
qed

lemma blocks_same_address:
  assumes "blocks_apart start len S" "b \<in> S" "c \<in> S" "fst c \<le> fst b" "fst b < fst c + snd c"
  shows "b = c"
proof (rule ccontr)
  assume "b \<noteq> c"
  with assms(1-3) have "0 < snd b" "apart b c" unfolding blocks_apart_def by blast+
  with assms(4,5) show False by (auto simp: apart_def)
qed

lemma held_block_in: "(ptr, l) \<in> set held \<Longrightarrow> (ptr, real_size l) \<in># held_blocks held"
  by (auto simp: held_blocks_def intro!: image_eqI)

lemma two_owners:
  assumes "mset_set S = A + B" "b \<in># A" "c \<in># B" "finite S"
  shows "b \<in> S" "c \<in> S" "b \<noteq> c"
proof -
  obtain A' where A: "A = add_mset b A'" using assms(2) by (metis multi_member_split)
  obtain B' where B: "B = add_mset c B'" using assms(3) by (metis multi_member_split)
  have eq: "mset_set S = add_mset b (add_mset c (A' + B'))" using assms(1) A B by simp
  then show "b \<in> S" "c \<in> S" using assms(4) by (metis elem_mset_set insert_iff set_mset_add_mset_insert)+
  show "b \<noteq> c" using mset_set_once [OF refl eq] .
qed

lemma held_not_free:
  assumes ap: "blocks_apart start len S" and rel: "heap_rel S m heads held F"
    and h: "(ptr, l) \<in> set held" "ptr \<le> a" "a < ptr + real_size l" and i: "i < 10"
  shows "a \<notin> set (F i)"
proof
  assume "a \<in> set (F i)"
  from two_owners [of S "held_blocks held" "free_blocks F", OF _ held_block_in [OF h(1)] in_free_blocks [of i a F, OF i this]] rel ap
  have o: "(ptr, real_size l) \<in> S" "(a, BLOCK_SIZES ! i) \<in> S" "(ptr, real_size l) \<noteq> (a, BLOCK_SIZES ! i)"
    by (auto simp: heap_rel_def blocks_apart_def)
  with blocks_same_address [OF ap o(2,1)] h(2,3) show False by simp
qed

lemma free_blocks_split:
  assumes "i < 10"
  shows "free_blocks F = image_mset (\<lambda>x. (x, BLOCK_SIZES ! i)) (mset (F i)) + free_blocks (F(i := []))"
  using assms
proof (induction "F i" arbitrary: F)
  case Nil
  then have "F(i := []) = F" by auto
  with Nil show ?case by simp
next
  case (Cons x xs)
  have "free_blocks F = free_blocks (F(i := x # xs))" using Cons.hyps(2) by (metis fun_upd_triv)
  also have "\<dots> = add_mset (x, BLOCK_SIZES ! i) (free_blocks (F(i := xs)))" by (rule free_blocks_upd [OF Cons.prems])
  also have "free_blocks (F(i := xs)) = image_mset (\<lambda>x. (x, BLOCK_SIZES ! i)) (mset xs) + free_blocks (F(i := []))"
    using Cons.hyps(1) [of "F(i := xs)"] Cons.prems by simp
  finally show ?case using Cons.hyps(2) [symmetric] by simp
qed

lemma free_unique:
  assumes ap: "blocks_apart start len S" and rel: "heap_rel S m heads held F" and i: "i < 10" "F i = x # xs"
  shows "x \<notin> set xs" and "j < 10 \<Longrightarrow> j \<noteq> i \<Longrightarrow> x \<notin> set (F j)"
proof -
  let ?f = "\<lambda>i. image_mset (\<lambda>x. (x, BLOCK_SIZES ! i))"
  have fin: "finite S" using ap by (simp add: blocks_apart_def)
  have eq: "mset_set S = {#(x, BLOCK_SIZES ! i)#} + (?f i (mset xs) + free_blocks (F(i := [])) + held_blocks held)"
    using rel free_blocks_split [OF i(1), of F] i(2) by (simp add: heap_rel_def union_ac)
  note owners = two_owners [OF eq _ _ fin, of "(x, BLOCK_SIZES ! i)"]
  show "x \<notin> set xs"
  proof
    assume "x \<in> set xs"
    then have "(x, BLOCK_SIZES ! i) \<in># ?f i (mset xs) + free_blocks (F(i := [])) + held_blocks held" by auto
    from owners(3) [OF _ this] show False by simp
  qed
  show "x \<notin> set (F j)" if j: "j < 10" "j \<noteq> i"
  proof
    assume "x \<in> set (F j)"
    then have "(x, BLOCK_SIZES ! j) \<in># free_blocks (F(i := []))"
      using in_free_blocks [of j x "F(i := [])"] j by simp
    then have "(x, BLOCK_SIZES ! j) \<in># ?f i (mset xs) + free_blocks (F(i := [])) + held_blocks held" by simp
    from owners [OF _ this] have "(x, BLOCK_SIZES ! i) \<in> S" "(x, BLOCK_SIZES ! j) \<in> S" "(x, BLOCK_SIZES ! i) \<noteq> (x, BLOCK_SIZES ! j)"
      by auto
    with blocks_same_address [OF ap, of "(x, BLOCK_SIZES ! i)" "(x, BLOCK_SIZES ! j)"] block_size_pos [OF j(1)] show False by simp
  qed
qed

section \<open>Every operation keeps it\<close>

lemma fallbackD:
  assumes "fallback_ok ops blocks good start len" "good h" "layout_ok l"
  shows "fb_allocate_first_fit ops l h = (Some ptr, h') \<Longrightarrow> good h' \<and> start \<le> ptr \<and> ptr + l_size l \<le> start + len
      \<and> l_align l dvd ptr \<and> (\<forall>b \<in> blocks h. apart (ptr, l_size l) b) \<and> blocks h' = insert (ptr, l_size l) (blocks h)"
    and "fb_allocate_first_fit ops l h = (None, h') \<Longrightarrow> good h' \<and> blocks h' = blocks h"
    and "(ptr, l_size l) \<in> blocks h \<Longrightarrow> good (fb_deallocate ops ptr l h)
      \<and> blocks (fb_deallocate ops ptr l h) = blocks h - {(ptr, l_size l)}"
proof -
  note d = assms(1) [unfolded fallback_ok_def]
  note d2 = d [THEN conjunct2, THEN conjunct1, rule_format, OF assms(2,3)]
  note d3 = d [THEN conjunct2, THEN conjunct2, THEN conjunct1, rule_format, OF assms(2,3)]
  note d4 = d [THEN conjunct2, THEN conjunct2, THEN conjunct2, rule_format, OF assms(2,3)]
  show "fb_allocate_first_fit ops l h = (Some ptr, h') \<Longrightarrow> good h' \<and> start \<le> ptr \<and> ptr + l_size l \<le> start + len
      \<and> l_align l dvd ptr \<and> (\<forall>b \<in> blocks h. apart (ptr, l_size l) b) \<and> blocks h' = insert (ptr, l_size l) (blocks h)"
    by (rule d2)
  show "fb_allocate_first_fit ops l h = (None, h') \<Longrightarrow> good h' \<and> blocks h' = blocks h" by (rule d3)
  show "(ptr, l_size l) \<in> blocks h \<Longrightarrow> good (fb_deallocate ops ptr l h)
      \<and> blocks (fb_deallocate ops ptr l h) = blocks h - {(ptr, l_size l)}" by (rule d4)
qed

lemma blocks_apart_insert:
  assumes ap: "blocks_apart start len S" and new: "\<forall>b \<in> S. apart (ptr, n) b" "start \<le> ptr" "ptr + n \<le> start + len" "0 < n"
  shows "blocks_apart start len (insert (ptr, n) S)" "(ptr, n) \<notin> S"
proof -
  show "(ptr, n) \<notin> S" using new(1,4) by (auto simp: apart_def)
  have "apart b (ptr, n)" if "b \<in> S" for b using new(1) that by (auto simp: apart_def)
  with ap new show "blocks_apart start len (insert (ptr, n) S)"
    unfolding blocks_apart_def by auto
qed

lemma heap_rel_take:
  assumes ap: "blocks_apart start len S" and rel: "heap_rel S m heads held F"
    and l: "get_block_index l = Some i" "layout_ok l" "heads ! i = Some x"
  obtains F' where "heap_rel S (m(x := node_word None)) (heads[i := word_node (m x)]) ((x, l) # held) F'" "x \<noteq> 0"
proof -
  have i: "i < 10" by (rule get_block_index_Some(1) [OF l(1)])
  have "free_path m (heads ! i) (F i)" using rel i by (simp add: heap_rel_def)
  with l(3) obtain xs where F: "F i = x # xs" "x \<noteq> 0" "free_path m (word_node (m x)) xs" by (cases "F i") auto
  note uniq = free_unique [OF ap rel i F(1)]
  let ?F = "F(i := xs)"
  have "free_path (m(x := node_word None)) (heads[i := word_node (m x)] ! j) (?F j)" if "j < 10" for j
    using rel F(3) uniq that by (auto simp: heap_rel_def nth_list_update free_path_upd)
  moreover have "free_blocks F = add_mset (x, BLOCK_SIZES ! i) (free_blocks ?F)"
    using free_blocks_upd [OF i, of F x xs] F(1) by (metis fun_upd_triv)
  moreover have "real_align l dvd x" using rel i F(1) l(1) by (auto simp: heap_rel_def real_align_def)
  moreover have "\<forall>j < 10. \<forall>y \<in> set (?F j). BLOCK_SIZES ! j dvd y" using rel F(1) by (auto simp: heap_rel_def)
  ultimately have "heap_rel S (m(x := node_word None)) (heads[i := word_node (m x)]) ((x, l) # held) ?F"
    using rel l by (auto simp: heap_rel_def held_blocks_def real_size_def)
  with that F(2) show ?thesis by blast
qed

lemma heap_rel_new:
  assumes "heap_rel S m heads held F" "finite S" "(ptr, real_size l) \<notin> S" "layout_ok l" "real_align l dvd ptr"
  shows "heap_rel (insert (ptr, real_size l) S) m heads ((ptr, l) # held) F"
  using assms by (auto simp: heap_rel_def held_blocks_def)

lemma held_split:
  assumes "k < length held" "held ! k = (ptr, l)"
  shows "held_blocks held = add_mset (ptr, real_size l) (held_blocks (take k held @ drop (Suc k) held))"
    and "set (take k held @ drop (Suc k) held) \<subseteq> set held" "(ptr, l) \<in> set held"
proof -
  have "held = take k held @ (ptr, l) # drop (Suc k) held" using id_take_nth_drop [OF assms(1)] assms(2) by simp
  then have "mset held = add_mset (ptr, l) (mset (take k held @ drop (Suc k) held))" by (metis mset.simps(2) mset_append union_mset_add_mset_right)
  then show "held_blocks held = add_mset (ptr, real_size l) (held_blocks (take k held @ drop (Suc k) held))"
    by (simp add: held_blocks_def)
  show "set (take k held @ drop (Suc k) held) \<subseteq> set held" by (auto dest: in_set_takeD in_set_dropD)
  show "(ptr, l) \<in> set held" using assms nth_mem by metis
qed

lemma heap_rel_give_back:
  assumes ap: "blocks_apart start len S" and start: "0 < start" and rel: "heap_rel S m heads held F"
    and k: "k < length held" "held ! k = (ptr, l)" and l: "get_block_index l = Some i"
  obtains F' where "heap_rel S (m(ptr := node_word (heads ! i))) (heads[i := Some ptr]) (take k held @ drop (Suc k) held) F'"
proof -
  have i: "i < 10" by (rule get_block_index_Some(1) [OF l])
  note sp = held_split [OF k]
  have sz: "real_size l = BLOCK_SIZES ! i" using l by (simp add: real_size_def)
  have nf: "ptr \<notin> set (F j)" if "j < 10" for j
    by (rule held_not_free [OF ap rel sp(3) _ _ that]) (use block_size_pos [OF i] sz in auto)
  have "(ptr, real_size l) \<in> S"
    using rel held_block_in [OF sp(3)] ap by (metis blocks_apart_def elem_mset_set heap_rel_def union_iff)
  with ap start have p0: "ptr \<noteq> 0" by (auto simp: blocks_apart_def)
  let ?F = "F(i := ptr # F i)"
  have "heads ! i \<noteq> Some 0" using rel i free_path_head by (auto simp: heap_rel_def)
  then have "free_path (m(ptr := node_word (heads ! i))) (heads[i := Some ptr] ! j) (?F j)" if "j < 10" for j
    using rel nf that i p0 by (auto simp: heap_rel_def nth_list_update free_path_upd)
  moreover have "free_blocks ?F = add_mset (ptr, BLOCK_SIZES ! i) (free_blocks F)"
    using free_blocks_upd [OF i, of F ptr "F i"] by simp
  moreover have "BLOCK_SIZES ! i dvd ptr" using rel sp(3) l by (auto simp: heap_rel_def real_align_def)
  ultimately have "heap_rel S (m(ptr := node_word (heads ! i))) (heads[i := Some ptr]) (take k held @ drop (Suc k) held) ?F"
    using rel sp sz by (auto simp: heap_rel_def)
  then show ?thesis using that by blast
qed

lemma heap_invD:
  assumes "heap_inv blocks good start len \<sigma>"
  obtains F where "0 < start" "fallback_ok (hs_ops \<sigma>) blocks good start len"
    "good (ba_fallback (hp_alloc (hs_heap \<sigma>)))" "blocks_apart start len (blocks (ba_fallback (hp_alloc (hs_heap \<sigma>))))"
    "heap_rel (blocks (ba_fallback (hp_alloc (hs_heap \<sigma>)))) (hp_mem (hs_heap \<sigma>)) (ba_lists (hp_alloc (hs_heap \<sigma>))) (hs_held \<sigma>) F"
  using assms by (auto simp: heap_inv_def Let_def)

lemma heap_inv_init: "heap_booted blocks good start len \<sigma> \<Longrightarrow> heap_inv blocks good start len \<sigma>"
proof -
  assume b: "heap_booted blocks good start len \<sigma>"
  then have f: "good (ba_fallback (hp_alloc (hs_heap \<sigma>)))" "blocks (ba_fallback (hp_alloc (hs_heap \<sigma>))) = {}"
    by (auto simp: heap_booted_def fallback_ok_def init_fallback_allocator_def block_allocator_new_def Let_def)
  have "heap_rel {} (hp_mem (hs_heap \<sigma>)) (ba_lists (hp_alloc (hs_heap \<sigma>))) (hs_held \<sigma>) (\<lambda>i. [])"
    using b by (auto simp: heap_booted_def heap_rel_def init_fallback_allocator_def block_allocator_new_def
        held_blocks_def free_blocks_def BLOCK_SIZES_def nth_Cons split: nat.splits)
  with b f show ?thesis by (auto simp: heap_inv_def heap_booted_def blocks_apart_def Let_def)
qed

lemma fallback_alloc_inv:
  assumes inv: "heap_inv blocks good start len \<sigma>" and l: "layout_ok l"
    and req: "layout_ok r" "l_size r = real_size l" "l_align r = real_align l"
    and run: "allocate_with_fallback_allocator (hs_ops \<sigma>) r (hp_alloc (hs_heap \<sigma>)) = (ptr, a)"
  shows "heap_inv blocks good start len (\<sigma>\<lparr>hs_heap := (hs_heap \<sigma>)\<lparr>hp_alloc := a\<rparr>,
    hs_held := (if ptr = 0 then hs_held \<sigma> else (ptr, l) # hs_held \<sigma>)\<rparr>)"
proof -
  let ?h = "ba_fallback (hp_alloc (hs_heap \<sigma>))"
  obtain F where i: "0 < start" "fallback_ok (hs_ops \<sigma>) blocks good start len" "good ?h" "blocks_apart start len (blocks ?h)"
    "heap_rel (blocks ?h) (hp_mem (hs_heap \<sigma>)) (ba_lists (hp_alloc (hs_heap \<sigma>))) (hs_held \<sigma>) F" by (rule heap_invD [OF inv])
  note fb = fallbackD [OF i(2,3) req(1)]
  obtain q h' where q: "fb_allocate_first_fit (hs_ops \<sigma>) r ?h = (q, h')" by fastforce
  show ?thesis
  proof (cases q)
    case None
    then have "ptr = 0" "a = (hp_alloc (hs_heap \<sigma>))\<lparr>ba_fallback := h'\<rparr>"
      using run q by (auto simp: allocate_with_fallback_allocator_def)
    with fb(2) q None i show ?thesis by (auto simp: heap_inv_def Let_def)
  next
    case (Some p)
    then have p: "ptr = p" "a = (hp_alloc (hs_heap \<sigma>))\<lparr>ba_fallback := h'\<rparr>"
      using run q by (auto simp: allocate_with_fallback_allocator_def)
    from fb(1) [OF q [unfolded Some]] have n: "good h'" "start \<le> p" "p + real_size l \<le> start + len" "real_align l dvd p"
      "\<forall>b \<in> blocks ?h. apart (p, real_size l) b" "blocks h' = insert (p, real_size l) (blocks ?h)"
      by (auto simp: req)
    have "0 < real_size l" using real_size_ge [of l] l by (simp add: layout_ok_def)
    note ap = blocks_apart_insert [OF i(4) n(5,2,3) this]
    have "finite (blocks ?h)" using i(4) by (simp add: blocks_apart_def)
    from heap_rel_new [OF i(5) this ap(2) l n(4)] show ?thesis
      using p n(1,2,6) ap(1) i(1,2) by (auto simp: heap_inv_def Let_def)
  qed
qed

lemma heap_alloc_step:
  assumes inv: "heap_inv blocks good start len \<sigma>" and l: "layout_ok l"
  shows "\<exists>\<sigma>'. heap_act (HeapAlloc l) \<sigma> = Ok \<sigma>' \<and> heap_inv blocks good start len \<sigma>'"
proof (cases "get_block_index l")
  case None
  obtain ptr a where run: "allocate_with_fallback_allocator (hs_ops \<sigma>) l (hp_alloc (hs_heap \<sigma>)) = (ptr, a)" by fastforce
  from fallback_alloc_inv [OF inv l l _ _ run] None run show ?thesis
    by (simp add: heap_alloc_def real_size_def real_align_def)
next
  case (Some i)
  have i: "i < 10" by (rule get_block_index_Some(1) [OF Some])
  show ?thesis
  proof (cases "ba_lists (hp_alloc (hs_heap \<sigma>)) ! i")
    case None
    let ?r = "\<lparr>l_size = BLOCK_SIZES ! i, l_align = BLOCK_SIZES ! i\<rparr>"
    obtain ptr a where run: "allocate_with_fallback_allocator (hs_ops \<sigma>) ?r (hp_alloc (hs_heap \<sigma>)) = (ptr, a)" by fastforce
    have "layout_ok ?r"
      using i by (simp add: layout_ok_def block_size_pow pow_is_power_of_two)
    from fallback_alloc_inv [OF inv l this _ _ run] Some None run show ?thesis
      by (simp add: heap_alloc_def real_size_def real_align_def)
  next
    case node: (Some x)
    let ?h = "ba_fallback (hp_alloc (hs_heap \<sigma>))"
    obtain F where v: "0 < start" "fallback_ok (hs_ops \<sigma>) blocks good start len" "good ?h" "blocks_apart start len (blocks ?h)"
      "heap_rel (blocks ?h) (hp_mem (hs_heap \<sigma>)) (ba_lists (hp_alloc (hs_heap \<sigma>))) (hs_held \<sigma>) F" by (rule heap_invD [OF inv])
    obtain F' where "heap_rel (blocks ?h) ((hp_mem (hs_heap \<sigma>))(x := node_word None))
        ((ba_lists (hp_alloc (hs_heap \<sigma>)))[i := word_node (hp_mem (hs_heap \<sigma>) x)]) ((x, l) # hs_held \<sigma>) F'" "x \<noteq> 0"
      by (rule heap_rel_take [OF v(4,5) Some l node])
    with v Some node show ?thesis by (auto simp: heap_alloc_def heap_inv_def Let_def)
  qed
qed

lemma heap_free_step:
  assumes inv: "heap_inv blocks good start len \<sigma>" and k: "k < length (hs_held \<sigma>)"
  shows "\<exists>\<sigma>'. heap_act (HeapFree k) \<sigma> = Ok \<sigma>' \<and> heap_inv blocks good start len \<sigma>'"
proof -
  let ?h = "ba_fallback (hp_alloc (hs_heap \<sigma>))"
  obtain F where v: "0 < start" "fallback_ok (hs_ops \<sigma>) blocks good start len" "good ?h" "blocks_apart start len (blocks ?h)"
    "heap_rel (blocks ?h) (hp_mem (hs_heap \<sigma>)) (ba_lists (hp_alloc (hs_heap \<sigma>))) (hs_held \<sigma>) F" by (rule heap_invD [OF inv])
  obtain ptr l where pl: "hs_held \<sigma> ! k = (ptr, l)" by fastforce
  note sp = held_split [OF k pl]
  have fin: "finite (blocks ?h)" using v(4) by (simp add: blocks_apart_def)
  have mem: "(ptr, real_size l) \<in> blocks ?h"
    using v(5) held_block_in [OF sp(3)] fin by (metis elem_mset_set heap_rel_def union_iff)
  show ?thesis
  proof (cases "get_block_index l")
    case None
    then have sz: "real_size l = l_size l" by (simp add: real_size_def)
    have l: "layout_ok l" using v(5) sp(3) by (auto simp: heap_rel_def)
    have "ptr \<noteq> 0" using mem v(1,4) by (auto simp: blocks_apart_def)
    let ?h' = "fb_deallocate (hs_ops \<sigma>) ptr l ?h"
    have d: "good ?h'" "blocks ?h' = blocks ?h - {(ptr, real_size l)}"
      using fallbackD(3) [OF v(2,3) l] mem sz by auto
    have "mset_set (blocks ?h) = add_mset (ptr, real_size l) (mset_set (blocks ?h'))"
      using mset_set.remove [OF fin mem] d(2) by simp
    then have "heap_rel (blocks ?h') (hp_mem (hs_heap \<sigma>)) (ba_lists (hp_alloc (hs_heap \<sigma>)))
        (take k (hs_held \<sigma>) @ drop (Suc k) (hs_held \<sigma>)) F"
      using v(5) sp(1,2) by (auto simp: heap_rel_def)
    moreover have "blocks_apart start len (blocks ?h')" using v(4) unfolding blocks_apart_def d(2) by auto
    ultimately show ?thesis using None pl \<open>ptr \<noteq> 0\<close> v(1,2) d(1) by (auto simp: heap_dealloc_def heap_inv_def Let_def)
  next
    case (Some i)
    have i: "i < 10" by (rule get_block_index_Some(1) [OF Some])
    obtain F' where "heap_rel (blocks ?h) ((hp_mem (hs_heap \<sigma>))(ptr := node_word (ba_lists (hp_alloc (hs_heap \<sigma>)) ! i)))
        ((ba_lists (hp_alloc (hs_heap \<sigma>)))[i := Some ptr]) (take k (hs_held \<sigma>) @ drop (Suc k) (hs_held \<sigma>)) F'"
      by (rule heap_rel_give_back [OF v(4,1,5) k pl Some])
    with v(1-4) Some pl block_size_pos [OF i] show ?thesis
      by (auto simp: heap_dealloc_def heap_inv_def Let_def NODE_SIZE_def)
  qed
qed

lemma heap_write_step:
  assumes inv: "heap_inv blocks good start len \<sigma>" and w: "heap_can (HeapWrite a v) \<sigma>"
  shows "\<exists>\<sigma>'. heap_act (HeapWrite a v) \<sigma> = Ok \<sigma>' \<and> heap_inv blocks good start len \<sigma>'"
proof -
  let ?h = "ba_fallback (hp_alloc (hs_heap \<sigma>))"
  obtain F where i: "0 < start" "fallback_ok (hs_ops \<sigma>) blocks good start len" "good ?h" "blocks_apart start len (blocks ?h)"
    "heap_rel (blocks ?h) (hp_mem (hs_heap \<sigma>)) (ba_lists (hp_alloc (hs_heap \<sigma>))) (hs_held \<sigma>) F" by (rule heap_invD [OF inv])
  obtain ptr l where pl: "(ptr, l) \<in> set (hs_held \<sigma>)" "ptr \<le> a" "a < ptr + l_size l"
    using w by (auto simp: list_ex_iff)
  have "a \<notin> set (F j)" if "j < 10" for j
    by (rule held_not_free [OF i(4,5) pl(1,2) _ that]) (use pl(3) real_size_ge [of l] in simp)
  then have "heap_rel (blocks ?h) ((hp_mem (hs_heap \<sigma>))(a := v)) (ba_lists (hp_alloc (hs_heap \<sigma>))) (hs_held \<sigma>) F"
    using i(5) by (auto simp: heap_rel_def free_path_upd)
  with i(1-4) show ?thesis by (auto simp: heap_inv_def Let_def)
qed

interpretation heap: safe_machine "heap_booted blocks good start len" heap_can heap_act "heap_inv blocks good start len"
  for blocks good start len
proof
  show "heap_booted blocks good start len \<sigma> \<Longrightarrow> heap_inv blocks good start len \<sigma>" for \<sigma>
    by (rule heap_inv_init)
  show "\<exists>s'. heap_act a \<sigma> = Ok s' \<and> heap_inv blocks good start len s'"
    if "heap_inv blocks good start len \<sigma>" "heap_can a \<sigma>" for \<sigma> a
    using that heap_alloc_step [OF that(1)] heap_free_step [OF that(1)] heap_write_step [OF that(1)]
    by (cases a) auto
qed

section \<open>A general allocator for examples\<close>

text \<open>Takes blocks one after the other and never reuses memory.\<close>

definition bump_ops :: "nat \<Rightarrow> (nat \<times> (nat \<times> nat) list) fallback_ops" where
  "bump_ops limit =
     \<lparr>fb_empty = (0, []), fb_init = (\<lambda>start len h. (start, [])),
      fb_allocate_first_fit = (\<lambda>l (n, bs).
        let ptr = (n + l_align l - 1) div l_align l * l_align l in
        if ptr + l_size l \<le> limit then (Some ptr, (ptr + l_size l, (ptr, l_size l) # bs)) else (None, (n, bs))),
      fb_deallocate = (\<lambda>ptr l (n, bs). (n, removeAll (ptr, l_size l) bs))\<rparr>"

definition bump_good :: "nat \<Rightarrow> nat \<times> (nat \<times> nat) list \<Rightarrow> bool" where
  "bump_good start h \<longleftrightarrow> start \<le> fst h \<and> (\<forall>b \<in> set (snd h). fst b + snd b \<le> fst h)"

lemma round_up_ge: "0 < (a :: nat) \<Longrightarrow> n \<le> (n + a - 1) div a * a"
proof -
  assume a: "0 < a"
  have "n + a - 1 = (n + a - 1) div a * a + (n + a - 1) mod a" by simp
  moreover have "(n + a - 1) mod a < a" using a by simp
  ultimately show ?thesis using a by linarith
qed

lemma bump_fallback_ok: "fallback_ok (bump_ops (start + len)) (\<lambda>h. set (snd h)) (bump_good start) start len"
proof -
  have up: "n \<le> (n + l_align l - 1) div l_align l * l_align l" if "layout_ok l" for n l
    by (rule round_up_ge) (use that in \<open>auto simp: layout_ok_def is_power_of_two_def\<close>)
  have alloc: "bump_good start h' \<and> start \<le> ptr \<and> ptr + l_size l \<le> start + len \<and> l_align l dvd ptr
      \<and> (\<forall>b \<in> set (snd h). apart (ptr, l_size l) b) \<and> set (snd h') = insert (ptr, l_size l) (set (snd h))"
    if h: "bump_good start h" and l: "layout_ok l" and run: "fb_allocate_first_fit (bump_ops (start + len)) l h = (Some ptr, h')" for h l ptr h'
  proof -
    obtain n bs where nb: "h = (n, bs)" by (cases h)
    have p: "ptr = (n + l_align l - 1) div l_align l * l_align l" "ptr + l_size l \<le> start + len"
      "h' = (ptr + l_size l, (ptr, l_size l) # bs)"
      using run nb by (auto simp: bump_ops_def Let_def split: if_splits)
    have "n \<le> ptr" using up [OF l, of n] p(1) by simp
    then show ?thesis using h nb p by (fastforce simp: bump_good_def apart_def)
  qed
  have none: "bump_good start h' \<and> set (snd h') = set (snd h)"
    if "bump_good start h" "fb_allocate_first_fit (bump_ops (start + len)) l h = (None, h')" for h l h'
    using that by (cases h) (auto simp: bump_ops_def Let_def split: if_splits)
  have free: "bump_good start (fb_deallocate (bump_ops (start + len)) ptr l h)
      \<and> set (snd (fb_deallocate (bump_ops (start + len)) ptr l h)) = set (snd h) - {(ptr, l_size l)}"
    if "bump_good start h" for h ptr l
    using that by (cases h) (auto simp: bump_ops_def bump_good_def)
  have "bump_good start (fb_init (bump_ops (start + len)) start len (fb_empty (bump_ops (start + len))))
      \<and> set (snd (fb_init (bump_ops (start + len)) start len (fb_empty (bump_ops (start + len))))) = {}"
    by (simp add: bump_ops_def bump_good_def)
  then show ?thesis unfolding fallback_ok_def Let_def using alloc none free by blast
qed

definition bump_system :: "(nat \<times> (nat \<times> nat) list) heap_system" where
  "bump_system =
     \<lparr>hs_ops = bump_ops (4096 + 65536),
      hs_heap = \<lparr>hp_alloc = init_fallback_allocator (bump_ops (4096 + 65536)) 4096 65536 (block_allocator_new (bump_ops (4096 + 65536))),
        hp_mem = (\<lambda>a. 0)\<rparr>,
      hs_held = []\<rparr>"

lemma bump_system_booted: "heap_booted (\<lambda>h. set (snd h)) (bump_good 4096) 4096 65536 bump_system"
  using bump_fallback_ok [of 4096 65536] by (simp add: heap_booted_def bump_system_def)

section \<open>Properties\<close>

lemma other_in_rest: "j < length xs \<Longrightarrow> i \<noteq> j \<Longrightarrow> xs ! j \<in> set (take i xs @ drop (Suc i) xs)"
proof (cases "j < i")
  case True
  assume "j < length xs"
  with True have "take i xs ! j = xs ! j" "j < length (take i xs)" by auto
  then show ?thesis by (metis UnI1 nth_mem set_append)
next
  case False
  assume "j < length xs" "i \<noteq> j"
  with False have "drop (Suc i) xs ! (j - Suc i) = xs ! j" "j - Suc i < length (drop (Suc i) xs)" by auto
  then show ?thesis by (metis UnI2 nth_mem set_append)
qed

lemma held_placed:
  assumes "heap_inv blocks good start len \<sigma>" "i < length (hs_held \<sigma>)" "hs_held \<sigma> ! i = (p, l)"
  shows "l_align l dvd p" "start \<le> p" "p + l_size l \<le> start + len"
proof -
  let ?h = "ba_fallback (hp_alloc (hs_heap \<sigma>))"
  obtain F where v: "blocks_apart start len (blocks ?h)"
    "heap_rel (blocks ?h) (hp_mem (hs_heap \<sigma>)) (ba_lists (hp_alloc (hs_heap \<sigma>))) (hs_held \<sigma>) F"
    by (rule heap_invD [OF assms(1)])
  note si = held_split [OF assms(2,3)]
  have "add_mset (p, real_size l) (held_blocks (take i (hs_held \<sigma>) @ drop (Suc i) (hs_held \<sigma>)) + free_blocks F) = mset_set (blocks ?h)"
    using v(2) si(1) by (simp add: heap_rel_def)
  then have "(p, real_size l) \<in># mset_set (blocks ?h)" by (metis union_single_eq_member)
  moreover have "finite (blocks ?h)" using v(1) by (simp add: blocks_apart_def)
  ultimately have "(p, real_size l) \<in> blocks ?h" by simp
  with v(1) have "start \<le> p" "p + real_size l \<le> start + len" by (fastforce simp: blocks_apart_def)+
  moreover have "layout_ok l" "real_align l dvd p" using v(2) si(3) by (auto simp: heap_rel_def)
  ultimately show "l_align l dvd p" "start \<le> p" "p + l_size l \<le> start + len"
    using real_size_ge [of l] align_dvd_real [of l] by (auto intro: dvd_trans)
qed

lemma held_disjoint:
  assumes "heap_inv blocks good start len \<sigma>" "i < length (hs_held \<sigma>)" "j < length (hs_held \<sigma>)" "i \<noteq> j"
    and "hs_held \<sigma> ! i = (p, l)" "hs_held \<sigma> ! j = (q, m)"
  shows "p + l_size l \<le> q \<or> q + l_size m \<le> p"
proof -
  let ?h = "ba_fallback (hp_alloc (hs_heap \<sigma>))"
  obtain F where v: "blocks_apart start len (blocks ?h)"
    "heap_rel (blocks ?h) (hp_mem (hs_heap \<sigma>)) (ba_lists (hp_alloc (hs_heap \<sigma>))) (hs_held \<sigma>) F"
    by (rule heap_invD [OF assms(1)])
  note si = held_split [OF assms(2,5)]
  let ?rest = "take i (hs_held \<sigma>) @ drop (Suc i) (hs_held \<sigma>)"
  have fin: "finite (blocks ?h)" using v(1) by (simp add: blocks_apart_def)
  have "(q, m) \<in> set ?rest" using other_in_rest [OF assms(3,4)] assms(6) by simp
  then have q: "(q, real_size m) \<in># held_blocks ?rest + free_blocks F" using held_block_in by fastforce
  have eq: "mset_set (blocks ?h) = {#(p, real_size l)#} + (held_blocks ?rest + free_blocks F)"
    using v(2) si(1) by (simp add: heap_rel_def)
  have "(p, real_size l) \<in> blocks ?h" "(q, real_size m) \<in> blocks ?h" "(p, real_size l) \<noteq> (q, real_size m)"
    using two_owners [OF eq _ q fin, of "(p, real_size l)"] by simp_all
  with v(1) have "apart (p, real_size l) (q, real_size m)" by (fastforce simp: blocks_apart_def)
  then show ?thesis using real_size_ge [of l] real_size_ge [of m] by (auto simp: apart_def)
qed

text \<open>C12: Blocks of the kernel heap are exclusive. In every state that is reached from a booted heap by
  requests, returns and writes of clients to their own blocks, in any order: each block that a client
  holds has the alignment that was asked for and lies inside the heap, no two of them overlap, and no
  operation a client may start panics. The free lists, whose links are stored in the free blocks
  themselves, cannot be broken by a client that stays inside its blocks. (The general allocator behind
  the size classes meets its contract \<open>fallback_ok\<close>, which is part of the boot condition.)\<close>

theorem heap_exclusive:
  assumes "reaches (heap_booted blocks good start len) heap_can heap_act \<sigma>"
  shows "(\<forall>(p, l) \<in> set (hs_held \<sigma>). l_align l dvd p \<and> start \<le> p \<and> p + l_size l \<le> start + len)
    \<and> (\<forall>i < length (hs_held \<sigma>). \<forall>j < length (hs_held \<sigma>). i \<noteq> j \<longrightarrow>
         (case (hs_held \<sigma> ! i, hs_held \<sigma> ! j) of ((p, l), (q, m)) \<Rightarrow> p + l_size l \<le> q \<or> q + l_size m \<le> p))
    \<and> (\<forall>a. heap_can a \<sigma> \<longrightarrow> (\<exists>\<sigma>'. heap_act a \<sigma> = Ok \<sigma>'))"
proof -
  note inv = heap.reached_inv [OF assms]
  have "l_align l dvd p \<and> start \<le> p \<and> p + l_size l \<le> start + len" if "(p, l) \<in> set (hs_held \<sigma>)" for p l
    using that held_placed [OF inv] by (metis in_set_conv_nth)
  moreover have "p + l_size l \<le> q \<or> q + l_size m \<le> p" if "i < length (hs_held \<sigma>)" "j < length (hs_held \<sigma>)" "i \<noteq> j"
      "hs_held \<sigma> ! i = (p, l)" "hs_held \<sigma> ! j = (q, m)" for i j p l q m
    by (rule held_disjoint [OF inv that])
  ultimately show ?thesis using heap.never_stuck [OF assms] by (auto split: prod.split)
qed

theorem heap_exclusive_witness:
  "\<exists>\<sigma> p q. run_all heap_act [HeapAlloc \<lparr>l_size = 24, l_align = 8\<rparr>, HeapAlloc \<lparr>l_size = 5000, l_align = 16\<rparr>] bump_system = Ok \<sigma>
     \<and> hs_held \<sigma> = [(q, \<lparr>l_size = 5000, l_align = 16\<rparr>), (p, \<lparr>l_size = 24, l_align = 8\<rparr>)]
     \<and> (q + 5000 \<le> p \<or> p + 24 \<le> q) \<and> 16 dvd q \<and> 4096 \<le> q"
proof -
  let ?as = "[HeapAlloc \<lparr>l_size = 24, l_align = 8\<rparr>, HeapAlloc \<lparr>l_size = 5000, l_align = 16\<rparr>]"
  have p2: "is_power_of_two 8" "is_power_of_two 16"
    using pow_is_power_of_two [of 3] pow_is_power_of_two [of 4] by simp_all
  have ok: "layout_ok \<lparr>l_size = 24, l_align = 8\<rparr>" "layout_ok \<lparr>l_size = 5000, l_align = 16\<rparr>" using p2 by (simp_all add: layout_ok_def)
  have "\<exists>\<sigma> p q. run_all heap_act ?as bump_system = Ok \<sigma> \<and> can_all heap_can heap_act ?as bump_system
      \<and> hs_held \<sigma> = [(q, \<lparr>l_size = 5000, l_align = 16\<rparr>), (p, \<lparr>l_size = 24, l_align = 8\<rparr>)]"
    using ok by (simp add: bump_system_def heap_alloc_def get_block_index_def BLOCK_SIZES_def init_fallback_allocator_def
        block_allocator_new_def allocate_with_fallback_allocator_def bump_ops_def Let_def)
  then obtain \<sigma> p q where s: "run_all heap_act ?as bump_system = Ok \<sigma>" "can_all heap_can heap_act ?as bump_system"
    "hs_held \<sigma> = [(q, \<lparr>l_size = 5000, l_align = 16\<rparr>), (p, \<lparr>l_size = 24, l_align = 8\<rparr>)]" by blast
  have "reaches (heap_booted (\<lambda>h. set (snd h)) (bump_good 4096) 4096 65536) heap_can heap_act \<sigma>"
    by (rule run_all_reaches [OF reaches_init s(2,1)]) (rule bump_system_booted)
  note heap_exclusive [OF this]
  then have "\<forall>i < 2. \<forall>j < 2. i \<noteq> j \<longrightarrow> (case (hs_held \<sigma> ! i, hs_held \<sigma> ! j) of ((p, l), (q, m)) \<Rightarrow> p + l_size l \<le> q \<or> q + l_size m \<le> p)"
    "16 dvd q" "4096 \<le> q"
    using s(3) by auto
  from this(1) [rule_format, of 0 1] this(2,3) s show ?thesis by auto
qed

text \<open>A block of a size class that is given back is the next one handed out for that class, and
  the two operations together leave the free lists and the general allocator as they were.\<close>

theorem heap_free_alloc:
  assumes "get_block_index l = Some i" "get_block_index l' = Some i"
    and "i < length (ba_lists (hp_alloc hp))" "ba_lists (hp_alloc hp) ! i \<noteq> Some 0"
  shows "\<exists>hp1 hp2. heap_dealloc ops ptr l hp = Ok hp1 \<and> heap_alloc ops l' hp1 = (ptr, hp2) \<and> hp_alloc hp2 = hp_alloc hp"
  using assms get_block_index_Some(1) [OF assms(1)] block_size_pos [of i]
  by (simp add: heap_dealloc_def heap_alloc_def NODE_SIZE_def)

theorem heap_free_alloc_witness:
  "\<exists>hp1 hp2. heap_dealloc (bump_ops 8192) 4096 \<lparr>l_size = 24, l_align = 8\<rparr> (hs_heap bump_system) = Ok hp1
     \<and> heap_alloc (bump_ops 8192) \<lparr>l_size = 17, l_align = 2\<rparr> hp1 = (4096, hp2) \<and> hp_alloc hp2 = hp_alloc (hs_heap bump_system)"
  by (rule heap_free_alloc [of _ 2])
    (simp_all add: get_block_index_def BLOCK_SIZES_def bump_system_def init_fallback_allocator_def block_allocator_new_def)

end
