(* ===== verification/File_Cache.thy ===== *)
theory File_Cache
  imports Hash_Map_Fx Fs_Types
begin

text \<open>
  The file cache (\<open>filesystem/file_cache.rs\<close>): whole files are kept in one arena of bytes, new
  ones behind the last; evicted files leave holes that \<open>compact\<close> closes. The file system driver
  below the cache is the generic parameter of the source, here a record of its operations; the
  hash maps are those of \<open>Hash_Map_Fx\<close>. The bytes that a failed read of the driver leaves in the
  buffer it was given are not modelled: the buffer is then kept, and no caller looks at it.
\<close>

section \<open>Data\<close>

definition FS_CACHE_SIZE :: nat where "FS_CACHE_SIZE = 16 * 1024 * 1024"
definition FS_CACHE_MAP_FILE_COUNT :: nat where "FS_CACHE_MAP_FILE_COUNT = 1024"
definition INVALID_NODE_HANDLE :: file_node_handle where "INVALID_NODE_HANDLE = 0"

record cache_stats =
  total_files :: nat
  total_bytes :: nat
  max_bytes :: nat
  dirty_files :: nat

record 'd cache_driver =
  cd_read_file_into :: "file_node_handle \<Rightarrow> u8 list \<Rightarrow> ('d, file_system_error, nat \<times> u8 list) call"
  cd_write_file :: "file_node_handle \<Rightarrow> nat \<Rightarrow> u8 list \<Rightarrow> ('d, file_system_error, nat) call"
  cd_file_size :: "file_node_handle \<Rightarrow> ('d, file_system_error, nat) call"
  cd_read_dir :: "file_node_handle \<Rightarrow> ('d, file_system_error, str list) call"
  cd_get_node :: "file_node_handle \<Rightarrow> ('d, file_system_error, file_node) call"

datatype cache_importance = Minimal | Low | Normal | High | VeryHigh | Critical | Resident

definition importance_from_u8 :: "u8 \<Rightarrow> cache_importance option" where
  "importance_from_u8 v =
     (if v = 0 then Some Minimal else if v = 1 then Some Low else if v = 2 then Some Normal
      else if v = 3 then Some High else if v = 4 then Some VeryHigh else if v = 5 then Some Critical
      else if v = 6 then Some Resident else None)"

fun eviction_priority :: "cache_importance \<Rightarrow> u64" where
  "eviction_priority Minimal = 0"
| "eviction_priority Low = 1"
| "eviction_priority Normal = 2"
| "eviction_priority High = 3"
| "eviction_priority VeryHigh = 4"
| "eviction_priority Critical = 5"
| "eviction_priority Resident = - 1"

record cached_file =
  cf_arena_offset :: nat
  cf_len :: nat
  cf_last_access :: u64
  cf_is_dirty :: bool
  cf_pinned :: bool
  cf_importance :: cache_importance

definition cached_file_new :: "nat \<Rightarrow> nat \<Rightarrow> u64 \<Rightarrow> cache_importance \<Rightarrow> cached_file" where
  "cached_file_new arena_offset len tick importance =
     \<lparr>cf_arena_offset = arena_offset, cf_len = len, cf_last_access = tick, cf_is_dirty = False,
      cf_pinned = False, cf_importance = importance\<rparr>"

record 'd file_cache =
  fc_driver :: 'd
  fc_arena :: "u8 list"
  fc_push_offset :: nat
  fc_memory_used :: nat
  fc_max_memory :: nat
  fc_access_tick :: u64
  fc_files :: "cached_file fxmap"
  fc_file_nodes :: "file_node fxmap"
  fc_directory_children :: "file_node_handle list fxmap"
  fc_directory_hints :: "cache_importance fxmap"

type_synonym ('d, 'a) cache_call = "('d file_cache, file_system_error, 'a) call"

definition file_cache_new :: "'d \<Rightarrow> nat \<Rightarrow> (unit, 'd file_cache) outcome" where
  "file_cache_new driver max_memory =
     (if \<not> layout_array_ok max_memory then Panic
      else and_then (fx_with_capacity FS_CACHE_MAP_FILE_COUNT) (\<lambda>files.
           and_then (fx_with_capacity FS_CACHE_MAP_FILE_COUNT) (\<lambda>file_nodes.
           and_then fx_new (\<lambda>children.
           and_then fx_new (\<lambda>hints.
             Ok \<lparr>fc_driver = driver, fc_arena = replicate max_memory 0, fc_push_offset = 0, fc_memory_used = 0,
                 fc_max_memory = max_memory, fc_access_tick = 0, fc_files = files, fc_file_nodes = file_nodes,
                 fc_directory_children = children, fc_directory_hints = hints\<rparr>)))))"

section \<open>Access to the parts\<close>

definition on_driver :: "('d, file_system_error, 'a) call \<Rightarrow> ('d, 'a) cache_call" where
  "on_driver m = (\<lambda>c. case m (fc_driver c) of (r, d) \<Rightarrow> (r, c\<lparr>fc_driver := d\<rparr>))"

text \<open>\<open>&arena[start..start + n]\<close>, \<open>arena[start..][..].copy_from_slice(data)\<close>, \<open>copy_within\<close>.\<close>

definition arena_slice :: "nat \<Rightarrow> nat \<Rightarrow> ('d, u8 list) cache_call" where
  "arena_slice start n = reading (\<lambda>c. if start + n \<le> length (fc_arena c) then ret (chunk start n (fc_arena c)) else panic)"

definition arena_store :: "nat \<Rightarrow> u8 list \<Rightarrow> ('d, unit) cache_call" where
  "arena_store start data = reading (\<lambda>c. if start + length data \<le> length (fc_arena c)
     then modify (\<lambda>c. c\<lparr>fc_arena := blit start data (fc_arena c)\<rparr>) else panic)"

definition arena_copy_within :: "nat \<Rightarrow> nat \<Rightarrow> nat \<Rightarrow> ('d, unit) cache_call" where
  "arena_copy_within start n dest = bind (arena_slice start n) (arena_store dest)"

text \<open>The result of an insertion into one of the maps; a map has no error of its own.\<close>

definition stored :: "(unit, 'v option \<times> 'v fxmap) outcome \<Rightarrow> ('v fxmap \<Rightarrow> 'd file_cache \<Rightarrow> 'd file_cache) \<Rightarrow> ('d, unit) cache_call" where
  "stored r put = (case r of Ok (old, m) \<Rightarrow> modify (put m) | Err e \<Rightarrow> panic | Panic \<Rightarrow> panic | Diverge \<Rightarrow> diverge)"

definition insert_file :: "file_node_handle \<Rightarrow> cached_file \<Rightarrow> ('d, unit) cache_call" where
  "insert_file node_id f = reading (\<lambda>c. stored (fx_insert (fc_files c) node_id f) (\<lambda>m c. c\<lparr>fc_files := m\<rparr>))"

definition insert_node :: "file_node_handle \<Rightarrow> file_node \<Rightarrow> ('d, unit) cache_call" where
  "insert_node node_id n = reading (\<lambda>c. stored (fx_insert (fc_file_nodes c) node_id n) (\<lambda>m c. c\<lparr>fc_file_nodes := m\<rparr>))"

definition update_file :: "file_node_handle \<Rightarrow> (cached_file \<Rightarrow> cached_file) \<Rightarrow> ('d, unit) cache_call" where
  "update_file node_id f = modify (\<lambda>c. c\<lparr>fc_files := fx_modify (fc_files c) node_id f\<rparr>)"

definition add_memory_used :: "nat \<Rightarrow> ('d, unit) cache_call" where
  "add_memory_used n = reading (\<lambda>c. bind (usize_add (fc_memory_used c) n) (\<lambda>used. modify (\<lambda>c. c\<lparr>fc_memory_used := used\<rparr>)))"

definition sub_memory_used :: "nat \<Rightarrow> ('d, unit) cache_call" where
  "sub_memory_used n = reading (\<lambda>c. bind (usize_sub (fc_memory_used c) n) (\<lambda>used. modify (\<lambda>c. c\<lparr>fc_memory_used := used\<rparr>)))"

definition next_tick :: "('d, unit) cache_call" where
  "next_tick = modify (\<lambda>c. c\<lparr>fc_access_tick := fc_access_tick c + 1\<rparr>)"

section \<open>The arena\<close>

definition arena_push_alloc :: "nat \<Rightarrow> ('d, nat option) cache_call" where
  "arena_push_alloc len = reading (\<lambda>c.
     bind (usize_add (fc_push_offset c) len) (\<lambda>new_offset.
       if new_offset \<le> fc_max_memory c
       then bind (modify (\<lambda>c. c\<lparr>fc_push_offset := new_offset\<rparr>)) (\<lambda>_. ret (Some (fc_push_offset c)))
       else ret None))"

fun live_key :: "file_node_handle \<Rightarrow> file_node_handle \<times> nat \<times> nat \<Rightarrow> nat" where
  "live_key sort_last (node_id, offset, len) = (if node_id \<noteq> sort_last then offset else 2 ^ 64 - 1)"

definition live_files :: "cached_file fxmap \<Rightarrow> (file_node_handle \<times> nat \<times> nat) list" where
  "live_files files = map (\<lambda>(node_id, f). (node_id, cf_arena_offset f, cf_len f)) (fx_iter files)"

fun compact_loop :: "(file_node_handle \<times> nat \<times> nat) list \<Rightarrow> nat \<Rightarrow> ('d, nat) cache_call" where
  "compact_loop [] write_offset = ret write_offset"
| "compact_loop ((node_id, old_offset, len) # live) write_offset =
     bind (if old_offset \<noteq> write_offset
           then bind (arena_copy_within old_offset len write_offset) (\<lambda>_.
                  update_file node_id (\<lambda>f. f\<lparr>cf_arena_offset := write_offset\<rparr>))
           else ret ()) (\<lambda>_.
     bind (usize_add write_offset len) (compact_loop live))"

definition compact :: "file_node_handle \<Rightarrow> ('d, unit) cache_call" where
  "compact sort_last = reading (\<lambda>c.
     bind (compact_loop (sort_key (live_key sort_last) (live_files (fc_files c))) 0) (\<lambda>write_offset.
       modify (\<lambda>c. c\<lparr>fc_push_offset := write_offset\<rparr>)))"

section \<open>Eviction\<close>

definition saturating_mul :: "u64 \<Rightarrow> u64 \<Rightarrow> u64" where
  "saturating_mul a b = (if unat a * unat b < 2 ^ 64 then a * b else - 1)"

definition eviction_score :: "u64 \<Rightarrow> cached_file \<Rightarrow> u64" where
  "eviction_score access_tick cached =
     saturating_mul (eviction_priority (cf_importance cached)) (max (access_tick - cf_last_access cached) 1)"

primrec best_victim :: "(file_node_handle \<Rightarrow> cached_file \<Rightarrow> bool) \<Rightarrow> u64 \<Rightarrow> (file_node_handle \<times> cached_file) list \<Rightarrow>
    file_node_handle \<Rightarrow> u64 \<Rightarrow> file_node_handle" where
  "best_victim skip access_tick [] best_id best_score = best_id"
| "best_victim skip access_tick (entry # entries) best_id best_score =
     (case entry of (node_id, cached) \<Rightarrow>
      if skip node_id cached then best_victim skip access_tick entries best_id best_score
      else let score = eviction_score access_tick cached in
        if score > best_score then best_victim skip access_tick entries node_id score
        else best_victim skip access_tick entries best_id best_score)"

text \<open>A dirty victim is written back first; when that fails nothing is evicted.\<close>

definition evict_found :: "'d cache_driver \<Rightarrow> file_node_handle \<Rightarrow> ('d, nat) cache_call" where
  "evict_found ops best_id =
     (if best_id = INVALID_NODE_HANDLE then ret 0
      else bind (reading (\<lambda>c.
          case fx_get (fc_files c) best_id of
            Some cached \<Rightarrow>
              if cf_is_dirty cached
              then bind (arena_slice (cf_arena_offset cached) (cf_len cached)) (\<lambda>data.
                   bind (attempt (on_driver (cd_write_file ops best_id 0 data))) (\<lambda>r.
                     ret (case r of Inl e \<Rightarrow> False | Inr n \<Rightarrow> True)))
              else ret True
          | None \<Rightarrow> ret True)) (\<lambda>flushed.
        if \<not> flushed then ret 0
        else reading (\<lambda>c. case fx_remove (fc_files c) best_id of (removed, m) \<Rightarrow>
          case removed of
            Some cached \<Rightarrow>
              bind (modify (\<lambda>c. c\<lparr>fc_files := m\<rparr>)) (\<lambda>_.
              bind (sub_memory_used (cf_len cached)) (\<lambda>_.
                ret (cf_len cached)))
          | None \<Rightarrow> ret 0)))"

definition evict_one :: "'d cache_driver \<Rightarrow> ('d, nat) cache_call" where
  "evict_one ops = reading (\<lambda>c.
     evict_found ops (best_victim
       (\<lambda>node_id cached. cf_pinned cached \<or> eviction_priority (cf_importance cached) = - 1)
       (fc_access_tick c) (fx_iter (fc_files c)) INVALID_NODE_HANDLE 0))"

definition evict_one_keep_alive :: "'d cache_driver \<Rightarrow> file_node_handle \<Rightarrow> bool \<Rightarrow> ('d, nat) cache_call" where
  "evict_one_keep_alive ops file_to_keep force_eviction = reading (\<lambda>c.
     evict_found ops (best_victim
       (\<lambda>node_id cached. (cf_pinned cached \<and> \<not> force_eviction) \<or> node_id = file_to_keep
          \<or> (eviction_priority (cf_importance cached) = - 1 \<and> \<not> force_eviction))
       (fc_access_tick c) (fx_iter (fc_files c)) INVALID_NODE_HANDLE 0))"

text \<open>Every round but the last evicts a file, so the number of files bounds the rounds.\<close>

primrec ensure_space_loop :: "nat \<Rightarrow> 'd cache_driver \<Rightarrow> nat \<Rightarrow> file_node_handle \<Rightarrow> bool \<Rightarrow> ('d, bool) cache_call" where
  "ensure_space_loop 0 ops needed file_to_end force_eviction = diverge"
| "ensure_space_loop (Suc rounds) ops needed file_to_end force_eviction = reading (\<lambda>c.
     bind (usize_add (fc_push_offset c) needed) (\<lambda>wanted.
     if wanted > fc_max_memory c
     then bind (evict_one_keep_alive ops file_to_end force_eviction) (\<lambda>evicted_size.
       if evicted_size \<noteq> 0
       then reading (\<lambda>c.
         bind (usize_add (fc_memory_used c) needed) (\<lambda>total.
         bind (usize_sub total evicted_size) (\<lambda>left.
         bind (if left \<le> fc_max_memory c then compact file_to_end else ret ()) (\<lambda>_.
           ensure_space_loop rounds ops needed file_to_end force_eviction))))
       else ret False)
     else ret True))"

definition ensure_space :: "'d cache_driver \<Rightarrow> nat \<Rightarrow> file_node_handle \<Rightarrow> bool \<Rightarrow> ('d, bool) cache_call" where
  "ensure_space ops needed file_to_end force_eviction = reading (\<lambda>c.
     ensure_space_loop (Suc (fx_len (fc_files c))) ops needed file_to_end force_eviction)"

definition get_effective_importance :: "'d file_cache \<Rightarrow> file_node_handle \<Rightarrow> cache_importance" where
  "get_effective_importance c node_id =
     (case fx_get (fc_directory_hints c) node_id of Some i \<Rightarrow> i | None \<Rightarrow> Normal)"

section \<open>Reading\<close>

text \<open>
  A miss loads the whole file behind the last one. \<open>copy_out\<close> is the final copy into the buffer
  of the caller; the result is the number of bytes and the buffer.
\<close>

definition copy_out :: "nat \<Rightarrow> nat \<Rightarrow> nat \<Rightarrow> u8 list \<Rightarrow> ('d, nat \<times> u8 list) cache_call" where
  "copy_out arena_off file_len offset out =
     (if offset \<ge> file_len then ret (0, out)
      else let copy_len = min (length out) (file_len - offset) in
        bind (arena_slice (arena_off + offset) copy_len) (\<lambda>data. ret (copy_len, blit 0 data out)))"

definition bypass_read :: "'d cache_driver \<Rightarrow> file_node_handle \<Rightarrow> nat \<Rightarrow> nat \<Rightarrow> u8 list \<Rightarrow> ('d, nat \<times> u8 list) cache_call" where
  "bypass_read ops node_id file_size offset out =
     bind (on_driver (cd_read_file_into ops node_id (replicate file_size 0))) (\<lambda>(read, tmp).
       let n = min (length out) (read - offset) in
       if n > 0
       then bind (check_or_panic (offset + n \<le> length tmp)) (\<lambda>_. ret (n, blit 0 (chunk offset n tmp) out))
       else ret (n, out))"

definition fill_from_driver :: "'d cache_driver \<Rightarrow> file_node_handle \<Rightarrow> nat \<Rightarrow> nat \<Rightarrow> ('d, nat) cache_call" where
  "fill_from_driver ops node_id arena_off file_size =
     bind (arena_slice arena_off file_size) (\<lambda>buf.
     bind (on_driver (cd_read_file_into ops node_id buf)) (\<lambda>(read, buf).
     bind (arena_store arena_off buf) (\<lambda>_. ret read)))"

definition read_load :: "'d cache_driver \<Rightarrow> file_node_handle \<Rightarrow> nat \<Rightarrow> nat \<Rightarrow> u8 list \<Rightarrow> nat \<Rightarrow> ('d, nat \<times> u8 list) cache_call" where
  "read_load ops node_id file_size offset out arena_off =
     bind (fill_from_driver ops node_id arena_off file_size) (\<lambda>read_bytes.
     bind (reading (\<lambda>c. insert_file node_id
            (cached_file_new arena_off read_bytes (fc_access_tick c) (get_effective_importance c node_id)))) (\<lambda>_.
     bind (on_driver (cd_get_node ops node_id)) (\<lambda>node.
     bind (insert_node node_id node) (\<lambda>_.
     bind (add_memory_used read_bytes) (\<lambda>_.
       copy_out arena_off read_bytes offset out)))))"

definition read_miss :: "'d cache_driver \<Rightarrow> file_node_handle \<Rightarrow> nat \<Rightarrow> u8 list \<Rightarrow> ('d, nat \<times> u8 list) cache_call" where
  "read_miss ops node_id offset out =
     bind (on_driver (cd_file_size ops node_id)) (\<lambda>file_size.
     if file_size = 0 then ret (0, out)
     else bind (ensure_space ops file_size INVALID_NODE_HANDLE True) (\<lambda>ok.
       if \<not> ok then fail CacheFull
       else bind (arena_push_alloc file_size) (\<lambda>r. case r of
           None \<Rightarrow> bypass_read ops node_id file_size offset out
         | Some arena_off \<Rightarrow> read_load ops node_id file_size offset out arena_off)))"

definition read_file_range :: "'d cache_driver \<Rightarrow> file_node_handle \<Rightarrow> nat \<Rightarrow> u8 list \<Rightarrow> ('d, nat \<times> u8 list) cache_call" where
  "read_file_range ops node_id offset out =
     bind next_tick (\<lambda>_. reading (\<lambda>c.
       case fx_get (fc_files c) node_id of
         Some cached \<Rightarrow>
           bind (update_file node_id (\<lambda>f. f\<lparr>cf_last_access := fc_access_tick c\<rparr>)) (\<lambda>_.
             copy_out (cf_arena_offset cached) (cf_len cached) offset out)
       | None \<Rightarrow> read_miss ops node_id offset out))"

section \<open>Writing\<close>

text \<open>
  The node of a file that is in the cache is asked from the driver, but a node that is already
  known is only copied onto itself.
\<close>

definition remember_node :: "'d cache_driver \<Rightarrow> file_node_handle \<Rightarrow> ('d, unit) cache_call" where
  "remember_node ops node_id =
     bind (on_driver (cd_get_node ops node_id)) (\<lambda>node. reading (\<lambda>c.
       if fx_get (fc_file_nodes c) node_id \<noteq> None then ret () else insert_node node_id node))"

definition write_load_existing :: "'d cache_driver \<Rightarrow> file_node_handle \<Rightarrow> nat \<Rightarrow> ('d, unit) cache_call" where
  "write_load_existing ops node_id file_size =
     bind (ensure_space ops file_size INVALID_NODE_HANDLE True) (\<lambda>ok.
     if \<not> ok then fail CacheFull
     else bind (arena_push_alloc file_size) (\<lambda>r. case r of
         None \<Rightarrow> ret ()
       | Some arena_off \<Rightarrow>
           bind (fill_from_driver ops node_id arena_off file_size) (\<lambda>read.
           bind (reading (\<lambda>c. insert_file node_id
                  (cached_file_new arena_off read (fc_access_tick c) (get_effective_importance c node_id)))) (\<lambda>_.
           bind (remember_node ops node_id) (\<lambda>_.
             add_memory_used read)))))"

definition write_load_new :: "'d cache_driver \<Rightarrow> file_node_handle \<Rightarrow> nat \<Rightarrow> nat \<Rightarrow> ('d, unit) cache_call" where
  "write_load_new ops node_id offset n =
     bind (usize_add offset n) (\<lambda>needed.
     bind (ensure_space ops needed INVALID_NODE_HANDLE True) (\<lambda>ok.
     if \<not> ok then fail CacheFull
     else bind (arena_push_alloc needed) (\<lambda>r. case r of
         None \<Rightarrow> ret ()
       | Some arena_off \<Rightarrow>
           bind (arena_store arena_off (replicate needed 0)) (\<lambda>_.
           bind (reading (\<lambda>c. insert_file node_id
                  (cached_file_new arena_off 0 (fc_access_tick c) (get_effective_importance c node_id)))) (\<lambda>_.
             remember_node ops node_id)))))"

definition write_load :: "'d cache_driver \<Rightarrow> file_node_handle \<Rightarrow> nat \<Rightarrow> nat \<Rightarrow> ('d, unit) cache_call" where
  "write_load ops node_id offset n = reading (\<lambda>c.
     if fx_contains_key (fc_files c) node_id then ret ()
     else bind (attempt (on_driver (cd_file_size ops node_id))) (\<lambda>r.
       case r of
         Inr file_size \<Rightarrow> if file_size > 0 then write_load_existing ops node_id file_size
           else write_load_new ops node_id offset n
       | Inl e \<Rightarrow> write_load_new ops node_id offset n))"

definition grow_at_tail :: "file_node_handle \<Rightarrow> nat \<Rightarrow> nat \<Rightarrow> ('d, unit) cache_call" where
  "grow_at_tail node_id extra new_len = reading (\<lambda>c.
     bind (arena_store (fc_push_offset c) (replicate extra 0)) (\<lambda>_.
     bind (modify (\<lambda>c. c\<lparr>fc_push_offset := fc_push_offset c + extra\<rparr>)) (\<lambda>_.
     bind (add_memory_used extra) (\<lambda>_.
       update_file node_id (\<lambda>f. f\<lparr>cf_len := new_len\<rparr>)))))"

definition grow_by_copy :: "file_node_handle \<Rightarrow> nat \<Rightarrow> nat \<Rightarrow> nat \<Rightarrow> ('d, unit) cache_call" where
  "grow_by_copy node_id old_offset old_len new_len = reading (\<lambda>c.
     let new_off = fc_push_offset c in
     bind (arena_copy_within old_offset old_len new_off) (\<lambda>_.
     bind (arena_store (new_off + old_len) (replicate (new_len - old_len) 0)) (\<lambda>_.
     bind (modify (\<lambda>c. c\<lparr>fc_push_offset := fc_push_offset c + new_len\<rparr>)) (\<lambda>_.
     bind (add_memory_used (new_len - old_len)) (\<lambda>_.
       update_file node_id (\<lambda>f. f\<lparr>cf_arena_offset := new_off, cf_len := new_len\<rparr>))))))"

text \<open>After making room the file is expected at the end of the arena: \<open>debug_assert_eq!\<close>.\<close>

definition grow_by_compaction :: "'d cache_driver \<Rightarrow> file_node_handle \<Rightarrow> nat \<Rightarrow> nat \<Rightarrow> ('d, unit) cache_call" where
  "grow_by_compaction ops node_id old_len new_len =
     bind (ensure_space ops (new_len - old_len) node_id True) (\<lambda>ok.
     if \<not> ok then fail CacheFull
     else reading (\<lambda>c.
       let extra = new_len - old_len in
       if fc_push_offset c + extra \<le> fc_max_memory c
       then (case fx_get (fc_files c) node_id of
           Some file \<Rightarrow>
             bind (check_or_panic (cf_arena_offset file + cf_len file = fc_push_offset c)) (\<lambda>_.
               grow_at_tail node_id extra new_len)
         | None \<Rightarrow> ret ())
       else ret ()))"

definition write_grow :: "'d cache_driver \<Rightarrow> file_node_handle \<Rightarrow> cached_file \<Rightarrow> nat \<Rightarrow> ('d, unit) cache_call" where
  "write_grow ops node_id file write_end =
     (let old_len = cf_len file; old_offset = cf_arena_offset file in
      if old_len < write_end
      then let new_len = max write_end old_len; extra = new_len - old_len in reading (\<lambda>c.
        if old_offset + old_len = fc_push_offset c \<and> fc_push_offset c + extra \<le> fc_max_memory c
        then grow_at_tail node_id extra new_len
        else bind (usize_sub (fc_max_memory c) (fc_push_offset c)) (\<lambda>free_tail.
          if free_tail \<ge> new_len then grow_by_copy node_id old_offset old_len new_len
          else grow_by_compaction ops node_id old_len new_len))
      else ret ())"

definition touch_node :: "'d cache_driver \<Rightarrow> nat \<Rightarrow> file_node_handle \<Rightarrow> nat \<Rightarrow> ('d, unit) cache_call" where
  "touch_node ops now node_id len =
     bind (on_driver (cd_get_node ops node_id)) (\<lambda>node. reading (\<lambda>c.
       if fx_get (fc_file_nodes c) node_id \<noteq> None
       then modify (\<lambda>c. c\<lparr>fc_file_nodes := fx_modify (fc_file_nodes c) node_id
              (\<lambda>node. node\<lparr>fn_size := len, fn_modified_time := now mod 2 ^ 32\<rparr>)\<rparr>)
       else insert_node node_id node))"

definition write_patch :: "'d cache_driver \<Rightarrow> nat \<Rightarrow> file_node_handle \<Rightarrow> nat \<Rightarrow> u8 list \<Rightarrow> nat \<Rightarrow> ('d, nat) cache_call" where
  "write_patch ops now node_id offset data write_end = reading (\<lambda>c.
     case fx_get (fc_files c) node_id of
       None \<Rightarrow> fail IoError
     | Some file \<Rightarrow>
         bind (arena_store (cf_arena_offset file + offset) data) (\<lambda>_.
         bind (if write_end > cf_len file then add_memory_used (write_end - cf_len file) else ret ()) (\<lambda>_.
         let len = max write_end (cf_len file) in
         bind (update_file node_id (\<lambda>f. f\<lparr>cf_len := len, cf_is_dirty := True, cf_last_access := fc_access_tick c\<rparr>)) (\<lambda>_.
         bind (touch_node ops now node_id len) (\<lambda>_.
           ret (length data))))))"

definition cache_write_file :: "'d cache_driver \<Rightarrow> nat \<Rightarrow> file_node_handle \<Rightarrow> nat \<Rightarrow> u8 list \<Rightarrow> ('d, nat) cache_call" where
  "cache_write_file ops now node_id offset data =
     bind next_tick (\<lambda>_.
     bind (write_load ops node_id offset (length data)) (\<lambda>_.
     bind (usize_add offset (length data)) (\<lambda>write_end. reading (\<lambda>c.
       case fx_get (fc_files c) node_id of
         None \<Rightarrow> fail FileNotFound
       | Some file \<Rightarrow>
           bind (write_grow ops node_id file write_end) (\<lambda>_.
             write_patch ops now node_id offset data write_end)))))"

section \<open>Nodes, flushing, pinning, directories\<close>

definition get_node_cached :: "'d cache_driver \<Rightarrow> file_node_handle \<Rightarrow> ('d, file_node) cache_call" where
  "get_node_cached ops node_id = reading (\<lambda>c.
     case fx_get (fc_file_nodes c) node_id of
       Some node \<Rightarrow> ret node
     | None \<Rightarrow> bind (on_driver (cd_get_node ops node_id)) (\<lambda>node.
         bind (insert_node node_id node) (\<lambda>_. ret node)))"

definition flush_file :: "'d cache_driver \<Rightarrow> file_node_handle \<Rightarrow> ('d, unit) cache_call" where
  "flush_file ops node_id = reading (\<lambda>c.
     case fx_get (fc_files c) node_id of
       Some cached \<Rightarrow>
         if cf_is_dirty cached
         then bind (arena_slice (cf_arena_offset cached) (cf_len cached)) (\<lambda>data.
              bind (on_driver (cd_write_file ops node_id 0 data)) (\<lambda>_.
                update_file node_id (\<lambda>f. f\<lparr>cf_is_dirty := False\<rparr>)))
         else ret ()
     | None \<Rightarrow> ret ())"

primrec flush_nodes :: "'d cache_driver \<Rightarrow> file_node_handle list \<Rightarrow> ('d, unit) cache_call" where
  "flush_nodes ops [] = ret ()"
| "flush_nodes ops (node_id # node_ids) = bind (flush_file ops node_id) (\<lambda>_. flush_nodes ops node_ids)"

definition flush_all :: "'d cache_driver \<Rightarrow> ('d, unit) cache_call" where
  "flush_all ops = reading (\<lambda>c.
     flush_nodes ops (map fst (filter (\<lambda>(node_id, f). cf_is_dirty f) (fx_iter (fc_files c)))))"

definition pin_file :: "'d cache_driver \<Rightarrow> file_node_handle \<Rightarrow> ('d, unit) cache_call" where
  "pin_file ops node_id =
     bind (reading (\<lambda>c.
       if \<not> fx_contains_key (fc_files c) node_id
       then bind (on_driver (cd_file_size ops node_id)) (\<lambda>file_size.
         if file_size > 0 then bind (read_file_range ops node_id 0 []) (\<lambda>_. ret ()) else ret ())
       else ret ())) (\<lambda>_.
       update_file node_id (\<lambda>f. f\<lparr>cf_pinned := True, cf_importance := Resident\<rparr>))"

definition unpin_file :: "file_node_handle \<Rightarrow> ('d, unit) cache_call" where
  "unpin_file node_id = update_file node_id (\<lambda>f. f\<lparr>cf_pinned := False, cf_importance := Normal\<rparr>)"

primrec set_importance :: "cache_importance \<Rightarrow> file_node_handle list \<Rightarrow> ('d, unit) cache_call" where
  "set_importance importance [] = ret ()"
| "set_importance importance (child_id # children) =
     bind (update_file child_id (\<lambda>f. if \<not> cf_pinned f then f\<lparr>cf_importance := importance\<rparr> else f)) (\<lambda>_.
       set_importance importance children)"

definition reserve_cache :: "file_node_handle \<Rightarrow> cache_importance \<Rightarrow> ('d, unit) cache_call" where
  "reserve_cache node_id importance =
     bind (reading (\<lambda>c. stored (fx_insert (fc_directory_hints c) node_id importance)
            (\<lambda>m c. c\<lparr>fc_directory_hints := m\<rparr>))) (\<lambda>_. reading (\<lambda>c.
       case fx_get (fc_directory_children c) node_id of
         Some children \<Rightarrow> set_importance importance children
       | None \<Rightarrow> ret ()))"

primrec evict_children :: "file_node_handle list \<Rightarrow> nat \<Rightarrow> ('d, nat) cache_call" where
  \<comment> \<open>the memory in use is reduced by all that has been freed so far\<close>
  "evict_children [] freed = ret freed"
| "evict_children (child_id # children) freed = reading (\<lambda>c.
     case fx_get (fc_files c) child_id of
       Some cached \<Rightarrow>
         if \<not> cf_pinned cached
         then bind (usize_add freed (cf_len cached)) (\<lambda>freed.
              bind (modify (\<lambda>c. c\<lparr>fc_files := snd (fx_remove (fc_files c) child_id)\<rparr>)) (\<lambda>_.
              bind (sub_memory_used freed) (\<lambda>_.
                evict_children children freed)))
         else evict_children children freed
     | None \<Rightarrow> evict_children children freed)"

definition evict_directory :: "file_node_handle \<Rightarrow> ('d, nat) cache_call" where
  "evict_directory node_id = reading (\<lambda>c.
     case fx_remove (fc_directory_children c) node_id of (removed, m) \<Rightarrow>
     bind (modify (\<lambda>c. c\<lparr>fc_directory_children := m\<rparr>)) (\<lambda>_.
     bind (case removed of Some children \<Rightarrow> evict_children children 0 | None \<Rightarrow> ret 0) (\<lambda>freed.
     bind (modify (\<lambda>c. c\<lparr>fc_directory_hints := snd (fx_remove (fc_directory_hints c) node_id)\<rparr>)) (\<lambda>_.
       ret freed))))"

definition register_file_in_directory :: "file_node_handle \<Rightarrow> file_node_handle \<Rightarrow> ('d, unit) cache_call" where
  "register_file_in_directory dir_id file_id = reading (\<lambda>c.
     case fx_or_insert (fc_directory_children c) dir_id [] of
       Ok (children, m) \<Rightarrow> modify (\<lambda>c. c\<lparr>fc_directory_children := fx_modify m dir_id (\<lambda>children. children @ [file_id])\<rparr>)
     | Diverge \<Rightarrow> diverge
     | _ \<Rightarrow> panic)"

definition is_cached :: "'d file_cache \<Rightarrow> file_node_handle \<Rightarrow> bool" where
  "is_cached c node_id = fx_contains_key (fc_files c) node_id"

definition stats :: "'d file_cache \<Rightarrow> cache_stats" where
  "stats c = \<lparr>total_files = fx_len (fc_files c), total_bytes = fc_memory_used c, max_bytes = fc_max_memory c,
     dirty_files = length (filter cf_is_dirty (fx_values (fc_files c)))\<rparr>"

definition invalidate :: "file_node_handle \<Rightarrow> ('d, unit) cache_call" where
  "invalidate node_id =
     bind (reading (\<lambda>c. case fx_remove (fc_files c) node_id of (removed, m) \<Rightarrow>
       case removed of
         Some cached \<Rightarrow> bind (modify (\<lambda>c. c\<lparr>fc_files := m\<rparr>)) (\<lambda>_. sub_memory_used (cf_len cached))
       | None \<Rightarrow> ret ())) (\<lambda>_.
       modify (\<lambda>c. c\<lparr>fc_file_nodes := snd (fx_remove (fc_file_nodes c) node_id)\<rparr>))"

definition cache_clear :: "('d, unit) cache_call" where
  "cache_clear = modify (\<lambda>c. c\<lparr>fc_files := fx_clear (fc_files c),
     fc_directory_children := fx_clear (fc_directory_children c), fc_directory_hints := fx_clear (fc_directory_hints c),
     fc_memory_used := 0, fc_push_offset := 0\<rparr>)"

end
