(* ===== verification/Sirius.thy ===== *)
theory Sirius
  imports File_Cache Fat32
begin

text \<open>
  The file system interface of the kernel (\<open>filesystem/sirius.rs\<close>). The trait
  \<open>FilesystemDriver\<close> is a record of operations over a driver state; the FAT32 driver and the
  cached driver are its two implementations, and \<open>FsDriverAdapter\<close> turns a driver into the one
  the file cache calls. \<open>Sirius\<close> resolves paths and checks node types in front of any driver.
  A \<open>Sirius\<close> value is nothing but its driver, so the state of the operations is that of the
  driver; the in-memory part of a FAT32 driver never changes and its state is the disk.
\<close>

section \<open>Drivers\<close>

record 'd fs_driver =
  drv_read_file :: "file_node_handle \<Rightarrow> nat \<Rightarrow> u8 list \<Rightarrow> ('d, file_system_error, nat \<times> u8 list) call"
  drv_write_file :: "file_node_handle \<Rightarrow> nat \<Rightarrow> u8 list \<Rightarrow> ('d, file_system_error, nat) call"
  drv_find_node :: "str \<Rightarrow> ('d, file_system_error, file_node_handle) call"
  drv_get_node :: "file_node_handle \<Rightarrow> ('d, file_system_error, file_node) call"
  drv_list_directory :: "file_node_handle \<Rightarrow> ('d, file_system_error, file_node list) call"
  drv_create_file :: "file_node_handle \<Rightarrow> str \<Rightarrow> ('d, file_system_error, file_node_handle) call"
  drv_create_directory :: "file_node_handle \<Rightarrow> str \<Rightarrow> ('d, file_system_error, file_node_handle) call"
  drv_delete :: "file_node_handle \<Rightarrow> ('d, file_system_error, unit) call"
  drv_root_node :: "file_node_handle"

definition fat32_fs :: "'d disk_ops \<Rightarrow> fat32_driver \<Rightarrow> 'd fs_driver" where
  "fat32_fs ops drv =
     \<lparr>drv_read_file = fat_read_file ops drv, drv_write_file = fat_write_file ops drv,
      drv_find_node = fat_find_node ops drv, drv_get_node = fat_get_node ops drv,
      drv_list_directory = fat_list_directory ops drv, drv_create_file = fat_create_file ops drv,
      drv_create_directory = fat_create_directory ops drv, drv_delete = fat_delete ops drv,
      drv_root_node = fat_root_node drv\<rparr>"

text \<open>\<open>FsDriverAdapter\<close>: the errors of the driver are replaced.\<close>

definition replace_err :: "file_system_error \<Rightarrow> ('d, file_system_error, 'a) call \<Rightarrow> ('d, file_system_error, 'a) call" where
  "replace_err e m = (\<lambda>d. case m d of (r, d') \<Rightarrow> (map_err (\<lambda>_. e) r, d'))"

definition adapter :: "'d fs_driver \<Rightarrow> 'd cache_driver" where
  "adapter drv =
     \<lparr>cd_read_file_into = (\<lambda>node_id out. replace_err IoError (drv_read_file drv node_id 0 out)),
      cd_write_file = (\<lambda>node_id offset data. replace_err IoError (drv_write_file drv node_id offset data)),
      cd_file_size = (\<lambda>node_id. replace_err NotFound (bind (drv_get_node drv node_id) (\<lambda>n. ret (fn_size n)))),
      cd_read_dir = (\<lambda>node_id. bind (replace_err IoError (drv_list_directory drv node_id)) (\<lambda>nodes. ret (map fn_name nodes))),
      cd_get_node = (\<lambda>node_id. replace_err IoError (drv_get_node drv node_id))\<rparr>"

section \<open>The cached driver\<close>

definition cached_pin_file :: "'d fs_driver \<Rightarrow> str \<Rightarrow> ('d, unit) cache_call" where
  "cached_pin_file drv path = bind (on_driver (drv_find_node drv path)) (\<lambda>node_id. pin_file (adapter drv) node_id)"

definition cached_unpin_file :: "'d fs_driver \<Rightarrow> str \<Rightarrow> ('d, unit) cache_call" where
  "cached_unpin_file drv path = bind (on_driver (drv_find_node drv path)) (\<lambda>node_id. unpin_file node_id)"

definition cached_reserve_cache :: "'d fs_driver \<Rightarrow> str \<Rightarrow> cache_importance \<Rightarrow> ('d, unit) cache_call" where
  "cached_reserve_cache drv path importance =
     bind (on_driver (drv_find_node drv path)) (\<lambda>node_id. reserve_cache node_id importance)"

definition cached_evict_directory :: "'d fs_driver \<Rightarrow> str \<Rightarrow> ('d, nat) cache_call" where
  "cached_evict_directory drv path = bind (on_driver (drv_find_node drv path)) (\<lambda>node_id. evict_directory node_id)"

definition cached_delete :: "'d fs_driver \<Rightarrow> file_node_handle \<Rightarrow> ('d, unit) cache_call" where
  "cached_delete drv node_id = bind (invalidate node_id) (\<lambda>_. on_driver (drv_delete drv node_id))"

definition cached_fs :: "nat \<Rightarrow> 'd fs_driver \<Rightarrow> 'd file_cache fs_driver" where
  \<comment> \<open>\<open>now\<close> is the time \<open>write_file\<close> of the cache reads from the clock\<close>
  "cached_fs now drv =
     \<lparr>drv_read_file = read_file_range (adapter drv), drv_write_file = cache_write_file (adapter drv) now,
      drv_find_node = (\<lambda>path. on_driver (drv_find_node drv path)), drv_get_node = get_node_cached (adapter drv),
      drv_list_directory = (\<lambda>node_id. on_driver (drv_list_directory drv node_id)),
      drv_create_file = (\<lambda>parent_id name. on_driver (drv_create_file drv parent_id name)),
      drv_create_directory = (\<lambda>parent_id name. on_driver (drv_create_directory drv parent_id name)),
      drv_delete = cached_delete drv, drv_root_node = drv_root_node drv\<rparr>"

section \<open>Sirius\<close>

definition resolve_path :: "'d fs_driver \<Rightarrow> str \<Rightarrow> ('d, file_system_error, file_node) call" where
  "resolve_path drv path = bind (drv_find_node drv path) (\<lambda>node_id. drv_get_node drv node_id)"

definition open_file :: "'d fs_driver \<Rightarrow> str \<Rightarrow> ('d, file_system_error, file_node) call" where
  "open_file drv path = bind (resolve_path drv path) (\<lambda>node.
     if fn_file_type node = File then ret node else fail IsDirectory)"

definition list_directory :: "'d fs_driver \<Rightarrow> str \<Rightarrow> ('d, file_system_error, file_node list) call" where
  "list_directory drv path = bind (resolve_path drv path) (\<lambda>node.
     if fn_file_type node = Directory then drv_list_directory drv (fn_node_id node) else fail NotDirectory)"

definition sirius_read_file :: "'d fs_driver \<Rightarrow> str \<Rightarrow> nat \<Rightarrow> u8 list \<Rightarrow> ('d, file_system_error, nat \<times> u8 list) call" where
  "sirius_read_file drv path offset buffer = bind (resolve_path drv path) (\<lambda>node.
     if fn_file_type node \<noteq> File then fail IsDirectory
     else drv_read_file drv (fn_node_id node) offset buffer)"

definition sirius_write_file :: "'d fs_driver \<Rightarrow> str \<Rightarrow> nat \<Rightarrow> u8 list \<Rightarrow> ('d, file_system_error, nat) call" where
  "sirius_write_file drv path offset data = bind (resolve_path drv path) (\<lambda>node.
     if fn_file_type node \<noteq> File then fail IsDirectory
     else drv_write_file drv (fn_node_id node) offset data)"

definition split_path :: "str \<Rightarrow> (file_system_error, str \<times> str) outcome" where
  "split_path path =
     (if path = [] \<or> path = [0x2F] then Err InvalidPath
      else let trimmed = (if hd path = 0x2F then tl path else path) in
        case str_rfind 0x2F trimmed of
          Some pos \<Rightarrow> Ok (if pos = 0 then [0x2F] else take pos trimmed, drop (pos + 1) trimmed)
        | None \<Rightarrow> Ok ([0x2F], trimmed))"

definition create_file :: "'d fs_driver \<Rightarrow> str \<Rightarrow> ('d, file_system_error, file_node) call" where
  "create_file drv path =
     bind (lift_outcome (split_path path)) (\<lambda>(parent_path, name).
     bind (resolve_path drv parent_path) (\<lambda>parent.
     if fn_file_type parent \<noteq> Directory then fail NotDirectory
     else bind (drv_create_file drv (fn_node_id parent) name) (\<lambda>node_id. drv_get_node drv node_id)))"

definition create_directory :: "'d fs_driver \<Rightarrow> str \<Rightarrow> ('d, file_system_error, file_node) call" where
  "create_directory drv path =
     bind (lift_outcome (split_path path)) (\<lambda>(parent_path, name).
     bind (resolve_path drv parent_path) (\<lambda>parent.
     if fn_file_type parent \<noteq> Directory then fail NotDirectory
     else bind (drv_create_directory drv (fn_node_id parent) name) (\<lambda>node_id. drv_get_node drv node_id)))"

definition sirius_delete :: "'d fs_driver \<Rightarrow> str \<Rightarrow> ('d, file_system_error, unit) call" where
  "sirius_delete drv path = bind (resolve_path drv path) (\<lambda>node. drv_delete drv (fn_node_id node))"

section \<open>Mounting\<close>

text \<open>
  Mounting runs once, at boot; the result is the driver and the cache in front of the disk. The
  ATA drive found on the bus is a parameter, \<open>None\<close> when there is none.
\<close>

definition mount_cached :: "u8 list \<Rightarrow> nat \<Rightarrow> string \<Rightarrow> 'd \<Rightarrow> (string, fat32_driver \<times> 'd file_cache) outcome" where
  "mount_cached boot_sector cache_size msg disk =
     and_then (map_err (\<lambda>_. msg) (fat32_new boot_sector)) (\<lambda>drv.
     and_then (map_err (\<lambda>_. msg) (file_cache_new disk cache_size)) (\<lambda>cache. Ok (drv, cache)))"

definition init_filesystem :: "u8 list \<Rightarrow> (string, fat32_driver \<times> mock_disk file_cache) outcome" where
  "init_filesystem fat32_image =
     (case mock_load_image fat32_image (mock_new (length fat32_image div 512 + 1)) of
        (Ok _, disk) \<Rightarrow>
          if length fat32_image < 512 then Panic
          else mount_cached (take 512 fat32_image) FS_CACHE_SIZE ''Failed to initialize FAT32 driver'' disk
      | (Err _, _) \<Rightarrow> Err ''Failed to load disk image''
      | (Panic, _) \<Rightarrow> Panic
      | (Diverge, _) \<Rightarrow> Diverge)"

definition init_filesystem_ata_with_cache :: "'d disk_ops \<Rightarrow> 'd option \<Rightarrow> nat \<Rightarrow> (string, fat32_driver \<times> 'd file_cache) outcome" where
  "init_filesystem_ata_with_cache ops ata_driver cache_size =
     (case ata_driver of
        None \<Rightarrow> Err ''No ATA drive found on primary bus''
      | Some disk \<Rightarrow>
          (case mgr_read_sector ops 0 (replicate SECTOR_SIZE 0) disk of
             (Ok boot_sector_buf, disk) \<Rightarrow>
               mount_cached boot_sector_buf cache_size ''Failed to initialize FAT32 driver from ATA'' disk
           | (Err _, _) \<Rightarrow> Err ''Failed to read boot sector from ATA drive''
           | (Panic, _) \<Rightarrow> Panic
           | (Diverge, _) \<Rightarrow> Diverge))"

definition init_filesystem_ata :: "'d disk_ops \<Rightarrow> 'd option \<Rightarrow> (string, fat32_driver \<times> 'd file_cache) outcome" where
  "init_filesystem_ata ops ata_driver = init_filesystem_ata_with_cache ops ata_driver FS_CACHE_SIZE"

end
