(* ===== verification/File_Cache_Inv.thy ===== *)
theory File_Cache_Inv
  imports File_Cache "HOL-Library.Multiset"
begin

text \<open>
  What the file cache promises: a view of the file system in which a cached file has its cached
  bytes and every other file the bytes of the driver. The invariant says that cached files lie
  side by side in the used part of the arena, that a clean file agrees with the driver, and that
  the memory count is the sum of the lengths. The lemmas cover the arena, eviction and making room.
\<close>

section \<open>The driver below\<close>

text \<open>
  What the cache relies on, for the files \<open>disk\<close> says that exist: size, contents and node of a
  file can be read and reading changes nothing; writing at the start of a file replaces its first
  bytes and touches no other file, and a failing write leaves some contents that are not longer
  than the ones before or the data.
\<close>

definition driver_ok :: "'d cache_driver \<Rightarrow> ('d \<Rightarrow> file_node_handle \<Rightarrow> u8 list option) \<Rightarrow> bool" where
  "driver_ok ops disk \<longleftrightarrow> (\<forall>d h bs. disk d h = Some bs \<longrightarrow> length bs < 2 ^ 63
     \<and> (\<exists>d'. cd_file_size ops h d = (Ok (length bs), d') \<and> disk d' = disk d)
     \<and> (\<forall>buf. length bs \<le> length buf \<longrightarrow>
          (\<exists>d'. cd_read_file_into ops h buf d = (Ok (length bs, blit 0 bs buf), d') \<and> disk d' = disk d))
     \<and> (\<exists>node d'. cd_get_node ops h d = (Ok node, d') \<and> disk d' = disk d)
     \<and> (\<forall>data. \<exists>r d' bs'. cd_write_file ops h 0 data d = (r, d') \<and> disk d' = (disk d)(h \<mapsto> bs')
          \<and> (r = Ok (length data) \<and> bs' = data @ drop (length data) bs
             \<or> (\<exists>e. r = Err e) \<and> length bs' \<le> max (length bs) (length data))))"

definition cached_bytes :: "u8 list \<Rightarrow> cached_file \<Rightarrow> u8 list" where
  "cached_bytes arena f = chunk (cf_arena_offset f) (cf_len f) arena"

definition fs_view :: "('d \<Rightarrow> file_node_handle \<Rightarrow> u8 list option) \<Rightarrow> 'd file_cache \<Rightarrow> file_node_handle \<Rightarrow> u8 list option" where
  "fs_view disk c h =
     (case fx_map (fc_files c) h of
        Some f \<Rightarrow> Some (cached_bytes (fc_arena c) f)
      | None \<Rightarrow> disk (fc_driver c) h)"

section \<open>The invariant\<close>

text \<open>The laws of the list of cached files are stated on the finite map it stands for.\<close>

definition file_apart :: "cached_file \<Rightarrow> cached_file \<Rightarrow> bool" where
  \<comment> \<open>an empty file has no place of its own\<close>
  "file_apart f g \<longleftrightarrow> cf_len f = 0 \<or> cf_len g = 0 \<or> cf_arena_offset f + cf_len f \<le> cf_arena_offset g
     \<or> cf_arena_offset g + cf_len g \<le> cf_arena_offset f"

definition placed :: "nat \<Rightarrow> (file_node_handle \<rightharpoonup> cached_file) \<Rightarrow> bool" where
  "placed push m \<longleftrightarrow> finite (dom m)
     \<and> (\<forall>h f. m h = Some f \<longrightarrow> h \<noteq> INVALID_NODE_HANDLE \<and> cf_arena_offset f + cf_len f \<le> push)
     \<and> (\<forall>h f k g. m h = Some f \<longrightarrow> m k = Some g \<longrightarrow> h \<noteq> k \<longrightarrow> file_apart f g)"

definition total_len :: "(file_node_handle \<rightharpoonup> cached_file) \<Rightarrow> nat" where
  "total_len m = (\<Sum>h\<in>dom m. cf_len (the (m h)))"

definition backed :: "(file_node_handle \<Rightarrow> u8 list option) \<Rightarrow> u8 list \<Rightarrow> (file_node_handle \<rightharpoonup> cached_file) \<Rightarrow> bool" where
  "backed stored_bytes arena m \<longleftrightarrow> (\<forall>h f. m h = Some f \<longrightarrow>
     (\<exists>bs. stored_bytes h = Some bs \<and> length bs \<le> cf_len f \<and> (cf_is_dirty f \<or> bs = cached_bytes arena f)))"

definition cache_inv :: "('d \<Rightarrow> file_node_handle \<Rightarrow> u8 list option) \<Rightarrow> 'd file_cache \<Rightarrow> bool" where
  "cache_inv disk c \<longleftrightarrow> fx_inv (fc_files c) \<and> fx_inv (fc_file_nodes c)
     \<and> length (fc_arena c) = fc_max_memory c \<and> fc_max_memory c < 2 ^ 63 \<and> fc_push_offset c \<le> fc_max_memory c
     \<and> placed (fc_push_offset c) (fx_map (fc_files c))
     \<and> fc_memory_used c = total_len (fx_map (fc_files c))
     \<and> backed (disk (fc_driver c)) (fc_arena c) (fx_map (fc_files c))"

lemma total_len_remove:
  assumes "finite (dom m)" "m h = Some f"
  shows "total_len m = cf_len f + total_len (m(h := None))"
proof -
  have h: "h \<in> dom m" using assms(2) by blast
  have "(\<Sum>k\<in>dom m - {h}. cf_len (the (m k))) = total_len (m(h := None))"
    unfolding total_len_def by (rule sum.cong) auto
  moreover have "total_len m = cf_len (the (m h)) + (\<Sum>k\<in>dom m - {h}. cf_len (the (m k)))"
    unfolding total_len_def by (rule sum.remove [OF assms(1) h])
  ultimately show ?thesis using assms(2) by simp
qed

lemma total_len_insert:
  assumes "finite (dom m)" "m h = None"
  shows "total_len (m(h \<mapsto> f)) = cf_len f + total_len m"
proof -
  have eq: "(m(h \<mapsto> f))(h := None) = m" using assms(2) by auto
  from total_len_remove [of "m(h \<mapsto> f)" h f] assms(1) show ?thesis unfolding eq by simp
qed

lemma total_len_update:
  assumes "finite (dom m)" "m h = Some f"
  shows "total_len (m(h \<mapsto> g)) + cf_len f = total_len m + cf_len g"
  using total_len_remove [OF assms] total_len_remove [of "m(h \<mapsto> g)" h g] assms(1) by simp

lemma total_len_below:
  assumes "finite (dom m)" "\<And>h f. m h = Some f \<Longrightarrow> cf_len f = 0 \<or> cf_arena_offset f + cf_len f \<le> bound"
    and "\<And>h f k g. m h = Some f \<Longrightarrow> m k = Some g \<Longrightarrow> h \<noteq> k \<Longrightarrow> file_apart f g"
  shows "total_len m \<le> bound"
proof -
  let ?I = "\<lambda>h. {cf_arena_offset (the (m h)) ..< cf_arena_offset (the (m h)) + cf_len (the (m h))}"
  have "total_len m = (\<Sum>h\<in>dom m. card (?I h))" by (simp add: total_len_def)
  also have "\<dots> = card (\<Union>h\<in>dom m. ?I h)"
  proof (rule card_UN_disjoint [symmetric])
    show "\<forall>h\<in>dom m. \<forall>k\<in>dom m. h \<noteq> k \<longrightarrow> ?I h \<inter> ?I k = {}"
    proof (intro ballI impI)
      fix h k assume "h \<in> dom m" "k \<in> dom m" "h \<noteq> k"
      then obtain f g where "m h = Some f" "m k = Some g" by blast
      with assms(3) [of h f k g] \<open>h \<noteq> k\<close> show "?I h \<inter> ?I k = {}" by (auto simp: file_apart_def)
    qed
  qed (use assms(1) in auto)
  also have "\<dots> \<le> card {..<bound}"
  proof (rule card_mono)
    show "(\<Union>h\<in>dom m. ?I h) \<subseteq> {..<bound}" using assms(2) by force
  qed simp
  finally show ?thesis by simp
qed

lemma total_len_le: "placed push m \<Longrightarrow> total_len m \<le> push"
  by (rule total_len_below) (auto simp: placed_def)

lemma placedD:
  assumes "placed push m" "m h = Some f"
  shows "h \<noteq> INVALID_NODE_HANDLE" "cf_arena_offset f + cf_len f \<le> push"
    "m k = Some g \<Longrightarrow> h \<noteq> k \<Longrightarrow> file_apart f g"
  using assms by (auto simp: placed_def)

lemma placed_remove: "placed push m \<Longrightarrow> placed push (m(h := None))"
  by (auto simp: placed_def)

lemma placed_insert:
  assumes "placed push m" "h \<noteq> INVALID_NODE_HANDLE" "push \<le> cf_arena_offset f" "cf_arena_offset f + cf_len f \<le> push'"
  shows "placed push' (m(h \<mapsto> f))"
proof -
  have low: "cf_arena_offset g + cf_len g \<le> push" if "m k = Some g" for k g using assms(1) that by (auto simp: placed_def)
  have "finite (dom (m(h \<mapsto> f)))" using assms(1) by (simp add: placed_def)
  moreover have "k \<noteq> INVALID_NODE_HANDLE \<and> cf_arena_offset g + cf_len g \<le> push'" if "(m(h \<mapsto> f)) k = Some g" for k g
    using that assms low by (auto simp: placed_def split: if_splits) fastforce
  moreover have "file_apart g g'" if "(m(h \<mapsto> f)) k = Some g" "(m(h \<mapsto> f)) k' = Some g'" "k \<noteq> k'" for k g k' g'
    using that assms(1,3) low by (auto simp: placed_def file_apart_def split: if_splits) (meson le_trans)+
  ultimately show ?thesis by (auto simp: placed_def)
qed

lemma finite_fx_map [simp]: "finite (dom (fx_map m))"
  by (simp add: fx_map_def finite_dom_map_of)

text \<open>A map with a free slot accepts a new key, also after removals and changes in place.\<close>

definition spare_slot :: "'v fxmap \<Rightarrow> bool" where
  "spare_slot m \<longleftrightarrow> (\<exists>i < length (fx_slots m). fx_slots m ! i = Empty) \<and> length (fx_slots m) < 2 ^ 62"

lemma spare_slot_accepts: "spare_slot m \<Longrightarrow> fx_accepts m key"
  by (auto simp: spare_slot_def fx_accepts_def fx_room_def)

lemma spare_slot_put:
  assumes "spare_slot m" "fx_slots m ! i = Occupied key v"
  shows "spare_slot (m\<lparr>fx_slots := (fx_slots m)[i := s]\<rparr>)"
proof -
  from assms(1) obtain j where j: "j < length (fx_slots m)" "fx_slots m ! j = Empty" by (auto simp: spare_slot_def)
  with assms(2) have "(fx_slots m)[i := s] ! j = Empty" by (cases "j = i") auto
  with assms(1) j(1) show ?thesis by (auto simp: spare_slot_def)
qed

lemma spare_slot_modify: "fx_inv m \<Longrightarrow> spare_slot m \<Longrightarrow> spare_slot (fx_modify m key f)"
  using fx_find_spec(2) [of m key] spare_slot_put by (fastforce simp: fx_modify_def fx_inv_def split: option.splits prod.splits)

lemma spare_slot_remove: "fx_inv m \<Longrightarrow> spare_slot m \<Longrightarrow> fx_remove m key = (r, m') \<Longrightarrow> spare_slot m'"
  using fx_find_spec(2) [of m key] spare_slot_put [of m _ key _ Dead]
  by (fastforce simp: fx_remove_def fx_inv_def spare_slot_def split: option.splits prod.splits)

section \<open>Compaction\<close>

lemma chunk_drop_eq: "drop n xs = drop n ys \<Longrightarrow> n \<le> i \<Longrightarrow> chunk i l xs = chunk i l ys"
  by (metis chunk_def drop_drop le_add_diff_inverse2)

lemma chunk_take_eq:
  assumes "take n xs = take n ys" "i + l \<le> n"
  shows "chunk i l xs = chunk i l ys"
proof -
  have "chunk i l zs = chunk i l (take n zs)" for zs :: "'a list"
    using assms(2) by (simp add: chunk_def drop_take min_def)
  with assms(1) show ?thesis by metis
qed

lemma take_blit: "i \<le> length xs \<Longrightarrow> take i (blit i ys xs) = take i xs"
  by (simp add: blit_def)

lemma drop_blit: "i + length ys \<le> length xs \<Longrightarrow> drop (i + length ys) (blit i ys xs) = drop (i + length ys) xs"
  by (simp add: blit_def)

fun laid :: "nat \<Rightarrow> (file_node_handle \<times> nat \<times> nat) list \<Rightarrow> bool" where
  \<comment> \<open>the entries that are not empty follow each other from \<open>w\<close> on\<close>
  "laid w [] \<longleftrightarrow> True"
| "laid w ((h, off, len) # live) \<longleftrightarrow> (if len = 0 then laid w live else w \<le> off \<and> laid (off + len) live)"

definition lens :: "(file_node_handle \<times> nat \<times> nat) list \<Rightarrow> nat" where
  "lens live = sum_list (map (\<lambda>(h, off, len). len) live)"

lemma lens_simps [simp]: "lens [] = 0" "lens ((h, off, len) # live) = len + lens live" "lens (xs @ ys) = lens xs + lens ys"
  by (simp_all add: lens_def)

lemma laid_mono: "laid v live \<Longrightarrow> w \<le> v \<Longrightarrow> laid w live"
  by (induction live arbitrary: v w) (auto split: if_splits)

definition lists_files :: "(file_node_handle \<rightharpoonup> cached_file) \<Rightarrow> nat \<Rightarrow> (file_node_handle \<times> nat \<times> nat) list \<Rightarrow> bool" where
  "lists_files m n live \<longleftrightarrow> distinct (map fst live) \<and> (\<forall>(h, off, len) \<in> set live. off + len \<le> n
     \<and> (\<exists>f. m h = Some f \<and> cf_arena_offset f = off \<and> cf_len f = len))"

text \<open>
  What a run of the loop over \<open>live\<close> from \<open>w\<close> to \<open>w'\<close> has done: the listed files lie side by side
  between the two offsets with their old contents, and nothing else has changed.
\<close>

definition repacked :: "'d file_cache \<Rightarrow> (file_node_handle \<times> nat \<times> nat) list \<Rightarrow> nat \<Rightarrow> 'd file_cache \<Rightarrow> nat \<Rightarrow> bool" where
  "repacked c live w c' w' \<longleftrightarrow> c' = c\<lparr>fc_arena := fc_arena c', fc_files := fc_files c'\<rparr> \<and> fx_inv (fc_files c')
     \<and> (spare_slot (fc_files c) \<longrightarrow> spare_slot (fc_files c'))
     \<and> length (fc_arena c') = length (fc_arena c) \<and> w' = w + lens live
     \<and> take w (fc_arena c') = take w (fc_arena c) \<and> drop w' (fc_arena c') = drop w' (fc_arena c)
     \<and> (\<forall>h. h \<notin> fst ` set live \<longrightarrow> fx_map (fc_files c') h = fx_map (fc_files c) h)
     \<and> (\<forall>(h, off, len) \<in> set live. \<exists>off'. fx_map (fc_files c') h = Some ((the (fx_map (fc_files c) h))\<lparr>cf_arena_offset := off'\<rparr>)
          \<and> w \<le> off' \<and> off' + len \<le> w' \<and> chunk off' len (fc_arena c') = chunk off len (fc_arena c))
     \<and> (\<forall>h \<in> fst ` set live. \<forall>k \<in> fst ` set live. h \<noteq> k \<longrightarrow>
          file_apart (the (fx_map (fc_files c') h)) (the (fx_map (fc_files c') k)))"

lemma arena_calls:
  "start + n \<le> length (fc_arena c) \<Longrightarrow> arena_slice start n c = (Ok (chunk start n (fc_arena c)), c)"
  "start + length data \<le> length (fc_arena c) \<Longrightarrow> arena_store start data c = (Ok (), c\<lparr>fc_arena := blit start data (fc_arena c)\<rparr>)"
  by (simp_all add: arena_slice_def arena_store_def outcome_simps)

lemma arena_copy_within_Ok:
  "start + n \<le> length (fc_arena c) \<Longrightarrow> dest + n \<le> length (fc_arena c) \<Longrightarrow>
   arena_copy_within start n dest c = (Ok (), c\<lparr>fc_arena := blit dest (chunk start n (fc_arena c)) (fc_arena c)\<rparr>)"
  by (simp add: arena_copy_within_def bind_Ok [OF arena_calls(1)] arena_calls(2))

definition compact_step :: "file_node_handle \<Rightarrow> nat \<Rightarrow> nat \<Rightarrow> nat \<Rightarrow> 'd file_cache \<Rightarrow> 'd file_cache" where
  "compact_step h off len w c =
     (if off = w then c
      else c\<lparr>fc_arena := blit w (chunk off len (fc_arena c)) (fc_arena c),
             fc_files := fx_modify (fc_files c) h (\<lambda>f. f\<lparr>cf_arena_offset := w\<rparr>)\<rparr>)"

lemma compact_loop_Cons:
  assumes "off + len \<le> length (fc_arena c)" "w + len \<le> length (fc_arena c)" "length (fc_arena c) < 2 ^ 63"
  shows "compact_loop ((h, off, len) # live) w c = compact_loop live (w + len) (compact_step h off len w c)"
  using assms by (simp add: compact_step_def bind_def arena_copy_within_Ok update_file_def usize_add_def outcome_simps)

lemma compact_step_props:
  assumes "fx_inv (fc_files c)" "fx_map (fc_files c) h = Some f" "cf_arena_offset f = off"
    and "off + len \<le> length (fc_arena c)" "w + len \<le> length (fc_arena c)"
  defines "c' \<equiv> compact_step h off len w c"
  shows "c' = c\<lparr>fc_arena := fc_arena c', fc_files := fc_files c'\<rparr>" "fx_inv (fc_files c')"
    "length (fc_arena c') = length (fc_arena c)" "take w (fc_arena c') = take w (fc_arena c)"
    "drop (w + len) (fc_arena c') = drop (w + len) (fc_arena c)"
    "chunk w len (fc_arena c') = chunk off len (fc_arena c)"
    "fx_map (fc_files c') = (fx_map (fc_files c))(h \<mapsto> f\<lparr>cf_arena_offset := w\<rparr>)"
    "spare_slot (fc_files c) \<Longrightarrow> spare_slot (fc_files c')"
proof -
  have len: "length (chunk off len (fc_arena c)) = len" using assms(4) by simp
  show "chunk w len (fc_arena c') = chunk off len (fc_arena c)"
    using chunk_blit_same [of w "chunk off len (fc_arena c)" "fc_arena c"] len assms(5)
    by (simp add: c'_def compact_step_def)
  show "drop (w + len) (fc_arena c') = drop (w + len) (fc_arena c)"
    using drop_blit [of w "chunk off len (fc_arena c)" "fc_arena c"] len assms(5)
    by (simp add: c'_def compact_step_def)
  have same: "f\<lparr>cf_arena_offset := off\<rparr> = f" using assms(3) by auto
  show "fx_map (fc_files c') = (fx_map (fc_files c))(h \<mapsto> f\<lparr>cf_arena_offset := w\<rparr>)"
    using fx_modify_spec(2) [OF assms(1), of h "\<lambda>f. f\<lparr>cf_arena_offset := w\<rparr>"] assms(2) same
    by (auto simp: c'_def compact_step_def fun_upd_idem)
qed (use assms in \<open>auto simp: c'_def compact_step_def fx_modify_spec take_blit spare_slot_modify\<close>)

lemma lists_files_Cons:
  assumes "lists_files m n ((h, off, len) # live)"
  obtains f where "m h = Some f" "cf_arena_offset f = off" "cf_len f = len" "off + len \<le> n"
    "h \<notin> fst ` set live" "lists_files m n live"
  using assms by (auto simp: lists_files_def image_iff)

lemma lists_files_cong:
  assumes "lists_files m n live" "\<And>h. h \<in> fst ` set live \<Longrightarrow> m' h = m h"
  shows "lists_files m' n live"
  using assms(1) assms(2) [OF image_eqI] by (fastforce simp: lists_files_def)

lemma laid_above: "laid v live \<Longrightarrow> (h, off, len) \<in> set live \<Longrightarrow> len = 0 \<or> v \<le> off"
  by (induction live arbitrary: v) (fastforce split: if_splits)+

lemma compact_loop_spec:
  assumes "fx_inv (fc_files c)" "length (fc_arena c) < 2 ^ 63" "laid v live" "w \<le> v"
    and "lists_files (fx_map (fc_files c)) (length (fc_arena c)) live" "w + lens live \<le> length (fc_arena c)"
  shows "\<exists>c' w'. compact_loop live w c = (Ok w', c') \<and> repacked c live w c' w'"
  using assms
proof (induction live arbitrary: c v w)
  case Nil
  then show ?case by (simp add: repacked_def outcome_simps)
next
  case (Cons e live)
  obtain h off len where e: "e = (h, off, len)" by (cases e)
  obtain f where f: "fx_map (fc_files c) h = Some f" "cf_arena_offset f = off" "cf_len f = len"
    "off + len \<le> length (fc_arena c)" "h \<notin> fst ` set live" "lists_files (fx_map (fc_files c)) (length (fc_arena c)) live"
    using Cons.prems(5) unfolding e by (rule lists_files_Cons)
  have room: "w + len \<le> length (fc_arena c)" "w + len + lens live \<le> length (fc_arena c)" using Cons.prems(6) e by auto
  define c1 where "c1 = compact_step h off len w c"
  note p = compact_step_props [OF Cons.prems(1) f(1,2,4) room(1), folded c1_def]
  have laid1: "laid (w + len) live"
    using Cons.prems(3,4) laid_mono [of _ live] unfolding e by (auto split: if_splits)
  have "lists_files (fx_map (fc_files c1)) (length (fc_arena c1)) live"
    unfolding p(3) by (rule lists_files_cong [OF f(6)]) (use p(7) f(5) in auto)
  with Cons.IH [of c1 "w + len" "w + len"] p(2,3) room(2) Cons.prems(2) laid1
  obtain c' w' where run: "compact_loop live (w + len) c1 = (Ok w', c')" and r: "repacked c1 live (w + len) c' w'"
    by auto
  have h': "fx_map (fc_files c') h = Some (f\<lparr>cf_arena_offset := w\<rparr>)"
    using r f(5) p(7) by (simp add: repacked_def)
  have w': "w' = w + len + lens live" and take': "take (w + len) (fc_arena c') = take (w + len) (fc_arena c1)"
    using r by (simp_all add: repacked_def)
  have other: "\<exists>off'. fx_map (fc_files c') k = Some ((the (fx_map (fc_files c) k))\<lparr>cf_arena_offset := off'\<rparr>)
      \<and> w + len \<le> off' \<and> off' + len' \<le> w' \<and> chunk off' len' (fc_arena c') = chunk koff len' (fc_arena c)"
    if k: "(k, koff, len') \<in> set live" for k koff len'
  proof -
    obtain off' where k': "fx_map (fc_files c') k = Some ((the (fx_map (fc_files c1) k))\<lparr>cf_arena_offset := off'\<rparr>)"
      "w + len \<le> off'" "off' + len' \<le> w'" "chunk off' len' (fc_arena c') = chunk koff len' (fc_arena c1)"
      using r k by (fastforce simp: repacked_def)
    have "k \<noteq> h" using f(5) k by force
    moreover have "chunk koff len' (fc_arena c1) = chunk koff len' (fc_arena c)"
      using laid_above [OF laid1 k] chunk_drop_eq [OF p(5)] by (auto simp: chunk_def)
    ultimately show ?thesis using k' p(7) by auto
  qed
  have here: "chunk w len (fc_arena c') = chunk off len (fc_arena c)"
    using chunk_take_eq [OF take'] p(6) by simp
  have apart: "file_apart (the (fx_map (fc_files c') h)) (the (fx_map (fc_files c') k))
      \<and> file_apart (the (fx_map (fc_files c') k)) (the (fx_map (fc_files c') h))" if "k \<in> fst ` set live" for k
  proof -
    from that obtain koff klen where "(k, koff, klen) \<in> set live" by force
    from other [OF this] obtain o' where "the (fx_map (fc_files c') k) = (the (fx_map (fc_files c) k))\<lparr>cf_arena_offset := o'\<rparr>"
      "w + len \<le> o'" by auto
    with h' f(3) show ?thesis by (simp add: file_apart_def)
  qed
  have "repacked c ((h, off, len) # live) w c' w'"
    unfolding repacked_def
  proof (intro conjI)
    show "c' = c\<lparr>fc_arena := fc_arena c', fc_files := fc_files c'\<rparr>"
      using r p(1) by (cases c; cases c1; cases c') (simp add: repacked_def)
    show "drop w' (fc_arena c') = drop w' (fc_arena c)"
      using r p(5) w' by (metis drop_drop add.commute repacked_def)
    show "take w (fc_arena c') = take w (fc_arena c)"
      using take' p(4) by (metis min.absorb1 le_add1 take_take)
    show "\<forall>k. k \<notin> fst ` set ((h, off, len) # live) \<longrightarrow> fx_map (fc_files c') k = fx_map (fc_files c) k"
      using r p(7) by (auto simp: repacked_def)
    have "\<exists>off'. fx_map (fc_files c') h = Some ((the (fx_map (fc_files c) h))\<lparr>cf_arena_offset := off'\<rparr>)
        \<and> w \<le> off' \<and> off' + len \<le> w' \<and> chunk off' len (fc_arena c') = chunk off len (fc_arena c)"
      using h' f(1) here w' by (intro exI [of _ w]) simp
    moreover have "\<exists>off'. fx_map (fc_files c') k = Some ((the (fx_map (fc_files c) k))\<lparr>cf_arena_offset := off'\<rparr>)
        \<and> w \<le> off' \<and> off' + klen \<le> w' \<and> chunk off' klen (fc_arena c') = chunk koff klen (fc_arena c)"
      if "(k, koff, klen) \<in> set live" for k koff klen
      using other [OF that] by (meson add_leD1)
    ultimately show "\<forall>(k, koff, klen) \<in> set ((h, off, len) # live). \<exists>off'.
        fx_map (fc_files c') k = Some ((the (fx_map (fc_files c) k))\<lparr>cf_arena_offset := off'\<rparr>)
        \<and> w \<le> off' \<and> off' + klen \<le> w' \<and> chunk off' klen (fc_arena c') = chunk koff klen (fc_arena c)"
      by auto
    have "\<forall>k \<in> fst ` set live. \<forall>l \<in> fst ` set live. k \<noteq> l \<longrightarrow>
        file_apart (the (fx_map (fc_files c') k)) (the (fx_map (fc_files c') l))"
      using r by (simp add: repacked_def)
    with apart show "\<forall>k \<in> fst ` set ((h, off, len) # live). \<forall>l \<in> fst ` set ((h, off, len) # live). k \<noteq> l \<longrightarrow>
        file_apart (the (fx_map (fc_files c') k)) (the (fx_map (fc_files c') l))" by simp
  qed (use r p(3,8) w' in \<open>simp_all add: repacked_def\<close>)
  moreover have "compact_loop (e # live) w c = (Ok w', c')"
    using run compact_loop_Cons [OF f(4) room(1) Cons.prems(2)] by (simp add: e c1_def)
  ultimately show ?case by (auto simp: e)
qed

lemma compact_loop_append: "compact_loop (xs @ ys) w c = bind (compact_loop xs w) (compact_loop ys) c"
proof (induction xs arbitrary: w c)
  case Nil
  show ?case by (simp add: bind_def outcome_simps)
next
  case (Cons e xs)
  obtain h off len where "e = (h, off, len)" by (cases e)
  with Cons show ?case by (auto simp: bind_def usize_add_def outcome_simps split: outcome.splits prod.splits)
qed

lemma distinct_map_sort: "distinct (map g (sort_key f xs)) \<longleftrightarrow> distinct (map g xs)"
  by (rule mset_eq_imp_distinct_iff) simp

lemma lens_sort: "lens (sort_key f xs) = lens xs"
  unfolding lens_def by (simp flip: sum_mset_sum_list)

lemma live_files_set:
  assumes "fx_inv m"
  shows "(h, off, len) \<in> set (live_files m) \<longleftrightarrow> (\<exists>f. fx_map m h = Some f \<and> cf_arena_offset f = off \<and> cf_len f = len)"
    and "distinct (map fst (live_files m))" "lens (live_files m) = total_len (fx_map m)"
proof -
  have d: "distinct (map fst (fx_iter m))" using assms fx_iter_distinct by (auto simp: fx_inv_def)
  then have mem: "(h, f) \<in> set (fx_iter m) \<longleftrightarrow> fx_map m h = Some f" for h f by (simp add: fx_map_def)
  show "(h, off, len) \<in> set (live_files m) \<longleftrightarrow> (\<exists>f. fx_map m h = Some f \<and> cf_arena_offset f = off \<and> cf_len f = len)"
    by (auto simp: live_files_def image_iff mem split: prod.splits)
  show "distinct (map fst (live_files m))" using d by (simp add: live_files_def comp_def case_prod_unfold)
  have "lens (live_files m) = (\<Sum>(h, f) \<in> set (fx_iter m). cf_len f)"
    using d by (simp add: lens_def live_files_def comp_def case_prod_unfold sum_list_distinct_conv_sum_set distinct_map)
  also have "\<dots> = (\<Sum>h \<in> dom (fx_map m). cf_len (the (fx_map m h)))"
    using mem by (intro sum.reindex_bij_witness [of _ "\<lambda>h. (h, the (fx_map m h))" fst]) auto
  finally show "lens (live_files m) = total_len (fx_map m)" by (simp add: total_len_def)
qed

lemma sorted_laid:
  assumes "sorted (map (\<lambda>(h, off, len). off) live)" "distinct (map fst live)"
    and "\<And>h off len k off' len'. (h, off, len) \<in> set live \<Longrightarrow> (k, off', len') \<in> set live \<Longrightarrow> h \<noteq> k \<Longrightarrow>
      len = 0 \<or> len' = 0 \<or> off + len \<le> off' \<or> off' + len' \<le> off"
    and "\<And>h off len. (h, off, len) \<in> set live \<Longrightarrow> len \<noteq> 0 \<Longrightarrow> v \<le> off"
  shows "laid v live"
  using assms
proof (induction live arbitrary: v)
  case (Cons e live)
  obtain h off len where e: "e = (h, off, len)" by (cases e)
  have IH: "laid u live" if "\<And>h off len. (h, off, len) \<in> set live \<Longrightarrow> len \<noteq> 0 \<Longrightarrow> u \<le> off" for u
  proof (rule Cons.IH)
    show "len = 0 \<or> len' = 0 \<or> off + len \<le> off' \<or> off' + len' \<le> off" if "(h, off, len) \<in> set live" "(k, off', len') \<in> set live" "h \<noteq> k"
      for h off len k off' len' by (rule Cons.prems(3) [of h _ _ k]) (use that in auto)
  qed (use Cons.prems(1,2) that in \<open>auto simp: e\<close>)
  have "len = 0 \<or> off + len \<le> off'" if k: "(k, off', len') \<in> set live" "len' \<noteq> 0" for k off' len'
  proof -
    have "h \<noteq> k" using Cons.prems(2) k(1) by (force simp: e)
    moreover have "off \<le> off'" using Cons.prems(1) k(1) by (force simp: e)
    ultimately show ?thesis using Cons.prems(3) [of h off len k off' len'] k by (auto simp: e)
  qed
  moreover have "v \<le> off'" if "(k, off', len') \<in> set live" "len' \<noteq> 0" for k off' len'
    using Cons.prems(4) that by auto
  ultimately show ?case using IH Cons.prems(4) [of h off len] by (auto simp: e)
qed simp

text \<open>The file named by \<open>sort_last\<close> is moved last, whatever its offset.\<close>

lemma sort_last_split:
  assumes "distinct (map fst xs)" "(s, off, len) \<in> set xs"
    and "\<And>h o' l. (h, o', l) \<in> set xs \<Longrightarrow> o' < 2 ^ 63"
  obtains ys where "sort_key (live_key s) xs = ys @ [(s, off, len)]" "s \<notin> fst ` set ys"
proof -
  let ?zs = "sort_key (live_key s) xs"
  from assms(2) obtain ys bs where zs: "?zs = ys @ (s, off, len) # bs" by (metis in_set_conv_decomp set_sort)
  have d: "distinct (map fst ?zs)"
    using assms(1) by (simp only: distinct_map_sort)
  have "bs = []"
  proof (cases bs)
    case (Cons b bs')
    obtain h o' l where b: "b = (h, o', l)" by (cases b)
    then have "h \<noteq> s" using d zs Cons by auto
    moreover have "live_key s (s, off, len) \<le> live_key s b"
      using sorted_sort_key [of "live_key s" xs] by (simp add: zs sorted_append Cons)
    moreover have "b \<in> set ?zs" unfolding zs Cons by simp
    then have "o' < 2 ^ 63" using assms(3) by (simp add: b)
    ultimately show ?thesis using b by simp
  qed
  with that [of ys] zs d show thesis by force
qed

definition movable :: "file_node_handle \<Rightarrow> (file_node_handle \<rightharpoonup> cached_file) \<Rightarrow> bool" where
  \<comment> \<open>the file is absent, empty, or lies behind all others that are not empty\<close>
  "movable s m \<longleftrightarrow> (\<forall>f. m s = Some f \<longrightarrow> cf_len f = 0
     \<or> (\<forall>h g. m h = Some g \<longrightarrow> h \<noteq> s \<longrightarrow> cf_len g = 0 \<or> cf_arena_offset g + cf_len g \<le> cf_arena_offset f))"

lemma live_sorted_laid:
  assumes "fx_inv m" "placed push (fx_map m)" "push < 2 ^ 63"
    and zs: "sort_key (live_key s) (live_files m) = zs @ ws" "s \<notin> fst ` set zs"
  shows "laid 0 zs" "lists_files (fx_map m) push zs"
proof -
  let ?xs = "sort_key (live_key s) (live_files m)"
  have d: "distinct (map fst ?xs)"
    using live_files_set(2) [OF assms(1)] by (simp only: distinct_map_sort)
  have mem: "\<exists>f. fx_map m h = Some f \<and> cf_arena_offset f = off \<and> cf_len f = len" if "(h, off, len) \<in> set zs" for h off len
  proof -
    have "(h, off, len) \<in> set ?xs" using that unfolding zs(1) by simp
    then show ?thesis using live_files_set(1) [OF assms(1)] by simp
  qed
  have key: "map (live_key s) zs = map (\<lambda>(h, off, len). off) zs" using zs(2) by (auto simp: image_iff)
  show "laid 0 zs"
  proof (rule sorted_laid)
    show "sorted (map (\<lambda>(h, off, len). off) zs)"
      using sorted_sort_key [of "live_key s" "live_files m"] unfolding key [symmetric] zs(1) by (simp add: sorted_append)
    show "len = 0 \<or> len' = 0 \<or> off + len \<le> off' \<or> off' + len' \<le> off" if "(h, off, len) \<in> set zs" "(k, off', len') \<in> set zs" "h \<noteq> k" for h off len k off' len'
      using mem [OF that(1)] mem [OF that(2)] that(3) assms(2) by (fastforce simp: placed_def file_apart_def)
  qed (use d zs(1) in auto)
  show "lists_files (fx_map m) push zs"
    unfolding lists_files_def
  proof (intro conjI ballI)
    show "distinct (map fst zs)" using d zs(1) by simp
    show "case e of (h, off, len) \<Rightarrow> off + len \<le> push \<and> (\<exists>f. fx_map m h = Some f \<and> cf_arena_offset f = off \<and> cf_len f = len)"
      if "e \<in> set zs" for e
    proof -
      obtain h off len where e: "e = (h, off, len)" by (cases e)
      from mem that e obtain f where "fx_map m h = Some f" "cf_arena_offset f = off" "cf_len f = len" by blast
      with assms(2) e show ?thesis by (auto simp: placed_def)
    qed
  qed
qed

lemma repackedD:
  assumes "repacked c live w c' w'"
  shows "c' = c\<lparr>fc_arena := fc_arena c', fc_files := fc_files c'\<rparr>" "fx_inv (fc_files c')"
    "spare_slot (fc_files c) \<Longrightarrow> spare_slot (fc_files c')" "length (fc_arena c') = length (fc_arena c)"
    "w' = w + lens live" "drop w' (fc_arena c') = drop w' (fc_arena c)"
    "h \<notin> fst ` set live \<Longrightarrow> fx_map (fc_files c') h = fx_map (fc_files c) h"
    "(h, off, len) \<in> set live \<Longrightarrow> \<exists>off'. fx_map (fc_files c') h = Some ((the (fx_map (fc_files c) h))\<lparr>cf_arena_offset := off'\<rparr>)
       \<and> w \<le> off' \<and> off' + len \<le> w' \<and> chunk off' len (fc_arena c') = chunk off len (fc_arena c)"
    "h \<in> fst ` set live \<Longrightarrow> k \<in> fst ` set live \<Longrightarrow> h \<noteq> k \<Longrightarrow>
       file_apart (the (fx_map (fc_files c') h)) (the (fx_map (fc_files c') k))"
  using assms unfolding repacked_def by blast+

lemma repacked_snoc:
  assumes r: "repacked c ys 0 c1 w1" and s: "fx_map (fc_files c) s = Some f" "cf_arena_offset f = off" "cf_len f = len" "s \<notin> fst ` set ys"
    and lf: "lists_files (fx_map (fc_files c)) n ys"
    and range: "off + len \<le> length (fc_arena c)" "w1 + len \<le> length (fc_arena c)" and safe: "len = 0 \<or> w1 \<le> off"
  shows "repacked c (ys @ [(s, off, len)]) 0 (compact_step s off len w1 c1) (w1 + len)"
proof -
  let ?c2 = "compact_step s off len w1 c1" and ?m = "fx_map (fc_files c)"
  note d = repackedD [OF r]
  have s1: "fx_map (fc_files c1) s = Some f" using d(7) s(1,4) by simp
  note p = compact_step_props [OF d(2) s1 s(2), unfolded d(4), OF range]
  have s2: "fx_map (fc_files ?c2) s = Some (f\<lparr>cf_arena_offset := w1\<rparr>)" using p(7) by simp
  have old: "\<exists>off'. fx_map (fc_files ?c2) k = Some ((the (?m k))\<lparr>cf_arena_offset := off'\<rparr>) \<and> off' + l \<le> w1
      \<and> chunk off' l (fc_arena ?c2) = chunk ko l (fc_arena c)" if k: "(k, ko, l) \<in> set ys" for k ko l
  proof -
    obtain off' where o: "fx_map (fc_files c1) k = Some ((the (?m k))\<lparr>cf_arena_offset := off'\<rparr>)" "off' + l \<le> w1"
      "chunk off' l (fc_arena c1) = chunk ko l (fc_arena c)" using d(8) [OF k] by blast
    have "k \<noteq> s" using s(4) k by force
    with o p(7) chunk_take_eq [OF p(4) o(2)] show ?thesis by (intro exI [of _ off']) simp
  qed
  have new: "chunk w1 len (fc_arena ?c2) = chunk off len (fc_arena c)"
    using p(6) safe chunk_drop_eq [OF d(6), of off len] by (auto simp: chunk_def)
  have apart: "file_apart (the (fx_map (fc_files ?c2) k)) (the (fx_map (fc_files ?c2) s))
      \<and> file_apart (the (fx_map (fc_files ?c2) s)) (the (fx_map (fc_files ?c2) k))" if "k \<in> fst ` set ys" for k
  proof -
    from that obtain ko l where k: "(k, ko, l) \<in> set ys" by force
    with lf have "cf_len (the (?m k)) = l" by (auto simp: lists_files_def)
    with old [OF k] s2 show ?thesis by (auto simp: file_apart_def)
  qed
  show ?thesis
    unfolding repacked_def
  proof (intro conjI)
    show "?c2 = c\<lparr>fc_arena := fc_arena ?c2, fc_files := fc_files ?c2\<rparr>"
      using d(1) p(1) by (cases c; cases c1; cases ?c2) simp
    show "drop (w1 + len) (fc_arena ?c2) = drop (w1 + len) (fc_arena c)"
      using p(5) d(6) by (metis drop_drop add.commute)
    show "\<forall>h. h \<notin> fst ` set (ys @ [(s, off, len)]) \<longrightarrow> fx_map (fc_files ?c2) h = ?m h"
      using d(7) p(7) by auto
    have "\<exists>off'. fx_map (fc_files ?c2) s = Some ((the (?m s))\<lparr>cf_arena_offset := off'\<rparr>)
        \<and> 0 \<le> off' \<and> off' + len \<le> w1 + len \<and> chunk off' len (fc_arena ?c2) = chunk off len (fc_arena c)"
      using s2 s(1) new by (intro exI [of _ w1]) simp
    moreover have "\<exists>off'. fx_map (fc_files ?c2) k = Some ((the (?m k))\<lparr>cf_arena_offset := off'\<rparr>)
        \<and> 0 \<le> off' \<and> off' + l \<le> w1 + len \<and> chunk off' l (fc_arena ?c2) = chunk ko l (fc_arena c)"
      if "(k, ko, l) \<in> set ys" for k ko l
      using old [OF that] by (meson le0 trans_le_add1)
    ultimately show "\<forall>(k, ko, l) \<in> set (ys @ [(s, off, len)]). \<exists>off'.
        fx_map (fc_files ?c2) k = Some ((the (?m k))\<lparr>cf_arena_offset := off'\<rparr>)
        \<and> 0 \<le> off' \<and> off' + l \<le> w1 + len \<and> chunk off' l (fc_arena ?c2) = chunk ko l (fc_arena c)" by auto
    have "file_apart (the (fx_map (fc_files ?c2) h)) (the (fx_map (fc_files ?c2) k))"
      if "h \<in> fst ` set ys" "k \<in> fst ` set ys" "h \<noteq> k" for h k
    proof -
      have "h \<noteq> s" "k \<noteq> s" using that s(4) by auto
      with d(9) [OF that] show ?thesis by (simp add: p(7))
    qed
    with apart show "\<forall>h \<in> fst ` set (ys @ [(s, off, len)]). \<forall>k \<in> fst ` set (ys @ [(s, off, len)]). h \<noteq> k \<longrightarrow>
        file_apart (the (fx_map (fc_files ?c2) h)) (the (fx_map (fc_files ?c2) k))" by simp
    show "spare_slot (fc_files c) \<longrightarrow> spare_slot (fc_files ?c2)" using d(3) p(8) by blast
    show "w1 + len = 0 + lens (ys @ [(s, off, len)])" using d(5) by simp
  qed (use p(2,3) in simp_all)
qed

text \<open>The order of \<open>compact\<close> puts all files side by side.\<close>

lemma compact_run:
  assumes inv: "cache_inv disk c" and mv: "movable s (fx_map (fc_files c))"
  shows "\<exists>live c' w'. compact_loop (sort_key (live_key s) (live_files (fc_files c))) 0 c = (Ok w', c')
    \<and> live = sort_key (live_key s) (live_files (fc_files c)) \<and> repacked c live 0 c' w'
    \<and> (\<forall>f. fx_map (fc_files c') s = Some f \<longrightarrow> cf_arena_offset f + cf_len f = w')"
proof -
  let ?m = "fx_map (fc_files c)" and ?xs = "sort_key (live_key s) (live_files (fc_files c))"
  have i: "fx_inv (fc_files c)" "length (fc_arena c) < 2 ^ 63" "fc_push_offset c < 2 ^ 63" "fc_push_offset c \<le> length (fc_arena c)"
    "placed (fc_push_offset c) ?m" using inv by (auto simp: cache_inv_def)
  have room: "lens ?xs \<le> length (fc_arena c)"
    unfolding lens_sort live_files_set(3) [OF i(1)] using total_len_le [OF i(5)] i(4) by simp
  have step: "\<exists>c' w'. compact_loop zs 0 c = (Ok w', c') \<and> repacked c zs 0 c' w' \<and> lists_files ?m (fc_push_offset c) zs"
    if zs: "?xs = zs @ ws" "s \<notin> fst ` set zs" for zs ws
  proof -
    note l = live_sorted_laid [OF i(1,5,3) zs]
    have "lists_files ?m (length (fc_arena c)) zs" using l(2) i(4) by (fastforce simp: lists_files_def)
    moreover have "0 + lens zs \<le> length (fc_arena c)" using room by (simp add: zs(1))
    ultimately show ?thesis using compact_loop_spec [OF i(1,2) l(1) le0] l(2) by blast
  qed
  show ?thesis
  proof (cases "?m s")
    case None
    then have "s \<notin> fst ` set ?xs" using live_files_set(1) [OF i(1)] by fastforce
    with step [of ?xs "[]"] obtain c' w' where r: "compact_loop ?xs 0 c = (Ok w', c')" "repacked c ?xs 0 c' w'" by auto
    moreover have "fx_map (fc_files c') s = None" using repackedD(7) [OF r(2)] \<open>s \<notin> fst ` set ?xs\<close> None by simp
    ultimately show ?thesis by auto
  next
    case (Some f)
    define off len where ol: "off = cf_arena_offset f" "len = cf_len f"
    have "(s, off, len) \<in> set (live_files (fc_files c))" using live_files_set(1) [OF i(1)] Some ol by blast
    moreover have "o' < 2 ^ 63" if "(h, o', l) \<in> set (live_files (fc_files c))" for h o' l
      using that i(3,5) unfolding live_files_set(1) [OF i(1)] by (fastforce simp: placed_def)
    ultimately obtain ys where ys: "?xs = ys @ [(s, off, len)]" "s \<notin> fst ` set ys"
      by (rule sort_last_split [OF live_files_set(2) [OF i(1)]])
    from step [OF ys] obtain c1 w1 where c1: "compact_loop ys 0 c = (Ok w1, c1)" "repacked c ys 0 c1 w1"
      "lists_files ?m (fc_push_offset c) ys" by blast
    have range: "off + len \<le> length (fc_arena c)" using i(4) placedD(2) [OF i(5) Some] by (simp add: ol)
    have "lens ?xs = total_len ?m" unfolding lens_sort by (rule live_files_set(3) [OF i(1)])
    with ys(1) repackedD(5) [OF c1(2)] total_len_remove [OF finite_fx_map Some] have w1: "w1 = total_len (?m(s := None))"
      by (simp add: ol)
    have range': "w1 + len \<le> length (fc_arena c)" using room ys(1) repackedD(5) [OF c1(2)] by simp
    have "len = 0 \<or> w1 \<le> off"
    proof (cases "len = 0")
      case False
      have "total_len (?m(s := None)) \<le> off"
        by (rule total_len_below) (use mv Some False placed_remove [OF i(5), of s] in \<open>auto simp: movable_def placed_def ol split: if_splits\<close>)
      then show ?thesis using w1 by simp
    qed simp
    note r = repacked_snoc [OF c1(2) Some _ _ ys(2) c1(3) range range' this, folded ol, OF refl refl]
    have len1: "length (fc_arena c1) = length (fc_arena c)" by (rule repackedD(4) [OF c1(2)])
    have "compact_loop ?xs 0 c = compact_loop [(s, off, len)] w1 c1" unfolding ys(1) compact_loop_append by (rule bind_Ok) (rule c1(1))
    also have "\<dots> = (Ok (w1 + len), compact_step s off len w1 c1)"
      using compact_loop_Cons [of off len c1 w1 s "[]"] range range' i(2) by (simp add: len1 outcome_simps)
    finally have "compact_loop ?xs 0 c = (Ok (w1 + len), compact_step s off len w1 c1)" .
    moreover have "fx_map (fc_files (compact_step s off len w1 c1)) s = Some (f\<lparr>cf_arena_offset := w1\<rparr>)"
    proof -
      have "fx_map (fc_files c1) s = Some f" using repackedD(7) [OF c1(2)] ys(2) Some by simp
      from compact_step_props(7) [OF repackedD(2) [OF c1(2)] this] range range' len1 show ?thesis by (simp add: ol)
    qed
    ultimately show ?thesis using r by (auto simp: ys(1) ol)
  qed
qed

text \<open>Files have moved inside the arena, with their contents.\<close>

definition relocated :: "'d file_cache \<Rightarrow> 'd file_cache \<Rightarrow> bool" where
  "relocated c c' \<longleftrightarrow> (\<exists>a m p. c' = c\<lparr>fc_arena := a, fc_files := m, fc_push_offset := p\<rparr>)
     \<and> (\<forall>h. fx_map (fc_files c) h = None \<longrightarrow> fx_map (fc_files c') h = None)
     \<and> (\<forall>h f. fx_map (fc_files c) h = Some f \<longrightarrow> (\<exists>off'. fx_map (fc_files c') h = Some (f\<lparr>cf_arena_offset := off'\<rparr>)
          \<and> cached_bytes (fc_arena c') (f\<lparr>cf_arena_offset := off'\<rparr>) = cached_bytes (fc_arena c) f))"

lemma relocatedD:
  assumes "relocated c c'" "fx_map (fc_files c) h = Some f"
  obtains off' where "fx_map (fc_files c') h = Some (f\<lparr>cf_arena_offset := off'\<rparr>)"
    "cached_bytes (fc_arena c') (f\<lparr>cf_arena_offset := off'\<rparr>) = cached_bytes (fc_arena c) f"
  using assms unfolding relocated_def by blast

lemma relocated_back:
  assumes "relocated c c'" "fx_map (fc_files c') h = Some g"
  obtains f where "fx_map (fc_files c) h = Some f" "g = f\<lparr>cf_arena_offset := cf_arena_offset g\<rparr>"
    "cached_bytes (fc_arena c') g = cached_bytes (fc_arena c) f"
proof (cases "fx_map (fc_files c) h")
  case None
  with assms show thesis by (simp add: relocated_def)
next
  case (Some f)
  from relocatedD [OF assms(1) this] obtain off' where "fx_map (fc_files c') h = Some (f\<lparr>cf_arena_offset := off'\<rparr>)"
    "cached_bytes (fc_arena c') (f\<lparr>cf_arena_offset := off'\<rparr>) = cached_bytes (fc_arena c) f" .
  with assms(2) that [OF Some] show thesis by auto
qed

lemma relocated_view:
  assumes "relocated c c'"
  shows "fs_view disk c' = fs_view disk c"
proof
  fix h
  have "fc_driver c' = fc_driver c" using assms by (auto simp: relocated_def)
  then show "fs_view disk c' h = fs_view disk c h"
  proof (cases "fx_map (fc_files c) h")
    case None
    with assms \<open>fc_driver c' = fc_driver c\<close> show ?thesis by (simp add: fs_view_def relocated_def)
  next
    case (Some f)
    with relocatedD [OF assms Some] show ?thesis by (force simp: fs_view_def)
  qed
qed

lemma compact_spec:
  assumes inv: "cache_inv disk c" and mv: "movable s (fx_map (fc_files c))"
  shows "\<exists>c'. compact s c = (Ok (), c') \<and> relocated c c' \<and> cache_inv disk c' \<and> fc_push_offset c' = fc_memory_used c
    \<and> (spare_slot (fc_files c) \<longrightarrow> spare_slot (fc_files c')) \<and> movable s (fx_map (fc_files c'))
    \<and> (\<forall>f. fx_map (fc_files c') s = Some f \<longrightarrow> cf_arena_offset f + cf_len f = fc_push_offset c')"
proof -
  let ?m = "fx_map (fc_files c)"
  obtain live c1 w where run: "compact_loop (sort_key (live_key s) (live_files (fc_files c))) 0 c = (Ok w, c1)"
    and live: "live = sort_key (live_key s) (live_files (fc_files c))" and r: "repacked c live 0 c1 w"
    and tail: "\<And>f. fx_map (fc_files c1) s = Some f \<Longrightarrow> cf_arena_offset f + cf_len f = w"
    using compact_run [OF assms] by auto
  define c' where "c' = c1\<lparr>fc_push_offset := w\<rparr>"
  have i: "fx_inv (fc_files c)" "fc_memory_used c = total_len ?m" "placed (fc_push_offset c) ?m" using inv by (auto simp: cache_inv_def)
  note d = repackedD [OF r]
  have w: "w = fc_memory_used c" using d(5) by (simp add: live lens_sort live_files_set(3) [OF i(1)] i(2))
  have mem: "(h, off, len) \<in> set live \<longleftrightarrow> (\<exists>f. ?m h = Some f \<and> cf_arena_offset f = off \<and> cf_len f = len)" for h off len
    by (simp add: live live_files_set(1) [OF i(1)])
  have listed: "h \<in> fst ` set live \<longleftrightarrow> ?m h \<noteq> None" for h using mem by (force simp: image_iff)
  have moved: "\<exists>off'. fx_map (fc_files c1) h = Some (f\<lparr>cf_arena_offset := off'\<rparr>) \<and> off' + cf_len f \<le> w
      \<and> cached_bytes (fc_arena c1) (f\<lparr>cf_arena_offset := off'\<rparr>) = cached_bytes (fc_arena c) f" if "?m h = Some f" for h f
    using d(8) [of h "cf_arena_offset f" "cf_len f"] mem [of h] that by (auto simp: cached_bytes_def)
  have rel: "relocated c c'"
    unfolding relocated_def
  proof (intro conjI allI impI)
    show "\<exists>a m p. c' = c\<lparr>fc_arena := a, fc_files := m, fc_push_offset := p\<rparr>"
      using arg_cong [OF d(1), of "fc_push_offset_update (\<lambda>_. w)"] unfolding c'_def by (intro exI) simp
    show "fx_map (fc_files c') h = None" if "?m h = None" for h using d(7) listed that by (auto simp: c'_def)
  qed (use moved in \<open>auto simp: c'_def\<close>)
  have orig: "?m h = Some (the (?m h)) \<and> h \<in> fst ` set live" if "fx_map (fc_files c1) h = Some g" for h g
    using that d(7) [of h] listed [of h] by (cases "?m h") auto
  have "placed w (fx_map (fc_files c1))"
    unfolding placed_def
  proof (intro conjI allI impI)
    fix h g assume g: "fx_map (fc_files c1) h = Some g"
    then show "h \<noteq> INVALID_NODE_HANDLE" using orig placedD(1) [OF i(3)] by blast
    show "cf_arena_offset g + cf_len g \<le> w" using moved orig [OF g] g by fastforce
    show "file_apart g g'" if "fx_map (fc_files c1) k = Some g'" "h \<noteq> k" for k g'
      using d(9) [of h k] orig [OF g] orig [OF that(1)] g that by simp
  qed simp
  then have p': "placed (fc_push_offset c') (fx_map (fc_files c'))" by (simp add: c'_def)
  have "movable s (fx_map (fc_files c'))"
    unfolding movable_def
  proof (intro allI impI)
    fix f assume f: "fx_map (fc_files c') s = Some f"
    have "cf_len f = 0 \<or> cf_len g = 0 \<or> cf_arena_offset g + cf_len g \<le> cf_arena_offset f"
      if g: "fx_map (fc_files c') h = Some g" "h \<noteq> s" for h g
      using placedD(3) [OF p' f g(1)] placedD(2) [OF p' g(1)] g(2) tail f by (auto simp: file_apart_def c'_def)
    then show "cf_len f = 0 \<or> (\<forall>h g. fx_map (fc_files c') h = Some g \<longrightarrow> h \<noteq> s \<longrightarrow>
        cf_len g = 0 \<or> cf_arena_offset g + cf_len g \<le> cf_arena_offset f)" by blast
  qed
  moreover have "cache_inv disk c'"
  proof -
    have "total_len (fx_map (fc_files c')) = total_len ?m"
      unfolding total_len_def
    proof (rule sum.cong)
      show "dom (fx_map (fc_files c')) = dom ?m" using moved orig by (fastforce simp: c'_def dom_def)
      show "cf_len (the (fx_map (fc_files c') h)) = cf_len (the (?m h))" if "h \<in> dom ?m" for h
        using that moved by (fastforce simp: c'_def)
    qed
    moreover have "backed (disk (fc_driver c)) (fc_arena c') (fx_map (fc_files c'))"
      unfolding backed_def
    proof (intro allI impI)
      fix h g assume "fx_map (fc_files c') h = Some g"
      then obtain f where f: "?m h = Some f" "g = f\<lparr>cf_arena_offset := cf_arena_offset g\<rparr>"
        "cached_bytes (fc_arena c') g = cached_bytes (fc_arena c) f" by (rule relocated_back [OF rel])
      have "cf_len g = cf_len f" "cf_is_dirty g = cf_is_dirty f" by (subst f(2), simp)+
      with f inv show "\<exists>bs. disk (fc_driver c) h = Some bs \<and> length bs \<le> cf_len g \<and> (cf_is_dirty g \<or> bs = cached_bytes (fc_arena c') g)"
        by (auto simp: cache_inv_def backed_def)
    qed
    moreover have "c' = c\<lparr>fc_arena := fc_arena c1, fc_files := fc_files c1, fc_push_offset := w\<rparr>"
      using arg_cong [OF d(1), of "fc_push_offset_update (\<lambda>_. w)"] unfolding c'_def by simp
    moreover have "w \<le> fc_push_offset c" using w i(2) total_len_le [OF i(3)] by simp
    ultimately show ?thesis using inv p' d(2,4) by (auto simp: cache_inv_def)
  qed
  ultimately show ?thesis
    using run tail rel w d(3) by (auto simp: compact_def c'_def outcome_simps)
qed

end
