(* ===== verification/File_Cache_Space.thy ===== *)
theory File_Cache_Space
  imports File_Cache_Inv
begin

text \<open>
  Eviction, making room and loading a file: each keeps the invariant of the cache and the view of
  the file system. \<open>made_room\<close> collects what a caller of \<open>ensure_space\<close> may rely on.
\<close>

section \<open>Calls on the parts of the cache\<close>

lemma memory_calls:
  "fc_memory_used c + n < 2 ^ 64 \<Longrightarrow> add_memory_used n c = (Ok (), c\<lparr>fc_memory_used := fc_memory_used c + n\<rparr>)"
  "n \<le> fc_memory_used c \<Longrightarrow> sub_memory_used n c = (Ok (), c\<lparr>fc_memory_used := fc_memory_used c - n\<rparr>)"
  by (simp_all add: add_memory_used_def sub_memory_used_def usize_add_def usize_sub_def bind_def outcome_simps)

lemma on_driver_eq: "m (fc_driver c) = (r, d) \<Longrightarrow> on_driver m c = (r, c\<lparr>fc_driver := d\<rparr>)"
  by (simp add: on_driver_def)

lemma driver_okD:
  assumes "driver_ok ops disk" "disk d h = Some bs"
  shows "length bs < 2 ^ 63"
    and "\<exists>d'. cd_file_size ops h d = (Ok (length bs), d') \<and> disk d' = disk d"
    and "length bs \<le> length buf \<Longrightarrow> \<exists>d'. cd_read_file_into ops h buf d = (Ok (length bs, blit 0 bs buf), d') \<and> disk d' = disk d"
    and "\<exists>node d'. cd_get_node ops h d = (Ok node, d') \<and> disk d' = disk d"
    and "\<exists>r d' bs'. cd_write_file ops h 0 data d = (r, d') \<and> disk d' = (disk d)(h \<mapsto> bs')
          \<and> (r = Ok (length data) \<and> bs' = data @ drop (length data) bs
             \<or> (\<exists>e. r = Err e) \<and> length bs' \<le> max (length bs) (length data))"
  using assms unfolding driver_ok_def by blast+

lemma cache_invD:
  assumes "cache_inv disk c"
  shows "fx_inv (fc_files c)" "fx_inv (fc_file_nodes c)" "length (fc_arena c) = fc_max_memory c" "fc_max_memory c < 2 ^ 63"
    "fc_push_offset c \<le> fc_max_memory c" "placed (fc_push_offset c) (fx_map (fc_files c))"
    "fc_memory_used c = total_len (fx_map (fc_files c))" "backed (disk (fc_driver c)) (fc_arena c) (fx_map (fc_files c))"
    "fc_memory_used c \<le> fc_push_offset c"
  using assms total_len_le by (auto simp: cache_inv_def)

lemma cached_in_arena:
  assumes "cache_inv disk c" "fx_map (fc_files c) h = Some f"
  shows "cf_arena_offset f + cf_len f \<le> fc_push_offset c" "cf_arena_offset f + cf_len f \<le> length (fc_arena c)"
    "length (cached_bytes (fc_arena c) f) = cf_len f"
  using placedD(2) [OF cache_invD(6) [OF assms(1)] assms(2)] cache_invD(3,5) [OF assms(1)]
  by (auto simp: cached_bytes_def)

lemma backedD:
  assumes "backed stored_bytes arena m" "m h = Some f"
  obtains bs where "stored_bytes h = Some bs" "length bs \<le> cf_len f" "cf_is_dirty f \<or> bs = cached_bytes arena f"
  using assms by (auto simp: backed_def)

lemma backed_drop:
  assumes "backed sb arena m" "\<And>k. k \<noteq> h \<Longrightarrow> sb' k = sb k"
  shows "backed sb' arena (m(h := None))"
  using assms by (auto simp: backed_def)

section \<open>Eviction\<close>

lemma best_victim_in:
  "best_victim skip tick es b sc = b \<or> (\<exists>f. (best_victim skip tick es b sc, f) \<in> set es \<and> \<not> skip (best_victim skip tick es b sc) f)"
proof (induction es arbitrary: b sc)
  case (Cons e es)
  obtain h f where e: "e = (h, f)" by (cases e)
  show ?case using Cons [of b sc] Cons [of h "eviction_score tick f"] by (auto simp: e Let_def)
qed simp

definition same_frame :: "'d file_cache \<Rightarrow> 'd file_cache \<Rightarrow> bool" where
  "same_frame c c' \<longleftrightarrow> fc_max_memory c' = fc_max_memory c \<and> fc_access_tick c' = fc_access_tick c
     \<and> fc_file_nodes c' = fc_file_nodes c \<and> fc_directory_hints c' = fc_directory_hints c
     \<and> (spare_slot (fc_files c) \<longrightarrow> spare_slot (fc_files c'))"

lemma drop_cached:
  assumes inv: "cache_inv disk c" and f: "fx_map (fc_files c) h = Some f" "fx_remove (fc_files c) h = (r, m)"
    and same: "disk d h = Some (cached_bytes (fc_arena c) f)" "\<And>k. k \<noteq> h \<Longrightarrow> disk d k = disk (fc_driver c) k"
  defines "c' \<equiv> c\<lparr>fc_driver := d, fc_files := m, fc_memory_used := fc_memory_used c - cf_len f\<rparr>"
  shows "cache_inv disk c'" "fs_view disk c' = fs_view disk c" "same_frame c c'" "cf_len f \<le> fc_memory_used c"
    "fx_map (fc_files c') = (fx_map (fc_files c))(h := None)"
proof -
  note i = cache_invD [OF inv]
  have m: "fx_inv m" "fx_map m = (fx_map (fc_files c))(h := None)" using fx_remove_spec [OF i(1), of h] f(2) by auto
  note tl = total_len_remove [OF finite_fx_map f(1)]
  show "cf_len f \<le> fc_memory_used c" using tl i(7) by simp
  show "fx_map (fc_files c') = (fx_map (fc_files c))(h := None)" by (simp add: c'_def m)
  show "cache_inv disk c'"
    using i m tl placed_remove [OF i(6), of h] backed_drop [OF i(8), of h] same(2) by (simp add: cache_inv_def c'_def)
  show "fs_view disk c' = fs_view disk c"
    using f(1) same m(2) by (auto simp: fs_view_def c'_def fun_eq_iff split: option.splits)
  show "same_frame c c'" using spare_slot_remove [OF i(1) _ f(2)] by (simp add: same_frame_def c'_def)
qed

lemma flush_failed:
  assumes inv: "cache_inv disk c" and f: "fx_map (fc_files c) h = Some f" "cf_is_dirty f"
    and d: "disk d = (disk (fc_driver c))(h \<mapsto> bs')" "length bs' \<le> cf_len f"
  shows "cache_inv disk (c\<lparr>fc_driver := d\<rparr>)" "fs_view disk (c\<lparr>fc_driver := d\<rparr>) = fs_view disk c"
proof -
  have "backed (disk d) (fc_arena c) (fx_map (fc_files c))"
    using cache_invD(8) [OF inv] f d by (auto simp: backed_def)
  then show "cache_inv disk (c\<lparr>fc_driver := d\<rparr>)" using inv by (simp add: cache_inv_def)
  show "fs_view disk (c\<lparr>fc_driver := d\<rparr>) = fs_view disk c"
    using f(1) d(1) by (auto simp: fs_view_def fun_eq_iff split: option.splits)
qed

lemma evict_found_spec:
  assumes drv: "driver_ok ops disk" and inv: "cache_inv disk c" and f: "fx_map (fc_files c) h = Some f"
  shows "\<exists>n c'. evict_found ops h c = (Ok n, c') \<and> cache_inv disk c' \<and> fs_view disk c' = fs_view disk c \<and> same_frame c c'
    \<and> fc_push_offset c' = fc_push_offset c
    \<and> (n = 0 \<and> fx_map (fc_files c') = fx_map (fc_files c) \<or> n = cf_len f \<and> fx_map (fc_files c') = (fx_map (fc_files c))(h := None))"
proof -
  note i = cache_invD [OF inv] and a = cached_in_arena [OF inv f]
  obtain m where m: "fx_remove (fc_files c) h = (Some f, m)" using fx_remove_spec [OF i(1), of h] f by auto
  obtain bs where bs: "disk (fc_driver c) h = Some bs" "length bs \<le> cf_len f" "cf_is_dirty f \<or> bs = cached_bytes (fc_arena c) f"
    by (rule backedD [OF i(8) f])
  have get: "fx_get (fc_files c) h = Some f" using fx_get_map [OF i(1)] f by simp
  have h: "h \<noteq> INVALID_NODE_HANDLE" using placedD(1) [OF i(6) f] .
  show ?thesis
  proof (cases "cf_is_dirty f")
    case False
    with bs(1,3) have "disk (fc_driver c) h = Some (cached_bytes (fc_arena c) f)" by simp
    note d = drop_cached [OF inv f m this refl]
    have "evict_found ops h c = (Ok (cf_len f), c\<lparr>fc_driver := fc_driver c, fc_files := m, fc_memory_used := fc_memory_used c - cf_len f\<rparr>)"
      using h get m d(4) False by (simp add: evict_found_def bind_def reading_def modify_def memory_calls ret_def)
    with d show ?thesis by auto
  next
    case True
    let ?data = "chunk (cf_arena_offset f) (cf_len f) (fc_arena c)"
    have data: "?data = cached_bytes (fc_arena c) f" "length ?data = cf_len f" using a(3) by (simp_all add: cached_bytes_def)
    obtain r d bs' where w: "cd_write_file ops h 0 ?data (fc_driver c) = (r, d)" "disk d = (disk (fc_driver c))(h \<mapsto> bs')"
      "r = Ok (length ?data) \<and> bs' = ?data @ drop (length ?data) bs \<or> (\<exists>e. r = Err e) \<and> length bs' \<le> max (length bs) (length ?data)"
      using driver_okD(5) [OF drv bs(1)] by blast
    from w(3) show ?thesis
    proof
      assume ok: "r = Ok (length ?data) \<and> bs' = ?data @ drop (length ?data) bs"
      with bs(2) data w(2) have "disk d h = Some (cached_bytes (fc_arena c) f)" by simp
      note d = drop_cached [OF inv f m this]
      have dd: "\<And>k. k \<noteq> h \<Longrightarrow> disk d k = disk (fc_driver c) k" using w(2) by simp
      note d = d [OF dd]
      have "evict_found ops h c = (Ok (cf_len f), c\<lparr>fc_driver := d, fc_files := m, fc_memory_used := fc_memory_used c - cf_len f\<rparr>)"
        using h get m d(4) True a(2) w(1) ok
        by (simp add: evict_found_def bind_def reading_def modify_def memory_calls ret_def arena_calls attempt_def on_driver_def)
      with d show ?thesis by auto
    next
      assume err: "(\<exists>e. r = Err e) \<and> length bs' \<le> max (length bs) (length ?data)"
      then have "length bs' \<le> cf_len f" using bs(2) data(2) by linarith
      note d = flush_failed [OF inv f True w(2) this]
      have "evict_found ops h c = (Ok 0, c\<lparr>fc_driver := d\<rparr>)"
        using h get True a(2) w(1) err
        by (auto simp: evict_found_def bind_def reading_def ret_def arena_calls attempt_def on_driver_def)
      with d show ?thesis by (auto simp: same_frame_def)
    qed
  qed
qed

section \<open>Making room\<close>

text \<open>
  Files may have been dropped or moved, but not \<open>s\<close>; those that are left have their lengths, and
  nobody who looks at the files through the cache can tell the difference.
\<close>

definition made_room :: "('d \<Rightarrow> file_node_handle \<Rightarrow> u8 list option) \<Rightarrow> file_node_handle \<Rightarrow> 'd file_cache \<Rightarrow> 'd file_cache \<Rightarrow> bool" where
  "made_room disk s c c' \<longleftrightarrow> cache_inv disk c' \<and> fs_view disk c' = fs_view disk c \<and> same_frame c c'
     \<and> movable s (fx_map (fc_files c'))
     \<and> (\<forall>h f. fx_map (fc_files c') h = Some f \<longrightarrow> (\<exists>g. fx_map (fc_files c) h = Some g \<and> cf_len g = cf_len f))
     \<and> (\<forall>f. fx_map (fc_files c) s = Some f \<longrightarrow> (\<exists>g. fx_map (fc_files c') s = Some g \<and> cf_len g = cf_len f))"

lemma made_room_refl: "cache_inv disk c \<Longrightarrow> movable s (fx_map (fc_files c)) \<Longrightarrow> made_room disk s c c"
  by (simp add: made_room_def same_frame_def)

lemma made_room_trans:
  assumes "made_room disk s c c1" "made_room disk s c1 c2"
  shows "made_room disk s c c2"
proof -
  have "\<exists>g. fx_map (fc_files c) h = Some g \<and> cf_len g = cf_len f" if "fx_map (fc_files c2) h = Some f" for h f
    using assms that unfolding made_room_def by metis
  moreover have "\<exists>g. fx_map (fc_files c2) s = Some g \<and> cf_len g = cf_len f" if "fx_map (fc_files c) s = Some f" for f
    using assms that unfolding made_room_def by metis
  ultimately show ?thesis using assms by (simp add: made_room_def same_frame_def)
qed

lemma movable_remove: "movable s m \<Longrightarrow> movable s (m(h := None))"
  unfolding movable_def by (metis fun_upd_apply option.distinct(1))

lemma evict_made_room:
  assumes "driver_ok ops disk" "cache_inv disk c" "movable s (fx_map (fc_files c))"
  shows "\<exists>n c'. evict_one_keep_alive ops s force c = (Ok n, c') \<and> made_room disk s c c' \<and> fc_push_offset c' = fc_push_offset c
    \<and> (n \<noteq> 0 \<longrightarrow> card (dom (fx_map (fc_files c'))) < card (dom (fx_map (fc_files c)))
         \<and> (\<exists>h f. h \<noteq> s \<and> fx_map (fc_files c) h = Some f \<and> n = cf_len f))"
proof -
  define h where "h = best_victim (\<lambda>node_id cached. (cf_pinned cached \<and> \<not> force) \<or> node_id = s
      \<or> (eviction_priority (cf_importance cached) = - 1 \<and> \<not> force)) (fc_access_tick c) (fx_iter (fc_files c)) INVALID_NODE_HANDLE 0"
  have run: "evict_one_keep_alive ops s force c = evict_found ops h c"
    by (simp add: evict_one_keep_alive_def reading_def h_def)
  have d: "distinct (map fst (fx_iter (fc_files c)))"
    using cache_invD(1) [OF assms(2)] fx_iter_distinct by (auto simp: fx_inv_def)
  from best_victim_in [of _ "fc_access_tick c" "fx_iter (fc_files c)" INVALID_NODE_HANDLE 0]
  consider "h = INVALID_NODE_HANDLE" | f where "fx_map (fc_files c) h = Some f" "h \<noteq> s"
    unfolding h_def using d by (fastforce simp: fx_map_def)
  then show ?thesis
  proof cases
    case 1
    then show ?thesis using run made_room_refl [OF assms(2,3)] by (simp add: evict_found_def ret_def)
  next
    case 2
    from evict_found_spec [OF assms(1,2) 2(1)] obtain n c' where e: "evict_found ops h c = (Ok n, c')" "cache_inv disk c'"
      "fs_view disk c' = fs_view disk c" "same_frame c c'" "fc_push_offset c' = fc_push_offset c"
      "n = 0 \<and> fx_map (fc_files c') = fx_map (fc_files c) \<or> n = cf_len f \<and> fx_map (fc_files c') = (fx_map (fc_files c))(h := None)"
      by blast
    have "made_room disk s c c'"
      using e(2-4,6) 2 assms(3) movable_remove [OF assms(3), of h] by (auto simp: made_room_def split: if_splits)
    moreover have "card (dom (fx_map (fc_files c'))) < card (dom (fx_map (fc_files c)))" if "n \<noteq> 0"
    proof (rule psubset_card_mono)
      show "dom (fx_map (fc_files c')) \<subset> dom (fx_map (fc_files c))" using e(6) that 2(1) by auto
    qed simp
    ultimately show ?thesis using e(1,5,6) run 2 by auto
  qed
qed

lemma relocated_made_room:
  assumes "relocated c c'" "cache_inv disk c'" "movable s (fx_map (fc_files c'))"
    and "spare_slot (fc_files c) \<Longrightarrow> spare_slot (fc_files c')"
  shows "made_room disk s c c'"
proof -
  have "same_frame c c'" using assms(1,4) by (auto simp: same_frame_def relocated_def)
  moreover have "\<exists>g. fx_map (fc_files c) h = Some g \<and> cf_len g = cf_len f" if "fx_map (fc_files c') h = Some f" for h f
    by (rule relocated_back [OF assms(1) that]) (metis cached_file.select_convs(2) cached_file.surjective cached_file.update_convs(1))
  moreover have "\<exists>g. fx_map (fc_files c') s = Some g \<and> cf_len g = cf_len f" if "fx_map (fc_files c) s = Some f" for f
    by (rule relocatedD [OF assms(1) that]) simp
  ultimately show ?thesis using assms(2,3) relocated_view [OF assms(1)] by (simp add: made_room_def)
qed

definition at_tail :: "file_node_handle \<Rightarrow> 'd file_cache \<Rightarrow> bool" where
  "at_tail s c \<longleftrightarrow> (\<forall>f. fx_map (fc_files c) s = Some f \<longrightarrow> cf_arena_offset f + cf_len f = fc_push_offset c)"

definition small_victims :: "nat \<Rightarrow> file_node_handle \<Rightarrow> (file_node_handle \<rightharpoonup> cached_file) \<Rightarrow> bool" where
  "small_victims needed s m \<longleftrightarrow> (\<forall>h f. m h = Some f \<longrightarrow> h \<noteq> s \<longrightarrow> cf_len f \<le> needed)"

lemma small_victims_room: "made_room disk s c c' \<Longrightarrow> small_victims n s (fx_map (fc_files c)) \<Longrightarrow> small_victims n s (fx_map (fc_files c'))"
  unfolding made_room_def small_victims_def by metis

text \<open>
  The loop ends within as many rounds as there are files. It can only panic when a victim is
  larger than the room that is needed, because the size of the victim is subtracted twice.
\<close>

definition room_result :: "('d \<Rightarrow> file_node_handle \<Rightarrow> u8 list option) \<Rightarrow> nat \<Rightarrow> file_node_handle \<Rightarrow> 'd file_cache \<Rightarrow>
    (file_system_error, bool) outcome \<times> 'd file_cache \<Rightarrow> bool" where
  "room_result disk needed s c res \<longleftrightarrow>
     (case res of (r, c') \<Rightarrow> r = Panic \<and> \<not> small_victims needed s (fx_map (fc_files c))
        \<or> (\<exists>b. r = Ok b \<and> made_room disk s c c'
             \<and> (b \<longrightarrow> fc_push_offset c' + needed \<le> fc_max_memory c' \<and> (c' = c \<or> at_tail s c'))))"

lemma room_result_step:
  assumes "room_result disk needed s c1 res" "made_room disk s c c1" "\<not> fc_push_offset c1 + needed \<le> fc_max_memory c1 \<or> at_tail s c1"
  shows "room_result disk needed s c res"
  using assms made_room_trans [OF assms(2)] small_victims_room [OF assms(2)]
  by (auto simp: room_result_def split: prod.splits)

lemma ensure_space_loop_spec:
  assumes "driver_ok ops disk" "cache_inv disk c" "movable s (fx_map (fc_files c))" "needed < 2 ^ 63"
    and "card (dom (fx_map (fc_files c))) < rounds"
  shows "room_result disk needed s c (ensure_space_loop rounds ops needed s force c)"
  using assms(2,3,5)
proof (induction rounds arbitrary: c)
  case (Suc rounds)
  note i = cache_invD [OF Suc.prems(1)]
  have fits: "fc_push_offset c + needed < 2 ^ 64" using i(4,5) assms(4) by simp
  show ?case
  proof (cases "fc_push_offset c + needed \<le> fc_max_memory c")
    case True
    then show ?thesis using made_room_refl [OF Suc.prems(1,2)] fits
      by (auto simp: room_result_def bind_def reading_def usize_add_def ret_def)
  next
    case False
    from evict_made_room [OF assms(1) Suc.prems(1,2), of force] obtain n c1 where e:
      "evict_one_keep_alive ops s force c = (Ok n, c1)" "made_room disk s c c1" "fc_push_offset c1 = fc_push_offset c"
      "n \<noteq> 0 \<Longrightarrow> card (dom (fx_map (fc_files c1))) < card (dom (fx_map (fc_files c)))"
      "n \<noteq> 0 \<Longrightarrow> \<exists>h f. h \<noteq> s \<and> fx_map (fc_files c) h = Some f \<and> n = cf_len f" by blast
    have inv1: "cache_inv disk c1" "movable s (fx_map (fc_files c1))" "fc_max_memory c1 = fc_max_memory c"
      using e(2) by (simp_all add: made_room_def same_frame_def)
    have used: "fc_memory_used c1 + needed < 2 ^ 64" using cache_invD(4,5,9) [OF inv1(1)] assms(4) by simp
    have rest: "ensure_space_loop (Suc rounds) ops needed s force c = (if n = 0 then (Ok False, c1)
       else if fc_memory_used c1 + needed < n then (Panic, c1)
       else bind (if fc_memory_used c1 + needed - n \<le> fc_max_memory c1 then compact s else ret ())
         (\<lambda>_. ensure_space_loop rounds ops needed s force) c1)"
      using False fits used e(1) by (simp add: bind_def reading_def usize_add_def usize_sub_def ret_def panic_def)
    consider "n = 0" | "n \<noteq> 0" "fc_memory_used c1 + needed < n" | "n \<noteq> 0" "n \<le> fc_memory_used c1 + needed" by linarith
    then show ?thesis
    proof cases
      case 1
      then show ?thesis unfolding rest using e(2) by (auto simp: room_result_def)
    next
      case 2
      with e(5) have "\<not> small_victims needed s (fx_map (fc_files c))" by (fastforce simp: small_victims_def)
      with 2 show ?thesis unfolding rest by (simp add: room_result_def)
    next
      case 3
      have few: "card (dom (fx_map (fc_files c1))) < rounds" using e(4) [OF 3(1)] Suc.prems(3) by simp
      show ?thesis
      proof (cases "fc_memory_used c1 + needed - n \<le> fc_max_memory c1")
        case False
        with rest 3 have "ensure_space_loop (Suc rounds) ops needed s force c = ensure_space_loop rounds ops needed s force c1"
          by (simp add: bind_def ret_def)
        moreover have "\<not> fc_push_offset c1 + needed \<le> fc_max_memory c1"
          using e(3) inv1(3) \<open>\<not> fc_push_offset c + needed \<le> fc_max_memory c\<close> by simp
        ultimately show ?thesis using room_result_step [OF Suc.IH [OF inv1(1,2) few] e(2)] by simp
      next
        case True
        obtain c2 where c: "compact s c1 = (Ok (), c2)" "relocated c1 c2" "cache_inv disk c2"
          "spare_slot (fc_files c1) \<Longrightarrow> spare_slot (fc_files c2)" "movable s (fx_map (fc_files c2))" "at_tail s c2"
          using compact_spec [OF inv1(1,2)] unfolding at_tail_def by blast
        have room: "made_room disk s c1 c2" by (rule relocated_made_room [OF c(2,3,5,4)])
        have "dom (fx_map (fc_files c2)) = dom (fx_map (fc_files c1))"
          using c(2) unfolding relocated_def dom_def by (metis (lifting) option.distinct(1) option.exhaust)
        with few Suc.IH [OF c(3,5)] have "room_result disk needed s c2 (ensure_space_loop rounds ops needed s force c2)" by simp
        moreover have "ensure_space_loop (Suc rounds) ops needed s force c = ensure_space_loop rounds ops needed s force c2"
          using rest 3 True c(1) by (simp add: bind_def)
        ultimately show ?thesis using room_result_step [OF _ made_room_trans [OF e(2) room]] c(6) by simp
      qed
    qed
  qed
qed simp

lemma card_dom_fx: "fx_inv m \<Longrightarrow> card (dom (fx_map m)) = fx_len m"
proof -
  assume inv: "fx_inv m"
  then have "distinct (map fst (fx_iter m))" using fx_iter_distinct by (auto simp: fx_inv_def)
  then have "card (fst ` set (fx_iter m)) = length (fx_iter m)" by (metis distinct_card length_map list.set_map)
  with inv show ?thesis by (simp add: fx_map_def dom_map_of_conv_image_fst fx_len_def fx_inv_def)
qed

lemma ensure_space_spec:
  assumes "driver_ok ops disk" "cache_inv disk c" "movable s (fx_map (fc_files c))" "needed < 2 ^ 63"
  shows "room_result disk needed s c (ensure_space ops needed s force c)"
  unfolding ensure_space_def reading_def
  by (rule ensure_space_loop_spec [OF assms]) (simp add: card_dom_fx [OF cache_invD(1) [OF assms(2)]])

lemma ensure_space_fits:
  assumes "cache_inv disk c" "fc_push_offset c + needed \<le> fc_max_memory c"
  shows "ensure_space ops needed s force c = (Ok True, c)"
  using assms cache_invD(4) [OF assms(1)]
  by (simp add: ensure_space_def bind_def reading_def usize_add_def ret_def)

section \<open>Changes that keep the view\<close>

lemma backed_cong:
  assumes "backed sb arena m" "sb' = sb"
    and "\<And>h f'. m' h = Some f' \<Longrightarrow> \<exists>f. m h = Some f \<and> cf_len f' = cf_len f \<and> cf_is_dirty f' = cf_is_dirty f
      \<and> cached_bytes arena' f' = cached_bytes arena f"
  shows "backed sb' arena' m'"
  unfolding backed_def
proof (intro allI impI)
  fix h f' assume "m' h = Some f'"
  from assms(3) [OF this] obtain f where f: "m h = Some f" "cf_len f' = cf_len f" "cf_is_dirty f' = cf_is_dirty f"
    "cached_bytes arena' f' = cached_bytes arena f" by blast
  with backedD [OF assms(1) f(1)] show "\<exists>bs. sb' h = Some bs \<and> length bs \<le> cf_len f' \<and> (cf_is_dirty f' \<or> bs = cached_bytes arena' f')"
    unfolding assms(2) by metis
qed

lemma update_file_keeps:
  fixes h :: file_node_handle
  assumes inv: "cache_inv disk c" and g: "\<And>f. cf_arena_offset (g f) = cf_arena_offset f \<and> cf_len (g f) = cf_len f \<and> cf_is_dirty (g f) = cf_is_dirty f"
  defines "c' \<equiv> c\<lparr>fc_files := fx_modify (fc_files c) h g\<rparr>"
  shows "cache_inv disk c'" "fs_view disk c' = fs_view disk c"
proof -
  note i = cache_invD [OF inv]
  let ?m = "fx_map (fc_files c)"
  have m: "fx_inv (fc_files c')" "fx_map (fc_files c') = ?m(h := map_option g (?m h))"
    using fx_modify_spec [OF i(1), of h g] by (simp_all add: c'_def)
  have same: "cached_bytes (fc_arena c) (g f) = cached_bytes (fc_arena c) f" for f using g by (simp add: cached_bytes_def)
  have "total_len (fx_map (fc_files c')) = total_len ?m"
    unfolding total_len_def by (rule sum.cong) (auto simp: m(2) g split: if_splits)
  moreover have "placed (fc_push_offset c) (fx_map (fc_files c'))"
  proof -
    have "file_apart (g f) x = file_apart f x" "file_apart x (g f) = file_apart x f" for f x by (simp_all add: file_apart_def g)
    with i(6) g show ?thesis by (auto simp: placed_def m(2))
  qed
  moreover have "backed (disk (fc_driver c)) (fc_arena c) (fx_map (fc_files c'))"
    by (rule backed_cong [OF i(8) refl]) (use g same in \<open>auto simp: m(2) split: if_splits\<close>)
  ultimately show "cache_inv disk c'" using m(1) i by (simp add: cache_inv_def c'_def)
  show "fs_view disk c' = fs_view disk c"
    using same by (auto simp: fs_view_def m(2) fun_eq_iff c'_def fx_modify_spec(2) [OF i(1)] split: option.splits)
qed

lemma tick_keeps: "cache_inv disk (c\<lparr>fc_access_tick := t\<rparr>) = cache_inv disk c" "fs_view disk (c\<lparr>fc_access_tick := t\<rparr>) = fs_view disk c"
  by (simp_all add: cache_inv_def fs_view_def fun_eq_iff split: option.splits)

lemma driver_keeps: "disk d = disk (fc_driver c) \<Longrightarrow> cache_inv disk (c\<lparr>fc_driver := d\<rparr>) = cache_inv disk c"
  "disk d = disk (fc_driver c) \<Longrightarrow> fs_view disk (c\<lparr>fc_driver := d\<rparr>) = fs_view disk c"
  by (simp add: cache_inv_def) (rule ext, simp add: fs_view_def split: option.splits)

lemma nodes_keep: "fx_inv nodes \<Longrightarrow> cache_inv disk c \<Longrightarrow> cache_inv disk (c\<lparr>fc_file_nodes := nodes\<rparr>)"
  "fs_view disk (c\<lparr>fc_file_nodes := nodes\<rparr>) = fs_view disk c"
  by (simp_all add: cache_inv_def fs_view_def fun_eq_iff split: option.splits)

section \<open>Loading\<close>

lemma loaded:
  assumes inv: "cache_inv disk c" and h: "fx_map (fc_files c) h = None" "h \<noteq> INVALID_NODE_HANDLE" "disk (fc_driver c) h = Some bs"
    and d: "disk d = disk (fc_driver c)" and m: "fx_inv m" "fx_map m = (fx_map (fc_files c))(h \<mapsto> f)"
    and f: "cf_arena_offset f = fc_push_offset c" "cf_len f = length bs"
    and data: "length bs \<le> length data" "take (length bs) data = bs" "fc_push_offset c + length data \<le> fc_max_memory c"
    and nodes: "fx_inv nodes"
  defines "c' \<equiv> c\<lparr>fc_driver := d, fc_arena := blit (fc_push_offset c) data (fc_arena c),
      fc_push_offset := fc_push_offset c + length data, fc_memory_used := fc_memory_used c + length bs, fc_files := m, fc_file_nodes := nodes\<rparr>"
  shows "cache_inv disk c'" "fs_view disk c' = fs_view disk c"
proof -
  note i = cache_invD [OF inv]
  let ?m = "fx_map (fc_files c)" and ?a = "blit (fc_push_offset c) data (fc_arena c)"
  have old: "cached_bytes ?a g = cached_bytes (fc_arena c) g" if "?m k = Some g" for k g
    unfolding cached_bytes_def
    by (rule chunk_blit_disjoint) (use cached_in_arena [OF inv that] i(3) data(3) in simp_all)
  have "chunk (fc_push_offset c) (length bs) ?a = chunk 0 (length bs) (chunk (fc_push_offset c) (length data) ?a)"
    using data(1) by (simp add: chunk_chunk)
  also have "\<dots> = bs" using data(2,3) i(3) by (simp add: chunk_def [of 0])
  finally have new: "cached_bytes ?a f = bs" by (simp add: cached_bytes_def f)
  have "placed (fc_push_offset c + length data) (fx_map m)"
    unfolding m(2) by (rule placed_insert [OF i(6) h(2)]) (use f data(1) in simp_all)
  moreover have "total_len (fx_map m) = fc_memory_used c + length bs"
    using total_len_insert [OF finite_fx_map h(1)] i(7) f(2) by (simp add: m(2))
  moreover have "backed (disk d) ?a (fx_map m)"
    unfolding backed_def m(2) d
  proof (intro allI impI)
    fix k g assume k: "(?m(h \<mapsto> f)) k = Some g"
    show "\<exists>bs. disk (fc_driver c) k = Some bs \<and> length bs \<le> cf_len g \<and> (cf_is_dirty g \<or> bs = cached_bytes ?a g)"
    proof (cases "k = h")
      case True
      with k h(3) new f(2) show ?thesis by simp
    next
      case False
      with k have g: "?m k = Some g" by simp
      from backedD [OF i(8) g] show ?thesis unfolding old [OF g] by metis
    qed
  qed
  ultimately show "cache_inv disk c'" using i m(1) data(3) nodes by (simp add: cache_inv_def c'_def)
  show "fs_view disk c' = fs_view disk c"
    using old new h(1,3) d by (auto simp: fs_view_def c'_def m(2) fun_eq_iff split: option.splits)
qed

end
