(* ===== verification/File_Cache_Props.thy ===== *)
theory File_Cache_Props
  imports File_Cache_Space
begin

text \<open>
  The file cache is transparent: reads and writes through it act on the view of the file system,
  whatever is evicted, moved or written back on the way; flushing brings the driver up to the view.
  The last section holds the cases in which the code does not do what it means to.
\<close>

section \<open>Reading\<close>

definition read_result :: "u8 list \<Rightarrow> nat \<Rightarrow> u8 list \<Rightarrow> nat \<times> u8 list" where
  \<comment> \<open>what reading \<open>bs\<close> from \<open>offset\<close> into the buffer \<open>out\<close> returns\<close>
  "read_result bs offset out =
     (let n = min (length out) (length bs - offset) in (n, blit 0 (chunk offset n bs) out))"

lemma copy_out_spec:
  assumes "off + len \<le> length (fc_arena c)"
  shows "copy_out off len offset out c = (Ok (read_result (chunk off len (fc_arena c)) offset out), c)"
proof (cases "len \<le> offset")
  case True
  with assms show ?thesis by (simp add: copy_out_def read_result_def ret_def blit_def chunk_def Let_def)
next
  case False
  let ?n = "min (length out) (len - offset)"
  have "chunk offset ?n (chunk off len (fc_arena c)) = chunk (off + offset) ?n (fc_arena c)"
    using False by (intro chunk_chunk) auto
  moreover have "arena_slice (off + offset) ?n c = (Ok (chunk (off + offset) ?n (fc_arena c)), c)"
    by (rule arena_calls) (use assms False in linarith)
  ultimately show ?thesis using False assms
    by (simp add: copy_out_def read_result_def bind_def ret_def Let_def)
qed

lemma push_alloc_Ok:
  assumes "fc_push_offset c + n \<le> fc_max_memory c" "fc_max_memory c < 2 ^ 63"
  shows "arena_push_alloc n c = (Ok (Some (fc_push_offset c)), c\<lparr>fc_push_offset := fc_push_offset c + n\<rparr>)"
  using assms by (simp add: arena_push_alloc_def bind_def reading_def modify_def usize_add_def ret_def)

lemma fill_Ok:
  assumes "driver_ok ops disk" "disk (fc_driver c) h = Some bs" "off + length bs \<le> length (fc_arena c)"
  shows "\<exists>d. fill_from_driver ops h off (length bs) c = (Ok (length bs), c\<lparr>fc_driver := d, fc_arena := blit off bs (fc_arena c)\<rparr>)
    \<and> disk d = disk (fc_driver c)"
proof -
  let ?buf = "chunk off (length bs) (fc_arena c)"
  have len: "length ?buf = length bs" using assms(3) by simp
  then have "length bs \<le> length ?buf" "blit 0 bs ?buf = bs" by (simp_all only: blit_whole)
  with driver_okD(3) [OF assms(1,2), of ?buf] obtain d where
    "cd_read_file_into ops h ?buf (fc_driver c) = (Ok (length bs, bs), d)" "disk d = disk (fc_driver c)"
    by auto
  with assms(3) show ?thesis by (auto simp: fill_from_driver_def bind_def arena_calls on_driver_def ret_def)
qed

lemma insert_file_Ok:
  assumes "fx_inv (fc_files c)" "spare_slot (fc_files c)"
  shows "\<exists>m. insert_file h f c = (Ok (), c\<lparr>fc_files := m\<rparr>) \<and> fx_inv m \<and> fx_map m = (fx_map (fc_files c))(h \<mapsto> f)"
  using fx_insert_accepts(1) [OF assms(1) spare_slot_accepts [OF assms(2)], of h f]
  by (auto simp: insert_file_def stored_def reading_def modify_def)

lemma insert_node_Ok:
  assumes "fx_inv (fc_file_nodes c)" "spare_slot (fc_file_nodes c)"
  shows "\<exists>m. insert_node h n c = (Ok (), c\<lparr>fc_file_nodes := m\<rparr>) \<and> fx_inv m \<and> fx_map m h \<noteq> None"
  using fx_insert_accepts(1) [OF assms(1) spare_slot_accepts [OF assms(2)], of h n]
  by (auto simp: insert_node_def stored_def reading_def modify_def)

lemma get_node_Ok:
  assumes "driver_ok ops disk" "disk (fc_driver c) h = Some bs"
  shows "\<exists>node d. on_driver (cd_get_node ops h) c = (Ok node, c\<lparr>fc_driver := d\<rparr>) \<and> disk d = disk (fc_driver c)"
  using driver_okD(4) [OF assms] by (auto simp: on_driver_def)

lemma read_load_spec:
  assumes drv: "driver_ok ops disk" and inv: "cache_inv disk c" and h: "fx_map (fc_files c) h = None" "h \<noteq> INVALID_NODE_HANDLE"
    "disk (fc_driver c) h = Some bs" and fits: "fc_push_offset c + length bs \<le> fc_max_memory c"
    and spare: "spare_slot (fc_files c)" "spare_slot (fc_file_nodes c)"
  shows "\<exists>c'. read_load ops h (length bs) offset out (fc_push_offset c) (c\<lparr>fc_push_offset := fc_push_offset c + length bs\<rparr>)
      = (Ok (read_result bs offset out), c') \<and> cache_inv disk c' \<and> fs_view disk c' = fs_view disk c"
proof -
  note i = cache_invD [OF inv]
  let ?c0 = "c\<lparr>fc_push_offset := fc_push_offset c + length bs\<rparr>" and ?a = "blit (fc_push_offset c) bs (fc_arena c)"
  from fill_Ok [OF drv, of ?c0 h bs "fc_push_offset c"] h(3) fits i(3) obtain d where d:
    "fill_from_driver ops h (fc_push_offset c) (length bs) ?c0 = (Ok (length bs), ?c0\<lparr>fc_driver := d, fc_arena := ?a\<rparr>)"
    "disk d = disk (fc_driver c)" by auto
  let ?c1 = "?c0\<lparr>fc_driver := d, fc_arena := ?a\<rparr>"
  let ?f = "cached_file_new (fc_push_offset c) (length bs) (fc_access_tick ?c1) (get_effective_importance ?c1 h)"
  from insert_file_Ok [of ?c1 h ?f] i(1) spare(1) obtain m where m: "insert_file h ?f ?c1 = (Ok (), ?c1\<lparr>fc_files := m\<rparr>)"
    "fx_inv m" "fx_map m = (fx_map (fc_files c))(h \<mapsto> ?f)" by auto
  let ?c2 = "?c1\<lparr>fc_files := m\<rparr>"
  from get_node_Ok [OF drv, of ?c2 h bs] d(2) h(3) obtain node d' where g:
    "on_driver (cd_get_node ops h) ?c2 = (Ok node, ?c2\<lparr>fc_driver := d'\<rparr>)" "disk d' = disk (fc_driver c)" by auto
  let ?c3 = "?c2\<lparr>fc_driver := d'\<rparr>"
  from insert_node_Ok [of ?c3 h node] i(2) spare(2) obtain nodes where n: "insert_node h node ?c3 = (Ok (), ?c3\<lparr>fc_file_nodes := nodes\<rparr>)"
    "fx_inv nodes" by auto
  define c' where "c' = c\<lparr>fc_driver := d', fc_arena := ?a, fc_push_offset := fc_push_offset c + length bs,
    fc_memory_used := fc_memory_used c + length bs, fc_files := m, fc_file_nodes := nodes\<rparr>"
  have "fc_memory_used c + length bs < 2 ^ 64" using i(4,5,9) fits by simp
  then have used: "add_memory_used (length bs) (?c3\<lparr>fc_file_nodes := nodes\<rparr>) = (Ok (), c')"
    by (simp add: memory_calls c'_def)
  have a: "chunk (fc_push_offset c) (length bs) (fc_arena c') = bs" using fits i(3) by (simp add: c'_def)
  have "fc_push_offset c + length bs \<le> length (fc_arena c')" using fits i(3) by (simp add: c'_def)
  note out = copy_out_spec [OF this, of offset out, unfolded a]
  have "read_load ops h (length bs) offset out (fc_push_offset c) ?c0 = (Ok (read_result bs offset out), c')"
    unfolding read_load_def using d(1) m(1) g(1) n(1) used out by (simp add: bind_def reading_def)
  moreover have "cache_inv disk c'" "fs_view disk c' = fs_view disk c"
    unfolding c'_def by (rule loaded [OF inv h g(2) m(2,3)]; use fits n(2) in \<open>simp add: cached_file_new_def\<close>)+
  ultimately show ?thesis by blast
qed

definition cache_ready :: "('d \<Rightarrow> file_node_handle \<Rightarrow> u8 list option) \<Rightarrow> 'd file_cache \<Rightarrow> bool" where
  "cache_ready disk c \<longleftrightarrow> cache_inv disk c \<and> spare_slot (fc_files c) \<and> spare_slot (fc_file_nodes c)"

definition room_or_small :: "nat \<Rightarrow> 'd file_cache \<Rightarrow> bool" where
  \<comment> \<open>the arena has room at its end, or no cached file is larger than what is needed\<close>
  "room_or_small n c \<longleftrightarrow> fc_push_offset c + n \<le> fc_max_memory c
     \<or> (\<forall>h f. fx_map (fc_files c) h = Some f \<longrightarrow> cf_len f \<le> n)"

lemma movable_absent: "m s = None \<Longrightarrow> movable s m"
  by (simp add: movable_def)

lemma invalid_not_cached: "cache_inv disk c \<Longrightarrow> fx_map (fc_files c) INVALID_NODE_HANDLE = None"
  using placedD(1) [OF cache_invD(6)] by (metis not_None_eq)

text \<open>Making room for a file that is not cached.\<close>

lemma room_for_new:
  assumes drv: "driver_ok ops disk" and rdy: "cache_ready disk c" and n: "n < 2 ^ 63"
  shows "\<exists>r c'. ensure_space ops n INVALID_NODE_HANDLE True c = (r, c')
    \<and> (r = Panic \<and> \<not> room_or_small n c
       \<or> (\<exists>b. r = Ok b \<and> made_room disk INVALID_NODE_HANDLE c c' \<and> cache_ready disk c'
            \<and> (b \<longrightarrow> fc_push_offset c' + n \<le> fc_max_memory c') \<and> (fc_push_offset c + n \<le> fc_max_memory c \<longrightarrow> b \<and> c' = c)))"
proof -
  have inv: "cache_inv disk c" using rdy by (simp add: cache_ready_def)
  have mv: "movable INVALID_NODE_HANDLE (fx_map (fc_files c))" by (rule movable_absent) (rule invalid_not_cached [OF inv])
  obtain r c' where e: "ensure_space ops n INVALID_NODE_HANDLE True c = (r, c')" by (cases "ensure_space ops n INVALID_NODE_HANDLE True c")
  have fit: "r = Ok True \<and> c' = c" if "fc_push_offset c + n \<le> fc_max_memory c"
    using ensure_space_fits [OF inv that] e by simp
  have res: "room_result disk n INVALID_NODE_HANDLE c (r, c')"
    using ensure_space_spec [OF drv inv mv n] e by metis
  have rdy': "cache_ready disk c'" if "made_room disk INVALID_NODE_HANDLE c c'"
    using that rdy by (simp add: made_room_def cache_ready_def same_frame_def)
  show ?thesis
  proof (cases "r = Panic")
    case True
    with res have "\<not> small_victims n INVALID_NODE_HANDLE (fx_map (fc_files c))" by (simp add: room_result_def)
    then have "\<not> room_or_small n c" using fit True by (auto simp: room_or_small_def small_victims_def)
    with True e show ?thesis by blast
  next
    case False
    with res obtain b where "r = Ok b" "made_room disk INVALID_NODE_HANDLE c c'" "b \<Longrightarrow> fc_push_offset c' + n \<le> fc_max_memory c'"
      by (auto simp: room_result_def)
    with e rdy' fit show ?thesis by auto
  qed
qed

lemma not_cached_room:
  assumes "made_room disk s c c'" "fx_map (fc_files c) h = None"
  shows "fx_map (fc_files c') h = None"
  using assms unfolding made_room_def by (metis option.distinct(1) option.exhaust)

definition read_ok :: "('d \<Rightarrow> file_node_handle \<Rightarrow> u8 list option) \<Rightarrow> file_node_handle \<Rightarrow> u8 list \<Rightarrow> nat \<Rightarrow> u8 list \<Rightarrow> 'd file_cache \<Rightarrow>
    (file_system_error, nat \<times> u8 list) outcome \<times> 'd file_cache \<Rightarrow> bool" where
  "read_ok disk h bs offset out c res \<longleftrightarrow> (case res of (r, c') \<Rightarrow> cache_inv disk c' \<and> fs_view disk c' = fs_view disk c
     \<and> (r = Ok (read_result bs offset out)
        \<or> r = Err CacheFull \<and> \<not> is_cached c h \<and> \<not> fc_push_offset c + length bs \<le> fc_max_memory c))"

lemma is_cached_iff: "fx_inv (fc_files c) \<Longrightarrow> is_cached c h \<longleftrightarrow> fx_map (fc_files c) h \<noteq> None"
  by (simp add: is_cached_def fx_contains_key_def fx_get_map)

lemma read_miss_spec:
  assumes drv: "driver_ok ops disk" and rdy: "cache_ready disk c" and h: "fx_map (fc_files c) h = None" "h \<noteq> INVALID_NODE_HANDLE"
    "disk (fc_driver c) h = Some bs" and room: "room_or_small (length bs) c"
  shows "read_ok disk h bs offset out c (read_miss ops h offset out c)"
proof -
  have inv: "cache_inv disk c" using rdy by (simp add: cache_ready_def)
  have nc: "\<not> is_cached c h" using is_cached_iff [OF cache_invD(1) [OF inv]] h(1) by simp
  from driver_okD(2) [OF drv h(3)] obtain d where d: "cd_file_size ops h (fc_driver c) = (Ok (length bs), d)" "disk d = disk (fc_driver c)" by blast
  let ?c = "c\<lparr>fc_driver := d\<rparr>"
  have keep: "cache_inv disk ?c" "fs_view disk ?c = fs_view disk c" using driver_keeps(1) [of disk d c] driver_keeps(2) [of disk d c] d(2) inv by simp_all
  have rdy1: "cache_ready disk ?c" using rdy keep by (simp add: cache_ready_def)
  have size: "on_driver (cd_file_size ops h) c = (Ok (length bs), ?c)" by (simp add: on_driver_def d(1))
  show ?thesis
  proof (cases "bs = []")
    case True
    then show ?thesis using size keep by (simp add: read_miss_def bind_def ret_def read_ok_def read_result_def blit_def chunk_def)
  next
    case False
    have small: "room_or_small (length bs) ?c" using room by (simp add: room_or_small_def)
    obtain b c1 where e: "ensure_space ops (length bs) INVALID_NODE_HANDLE True ?c = (Ok b, c1)" "made_room disk INVALID_NODE_HANDLE ?c c1"
      "cache_ready disk c1" "b \<Longrightarrow> fc_push_offset c1 + length bs \<le> fc_max_memory c1"
      "fc_push_offset c + length bs \<le> fc_max_memory c \<Longrightarrow> b"
      using room_for_new [OF drv rdy1 driver_okD(1) [OF drv h(3)]] small by auto
    have inv1: "cache_inv disk c1" "fs_view disk c1 = fs_view disk c" using e(2) keep by (simp_all add: made_room_def)
    show ?thesis
    proof (cases b)
      case False
      with size e(1,5) \<open>bs \<noteq> []\<close> inv1 nc show ?thesis by (auto simp: read_miss_def bind_def fail_def read_ok_def)
    next
      case True
      have h1: "fx_map (fc_files c1) h = None" by (rule not_cached_room [OF e(2)]) (simp add: h(1))
      with inv1(2) h have "disk (fc_driver c1) h = Some bs" by (auto simp: fs_view_def fun_eq_iff dest: spec [of _ h])
      from read_load_spec [OF drv inv1(1) h1 h(2) this e(4) [OF True]] e(3) obtain c2 where l:
        "read_load ops h (length bs) offset out (fc_push_offset c1) (c1\<lparr>fc_push_offset := fc_push_offset c1 + length bs\<rparr>)
           = (Ok (read_result bs offset out), c2)" "cache_inv disk c2" "fs_view disk c2 = fs_view disk c1"
        by (auto simp: cache_ready_def)
      with size e(1) True \<open>bs \<noteq> []\<close> inv1 push_alloc_Ok [OF e(4) [OF True] cache_invD(4) [OF inv1(1)]] show ?thesis
        by (simp add: read_miss_def bind_def read_ok_def)
    qed
  qed
qed

lemma read_hit_spec:
  assumes inv: "cache_inv disk c" and f: "fx_map (fc_files c) h = Some f"
  shows "read_ok disk h (cached_bytes (fc_arena c) f) offset out c
    (bind (update_file h (\<lambda>f. f\<lparr>cf_last_access := tick\<rparr>)) (\<lambda>_. copy_out (cf_arena_offset f) (cf_len f) offset out) c)"
  using update_file_keeps [OF inv, of "\<lambda>f. f\<lparr>cf_last_access := tick\<rparr>" h] cached_in_arena(2) [OF inv f]
  by (simp add: bind_def update_file_def modify_def copy_out_spec cached_bytes_def read_ok_def)

lemma next_tick_run: "bind next_tick f c = f () (c\<lparr>fc_access_tick := fc_access_tick c + 1\<rparr>)"
  by (simp add: bind_def next_tick_def modify_def)

lemma read_file_range_spec:
  assumes drv: "driver_ok ops disk" and rdy: "cache_ready disk c" and h: "h \<noteq> INVALID_NODE_HANDLE" "fs_view disk c h = Some bs"
    and room: "is_cached c h \<or> room_or_small (length bs) c"
  shows "read_ok disk h bs offset out c (read_file_range ops h offset out c)"
proof -
  let ?c = "c\<lparr>fc_access_tick := fc_access_tick c + 1\<rparr>"
  have rdy': "cache_ready disk ?c" using rdy by (simp add: cache_ready_def tick_keeps)
  then have inv: "cache_inv disk ?c" by (simp add: cache_ready_def)
  note fx = cache_invD(1) [OF inv, simplified]
  have shift: "read_ok disk h bs offset out c res" if "read_ok disk h bs offset out ?c res" for res
    using that by (simp add: read_ok_def tick_keeps is_cached_def)
  show ?thesis
  proof (cases "fx_map (fc_files c) h")
    case (Some f)
    then have "bs = cached_bytes (fc_arena ?c) f" using h(2) by (simp add: fs_view_def)
    with read_hit_spec [OF inv, of h f offset out] Some fx_get_map [OF fx] show ?thesis
      by (intro shift) (simp add: read_file_range_def next_tick_run reading_def)
  next
    case None
    then have "room_or_small (length bs) ?c" using room is_cached_iff [OF fx] by (simp add: room_or_small_def)
    moreover have "disk (fc_driver ?c) h = Some bs" using h(2) None by (simp add: fs_view_def)
    ultimately show ?thesis using read_miss_spec [OF drv rdy' _ h(1)] None fx_get_map [OF fx]
      by (intro shift) (simp add: read_file_range_def next_tick_run reading_def)
  qed
qed

text \<open>C3: Provided that the file is cached, or fits behind the last file of the arena, or is at least as large
  as every cached file, and that the tables of the cache have a free slot, reading through the cache
  returns the bytes of the file as the cache presents it, cut off at the end of the file and of the
  buffer, whatever is evicted or moved to load it; the contents of no file change. Under these
  conditions the only other outcome is that the cache is full. (For an uncached file smaller than a
  cached one, without room at the end, \<open>cache_read_evicts_larger_file\<close> shows a panic.)\<close>

theorem cache_read_coherent:
  assumes "driver_ok ops disk" "cache_ready disk c" "h \<noteq> INVALID_NODE_HANDLE" "fs_view disk c h = Some bs"
    and "is_cached c h \<or> room_or_small (length bs) c"
  shows "\<exists>r c'. read_file_range ops h offset out c = (r, c') \<and> cache_inv disk c' \<and> fs_view disk c' = fs_view disk c
    \<and> (r = Ok (let n = min (length out) (length bs - offset) in (n, blit 0 (chunk offset n bs) out))
       \<or> r = Err CacheFull \<and> \<not> is_cached c h \<and> fc_max_memory c < fc_push_offset c + length bs)"
  using read_file_range_spec [OF assms, of offset out] by (auto simp: read_ok_def read_result_def split: prod.splits)

section \<open>A driver to run the cache on\<close>

text \<open>Files as a map from handles to bytes; used to evaluate the cache on concrete inputs.\<close>

definition plain_node :: "file_node_handle \<Rightarrow> u8 list \<Rightarrow> file_node" where
  "plain_node h bs = \<lparr>fn_node_id = h, fn_name = [], fn_file_type = File, fn_size = length bs, fn_created_time = 0,
     fn_modified_time = 0, fn_attributes = FILE_READ_WRITE\<rparr>"

definition on_file :: "file_node_handle \<Rightarrow> (u8 list \<Rightarrow> (file_node_handle \<rightharpoonup> u8 list, file_system_error, 'a) call) \<Rightarrow>
    (file_node_handle \<rightharpoonup> u8 list, file_system_error, 'a) call" where
  "on_file h m = (\<lambda>d. case d h of Some bs \<Rightarrow> m bs d | None \<Rightarrow> (Err NotFound, d))"

definition plain_driver :: "(file_node_handle \<rightharpoonup> u8 list) cache_driver" where
  "plain_driver =
     \<lparr>cd_read_file_into = (\<lambda>h buf. on_file h (\<lambda>bs. ret (min (length bs) (length buf), blit 0 (take (length buf) bs) buf))),
      cd_write_file = (\<lambda>h offset data. on_file h (\<lambda>bs d.
         let bs' = take offset bs @ data @ drop (offset + length data) bs in
         if length bs' < 2 ^ 63 then (Ok (length data), d(h \<mapsto> bs')) else (Err FileSizeExceeded, d))),
      cd_file_size = (\<lambda>h. on_file h (\<lambda>bs. ret (length bs))),
      cd_read_dir = (\<lambda>h. fail NotDirectory),
      cd_get_node = (\<lambda>h. on_file h (\<lambda>bs. ret (plain_node h bs)))\<rparr>"

definition plain_disk :: "(file_node_handle \<rightharpoonup> u8 list) \<Rightarrow> file_node_handle \<Rightarrow> u8 list option" where
  "plain_disk d h = (case d h of Some bs \<Rightarrow> if length bs < 2 ^ 63 then Some bs else None | None \<Rightarrow> None)"

lemma plain_driver_ok: "driver_ok plain_driver plain_disk"
  unfolding driver_ok_def
proof (intro allI impI)
  fix d :: "file_node_handle \<rightharpoonup> u8 list" and h bs assume "plain_disk d h = Some bs"
  then have bs: "d h = Some bs" "length bs < 2 ^ 63" by (auto simp: plain_disk_def split: option.splits if_splits)
  have "\<exists>r d' bs'. cd_write_file plain_driver h 0 data d = (r, d') \<and> plain_disk d' = (plain_disk d)(h \<mapsto> bs')
      \<and> (r = Ok (length data) \<and> bs' = data @ drop (length data) bs \<or> (\<exists>e. r = Err e) \<and> length bs' \<le> max (length bs) (length data))" for data
  proof (cases "length (data @ drop (length data) bs) < 2 ^ 63")
    case True
    let ?bs = "data @ drop (length data) bs"
    have "cd_write_file plain_driver h 0 data d = (Ok (length data), d(h \<mapsto> ?bs))"
      using True bs(1) by (simp add: plain_driver_def on_file_def Let_def)
    moreover have "plain_disk (d(h \<mapsto> ?bs)) = (plain_disk d)(h \<mapsto> ?bs)" using True by (auto simp: plain_disk_def fun_eq_iff)
    ultimately show ?thesis by blast
  next
    case False
    then have "cd_write_file plain_driver h 0 data d = (Err FileSizeExceeded, d)"
      using bs(1) by (simp add: plain_driver_def on_file_def Let_def)
    moreover have "plain_disk d = (plain_disk d)(h \<mapsto> bs)" using \<open>plain_disk d h = Some bs\<close> by auto
    ultimately show ?thesis by (intro exI [of _ "Err FileSizeExceeded"] exI [of _ d] exI [of _ bs]) simp
  qed
  with bs show "length bs < 2 ^ 63 \<and> (\<exists>d'. cd_file_size plain_driver h d = (Ok (length bs), d') \<and> plain_disk d' = plain_disk d)
     \<and> (\<forall>buf. length bs \<le> length buf \<longrightarrow> (\<exists>d'. cd_read_file_into plain_driver h buf d = (Ok (length bs, blit 0 bs buf), d') \<and> plain_disk d' = plain_disk d))
     \<and> (\<exists>node d'. cd_get_node plain_driver h d = (Ok node, d') \<and> plain_disk d' = plain_disk d)
     \<and> (\<forall>data. \<exists>r d' bs'. cd_write_file plain_driver h 0 data d = (r, d') \<and> plain_disk d' = (plain_disk d)(h \<mapsto> bs')
          \<and> (r = Ok (length data) \<and> bs' = data @ drop (length data) bs
             \<or> (\<exists>e. r = Err e) \<and> length bs' \<le> max (length bs) (length data)))"
    by (auto simp: plain_driver_def on_file_def ret_def)
qed

lemma with_capacity_1024:
  "fx_with_capacity FS_CACHE_MAP_FILE_COUNT = Ok \<lparr>fx_slots = replicate (2 ^ 10) Empty, fx_count = 0\<rparr>"
proof -
  have "next_power_of_two 1024 = 1024"
    by (simp add: next_power_of_two_def next_power_of_two_from.simps [of "Suc 0"] next_power_of_two_from.simps [of 2]
        next_power_of_two_from.simps [of 4] next_power_of_two_from.simps [of 8] next_power_of_two_from.simps [of 16]
        next_power_of_two_from.simps [of 32] next_power_of_two_from.simps [of 64] next_power_of_two_from.simps [of 128]
        next_power_of_two_from.simps [of 256] next_power_of_two_from.simps [of 512] next_power_of_two_from.simps [of 1024])
  then show ?thesis by (simp add: fx_with_capacity_def FS_CACHE_MAP_FILE_COUNT_def DEFAULT_CAPACITY_def layout_array_ok_def)
qed

lemma fresh_map:
  defines "m \<equiv> \<lparr>fx_slots = replicate (2 ^ 10) Empty, fx_count = 0\<rparr>"
  shows "fx_inv m" "fx_map m = Map.empty" "spare_slot m"
  using fx_with_capacity_inv [of 10] unfolding m_def by (auto simp: spare_slot_def intro: exI [of _ 0])

lemma cache_new_ready:
  assumes "n < 2 ^ 63"
  shows "\<exists>c. file_cache_new d n = Ok c \<and> cache_ready disk c \<and> fs_view disk c = disk d \<and> fc_push_offset c = 0
    \<and> fc_max_memory c = n \<and> fx_map (fc_files c) = Map.empty"
  using assms fresh_map(1,3) [where 'a = cached_file] fresh_map(1,3) [where 'a = file_node] fresh_map(2) [where 'a = cached_file]
  by (auto simp: file_cache_new_def with_capacity_1024 fx_new_eq layout_array_ok_def cache_ready_def cache_inv_def
      fs_view_def fun_eq_iff placed_def total_len_def backed_def)

theorem cache_read_coherent_witness:
  "\<exists>c c'. file_cache_new [5 \<mapsto> [10, 20, 30]] 64 = Ok c
     \<and> read_file_range plain_driver 5 1 [0, 0] c = (Ok (2, [20, 30]), c')"
proof -
  obtain c where c: "file_cache_new [5 \<mapsto> [10, 20, 30]] 64 = Ok c" "cache_ready plain_disk c"
    "fs_view plain_disk c = plain_disk [5 \<mapsto> [10, 20, 30]]" "fc_push_offset c = 0" "fc_max_memory c = 64"
    using cache_new_ready [of 64 "[5 \<mapsto> [10, 20, 30]]" plain_disk] by auto
  have v: "fs_view plain_disk c 5 = Some [10, 20, 30]" by (simp add: c(3) plain_disk_def)
  have h: "(5 :: file_node_handle) \<noteq> INVALID_NODE_HANDLE" by (simp add: INVALID_NODE_HANDLE_def)
  have small: "is_cached c 5 \<or> room_or_small (length [10 :: u8, 20, 30]) c" by (simp add: room_or_small_def c(4,5))
  show ?thesis
    using cache_read_coherent [OF plain_driver_ok c(2) h v small, of 1 "[0, 0]"] c(1,4,5)
    by (auto simp: chunk_def blit_def numeral_2_eq_2)
qed

section \<open>Writing\<close>

definition write_bytes :: "u8 list \<Rightarrow> nat \<Rightarrow> u8 list \<Rightarrow> u8 list" where
  \<comment> \<open>the gap between the old end and \<open>offset\<close> is filled with zeros\<close>
  "write_bytes bs offset data = blit offset data (bs @ replicate (offset + length data - length bs) 0)"

text \<open>A cached file after a write: grown in place, moved to the end, or changed within its length.\<close>

definition grown :: "nat \<Rightarrow> cached_file \<Rightarrow> cached_file \<Rightarrow> bool" where
  "grown push f f' \<longleftrightarrow> cf_len f \<le> cf_len f'
     \<and> (cf_arena_offset f' = cf_arena_offset f \<and> (cf_len f' = cf_len f \<or> cf_arena_offset f + cf_len f = push)
        \<or> push \<le> cf_arena_offset f')"

lemma grown_apart:
  assumes "placed push m" "m h = Some f" "m k = Some g" "k \<noteq> h" "grown push f f'"
  shows "file_apart f' g" "file_apart g f'"
  using placedD(3) [OF assms(1-3)] placedD(2) [OF assms(1,3)] assms(4,5) by (auto simp: file_apart_def grown_def)

lemma written:
  assumes inv: "cache_inv disk c" and f: "fx_map (fc_files c) h = Some f" and d: "disk d = disk (fc_driver c)"
    and m: "fx_inv m" "fx_map m = (fx_map (fc_files c))(h \<mapsto> f')" and nodes: "fx_inv nodes"
    and f': "cf_is_dirty f'" "cf_arena_offset f' + cf_len f' \<le> p" "grown (fc_push_offset c) f f'"
    and p: "fc_push_offset c \<le> p" "p \<le> fc_max_memory c"
    and a: "length a = length (fc_arena c)"
      "\<And>k g. k \<noteq> h \<Longrightarrow> fx_map (fc_files c) k = Some g \<Longrightarrow> cached_bytes a g = cached_bytes (fc_arena c) g"
  defines "c' \<equiv> c\<lparr>fc_driver := d, fc_arena := a, fc_push_offset := p,
      fc_memory_used := fc_memory_used c + (cf_len f' - cf_len f), fc_files := m, fc_file_nodes := nodes\<rparr>"
  shows "cache_inv disk c'" "fs_view disk c' = (fs_view disk c)(h \<mapsto> cached_bytes a f')"
proof -
  note i = cache_invD [OF inv]
  let ?m = "fx_map (fc_files c)"
  have low: "cf_arena_offset g + cf_len g \<le> fc_push_offset c" "k \<noteq> INVALID_NODE_HANDLE" if "?m k = Some g" for k g
    using placedD [OF i(6) that] by auto
  have len: "cf_len f \<le> cf_len f'" using f'(3) by (simp add: grown_def)
  have apart: "file_apart f' g \<and> file_apart g f'" if "?m k = Some g" "k \<noteq> h" for k g
    using grown_apart [OF i(6) f that f'(3)] by blast
  have "placed p (fx_map m)"
    unfolding placed_def m(2)
  proof (intro conjI allI impI)
    fix k g assume k: "(?m(h \<mapsto> f')) k = Some g"
    show "k \<noteq> INVALID_NODE_HANDLE" using k low(2) f by (auto split: if_splits)
    show "cf_arena_offset g + cf_len g \<le> p" using k low(1) [of k g] f'(2) p(1) by (auto split: if_splits)
    show "file_apart g g'" if "(?m(h \<mapsto> f')) k' = Some g'" "k \<noteq> k'" for k' g'
      using k that apart placedD(3) [OF i(6)] by (auto split: if_splits)
  qed simp
  moreover have "total_len (fx_map m) = fc_memory_used c + (cf_len f' - cf_len f)"
    using total_len_update [OF finite_fx_map f, of f'] len i(7) by (simp add: m(2))
  moreover have "backed (disk d) a (fx_map m)"
    unfolding backed_def m(2) d
  proof (intro allI impI)
    fix k g assume k: "(?m(h \<mapsto> f')) k = Some g"
    show "\<exists>bs. disk (fc_driver c) k = Some bs \<and> length bs \<le> cf_len g \<and> (cf_is_dirty g \<or> bs = cached_bytes a g)"
    proof (cases "k = h")
      case True
      with k f'(1) len backedD [OF i(8) f] show ?thesis by (metis fun_upd_same option.inject order_trans)
    next
      case False
      with k have g: "?m k = Some g" by simp
      from backedD [OF i(8) g] show ?thesis unfolding a(2) [OF False g] by metis
    qed
  qed
  ultimately show "cache_inv disk c'" using i m(1) nodes a(1) p(2) by (simp add: cache_inv_def c'_def)
  show "fs_view disk c' = (fs_view disk c)(h \<mapsto> cached_bytes a f')"
    using a(2) d by (auto simp: fs_view_def c'_def m(2) fun_eq_iff split: option.splits)
qed

lemma touch_node_Ok:
  assumes drv: "driver_ok ops disk" "disk (fc_driver c) h = Some bs" and nodes: "fx_inv (fc_file_nodes c)"
    "spare_slot (fc_file_nodes c) \<or> fx_map (fc_file_nodes c) h \<noteq> None"
  shows "\<exists>d m. touch_node ops now h len c = (Ok (), c\<lparr>fc_driver := d, fc_file_nodes := m\<rparr>) \<and> fx_inv m \<and> disk d = disk (fc_driver c)"
proof -
  from get_node_Ok [OF drv] obtain node d where g: "on_driver (cd_get_node ops h) c = (Ok node, c\<lparr>fc_driver := d\<rparr>)"
    "disk d = disk (fc_driver c)" by blast
  have get: "fx_get (fc_file_nodes c) h = fx_map (fc_file_nodes c) h" by (rule fx_get_map [OF nodes(1)])
  show ?thesis
  proof (cases "fx_map (fc_file_nodes c) h = None")
    case True
    with nodes(2) have "spare_slot (fc_file_nodes c)" by blast
    with insert_node_Ok [of "c\<lparr>fc_driver := d\<rparr>" h node] nodes(1) g True get show ?thesis
      by (auto simp: touch_node_def bind_def reading_def)
  next
    case False
    with g get fx_modify_spec(1) [OF nodes(1)] show ?thesis
      by (auto simp: touch_node_def bind_def reading_def modify_def)
  qed
qed

lemma write_patch_run:
  assumes inv: "fx_inv (fc_files c)" and f: "fx_map (fc_files c) h = Some f" "write_end \<le> cf_len f"
    and range: "cf_arena_offset f + offset + length data \<le> length (fc_arena c)"
    and drv: "driver_ok ops disk" "disk (fc_driver c) h = Some bs" and nodes: "fx_inv (fc_file_nodes c)"
    "spare_slot (fc_file_nodes c) \<or> fx_map (fc_file_nodes c) h \<noteq> None"
  shows "\<exists>d m nodes. write_patch ops now h offset data write_end c = (Ok (length data),
      c\<lparr>fc_arena := blit (cf_arena_offset f + offset) data (fc_arena c), fc_files := m, fc_driver := d, fc_file_nodes := nodes\<rparr>)
    \<and> fx_inv m \<and> fx_map m = (fx_map (fc_files c))(h \<mapsto> f\<lparr>cf_is_dirty := True, cf_last_access := fc_access_tick c\<rparr>)
    \<and> fx_inv nodes \<and> disk d = disk (fc_driver c)"
proof -
  let ?g = "\<lambda>f. f\<lparr>cf_len := cf_len f, cf_is_dirty := True, cf_last_access := fc_access_tick c\<rparr>"
  let ?u = "\<lambda>g. g\<lparr>cf_len := max write_end (cf_len f), cf_is_dirty := True, cf_last_access := fc_access_tick c\<rparr>"
  let ?m = "fx_modify (fc_files c) h ?u"
  define c1 where "c1 = c\<lparr>fc_arena := blit (cf_arena_offset f + offset) data (fc_arena c), fc_files := ?m\<rparr>"
  have mx: "max write_end (cf_len f) = cf_len f" using f(2) by simp
  have m: "fx_inv ?m" "fx_map ?m = (fx_map (fc_files c))(h \<mapsto> f\<lparr>cf_is_dirty := True, cf_last_access := fc_access_tick c\<rparr>)"
    using fx_modify_spec [OF inv, of h ?u] f mx by auto
  from touch_node_Ok [OF drv(1), of c1 h bs now "cf_len f"] drv(2) nodes obtain d n where
    t: "touch_node ops now h (cf_len f) c1 = (Ok (), c1\<lparr>fc_driver := d, fc_file_nodes := n\<rparr>)" "fx_inv n" "disk d = disk (fc_driver c)"
    by (auto simp: c1_def)
  have "write_patch ops now h offset data write_end c = (Ok (length data), c1\<lparr>fc_driver := d, fc_file_nodes := n\<rparr>)"
    using t(1) f fx_get_map [OF inv] range arena_calls(2) [of "cf_arena_offset f + offset" data c]
    by (simp add: write_patch_def reading_def bind_def ret_def update_file_def modify_def Let_def c1_def mx)
  with m t(2,3) show ?thesis by (auto simp: c1_def)
qed

lemma patch_spec:
  assumes inv: "cache_inv disk c" and f: "fx_map (fc_files c) h = Some f" and drv: "driver_ok ops disk"
    and nodes: "spare_slot (fc_file_nodes c) \<or> fx_map (fc_file_nodes c) h \<noteq> None"
    and m: "fx_inv m" "fx_map m = (fx_map (fc_files c))(h \<mapsto> f')"
    and f': "grown (fc_push_offset c) f f'" "cf_arena_offset f' + cf_len f' \<le> p" "cf_len f' = max (offset + length data) (cf_len f)"
    and p: "fc_push_offset c \<le> p" "p \<le> fc_max_memory c"
    and a: "length a = length (fc_arena c)"
      "\<And>k g. k \<noteq> h \<Longrightarrow> fx_map (fc_files c) k = Some g \<Longrightarrow> cached_bytes a g = cached_bytes (fc_arena c) g"
      "cached_bytes a f' = cached_bytes (fc_arena c) f @ replicate (cf_len f' - cf_len f) 0"
    and c1: "c1 = c\<lparr>fc_arena := a, fc_push_offset := p, fc_memory_used := fc_memory_used c + (cf_len f' - cf_len f), fc_files := m\<rparr>"
  shows "\<exists>c'. write_patch ops now h offset data (offset + length data) c1 = (Ok (length data), c') \<and> cache_inv disk c'
    \<and> fs_view disk c' = (fs_view disk c)(h \<mapsto> write_bytes (cached_bytes (fc_arena c) f) offset data)"
proof -
  note i = cache_invD [OF inv]
  let ?f = "f'\<lparr>cf_is_dirty := True, cf_last_access := fc_access_tick c\<rparr>" and ?a = "blit (cf_arena_offset f' + offset) data a"
  obtain bs where bs: "disk (fc_driver c) h = Some bs" by (rule backedD [OF i(8) f])
  have inside: "offset + length data \<le> cf_len f'" using f'(3) by simp
  have range: "cf_arena_offset f' + offset + length data \<le> length a" "cf_arena_offset f' + cf_len f' \<le> length a"
    using inside f'(2) p(2) i(3) a(1) by simp_all
  obtain d m' nodes' where r: "write_patch ops now h offset data (offset + length data) c1 = (Ok (length data),
      c1\<lparr>fc_arena := ?a, fc_files := m', fc_driver := d, fc_file_nodes := nodes'\<rparr>)" "fx_inv m'"
    "fx_map m' = (fx_map m)(h \<mapsto> ?f)" "fx_inv nodes'" "disk d = disk (fc_driver c)"
    using write_patch_run [of c1 h f' "offset + length data" offset data ops disk bs now] m(1) m(2) inside range(1) drv bs i(2) nodes
    by (auto simp: c1)
  have m'map: "fx_map m' = (fx_map (fc_files c))(h \<mapsto> ?f)" by (simp add: r(3) m(2))
  have other: "cached_bytes ?a g = cached_bytes (fc_arena c) g" if k: "k \<noteq> h" "fx_map (fc_files c) k = Some g" for k g
  proof -
    have "file_apart f' g" by (rule grown_apart [OF i(6) f k(2,1) f'(1)])
    then consider "cf_len g = 0" | "data = []" | "cf_arena_offset g + cf_len g \<le> cf_arena_offset f' + offset
        \<or> cf_arena_offset f' + offset + length data \<le> cf_arena_offset g"
      using inside by (fastforce simp: file_apart_def)
    then have "cached_bytes ?a g = cached_bytes a g"
    proof cases
      case 3
      then show ?thesis unfolding cached_bytes_def
        by (intro chunk_blit_disjoint) (use range cached_in_arena(2) [OF inv k(2)] a(1) in auto)
    qed (simp_all add: cached_bytes_def chunk_def blit_def)
    then show ?thesis using a(2) [OF k] by simp
  qed
  have "cached_bytes ?a ?f = blit offset data (cached_bytes a f')"
    using chunk_blit_inside [of "cf_arena_offset f'" "cf_arena_offset f' + offset" data "cf_len f'" a] inside range
    by (simp add: cached_bytes_def)
  also have "\<dots> = write_bytes (cached_bytes (fc_arena c) f) offset data"
    unfolding a(3) write_bytes_def cached_in_arena(3) [OF inv f] using f'(3) by (simp add: max_def) 
  finally have bytes: "cached_bytes ?a ?f = write_bytes (cached_bytes (fc_arena c) f) offset data" .
  have g: "grown (fc_push_offset c) f ?f" using f'(1) by (simp add: grown_def)
  let ?c = "c\<lparr>fc_driver := d, fc_arena := ?a, fc_push_offset := p, fc_memory_used := fc_memory_used c + (cf_len ?f - cf_len f),
      fc_files := m', fc_file_nodes := nodes'\<rparr>"
  have w: "cache_inv disk ?c" "fs_view disk ?c = (fs_view disk c)(h \<mapsto> cached_bytes ?a ?f)"
    by (rule written [OF inv f r(5,2) m'map r(4) _ _ g p]; use f'(2) other a(1) range(1) in simp)+
  have "c1\<lparr>fc_arena := ?a, fc_files := m', fc_driver := d, fc_file_nodes := nodes'\<rparr> = ?c" unfolding c1 by simp
  with r(1) w bytes show ?thesis by auto
qed

definition write_ok :: "('d \<Rightarrow> file_node_handle \<Rightarrow> u8 list option) \<Rightarrow> file_node_handle \<Rightarrow> u8 list \<Rightarrow> nat \<Rightarrow> u8 list \<Rightarrow> 'd file_cache \<Rightarrow>
    (file_system_error, nat) outcome \<times> 'd file_cache \<Rightarrow> bool" where
  "write_ok disk h bs offset data c res \<longleftrightarrow> (case res of (r, c') \<Rightarrow> r = Ok (length data) \<and> cache_inv disk c'
     \<and> fs_view disk c' = (fs_view disk c)(h \<mapsto> write_bytes bs offset data))"

lemma view_cached: "fx_map (fc_files c) h = Some f \<Longrightarrow> fs_view disk c h = Some (cached_bytes (fc_arena c) f)"
  by (simp add: fs_view_def)

lemma patch_in_place:
  assumes "cache_inv disk c" "fx_map (fc_files c) h = Some f" "driver_ok ops disk"
    "spare_slot (fc_file_nodes c) \<or> fx_map (fc_file_nodes c) h \<noteq> None" "offset + length data \<le> cf_len f"
  shows "write_ok disk h (cached_bytes (fc_arena c) f) offset data c (write_patch ops now h offset data (offset + length data) c)"
  using patch_spec [OF assms(1-4) cache_invD(1) [OF assms(1)], of f "fc_push_offset c" offset data "fc_arena c" c now]
    cache_invD(5) [OF assms(1)] cached_in_arena(1) [OF assms(1,2)] assms(2,5)
  by (auto simp: grown_def max_def write_ok_def fun_upd_idem)

lemma grow_tail_patch:
  assumes inv: "cache_inv disk c" and f: "fx_map (fc_files c) h = Some f" and drv: "driver_ok ops disk"
    and nodes: "spare_slot (fc_file_nodes c) \<or> fx_map (fc_file_nodes c) h \<noteq> None"
    and tail: "cf_arena_offset f + cf_len f = fc_push_offset c" and new: "cf_len f < offset + length data"
    and fits: "fc_push_offset c + (offset + length data - cf_len f) \<le> fc_max_memory c"
  shows "write_ok disk h (cached_bytes (fc_arena c) f) offset data c
    (bind (grow_at_tail h (offset + length data - cf_len f) (offset + length data))
       (\<lambda>_. write_patch ops now h offset data (offset + length data)) c)"
proof -
  note i = cache_invD [OF inv]
  let ?len = "offset + length data" and ?e = "offset + length data - cf_len f"
  let ?f = "f\<lparr>cf_len := ?len\<rparr>" and ?m = "fx_modify (fc_files c) h (\<lambda>f. f\<lparr>cf_len := ?len\<rparr>)"
  let ?a = "blit (fc_push_offset c) (replicate ?e 0) (fc_arena c)"
  define c1 where "c1 = c\<lparr>fc_arena := ?a, fc_push_offset := fc_push_offset c + ?e, fc_memory_used := fc_memory_used c + ?e, fc_files := ?m\<rparr>"
  have m: "fx_inv ?m" "fx_map ?m = (fx_map (fc_files c))(h \<mapsto> ?f)" using fx_modify_spec [OF i(1)] f by auto
  have "fc_memory_used c + ?e < 2 ^ 64" using i(4,9) fits by simp
  then have run: "grow_at_tail h ?e ?len c = (Ok (), c1)"
    using fits i(3) by (simp add: grow_at_tail_def reading_def bind_def arena_calls modify_def memory_calls update_file_def c1_def)
  have other: "cached_bytes ?a g = cached_bytes (fc_arena c) g" if "fx_map (fc_files c) k = Some g" for k g
    unfolding cached_bytes_def by (rule chunk_blit_disjoint) (use cached_in_arena [OF inv that] fits i(3) in auto)
  have la: "fc_push_offset c + ?e \<le> length (fc_arena c)" using fits i(3) by simp
  have "chunk (cf_arena_offset f) ?len ?a = cached_bytes (fc_arena c) f @ replicate ?e 0"
  proof -
    have "chunk (cf_arena_offset f) (cf_len f + ?e) ?a = chunk (cf_arena_offset f) (cf_len f) ?a @ chunk (fc_push_offset c) ?e ?a"
      unfolding tail [symmetric] by (simp add: chunk_def take_add add.commute)
    moreover have "chunk (fc_push_offset c) ?e ?a = replicate ?e 0" using chunk_blit_same [of "fc_push_offset c" "replicate ?e 0" "fc_arena c"] la by simp
    moreover have "chunk (cf_arena_offset f) (cf_len f) ?a = cached_bytes (fc_arena c) f" using other [OF f] by (simp add: cached_bytes_def)
    ultimately show ?thesis using new by simp
  qed
  then have bytes: "cached_bytes ?a ?f = cached_bytes (fc_arena c) f @ replicate (cf_len ?f - cf_len f) 0" by (simp add: cached_bytes_def)
  have "\<exists>c'. write_patch ops now h offset data (offset + length data) c1 = (Ok (length data), c') \<and> cache_inv disk c'
    \<and> fs_view disk c' = (fs_view disk c)(h \<mapsto> write_bytes (cached_bytes (fc_arena c) f) offset data)"
  proof (rule patch_spec [OF inv f drv nodes m])
    show "grown (fc_push_offset c) f ?f" using tail new by (simp add: grown_def)
    show "c1 = c\<lparr>fc_arena := ?a, fc_push_offset := fc_push_offset c + ?e, fc_memory_used := fc_memory_used c + (cf_len ?f - cf_len f), fc_files := ?m\<rparr>"
      by (simp add: c1_def)
  qed (use fits new tail other bytes la in auto)
  with run show ?thesis by (auto simp: write_ok_def bind_def)
qed

lemma grow_copy_patch:
  assumes inv: "cache_inv disk c" and f: "fx_map (fc_files c) h = Some f" and drv: "driver_ok ops disk"
    and nodes: "spare_slot (fc_file_nodes c) \<or> fx_map (fc_file_nodes c) h \<noteq> None"
    and new: "cf_len f < offset + length data" and fits: "fc_push_offset c + (offset + length data) \<le> fc_max_memory c"
  shows "write_ok disk h (cached_bytes (fc_arena c) f) offset data c
    (bind (grow_by_copy h (cf_arena_offset f) (cf_len f) (offset + length data))
       (\<lambda>_. write_patch ops now h offset data (offset + length data)) c)"
proof -
  note i = cache_invD [OF inv] and fa = cached_in_arena [OF inv f]
  let ?p = "fc_push_offset c" and ?len = "offset + length data" and ?e = "offset + length data - cf_len f"
  let ?f = "f\<lparr>cf_arena_offset := ?p, cf_len := ?len\<rparr>"
  let ?m = "fx_modify (fc_files c) h (\<lambda>f. f\<lparr>cf_arena_offset := ?p, cf_len := ?len\<rparr>)"
  let ?b = "cached_bytes (fc_arena c) f" let ?a1 = "blit ?p ?b (fc_arena c)"
  let ?a = "blit (?p + cf_len f) (replicate ?e 0) ?a1"
  define c1 where "c1 = c\<lparr>fc_arena := ?a, fc_push_offset := ?p + ?len, fc_memory_used := fc_memory_used c + ?e, fc_files := ?m\<rparr>"
  have m: "fx_inv ?m" "fx_map ?m = (fx_map (fc_files c))(h \<mapsto> ?f)" using fx_modify_spec [OF i(1)] f by auto
  have la: "?p + cf_len f \<le> length (fc_arena c)" "?p + cf_len f + ?e \<le> length (fc_arena c)" using fits i(3) new by simp_all
  have l1: "length ?a1 = length (fc_arena c)" using la(1) fa(3) by simp
  have "fc_memory_used c + ?e < 2 ^ 64" using i(4,9) fits by simp
  then have run: "grow_by_copy h (cf_arena_offset f) (cf_len f) ?len c = (Ok (), c1)"
    using la l1 fa(2) unfolding cached_bytes_def
    by (simp add: grow_by_copy_def reading_def bind_def arena_copy_within_Ok arena_calls modify_def memory_calls update_file_def c1_def
        cached_bytes_def Let_def)
  have other: "cached_bytes ?a g = cached_bytes (fc_arena c) g" if g: "fx_map (fc_files c) k = Some g" for k g
  proof -
    note ga = cached_in_arena [OF inv g]
    have "cached_bytes ?a g = cached_bytes ?a1 g"
      unfolding cached_bytes_def by (rule chunk_blit_disjoint) (use ga la l1 in auto)
    also have "\<dots> = cached_bytes (fc_arena c) g"
      unfolding cached_bytes_def by (rule chunk_blit_disjoint) (use ga la fa(3) in \<open>auto simp: cached_bytes_def\<close>)
    finally show ?thesis .
  qed
  have "chunk ?p (cf_len f + ?e) ?a = chunk ?p (cf_len f) ?a @ chunk (?p + cf_len f) ?e ?a"
    by (simp add: chunk_def take_add add.commute)
  also have "chunk ?p (cf_len f) ?a = chunk ?p (cf_len f) ?a1" by (rule chunk_blit_disjoint) (use la l1 in auto)
  also have "\<dots> = ?b" using chunk_blit_same [of ?p ?b "fc_arena c"] la(1) fa(3) by simp
  also have "chunk (?p + cf_len f) ?e ?a = replicate ?e 0"
    using chunk_blit_same [of "?p + cf_len f" "replicate ?e 0" ?a1] la(2) l1 by simp
  finally have bytes: "cached_bytes ?a ?f = ?b @ replicate (cf_len ?f - cf_len f) 0" using new by (simp add: cached_bytes_def)
  have "\<exists>c'. write_patch ops now h offset data (offset + length data) c1 = (Ok (length data), c') \<and> cache_inv disk c'
    \<and> fs_view disk c' = (fs_view disk c)(h \<mapsto> write_bytes ?b offset data)"
  proof (rule patch_spec [OF inv f drv nodes m])
    show "grown ?p f ?f" using new by (simp add: grown_def)
    show "c1 = c\<lparr>fc_arena := ?a, fc_push_offset := ?p + ?len, fc_memory_used := fc_memory_used c + (cf_len ?f - cf_len f), fc_files := ?m\<rparr>"
      by (simp add: c1_def)
  qed (use fits new other bytes la l1 in auto)
  with run show ?thesis by (auto simp: write_ok_def bind_def)
qed

definition write_res :: "('d \<Rightarrow> file_node_handle \<Rightarrow> u8 list option) \<Rightarrow> file_node_handle \<Rightarrow> u8 list \<Rightarrow> nat \<Rightarrow> u8 list \<Rightarrow> bool \<Rightarrow> 'd file_cache \<Rightarrow>
    (file_system_error, nat) outcome \<times> 'd file_cache \<Rightarrow> bool" where
  "write_res disk h bs offset data room c res \<longleftrightarrow> write_ok disk h bs offset data c res
     \<or> \<not> room \<and> (case res of (r, c') \<Rightarrow> r = Panic \<or> r = Err CacheFull \<and> cache_inv disk c' \<and> fs_view disk c' = fs_view disk c)"

lemma write_res_view:
  "write_res disk h bs offset data room c1 res \<Longrightarrow> fs_view disk c1 = fs_view disk c \<Longrightarrow> write_res disk h bs offset data room c res"
  by (simp add: write_res_def write_ok_def)

lemma grow_compaction_patch:
  assumes inv: "cache_inv disk c" and f: "fx_map (fc_files c) h = Some f" and drv: "driver_ok ops disk"
    and nodes: "spare_slot (fc_file_nodes c) \<or> fx_map (fc_file_nodes c) h \<noteq> None"
    and mv: "movable h (fx_map (fc_files c))" and new: "cf_len f < offset + length data" "offset + length data < 2 ^ 63"
    and full: "\<not> fc_push_offset c + (offset + length data - cf_len f) \<le> fc_max_memory c"
  shows "write_res disk h (cached_bytes (fc_arena c) f) offset data False c
    (bind (grow_by_compaction ops h (cf_len f) (offset + length data))
       (\<lambda>_. write_patch ops now h offset data (offset + length data)) c)"
proof -
  let ?e = "offset + length data - cf_len f"
  obtain r c2 where e: "ensure_space ops ?e h True c = (r, c2)" by (cases "ensure_space ops ?e h True c")
  have res: "room_result disk ?e h c (r, c2)"
    using ensure_space_spec [OF drv inv mv, of ?e True] new e by simp
  then consider "r = Panic" | "r = Ok False" "made_room disk h c c2"
    | "r = Ok True" "made_room disk h c c2" "fc_push_offset c2 + ?e \<le> fc_max_memory c2" "at_tail h c2"
    using full by (auto simp: room_result_def)
  then show ?thesis
  proof cases
    case 1
    then show ?thesis using e by (simp add: grow_by_compaction_def bind_def write_res_def)
  next
    case 2
    then show ?thesis using e by (simp add: grow_by_compaction_def bind_def write_res_def fail_def made_room_def)
  next
    case 3
    have r: "cache_inv disk c2" "fs_view disk c2 = fs_view disk c" "same_frame c c2"
      "\<exists>g. fx_map (fc_files c2) h = Some g \<and> cf_len g = cf_len f" using 3(2) f by (simp_all add: made_room_def)
    then obtain g where g: "fx_map (fc_files c2) h = Some g" "cf_len g = cf_len f" by blast
    have bytes: "cached_bytes (fc_arena c2) g = cached_bytes (fc_arena c) f"
      using view_cached [OF f, of disk] view_cached [OF g(1), of disk] r(2) by simp
    have tail: "cf_arena_offset g + cf_len g = fc_push_offset c2" using 3(4) g(1) by (simp add: at_tail_def)
    have "grow_by_compaction ops h (cf_len f) (offset + length data) c = grow_at_tail h ?e (offset + length data) c2"
      using e 3 tail g(1) fx_get_map [OF cache_invD(1) [OF r(1)]]
      by (simp add: grow_by_compaction_def bind_def reading_def check_or_panic_def ret_def)
    then have "bind (grow_by_compaction ops h (cf_len f) (offset + length data)) (\<lambda>_. write_patch ops now h offset data (offset + length data)) c
      = bind (grow_at_tail h ?e (offset + length data)) (\<lambda>_. write_patch ops now h offset data (offset + length data)) c2"
      by (simp add: bind_def)
    moreover have "write_ok disk h (cached_bytes (fc_arena c2) g) offset data c2
      (bind (grow_at_tail h ?e (offset + length data)) (\<lambda>_. write_patch ops now h offset data (offset + length data)) c2)"
      using grow_tail_patch [OF r(1) g(1) drv _ tail, of offset data now] nodes r(3) new(1) 3(3) g(2) by (simp add: same_frame_def)
    ultimately show ?thesis using r(2) bytes by (simp add: write_res_def write_ok_def)
  qed
qed

definition growth_safe :: "'d file_cache \<Rightarrow> file_node_handle \<Rightarrow> nat \<Rightarrow> bool" where
  \<comment> \<open>the write stays inside the file, or the file can be copied to the end, or it can be moved without loss\<close>
  "growth_safe c h write_end \<longleftrightarrow> (\<forall>f. fx_map (fc_files c) h = Some f \<longrightarrow> write_end \<le> cf_len f
     \<or> fc_push_offset c + write_end \<le> fc_max_memory c \<or> cf_len f = 0 \<or> cf_arena_offset f + cf_len f = fc_push_offset c)"

lemma tail_movable:
  assumes "placed push m" "m h = Some f" "cf_len f = 0 \<or> cf_arena_offset f + cf_len f = push"
  shows "movable h m"
  unfolding movable_def
proof (intro allI impI)
  fix f' assume "m h = Some f'"
  with assms(2) have f': "f' = f" by simp
  have "cf_len f = 0 \<or> cf_len g = 0 \<or> cf_arena_offset g + cf_len g \<le> cf_arena_offset f" if "m k = Some g" "k \<noteq> h" for k g
    using placedD(3) [OF assms(1,2) that(1)] placedD(2) [OF assms(1) that(1)] that(2) assms(3) by (auto simp: file_apart_def)
  then show "cf_len f' = 0 \<or> (\<forall>k g. m k = Some g \<longrightarrow> k \<noteq> h \<longrightarrow> cf_len g = 0 \<or> cf_arena_offset g + cf_len g \<le> cf_arena_offset f')"
    unfolding f' by blast
qed

lemma grow_patch_spec:
  assumes inv: "cache_inv disk c" and f: "fx_map (fc_files c) h = Some f" and drv: "driver_ok ops disk"
    and nodes: "spare_slot (fc_file_nodes c) \<or> fx_map (fc_file_nodes c) h \<noteq> None"
    and safe: "growth_safe c h (offset + length data)" and small: "offset + length data < 2 ^ 63"
  shows "write_res disk h (cached_bytes (fc_arena c) f) offset data (fc_push_offset c + (offset + length data) \<le> fc_max_memory c) c
    (bind (write_grow ops h f (offset + length data)) (\<lambda>_. write_patch ops now h offset data (offset + length data)) c)"
proof -
  note i = cache_invD [OF inv]
  let ?w = "offset + length data" let ?e = "?w - cf_len f"
  consider "?w \<le> cf_len f" | "cf_len f < ?w" "cf_arena_offset f + cf_len f = fc_push_offset c" "fc_push_offset c + ?e \<le> fc_max_memory c"
    | "cf_len f < ?w" "\<not> (cf_arena_offset f + cf_len f = fc_push_offset c \<and> fc_push_offset c + ?e \<le> fc_max_memory c)"
      "fc_push_offset c + ?w \<le> fc_max_memory c"
    | "cf_len f < ?w" "\<not> (cf_arena_offset f + cf_len f = fc_push_offset c \<and> fc_push_offset c + ?e \<le> fc_max_memory c)"
      "\<not> fc_push_offset c + ?w \<le> fc_max_memory c"
    by linarith
  then show ?thesis
  proof cases
    case 1
    then show ?thesis using patch_in_place [OF inv f drv nodes 1, of now] by (simp add: write_grow_def bind_def ret_def write_res_def)
  next
    case 2
    then have "write_grow ops h f ?w c = grow_at_tail h ?e ?w c" by (simp add: write_grow_def reading_def Let_def max_def)
    with grow_tail_patch [OF inv f drv nodes 2(2,1,3), of now] show ?thesis by (simp add: bind_def write_res_def)
  next
    case 3
    then have "write_grow ops h f ?w c = grow_by_copy h (cf_arena_offset f) (cf_len f) ?w c"
      using i(5) by (auto simp: write_grow_def reading_def Let_def max_def bind_def usize_sub_def ret_def)
    with grow_copy_patch [OF inv f drv nodes 3(1,3), of now] show ?thesis by (simp add: bind_def write_res_def)
  next
    case 4
    have mv: "movable h (fx_map (fc_files c))"
      by (rule tail_movable [OF i(6) f]) (use safe f 4(1,3) in \<open>auto simp: growth_safe_def\<close>)
    have full: "\<not> fc_push_offset c + ?e \<le> fc_max_memory c" using safe f 4 by (auto simp: growth_safe_def)
    from 4 have "write_grow ops h f ?w c = grow_by_compaction ops h (cf_len f) ?w c"
      using i(5) by (auto simp: write_grow_def reading_def Let_def max_def bind_def usize_sub_def ret_def)
    with grow_compaction_patch [OF inv f drv nodes mv 4(1) small full, of now] 4(3) show ?thesis by (simp add: bind_def write_res_def)
  qed
qed

lemma remember_node_Ok:
  assumes drv: "driver_ok ops disk" "disk (fc_driver c) h = Some bs" and nodes: "fx_inv (fc_file_nodes c)" "spare_slot (fc_file_nodes c)"
  shows "\<exists>d m. remember_node ops h c = (Ok (), c\<lparr>fc_driver := d, fc_file_nodes := m\<rparr>) \<and> fx_inv m \<and> disk d = disk (fc_driver c)
    \<and> fx_map m h \<noteq> None"
proof -
  from get_node_Ok [OF drv] obtain node d where g: "on_driver (cd_get_node ops h) c = (Ok node, c\<lparr>fc_driver := d\<rparr>)"
    "disk d = disk (fc_driver c)" by blast
  have get: "fx_get (fc_file_nodes c) h = fx_map (fc_file_nodes c) h" by (rule fx_get_map [OF nodes(1)])
  show ?thesis
  proof (cases "fx_map (fc_file_nodes c) h = None")
    case True
    with insert_node_Ok [of "c\<lparr>fc_driver := d\<rparr>" h node] nodes g get show ?thesis
      by (auto simp: remember_node_def bind_def reading_def)
  next
    case False
    with g get nodes(1) show ?thesis by (intro exI [of _ d] exI [of _ "fc_file_nodes c"]) (simp add: remember_node_def bind_def reading_def ret_def)
  qed
qed

text \<open>What a successful load leaves: the file is cached and can be moved without loss.\<close>

definition load_ok :: "('d \<Rightarrow> file_node_handle \<Rightarrow> u8 list option) \<Rightarrow> file_node_handle \<Rightarrow> nat \<Rightarrow> 'd file_cache \<Rightarrow>
    (file_system_error, unit) outcome \<times> 'd file_cache \<Rightarrow> bool" where
  "load_ok disk h need c res \<longleftrightarrow> (case res of (r, c') \<Rightarrow> r = Ok () \<and> cache_inv disk c' \<and> fs_view disk c' = fs_view disk c
     \<and> fx_map (fc_file_nodes c') h \<noteq> None \<and> fc_max_memory c' = fc_max_memory c \<and> fc_push_offset c' = fc_push_offset c + need
     \<and> (\<exists>f. fx_map (fc_files c') h = Some f \<and> (cf_len f = 0 \<or> cf_arena_offset f + cf_len f = fc_push_offset c')))"

lemma load_existing:
  assumes drv: "driver_ok ops disk" and rdy: "cache_ready disk c" and h: "fx_map (fc_files c) h = None" "h \<noteq> INVALID_NODE_HANDLE"
    "disk (fc_driver c) h = Some bs" and fits: "fc_push_offset c + length bs \<le> fc_max_memory c"
    and off: "arena_off = fc_push_offset c"
  shows "load_ok disk h (length bs) c
    (bind (fill_from_driver ops h arena_off (length bs)) (\<lambda>read.
       bind (reading (\<lambda>c. insert_file h (cached_file_new arena_off read (fc_access_tick c) (get_effective_importance c h)))) (\<lambda>_.
       bind (remember_node ops h) (\<lambda>_. add_memory_used read))) (c\<lparr>fc_push_offset := fc_push_offset c + length bs\<rparr>))"
proof -
  have inv: "cache_inv disk c" and spare: "spare_slot (fc_files c)" "spare_slot (fc_file_nodes c)" using rdy by (simp_all add: cache_ready_def)
  note i = cache_invD [OF inv]
  let ?c0 = "c\<lparr>fc_push_offset := fc_push_offset c + length bs\<rparr>" and ?a = "blit (fc_push_offset c) bs (fc_arena c)"
  from fill_Ok [OF drv, of ?c0 h bs "fc_push_offset c"] h(3) fits i(3) obtain d where d:
    "fill_from_driver ops h (fc_push_offset c) (length bs) ?c0 = (Ok (length bs), ?c0\<lparr>fc_driver := d, fc_arena := ?a\<rparr>)"
    "disk d = disk (fc_driver c)" by auto
  let ?c1 = "?c0\<lparr>fc_driver := d, fc_arena := ?a\<rparr>"
  let ?f = "cached_file_new (fc_push_offset c) (length bs) (fc_access_tick ?c1) (get_effective_importance ?c1 h)"
  from insert_file_Ok [of ?c1 h ?f] i(1) spare(1) obtain m where m: "insert_file h ?f ?c1 = (Ok (), ?c1\<lparr>fc_files := m\<rparr>)"
    "fx_inv m" "fx_map m = (fx_map (fc_files c))(h \<mapsto> ?f)" by auto
  let ?c2 = "?c1\<lparr>fc_files := m\<rparr>"
  from remember_node_Ok [OF drv, of ?c2 h bs] d(2) h(3) i(2) spare(2) obtain d' nodes where n:
    "remember_node ops h ?c2 = (Ok (), ?c2\<lparr>fc_driver := d', fc_file_nodes := nodes\<rparr>)" "fx_inv nodes" "disk d' = disk (fc_driver c)"
    "fx_map nodes h \<noteq> None" by auto
  define c' where "c' = c\<lparr>fc_driver := d', fc_arena := ?a, fc_push_offset := fc_push_offset c + length bs,
    fc_memory_used := fc_memory_used c + length bs, fc_files := m, fc_file_nodes := nodes\<rparr>"
  have "fc_memory_used c + length bs < 2 ^ 64" using i(4,5,9) fits by simp
  then have used: "add_memory_used (length bs) (?c2\<lparr>fc_driver := d', fc_file_nodes := nodes\<rparr>) = (Ok (), c')"
    by (simp add: memory_calls c'_def)
  have "cache_inv disk c'" "fs_view disk c' = fs_view disk c"
    unfolding c'_def by (rule loaded [OF inv h n(3) m(2,3)]; use fits n(2) in \<open>simp add: cached_file_new_def\<close>)+
  with d(1) m(1,3) n(1,4) used show ?thesis
    by (simp add: load_ok_def bind_def reading_def off c'_def cached_file_new_def)
qed

lemma load_new:
  assumes drv: "driver_ok ops disk" and rdy: "cache_ready disk c" and h: "fx_map (fc_files c) h = None" "h \<noteq> INVALID_NODE_HANDLE"
    "disk (fc_driver c) h = Some []" and fits: "fc_push_offset c + needed \<le> fc_max_memory c" and off: "arena_off = fc_push_offset c"
  shows "load_ok disk h needed c
    (bind (arena_store arena_off (replicate needed 0)) (\<lambda>_.
       bind (reading (\<lambda>c. insert_file h (cached_file_new arena_off 0 (fc_access_tick c) (get_effective_importance c h)))) (\<lambda>_.
       remember_node ops h)) (c\<lparr>fc_push_offset := fc_push_offset c + needed\<rparr>))"
proof -
  have inv: "cache_inv disk c" and spare: "spare_slot (fc_files c)" "spare_slot (fc_file_nodes c)" using rdy by (simp_all add: cache_ready_def)
  note i = cache_invD [OF inv]
  let ?c0 = "c\<lparr>fc_push_offset := fc_push_offset c + needed\<rparr>" and ?a = "blit (fc_push_offset c) (replicate needed 0) (fc_arena c)"
  let ?c1 = "?c0\<lparr>fc_arena := ?a\<rparr>"
  let ?f = "cached_file_new (fc_push_offset c) 0 (fc_access_tick ?c1) (get_effective_importance ?c1 h)"
  from insert_file_Ok [of ?c1 h ?f] i(1) spare(1) obtain m where m: "insert_file h ?f ?c1 = (Ok (), ?c1\<lparr>fc_files := m\<rparr>)"
    "fx_inv m" "fx_map m = (fx_map (fc_files c))(h \<mapsto> ?f)" by auto
  let ?c2 = "?c1\<lparr>fc_files := m\<rparr>"
  from remember_node_Ok [OF drv, of ?c2 h "[]"] h(3) i(2) spare(2) obtain d' nodes where n:
    "remember_node ops h ?c2 = (Ok (), ?c2\<lparr>fc_driver := d', fc_file_nodes := nodes\<rparr>)" "fx_inv nodes" "disk d' = disk (fc_driver c)"
    "fx_map nodes h \<noteq> None" by auto
  let ?d = "replicate needed (0 :: u8)"
  define c' where "c' = c\<lparr>fc_driver := d', fc_arena := blit (fc_push_offset c) ?d (fc_arena c), fc_push_offset := fc_push_offset c + length ?d,
    fc_memory_used := fc_memory_used c + length ([] :: u8 list), fc_files := m, fc_file_nodes := nodes\<rparr>"
  have "cache_inv disk c'" "fs_view disk c' = fs_view disk c"
    unfolding c'_def by (rule loaded [OF inv h n(3) m(2,3)]; use fits n(2) in \<open>simp add: cached_file_new_def\<close>)+
  moreover have "arena_store (fc_push_offset c) ?d ?c0 = (Ok (), ?c1)" using fits i(3) by (simp add: arena_calls)
  moreover have eq: "?c2\<lparr>fc_driver := d', fc_file_nodes := nodes\<rparr> = c'" by (simp add: c'_def)
  moreover have "fc_push_offset c' = fc_push_offset c + needed" "fc_max_memory c' = fc_max_memory c" "fc_file_nodes c' = nodes" "fc_files c' = m"
    by (simp_all add: c'_def)
  ultimately show ?thesis using m(1,3) n(1,4) unfolding eq
    by (simp add: load_ok_def bind_def reading_def off cached_file_new_def)
qed

definition load_res :: "('d \<Rightarrow> file_node_handle \<Rightarrow> u8 list option) \<Rightarrow> file_node_handle \<Rightarrow> nat \<Rightarrow> 'd file_cache \<Rightarrow>
    (file_system_error, unit) outcome \<times> 'd file_cache \<Rightarrow> bool" where
  "load_res disk h need c res \<longleftrightarrow> (\<exists>c1. fs_view disk c1 = fs_view disk c
       \<and> (fc_push_offset c + need \<le> fc_max_memory c \<longrightarrow> fc_push_offset c1 = fc_push_offset c) \<and> fc_max_memory c1 = fc_max_memory c
       \<and> load_ok disk h need c1 res)
     \<or> \<not> fc_push_offset c + need \<le> fc_max_memory c
       \<and> (case res of (r, c') \<Rightarrow> r = Panic \<or> r = Err CacheFull \<and> cache_inv disk c' \<and> fs_view disk c' = fs_view disk c)"

lemma load_with_room:
  assumes drv: "driver_ok ops disk" and rdy: "cache_ready disk c" and n: "need < 2 ^ 63"
    and h: "fx_map (fc_files c) h = None" "disk (fc_driver c) h = Some bs"
    and body: "\<And>c. cache_ready disk c \<Longrightarrow> fx_map (fc_files c) h = None \<Longrightarrow> disk (fc_driver c) h = Some bs \<Longrightarrow>
      fc_push_offset c + need \<le> fc_max_memory c \<Longrightarrow>
      load_ok disk h need c (f (fc_push_offset c) (c\<lparr>fc_push_offset := fc_push_offset c + need\<rparr>))"
  shows "load_res disk h need c (bind (ensure_space ops need INVALID_NODE_HANDLE True) (\<lambda>ok.
      if \<not> ok then fail CacheFull
      else bind (arena_push_alloc need) (\<lambda>r. case r of None \<Rightarrow> ret () | Some arena_off \<Rightarrow> f arena_off)) c)"
proof -
  obtain r c1 where e: "ensure_space ops need INVALID_NODE_HANDLE True c = (r, c1)"
    and alt: "r = Panic \<and> \<not> room_or_small need c \<or> (\<exists>b. r = Ok b \<and> made_room disk INVALID_NODE_HANDLE c c1 \<and> cache_ready disk c1
      \<and> (b \<longrightarrow> fc_push_offset c1 + need \<le> fc_max_memory c1) \<and> (fc_push_offset c + need \<le> fc_max_memory c \<longrightarrow> b \<and> c1 = c))"
    using room_for_new [OF drv rdy n] by blast
  from alt show ?thesis
  proof (elim disjE exE conjE)
    assume "r = Panic" "\<not> room_or_small need c"
    then show ?thesis using e by (simp add: bind_def load_res_def room_or_small_def)
  next
    fix b assume b: "r = Ok b" "made_room disk INVALID_NODE_HANDLE c c1" "cache_ready disk c1" "b \<longrightarrow> fc_push_offset c1 + need \<le> fc_max_memory c1"
      "fc_push_offset c + need \<le> fc_max_memory c \<longrightarrow> b \<and> c1 = c"
    have v: "cache_inv disk c1" "fs_view disk c1 = fs_view disk c" "fc_max_memory c1 = fc_max_memory c"
      using b(2) by (simp_all add: made_room_def same_frame_def)
    show ?thesis
    proof (cases b)
      case False
      then show ?thesis using e b v by (auto simp: bind_def load_res_def fail_def)
    next
      case True
      have h1: "fx_map (fc_files c1) h = None" by (rule not_cached_room [OF b(2) h(1)])
      with v(2) h have "disk (fc_driver c1) h = Some bs" by (auto simp: fs_view_def fun_eq_iff dest: spec [of _ h])
      from body [OF b(3) h1 this] b(4) True
      have l: "load_ok disk h need c1 (f (fc_push_offset c1) (c1\<lparr>fc_push_offset := fc_push_offset c1 + need\<rparr>))" by blast
      have p: "arena_push_alloc need c1 = (Ok (Some (fc_push_offset c1)), c1\<lparr>fc_push_offset := fc_push_offset c1 + need\<rparr>)"
        by (rule push_alloc_Ok) (use b(4) True cache_invD(4) [OF v(1)] in auto)
      have "bind (ensure_space ops need INVALID_NODE_HANDLE True) (\<lambda>ok. if \<not> ok then fail CacheFull
          else bind (arena_push_alloc need) (\<lambda>r. case r of None \<Rightarrow> ret () | Some arena_off \<Rightarrow> f arena_off)) c
        = f (fc_push_offset c1) (c1\<lparr>fc_push_offset := fc_push_offset c1 + need\<rparr>)"
        using e b(1) True p by (simp add: bind_def)
      with l v b(5) show ?thesis unfolding load_res_def by auto
    qed
  qed
qed

lemma write_load_spec:
  assumes drv: "driver_ok ops disk" and rdy: "cache_ready disk c" and h: "h \<noteq> INVALID_NODE_HANDLE" "fs_view disk c h = Some bs"
    "fx_map (fc_files c) h = None" and small: "offset + n < 2 ^ 63"
  shows "load_res disk h (if bs = [] then offset + n else length bs) c (write_load ops h offset n c)"
proof -
  have inv: "cache_inv disk c" using rdy by (simp add: cache_ready_def)
  have bs: "disk (fc_driver c) h = Some bs" using h(2,3) by (simp add: fs_view_def)
  from driver_okD(2) [OF drv bs] obtain d where d: "cd_file_size ops h (fc_driver c) = (Ok (length bs), d)" "disk d = disk (fc_driver c)" by blast
  let ?c = "c\<lparr>fc_driver := d\<rparr>"
  have keep: "cache_inv disk ?c" "fs_view disk ?c = fs_view disk c"
    using driver_keeps(1) [of disk d c] driver_keeps(2) [of disk d c] d(2) inv by simp_all
  have rdy1: "cache_ready disk ?c" using rdy keep by (simp add: cache_ready_def)
  have none: "\<not> fx_contains_key (fc_files c) h" using h(3) fx_get_map [OF cache_invD(1) [OF inv]] by (simp add: fx_contains_key_def)
  have run: "write_load ops h offset n c = (if bs = [] then write_load_new ops h offset n ?c else write_load_existing ops h (length bs) ?c)"
    using none d(1) by (simp add: write_load_def reading_def bind_def attempt_def on_driver_def)
  have shift: "load_res disk h need c res" if "load_res disk h need ?c res" for need res
    using that keep(2) by (simp add: load_res_def)
  show ?thesis
  proof (cases "bs = []")
    case True
    have "load_res disk h (offset + n) ?c (write_load_new ops h offset n ?c)"
      unfolding write_load_new_def using small True bs d(2) h(3)
      by (subst bind_Ok [where m = "usize_add offset n" and a = "offset + n" and s' = ?c])
        (auto simp: usize_add_def ret_def intro!: load_with_room [OF drv rdy1, of _ _ "[]"] load_new [OF drv _ _ h(1)])
    with True run shift show ?thesis by simp
  next
    case False
    have "load_res disk h (length bs) ?c (write_load_existing ops h (length bs) ?c)"
      unfolding write_load_existing_def using bs d(2) h(3) driver_okD(1) [OF drv bs]
      by (intro load_with_room [OF drv rdy1, of _ _ bs]) (auto intro!: load_existing [OF drv _ _ h(1)])
    with False run shift show ?thesis by simp
  qed
qed

lemma write_res_room: "write_res disk h bs offset data room c res \<Longrightarrow> (room' \<Longrightarrow> room) \<Longrightarrow> write_res disk h bs offset data room' c res"
  by (auto simp: write_res_def)

lemma bind_Pair: "bind (Pair (Ok a)) f c = f a c"
  by (simp add: bind_def)

lemma write_cached:
  assumes inv: "cache_inv disk c" and f: "fx_map (fc_files c) h = Some f" and drv: "driver_ok ops disk"
    and nodes: "spare_slot (fc_file_nodes c) \<or> fx_map (fc_file_nodes c) h \<noteq> None"
    and safe: "growth_safe c h (offset + length data)" and small: "offset + length data < 2 ^ 63"
  shows "write_res disk h (cached_bytes (fc_arena c) f) offset data (fc_push_offset c + (offset + length data) \<le> fc_max_memory c) c
    (bind (usize_add offset (length data)) (\<lambda>write_end. reading (\<lambda>c. case fx_get (fc_files c) h of None \<Rightarrow> fail FileNotFound
       | Some file \<Rightarrow> bind (write_grow ops h file write_end) (\<lambda>_. write_patch ops now h offset data write_end))) c)"
  using grow_patch_spec [OF assms, of now] fx_get_map [OF cache_invD(1) [OF inv]] f small
  by (simp add: usize_add_def ret_def bind_Pair reading_def)

lemma cache_write_spec:
  assumes drv: "driver_ok ops disk" and rdy: "cache_ready disk c" and h: "h \<noteq> INVALID_NODE_HANDLE" "fs_view disk c h = Some bs"
    and safe: "growth_safe c h (offset + length data)" and small: "offset + length data < 2 ^ 63"
  shows "write_res disk h bs offset data (fc_push_offset c + 2 * max (length bs) (offset + length data) \<le> fc_max_memory c) c
    (cache_write_file ops now h offset data c)"
proof -
  let ?c = "c\<lparr>fc_access_tick := fc_access_tick c + 1\<rparr>"
  let ?rest = "bind (usize_add offset (length data)) (\<lambda>write_end. reading (\<lambda>c. case fx_get (fc_files c) h of None \<Rightarrow> fail FileNotFound
       | Some file \<Rightarrow> bind (write_grow ops h file write_end) (\<lambda>_. write_patch ops now h offset data write_end)))"
  have rdy': "cache_ready disk ?c" using rdy by (simp add: cache_ready_def tick_keeps)
  then have inv: "cache_inv disk ?c" and spare: "spare_slot (fc_file_nodes ?c)" by (simp_all add: cache_ready_def)
  note fx = cache_invD(1) [OF inv, simplified]
  have run: "cache_write_file ops now h offset data c = bind (write_load ops h offset (length data)) (\<lambda>_. ?rest) ?c"
    by (simp add: cache_write_file_def next_tick_run)
  have view: "fs_view disk ?c = fs_view disk c" by (simp add: tick_keeps)
  show ?thesis
  proof (cases "fx_map (fc_files c) h")
    case (Some f)
    then have "write_load ops h offset (length data) ?c = (Ok (), ?c)"
      using fx_get_map [OF fx] by (simp add: write_load_def reading_def fx_contains_key_def ret_def)
    then have "cache_write_file ops now h offset data c = ?rest ?c" unfolding run by (rule bind_Ok)
    moreover have "write_res disk h (cached_bytes (fc_arena ?c) f) offset data (fc_push_offset ?c + (offset + length data) \<le> fc_max_memory ?c) ?c (?rest ?c)"
      by (rule write_cached [OF inv _ drv _ _ small]) (use Some spare safe in \<open>simp_all add: growth_safe_def\<close>)
    moreover have "cached_bytes (fc_arena ?c) f = bs" using h(2) Some by (simp add: fs_view_def)
    ultimately have "write_res disk h bs offset data (fc_push_offset c + (offset + length data) \<le> fc_max_memory c) c (cache_write_file ops now h offset data c)"
      using write_res_view [OF _ view] by simp
    then show ?thesis by (rule write_res_room) (simp add: max_def split: if_splits)
  next
    case None
    obtain r c2 where l: "write_load ops h offset (length data) ?c = (r, c2)" by (cases "write_load ops h offset (length data) ?c")
    define need where "need = (if bs = [] then offset + length data else length bs)"
    have res: "load_res disk h need ?c (r, c2)"
      using write_load_spec [OF drv rdy' h(1) _ _ small, of bs] h(2) None l view by (simp add: need_def)
    have need: "need \<le> max (length bs) (offset + length data)" by (simp add: need_def)
    show ?thesis
    proof (cases "r = Ok ()")
      case False
      with res have "\<not> fc_push_offset c + need \<le> fc_max_memory c" "r = Panic \<or> r = Err CacheFull \<and> cache_inv disk c2 \<and> fs_view disk c2 = fs_view disk ?c"
        by (auto simp: load_res_def load_ok_def)
      moreover have "cache_write_file ops now h offset data c = (case r of Err e \<Rightarrow> Err e | _ \<Rightarrow> Panic, c2)" if "r \<noteq> Ok ()" "r \<noteq> Diverge"
        unfolding run using l that by (cases r) (auto simp: bind_def)
      ultimately show ?thesis using need view by (auto simp: write_res_def)
    next
      case True
      with res obtain c1 where c1: "fs_view disk c1 = fs_view disk ?c" "fc_push_offset c + need \<le> fc_max_memory c \<longrightarrow> fc_push_offset c1 = fc_push_offset c"
        "fc_max_memory c1 = fc_max_memory c" "load_ok disk h need c1 (r, c2)" by (auto simp: load_res_def)
      then obtain f where f: "fx_map (fc_files c2) h = Some f" "cf_len f = 0 \<or> cf_arena_offset f + cf_len f = fc_push_offset c2"
        and k: "cache_inv disk c2" "fs_view disk c2 = fs_view disk c" "fx_map (fc_file_nodes c2) h \<noteq> None" "fc_max_memory c2 = fc_max_memory c"
          "fc_push_offset c2 = fc_push_offset c1 + need" using view by (auto simp: load_ok_def)
      have "cache_write_file ops now h offset data c = ?rest c2" unfolding run by (rule bind_Ok) (simp add: l True)
      moreover have "write_res disk h (cached_bytes (fc_arena c2) f) offset data (fc_push_offset c2 + (offset + length data) \<le> fc_max_memory c2) c2 (?rest c2)"
        by (rule write_cached [OF k(1) f(1) drv _ _ small]) (use k(3) f in \<open>auto simp: growth_safe_def\<close>)
      moreover have "cached_bytes (fc_arena c2) f = bs" using h(2) view_cached [OF f(1), of disk] k(2) by simp
      ultimately have "write_res disk h bs offset data (fc_push_offset c2 + (offset + length data) \<le> fc_max_memory c2) c (cache_write_file ops now h offset data c)"
        using write_res_view [OF _ k(2)] by simp
      then show ?thesis by (rule write_res_room) (use c1(2) k(4,5) need in \<open>auto simp: max_def split: if_splits\<close>)
    qed
  qed
qed

text \<open>C7: Provided that the file is not cached, or the write stays inside it, or it is empty, the last of the
  arena, or fits behind it with its new length, that the write ends below \<open>2 ^ 63\<close>, and that the tables
  of the cache have free slots, a write through the cache changes exactly the file that is written: its new contents are the old ones, extended with zeros up
  to the offset where needed, with the data in their place; all other files keep their contents,
  although files may be evicted, written back and moved on the way. When the free end of the arena is
  shorter than twice the new length the write may also be refused, without any change, or panic in
  \<open>ensure_space\<close>. (For a cached file that
  grows in another place \<open>grow_by_compaction_loses_data\<close> shows that its contents can be lost.)\<close>

theorem cache_write_coherent:
  assumes "driver_ok ops disk" "cache_ready disk c" "h \<noteq> INVALID_NODE_HANDLE" "fs_view disk c h = Some bs"
    and "growth_safe c h (offset + length data)" "offset + length data < 2 ^ 63"
  shows "\<exists>r c'. cache_write_file ops now h offset data c = (r, c')
    \<and> (r = Ok (length data) \<and> cache_inv disk c' \<and> fs_view disk c' = (fs_view disk c)(h \<mapsto> write_bytes bs offset data)
       \<or> \<not> fc_push_offset c + 2 * max (length bs) (offset + length data) \<le> fc_max_memory c
         \<and> (r = Panic \<or> r = Err CacheFull \<and> cache_inv disk c' \<and> fs_view disk c' = fs_view disk c))"
  using cache_write_spec [OF assms, of now] by (auto simp: write_res_def write_ok_def split: prod.splits)

theorem cache_write_coherent_witness:
  "\<exists>c c'. file_cache_new [5 \<mapsto> [10, 20, 30]] 64 = Ok c \<and> cache_write_file plain_driver 7 5 4 [1, 2] c = (Ok 2, c')
     \<and> fs_view plain_disk c' 5 = Some [10, 20, 30, 0, 1, 2]"
proof -
  obtain c where c: "file_cache_new [5 \<mapsto> [10, 20, 30]] 64 = Ok c" "cache_ready plain_disk c"
    "fs_view plain_disk c = plain_disk [5 \<mapsto> [10, 20, 30]]" "fc_push_offset c = 0" "fc_max_memory c = 64"
    "fx_map (fc_files c) = Map.empty"
    using cache_new_ready [of 64 "[5 \<mapsto> [10, 20, 30]]" plain_disk] by auto
  have v: "fs_view plain_disk c 5 = Some [10, 20, 30]" by (simp add: c(3) plain_disk_def)
  have h: "(5 :: file_node_handle) \<noteq> INVALID_NODE_HANDLE" by (simp add: INVALID_NODE_HANDLE_def)
  have bytes: "write_bytes [10, 20, 30] 4 [1, 2] = [10, 20, 30, 0, 1, 2]" by code_simp
  have safe: "growth_safe c 5 (4 + length [1 :: u8, 2])" by (simp add: growth_safe_def c(6))
  show ?thesis
    using cache_write_coherent [OF plain_driver_ok c(2) h v safe, of 7] c(1,4,5) bytes by auto
qed

section \<open>Flushing\<close>

definition clean :: "'d file_cache \<Rightarrow> file_node_handle set \<Rightarrow> bool" where
  "clean c H \<longleftrightarrow> (\<forall>h f. fx_map (fc_files c) h = Some f \<longrightarrow> h \<in> H \<longrightarrow> \<not> cf_is_dirty f)"

lemma flush_file_spec:
  assumes drv: "driver_ok ops disk" and inv: "cache_inv disk c" and H: "clean c H"
  shows "\<exists>r c'. flush_file ops h c = (r, c') \<and> cache_inv disk c' \<and> fs_view disk c' = fs_view disk c
    \<and> dom (fx_map (fc_files c')) = dom (fx_map (fc_files c))
    \<and> (r = Ok () \<and> clean c' (insert h H) \<or> (\<exists>e. r = Err e))"
proof (cases "fx_map (fc_files c) h")
  case None
  then show ?thesis using fx_get_map [OF cache_invD(1) [OF inv]] inv H
    by (auto simp: flush_file_def reading_def ret_def clean_def)
next
  case (Some f)
  note i = cache_invD [OF inv] and a = cached_in_arena [OF inv Some]
  have get: "fx_get (fc_files c) h = Some f" using fx_get_map [OF i(1)] Some by simp
  show ?thesis
  proof (cases "cf_is_dirty f")
    case False
    then show ?thesis using get inv H Some by (auto simp: flush_file_def reading_def ret_def clean_def)
  next
    case True
    obtain bs where bs: "disk (fc_driver c) h = Some bs" "length bs \<le> cf_len f" by (rule backedD [OF i(8) Some])
    let ?data = "cached_bytes (fc_arena c) f"
    obtain r d bs' where w: "cd_write_file ops h 0 ?data (fc_driver c) = (r, d)" "disk d = (disk (fc_driver c))(h \<mapsto> bs')"
      "r = Ok (length ?data) \<and> bs' = ?data @ drop (length ?data) bs \<or> (\<exists>e. r = Err e) \<and> length bs' \<le> max (length bs) (length ?data)"
      using driver_okD(5) [OF drv bs(1)] by blast
    have len: "length bs' \<le> cf_len f" using w(3) bs(2) a(3) by auto
    note keep = flush_failed [OF inv Some True w(2) len]
    have slice: "arena_slice (cf_arena_offset f) (cf_len f) c = (Ok ?data, c)" using a(2) by (simp add: arena_calls cached_bytes_def)
    from w(3) show ?thesis
    proof
      assume "(\<exists>e. r = Err e) \<and> length bs' \<le> max (length bs) (length ?data)"
      then show ?thesis using keep get True slice w(1) by (auto simp: flush_file_def reading_def bind_def on_driver_def)
    next
      assume ok: "r = Ok (length ?data) \<and> bs' = ?data @ drop (length ?data) bs"
      then have full: "bs' = ?data" using bs(2) a(3) by simp
      let ?m = "fx_modify (fc_files c) h (\<lambda>f. f\<lparr>cf_is_dirty := False\<rparr>)"
      define c' where "c' = c\<lparr>fc_driver := d, fc_files := ?m\<rparr>"
      have m: "fx_inv ?m" "fx_map ?m = (fx_map (fc_files c))(h \<mapsto> f\<lparr>cf_is_dirty := False\<rparr>)"
        using fx_modify_spec [OF i(1)] Some by auto
      have run: "flush_file ops h c = (Ok (), c')"
        using get True slice w(1) ok by (simp add: flush_file_def reading_def bind_def on_driver_def update_file_def modify_def c'_def)
      have same: "cached_bytes (fc_arena c) (f\<lparr>cf_is_dirty := False\<rparr>) = ?data" by (simp add: cached_bytes_def)
      have "total_len (fx_map ?m) = total_len (fx_map (fc_files c))"
        using total_len_update [OF finite_fx_map Some, of "f\<lparr>cf_is_dirty := False\<rparr>"] by (simp add: m(2))
      moreover have "placed (fc_push_offset c) (fx_map ?m)"
      proof -
        have "file_apart (f\<lparr>cf_is_dirty := False\<rparr>) x = file_apart f x" "file_apart x (f\<lparr>cf_is_dirty := False\<rparr>) = file_apart x f" for x
          by (simp_all add: file_apart_def)
        with i(6) Some show ?thesis by (auto simp: placed_def m(2))
      qed
      moreover have "backed (disk d) (fc_arena c) (fx_map ?m)"
        using i(8) a(3) same by (auto simp: backed_def m(2) w(2) full)
      ultimately have "cache_inv disk c'" using i m(1) by (simp add: cache_inv_def c'_def)
      moreover have "fs_view disk c' = fs_view disk c"
        using Some same by (auto simp: fs_view_def c'_def m(2) w(2) full fun_eq_iff split: option.splits)
      moreover have "clean c' (insert h H)" using H by (auto simp: clean_def c'_def m(2))
      moreover have "dom (fx_map (fc_files c')) = dom (fx_map (fc_files c))" using Some by (auto simp: c'_def m(2))
      ultimately show ?thesis using run by blast
    qed
  qed
qed

lemma flush_nodes_spec:
  assumes "driver_ok ops disk" "cache_inv disk c" "clean c H"
  shows "\<exists>r c'. flush_nodes ops hs c = (r, c') \<and> cache_inv disk c' \<and> fs_view disk c' = fs_view disk c
    \<and> dom (fx_map (fc_files c')) = dom (fx_map (fc_files c)) \<and> (r = Ok () \<and> clean c' (set hs \<union> H) \<or> (\<exists>e. r = Err e))"
  using assms(2,3)
proof (induction hs arbitrary: c H)
  case (Cons h hs)
  from flush_file_spec [OF assms(1) Cons.prems, of h] obtain r c1 where f: "flush_file ops h c = (r, c1)" "cache_inv disk c1"
    "fs_view disk c1 = fs_view disk c" "dom (fx_map (fc_files c1)) = dom (fx_map (fc_files c))"
    "r = Ok () \<and> clean c1 (insert h H) \<or> (\<exists>e. r = Err e)" by blast
  then show ?case using Cons.IH [OF f(2), of "insert h H"] by (auto simp: bind_def)
qed (auto simp: ret_def)

text \<open>C17: When \<open>flush_all\<close> succeeds, the driver holds every file as the cache presents it, and no file
  is dirty any more; when a write of the driver fails, the view of the files is still unchanged.\<close>

theorem flush_all_durable:
  assumes "driver_ok ops disk" "cache_inv disk c"
  shows "\<exists>r c'. flush_all ops c = (r, c') \<and> cache_inv disk c' \<and> fs_view disk c' = fs_view disk c
    \<and> (r = Ok () \<and> disk (fc_driver c') = fs_view disk c \<and> dirty_files (stats c') = 0 \<or> (\<exists>e. r = Err e))"
proof -
  let ?hs = "map fst (filter (\<lambda>(h, f). cf_is_dirty f) (fx_iter (fc_files c)))"
  let ?H = "{h. \<forall>f. fx_map (fc_files c) h = Some f \<longrightarrow> \<not> cf_is_dirty f}"
  have iter: "(h, f) \<in> set (fx_iter (fc_files c)) \<longleftrightarrow> fx_map (fc_files c) h = Some f" if "fx_inv (fc_files c)" for c :: "'a file_cache" and h f
    using fx_iter_distinct [of "fc_files c"] that by (auto simp: fx_inv_def fx_map_def)
  have "clean c ?H" by (simp add: clean_def)
  from flush_nodes_spec [OF assms this, of ?hs] obtain r c' where f: "flush_nodes ops ?hs c = (r, c')" "cache_inv disk c'"
    "fs_view disk c' = fs_view disk c" "dom (fx_map (fc_files c')) = dom (fx_map (fc_files c))"
    "r = Ok () \<and> clean c' (set ?hs \<union> ?H) \<or> (\<exists>e. r = Err e)" by blast
  note i = cache_invD [OF f(2)]
  have "disk (fc_driver c') = fs_view disk c \<and> dirty_files (stats c') = 0" if ok: "clean c' (set ?hs \<union> ?H)"
  proof -
    have all: "set ?hs \<union> ?H = UNIV"
      using iter [OF cache_invD(1) [OF assms(2)]] by (force simp: image_iff)
    then have no: "\<not> cf_is_dirty g" if "fx_map (fc_files c') h = Some g" for h g using ok that unfolding clean_def all by blast
    have "disk (fc_driver c') h = fs_view disk c' h" for h
    proof (cases "fx_map (fc_files c') h")
      case (Some g)
      from backedD [OF i(8) Some] no [OF Some] show ?thesis by (metis view_cached [OF Some])
    qed (simp add: fs_view_def)
    moreover have "filter cf_is_dirty (fx_values (fc_files c')) = []"
      using no iter [OF i(1)] by (auto simp: fx_values_def filter_empty_conv)
    ultimately show ?thesis using f(3) by (auto simp: stats_def)
  qed
  with f show ?thesis by (auto simp: flush_all_def reading_def)
qed

theorem flush_all_durable_witness:
  "\<exists>c c' r c''. file_cache_new [5 \<mapsto> [10, 20, 30]] 64 = Ok c \<and> cache_write_file plain_driver 7 5 4 [1, 2] c = (Ok 2, c')
     \<and> flush_all plain_driver c' = (r, c'') \<and> fs_view plain_disk c'' 5 = Some [10, 20, 30, 0, 1, 2]"
proof -
  obtain c where c: "file_cache_new [5 \<mapsto> [10, 20, 30]] 64 = Ok c" "cache_ready plain_disk c"
    "fs_view plain_disk c = plain_disk [5 \<mapsto> [10, 20, 30]]" "fc_push_offset c = 0" "fc_max_memory c = 64"
    "fx_map (fc_files c) = Map.empty"
    using cache_new_ready [of 64 "[5 \<mapsto> [10, 20, 30]]" plain_disk] by auto
  have v: "fs_view plain_disk c 5 = Some [10, 20, 30]" by (simp add: c(3) plain_disk_def)
  have h: "(5 :: file_node_handle) \<noteq> INVALID_NODE_HANDLE" by (simp add: INVALID_NODE_HANDLE_def)
  have bytes: "write_bytes [10, 20, 30] 4 [1, 2] = [10, 20, 30, 0, 1, 2]" by code_simp
  have safe: "growth_safe c 5 (4 + length [1 :: u8, 2])" by (simp add: growth_safe_def c(6))
  obtain c' where w: "cache_write_file plain_driver 7 5 4 [1, 2] c = (Ok 2, c')" "cache_inv plain_disk c'"
    "fs_view plain_disk c' 5 = Some [10, 20, 30, 0, 1, 2]"
    using cache_write_spec [OF plain_driver_ok c(2) h v safe, of 7] c(4,5) bytes by (auto simp: write_res_def write_ok_def split: prod.splits)
  from flush_all_durable [OF plain_driver_ok w(2)] c(1) w show ?thesis by auto
qed

end
