(* ===== verification/File_Cache_Findings.thy ===== *)
theory File_Cache_Findings
  imports File_Cache_Props
begin

text \<open>
  Runs of the file cache from a fresh state in which it loses data, panics, or evicts what was
  pinned. The states are followed through what their maps stand for, so the hash tables are not
  unfolded.
\<close>

section \<open>Following a run\<close>

text \<open>A table without tombstones that takes \<open>k\<close> more keys without growing.\<close>

definition roomy :: "nat \<Rightarrow> 'v fxmap \<Rightarrow> bool" where
  "roomy k m \<longleftrightarrow> fx_inv m \<and> Dead \<notin> set (fx_slots m) \<and> (fx_count m + k) * 4 \<le> length (fx_slots m) * 3
     \<and> length (fx_slots m) < 2 ^ 62"

lemma roomy_spare: "roomy k m \<Longrightarrow> spare_slot m"
  using fx_empty_slot by (auto simp: roomy_def spare_slot_def)

lemma roomy_insert:
  assumes "roomy (Suc k) m"
  shows "\<exists>m'. fx_insert m key v = Ok (fx_map m key, m') \<and> fx_map m' = (fx_map m)(key \<mapsto> v) \<and> roomy k m'"
proof -
  from assms have inv: "fx_inv m" "Dead \<notin> set (fx_slots m)" "(fx_count m + 1) * 4 \<le> length (fx_slots m) * 3" "\<not> fx_overloaded m"
    by (auto simp: roomy_def fx_overloaded_def)
  from fx_insert_probe_spec [OF inv(1,3), of key v] fx_room_fresh [OF inv(1,2), of key] inv(2) obtain m' where
    "fx_insert_probe m key v = Ok (fx_map m key, m')" "fx_inv m'" "fx_map m' = (fx_map m)(key \<mapsto> v)"
    "length (fx_slots m') = length (fx_slots m)" "fx_count m' \<le> fx_count m + 1" "Dead \<notin> set (fx_slots m')" by auto
  with assms inv(4) show ?thesis by (auto simp: fx_insert_def numeral_2_eq_2 roomy_def)
qed

lemma roomy_weaken: "roomy k m \<Longrightarrow> j \<le> k \<Longrightarrow> roomy j m"
  by (auto simp: roomy_def)

lemma roomy_fresh: "k \<le> 768 \<Longrightarrow> roomy k \<lparr>fx_slots = replicate (2 ^ 10) Empty, fx_count = 0\<rparr>"
  using fresh_map(1) by (auto simp: roomy_def)

text \<open>A cache over the map driver, described without its tables.\<close>

definition known :: "nat \<Rightarrow> (file_node_handle \<rightharpoonup> u8 list) \<Rightarrow> u8 list \<Rightarrow> nat \<Rightarrow> nat \<Rightarrow> u64 \<Rightarrow> (file_node_handle \<rightharpoonup> cached_file) \<Rightarrow>
    (file_node_handle \<rightharpoonup> u8 list) file_cache \<Rightarrow> bool" where
  "known k d arena push used tick m c \<longleftrightarrow> fc_driver c = d \<and> fc_arena c = arena \<and> fc_push_offset c = push \<and> fc_memory_used c = used
     \<and> fc_max_memory c = length arena \<and> length arena < 2 ^ 63 \<and> fc_access_tick c = tick \<and> fx_map (fc_files c) = m
     \<and> roomy k (fc_files c) \<and> roomy k (fc_file_nodes c) \<and> fx_get (fc_directory_hints c) = Map.empty"

lemma known_new:
  assumes "n < 2 ^ 63" "k \<le> 768"
  shows "\<exists>c. file_cache_new d n = Ok c \<and> known k d (replicate n 0) 0 0 0 Map.empty c"
proof -
  have "fx_get fx_fresh = (Map.empty :: file_node_handle \<rightharpoonup> cache_importance)"
  proof (rule ext)
    fix key
    show "fx_get fx_fresh key = (None :: cache_importance option)"
      using fx_get_map [OF fx_fresh_inv, of key, where 'a = cache_importance]
      by (simp add: fx_fresh_def fx_map_def fx_iter_def List.map_filter_def)
  qed
  with assms fresh_map(2) [where 'a = cached_file] roomy_fresh [of k, where 'a = cached_file]
    roomy_fresh [of k, where 'a = file_node] show ?thesis
    by (auto simp: file_cache_new_def with_capacity_1024 fx_new_eq layout_array_ok_def known_def)
qed

lemma known_load:
  assumes k: "known (Suc k) d arena push used tick m c" and h: "m h = None" "d h = Some bs" "bs \<noteq> []"
    and fits: "push + length bs \<le> length arena" "used \<le> push"
  shows "\<exists>c'. read_file_range plain_driver h 0 [] c = (Ok (0, []), c')
    \<and> known k d (blit push bs arena) (push + length bs) (used + length bs) (tick + 1)
        (m(h \<mapsto> cached_file_new push (length bs) (tick + 1) Normal)) c'"
proof -
  let ?c = "c\<lparr>fc_access_tick := tick + 1, fc_driver := d, fc_push_offset := push + length bs, fc_driver := d, fc_arena := blit push bs arena\<rparr>"
  let ?f = "cached_file_new push (length bs) (tick + 1) Normal"
  note kd = k [unfolded known_def]
  obtain files where fs: "fx_insert (fc_files c) h ?f = Ok (m h, files)" "fx_map files = m(h \<mapsto> ?f)" "roomy k files"
    using roomy_insert [of k "fc_files c" h ?f] kd by auto
  obtain nodes old where ns: "fx_insert (fc_file_nodes c) h (plain_node h bs) = Ok (old, nodes)" "roomy k nodes"
    using roomy_insert [of k "fc_file_nodes c" h "plain_node h bs"] kd by auto
  have get: "fx_get (fc_files c) h = None" using kd h(1) fx_get_map [of "fc_files c" h] by (simp add: roomy_def)
  have big: "push + length bs < 2 ^ 64" "used + length bs < 2 ^ 64" using fits kd by auto
  have len: "length (blit push bs arena) = length arena" using fits(1) by simp
  have "length (chunk push (length bs) arena) = length bs" using fits(1) by simp
  then have buf: "blit 0 (take (length (chunk push (length bs) arena)) bs) (chunk push (length bs) arena) = bs"
    "min (length bs) (length (chunk push (length bs) arena)) = length bs"
    by (simp_all only: take_all order_refl blit_whole min.idem)
  define c' where "c' = c\<lparr>fc_access_tick := tick + 1, fc_driver := d, fc_push_offset := push + length bs, fc_arena := blit push bs arena,
    fc_files := files, fc_file_nodes := nodes, fc_memory_used := used + length bs\<rparr>"
  have "read_file_range plain_driver h 0 [] c = read_miss plain_driver h 0 [] (c\<lparr>fc_access_tick := tick + 1\<rparr>)"
    using kd get by (simp add: read_file_range_def next_tick_run reading_def)
  also have "\<dots> = (Ok (0, []), c')"
    using kd get h fits fs(1) ns(1) big len buf
    by (simp add: reading_def read_miss_def bind_def on_driver_def plain_driver_def on_file_def ret_def
        ensure_space_def usize_add_def arena_push_alloc_def modify_def read_load_def fill_from_driver_def arena_calls
        insert_file_def insert_node_def stored_def get_effective_importance_def add_memory_used_def copy_out_def c'_def chunk_def [of _ 0])
  finally have "read_file_range plain_driver h 0 [] c = (Ok (0, []), c')" .
  moreover have "known k d (blit push bs arena) (push + length bs) (used + length bs) (tick + 1) (m(h \<mapsto> ?f)) c'"
    using kd fs ns len by (simp add: known_def c'_def)
  ultimately show ?thesis by blast
qed

lemma best_victim_stays:
  "(\<And>k g. (k, g) \<in> set es \<Longrightarrow> \<not> skip k g \<Longrightarrow> eviction_score tick g \<le> sc) \<Longrightarrow> best_victim skip tick es b sc = b"
proof (induction es)
  case (Cons e es)
  obtain k g where "e = (k, g)" by (cases e)
  with Cons.IH Cons.prems [of k g] Cons.prems show ?case by (auto simp: Let_def not_less)
qed simp

lemma best_victim_unique:
  assumes "(h, f) \<in> set es" "distinct (map fst es)" "\<not> skip h f" "sc < eviction_score tick f"
    and "\<And>k g. (k, g) \<in> set es \<Longrightarrow> k \<noteq> h \<Longrightarrow> \<not> skip k g \<Longrightarrow> eviction_score tick g < eviction_score tick f"
  shows "best_victim skip tick es b sc = h"
  using assms(1,2,4,5)
proof (induction es arbitrary: b sc)
  case (Cons e es)
  obtain k g where e: "e = (k, g)" by (cases e)
  show ?case
  proof (cases "k = h")
    case True
    with Cons.prems(1,2) e have g: "g = f" by (force simp: image_iff)
    have "eviction_score tick g' \<le> eviction_score tick f" if "(k', g') \<in> set es" "\<not> skip k' g'" for k' g'
    proof -
      have "k' \<noteq> h" using Cons.prems(2) that(1) e True by force
      with Cons.prems(4) [of k' g'] that show ?thesis by simp
    qed
    with e True g assms(3) Cons.prems(3) show ?thesis by (simp add: Let_def best_victim_stays)
  next
    case False
    with Cons.prems e have "(h, f) \<in> set es" "distinct (map fst es)" by auto
    then show ?thesis using Cons.IH Cons.prems(3,4) e False by (auto simp: Let_def)
  qed
qed simp

lemma evict_found_clean:
  assumes "fx_inv (fc_files c)" "fx_map (fc_files c) h = Some f" "\<not> cf_is_dirty f" "cf_len f \<le> fc_memory_used c" "h \<noteq> INVALID_NODE_HANDLE"
  shows "\<exists>m. evict_found ops h c = (Ok (cf_len f), c\<lparr>fc_files := m, fc_memory_used := fc_memory_used c - cf_len f\<rparr>)
    \<and> fx_inv m \<and> fx_map m = (fx_map (fc_files c))(h := None)"
proof -
  from fx_remove_spec [OF assms(1), of h] assms(2) obtain m where m: "fx_remove (fc_files c) h = (Some f, m)" "fx_inv m"
    "fx_map m = (fx_map (fc_files c))(h := None)" by auto
  moreover have "fx_get (fc_files c) h = Some f" using fx_get_map [OF assms(1)] assms(2) by simp
  ultimately show ?thesis using assms(3-5)
    by (intro exI [of _ m]) (simp add: evict_found_def bind_def reading_def modify_def memory_calls ret_def)
qed

lemma iter_map:
  assumes "fx_inv m"
  shows "(h, f) \<in> set (fx_iter m) \<longleftrightarrow> fx_map m h = Some f" "distinct (map fst (fx_iter m))"
  using fx_iter_distinct [of m] assms by (auto simp: fx_inv_def fx_map_def)

text \<open>Making room subtracts the size of the victim twice, so a cached file that is larger than what
  is left plus what is needed makes the kernel panic: in a cache of five bytes, reading a file of four
  bytes and then one of two bytes ends in an arithmetic overflow.\<close>

theorem cache_read_evicts_larger_file:
  "\<exists>c c' c''. file_cache_new [1 \<mapsto> [10, 11, 12, 13], 2 \<mapsto> [20, 21]] 5 = Ok c
     \<and> read_file_range plain_driver 1 0 [] c = (Ok (0, []), c')
     \<and> read_file_range plain_driver 2 0 [] c' = (Panic, c'')"
proof -
  let ?d = "[1 :: file_node_handle \<mapsto> [10 :: u8, 11, 12, 13], 2 \<mapsto> [20, 21]]"
  obtain c where c: "file_cache_new ?d 5 = Ok c" "known (Suc 1) ?d (replicate 5 0) 0 0 0 Map.empty c"
    using known_new [of 5 "Suc 1" ?d] by auto
  define f where "f = cached_file_new 0 4 1 Normal"
  obtain c' where c': "read_file_range plain_driver 1 0 [] c = (Ok (0, []), c')"
    "known 1 ?d (blit 0 [10, 11, 12, 13] (replicate 5 0)) 4 4 1 [1 \<mapsto> f] c'"
    using known_load [OF c(2), of 1 "[10, 11, 12, 13]"] by (auto simp: f_def numeral_eq_Suc)
  note k = c'(2) [unfolded known_def]
  let ?c = "c'\<lparr>fc_access_tick := 2, fc_driver := ?d\<rparr>"
  have inv: "fx_inv (fc_files c')" using k by (simp add: roomy_def)
  have len: "fx_len (fc_files c') = 1" using card_dom_fx [OF inv] k by simp
  let ?skip = "\<lambda>node_id cached. (cf_pinned cached \<and> \<not> True) \<or> node_id = INVALID_NODE_HANDLE
      \<or> (eviction_priority (cf_importance cached) = - 1 \<and> \<not> True)"
  have "best_victim ?skip 2 (fx_iter (fc_files c')) INVALID_NODE_HANDLE 0 = 1"
    by (rule best_victim_unique [where f = f])
      (use iter_map [OF inv] k in \<open>auto simp: f_def cached_file_new_def INVALID_NODE_HANDLE_def eviction_score_def saturating_mul_def split: if_splits\<close>)
  moreover obtain m where "evict_found plain_driver 1 ?c = (Ok 4, ?c\<lparr>fc_files := m, fc_memory_used := 0\<rparr>)"
    using evict_found_clean [of ?c 1 f plain_driver] inv k by (auto simp: f_def cached_file_new_def INVALID_NODE_HANDLE_def)
  ultimately have "evict_one_keep_alive plain_driver INVALID_NODE_HANDLE True ?c = (Ok 4, ?c\<lparr>fc_files := m, fc_memory_used := 0\<rparr>)"
    by (simp add: evict_one_keep_alive_def reading_def)
  then have "read_miss plain_driver 2 0 [] (c'\<lparr>fc_access_tick := 2\<rparr>) = (Panic, ?c\<lparr>fc_files := m, fc_memory_used := 0\<rparr>)"
    using k len
    by (simp add: reading_def read_miss_def bind_def on_driver_def plain_driver_def on_file_def ret_def
        ensure_space_def usize_add_def usize_sub_def panic_def)
  moreover have "read_file_range plain_driver 2 0 [] c' = read_miss plain_driver 2 0 [] (c'\<lparr>fc_access_tick := 2\<rparr>)"
    using k fx_get_map [OF inv, of 2] by (simp add: read_file_range_def next_tick_run reading_def)
  ultimately show ?thesis using c(1) c'(1) by auto
qed

text \<open>
  The file that grows is moved last, but the files before it are moved first, over its old place.
\<close>

lemma sort_two:
  assumes "distinct (map fst xs)" "set xs = {(a, o1, l1), (s, o2, l2)}" "a \<noteq> s" "o1 < 2 ^ 63" "o2 < 2 ^ 63"
  shows "sort_key (live_key s) xs = [(a, o1, l1), (s, o2, l2)]"
proof -
  obtain ys where ys: "sort_key (live_key s) xs = ys @ [(s, o2, l2)]" "s \<notin> fst ` set ys"
    by (rule sort_last_split [OF assms(1), of s o2 l2]) (use assms in auto)
  have d: "distinct (map fst (sort_key (live_key s) xs))" using assms(1) by (simp only: distinct_map_sort)
  have "set (sort_key (live_key s) xs) = {(a, o1, l1), (s, o2, l2)}" using assms(2) by simp
  then have sub: "set ys \<subseteq> {(a, o1, l1)}" "(a, o1, l1) \<in> set ys" using ys assms(3) by (auto simp: image_iff)
  have "distinct ys" using d ys(1) by (auto simp: distinct_map)
  then have "ys = [(a, o1, l1)]" using sub by (cases ys; cases "tl ys") auto
  with ys(1) show ?thesis by simp
qed

lemma compact_loses_data:
  fixes c :: "'d file_cache"
  assumes inv: "fx_inv (fc_files c)" and m: "fx_map (fc_files c) = [1 \<mapsto> f1, 3 \<mapsto> f3]"
    and f: "cf_arena_offset f1 = 0" "cf_len f1 = 2" "cf_arena_offset f3 = 4" "cf_len f3 = 2" and a: "fc_arena c = [1, 1, 2, 2, 3, 3]"
  shows "\<exists>files. compact 1 c = (Ok (), c\<lparr>fc_arena := [3, 3, 3, 3, 3, 3], fc_files := files, fc_push_offset := 4\<rparr>) \<and> fx_inv files
    \<and> fx_map files = [1 \<mapsto> f1\<lparr>cf_arena_offset := 2\<rparr>, 3 \<mapsto> f3\<lparr>cf_arena_offset := 0\<rparr>]"
proof -
  have "set (live_files (fc_files c)) = {(3, 4, 2), (1, 0, 2)}"
  proof (rule set_eqI)
    fix e :: "file_node_handle \<times> nat \<times> nat"
    obtain h off len where e: "e = (h, off, len)" by (cases e)
    show "e \<in> set (live_files (fc_files c)) \<longleftrightarrow> e \<in> {(3, 4, 2), (1, 0, 2)}"
      unfolding e live_files_set(1) [OF inv] m using f by auto
  qed
  then have live: "sort_key (live_key 1) (live_files (fc_files c)) = [(3, 4, 2), (1, 0, 2)]"
    by (intro sort_two [OF live_files_set(2) [OF inv]]) auto
  let ?c1 = "compact_step 3 4 2 0 c" let ?c2 = "compact_step 1 0 2 2 ?c1"
  have a1: "fc_arena ?c1 = [3, 3, 2, 2, 3, 3]" by (simp add: compact_step_def a blit_def chunk_def)
  have a2: "fc_arena ?c2 = [3, 3, 3, 3, 3, 3]" by (simp add: compact_step_def a1 [simplified] blit_def chunk_def) (simp add: compact_step_def a blit_def chunk_def)
  have "compact_loop [(3, 4, 2), (1, 0, 2)] 0 c = compact_loop [(1, 0, 2)] (0 + 2) ?c1"
    by (rule compact_loop_Cons) (simp_all add: a)
  also have "\<dots> = compact_loop [] (0 + 2 + 2) (compact_step 1 0 2 (0 + 2) ?c1)"
    by (rule compact_loop_Cons) (simp_all add: a1)
  finally have run: "compact_loop [(3, 4, 2), (1, 0, 2)] 0 c = (Ok 4, ?c2)" by (simp add: ret_def numeral_eq_Suc del: compact_loop.simps(2))
  let ?g = "\<lambda>w f. f\<lparr>cf_arena_offset := w :: nat\<rparr>"
  define files where "files = fx_modify (fx_modify (fc_files c) 3 (?g 0)) 1 (?g 2)"
  have i1: "fx_inv (fx_modify (fc_files c) 3 (?g 0))" by (rule fx_modify_spec(1) [OF inv])
  have "fx_inv files" unfolding files_def by (rule fx_modify_spec(1) [OF i1])
  moreover have "fx_map files = [1 \<mapsto> f1\<lparr>cf_arena_offset := 2\<rparr>, 3 \<mapsto> f3\<lparr>cf_arena_offset := 0\<rparr>]"
    unfolding files_def fx_modify_spec(2) [OF i1] fx_modify_spec(2) [OF inv] m by auto
  moreover have "?c2\<lparr>fc_push_offset := 4\<rparr> = c\<lparr>fc_arena := [3, 3, 3, 3, 3, 3], fc_files := files, fc_push_offset := 4\<rparr>"
    unfolding a2 [symmetric] by (simp add: compact_step_def files_def)
  then have "compact 1 c = (Ok (), c\<lparr>fc_arena := [3, 3, 3, 3, 3, 3], fc_files := files, fc_push_offset := 4\<rparr>)"
    using run live by (simp add: compact_def reading_def bind_def modify_def)
  ultimately show ?thesis by blast
qed

lemma score_normal: "eviction_score tick (cached_file_new off len t Normal) = saturating_mul 2 (max (tick - t) 1)"
  by (simp add: eviction_score_def cached_file_new_def)

text \<open>Growing a cached file can replace its contents by those of another file: in a full cache of six
  bytes with three files of two bytes each, appending one byte to the first file leaves it with the two
  bytes of the third one, and that is what is written back.\<close>

theorem grow_by_compaction_loses_data:
  "\<exists>c c1 c2 c3 c4 c5. file_cache_new [1 \<mapsto> [1, 1], 2 \<mapsto> [2, 2], 3 \<mapsto> [3, 3]] 6 = Ok c
     \<and> read_file_range plain_driver 1 0 [] c = (Ok (0, []), c1)
     \<and> read_file_range plain_driver 2 0 [] c1 = (Ok (0, []), c2)
     \<and> read_file_range plain_driver 3 0 [] c2 = (Ok (0, []), c3)
     \<and> cache_write_file plain_driver 7 1 2 [9] c3 = (Ok 1, c4)
     \<and> read_file_range plain_driver 1 0 [0, 0, 0] c4 = (Ok (3, [3, 3, 9]), c5)"
proof -
  let ?d = "[1 :: file_node_handle \<mapsto> [1 :: u8, 1], 2 \<mapsto> [2, 2], 3 \<mapsto> [3, 3]]"
  define f1 f2 f3 where f: "f1 = cached_file_new 0 2 1 Normal" "f2 = cached_file_new 2 2 2 Normal" "f3 = cached_file_new 4 2 3 Normal"
  obtain c where c: "file_cache_new ?d 6 = Ok c" "known (Suc (Suc (Suc 0))) ?d (replicate 6 0) 0 0 0 Map.empty c"
    using known_new [of 6 "Suc (Suc (Suc 0))" ?d] by auto
  obtain c1 where c1: "read_file_range plain_driver 1 0 [] c = (Ok (0, []), c1)"
    "known (Suc (Suc 0)) ?d [1, 1, 0, 0, 0, 0] 2 2 1 [1 \<mapsto> f1] c1"
    using known_load [OF c(2), of 1 "[1, 1]"] by (auto simp: f numeral_eq_Suc blit_def)
  obtain c2 where c2: "read_file_range plain_driver 2 0 [] c1 = (Ok (0, []), c2)"
    "known (Suc 0) ?d [1, 1, 2, 2, 0, 0] 4 4 2 [1 \<mapsto> f1, 2 \<mapsto> f2] c2"
    using known_load [OF c1(2), of 2 "[2, 2]"] by (auto simp: f numeral_eq_Suc blit_def)
  obtain c3 where c3: "read_file_range plain_driver 3 0 [] c2 = (Ok (0, []), c3)"
    "known 0 ?d [1, 1, 2, 2, 3, 3] 6 6 3 [1 \<mapsto> f1, 2 \<mapsto> f2, 3 \<mapsto> f3] c3"
    using known_load [OF c2(2), of 3 "[3, 3]"] by (auto simp: f numeral_eq_Suc blit_def)
  note k = c3(2) [unfolded known_def]
  have inv: "fx_inv (fc_files c3)" and len: "fx_len (fc_files c3) = Suc (Suc (Suc 0))"
    using k card_dom_fx [of "fc_files c3"] by (auto simp: roomy_def card_insert_if)
  let ?c = "c3\<lparr>fc_access_tick := 4\<rparr>"
  let ?skip = "\<lambda>node_id cached. (cf_pinned cached \<and> \<not> True) \<or> node_id = 1
      \<or> (eviction_priority (cf_importance cached) = - 1 \<and> \<not> True)"
  have victim: "best_victim ?skip 4 (fx_iter (fc_files c3)) INVALID_NODE_HANDLE 0 = 2"
  proof (rule best_victim_unique [where f = f2])
    show "eviction_score 4 g < eviction_score 4 f2" if "(k, g) \<in> set (fx_iter (fc_files c3))" "k \<noteq> 2" "\<not> ?skip k g" for k g
      using that k iter_map(1) [OF inv] by (auto simp: f score_normal saturating_mul_def split: if_splits)
  qed (use k iter_map [OF inv] in \<open>auto simp: f score_normal saturating_mul_def\<close>)
  obtain m where m: "evict_found plain_driver 2 ?c = (Ok 2, ?c\<lparr>fc_files := m, fc_memory_used := 4\<rparr>)" "fx_inv m"
    "fx_map m = [1 \<mapsto> f1, 3 \<mapsto> f3]"
    using evict_found_clean [of ?c 2 f2 plain_driver] inv k by (auto simp: f cached_file_new_def INVALID_NODE_HANDLE_def)
  let ?e = "?c\<lparr>fc_files := m, fc_memory_used := 4\<rparr>"
  have evict: "evict_one_keep_alive plain_driver 1 True ?c = (Ok 2, ?e)"
    using victim m(1) by (simp add: evict_one_keep_alive_def reading_def)
  obtain files where g: "compact 1 ?e = (Ok (), ?e\<lparr>fc_arena := [3, 3, 3, 3, 3, 3], fc_files := files, fc_push_offset := 4\<rparr>)"
    "fx_inv files" "fx_map files = [1 \<mapsto> f1\<lparr>cf_arena_offset := 2\<rparr>, 3 \<mapsto> f3\<lparr>cf_arena_offset := 0\<rparr>]"
    using compact_loses_data [of ?e f1 f3] m(2,3) k by (auto simp: f cached_file_new_def)
  let ?s = "?e\<lparr>fc_arena := [3, 3, 3, 3, 3, 3], fc_files := files, fc_push_offset := 4\<rparr>"
  have space: "ensure_space plain_driver 1 1 True ?c = (Ok True, ?s)"
    using k len evict g(1) by (simp add: ensure_space_def reading_def bind_def usize_add_def usize_sub_def ret_def)
  define files' where "files' = fx_modify files 1 (\<lambda>f. f\<lparr>cf_len := 3\<rparr>)"
  define f' where "f' = f1\<lparr>cf_arena_offset := 2, cf_len := 3\<rparr>"
  have f': "fx_inv files'" "fx_map files' = [1 \<mapsto> f', 3 \<mapsto> f3\<lparr>cf_arena_offset := 0\<rparr>]"
    using fx_modify_spec [OF g(2), of 1 "\<lambda>f. f\<lparr>cf_len := 3\<rparr>"] g(3) by (auto simp: files'_def f'_def)
  define c4 where "c4 = ?s\<lparr>fc_arena := [3, 3, 3, 3, 0, 3], fc_push_offset := 5, fc_memory_used := 5, fc_files := files'\<rparr>"
  have "grow_at_tail 1 1 3 ?s = (Ok (), c4)"
    using k by (simp add: grow_at_tail_def reading_def bind_def arena_calls modify_def memory_calls update_file_def c4_def files'_def blit_def)
  then have grow: "write_grow plain_driver 1 f1 3 ?c = (Ok (), c4)"
    using k space fx_get_map [OF g(2)] g(3)
    by (simp add: write_grow_def f cached_file_new_def reading_def Let_def bind_def usize_sub_def ret_def grow_by_compaction_def check_or_panic_def)
  obtain d m' nodes where p: "write_patch plain_driver 7 1 2 [9] 3 c4 = (Ok 1,
      c4\<lparr>fc_arena := [3, 3, 3, 3, 9, 3], fc_files := m', fc_driver := d, fc_file_nodes := nodes\<rparr>)"
    "fx_inv m'" "fx_map m' 1 = Some (f'\<lparr>cf_is_dirty := True, cf_last_access := 4\<rparr>)"
    using write_patch_run [of c4 1 f' 3 2 "[9]" plain_driver plain_disk "[1, 1]" 7] f' plain_driver_ok k roomy_spare [of 0 "fc_file_nodes c3"]
    by (auto simp: c4_def f'_def plain_disk_def roomy_def blit_def)
  let ?w = "c4\<lparr>fc_arena := [3, 3, 3, 3, 9, 3], fc_files := m', fc_driver := d, fc_file_nodes := nodes\<rparr>"
  have "write_load plain_driver 1 2 1 ?c = (Ok (), ?c)"
    using k fx_get_map [OF inv, of 1] by (simp add: write_load_def reading_def fx_contains_key_def ret_def)
  then have wr: "cache_write_file plain_driver 7 1 2 [9] c3 = (Ok 1, ?w)"
    using k fx_get_map [OF inv, of 1] grow p(1)
    by (simp add: cache_write_file_def next_tick_run) (simp add: bind_def usize_add_def ret_def reading_def)
  have "copy_out 2 3 0 [0, 0, 0] (?w\<lparr>fc_access_tick := t, fc_files := x\<rparr>) = (Ok (3, [3, 3, 9]), ?w\<lparr>fc_access_tick := t, fc_files := x\<rparr>)" for t x
    using copy_out_spec [of 2 3 "?w\<lparr>fc_access_tick := t, fc_files := x\<rparr>" 0 "[0, 0, 0]"] by (simp add: read_result_def chunk_def blit_def)
  then have "\<exists>c5. read_file_range plain_driver 1 0 [0, 0, 0] ?w = (Ok (3, [3, 3, 9]), c5)"
    using fx_get_map [OF p(2), of 1] p(3)
    by (simp add: read_file_range_def next_tick_run reading_def) (simp add: bind_def update_file_def modify_def f'_def)
  with c(1) c1(1) c2(1) c3(1) wr show ?thesis by blast
qed

lemma roomy_modify: "roomy k m \<Longrightarrow> roomy k (fx_modify m key g)"
proof -
  assume r: "roomy k m"
  then have "fx_inv (fx_modify m key g)" using fx_modify_spec(1) by (auto simp: roomy_def)
  with r show ?thesis
    using set_update_subset_insert [of "fx_slots m"] by (fastforce simp: roomy_def fx_modify_def split: option.splits prod.splits)
qed

text \<open>Pinning a file makes it the first one to be evicted: every caller forces the eviction, and the
  score of a resident file is the largest there is. A file of two bytes is pinned, another one is read,
  and making room evicts the pinned one.\<close>

theorem pinned_file_evicted_first:
  "\<exists>c c1 c2 c3. file_cache_new [1 \<mapsto> [1, 1], 2 \<mapsto> [2, 2]] 4 = Ok c
     \<and> pin_file plain_driver 1 c = (Ok (), c1)
     \<and> read_file_range plain_driver 2 0 [] c1 = (Ok (0, []), c2)
     \<and> evict_one_keep_alive plain_driver INVALID_NODE_HANDLE True c2 = (Ok 2, c3)
     \<and> is_cached c2 1 \<and> \<not> is_cached c3 1 \<and> is_cached c3 2"
proof -
  let ?d = "[1 :: file_node_handle \<mapsto> [1 :: u8, 1], 2 \<mapsto> [2, 2]]"
  define f2 where "f2 = cached_file_new 2 2 2 Normal"
  obtain c where c: "file_cache_new ?d 4 = Ok c" "known (Suc (Suc 0)) ?d (replicate 4 0) 0 0 0 Map.empty c"
    using known_new [of 4 "Suc (Suc 0)" ?d] by auto
  obtain c1 where c1: "read_file_range plain_driver 1 0 [] c = (Ok (0, []), c1)"
    "known (Suc 0) ?d [1, 1, 0, 0] 2 2 1 [1 \<mapsto> cached_file_new 0 2 1 Normal] c1"
    using known_load [OF c(2), of 1 "[1, 1]"] by (auto simp: numeral_eq_Suc blit_def)
  let ?pin = "\<lambda>f. f\<lparr>cf_pinned := True, cf_importance := Resident\<rparr>"
  define f1 where "f1 = ?pin (cached_file_new 0 2 1 Normal)"
  define p where "p = c1\<lparr>fc_files := fx_modify (fc_files c1) 1 ?pin\<rparr>"
  have inv1: "fx_inv (fc_files c1)" "fx_inv (fc_files c)" using c1(2) c(2) by (simp_all add: known_def roomy_def)
  have "c\<lparr>fc_driver := ?d\<rparr> = c" using c(2) by (auto simp: known_def)
  then have "on_driver (cd_file_size plain_driver 1) c = (Ok 2, c)"
    using c(2) by (simp add: on_driver_def plain_driver_def on_file_def ret_def known_def numeral_2_eq_2)
  then have pin: "pin_file plain_driver 1 c = (Ok (), p)"
    using c1(1) c(2) fx_get_map [OF inv1(2), of 1]
    by (simp add: pin_file_def reading_def bind_def known_def fx_contains_key_def update_file_def modify_def ret_def p_def)
  have "fx_map (fx_modify (fc_files c1) 1 ?pin) = [1 \<mapsto> f1]"
    using fx_modify_spec(2) [OF inv1(1), of 1 ?pin] c1(2) by (auto simp: known_def f1_def)
  then have kp: "known (Suc 0) ?d [1, 1, 0, 0] 2 2 1 [1 \<mapsto> f1] p"
    using c1(2) roomy_modify [of "Suc 0" "fc_files c1" 1 ?pin] by (simp add: known_def p_def)
  obtain c2 where c2: "read_file_range plain_driver 2 0 [] p = (Ok (0, []), c2)"
    "known 0 ?d [1, 1, 2, 2] 4 4 2 [1 \<mapsto> f1, 2 \<mapsto> f2] c2"
    using known_load [OF kp, of 2 "[2, 2]"] by (auto simp: f2_def numeral_eq_Suc blit_def)
  note k = c2(2) [unfolded known_def]
  have inv: "fx_inv (fc_files c2)" using k by (simp add: roomy_def)
  let ?skip = "\<lambda>node_id cached. (cf_pinned cached \<and> \<not> True) \<or> node_id = INVALID_NODE_HANDLE
      \<or> (eviction_priority (cf_importance cached) = - 1 \<and> \<not> True)"
  have s1: "eviction_score 2 f1 = - 1" by (simp add: f1_def eviction_score_def cached_file_new_def saturating_mul_def)
  have victim: "best_victim ?skip 2 (fx_iter (fc_files c2)) INVALID_NODE_HANDLE 0 = 1"
  proof (rule best_victim_unique [where f = f1])
    show "eviction_score 2 g < eviction_score 2 f1" if "(k, g) \<in> set (fx_iter (fc_files c2))" "k \<noteq> 1" "\<not> ?skip k g" for k g
      using that k iter_map(1) [OF inv] unfolding s1 by (auto simp: f2_def score_normal saturating_mul_def split: if_splits)
    have "(0 :: u64) < - 1" by code_simp
    then show "0 < eviction_score 2 f1" unfolding s1 .
  qed (use k iter_map [OF inv] in \<open>auto simp: INVALID_NODE_HANDLE_def\<close>)
  obtain m where m: "evict_found plain_driver 1 c2 = (Ok 2, c2\<lparr>fc_files := m, fc_memory_used := 2\<rparr>)" "fx_inv m" "fx_map m = [2 \<mapsto> f2]"
    using evict_found_clean [of c2 1 f1 plain_driver] inv k by (auto simp: f1_def cached_file_new_def INVALID_NODE_HANDLE_def)
  have "evict_one_keep_alive plain_driver INVALID_NODE_HANDLE True c2 = (Ok 2, c2\<lparr>fc_files := m, fc_memory_used := 2\<rparr>)"
    using victim m(1) k by (simp add: evict_one_keep_alive_def reading_def)
  moreover have "is_cached c2 1" "\<not> is_cached (c2\<lparr>fc_files := m, fc_memory_used := 2\<rparr>) 1" "is_cached (c2\<lparr>fc_files := m, fc_memory_used := 2\<rparr>) 2"
    using k inv m by (simp_all add: is_cached_def fx_contains_key_def fx_get_map)
  ultimately show ?thesis using c(1) pin c2(1) by blast
qed

end
