(* ===== verification/Sirius_Props.thy ===== *)
theory Sirius_Props
  imports Sirius File_Cache_Findings Fat32_Props
begin

text \<open>
  Paths are split at their last component, node types are checked in front of the driver, and
  a read through \<open>Sirius\<close>, the cache and the FAT32 driver returns the bytes on the disk.
\<close>

section \<open>Paths\<close>

lemma split_acc_app:
  assumes "c \<notin> set t"
  shows "split_acc c acc (s @ c # t) = split_acc c acc s @ [t]"
proof (induction s arbitrary: acc)
  case Nil
  have "split_acc c a t = [rev a @ t]" for a using assms by (induction t arbitrary: a) auto
  then show ?case by simp
qed simp

lemma path_parts_snoc: "0x2F \<notin> set t \<Longrightarrow> path_parts (s @ 0x2F # t) = path_parts s @ (if t = [] then [] else [t])"
  by (simp add: path_parts_def str_split_def split_acc_app)

lemma path_parts_single: "0x2F \<notin> set t \<Longrightarrow> path_parts t = (if t = [] then [] else [t])"
proof -
  assume "0x2F \<notin> set t"
  then have "split_acc 0x2F a t = [rev a @ t]" for a by (induction t arbitrary: a) auto
  then show ?thesis by (simp add: path_parts_def str_split_def)
qed

lemma path_parts_slash: "path_parts (0x2F # s) = path_parts s"
  by (simp add: path_parts_def str_split_def)

text \<open>Every path but the empty one and the root is split; the name has no separator, and the
  components of the path are those of the parent followed by the name, which is missing only when
  the path ends with a separator.\<close>

theorem split_path_components:
  "case split_path path of
     Ok (parent, name) \<Rightarrow> path \<noteq> [] \<and> path \<noteq> [0x2F] \<and> 0x2F \<notin> set name
       \<and> path_parts path = path_parts parent @ (if name = [] then [] else [name])
       \<and> (name = [] \<longleftrightarrow> last path = 0x2F)
   | Err e \<Rightarrow> e = InvalidPath \<and> (path = [] \<or> path = [0x2F])
   | _ \<Rightarrow> False"
proof (cases "path = [] \<or> path = [0x2F]")
  case True
  then show ?thesis by (auto simp: split_path_def)
next
  case False
  define trimmed where "trimmed = (if hd path = 0x2F then tl path else path)"
  have ne: "trimmed \<noteq> []" using False by (cases path) (auto simp: trimmed_def split: if_splits)
  have parts: "path_parts path = path_parts trimmed" using False
    by (cases path) (auto simp: trimmed_def path_parts_slash)
  have lst: "last path = last trimmed" using False ne by (cases path) (auto simp: trimmed_def)
  show ?thesis
  proof (cases "str_rfind 0x2F trimmed")
    case None
    then have no: "0x2F \<notin> set trimmed" by (simp add: str_rfind_None)
    moreover have "path_parts [0x2F] = []" by (simp add: path_parts_def str_split_def)
    moreover have "last trimmed \<noteq> 0x2F" using no ne last_in_set by metis
    ultimately show ?thesis using False None ne parts lst path_parts_single [OF no]
      by (simp add: split_path_def Let_def flip: trimmed_def)
  next
    case (Some pos)
    then obtain t where t: "trimmed = take pos trimmed @ 0x2F # t" "pos < length trimmed" "0x2F \<notin> set t" "t = drop (Suc pos) trimmed"
      by (rule str_rfind_Some)
    have "path_parts trimmed = path_parts (take pos trimmed) @ (if t = [] then [] else [t])"
      by (subst t(1)) (rule path_parts_snoc [OF t(3)])
    moreover have "path_parts [0x2F] = path_parts []" by (simp add: path_parts_def str_split_def)
    moreover have "last trimmed = last (0x2F # t)" by (subst t(1)) (simp only: last_append list.distinct if_False not_False_eq_True)
    then have "t = [] \<longleftrightarrow> last trimmed = 0x2F" using t(3) by (cases "t = []") (auto dest: last_in_set)
    ultimately show ?thesis using False Some parts lst t(3,4)
      by (auto simp: split_path_def Let_def simp flip: trimmed_def)
  qed
qed

section \<open>Node types\<close>

text \<open>
  Two drivers that agree on paths and nodes, on reading and writing behind a node of type \<open>File\<close>,
  and on listing and creating below a node of type \<open>Directory\<close>; behind other nodes each may do
  what it wants. A node counts as it was returned by \<open>get_node\<close>, in the state after that call.
\<close>

definition agree_on_types :: "'d fs_driver \<Rightarrow> 'd fs_driver \<Rightarrow> bool" where
  "agree_on_types a b \<longleftrightarrow> drv_find_node a = drv_find_node b \<and> drv_get_node a = drv_get_node b \<and> drv_delete a = drv_delete b
     \<and> (\<forall>h d node d'. drv_get_node a h d = (Ok node, d') \<longrightarrow>
          (case fn_file_type node of
             File \<Rightarrow> (\<forall>offset buf. drv_read_file a (fn_node_id node) offset buf d' = drv_read_file b (fn_node_id node) offset buf d'
                 \<and> drv_write_file a (fn_node_id node) offset buf d' = drv_write_file b (fn_node_id node) offset buf d')
           | Directory \<Rightarrow> drv_list_directory a (fn_node_id node) d' = drv_list_directory b (fn_node_id node) d'
                 \<and> (\<forall>name. drv_create_file a (fn_node_id node) name d' = drv_create_file b (fn_node_id node) name d'
                        \<and> drv_create_directory a (fn_node_id node) name d' = drv_create_directory b (fn_node_id node) name d')))"

lemma resolved_node:
  assumes "resolve_path drv path d = (Ok node, d')"
  obtains h d0 where "drv_get_node drv h d0 = (Ok node, d')"
  using assms by (cases "drv_find_node drv path d"; cases "fst (drv_find_node drv path d)") (auto simp: resolve_path_def bind_def)

lemma agree_resolve: "agree_on_types a b \<Longrightarrow> resolve_path a = resolve_path b"
  by (rule ext) (simp add: agree_on_types_def resolve_path_def)

lemma resolved_agree:
  assumes "agree_on_types a b" "resolve_path b path d = (Ok node, d')"
  shows "fn_file_type node = File \<Longrightarrow> drv_read_file a (fn_node_id node) offset buf d' = drv_read_file b (fn_node_id node) offset buf d'"
    and "fn_file_type node = File \<Longrightarrow> drv_write_file a (fn_node_id node) offset buf d' = drv_write_file b (fn_node_id node) offset buf d'"
    and "fn_file_type node = Directory \<Longrightarrow> drv_list_directory a (fn_node_id node) d' = drv_list_directory b (fn_node_id node) d'"
    and "fn_file_type node = Directory \<Longrightarrow> drv_create_file a (fn_node_id node) name d' = drv_create_file b (fn_node_id node) name d'"
    and "fn_file_type node = Directory \<Longrightarrow> drv_create_directory a (fn_node_id node) name d' = drv_create_directory b (fn_node_id node) name d'"
proof -
  from assms obtain h d0 where "drv_get_node a h d0 = (Ok node, d')"
    by (metis agree_on_types_def resolved_node)
  with assms(1) have "case fn_file_type node of
      File \<Rightarrow> (\<forall>offset buf. drv_read_file a (fn_node_id node) offset buf d' = drv_read_file b (fn_node_id node) offset buf d'
          \<and> drv_write_file a (fn_node_id node) offset buf d' = drv_write_file b (fn_node_id node) offset buf d')
    | Directory \<Rightarrow> drv_list_directory a (fn_node_id node) d' = drv_list_directory b (fn_node_id node) d'
          \<and> (\<forall>name. drv_create_file a (fn_node_id node) name d' = drv_create_file b (fn_node_id node) name d'
               \<and> drv_create_directory a (fn_node_id node) name d' = drv_create_directory b (fn_node_id node) name d')"
    unfolding agree_on_types_def by blast
  then show "fn_file_type node = File \<Longrightarrow> drv_read_file a (fn_node_id node) offset buf d' = drv_read_file b (fn_node_id node) offset buf d'"
    and "fn_file_type node = File \<Longrightarrow> drv_write_file a (fn_node_id node) offset buf d' = drv_write_file b (fn_node_id node) offset buf d'"
    and "fn_file_type node = Directory \<Longrightarrow> drv_list_directory a (fn_node_id node) d' = drv_list_directory b (fn_node_id node) d'"
    and "fn_file_type node = Directory \<Longrightarrow> drv_create_file a (fn_node_id node) name d' = drv_create_file b (fn_node_id node) name d'"
    and "fn_file_type node = Directory \<Longrightarrow> drv_create_directory a (fn_node_id node) name d' = drv_create_directory b (fn_node_id node) name d'"
    by simp_all
qed

text \<open>C25: reading, writing, listing, creating a file or a directory, deleting and opening by path never ask
  the driver to read or write behind anything but a file, or to list or create below anything but a
  directory (\<open>pin_file\<close>, which checks no type, is not among them): two drivers that agree on the well-typed requests
  cannot be told apart, whatever they do with the others. What is opened is a file.\<close>

theorem sirius_requests_typed:
  assumes "agree_on_types a b"
  shows "sirius_read_file a path offset buf d = sirius_read_file b path offset buf d
    \<and> sirius_write_file a path offset buf d = sirius_write_file b path offset buf d
    \<and> list_directory a path d = list_directory b path d
    \<and> create_file a path d = create_file b path d
    \<and> create_directory a path d = create_directory b path d
    \<and> sirius_delete a path d = sirius_delete b path d
    \<and> open_file a path d = open_file b path d
    \<and> (case fst (open_file b path d) of Ok node \<Rightarrow> fn_file_type node = File | _ \<Rightarrow> True)"
proof (intro conjI)
  note r = agree_resolve [OF assms] and t = resolved_agree [OF assms]
  have dir: "fn_file_type node = Directory" if "\<not> fn_file_type node \<noteq> Directory" for node using that by simp
  have nodes: "drv_get_node a = drv_get_node b" "drv_delete a = drv_delete b" using assms by (simp_all add: agree_on_types_def)
  show "sirius_read_file a path offset buf d = sirius_read_file b path offset buf d"
    unfolding sirius_read_file_def r by (rule bind_agree) (simp add: t(1))
  show "sirius_write_file a path offset buf d = sirius_write_file b path offset buf d"
    unfolding sirius_write_file_def r by (rule bind_agree) (simp add: t(2))
  show "list_directory a path d = list_directory b path d"
    unfolding list_directory_def r by (rule bind_agree) (simp add: t(3))
  show "create_file a path d = create_file b path d"
    unfolding create_file_def r nodes
    by (rule bind_agree, clarify, rule bind_agree) (simp add: t(4) bind_def)
  show "create_directory a path d = create_directory b path d"
    unfolding create_directory_def r nodes
    by (rule bind_agree, clarify, rule bind_agree) (simp add: t(5) bind_def)
  show "sirius_delete a path d = sirius_delete b path d" unfolding sirius_delete_def r nodes ..
  show "open_file a path d = open_file b path d" unfolding open_file_def r ..
  show "case fst (open_file b path d) of Ok node \<Rightarrow> fn_file_type node = File | _ \<Rightarrow> True"
    by (cases "resolve_path b path d"; cases "fst (resolve_path b path d)") (auto simp: open_file_def bind_def ret_def fail_def)
qed

text \<open>A volume that holds nothing but its root, and answers a read of it with the given bytes.\<close>

definition bare_root :: "u8 list \<Rightarrow> unit fs_driver" where
  "bare_root bytes = \<lparr>drv_read_file = (\<lambda>h offset buf. ret (length bytes, bytes)), drv_write_file = (\<lambda>h offset data. ret (length bytes)),
     drv_find_node = (\<lambda>path. if path_parts path = [] then ret 1 else fail NotFound),
     drv_get_node = (\<lambda>h. ret \<lparr>fn_node_id = h, fn_name = [], fn_file_type = Directory, fn_size = 0, fn_created_time = 0,
        fn_modified_time = 0, fn_attributes = DIR_DEFAULT\<rparr>),
     drv_list_directory = (\<lambda>h. ret []), drv_create_file = (\<lambda>h name. fail DirectoryFull),
     drv_create_directory = (\<lambda>h name. fail DirectoryFull), drv_delete = (\<lambda>h. fail DirectoryNotEmpty), drv_root_node = 1\<rparr>"

theorem sirius_requests_typed_witness:
  "sirius_read_file (bare_root [1, 2]) [0x2F] 0 [0] () = (Err IsDirectory, ())
   \<and> sirius_read_file (bare_root [3]) [0x2F] 0 [0] () = (Err IsDirectory, ())"
proof -
  have "agree_on_types (bare_root [1, 2]) (bare_root [3])"
    by (auto simp: agree_on_types_def bare_root_def ret_def)
  moreover have "sirius_read_file (bare_root [3]) [0x2F] 0 [0] () = (Err IsDirectory, ())"
    by (simp add: sirius_read_file_def resolve_path_def bare_root_def path_parts_slash path_parts_single bind_def ret_def fail_def)
  ultimately show ?thesis using sirius_requests_typed [of "bare_root [1, 2]" "bare_root [3]" "[0x2F]" 0 "[0]" "()"] by simp
qed

section \<open>Reading through the cache\<close>

text \<open>Reading needs no write of the driver when the file fits behind the cached ones.\<close>

lemma read_miss_no_write:
  assumes "cache_inv disk c" "cd_file_size ops h (fc_driver c) = (Ok n, fc_driver c)" "fc_push_offset c + n \<le> fc_max_memory c"
  shows "read_miss (ops\<lparr>cd_write_file := w\<rparr>) h offset out c = read_miss ops h offset out c"
proof -
  have "on_driver (cd_file_size ops h) c = (Ok n, c)" using assms(2) by (simp add: on_driver_def)
  moreover have "read_load (ops\<lparr>cd_write_file := w\<rparr>) = read_load ops" "bypass_read (ops\<lparr>cd_write_file := w\<rparr>) = bypass_read ops"
    by (intro ext; simp add: read_load_def bypass_read_def fill_from_driver_def)+
  ultimately show ?thesis
    using ensure_space_fits [OF assms(1,3)] by (simp add: read_miss_def bind_def)
qed

text \<open>
  The FAT32 volume as the driver the cache sees: in the state \<open>d\<close> of the disk the files are those
  of \<open>contents\<close>. Every write is refused, which a read does not notice.
\<close>

definition frozen :: "'d \<Rightarrow> (file_node_handle \<rightharpoonup> u8 list) \<Rightarrow> 'd \<Rightarrow> file_node_handle \<rightharpoonup> u8 list" where
  "frozen d contents d' = (if d' = d then contents else Map.empty)"

definition refuse_writes :: "'d cache_driver \<Rightarrow> 'd cache_driver" where
  "refuse_writes ops = ops\<lparr>cd_write_file := \<lambda>_ _ _. fail IoError\<rparr>"

definition serves :: "'d cache_driver \<Rightarrow> 'd \<Rightarrow> (file_node_handle \<rightharpoonup> u8 list) \<Rightarrow> bool" where
  "serves ops d contents \<longleftrightarrow> (\<forall>h bs. contents h = Some bs \<longrightarrow> length bs < 2 ^ 63 \<and> cd_file_size ops h d = (Ok (length bs), d)
     \<and> (\<forall>buf. length bs \<le> length buf \<longrightarrow> cd_read_file_into ops h buf d = (Ok (length bs, blit 0 bs buf), d))
     \<and> (\<exists>node. cd_get_node ops h d = (Ok node, d)))"

lemma serves_driver_ok:
  assumes "serves ops d contents"
  shows "driver_ok (refuse_writes ops) (frozen d contents)"
proof -
  have "\<exists>r d' bs'. cd_write_file (refuse_writes ops) h 0 data d = (r, d') \<and> frozen d contents d' = (frozen d contents d)(h \<mapsto> bs')
      \<and> (r = Ok (length data) \<and> bs' = data @ drop (length data) bs \<or> (\<exists>e. r = Err e) \<and> length bs' \<le> max (length bs) (length data))"
    if "contents h = Some bs" for h bs data
    using that by (intro exI [of _ "Err IoError"] exI [of _ d] exI [of _ bs]) (auto simp: refuse_writes_def fail_def frozen_def)
  then show ?thesis using assms
    unfolding driver_ok_def serves_def by (auto simp: frozen_def refuse_writes_def split: if_splits) blast+
qed

lemma cached_read_served:
  assumes srv: "serves ops d contents" and c: "cache_ready (frozen d contents) c" "fc_driver c = d"
    and h: "h \<noteq> INVALID_NODE_HANDLE" "fs_view (frozen d contents) c h = Some bs"
    and room: "is_cached c h \<or> fc_push_offset c + length bs \<le> fc_max_memory c"
  shows "\<exists>c'. read_file_range ops h offset out c = (Ok (read_result bs offset out), c')
    \<and> cache_inv (frozen d contents) c' \<and> fs_view (frozen d contents) c' = fs_view (frozen d contents) c"
proof -
  have inv: "cache_inv (frozen d contents) c" using c(1) by (simp add: cache_ready_def)
  note fx = cache_invD(1) [OF inv]
  have "room_or_small (length bs) c \<or> is_cached c h" using room by (auto simp: room_or_small_def)
  then have r: "read_ok (frozen d contents) h bs offset out c (read_file_range (refuse_writes ops) h offset out c)"
    using read_file_range_spec [OF serves_driver_ok [OF srv] c(1) h] by blast
  have "read_file_range (refuse_writes ops) h offset out c = read_file_range ops h offset out c"
  proof (cases "fx_map (fc_files c) h")
    case (Some f)
    then show ?thesis by (simp add: read_file_range_def next_tick_run reading_def fx_get_map [OF fx])
  next
    case None
    then have "contents h = Some bs" using h(2) c(2) by (simp add: fs_view_def frozen_def)
    then have size: "cd_file_size ops h d = (Ok (length bs), d)" using srv by (auto simp: serves_def)
    have "cache_inv (frozen d contents) (c\<lparr>fc_access_tick := fc_access_tick c + 1\<rparr>)" using inv by (simp add: tick_keeps)
    from read_miss_no_write [OF this, of ops h "length bs"] size c(2) room None is_cached_iff [OF fx, of h] show ?thesis
      by (simp add: read_file_range_def next_tick_run reading_def fx_get_map [OF fx] refuse_writes_def)
  qed
  with r room show ?thesis by (cases "read_file_range ops h offset out c") (auto simp: read_ok_def)
qed

section \<open>Reading a file of a FAT32 volume\<close>

definition fat_file :: "fat32_driver \<Rightarrow> u8 list \<Rightarrow> file_node_handle \<Rightarrow> u8 list \<Rightarrow> bool" where
  \<comment> \<open>the handle leads to the entry of a file, with readable times, and the file has these bytes\<close>
  "fat_file drv img h bs \<longleftrightarrow> (\<exists>cluster parent attrs e cs node. decode_node_id h = (cluster, parent, attrs) \<and> \<not> fat_is_directory attrs
     \<and> cluster \<noteq> ROOT_CLUSTER \<and> file_in drv img parent cluster e cs \<and> get_file_type e = File \<and> direntry_node h e = Ok node
     \<and> bs = take (unat (de_file_size e)) (chain_bytes drv img (cluster # cs)))"

lemma direntry_node_fields:
  "direntry_node h e = Ok node \<Longrightarrow> fn_node_id node = h \<and> fn_file_type node = get_file_type e \<and> fn_size node = unat (de_file_size e)"
  by (auto simp: direntry_node_def and_then_Ok_iff)

context disk_device
begin

lemma fat_file_calls:
  assumes "fat_geometry drv" "mounted drv d" "fat_file drv (image d) h bs"
  shows "\<exists>node. fat_get_node ops drv h d = (Ok node, d) \<and> fn_node_id node = h \<and> fn_file_type node = File \<and> fn_size node = length bs"
    and "length bs \<le> length buf \<Longrightarrow> fat_read_file ops drv h 0 buf d = (Ok (length bs, blit 0 bs buf), d)"
    and "length bs < 2 ^ 32"
proof -
  from assms(3) obtain cluster parent attrs e cs node where f: "decode_node_id h = (cluster, parent, attrs)" "\<not> fat_is_directory attrs"
    "cluster \<noteq> ROOT_CLUSTER" "file_in drv (image d) parent cluster e cs" "get_file_type e = File" "direntry_node h e = Ok node"
    "bs = take (unat (de_file_size e)) (chain_bytes drv (image d) (cluster # cs))" by (auto simp: fat_file_def)
  have len: "length bs = unat (de_file_size e)" using f(4) unfolding f(7) file_in_def by (simp only: length_take min_absorb2)
  show "\<exists>node. fat_get_node ops drv h d = (Ok node, d) \<and> fn_node_id node = h \<and> fn_file_type node = File \<and> fn_size node = length bs"
    using f(1,3,5,6) find_entry_of_file [OF assms(1,2) f(4)] direntry_node_fields [OF f(6)] len
    by (auto simp: fat_get_node_def bind_def lift_outcome_def)
  show "fat_read_file ops drv h 0 buf d = (Ok (length bs, blit 0 bs buf), d)" if "length bs \<le> length buf"
    using fat_read_file_content [OF assms(1,2) f(4,1,2), of 0 buf] that f(7) unfolding len by (simp add: chunk_def)
  show "length bs < 2 ^ 32" unfolding len using unsigned_less [of "de_file_size e"] by simp
qed

lemma fat_serves:
  assumes "fat_geometry drv" "mounted drv d" "\<And>h bs. contents h = Some bs \<Longrightarrow> fat_file drv (image d) h bs"
  shows "serves (adapter (fat32_fs ops drv)) d contents"
  unfolding serves_def
proof (intro allI impI conjI)
  fix h bs assume h: "contents h = Some bs"
  note f = fat_file_calls [OF assms(1,2) assms(3) [OF h]]
  show "length bs < 2 ^ 63" using f(3) by simp
  from f(1) obtain node where node: "fat_get_node ops drv h d = (Ok node, d)" "fn_size node = length bs" by blast
  then show "cd_file_size (adapter (fat32_fs ops drv)) h d = (Ok (length bs), d)"
    "\<exists>node. cd_get_node (adapter (fat32_fs ops drv)) h d = (Ok node, d)"
    by (simp_all add: adapter_def fat32_fs_def replace_err_def bind_def ret_def)
  show "cd_read_file_into (adapter (fat32_fs ops drv)) h buf d = (Ok (length bs, blit 0 bs buf), d)" if "length bs \<le> length buf" for buf
    using f(2) [OF that] by (simp add: adapter_def fat32_fs_def replace_err_def)
qed

text \<open>The node of a file: the remembered one or the one of its entry, which is then remembered.\<close>

lemma cached_node_of_file:
  assumes "fat_geometry drv" "mounted drv d" "fat_file drv (image d) h bs" "fc_driver c = d" "roomy (Suc k) (fc_file_nodes c)"
    and "\<And>node. fx_map (fc_file_nodes c) h = Some node \<Longrightarrow> fn_node_id node = h \<and> fn_file_type node = File"
  shows "\<exists>node nodes. get_node_cached (adapter (fat32_fs ops drv)) h c = (Ok node, c\<lparr>fc_file_nodes := nodes\<rparr>) \<and> roomy k nodes
    \<and> fn_node_id node = h \<and> fn_file_type node = File"
proof (cases "fx_map (fc_file_nodes c) h")
  case (Some node)
  have "fx_inv (fc_file_nodes c)" using assms(5) by (simp add: roomy_def)
  then have "get_node_cached (adapter (fat32_fs ops drv)) h c = (Ok node, c\<lparr>fc_file_nodes := fc_file_nodes c\<rparr>)"
    using Some by (simp add: get_node_cached_def reading_def ret_def fx_get_map)
  then show ?thesis using assms(6) [OF Some] roomy_weaken [OF assms(5), of k] by (metis le_SucI le_refl)
next
  case None
  have "fx_inv (fc_file_nodes c)" using assms(5) by (simp add: roomy_def)
  note get = fx_get_map [OF this, of h]
  from fat_file_calls(1) [OF assms(1-3)] obtain node where n: "fat_get_node ops drv h d = (Ok node, d)"
    "fn_node_id node = h" "fn_file_type node = File" by blast
  from roomy_insert [OF assms(5), of h node] obtain nodes where
    ins: "fx_insert (fc_file_nodes c) h node = Ok (fx_map (fc_file_nodes c) h, nodes)" "roomy k nodes" by blast
  have "on_driver (cd_get_node (adapter (fat32_fs ops drv)) h) c = (Ok node, c)"
    using n(1) assms(4) by (simp add: on_driver_def adapter_def fat32_fs_def replace_err_def)
  then have "get_node_cached (adapter (fat32_fs ops drv)) h c = (Ok node, c\<lparr>fc_file_nodes := nodes\<rparr>)"
    using None get ins(1) by (simp add: get_node_cached_def reading_def bind_def insert_node_def stored_def modify_def ret_def)
  with ins(2) n show ?thesis by blast
qed

end

text \<open>C8: when the path names a file that is cached or fits behind the cached ones, and the tables of the
  cache have free slots, so that nothing has to be evicted, reading the path through \<open>Sirius\<close>, the cached
  driver and the FAT32 driver returns the bytes of the file as the cache presents it, which is what
  the volume holds unless the file was written to: from the offset to the end of the file or of the
  buffer. In this case it neither writes to the disk nor changes what any other read returns.\<close>

theorem sirius_read_fat32:
  assumes dev: "disk_device ops invar img" and vol: "fat_geometry drv" "invar d" "vol_ok drv (img d)"
    and files: "\<And>k bs. contents k = Some bs \<Longrightarrow> fat_file drv (img d) k bs"
    and cache: "cache_inv (frozen d contents) c" "fc_driver c = d" "spare_slot (fc_files c)" "roomy 2 (fc_file_nodes c)"
    and node: "\<And>node. fx_map (fc_file_nodes c) h = Some node \<Longrightarrow> fn_node_id node = h \<and> fn_file_type node = File"
    and path: "fat_find_node ops drv path d = (Ok h, d)" "h \<noteq> INVALID_NODE_HANDLE" "contents h \<noteq> None"
    and view: "fs_view (frozen d contents) c h = Some bs"
    and room: "is_cached c h \<or> fc_push_offset c + length bs \<le> fc_max_memory c"
  shows "\<exists>c'. sirius_read_file (cached_fs now (fat32_fs ops drv)) path offset buf c
      = (Ok (let n = min (length buf) (length bs - offset) in (n, chunk offset n bs @ drop n buf)), c')
    \<and> cache_inv (frozen d contents) c' \<and> fs_view (frozen d contents) c' = fs_view (frozen d contents) c"
proof -
  from path(3) obtain bs0 where "contents h = Some bs0" by blast
  from files [OF this] have onvol: "fat_file drv (img d) h bs0" .
  have "roomy (Suc 1) (fc_file_nodes c)" using cache(4) by (simp add: numeral_2_eq_2)
  from disk_device.cached_node_of_file [OF dev vol(1) _ onvol cache(2) this] vol node obtain node nodes where g:
    "get_node_cached (adapter (fat32_fs ops drv)) h c = (Ok node, c\<lparr>fc_file_nodes := nodes\<rparr>)" "roomy 1 nodes"
    "fn_node_id node = h" "fn_file_type node = File" by blast
  let ?c = "c\<lparr>fc_file_nodes := nodes\<rparr>"
  have "fx_inv nodes" using g(2) by (simp add: roomy_def)
  then have rdy: "cache_ready (frozen d contents) ?c" using nodes_keep(1) [OF _ cache(1)] cache(3) roomy_spare [OF g(2)]
    by (simp add: cache_ready_def)
  have same: "fs_view (frozen d contents) ?c = fs_view (frozen d contents) c" "is_cached ?c h = is_cached c h"
    by (simp_all add: nodes_keep(2) is_cached_def)
  have "serves (adapter (fat32_fs ops drv)) d contents" using disk_device.fat_serves [OF dev vol(1) _ files] vol by blast
  from cached_read_served [OF this rdy _ path(2), of bs offset buf] cache(2) view room same obtain c' where r:
    "read_file_range (adapter (fat32_fs ops drv)) h offset buf ?c = (Ok (read_result bs offset buf), c')"
    "cache_inv (frozen d contents) c'" "fs_view (frozen d contents) c' = fs_view (frozen d contents) c" by auto
  have "on_driver (fat_find_node ops drv path) c = (Ok h, c)" using path(1) cache(2) by (simp add: on_driver_def)
  with g r(1) have "sirius_read_file (cached_fs now (fat32_fs ops drv)) path offset buf c = (Ok (read_result bs offset buf), c')"
    by (simp add: sirius_read_file_def resolve_path_def cached_fs_def fat32_fs_def bind_def)
  moreover have "read_result bs offset buf = (let n = min (length buf) (length bs - offset) in (n, chunk offset n bs @ drop n buf))"
    by (simp add: read_result_def Let_def blit_def)
  ultimately show ?thesis using r(2,3) by simp
qed

lemma sample_file:
  "file_in sample_driver sample_image 2 3 sample_entry [4]"
  "decode_node_id (encode_node_id sample_entry 2) = (3, 2, 0x20)"
  "\<exists>node. direntry_node (encode_node_id sample_entry 2) sample_entry = Ok node"
  "fat_find_node mock_ops sample_driver [0x61] sample_disk = (Ok (encode_node_id sample_entry 2), sample_disk)"
proof -
  have es: "parse_entries (chain_bytes sample_driver sample_image [2]) 0 (length [2] * cluster_size sample_driver div DIRECTORY_ENTRY_SIZE)
      = (Ok [sample_entry] :: (file_system_error, directory_entry list) outcome)"
    using sample_directory by (simp add: DIRECTORY_ENTRY_SIZE_def)
  show "file_in sample_driver sample_image 2 3 sample_entry [4]"
    unfolding file_in_def
    by (intro conjI exI [of _ "[] :: nat list"] exI [of _ "[sample_entry]"] es)
      (use sample_chains in \<open>simp_all add: sample_entry_fields sample_clusters\<close>)
  show "decode_node_id (encode_node_id sample_entry 2) = (3, 2, 0x20)"
    by (simp add: node_id_decode sample_entry_fields) (simp add: sample_entry_def set_first_cluster_def)
  have "DAYS_UNTIL_YEAR_SINCE_1970 ! 0 = 0"
    by (simp add: DAYS_UNTIL_YEAR_SINCE_1970_def numeral_eq_Suc)
  then show "\<exists>node. direntry_node (encode_node_id sample_entry 2) sample_entry = Ok node"
    by (simp add: direntry_node_def get_creation_timestamp_def get_modified_timestamp_def sample_entry_def set_first_cluster_def
        direntry_create_empty_def fat_time_to_unix_timestamp_def month_days_def)
  let ?name = "[0x41, 0x20, 0x20, 0x20, 0x20, 0x20, 0x20, 0x20, 0x20, 0x20, 0x20] :: u8 list"
  have "replicate 11 (0x20 :: u8) = [0x20, 0x20, 0x20, 0x20, 0x20, 0x20, 0x20, 0x20, 0x20, 0x20, 0x20]"
    by (simp add: numeral_eq_Suc)
  then have name: "to_fat32_name [0x61] = Ok ?name"
    by (simp add: to_fat32_name_def is_valid_filename_def str_rfind_def str_find_def MAX_NAME_LENGTH_def split_extension_def
        to_ascii_uppercase_def blit_def)
  have hit: "\<not> de_is_deleted sample_entry" "full_name_matches sample_entry ?name" "\<not> de_is_directory sample_entry"
    by (simp_all add: de_is_deleted_def FIRST_BYTE_IS_DELETED_FLAG_def full_name_matches_def de_is_directory_def sample_entry_def set_first_cluster_def chunk_def)
  have dir: "read_directory_entries mock_ops sample_driver 2 sample_disk = (Ok [sample_entry], sample_disk)"
    using mock.read_directory_of_chain [OF sample_geometry, of sample_disk 2 "[]"] sample_mounted sample_chains(1) es by simp
  show "fat_find_node mock_ops sample_driver [0x61] sample_disk = (Ok (encode_node_id sample_entry 2), sample_disk)"
    using name hit dir by (simp add: fat_find_node_def find_direntry_def path_parts_single Let_def sample_driver_def sample_boot_def
        bind_def lift_outcome_def ret_def)
qed

lemma fresh_cache_nodes:
  "file_cache_new d n = Ok c \<Longrightarrow> fc_driver c = d \<and> fc_file_nodes c = \<lparr>fx_slots = replicate (2 ^ 10) Empty, fx_count = 0\<rparr>"
  by (auto simp: file_cache_new_def with_capacity_1024 fx_new_eq split: if_splits)

theorem sirius_read_fat32_witness:
  "\<exists>c c'. file_cache_new sample_disk 4096 = Ok c
     \<and> sirius_read_file (cached_fs 7 (fat32_fs mock_ops sample_driver)) [0x61] 510 (replicate 4 0) c
         = (Ok (4, replicate 2 0x61 @ replicate 2 0x62), c')"
proof -
  let ?h = "encode_node_id sample_entry 2" and ?bs = "replicate 512 0x61 @ replicate 88 0x62 :: u8 list"
  let ?contents = "[?h \<mapsto> ?bs]"
  obtain c where c: "file_cache_new sample_disk 4096 = Ok c" "cache_ready (frozen sample_disk ?contents) c"
    "fs_view (frozen sample_disk ?contents) c = frozen sample_disk ?contents sample_disk" "fc_push_offset c = 0" "fc_max_memory c = 4096"
    using cache_new_ready [of 4096 sample_disk "frozen sample_disk ?contents"] by auto
  note n = fresh_cache_nodes [OF c(1)]
  have nodes: "fx_map (fc_file_nodes c) ?h = None" "roomy 2 (fc_file_nodes c)"
    using n fresh_map(2) [where 'a = file_node] roomy_fresh [of 2, where 'a = file_node] by auto
  have "get_file_type sample_entry = File"
    by (simp add: get_file_type_def de_is_directory_def sample_entry_def set_first_cluster_def)
  moreover have "?bs = take 600 (chain_bytes sample_driver sample_image [3, 4])" by (simp add: sample_clusters)
  ultimately have vol: "fat_file sample_driver (mock_data sample_disk) ?h ?bs"
    unfolding fat_file_def using sample_file(1-3) sample_entry_fields(2)
    by (auto simp: fat_is_directory_def ROOT_CLUSTER_def intro!: exI [of _ "3 :: nat"] exI [of _ "2 :: nat"]
        exI [of _ sample_entry] exI [of _ "[4] :: nat list"])
  have all: "fat_file sample_driver (mock_data sample_disk) k bs" if "?contents k = Some bs" for k bs
    using that vol by (simp split: if_splits)
  have h0: "?h \<noteq> INVALID_NODE_HANDLE"
    using sample_file(2) by (auto simp: INVALID_NODE_HANDLE_def decode_node_id_def)
  have "chunk 510 4 ?bs = replicate 2 0x61 @ replicate 2 0x62" by (simp add: chunk_def)
  with sirius_read_fat32 [of mock_ops mock_inv mock_data sample_driver sample_disk ?contents, OF mock.disk_device_axioms sample_geometry sample_mounted all _ _ _ nodes(2) _ sample_file(4) h0,
      of ?bs 7 510 "replicate 4 0"] c n nodes(1) show ?thesis
    by (auto simp: cache_ready_def frozen_def Let_def)
qed

end
