(* ===== verification/Ref_Arrays.thy ===== *)
theory Ref_Arrays
  imports Scheduler "HOL-Library.Multiset"
begin

text \<open>
  The fixed arrays of task references that the run queues (sleeping tasks) and the wait queues keep:
  the first \<open>count\<close> entries are in use, an entry is removed by moving the last one into its place.
  In multiset terms the operations add, remove and filter entries, and none of them runs out of
  its array.
\<close>

definition used :: "'a list \<times> nat \<Rightarrow> 'a list" where
  "used = (\<lambda>(xs, n). take n xs)"

definition arr_wf :: "('a \<Rightarrow> task_ref) \<Rightarrow> 'a list \<times> nat \<Rightarrow> bool" where
  "arr_wf f arr \<longleftrightarrow> length (fst arr) = MAX_TASKS \<and> snd arr \<le> MAX_TASKS \<and> distinct (map f (used arr))"

lemma distinct_map_subset_mset:
  assumes "distinct (map f ys)" "mset xs \<subseteq># mset ys"
  shows "distinct (map f xs)"
proof -
  obtain zs where "mset ys = mset xs + mset zs"
    using assms(2) by (metis ex_mset mset_subset_eq_exists_conv)
  then have "mset (map f ys) = mset (map f (xs @ zs))" by simp
  with assms(1) have "distinct (map f (xs @ zs))" using mset_eq_imp_distinct_iff by blast
  then show ?thesis by simp
qed

lemma drop_swap_remove:
  assumes "i < n" "n \<le> length xs"
  shows "mset (drop i (take (n - 1) (xs[i := xs ! (n - 1)]))) = mset (drop (Suc i) (take n xs))"
    "take i (xs[i := xs ! (n - 1)]) = take i xs"
proof -
  obtain m where n: "n = Suc m" using assms by (cases n) auto
  show "take i (xs[i := xs ! (n - 1)]) = take i xs" by simp
  show "mset (drop i (take (n - 1) (xs[i := xs ! (n - 1)]))) = mset (drop (Suc i) (take n xs))"
  proof (cases "i = m")
    case True
    then show ?thesis using n by simp
  next
    case False
    with assms n have "i < m" "m < length xs" by auto
    then have "drop i (take m (xs[i := xs ! m])) = xs ! m # drop (Suc i) (take m xs)"
      by (simp add: drop_take Cons_nth_drop_Suc [symmetric] drop_update_cancel take_Cons' less_diff_conv)
    moreover have "drop (Suc i) (take n xs) = drop (Suc i) (take m xs) @ [xs ! m]"
      using \<open>i < m\<close> \<open>m < length xs\<close> n by (simp add: take_Suc_conv_app_nth)
    ultimately show ?thesis using n by simp
  qed
qed

lemma used_swap_remove:
  assumes "i < snd arr" "snd arr \<le> length (fst arr)"
  shows "add_mset (fst arr ! i) (mset (used (swap_remove_at i arr))) = mset (used arr)"
    and "length (fst (swap_remove_at i arr)) = length (fst arr)"
    and "snd (swap_remove_at i arr) = snd arr - 1"
proof -
  obtain xs n where arr: "arr = (xs, n)" by (cases arr)
  with assms have i: "i < n" "n \<le> length xs" by auto
  let ?ys = "xs[i := xs ! (n - 1)]"
  have "mset (take (n - 1) ?ys) = mset (take i ?ys) + mset (drop i (take (n - 1) ?ys))"
    using append_take_drop_id [of i "take (n - 1) ?ys", symmetric] i
    by (metis One_nat_def Suc_diff_1 less_imp_Suc_add less_Suc_eq_le min.absorb1 mset_append take_take zero_less_Suc)
  moreover have "mset (take n xs) = mset (take i xs) + add_mset (xs ! i) (mset (drop (Suc i) (take n xs)))"
  proof -
    have "take n xs = take i xs @ xs ! i # drop (Suc i) (take n xs)"
      using i id_take_nth_drop [of i "take n xs"] by (simp add: min_def)
    then show ?thesis by (metis mset.simps(2) mset_append)
  qed
  ultimately show "add_mset (fst arr ! i) (mset (used (swap_remove_at i arr))) = mset (used arr)"
    using drop_swap_remove [OF i] arr by (simp add: used_def swap_remove_at_def)
  show "length (fst (swap_remove_at i arr)) = length (fst arr)" "snd (swap_remove_at i arr) = snd arr - 1"
    using arr by (simp_all add: swap_remove_at_def)
qed

lemma arr_wf_swap_remove:
  assumes "arr_wf f arr" "i < snd arr"
  shows "arr_wf f (swap_remove_at i arr)"
    and "f ` set (used (swap_remove_at i arr)) = f ` set (used arr) - {f (fst arr ! i)}"
proof -
  have n: "snd arr \<le> length (fst arr)" using assms(1) by (simp add: arr_wf_def)
  note u = used_swap_remove [OF assms(2) n]
  have sub: "mset (used (swap_remove_at i arr)) \<subseteq># mset (used arr)" unfolding u(1) [symmetric] by simp
  with distinct_map_subset_mset [OF _ sub] assms u(2,3) show "arr_wf f (swap_remove_at i arr)"
    by (auto simp: arr_wf_def)
  have "mset (map f (used arr)) = add_mset (f (fst arr ! i)) (mset (map f (used (swap_remove_at i arr))))"
    using arg_cong [OF u(1), of "image_mset f"] by simp
  moreover have "distinct (map f (used arr))" using assms(1) by (simp add: arr_wf_def)
  ultimately have "f (fst arr ! i) \<notin> f ` set (used (swap_remove_at i arr))"
    and "f ` set (used arr) = insert (f (fst arr ! i)) (f ` set (used (swap_remove_at i arr)))"
    by (metis distinct.simps(2) list.set_map mset.simps(2) mset_eq_imp_distinct_iff,
        metis list.set_map list.simps(15) mset.simps(2) mset_eq_setD)
  then show "f ` set (used (swap_remove_at i arr)) = f ` set (used arr) - {f (fst arr ! i)}" by auto
qed

section \<open>Purging stale references\<close>

definition stale :: "task_table \<Rightarrow> task_ref \<Rightarrow> bool" where
  "stale t r \<longleftrightarrow> ts_pid (t (tr_slot r)) \<noteq> tr_pid r \<or> ts_state (t (tr_slot r)) \<noteq> Blocked"

lemma ref_is_stale_Ok: "tr_slot r < MAX_TASKS \<Longrightarrow> ref_is_stale r t = Ok (stale t r)"
  by (simp add: ref_is_stale_def stale_def)

lemma used_split:
  assumes "i < snd arr" "snd arr \<le> length (fst arr)"
  shows "drop i (used arr) = fst arr ! i # drop (Suc i) (used arr)"
    and "take (Suc i) (used arr) = take i (used arr) @ [fst arr ! i]"
  using assms by (cases arr; simp add: used_def Cons_nth_drop_Suc [symmetric];
      simp add: used_def take_Suc_conv_app_nth)+

lemma remove_stale_loop_spec:
  assumes "i + rounds = snd arr" "snd arr \<le> length (fst arr)"
    and "\<And>x. x \<in> set (used arr) \<Longrightarrow> tr_slot (f x) < MAX_TASKS"
  shows "\<exists>arr'. remove_stale_loop rounds f t i arr = Ok arr' \<and> length (fst arr') = length (fst arr)
    \<and> snd arr' \<le> snd arr
    \<and> mset (used arr') = mset (take i (used arr)) + filter_mset (\<lambda>x. \<not> stale t (f x)) (mset (drop i (used arr)))"
  using assms
proof (induction rounds arbitrary: i arr)
  case 0
  then show ?case by (cases arr) (simp add: used_def)
next
  case (Suc n)
  then have i: "i < snd arr" by simp
  note split = used_split [OF i Suc.prems(2)]
  have mem: "fst arr ! i \<in> set (used arr)"
    using split(1) by (metis in_set_dropD list.set_intros(1))
  note dec = ref_is_stale_Ok [OF Suc.prems(3) [OF mem], of t]
  show ?case
  proof (cases "stale t (f (fst arr ! i))")
    case True
    let ?arr = "swap_remove_at i arr"
    note u = used_swap_remove [OF i Suc.prems(2)]
    obtain xs m where arr: "arr = (xs, m)" by (cases arr)
    have d: "mset (drop i (used ?arr)) = mset (drop (Suc i) (used arr))" "take i (used ?arr) = take i (used arr)"
      using drop_swap_remove [of i m xs] i Suc.prems(2) arr by (auto simp: used_def swap_remove_at_def take_take min_def)
    have sub: "x \<in> set (used arr)" if "x \<in> set (used ?arr)" for x
      using u(1) that by (metis insertI2 set_mset_add_mset_insert set_mset_mset)
    have pre: "i + n = snd ?arr" "snd ?arr \<le> length (fst ?arr)" using Suc.prems(1,2) u(2,3) by simp_all
    obtain arr' where "remove_stale_loop n f t i ?arr = Ok arr'" "length (fst arr') = length (fst ?arr)"
      "snd arr' \<le> snd ?arr" "mset (used arr') = mset (take i (used ?arr))
        + filter_mset (\<lambda>x. \<not> stale t (f x)) (mset (drop i (used ?arr)))"
      using Suc.IH [OF pre Suc.prems(3) [OF sub]] by blast
    then show ?thesis using True dec u(2,3) d split(1) by auto
  next
    case False
    then obtain arr' where "remove_stale_loop n f t (Suc i) arr = Ok arr'" "length (fst arr') = length (fst arr)"
      "snd arr' \<le> snd arr" "mset (used arr') = mset (take (Suc i) (used arr))
        + filter_mset (\<lambda>x. \<not> stale t (f x)) (mset (drop (Suc i) (used arr)))"
      using Suc.IH [of "Suc i" arr] Suc.prems by auto
    then show ?thesis using False dec split by auto
  qed
qed

lemma remove_stale_spec:
  assumes "arr_wf f arr" "\<And>x. x \<in> set (used arr) \<Longrightarrow> tr_slot (f x) < MAX_TASKS"
  obtains arr' where "remove_stale_loop (snd arr) f t 0 arr = Ok arr'" "arr_wf f arr'"
    "set (used arr') = {x \<in> set (used arr). \<not> stale t (f x)}"
proof -
  obtain arr' where a: "remove_stale_loop (snd arr) f t 0 arr = Ok arr'" "length (fst arr') = length (fst arr)"
    "snd arr' \<le> snd arr" "mset (used arr') = filter_mset (\<lambda>x. \<not> stale t (f x)) (mset (used arr))"
    using remove_stale_loop_spec [of 0 "snd arr" arr f t] assms by (auto simp: arr_wf_def)
  have "mset (used arr') \<subseteq># mset (used arr)" by (simp add: a(4))
  with distinct_map_subset_mset [OF _ this] assms(1) a have "arr_wf f arr'" by (auto simp: arr_wf_def)
  moreover have "set (used arr') = {x \<in> set (used arr). \<not> stale t (f x)}"
    using arg_cong [OF a(4), of set_mset] by auto
  ultimately show ?thesis using that a(1) by blast
qed

text \<open>
  A full array whose references are all alive and blocked would need a task for each slot; the task
  that adds its own reference is running, so there is room after a purge.
\<close>

lemma purged_has_room:
  assumes "arr_wf f arr" "\<And>x. x \<in> set (used arr) \<Longrightarrow> tr_slot (f x) < MAX_TASKS \<and> \<not> stale t (f x)"
    and "i < MAX_TASKS" "ts_state (t i) \<noteq> Blocked"
  shows "snd arr < MAX_TASKS"
proof -
  let ?S = "f ` set (used arr)"
  have pid: "tr_pid r = ts_pid (t (tr_slot r))" if "r \<in> ?S" for r
    using assms(2) that by (auto simp: stale_def)
  have inj: "inj_on tr_slot ?S"
    by (rule inj_onI) (metis pid old.unit.exhaust task_ref.equality)
  have "tr_slot ` ?S \<subseteq> {..<MAX_TASKS} - {i}" using assms(2,4) by (auto simp: stale_def)
  then have "card (tr_slot ` ?S) \<le> card ({..<MAX_TASKS} - {i})" by (intro card_mono) auto
  then have "card ?S \<le> MAX_TASKS - 1" using assms(3) by (simp add: card_image [OF inj])
  moreover have "card ?S = length (used arr)" using assms(1) by (metis arr_wf_def distinct_card length_map list.set_map)
  moreover have "length (used arr) = snd arr" using assms(1) by (cases arr) (auto simp: used_def arr_wf_def)
  ultimately show ?thesis using assms(3) by simp
qed

lemma arr_wf_add:
  assumes "arr_wf f (xs, n)" "n < MAX_TASKS" "f x \<notin> f ` set (used (xs, n))"
  shows "arr_wf f (xs[n := x], n + 1)" "set (used (xs[n := x], n + 1)) = insert x (set (used (xs, n)))"
proof -
  have "take (Suc n) (xs[n := x]) = take n xs @ [x]"
    using assms by (simp add: arr_wf_def take_Suc_conv_app_nth)
  then show "arr_wf f (xs[n := x], n + 1)" "set (used (xs[n := x], n + 1)) = insert x (set (used (xs, n)))"
    using assms by (auto simp: arr_wf_def used_def)
qed

end
