(* ===== verification/Sched_Spec.thy ===== *)
theory Sched_Spec
  imports Tasks
begin

text \<open>
  What the scheduler promises, without its data structures: where each task is. A task waits in the
  queue of its home core, occupies a core, or is blocked; references to it stand in the lists of
  sleepers and waiters. \<open>abs_step\<close> has one rule per thing that can happen to a task, and \<open>abs_inv\<close>
  is kept by all of them. The concrete operations are related to these steps in \<open>Sched_Refine\<close>.
\<close>

section \<open>Abstract states\<close>

text \<open>
  What a core is doing: in the scheduler loop, inside a task, inside a task that has found its kill
  flag clear and is about to block, inside a task that has entered a wait queue, or between the
  switch out of a task and the end of \<open>run_task\<close>.
\<close>

datatype core_phase = InLoop | InTask nat | Checked nat | Waiting nat nat | Leaving nat

fun phase_task :: "core_phase \<Rightarrow> nat option" where
  "phase_task InLoop = None"
| "phase_task (InTask i) = Some i"
| "phase_task (Checked i) = Some i"
| "phase_task (Waiting i q) = Some i"
| "phase_task (Leaving i) = Some i"

datatype ref_list = Sleepers nat | Waiters nat

record aview =
  av_state :: "nat \<Rightarrow> task_state"
  av_pid :: "nat \<Rightarrow> nat"
  av_home :: "nat \<Rightarrow> nat"
  av_prio :: "nat \<Rightarrow> nat"
  av_on :: "nat \<Rightarrow> bool"
  av_kill :: "nat \<Rightarrow> bool"
  av_q :: "nat \<Rightarrow> nat set"
  av_run :: "nat \<Rightarrow> nat"
  av_ph :: "nat \<Rightarrow> core_phase"
  av_lists :: "ref_list \<Rightarrow> task_ref set"

definition av_ref :: "aview \<Rightarrow> nat \<Rightarrow> task_ref" where
  "av_ref a i = \<lparr>tr_slot = i, tr_pid = av_pid a i\<rparr>"

definition in_no_list :: "aview \<Rightarrow> nat \<Rightarrow> bool" where
  "in_no_list a i \<longleftrightarrow> (\<forall>l. av_ref a i \<notin> av_lists a l)"

section \<open>What can happen\<close>

inductive abs_step :: "aview \<Rightarrow> aview \<Rightarrow> bool" where
  pick: "c < MAX_CORES \<Longrightarrow> av_ph a c = InLoop \<Longrightarrow> i \<in> av_q a c \<Longrightarrow>
    abs_step a (a\<lparr>av_state := (av_state a)(i := Running), av_on := (av_on a)(i := True),
      av_ph := (av_ph a)(c := InTask i), av_q := (av_q a)(c := av_q a c - {i})\<rparr>)"
| come_back: "c < MAX_CORES \<Longrightarrow> av_ph a c = Leaving i \<Longrightarrow> av_state a i \<noteq> Dead \<Longrightarrow>
    abs_step a (a\<lparr>av_on := (av_on a)(i := False), av_ph := (av_ph a)(c := InLoop)\<rparr>)"
| reap: "c < MAX_CORES \<Longrightarrow> av_ph a c = Leaving i \<Longrightarrow> av_state a i = Dead \<Longrightarrow>
    abs_step a (a\<lparr>av_on := (av_on a)(i := False), av_ph := (av_ph a)(c := InLoop),
      av_state := (av_state a)(i := Free), av_pid := (av_pid a)(i := INVALID_PID)\<rparr>)"
| check: "c < MAX_CORES \<Longrightarrow> av_ph a c = InTask i \<Longrightarrow> av_state a i = Running \<Longrightarrow> \<not> av_kill a i \<Longrightarrow>
    abs_step a (a\<lparr>av_ph := (av_ph a)(c := Checked i)\<rparr>)"
| requeue: "c < MAX_CORES \<Longrightarrow> av_ph a c \<in> {InTask i, Checked i} \<Longrightarrow> av_state a i = Running \<Longrightarrow>
    abs_step a (a\<lparr>av_state := (av_state a)(i := Ready), av_ph := (av_ph a)(c := Leaving i),
      av_q := (av_q a)(c := insert i (av_q a c))\<rparr>)"
| switch_out: "c < MAX_CORES \<Longrightarrow> phase_task (av_ph a c) = Some i \<Longrightarrow> av_state a i \<noteq> Running \<Longrightarrow>
    abs_step a (a\<lparr>av_ph := (av_ph a)(c := Leaving i)\<rparr>)"
| forget: "(\<And>l. L l \<subseteq> av_lists a l) \<Longrightarrow> abs_step a (a\<lparr>av_lists := L\<rparr>)"
| await: "c < MAX_CORES \<Longrightarrow> av_ph a c = Checked i \<Longrightarrow>
    abs_step a (a\<lparr>av_state := (av_state a)(i := Blocked), av_ph := (av_ph a)(c := Waiting i q),
      av_run := (av_run a)(c := av_run a c - 1),
      av_lists := (av_lists a)(Waiters q := insert (av_ref a i) (av_lists a (Waiters q)))\<rparr>)"
| sleep: "c < MAX_CORES \<Longrightarrow> av_ph a c = Checked i \<Longrightarrow>
    abs_step a (a\<lparr>av_state := (av_state a)(i := Blocked), av_ph := (av_ph a)(c := InTask i),
      av_run := (av_run a)(c := av_run a c - 1),
      av_lists := (av_lists a)(Sleepers c := insert (av_ref a i) (av_lists a (Sleepers c)))\<rparr>)"
| wake: "i < MAX_TASKS \<Longrightarrow> av_state a i = Blocked \<Longrightarrow> av_kill a i \<or> in_no_list a i \<Longrightarrow> c = av_home a i \<Longrightarrow>
    abs_step a (a\<lparr>av_state := (av_state a)(i := Ready), av_q := (av_q a)(c := insert i (av_q a c)),
      av_run := (av_run a)(c := av_run a c + 1)\<rparr>)"
| kill: "abs_step a (a\<lparr>av_kill := (av_kill a)(i := True)\<rparr>)"
| die: "c < MAX_CORES \<Longrightarrow> av_ph a c \<in> {InTask i, Checked i} \<Longrightarrow> av_state a i = Running \<Longrightarrow>
    abs_step a (a\<lparr>av_state := (av_state a)(i := Dead), av_ph := (av_ph a)(c := Leaving i),
      av_run := (av_run a)(c := av_run a c - 1)\<rparr>)"
| steal: "c < MAX_CORES \<Longrightarrow> d < MAX_CORES \<Longrightarrow> c \<noteq> d \<Longrightarrow> i \<in> av_q a c \<Longrightarrow> \<not> av_on a i \<Longrightarrow>
    abs_step a (a\<lparr>av_home := (av_home a)(i := d),
      av_q := (av_q a)(c := av_q a c - {i}, d := insert i (av_q a d)),
      av_run := (av_run a)(c := av_run a c - 1, d := av_run a d + 1)\<rparr>)"
| start: "i < MAX_TASKS \<Longrightarrow> av_state a i = Free \<Longrightarrow> c < MAX_CORES \<Longrightarrow> p \<le> 7 \<Longrightarrow> pid \<noteq> INVALID_PID \<Longrightarrow>
    (\<And>j. j < MAX_TASKS \<Longrightarrow> av_pid a j \<noteq> pid) \<Longrightarrow> (\<And>l r. r \<in> av_lists a l \<Longrightarrow> tr_pid r \<noteq> pid) \<Longrightarrow>
    abs_step a (a\<lparr>av_state := (av_state a)(i := Ready), av_pid := (av_pid a)(i := pid),
      av_home := (av_home a)(i := c), av_prio := (av_prio a)(i := p), av_on := (av_on a)(i := False),
      av_kill := (av_kill a)(i := False), av_q := (av_q a)(c := insert i (av_q a c)),
      av_run := (av_run a)(c := av_run a c + 1)\<rparr>)"

inductive_cases abs_stepE: "abs_step a b"

section \<open>The invariant\<close>

text \<open>Where tasks are: queues, cores and states agree.\<close>

definition place_inv :: "aview \<Rightarrow> bool" where
  "place_inv a \<longleftrightarrow>
     (\<forall>c < MAX_CORES. \<forall>i \<in> av_q a c. i < MAX_TASKS \<and> av_state a i = Ready \<and> av_home a i = c) \<and>
     (\<forall>i < MAX_TASKS. av_state a i = Ready \<longrightarrow> i \<in> av_q a (av_home a i)) \<and>
     (\<forall>c < MAX_CORES. \<forall>i. phase_task (av_ph a c) = Some i \<longrightarrow>
        i < MAX_TASKS \<and> av_on a i \<and> av_home a i = c \<and> av_state a i \<noteq> Free) \<and>
     (\<forall>i < MAX_TASKS. av_on a i \<longrightarrow> phase_task (av_ph a (av_home a i)) = Some i) \<and>
     (\<forall>i < MAX_TASKS. av_state a i = Running \<longrightarrow> av_on a i \<and> av_ph a (av_home a i) \<in> {InTask i, Checked i}) \<and>
     (\<forall>i < MAX_TASKS. av_state a i = Dead \<longrightarrow> av_on a i \<and> av_ph a (av_home a i) = Leaving i) \<and>
     (\<forall>c < MAX_CORES. \<forall>i. av_ph a c = Checked i \<longrightarrow> av_state a i = Running)"

definition slot_inv :: "aview \<Rightarrow> bool" where
  "slot_inv a \<longleftrightarrow>
     (\<forall>i < MAX_TASKS. av_state a i \<noteq> Creating) \<and>
     (\<forall>i < MAX_TASKS. av_state a i \<noteq> Free \<longrightarrow> av_prio a i \<le> 7 \<and> av_home a i < MAX_CORES) \<and>
     (\<forall>i < MAX_TASKS. av_pid a i = INVALID_PID \<longleftrightarrow> av_state a i = Free) \<and>
     (\<forall>i < MAX_TASKS. \<forall>j < MAX_TASKS. av_pid a i = av_pid a j \<longrightarrow> av_state a i \<noteq> Free \<longrightarrow> i = j)"

definition running_count :: "aview \<Rightarrow> nat \<Rightarrow> nat" where
  "running_count a c =
     (case phase_task (av_ph a c) of None \<Rightarrow> 0 | Some i \<Rightarrow> if av_state a i = Running then 1 else 0)"

definition run_inv :: "aview \<Rightarrow> bool" where
  "run_inv a \<longleftrightarrow> (\<forall>c < MAX_CORES. av_run a c = card (av_q a c) + running_count a c)"

definition ref_inv :: "aview \<Rightarrow> bool" where
  "ref_inv a \<longleftrightarrow>
     (\<forall>l. \<forall>r \<in> av_lists a l. tr_slot r < MAX_TASKS \<and> tr_pid r \<noteq> INVALID_PID) \<and>
     (\<forall>i < MAX_TASKS. av_state a i \<noteq> Blocked \<longrightarrow> \<not> av_kill a i \<longrightarrow> in_no_list a i) \<and>
     (\<forall>i < MAX_TASKS. \<forall>c. av_state a i = Blocked \<longrightarrow> av_ref a i \<in> av_lists a (Sleepers c) \<longrightarrow> av_home a i = c) \<and>
     (\<forall>c < MAX_CORES. \<forall>i. av_ph a c = Checked i \<longrightarrow> in_no_list a i) \<and>
     (\<forall>c < MAX_CORES. \<forall>i q l. av_ph a c = Waiting i q \<longrightarrow> l \<noteq> Waiters q \<longrightarrow> av_ref a i \<notin> av_lists a l) \<and>
     (\<forall>i < MAX_TASKS. \<forall>l l'. \<not> av_kill a i \<longrightarrow> av_ref a i \<in> av_lists a l \<longrightarrow> av_ref a i \<in> av_lists a l' \<longrightarrow> l = l')"

definition abs_inv :: "aview \<Rightarrow> bool" where
  "abs_inv a \<longleftrightarrow> place_inv a \<and> slot_inv a \<and> run_inv a \<and> ref_inv a"


section \<open>Every step keeps it\<close>

lemma av_ref_simps [simp]:
  "av_ref a i = av_ref b j \<longleftrightarrow> i = j \<and> av_pid a i = av_pid b j" "tr_slot (av_ref a i) = i"
  "tr_pid (av_ref a i) = av_pid a i"
  by (auto simp: av_ref_def)

lemma phase_task_Some:
  "phase_task p = Some i \<longleftrightarrow> p = InTask i \<or> p = Checked i \<or> (\<exists>q. p = Waiting i q) \<or> p = Leaving i"
  by (cases p) auto

lemma place_inv_finite: "place_inv a \<Longrightarrow> c < MAX_CORES \<Longrightarrow> finite (av_q a c)"
  by (rule finite_subset [of _ "{..<MAX_TASKS}"]) (auto simp: place_inv_def)

text \<open>The invariant as rules, one fact of a queue, a core or a slot at a time.\<close>

lemma placeD:
  assumes "place_inv a"
  shows "c < MAX_CORES \<Longrightarrow> i \<in> av_q a c \<Longrightarrow> i < MAX_TASKS \<and> av_state a i = Ready \<and> av_home a i = c"
    and "i < MAX_TASKS \<Longrightarrow> av_state a i = Ready \<Longrightarrow> i \<in> av_q a (av_home a i)"
    and "c < MAX_CORES \<Longrightarrow> phase_task (av_ph a c) = Some i \<Longrightarrow>
      i < MAX_TASKS \<and> av_on a i \<and> av_home a i = c \<and> av_state a i \<noteq> Free"
    and "i < MAX_TASKS \<Longrightarrow> av_on a i \<Longrightarrow> phase_task (av_ph a (av_home a i)) = Some i"
    and "i < MAX_TASKS \<Longrightarrow> av_state a i = Running \<Longrightarrow> av_on a i \<and> av_ph a (av_home a i) \<in> {InTask i, Checked i}"
    and "i < MAX_TASKS \<Longrightarrow> av_state a i = Dead \<Longrightarrow> av_on a i \<and> av_ph a (av_home a i) = Leaving i"
    and "c < MAX_CORES \<Longrightarrow> av_ph a c = Checked i \<Longrightarrow> av_state a i = Running"
  using assms unfolding place_inv_def by blast+

lemma slotD:
  assumes "slot_inv a" "i < MAX_TASKS"
  shows "av_state a i \<noteq> Creating" and "av_state a i \<noteq> Free \<Longrightarrow> av_prio a i \<le> 7 \<and> av_home a i < MAX_CORES"
    and "av_pid a i = INVALID_PID \<longleftrightarrow> av_state a i = Free"
  using assms unfolding slot_inv_def by blast+

lemma checkedD:
  assumes "place_inv a" "c < MAX_CORES" "av_ph a c = Checked i"
  shows "i < MAX_TASKS \<and> av_on a i \<and> av_home a i = c \<and> av_state a i = Running"
  using placeD(3,7) [OF assms(1,2), of i] assms(3) by simp

lemma hostedD:
  assumes "place_inv a" "c < MAX_CORES"
  shows "av_ph a c = InTask i \<Longrightarrow> i < MAX_TASKS \<and> av_on a i \<and> av_home a i = c \<and> av_state a i \<noteq> Free"
    and "av_ph a c = Waiting i q \<Longrightarrow> i < MAX_TASKS \<and> av_on a i \<and> av_home a i = c \<and> av_state a i \<noteq> Free"
    and "av_ph a c = Leaving i \<Longrightarrow> i < MAX_TASKS \<and> av_on a i \<and> av_home a i = c \<and> av_state a i \<noteq> Free"
  using placeD(3) [OF assms, of i] by simp_all

lemma step_place1:
  assumes "abs_step a b" "place_inv a" "slot_inv a" "c < MAX_CORES" "i \<in> av_q b c"
  shows "i < MAX_TASKS \<and> av_state b i = Ready \<and> av_home b i = c"
  using assms(1,4,5) placeD(1) [OF assms(2,4), of i]
  by cases (auto split: if_splits
      dest: placeD(1,3) [OF assms(2)] checkedD [OF assms(2)] slotD(2) [OF assms(3)])

lemma step_place2:
  assumes "abs_step a b" "place_inv a" "slot_inv a" "i < MAX_TASKS" "av_state b i = Ready"
  shows "i \<in> av_q b (av_home b i)"
  using assms(1,5) placeD(2) [OF assms(2,4)]
  by cases (auto split: if_splits dest: placeD(1,3) [OF assms(2)] checkedD [OF assms(2)])

lemma step_place3:
  assumes "abs_step a b" "place_inv a" "slot_inv a" "c < MAX_CORES" "phase_task (av_ph b c) = Some i"
  shows "i < MAX_TASKS \<and> av_on b i \<and> av_home b i = c \<and> av_state b i \<noteq> Free"
  using assms(1,4,5)
  by cases (auto split: if_splits dest: placeD(1,3) [OF assms(2)] checkedD [OF assms(2)] hostedD [OF assms(2)] slotD [OF assms(3)])

lemma step_place4:
  assumes "abs_step a b" "place_inv a" "slot_inv a" "i < MAX_TASKS" "av_on b i"
  shows "phase_task (av_ph b (av_home b i)) = Some i"
  using assms(1,4,5)
  by cases (auto split: if_splits dest: placeD(1,3,4) [OF assms(2)] checkedD [OF assms(2)] hostedD [OF assms(2)] slotD [OF assms(3)])

lemma step_place5:
  assumes "abs_step a b" "place_inv a" "slot_inv a" "i < MAX_TASKS" "av_state b i = Running"
  shows "av_on b i \<and> av_ph b (av_home b i) \<in> {InTask i, Checked i}"
  using assms(1,4,5)
  by cases (auto split: if_splits dest: placeD(1,3,5) [OF assms(2)] checkedD [OF assms(2)] hostedD [OF assms(2)] slotD [OF assms(3)])

lemma step_place6:
  assumes "abs_step a b" "place_inv a" "slot_inv a" "i < MAX_TASKS" "av_state b i = Dead"
  shows "av_on b i \<and> av_ph b (av_home b i) = Leaving i"
  using assms(1,4,5)
  by cases (auto split: if_splits dest: placeD(1,3,6) [OF assms(2)] checkedD [OF assms(2)] hostedD [OF assms(2)] slotD [OF assms(3)])

lemma step_place7:
  assumes "abs_step a b" "place_inv a" "slot_inv a" "c < MAX_CORES" "av_ph b c = Checked i"
  shows "av_state b i = Running"
  using assms(1,4,5)
  by cases (auto split: if_splits dest: placeD(1,3) [OF assms(2)] checkedD [OF assms(2)] hostedD [OF assms(2)] slotD [OF assms(3)])

lemma step_place:
  assumes "abs_step a b" "place_inv a" "slot_inv a"
  shows "place_inv b"
  using step_place1 [OF assms] step_place2 [OF assms] step_place3 [OF assms] step_place4 [OF assms]
    step_place5 [OF assms] step_place6 [OF assms] step_place7 [OF assms]
  unfolding place_inv_def by blast

lemma step_slot:
  assumes "abs_step a b" "place_inv a" "slot_inv a"
  shows "slot_inv b"
  using assms(1)
  by cases (insert assms(3), auto simp: slot_inv_def split: if_splits
      dest: placeD(1,3) [OF assms(2)] checkedD [OF assms(2)] hostedD [OF assms(2)])

text \<open>
  How one step changes the count of a core: its queue and whether it runs a task.
\<close>

lemma running_count_simps [simp]:
  "av_ph a c = InLoop \<Longrightarrow> running_count a c = 0"
  "av_ph a c = InTask i \<Longrightarrow> running_count a c = (if av_state a i = Running then 1 else 0)"
  "av_ph a c = Checked i \<Longrightarrow> running_count a c = (if av_state a i = Running then 1 else 0)"
  "av_ph a c = Waiting i q \<Longrightarrow> running_count a c = (if av_state a i = Running then 1 else 0)"
  "av_ph a c = Leaving i \<Longrightarrow> running_count a c = (if av_state a i = Running then 1 else 0)"
  by (simp_all add: running_count_def)

lemma running_count_same:
  assumes "place_inv a" "c < MAX_CORES" "av_ph b c = av_ph a c" "av_state b = (av_state a)(i := st)"
    and "av_home a i \<noteq> c \<or> \<not> av_on a i \<or> (st = Running \<longleftrightarrow> av_state a i = Running)"
  shows "running_count b c = running_count a c"
proof (cases "phase_task (av_ph a c)")
  case None
  with assms(3) show ?thesis by (simp add: running_count_def)
next
  case (Some j)
  with placeD(3) [OF assms(1,2) this] assms(3-5) show ?thesis by (auto simp: running_count_def)
qed

lemma running_count_eq:
  "av_ph b c = av_ph a c \<Longrightarrow> av_state b = av_state a \<Longrightarrow> running_count b c = running_count a c"
  by (simp add: running_count_def split: option.split)

lemma not_on_in_queue:
  "place_inv a \<Longrightarrow> c < MAX_CORES \<Longrightarrow> av_ph a c = InLoop \<Longrightarrow> i \<in> av_q a c \<Longrightarrow> \<not> av_on a i"
  using placeD(1,4) by fastforce

lemma not_in_queue:
  "place_inv a \<Longrightarrow> c < MAX_CORES \<Longrightarrow> av_state a i \<noteq> Ready \<or> av_home a i \<noteq> c \<Longrightarrow> i \<notin> av_q a c"
  using placeD(1) by blast

lemma step_run:
  assumes step: "abs_step a b" and p: "place_inv a" and s: "slot_inv a" and r: "run_inv a"
  shows "run_inv b"
  unfolding run_inv_def
proof (intro allI impI)
  fix c assume c: "c < MAX_CORES"
  have old: "av_run a c = card (av_q a c) + running_count a c" using r c by (simp add: run_inv_def)
  have fin: "finite (av_q a c)" by (rule place_inv_finite [OF p c])
  note same = running_count_same [OF p c]
  from step show "av_run b c = card (av_q b c) + running_count b c"
  proof cases
    case (pick d i)
    show ?thesis
    proof (cases "c = d")
      case True
      with pick card_Suc_Diff1 [OF fin, of i] old show ?thesis by simp
    next
      case False
      have "running_count b c = running_count a c"
        by (rule same [of _ i Running]) (use pick False placeD(1) [OF p] in auto)
      with False pick old show ?thesis by simp
    qed
  next
    case (reap d i)
    have "running_count b c = running_count a c" if "c \<noteq> d"
      by (rule same [of _ i Free]) (use reap that hostedD(3) [OF p] in auto)
    with reap old show ?thesis by (cases "c = d") auto
  next
    case (requeue d i)
    have host: "av_home a i = d" "i \<notin> av_q a c"
      using requeue hostedD(1) [OF p] checkedD [OF p] not_in_queue [OF p c] by auto
    have "running_count b c = running_count a c" if "c \<noteq> d"
      by (rule same [of _ i Ready]) (use requeue that host in auto)
    with requeue old fin host show ?thesis by (cases "c = d") auto
  next
    case (await d i q)
    have "running_count b c = running_count a c" if "c \<noteq> d"
      by (rule same [of _ i Blocked]) (use await that checkedD [OF p] in auto)
    with await old show ?thesis using checkedD [OF p await(2,3)] by (cases "c = d") auto
  next
    case (sleep d i)
    have "running_count b c = running_count a c" if "c \<noteq> d"
      by (rule same [of _ i Blocked]) (use sleep that checkedD [OF p] in auto)
    with sleep old show ?thesis using checkedD [OF p sleep(2,3)] by (cases "c = d") auto
  next
    case (die d i)
    have "running_count b c = running_count a c" if "c \<noteq> d"
      by (rule same [of _ i Dead]) (use die that checkedD [OF p] hostedD(1) [OF p] in auto)
    with die old show ?thesis by (cases "c = d") auto
  next
    case (wake i d)
    have "running_count b c = running_count a c" by (rule same [of _ i Ready]) (use wake in auto)
    with wake old fin not_in_queue [OF p c, of i] show ?thesis by (cases "c = d") auto
  next
    case (start i d p' pid)
    have "running_count b c = running_count a c" by (rule same [of _ i Ready]) (use start in auto)
    with start old fin not_in_queue [OF p c, of i] show ?thesis by (cases "c = d") auto
  next
    case (steal c' d i)
    have "running_count b c = running_count a c" by (rule running_count_eq) (use steal in auto)
    moreover have "i \<notin> av_q a d" using steal placeD(1) [OF p steal(2)] placeD(1) [OF p steal(3)] by auto
    ultimately show ?thesis using steal old fin card_Suc_Diff1 [OF fin, of i]
      by (cases "c = d"; cases "c = c'") auto
  next
    case (switch_out d i)
    then show ?thesis using old running_count_eq [of b c a] by (cases "c = d") (auto simp: running_count_def)
  next
    case (come_back d i)
    then show ?thesis using old running_count_eq [of b c a] hostedD(3) [OF p come_back(2,3)] placeD(5) [OF p, of i]
      by (cases "c = d") auto
  next
    case (check d i)
    then show ?thesis using old running_count_eq [of b c a] by (cases "c = d") auto
  qed (use old running_count_eq [of b c a] in auto)
qed

lemma refD:
  assumes "ref_inv a"
  shows "r \<in> av_lists a l \<Longrightarrow> tr_slot r < MAX_TASKS \<and> tr_pid r \<noteq> INVALID_PID"
    and "i < MAX_TASKS \<Longrightarrow> av_state a i \<noteq> Blocked \<Longrightarrow> \<not> av_kill a i \<Longrightarrow> in_no_list a i"
    and "i < MAX_TASKS \<Longrightarrow> av_state a i = Blocked \<Longrightarrow> av_ref a i \<in> av_lists a (Sleepers c) \<Longrightarrow> av_home a i = c"
    and "c < MAX_CORES \<Longrightarrow> av_ph a c = Checked i \<Longrightarrow> in_no_list a i"
    and "c < MAX_CORES \<Longrightarrow> av_ph a c = Waiting i q \<Longrightarrow> l \<noteq> Waiters q \<Longrightarrow> av_ref a i \<notin> av_lists a l"
    and "i < MAX_TASKS \<Longrightarrow> \<not> av_kill a i \<Longrightarrow> av_ref a i \<in> av_lists a l \<Longrightarrow> av_ref a i \<in> av_lists a l' \<Longrightarrow> l = l'"
  using assms unfolding ref_inv_def by blast+

lemma in_no_listD: "in_no_list a i \<Longrightarrow> av_ref a i \<notin> av_lists a l"
  by (simp add: in_no_list_def)

text \<open>Only the slots and cores a step changes have to be looked at.\<close>

definition refs_kept :: "aview \<Rightarrow> aview \<Rightarrow> nat \<Rightarrow> bool" where
  "refs_kept a b i \<longleftrightarrow> av_pid b i = av_pid a i \<and> (\<forall>l. av_ref a i \<in> av_lists b l \<longrightarrow> av_ref a i \<in> av_lists a l)"

lemma refs_kept_ref: "refs_kept a b i \<Longrightarrow> av_ref b i = av_ref a i"
  by (simp add: refs_kept_def)

lemma refs_kept_old: "refs_kept a b i \<Longrightarrow> av_ref b i \<in> av_lists b l \<Longrightarrow> av_ref b i \<in> av_lists a l"
  using refs_kept_ref [of a b i] unfolding refs_kept_def by metis

lemma refs_kept_none: "refs_kept a b i \<Longrightarrow> in_no_list a i \<Longrightarrow> in_no_list b i"
  using refs_kept_old [of a b i] refs_kept_ref [of a b i] unfolding in_no_list_def by metis

lemma ref_inv_mono:
  assumes inv: "ref_inv a" 
    and range: "\<And>l r. r \<in> av_lists b l \<Longrightarrow> r \<in> av_lists a l \<or> tr_slot r < MAX_TASKS \<and> tr_pid r \<noteq> INVALID_PID"
    and slots: "\<And>i. i < MAX_TASKS \<Longrightarrow> \<not> in_no_list b i \<Longrightarrow> refs_kept a b i \<and> (av_kill a i \<longrightarrow> av_kill b i) \<and>
        (av_state b i = av_state a i \<and> av_home b i = av_home a i \<or>
         av_state b i \<noteq> Blocked \<and> (av_state a i \<noteq> Blocked \<or> av_kill a i))"
    and checked: "\<And>c i. c < MAX_CORES \<Longrightarrow> av_ph b c = Checked i \<Longrightarrow>
        in_no_list b i \<or> av_ph a c = Checked i \<and> refs_kept a b i"
    and waiting: "\<And>c i q. c < MAX_CORES \<Longrightarrow> av_ph b c = Waiting i q \<Longrightarrow>
        in_no_list b i \<or> av_ph a c = Waiting i q \<and> refs_kept a b i"
  shows "ref_inv b"
proof -
  note old = refs_kept_old [of a b] and ref = refs_kept_ref [of a b]
  have "tr_slot r < MAX_TASKS \<and> tr_pid r \<noteq> INVALID_PID" if "r \<in> av_lists b l" for r l
    using refD(1) [OF inv] range that by blast
  moreover have "in_no_list b i" if "i < MAX_TASKS" "av_state b i \<noteq> Blocked" "\<not> av_kill b i" for i
    using slots [OF that(1)] that refD(2) [OF inv that(1)] refs_kept_none by metis
  moreover have "av_home b i = c"
    if "i < MAX_TASKS" "av_state b i = Blocked" "av_ref b i \<in> av_lists b (Sleepers c)" for i c
  proof -
    have "\<not> in_no_list b i" using that(3) by (auto simp: in_no_list_def)
    from slots [OF that(1) this] that refD(3) [OF inv that(1), of c] old ref show ?thesis by metis
  qed
  moreover have "in_no_list b i" if "c < MAX_CORES" "av_ph b c = Checked i" for c i
    using checked [OF that] refD(4) [OF inv that(1)] refs_kept_none by blast
  moreover have "av_ref b i \<notin> av_lists b l" if "c < MAX_CORES" "av_ph b c = Waiting i q" "l \<noteq> Waiters q" for c i q l
    using waiting [OF that(1,2)] refD(5) [OF inv that(1) _ that(3), of i] old ref in_no_listD by metis
  moreover have "l = l'"
    if i: "i < MAX_TASKS" "\<not> av_kill b i" and l: "av_ref b i \<in> av_lists b l" "av_ref b i \<in> av_lists b l'" for i l l'
  proof -
    have "\<not> in_no_list b i" using l by (auto simp: in_no_list_def)
    from slots [OF i(1) this] i l refD(6) [OF inv i(1), of l l'] old ref show ?thesis by metis
  qed
  ultimately show ?thesis unfolding ref_inv_def by blast
qed

lemma refs_kept_same:
  "av_pid b i = av_pid a i \<Longrightarrow> (\<And>l. av_lists b l \<subseteq> av_lists a l) \<Longrightarrow> refs_kept a b i"
  by (auto simp: refs_kept_def)

lemma block_ref:
  assumes p: "place_inv a" and s: "slot_inv a" and r: "ref_inv a" and c: "c < MAX_CORES" "av_ph a c = Checked i"
    and b: "av_pid b = av_pid a" "av_kill b = av_kill a" "av_home b = av_home a"
      "av_state b = (av_state a)(i := Blocked)" "av_ph b = (av_ph a)(c := ph)"
      "av_lists b = (av_lists a)(l := insert (av_ref a i) (av_lists a l))"
    and l: "l = Sleepers c \<and> ph = InTask i \<or> (\<exists>q. l = Waiters q \<and> ph = Waiting i q)"
  shows "ref_inv b"
proof -
  have i: "i < MAX_TASKS" "av_home a i = c" "av_state a i = Running" using checkedD [OF p c] by auto
  have none: "in_no_list a i" by (rule refD(4) [OF r c])
  have ref: "av_ref b = av_ref a" using b(1) by (simp add: av_ref_def fun_eq_iff)
  have lists: "av_ref a j \<in> av_lists b k \<longleftrightarrow> av_ref a j \<in> av_lists a k \<or> j = i \<and> k = l" for j k
    using b(6) none by (auto simp: in_no_list_def)
  have mine: "av_ref a i \<in> av_lists b k \<longleftrightarrow> k = l" for k
    using lists none by (auto simp: in_no_list_def)
  have no: "in_no_list b j \<longleftrightarrow> in_no_list a j \<and> j \<noteq> i" for j
    using lists mine unfolding in_no_list_def ref by blast
  have only: "d = c" if "d < MAX_CORES" "phase_task (av_ph a d) = Some i" for d
    using placeD(3) [OF p that] i by simp
  have "tr_slot r < MAX_TASKS \<and> tr_pid r \<noteq> INVALID_PID" if "r \<in> av_lists b k" for r k
    using that refD(1) [OF r] i slotD(3) [OF s i(1)] by (auto simp: b(6) split: if_splits)
  moreover have "in_no_list b j" if "j < MAX_TASKS" "av_state b j \<noteq> Blocked" "\<not> av_kill b j" for j
    using that refD(2) [OF r that(1)] by (auto simp: no b split: if_splits)
  moreover have "av_home b j = d"
    if "j < MAX_TASKS" "av_state b j = Blocked" "av_ref b j \<in> av_lists b (Sleepers d)" for j d
    using that(2,3) refD(3) [OF r that(1), of d] i l mine none unfolding ref lists b(3,4)
    by (cases "j = i") (auto simp: in_no_list_def)
  moreover have "in_no_list b j" if "d < MAX_CORES" "av_ph b d = Checked j" for d j
    using that(2) refD(4) [OF r that(1)] only [OF that(1)] l by (auto simp: no b(5) split: if_splits)
  moreover have "av_ref b j \<notin> av_lists b k" if "d < MAX_CORES" "av_ph b d = Waiting j q" "k \<noteq> Waiters q" for d j q k
    using that(2,3) refD(5) [OF r that(1), of j q] only [OF that(1)] l none unfolding ref lists b(5)
    by (auto simp: in_no_list_def split: if_splits)
  moreover have "k = k'"
    if j: "j < MAX_TASKS" "\<not> av_kill b j" and k: "av_ref b j \<in> av_lists b k" "av_ref b j \<in> av_lists b k'" for j k k'
    using k refD(6) [OF r j(1), of k k'] j(2) mine unfolding ref lists b(2) by (cases "j = i") auto
  ultimately show ?thesis unfolding ref_inv_def by blast
qed

lemma step_ref:
  assumes step: "abs_step a b" and p: "place_inv a" and s: "slot_inv a" and r: "ref_inv a"
  shows "ref_inv b"
  using step
proof cases
  case (pick c i)
  then show ?thesis
    by (intro ref_inv_mono [OF r]) (auto intro!: refs_kept_same split: if_splits dest: placeD(1) [OF p])
next
  case (check c i)
  then have "in_no_list a i" using hostedD(1) [OF p] refD(2) [OF r] by auto
  with check show ?thesis
    by (intro ref_inv_mono [OF r]) (auto intro!: refs_kept_same simp: in_no_list_def av_ref_def split: if_splits)
next
  case (wake i c)
  have "\<not> in_no_list b i \<Longrightarrow> av_kill a i" using wake by (auto simp: in_no_list_def av_ref_def)
  with wake show ?thesis
    by (intro ref_inv_mono [OF r]) (auto intro!: refs_kept_same split: if_splits)
next
  case (steal c d i)
  then show ?thesis
    by (intro ref_inv_mono [OF r]) (auto intro!: refs_kept_same split: if_splits dest: placeD(1) [OF p])
next
  case (await c i q)
  then show ?thesis by (intro block_ref [OF p s r await(2,3), of b "Waiting i q" "Waiters q"]) auto
next
  case (sleep c i)
  then show ?thesis by (intro block_ref [OF p s r sleep(2,3), of b "InTask i" "Sleepers c"]) auto
next
  case (reap c i)
  have "in_no_list b i" using reap refD(1) [OF r, of "av_ref b i"] by (auto simp: in_no_list_def)
  with reap show ?thesis
    by (intro ref_inv_mono [OF r]) (auto intro!: refs_kept_same split: if_splits)
next
  case (start i c p' pid)
  have "in_no_list b i" using start(1) start(8) [of "av_ref b i"] by (auto simp: in_no_list_def)
  with start show ?thesis
    by (intro ref_inv_mono [OF r]) (auto intro!: refs_kept_same split: if_splits)
qed (intro ref_inv_mono [OF r]; auto intro!: refs_kept_same split: if_splits; blast)+

theorem abs_step_inv: "abs_step a b \<Longrightarrow> abs_inv a \<Longrightarrow> abs_inv b"
  unfolding abs_inv_def using step_place step_slot step_run step_ref by blast

lemma abs_steps_inv: "abs_step\<^sup>*\<^sup>* a b \<Longrightarrow> abs_inv a \<Longrightarrow> abs_inv b"
  by (induction rule: rtranclp_induct) (auto intro: abs_step_inv)

end
