(* ===== verification/Sched_Refine.thy ===== *)
theory Sched_Refine
  imports Ref_Arrays Sched_Spec
begin

text \<open>
  The operations of the scheduler on its linked queues and arrays do the steps of \<open>Sched_Spec\<close>. The
  view of a concrete state forgets the order of the queues; the relation between both says that
  the linked lists of all cores are well-formed and disjoint, that each core knows the task it
  runs, and that the arrays of references are in order.
\<close>

section \<open>The tables of all cores\<close>

type_synonym core_levels = "nat \<Rightarrow> bool \<Rightarrow> levels"

definition queue_tab :: "core_run_queue \<Rightarrow> bool \<Rightarrow> slot_table" where
  "queue_tab rq e = (if e then executing_tasks rq else yielding_tasks rq)"

definition tables_rel :: "task_table \<Rightarrow> (nat \<Rightarrow> core_run_queue) \<Rightarrow> core_levels \<Rightarrow> bool" where
  "tables_rel t rqs L \<longleftrightarrow>
     (\<forall>c < MAX_CORES. \<forall>e. table_rel t (queue_tab (rqs c) e) (L c e)) \<and>
     (\<forall>c < MAX_CORES. \<forall>c' < MAX_CORES. \<forall>e e'. (c, e) \<noteq> (c', e') \<longrightarrow> slots_of (L c e) \<inter> slots_of (L c' e') = {})"

definition queued :: "core_levels \<Rightarrow> nat \<Rightarrow> nat set" where
  "queued L c = slots_of (L c True) \<union> slots_of (L c False)"

definition sleeper_arr :: "core_run_queue \<Rightarrow> sleeping_task list \<times> nat" where
  "sleeper_arr rq = (sleeping_tasks rq, sleeping_tasks_count rq)"

definition waiter_arr :: "waiter_list \<Rightarrow> task_ref list \<times> nat" where
  "waiter_arr w = (waiters w, waiter_count w)"

lemma in_queued: "x \<in> slots_of (L c e) \<Longrightarrow> x \<in> queued L c"
  by (cases e) (auto simp: queued_def)

lemma queued_cases: "x \<in> queued L c \<Longrightarrow> \<exists>e. x \<in> slots_of (L c e)"
  by (auto simp: queued_def)

lemma tables_relD:
  assumes "tables_rel t rqs L" "c < MAX_CORES"
  shows "table_rel t (queue_tab (rqs c) e) (L c e)"
    and "c' < MAX_CORES \<Longrightarrow> (c, e) \<noteq> (c', e') \<Longrightarrow> slots_of (L c e) \<inter> slots_of (L c' e') = {}"
  using assms unfolding tables_rel_def by blast+

lemma table_rel_links:
  assumes "\<And>x. x \<in> slots_of L \<Longrightarrow> ts_next (t' x) = ts_next (t x)"
  shows "table_rel t' tab L = table_rel t tab L"
proof -
  have "queue_rel t' q (L l) = queue_rel t q (L l)" for q l
    by (rule queue_rel_cong) (use assms in \<open>auto simp: slots_of_def\<close>)
  then show ?thesis by (simp add: table_rel_def)
qed

lemma tables_rel_cong:
  assumes "tables_rel t rqs L" "\<And>i. ts_next (t' i) = ts_next (t i)"
    and "\<And>c e. queue_tab (rqs' c) e = queue_tab (rqs c) e"
  shows "tables_rel t' rqs' L"
  using assms by (simp add: tables_rel_def table_rel_links [of _ t' t])

text \<open>One table changes, and with it only links of its own slots and of slots in no queue.\<close>

lemma tables_rel_change:
  assumes rel: "tables_rel t rqs L" and c: "c < MAX_CORES"
    and tab: "table_rel t' tab M" and tabs: "queue_tab (rqs' c) e = tab" "queue_tab (rqs' c) (\<not> e) = queue_tab (rqs c) (\<not> e)"
      "\<And>d. d \<noteq> c \<Longrightarrow> rqs' d = rqs d"
    and links: "links_only S t t'"
    and S: "\<And>x d e'. x \<in> S \<or> x \<in> slots_of M \<Longrightarrow> d < MAX_CORES \<Longrightarrow> x \<in> slots_of (L d e') \<Longrightarrow> d = c \<and> e' = e"
  shows "tables_rel t' rqs' (L(c := (L c)(e := M)))"
  unfolding tables_rel_def
proof (intro conjI allI impI)
  fix d e' assume d: "d < MAX_CORES"
  show "table_rel t' (queue_tab (rqs' d) e') ((L(c := (L c)(e := M))) d e')"
  proof (cases "d = c \<and> e' = e")
    case False
    then have "S \<inter> slots_of (L d e') = {}" using S [of _ d e'] d by blast
    then have "table_rel t' (queue_tab (rqs d) e') (L d e')"
      by (rule table_rel_frame [OF tables_relD(1) [OF rel d] links])
    moreover have "queue_tab (rqs' d) e' = queue_tab (rqs d) e'"
      using False tabs(2,3) by (cases "d = c") auto
    ultimately show ?thesis using False by auto
  qed (use tab tabs(1) in simp)
next
  fix d d' and e1 e2 :: bool assume d: "d < MAX_CORES" "d' < MAX_CORES" "(d, e1) \<noteq> (d', e2)"
  show "slots_of ((L(c := (L c)(e := M))) d e1) \<inter> slots_of ((L(c := (L c)(e := M))) d' e2) = {}"
  proof (cases "d = c \<and> e1 = e")
    case True
    with d(3) have "\<not> (d' = c \<and> e2 = e)" by simp
    then have "slots_of M \<inter> slots_of (L d' e2) = {}" using S [OF _ d(2), of _ e2] by blast
    with True \<open>\<not> (d' = c \<and> e2 = e)\<close> show ?thesis by auto
  next
    case False
    then have "slots_of M \<inter> slots_of (L d e1) = {}" using S [OF _ d(1), of _ e1] by blast
    with False tables_relD(2) [OF rel d(1,2,3)] show ?thesis by auto
  qed
qed

section \<open>Putting a task into a queue and taking one out\<close>

definition push_task :: "bool \<Rightarrow> nat \<Rightarrow> nat \<Rightarrow> core_run_queue \<Rightarrow> task_table \<Rightarrow> (unit, core_run_queue \<times> task_table) outcome" where
  "push_task e = (if e then push_executing_task else push_yielding_task)"

lemma push_task_sim:
  assumes rel: "tables_rel t rqs L" and c: "c < MAX_CORES" and p: "p \<le> 7"
    and i: "i < MAX_TASKS" "\<And>d. d < MAX_CORES \<Longrightarrow> i \<notin> queued L d"
  obtains rq' t' L' where "push_task e i p (rqs c) t = Ok (rq', t')" "tables_rel t' (rqs(c := rq')) L'"
    "links_only UNIV t t'" "queued L' = (queued L)(c := insert i (queued L c))" "sleeper_arr rq' = sleeper_arr (rqs c)"
    "L' = L(c := (L c)(e := (L c e)(p := L c e p @ [i])))"
proof -
  have ni: "i \<notin> slots_of (L d e')" if "d < MAX_CORES" for d e' using i(2) [OF that] in_queued by blast
  have p': "p \<le> MAX_PRIORITY" using p by (simp add: MAX_PRIORITY_def)
  obtain tab' t' where push: "st_push i p (queue_tab (rqs c) e) t = Ok (tab', t')"
    and tab': "table_rel t' tab' ((L c e)(p := L c e p @ [i]))"
    and links: "links_only (insert i (slots_of (L c e))) t t'"
    using st_push_rel [OF tables_relD(1) [OF rel c] ni [OF c] i(1) p'] by blast
  let ?rq = "if e then (rqs c)\<lparr>executing_tasks := tab'\<rparr> else (rqs c)\<lparr>yielding_tasks := tab'\<rparr>"
  let ?L = "L(c := (L c)(e := (L c e)(p := L c e p @ [i])))"
  have "tables_rel t' (rqs(c := ?rq)) ?L"
  proof (rule tables_rel_change [OF rel c tab' _ _ _ links])
    fix x d e'
    assume "x \<in> insert i (slots_of (L c e)) \<or> x \<in> slots_of ((L c e)(p := L c e p @ [i]))" "d < MAX_CORES" "x \<in> slots_of (L d e')"
    then show "d = c \<and> e' = e" using ni tables_relD(2) [OF rel c, of d e e'] by (auto simp: slots_of_push)
  qed (auto simp: queue_tab_def)
  moreover have "push_task e i p (rqs c) t = Ok (?rq, t')"
    using push by (simp add: push_task_def push_executing_task_def push_yielding_task_def queue_tab_def split: if_splits)
  moreover have "queued ?L = (queued L)(c := insert i (queued L c))"
    by (rule ext) (cases e; auto simp: queued_def slots_of_push)
  moreover have "sleeper_arr ?rq = sleeper_arr (rqs c)" by (simp add: sleeper_arr_def)
  ultimately show ?thesis using that links_only_mono [OF links] by blast
qed

lemma remove_one:
  assumes rel: "tables_rel t rqs L" and c: "c < MAX_CORES"
    and l: "L c e l = ys @ x # zs"
  shows "queued (L(c := (L c)(e := (L c e)(l := ys @ zs)))) = (queued L)(c := queued L c - {x})"
    and "x \<in> queued L c" "x < MAX_TASKS"
proof -
  note p = slots_of_pop [OF tables_relD(1) [OF rel c] l]
  have "x \<notin> slots_of (L c (\<not> e))" using tables_relD(2) [OF rel c c, of e "\<not> e"] p(2) by auto
  then show "queued (L(c := (L c)(e := (L c e)(l := ys @ zs)))) = (queued L)(c := queued L c - {x})"
    using p(1) by (intro ext, cases e) (auto simp: queued_def)
  show "x \<in> queued L c" using p(2) by (rule in_queued)
  show "x < MAX_TASKS" by (rule table_rel_range [OF tables_relD(1) [OF rel c] p(2)])
qed

text \<open>
  \<open>pick_next_task\<close> starts a new epoch when no executing task is left; which slot it takes is said by
  \<open>next_slot\<close>: the oldest of the highest level that is not empty.
\<close>

definition swap_levels :: "(bool \<Rightarrow> levels) \<Rightarrow> bool \<Rightarrow> levels" where
  "swap_levels B = (if \<forall>l. B True l = [] then (\<lambda>e. B (\<not> e)) else B)"

lemma tables_rel_swap:
  assumes "tables_rel t rqs L" "c < MAX_CORES"
    "\<And>e. queue_tab rq' e = queue_tab (rqs c) (\<not> e)"
  shows "tables_rel t (rqs(c := rq')) (L(c := (\<lambda>e. L c (\<not> e))))"
  using assms unfolding tables_rel_def by (auto split: if_splits) (metis+)?

lemma pick_next_task_sim:
  assumes rel: "tables_rel t rqs L" and c: "c < MAX_CORES"
  obtains (idle) "queued L c = {}" "pick_next_task (rqs c) t = Ok (INVALID_SLOT, rqs c)"
  | (picked) l x xs rq' where "swap_levels (L c) True l = x # xs" "\<forall>k > l. swap_levels (L c) True k = []"
      "pick_next_task (rqs c) t = Ok (x, rq')"
      "tables_rel t (rqs(c := rq')) (L(c := (swap_levels (L c))(True := (swap_levels (L c) True)(l := xs))))"
      "queued (L(c := (swap_levels (L c))(True := (swap_levels (L c) True)(l := xs)))) = (queued L)(c := queued L c - {x})"
      "x \<in> queued L c" "x < MAX_TASKS" "sleeper_arr rq' = sleeper_arr (rqs c)"
proof -
  let ?rq = "rqs c"
  have empty: "st_is_empty (queue_tab ?rq e) \<longleftrightarrow> (\<forall>l. L c e l = [])" for e
    by (rule st_is_empty_rel [OF tables_relD(1) [OF rel c]])
  have ex: "st_is_empty (executing_tasks ?rq) \<longleftrightarrow> (\<forall>l. L c True l = [])"
    and yi: "st_is_empty (yielding_tasks ?rq) \<longleftrightarrow> (\<forall>l. L c False l = [])"
    using empty [of True] empty [of False] by (simp_all add: queue_tab_def)
  show ?thesis
  proof (cases "queued L c = {}")
    case True
    then have "\<forall>l. L c True l = []" "\<forall>l. L c False l = []"
      by (simp_all add: queued_def slots_of_empty)
    then show ?thesis using idle [OF True] ex yi by (simp add: pick_next_task_def)
  next
    case False
    let ?sw = "st_is_empty (executing_tasks ?rq)"
    define rq where "rq = (if ?sw then ?rq\<lparr>executing_tasks := yielding_tasks ?rq, yielding_tasks := executing_tasks ?rq\<rparr> else ?rq)"
    define B where "B = swap_levels (L c)"
    define L1 where "L1 = L(c := B)"
    have rel1: "tables_rel t (rqs(c := rq)) L1"
      using tables_rel_swap [OF rel c, of rq] rel ex by (auto simp: rq_def B_def L1_def swap_levels_def queue_tab_def)
    have q1: "queued L1 = queued L" by (rule ext) (auto simp: queued_def L1_def B_def swap_levels_def)
    have "\<exists>l. B True l \<noteq> []" using False ex by (auto simp: B_def swap_levels_def queued_def slots_of_empty)
    moreover have t1: "table_rel t (executing_tasks rq) (B True)"
      using tables_relD(1) [OF rel1 c, of True] by (simp add: queue_tab_def L1_def)
    ultimately obtain l x xs tab' where pop: "B True l = x # xs" "\<forall>k > l. B True k = []"
      "st_pop (executing_tasks rq) t = Ok (x, tab')" "table_rel t tab' ((B True)(l := xs))"
      by (metis st_pop_rel)
    let ?rq' = "rq\<lparr>executing_tasks := tab'\<rparr>" and ?L2 = "L1(c := (L1 c)(True := (L1 c True)(l := xs)))"
    have L1c: "L1 c = B" by (simp add: L1_def)
    have "tables_rel t (rqs(c := ?rq')) ?L2"
    proof (rule tables_rel_change [OF rel1 c, of t "tab'" "(L1 c True)(l := xs)" _ True "{}"])
      fix y d e' assume y: "y \<in> {} \<or> y \<in> slots_of ((L1 c True)(l := xs))" "d < MAX_CORES" "y \<in> slots_of (L1 d e')"
      then have "y \<in> slots_of (L1 c True)"
        using slots_of_pop(1) [OF t1, of l "[]" x xs] pop(1) L1c by auto
      then show "d = c \<and> e' = True" using tables_relD(2) [OF rel1 c y(2), of True e'] y(3) by auto
    qed (use pop(4) L1c in \<open>auto simp: queue_tab_def\<close>)
    moreover have "?L2 = L(c := B(True := (B True)(l := xs)))" by (simp add: L1_def)
    moreover have "pick_next_task ?rq t = Ok (x, ?rq')"
      using False ex yi pop(3) by (auto simp: pick_next_task_def queued_def slots_of_empty rq_def Let_def split: if_splits)
    moreover have "queued ?L2 = (queued L)(c := queued L c - {x})" "x \<in> queued L c" "x < MAX_TASKS"
      using remove_one [OF rel1 c, of True l "[]" x xs] pop(1) L1c q1 by auto
    moreover have "sleeper_arr ?rq' = sleeper_arr ?rq" by (simp add: sleeper_arr_def rq_def)
    ultimately show ?thesis using picked [of l x xs ?rq'] pop(1,2) by (simp add: B_def)
  qed
qed

lemma take_stealable_sim:
  assumes rel: "tables_rel t rqs L" and c: "c < MAX_CORES"
  obtains (none) "take_stealable_task (rqs c) t = Ok (INVALID_SLOT, rqs c, t)"
  | (some) x rq' t' L' where "take_stealable_task (rqs c) t = Ok (x, rq', t')" "\<not> ts_on_cpu (t x)"
      "tables_rel t' (rqs(c := rq')) L'" "queued L' = (queued L)(c := queued L c - {x})" "x \<in> queued L c"
      "x < MAX_TASKS" "links_only UNIV t t'" "sleeper_arr rq' = sleeper_arr (rqs c)"
proof -
  let ?rq = "rqs c"
  have found: thesis
    if tab: "L c e l = ys @ x # zs" "\<not> ts_on_cpu (t x)" "table_rel t' tab' ((L c e)(l := ys @ zs))"
      "links_only (set (L c e l)) t t'"
      and run: "take_stealable_task ?rq t = Ok (x, rq', t')" "queue_tab rq' e = tab'"
        "queue_tab rq' (\<not> e) = queue_tab ?rq (\<not> e)" "sleeper_arr rq' = sleeper_arr ?rq"
    for e l ys x zs t' tab' rq'
  proof -
    let ?L = "L(c := (L c)(e := (L c e)(l := ys @ zs)))"
    have "tables_rel t' (rqs(c := rq')) ?L"
    proof (rule tables_rel_change [OF rel c tab(3) _ _ _ tab(4)])
      fix y d e' assume y: "y \<in> set (L c e l) \<or> y \<in> slots_of ((L c e)(l := ys @ zs))" "d < MAX_CORES" "y \<in> slots_of (L d e')"
      then have "y \<in> slots_of (L c e)"
        using slots_of_pop(1) [OF tables_relD(1) [OF rel c] tab(1)] by auto
      then show "d = c \<and> e' = e" using tables_relD(2) [OF rel c y(2), of e e'] y(3) by auto
    qed (use run in auto)
    then show thesis
      using some [OF run(1) tab(2) _ remove_one [OF rel c tab(1)] links_only_mono [OF tab(4)] run(4)] by blast
  qed
  have E: "table_rel t (executing_tasks ?rq) (L c True)" and Y: "table_rel t (yielding_tasks ?rq) (L c False)"
    using tables_relD(1) [OF rel c, of True] tables_relD(1) [OF rel c, of False] by (simp_all add: queue_tab_def)
  show thesis
  proof (cases rule: st_take_rel [OF E])
    case 1
    note e_none = 1(1)
    show thesis
    proof (cases rule: st_take_rel [OF Y])
      case 1
      then show thesis using none e_none by (simp add: take_stealable_task_def)
    next
      case (2 l ys x zs tab' t')
      have "x < MAX_TASKS" by (rule table_rel_range [OF Y slots_of_pop(2) [OF Y 2(2)]])
      show thesis
        by (rule found [OF 2(2,3,5,6), of "?rq\<lparr>yielding_tasks := tab'\<rparr>"])
          (use 2(4) e_none in \<open>simp_all add: take_stealable_task_def queue_tab_def sleeper_arr_def\<close>)
    qed
  next
    case (2 l ys x zs tab' t')
    have "x < MAX_TASKS" by (rule table_rel_range [OF E slots_of_pop(2) [OF E 2(2)]])
    show thesis
      by (rule found [OF 2(2,3,5,6), of "?rq\<lparr>executing_tasks := tab'\<rparr>"])
        (use 2(4) \<open>x < MAX_TASKS\<close> in \<open>simp_all add: take_stealable_task_def queue_tab_def sleeper_arr_def\<close>)
  qed
qed

end
