(* ===== verification/Sched_System.thy ===== *)
theory Sched_System
  imports Sched_Refine
begin

text \<open>
  The scheduler as a system: cores that run the scheduler loop, tasks that are preempted, yield,
  block, sleep, are killed or exit, interrupts that wake sleepers, and new tasks, in any order.
  Every operation is shown to return without a panic and to do steps of \<open>Sched_Spec\<close>.
\<close>

section \<open>The view of a concrete state\<close>

fun list_refs :: "(nat \<Rightarrow> core_run_queue) \<Rightarrow> (nat \<Rightarrow> waiter_list) \<Rightarrow> ref_list \<Rightarrow> task_ref set" where
  "list_refs rqs w (Sleepers c) =
     (if c < MAX_CORES then sl_ref ` set (used (sleeper_arr (rqs c))) else {})"
| "list_refs rqs w (Waiters q) = set (used (waiter_arr (w q)))"

lemma list_refs_cong:
  assumes "\<And>c. sleeper_arr (rqs' c) = sleeper_arr (rqs c)"
  shows "list_refs rqs' w = list_refs rqs w"
proof
  fix l show "list_refs rqs' w l = list_refs rqs w l" using assms by (cases l) simp_all
qed

definition view :: "(nat \<Rightarrow> core_phase) \<Rightarrow> sched \<Rightarrow> (nat \<Rightarrow> waiter_list) \<Rightarrow> core_levels \<Rightarrow> aview" where
  "view ph s w L =
     \<lparr>av_state = (\<lambda>i. ts_state (tasks s i)), av_pid = (\<lambda>i. ts_pid (tasks s i)),
      av_home = (\<lambda>i. ts_home_core (tasks s i)), av_prio = (\<lambda>i. ts_priority (tasks s i)),
      av_on = (\<lambda>i. ts_on_cpu (tasks s i)), av_kill = (\<lambda>i. ts_kill_pending (tasks s i)),
      av_q = queued L, av_run = runnable_tasks_count s, av_ph = ph,
      av_lists = list_refs (run_queues s) w\<rparr>"

lemma view_fields [simp]:
  "av_state (view ph s w L) i = ts_state (tasks s i)" "av_pid (view ph s w L) i = ts_pid (tasks s i)"
  "av_home (view ph s w L) i = ts_home_core (tasks s i)" "av_prio (view ph s w L) i = ts_priority (tasks s i)"
  "av_on (view ph s w L) i = ts_on_cpu (tasks s i)" "av_kill (view ph s w L) i = ts_kill_pending (tasks s i)"
  "av_q (view ph s w L) = queued L" "av_run (view ph s w L) = runnable_tasks_count s" "av_ph (view ph s w L) = ph"
  "av_lists (view ph s w L) = list_refs (run_queues s) w"
  by (simp_all add: view_def)

definition cur_rel :: "(nat \<Rightarrow> core_phase) \<Rightarrow> sched \<Rightarrow> bool" where
  "cur_rel ph s \<longleftrightarrow> (\<forall>c < MAX_CORES. case phase_task (ph c) of
     None \<Rightarrow> current_slot s c = INVALID_SLOT
   | Some i \<Rightarrow> i < MAX_TASKS \<and> current_slot s c = i \<and> current_process s c = ts_pid (tasks s i))"

definition conc_rel :: "(nat \<Rightarrow> core_phase) \<Rightarrow> sched \<Rightarrow> (nat \<Rightarrow> waiter_list) \<Rightarrow> core_levels \<Rightarrow> bool" where
  "conc_rel ph s w L \<longleftrightarrow> tables_rel (tasks s) (run_queues s) L \<and> cur_rel ph s
     \<and> (\<forall>c < MAX_CORES. arr_wf sl_ref (sleeper_arr (run_queues s c))) \<and> (\<forall>q. arr_wf (\<lambda>r. r) (waiter_arr (w q)))"

definition sys_ok :: "(nat \<Rightarrow> core_phase) \<Rightarrow> sched \<Rightarrow> (nat \<Rightarrow> waiter_list) \<Rightarrow> core_levels \<Rightarrow> bool" where
  "sys_ok ph s w L \<longleftrightarrow> conc_rel ph s w L \<and> abs_inv (view ph s w L)"

text \<open>What the invariant does not look at: slices, reschedule flags and interrupts.\<close>

definition same_core :: "sched \<Rightarrow> sched \<Rightarrow> bool" where
  "same_core s s' \<longleftrightarrow> tasks s' = tasks s \<and> current_slot s' = current_slot s \<and> current_process s' = current_process s
     \<and> runnable_tasks_count s' = runnable_tasks_count s \<and> run_queues s' = run_queues s"

lemma same_core_refl [simp]: "same_core s s"
  by (simp add: same_core_def)

lemma same_coreD:
  assumes "same_core s s'"
  shows "view ph s' w L = view ph s w L" "conc_rel ph s' w L = conc_rel ph s w L"
  using assms by (simp_all add: same_core_def view_def conc_rel_def cur_rel_def cong: option.case_cong)

lemma sys_okD:
  assumes "sys_ok ph s w L"
  shows "tables_rel (tasks s) (run_queues s) L" "cur_rel ph s" "place_inv (view ph s w L)"
    "slot_inv (view ph s w L)" "run_inv (view ph s w L)" "ref_inv (view ph s w L)"
  using assms by (auto simp: sys_ok_def conc_rel_def abs_inv_def)

definition steps_to ::
    "(nat \<Rightarrow> core_phase) \<Rightarrow> sched \<Rightarrow> (nat \<Rightarrow> waiter_list) \<Rightarrow> core_levels \<Rightarrow>
     (nat \<Rightarrow> core_phase) \<Rightarrow> sched \<Rightarrow> (nat \<Rightarrow> waiter_list) \<Rightarrow> bool" where
  "steps_to ph s w L ph' s' w' \<longleftrightarrow>
     (\<exists>L'. conc_rel ph' s' w' L' \<and> abs_step\<^sup>*\<^sup>* (view ph s w L) (view ph' s' w' L'))"

lemma steps_to_ok: "sys_ok ph s w L \<Longrightarrow> steps_to ph s w L ph' s' w' \<Longrightarrow> \<exists>L'. sys_ok ph' s' w' L'"
  unfolding steps_to_def sys_ok_def using abs_steps_inv by blast

lemma steps_toI: "conc_rel ph' s' w' L' \<Longrightarrow> abs_step\<^sup>*\<^sup>* (view ph s w L) (view ph' s' w' L') \<Longrightarrow> steps_to ph s w L ph' s' w'"
  unfolding steps_to_def by blast

lemma steps_to_refl: "sys_ok ph s w L \<Longrightarrow> steps_to ph s w L ph s w"
  by (auto simp: sys_ok_def intro: steps_toI)

lemma steps_to_step:
  "conc_rel ph' s' w' L' \<Longrightarrow> abs_step (view ph s w L) (view ph' s' w' L') \<Longrightarrow> steps_to ph s w L ph' s' w'"
  by (auto intro: steps_toI)

lemma current_slot_ok:
  assumes "cur_rel ph s" "c < MAX_CORES"
  shows "current_slot s c = INVALID_SLOT \<or> current_slot s c < MAX_TASKS"
  using assms by (auto simp: cur_rel_def split: option.splits)

lemma current_of:
  assumes "cur_rel ph s" "c < MAX_CORES" "phase_task (ph c) = Some i"
  shows "current_slot s c = i" "current_process s c = ts_pid (tasks s i)" "i < MAX_TASKS"
  using assms by (auto simp: cur_rel_def)

lemma call_defs:
  "require p = (\<lambda>s. if p s then (Ok (), s) else (Panic, s))" "modify f = (\<lambda>s. (Ok (), f s))"
  "reading g = (\<lambda>s. g s s)"
  by (simp_all add: require_def modify_def reading_def)

lemmas kcall_simps = bind_def ret_def require_def modify_def reading_def core_in_range_def slot_in_range_def

section \<open>Queueing\<close>

lemma links_only_next_fields:
  assumes "links_only S t t'"
  shows "(\<lambda>i. ts_state (t' i)) = (\<lambda>i. ts_state (t i))" "(\<lambda>i. ts_pid (t' i)) = (\<lambda>i. ts_pid (t i))"
    "(\<lambda>i. ts_priority (t' i)) = (\<lambda>i. ts_priority (t i))" "(\<lambda>i. ts_home_core (t' i)) = (\<lambda>i. ts_home_core (t i))"
    "(\<lambda>i. ts_on_cpu (t' i)) = (\<lambda>i. ts_on_cpu (t i))" "(\<lambda>i. ts_kill_pending (t' i)) = (\<lambda>i. ts_kill_pending (t i))"
  by (simp_all add: links_only_fields [OF assms])

lemma push_sim:
  assumes rel: "conc_rel ph s w L" and c: "c < MAX_CORES" and p: "p \<le> 7"
    and i: "i < MAX_TASKS" "\<And>d. d < MAX_CORES \<Longrightarrow> i \<notin> queued L d"
  obtains s' L' where "on_run_queue c (push_task e i p) s = (Ok (), s')" "conc_rel ph s' w L'"
    "view ph s' w L' = (view ph s w L)\<lparr>av_q := (queued L)(c := insert i (queued L c))\<rparr>"
    "\<And>ph. cur_rel ph s \<Longrightarrow> cur_rel ph s'" "runnable_tasks_count s' = runnable_tasks_count s"
    "\<And>j. ts_priority (tasks s' j) = ts_priority (tasks s j)"
    "L' = L(c := (L c)(e := (L c e)(p := L c e p @ [i])))"
proof -
  obtain rq' t' L' where push: "push_task e i p (run_queues s c) (tasks s) = Ok (rq', t')"
    and t': "tables_rel t' ((run_queues s)(c := rq')) L'" "links_only UNIV (tasks s) t'"
      "queued L' = (queued L)(c := insert i (queued L c))" "sleeper_arr rq' = sleeper_arr (run_queues s c)"
      "L' = L(c := (L c)(e := (L c e)(p := L c e p @ [i])))"
    using push_task_sim [OF _ c p i, of "tasks s" "run_queues s" e] rel by (auto simp: conc_rel_def)
  let ?s = "s\<lparr>run_queues := (run_queues s)(c := rq'), tasks := t'\<rparr>"
  note f = links_only_next_fields [OF t'(2)] links_only_fields [OF t'(2)]
  have cur: "cur_rel ph ?s" if "cur_rel ph s" for ph
    using that by (simp add: cur_rel_def f cong: option.case_cong)
  have "conc_rel ph ?s w L'" using rel t' cur [of ph] by (simp add: conc_rel_def)
  moreover have "view ph ?s w L' = (view ph s w L)\<lparr>av_q := (queued L)(c := insert i (queued L c))\<rparr>"
    using t'(3,4) list_refs_cong [of "(run_queues s)(c := rq')" "run_queues s" w] by (simp add: view_def f)
  ultimately show ?thesis using that [of ?s L'] push cur t'(5) f by (simp add: on_run_queue_def)
qed

lemma push_task_def': "push_executing_task = push_task True" "push_yielding_task = push_task False"
  by (simp_all add: push_task_def)

lemma conc_rel_run: "conc_rel ph (s\<lparr>runnable_tasks_count := n\<rparr>) w L = conc_rel ph s w L"
  by (simp add: conc_rel_def cur_rel_def cong: option.case_cong)

lemma view_run: "view ph (s\<lparr>runnable_tasks_count := n\<rparr>) w L = (view ph s w L)\<lparr>av_run := n\<rparr>"
  by (simp add: view_def)

lemma same_core_flags [simp]:
  "same_core s (s\<lparr>should_be_rescheduled := f\<rparr>)" "same_core s (s\<lparr>sent_ipis := x\<rparr>)"
  "same_core s (s\<lparr>slice_remaining_ticks := g\<rparr>)" "same_core s (set_slice c n s)"
  by (simp_all add: same_core_def set_slice_def)

lemma enqueue_sim:
  assumes rel: "conc_rel ph s w L" and c: "core < MAX_CORES" and p: "p \<le> 7"
    and i: "i < MAX_TASKS" "\<And>d. d < MAX_CORES \<Longrightarrow> i \<notin> queued L d"
  obtains s' L' where "core_enqueue_ready_task me core i p s = (Ok (), s')" "conc_rel ph s' w L'"
    "view ph s' w L' = (view ph s w L)\<lparr>av_q := (queued L)(core := insert i (queued L core)),
       av_run := (runnable_tasks_count s)(core := runnable_tasks_count s core + 1)\<rparr>"
proof -
  let ?s = "add_runnable core s"
  have r1: "conc_rel ph ?s w L" using rel by (simp add: add_runnable_def conc_rel_run)
  obtain s' L' where push: "on_run_queue core (push_task True i p) ?s = (Ok (), s')" and r2: "conc_rel ph s' w L'"
    and v: "view ph s' w L' = (view ph ?s w L)\<lparr>av_q := (queued L)(core := insert i (queued L core))\<rparr>"
    using push_sim [OF r1 c p i] by metis
  have ok: "current_slot s' core = INVALID_SLOT \<or> current_slot s' core < MAX_TASKS"
    using current_slot_ok r2 c by (auto simp: conc_rel_def)
  have run: "\<exists>s2. core_enqueue_ready_task me core i p s = (Ok (), s2) \<and> same_core s' s2"
    using push c ok by (auto simp: core_enqueue_ready_task_def kcall_simps push_task_def' get_current_slot_for_core_def
        mark_core_for_reschedule_def send_reschedule_ipi_def split: if_splits)
  then obtain s2 where "core_enqueue_ready_task me core i p s = (Ok (), s2)" "same_core s' s2" by blast
  then show ?thesis
    using that [of s2 L'] same_coreD [of s' s2 ph w L'] r2 v by (simp add: add_runnable_def view_run)
qed

section \<open>Waking\<close>

lemma view_update_task:
  "view ph (update_task i f s) w L = (view ph s w L)
     \<lparr>av_state := (\<lambda>j. ts_state (tasks s j))(i := ts_state (f (tasks s i))),
      av_pid := (\<lambda>j. ts_pid (tasks s j))(i := ts_pid (f (tasks s i))),
      av_home := (\<lambda>j. ts_home_core (tasks s j))(i := ts_home_core (f (tasks s i))),
      av_prio := (\<lambda>j. ts_priority (tasks s j))(i := ts_priority (f (tasks s i))),
      av_on := (\<lambda>j. ts_on_cpu (tasks s j))(i := ts_on_cpu (f (tasks s i))),
      av_kill := (\<lambda>j. ts_kill_pending (tasks s j))(i := ts_kill_pending (f (tasks s i)))\<rparr>"
  by (simp add: view_def update_task_def fun_eq_iff)

lemma conc_rel_update_task:
  assumes "conc_rel ph s w L" "ts_next (f (tasks s i)) = ts_next (tasks s i)" "ts_pid (f (tasks s i)) = ts_pid (tasks s i)"
  shows "conc_rel ph (update_task i f s) w L"
proof -
  have "cur_rel ph (update_task i f s)"
    using assms by (auto simp: conc_rel_def cur_rel_def update_task_def split: option.splits)
  moreover have "tables_rel (tasks (update_task i f s)) (run_queues s) L"
    by (rule tables_rel_cong [of "tasks s" "run_queues s"]) (use assms in \<open>auto simp: conc_rel_def update_task_def\<close>)
  ultimately show ?thesis using assms(1) by (simp add: conc_rel_def update_task_def)
qed

lemma not_queued:
  assumes "place_inv (view ph s w L)" "ts_state (tasks s i) \<noteq> Ready" "d < MAX_CORES"
  shows "i \<notin> queued L d"
  using not_in_queue [OF assms(1,3), of i] assms(2) by simp

definition wake_view :: "nat \<Rightarrow> aview \<Rightarrow> aview" where
  "wake_view i a = a\<lparr>av_state := (av_state a)(i := Ready),
     av_q := (av_q a)(av_home a i := insert i (av_q a (av_home a i))),
     av_run := (av_run a)(av_home a i := av_run a (av_home a i) + 1)\<rparr>"

lemma wake_view_step:
  "i < MAX_TASKS \<Longrightarrow> av_state a i = Blocked \<Longrightarrow> av_kill a i \<or> in_no_list a i \<Longrightarrow> abs_step a (wake_view i a)"
  unfolding wake_view_def by (rule abs_step.wake) auto

lemma wake_view_refs:
  "in_no_list (wake_view i a) = in_no_list a" "av_kill (wake_view i a) = av_kill a"
  "av_pid (wake_view i a) = av_pid a" "av_lists (wake_view i a) = av_lists a"
  by (simp_all add: wake_view_def in_no_list_def av_ref_def fun_eq_iff)

lemma wake_task_stale:
  "tr_slot r < MAX_TASKS \<Longrightarrow> stale (tasks s) r \<Longrightarrow> wake_task me r s = (Ok (), s)"
  by (simp add: wake_task_def kcall_simps stale_def)

lemma wake_task_live:
  assumes ok: "sys_ok ph s w L" and r: "tr_slot r < MAX_TASKS" "\<not> stale (tasks s) r"
  obtains s' L' where "wake_task me r s = (Ok (), s')" "conc_rel ph s' w L'"
    "view ph s' w L' = wake_view (tr_slot r) (view ph s w L)"
proof -
  let ?i = "tr_slot r"
  let ?s = "update_task ?i (\<lambda>task. snd (transition Blocked Ready task)) s"
  note inv = sys_okD [OF ok]
  have b: "ts_state (tasks s ?i) = Blocked" "ts_pid (tasks s ?i) = tr_pid r" using r by (auto simp: stale_def)
  have r1: "conc_rel ph ?s w L" by (rule conc_rel_update_task) (use ok b in \<open>auto simp: sys_ok_def\<close>)
  have p: "ts_priority (tasks s ?i) \<le> 7" "ts_home_core (tasks s ?i) < MAX_CORES"
    using slotD(2) [OF inv(4) r(1)] b by auto
  have nq: "?i \<notin> queued L d" if "d < MAX_CORES" for d
    by (rule not_queued [OF inv(3) _ that]) (simp add: b)
  let ?h = "ts_home_core (tasks s ?i)"
  obtain s' L' where e: "core_enqueue_ready_task me ?h ?i (ts_priority (tasks s ?i)) ?s = (Ok (), s')"
    "conc_rel ph s' w L'" "view ph s' w L' = (view ph ?s w L)
       \<lparr>av_q := (queued L)(?h := insert ?i (queued L ?h)),
        av_run := (runnable_tasks_count ?s)(?h := runnable_tasks_count ?s ?h + 1)\<rparr>"
    using enqueue_sim [OF r1 p(2,1) r(1) nq] by metis
  have "view ph s' w L' = wake_view ?i (view ph s w L)"
    unfolding e(3) view_update_task by (auto simp: wake_view_def view_def b update_task_def fun_eq_iff)
  with that [of s' L'] e(1,2) r b show ?thesis by (simp add: wake_task_def kcall_simps)
qed

lemma wake_task_sim:
  assumes ok: "sys_ok ph s w L" and r: "tr_slot r < MAX_TASKS"
    and g: "\<not> stale (tasks s) r \<Longrightarrow> ts_kill_pending (tasks s (tr_slot r)) \<or> in_no_list (view ph s w L) (tr_slot r)"
  obtains s' L' where "wake_task me r s = (Ok (), s')" "sys_ok ph s' w L'"
    "abs_step\<^sup>*\<^sup>* (view ph s w L) (view ph s' w L')"
    "view ph s' w L' = view ph s w L \<or> view ph s' w L' = wake_view (tr_slot r) (view ph s w L)"
proof (cases "stale (tasks s) r")
  case True
  then show ?thesis using that [of s L] wake_task_stale [OF r True] ok by simp
next
  case False
  obtain s' L' where w: "wake_task me r s = (Ok (), s')" "conc_rel ph s' w L'"
    "view ph s' w L' = wake_view (tr_slot r) (view ph s w L)"
    using wake_task_live [OF ok r False] .
  have "abs_step (view ph s w L) (view ph s' w L')"
    unfolding w(3) by (rule wake_view_step) (use r g [OF False] False in \<open>auto simp: stale_def\<close>)
  moreover from this ok have "abs_inv (view ph s' w L')" by (auto simp: sys_ok_def intro: abs_step_inv)
  ultimately show ?thesis using that [OF w(1), of L'] w(2,3) by (auto simp: sys_ok_def)
qed

lemma wake_each_sim:
  assumes "sys_ok ph s w L" "\<And>r. r \<in> set rs \<Longrightarrow> tr_slot r < MAX_TASKS"
    and "\<And>r. r \<in> set rs \<Longrightarrow> ts_pid (tasks s (tr_slot r)) = tr_pid r \<Longrightarrow>
      ts_kill_pending (tasks s (tr_slot r)) \<or> in_no_list (view ph s w L) (tr_slot r)"
  shows "\<exists>s'. wake_each me rs s = (Ok (), s') \<and> steps_to ph s w L ph s' w"
  using assms
proof (induction rs arbitrary: s L)
  case Nil
  then show ?case using steps_to_refl by (simp add: kcall_simps)
next
  case (Cons r rs)
  obtain s' L' where w: "wake_task me r s = (Ok (), s')" "sys_ok ph s' w L'"
    "abs_step\<^sup>*\<^sup>* (view ph s w L) (view ph s' w L')"
    "view ph s' w L' = view ph s w L \<or> view ph s' w L' = wake_view (tr_slot r) (view ph s w L)"
    by (rule wake_task_sim [OF Cons.prems(1), of r me])
      (use Cons.prems(2,3) in \<open>auto simp: stale_def\<close>)
  have same: "av_kill (view ph s' w L') = av_kill (view ph s w L)" "av_pid (view ph s' w L') = av_pid (view ph s w L)"
    "in_no_list (view ph s' w L') = in_no_list (view ph s w L)"
    using w(4) wake_view_refs by metis+
  have "ts_pid (tasks s' j) = ts_pid (tasks s j)" "ts_kill_pending (tasks s' j) = ts_kill_pending (tasks s j)" for j
    using fun_cong [OF same(1), of j] fun_cong [OF same(2), of j] by simp_all
  with Cons.IH [OF w(2)] Cons.prems(2,3) same(3) obtain s2 where
    "wake_each me rs s' = (Ok (), s2)" "steps_to ph s' w L' ph s2 w" by auto
  with w(1,3) show ?case by (auto simp: bind_Ok steps_to_def intro: rtranclp_trans)
qed

section \<open>Timer ticks\<close>

definition put_core :: "nat \<Rightarrow> core_run_queue \<Rightarrow> task_table \<Rightarrow> nat \<Rightarrow> sched \<Rightarrow> sched" where
  "put_core c rq t n s = s\<lparr>run_queues := (run_queues s)(c := rq), tasks := t,
     runnable_tasks_count := (runnable_tasks_count s)(c := n)\<rparr>"

lemma put_core_simps [simp]:
  "run_queues (put_core c rq t n s) c = rq" "tasks (put_core c rq t n s) = t"
  "runnable_tasks_count (put_core c rq t n s) c = n"
  "put_core c rq' t' n' (put_core c rq t n s) = put_core c rq' t' n' s"
  "put_core c (run_queues s c) (tasks s) (runnable_tasks_count s c) s = s"
  by (simp_all add: put_core_def)

lemma sleeper_arr_drop: "sleeper_arr (drop_sleeper i rq) = swap_remove_at i (sleeper_arr rq)"
  by (simp add: drop_sleeper_def sleeper_arr_def swap_remove_at_def)

lemma drop_sleeper_tab [simp]:
  "queue_tab (drop_sleeper i rq) e = queue_tab rq e" "executing_tasks (drop_sleeper i rq) = executing_tasks rq"
  "drop_sleeper i (rq\<lparr>executing_tasks := tab\<rparr>) = (drop_sleeper i rq)\<lparr>executing_tasks := tab\<rparr>"
  by (simp_all add: drop_sleeper_def swap_remove_at_def queue_tab_def)

text \<open>The array of sleepers of a core may be replaced by one with fewer entries.\<close>

lemma forget_sleepers:
  assumes ok: "sys_ok ph s w L" and c: "c < MAX_CORES"
    and rq: "\<And>e. queue_tab rq e = queue_tab (run_queues s c) e" "arr_wf sl_ref (sleeper_arr rq)"
      "sl_ref ` set (used (sleeper_arr rq)) \<subseteq> sl_ref ` set (used (sleeper_arr (run_queues s c)))"
  defines "s' \<equiv> s\<lparr>run_queues := (run_queues s)(c := rq)\<rparr>"
  shows "sys_ok ph s' w L" "abs_step (view ph s w L) (view ph s' w L)"
proof -
  have "list_refs (run_queues s') w l \<subseteq> list_refs (run_queues s) w l" for l
    using rq(3) by (cases l) (auto simp: s'_def)
  moreover have "view ph s' w L = (view ph s w L)\<lparr>av_lists := list_refs (run_queues s') w\<rparr>"
    by (simp add: view_def s'_def)
  ultimately show step: "abs_step (view ph s w L) (view ph s' w L)"
    using abs_step.forget [of "list_refs (run_queues s') w" "view ph s w L"] by simp
  have "cur_rel ph s'" using sys_okD(2) [OF ok] by (simp add: cur_rel_def s'_def cong: option.case_cong)
  moreover have "tables_rel (tasks s') (run_queues s') L"
    by (rule tables_rel_cong [OF sys_okD(1) [OF ok]]) (auto simp: s'_def rq(1))
  ultimately have "conc_rel ph s' w L" using ok rq(2) by (auto simp: sys_ok_def conc_rel_def s'_def)
  with step ok show "sys_ok ph s' w L" by (auto simp: sys_ok_def intro: abs_step_inv)
qed

lemma wake_sleeper_sim:
  assumes ok: "sys_ok ph s w L" and i: "i < MAX_TASKS" "ts_state (tasks s i) = Blocked" "ts_home_core (tasks s i) = c"
  obtains tab t' L' where
    "st_push i (ts_priority (tasks s i)) (executing_tasks (run_queues s c))
       ((tasks s)(i := snd (transition Blocked Ready (tasks s i)))) = Ok (tab, t')"
    "conc_rel ph (put_core c ((run_queues s c)\<lparr>executing_tasks := tab\<rparr>) t' (runnable_tasks_count s c + 1) s) w L'"
    "view ph (put_core c ((run_queues s c)\<lparr>executing_tasks := tab\<rparr>) t' (runnable_tasks_count s c + 1) s) w L'
       = wake_view i (view ph s w L)"
proof -
  let ?s = "update_task i (\<lambda>task. snd (transition Blocked Ready task)) s" and ?p = "ts_priority (tasks s i)"
  note inv = sys_okD [OF ok]
  have c: "c < MAX_CORES" "?p \<le> 7" using slotD(2) [OF inv(4) i(1)] i by auto
  have r1: "conc_rel ph ?s w L" by (rule conc_rel_update_task) (use ok i in \<open>auto simp: sys_ok_def\<close>)
  have nq: "i \<notin> queued L d" if "d < MAX_CORES" for d
    by (rule not_queued [OF inv(3) _ that]) (simp add: i)
  obtain s' L' where push: "on_run_queue c (push_task True i ?p) ?s = (Ok (), s')" "conc_rel ph s' w L'"
    "view ph s' w L' = (view ph ?s w L)\<lparr>av_q := (queued L)(c := insert i (queued L c))\<rparr>"
    using push_sim [OF r1 c i(1) nq] by metis
  then obtain tab t' where st: "st_push i ?p (executing_tasks (run_queues ?s c)) (tasks ?s) = Ok (tab, t')"
    "s' = ?s\<lparr>run_queues := (run_queues ?s)(c := (run_queues ?s c)\<lparr>executing_tasks := tab\<rparr>), tasks := t'\<rparr>"
    by (cases "st_push i ?p (executing_tasks (run_queues ?s c)) (tasks ?s)")
      (auto simp: on_run_queue_def push_task_def push_executing_task_def)
  let ?n = "(runnable_tasks_count s)(c := runnable_tasks_count s c + 1)"
  have put: "put_core c ((run_queues s c)\<lparr>executing_tasks := tab\<rparr>) t' (runnable_tasks_count s c + 1) s
      = s'\<lparr>runnable_tasks_count := ?n\<rparr>"
    by (simp add: st(2) put_core_def update_task_def)
  have "view ph (s'\<lparr>runnable_tasks_count := ?n\<rparr>) w L' = wake_view i (view ph s w L)"
    unfolding view_run push(3) view_update_task by (auto simp: wake_view_def view_def i fun_eq_iff)
  then show ?thesis
    using that [of tab t' L'] st(1) push(2) unfolding put by (simp add: conc_rel_run update_task_def)
qed

definition sleeper_at :: "nat \<Rightarrow> core_run_queue \<Rightarrow> task_ref" where
  "sleeper_at index rq = sl_ref (sleeping_tasks rq ! index)"

definition without_sleeper :: "nat \<Rightarrow> nat \<Rightarrow> sched \<Rightarrow> sched" where
  "without_sleeper index c s = s\<lparr>run_queues := (run_queues s)(c := drop_sleeper index (run_queues s c))\<rparr>"

lemma without_sleeper_simps [simp]:
  "tasks (without_sleeper index c s) = tasks s" "run_queues (without_sleeper index c s) c = drop_sleeper index (run_queues s c)"
  "runnable_tasks_count (without_sleeper index c s) = runnable_tasks_count s"
  "put_core c rq t n (without_sleeper index c s) = put_core c rq t n s"
  by (simp_all add: without_sleeper_def put_core_def)

lemma sleeper_entry:
  assumes ok: "sys_ok ph s w L" and c: "c < MAX_CORES" and idx: "index < sleeping_tasks_count (run_queues s c)"
  shows "sleeper_at index (run_queues s c) \<in> list_refs (run_queues s) w (Sleepers c)"
    and "tr_slot (sleeper_at index (run_queues s c)) < MAX_TASKS"
    and "sys_ok ph (without_sleeper index c s) w L"
    and "abs_step (view ph s w L) (view ph (without_sleeper index c s) w L)"
    and "sleeper_at index (run_queues s c) \<notin> list_refs (run_queues (without_sleeper index c s)) w (Sleepers c)"
proof -
  let ?arr = "sleeper_arr (run_queues s c)"
  have wf: "arr_wf sl_ref ?arr" using ok c by (simp add: sys_ok_def conc_rel_def)
  have idx': "index < snd ?arr" "snd ?arr \<le> length (fst ?arr)" using idx wf by (auto simp: arr_wf_def sleeper_arr_def)
  have at: "sl_ref (fst ?arr ! index) = sleeper_at index (run_queues s c)" by (simp add: sleeper_arr_def sleeper_at_def)
  have "fst ?arr ! index \<in> set (used ?arr)"
    using used_split(1) [OF idx'] by (metis in_set_dropD list.set_intros(1))
  from imageI [OF this, of sl_ref] show mem: "sleeper_at index (run_queues s c) \<in> list_refs (run_queues s) w (Sleepers c)"
    using c at by simp
  show "tr_slot (sleeper_at index (run_queues s c)) < MAX_TASKS"
    using refD(1) [OF sys_okD(6) [OF ok], unfolded view_fields, OF mem] by simp
  note swap = arr_wf_swap_remove [OF wf idx'(1), unfolded at]
  show "sys_ok ph (without_sleeper index c s) w L" "abs_step (view ph s w L) (view ph (without_sleeper index c s) w L)"
    unfolding without_sleeper_def
    by (rule forget_sleepers [OF ok c drop_sleeper_tab(1), of index, unfolded sleeper_arr_drop, OF swap(1),
          unfolded swap(2), OF Diff_subset])+
  show "sleeper_at index (run_queues s c) \<notin> list_refs (run_queues (without_sleeper index c s)) w (Sleepers c)"
    using c swap(2) by (simp add: sleeper_arr_drop)
qed

lemma due_sleeper_wakes:
  assumes ok: "sys_ok ph s w L" and c: "c < MAX_CORES" and idx: "index < sleeping_tasks_count (run_queues s c)"
    and live: "\<not> stale (tasks s) (sleeper_at index (run_queues s c))"
  defines "i \<equiv> tr_slot (sleeper_at index (run_queues s c))"
  obtains tab t' L' where
    "st_push i (ts_priority (tasks s i)) (executing_tasks (run_queues s c))
       ((tasks s)(i := snd (transition Blocked Ready (tasks s i)))) = Ok (tab, t')"
    "sys_ok ph (put_core c ((drop_sleeper index (run_queues s c))\<lparr>executing_tasks := tab\<rparr>) t' (runnable_tasks_count s c + 1) s) w L'"
    "abs_step\<^sup>*\<^sup>* (view ph s w L)
       (view ph (put_core c ((drop_sleeper index (run_queues s c))\<lparr>executing_tasks := tab\<rparr>) t' (runnable_tasks_count s c + 1) s) w L')"
proof -
  let ?r = "sleeper_at index (run_queues s c)" and ?s1 = "without_sleeper index c s"
  note entry = sleeper_entry [OF ok c idx] and inv = sys_okD [OF ok]
  have i: "i < MAX_TASKS" and b: "ts_state (tasks s i) = Blocked" "ts_pid (tasks s i) = tr_pid ?r"
    using live entry(2) by (auto simp: stale_def i_def)
  have ref: "av_ref (view ph s w L) i = ?r" "av_ref (view ph ?s1 w L) i = ?r" using b(2) by (simp_all add: av_ref_def i_def)
  have home: "ts_home_core (tasks s i) = c" using refD(3) [OF inv(6) i, of c] b ref entry(1) by simp
  let ?put = "\<lambda>tab t'. put_core c ((drop_sleeper index (run_queues s c))\<lparr>executing_tasks := tab\<rparr>) t' (runnable_tasks_count s c + 1) s"
  obtain tab t' L' where push: "st_push i (ts_priority (tasks s i)) (executing_tasks (run_queues s c))
      ((tasks s)(i := snd (transition Blocked Ready (tasks s i)))) = Ok (tab, t')"
    and s2: "conc_rel ph (?put tab t') w L'" "view ph (?put tab t') w L' = wake_view i (view ph ?s1 w L)"
    using wake_sleeper_sim [OF entry(3), of i c] i b home by auto
  have "?r \<notin> list_refs (run_queues ?s1) w l" if nk: "\<not> ts_kill_pending (tasks s i)" for l
  proof (cases "l = Sleepers c")
    case False
    then have "list_refs (run_queues ?s1) w l = list_refs (run_queues s) w l"
      by (cases l) (auto simp: without_sleeper_def)
    with refD(6) [OF inv(6) i, of l "Sleepers c"] nk ref entry(1) False show ?thesis by auto
  qed (use entry(5) in simp)
  then have "av_kill (view ph ?s1 w L) i \<or> in_no_list (view ph ?s1 w L) i" by (auto simp: in_no_list_def ref)
  with i b have "abs_step (view ph ?s1 w L) (view ph (?put tab t') w L')"
    unfolding s2(2) by (intro wake_view_step) auto
  with entry(4) have two: "abs_step\<^sup>*\<^sup>* (view ph s w L) (view ph (?put tab t') w L')"
    by (meson converse_rtranclp_into_rtranclp r_into_rtranclp)
  from that [OF push _ two] s2(1) abs_steps_inv [OF two] ok show ?thesis by (simp add: sys_ok_def)
qed

lemma wake_due_loop_sim:
  assumes "sys_ok ph s w L" "c < MAX_CORES" "index + rounds = sleeping_tasks_count (run_queues s c)"
  shows "\<exists>rq t n h'. wake_due_loop rounds now_us index (run_queues s c, tasks s, runnable_tasks_count s c, h) = Ok (rq, t, n, h')
    \<and> steps_to ph s w L ph (put_core c rq t n s) w"
  using assms
proof (induction rounds arbitrary: s L index h)
  case 0
  then show ?case by (auto intro!: exI simp: steps_to_refl)
next
  case (Suc rounds)
  let ?rq = "run_queues s c" and ?sl = "sleeping_tasks (run_queues s c) ! index"
  let ?i = "tr_slot (sl_ref ?sl)" and ?s1 = "without_sleeper index c s"
  note ok = Suc.prems(1) and c = Suc.prems(2)
  have idx: "index < sleeping_tasks_count ?rq" using Suc.prems(3) by simp
  note entry = sleeper_entry [OF ok c idx]
  have dec: "ref_is_stale (sl_ref ?sl) (tasks s) = Ok (stale (tasks s) (sl_ref ?sl))"
    using ref_is_stale_Ok [OF entry(2)] by (simp add: sleeper_at_def)
  have cnt: "index + rounds = sleeping_tasks_count (drop_sleeper index ?rq)"
    using Suc.prems(3) by (simp add: drop_sleeper_def swap_remove_at_def)
  consider "stale (tasks s) (sl_ref ?sl)" | "\<not> stale (tasks s) (sl_ref ?sl)" "now_us < sl_wake_time_us ?sl"
    | "\<not> stale (tasks s) (sl_ref ?sl)" "\<not> now_us < sl_wake_time_us ?sl" by blast
  then show ?case
  proof cases
    case 1
    then show ?thesis using Suc.IH [OF entry(3) c, of index h] cnt dec entry(4)
      by (fastforce simp: steps_to_def intro: converse_rtranclp_into_rtranclp)
  next
    case 2
    then show ?thesis using Suc.IH [OF ok c, of "index + 1" h] Suc.prems(3) dec by auto
  next
    case 3
    then have live: "\<not> stale (tasks s) (sleeper_at index ?rq)" by (simp add: sleeper_at_def)
    let ?h = "Some (case h of None \<Rightarrow> ts_priority (tasks s ?i) | Some p \<Rightarrow> max p (ts_priority (tasks s ?i)))"
    obtain tab t' L' where push: "st_push ?i (ts_priority (tasks s ?i)) (executing_tasks ?rq)
        ((tasks s)(?i := snd (transition Blocked Ready (tasks s ?i)))) = Ok (tab, t')"
      and s2: "sys_ok ph (put_core c ((drop_sleeper index ?rq)\<lparr>executing_tasks := tab\<rparr>) t' (runnable_tasks_count s c + 1) s) w L'"
        "abs_step\<^sup>*\<^sup>* (view ph s w L) (view ph (put_core c ((drop_sleeper index ?rq)\<lparr>executing_tasks := tab\<rparr>) t' (runnable_tasks_count s c + 1) s) w L')"
      using due_sleeper_wakes [OF ok c idx live] unfolding sleeper_at_def by blast
    have b: "ts_state (tasks s ?i) = Blocked" using 3 by (simp add: stale_def)
    show ?thesis using Suc.IH [OF s2(1) c, of index ?h] cnt dec 3 push b s2(2)
      by (fastforce simp: wake_sleeper_def Let_def steps_to_def intro: rtranclp_trans)
  qed
qed

lemma steps_to_same_core: "same_core s' s'' \<Longrightarrow> steps_to ph s w L ph' s'' w' = steps_to ph s w L ph' s' w'"
  by (simp add: steps_to_def same_coreD)

lemma steps_to_cur: "steps_to ph s w L ph' s' w' \<Longrightarrow> cur_rel ph' s'"
  by (auto simp: steps_to_def conc_rel_def)

lemma steps_to_cpu_ticks:
  assumes "steps_to ph s w L ph' s' w'"
  shows "steps_to ph s w L ph' (update_task i (\<lambda>task. task\<lparr>ts_cpu_ticks := ts_cpu_ticks task + 1\<rparr>) s') w'"
proof -
  let ?s = "update_task i (\<lambda>task. task\<lparr>ts_cpu_ticks := ts_cpu_ticks task + 1\<rparr>) s'"
  have "view ph' ?s w' L' = view ph' s' w' L'" for L'
    unfolding view_update_task by (auto simp: view_def fun_eq_iff)
  moreover have "conc_rel ph' ?s w' L'" if "conc_rel ph' s' w' L'" for L'
    by (rule conc_rel_update_task [OF that]) auto
  ultimately show ?thesis using assms by (auto simp: steps_to_def)
qed

lemma wake_due_sleeping_tasks_sim:
  assumes ok: "sys_ok ph s w L" and c: "c < MAX_CORES"
  shows "\<exists>s'. wake_due_sleeping_tasks now_us c s = (Ok (), s') \<and> steps_to ph s w L ph s' w"
proof -
  obtain rq t n h where run: "wake_due_loop (sleeping_tasks_count (run_queues s c)) now_us 0
      (run_queues s c, tasks s, runnable_tasks_count s c, None) = Ok (rq, t, n, h)"
    and st: "steps_to ph s w L ph (put_core c rq t n s) w"
    using wake_due_loop_sim [OF ok c, of 0] by fastforce
  have cur: "current_slot (put_core c rq t n s) c = INVALID_SLOT \<or> current_slot (put_core c rq t n s) c < MAX_TASKS"
    using steps_to_cur [OF st] c by (rule current_slot_ok)
  have "\<exists>s'. wake_due_sleeping_tasks now_us c s = (Ok (), s') \<and> same_core (put_core c rq t n s) s'"
    using run c cur unfolding put_core_def
    by (auto simp: wake_due_sleeping_tasks_def rq_wake_due_sleeping_tasks_def kcall_simps Let_def
        mark_core_for_reschedule_def split: option.splits)
  with st show ?thesis using steps_to_same_core by blast
qed

lemma tick_sim:
  assumes ok: "sys_ok ph s w L" and c: "c < MAX_CORES"
  shows "\<exists>s'. on_timer_tick now_us c s = (Ok (), s') \<and> steps_to ph s w L ph s' w"
proof -
  obtain s1 where w: "wake_due_sleeping_tasks now_us c s = (Ok (), s1)" "steps_to ph s w L ph s1 w"
    using wake_due_sleeping_tasks_sim [OF ok c] by blast
  let ?i = "current_slot s1 c"
  let ?s2 = "update_task ?i (\<lambda>task. task\<lparr>ts_cpu_ticks := ts_cpu_ticks task + 1\<rparr>) s1"
  consider "?i = INVALID_SLOT" | "?i < MAX_TASKS" "?i \<noteq> INVALID_SLOT" using current_slot_ok [OF steps_to_cur [OF w(2)] c] by auto
  then show ?thesis
  proof cases
    case 1
    then show ?thesis using w c by (auto simp: on_timer_tick_def kcall_simps get_current_slot_for_core_def)
  next
    case 2
    then have "\<exists>s'. on_timer_tick now_us c s = (Ok (), s') \<and> same_core ?s2 s'"
      using w(1) c by (auto simp: on_timer_tick_def kcall_simps get_current_slot_for_core_def mark_core_for_reschedule_def
          same_core_def set_slice_def)
    with steps_to_cpu_ticks [OF w(2), of ?i] show ?thesis using steps_to_same_core by blast
  qed
qed

end
