(* ===== verification/Sched_Actions.thy ===== *)
theory Sched_Actions
  imports Sched_System
begin

text \<open>
  Each operation that a core, a task or an interrupt starts, from a state that satisfies the
  invariant: it returns, and what it does are steps of \<open>Sched_Spec\<close>.
\<close>

section \<open>Giving up the core\<close>

lemma conc_rel_phase:
  "phase_task p = phase_task (ph c) \<Longrightarrow> conc_rel (ph(c := p)) s w L = conc_rel ph s w L"
  by (auto simp: conc_rel_def cur_rel_def)

lemma view_phase: "view (ph(c := p)) s w L = (view ph s w L)\<lparr>av_ph := ph(c := p)\<rparr>"
  by (simp add: view_def)

lemma occupied:
  assumes ok: "sys_ok ph s w L" and c: "c < MAX_CORES" "phase_task (ph c) = Some i"
  shows "current_slot s c = i" "current_process s c = ts_pid (tasks s i)" "i < MAX_TASKS" "i \<noteq> INVALID_SLOT"
    "ts_home_core (tasks s i) = c" "ts_on_cpu (tasks s i)" "ts_state (tasks s i) \<noteq> Free"
    "ts_priority (tasks s i) \<le> 7"
proof -
  show cur: "current_slot s c = i" "current_process s c = ts_pid (tasks s i)" "i < MAX_TASKS"
    by (rule current_of [OF sys_okD(2) [OF ok] c])+
  then show "i \<noteq> INVALID_SLOT" by simp
  show p: "ts_home_core (tasks s i) = c" "ts_on_cpu (tasks s i)" "ts_state (tasks s i) \<noteq> Free"
    using placeD(3) [OF sys_okD(3) [OF ok] c(1), of i] c(2) by auto
  show "ts_priority (tasks s i) \<le> 7" using slotD(2) [OF sys_okD(4) [OF ok] cur(3)] p by auto
qed

lemma running_phase:
  assumes ok: "sys_ok ph s w L" and c: "c < MAX_CORES" "phase_task (ph c) = Some i" "ts_state (tasks s i) = Running"
  shows "ph c \<in> {InTask i, Checked i}"
  using placeD(5) [OF sys_okD(3) [OF ok], of i] occupied [OF ok c(1,2)] c(3) by simp

lemma switch_sim:
  assumes ok: "sys_ok ph s w L" and c: "c < MAX_CORES" "phase_task (ph c) = Some i"
  shows "\<exists>s'. core_switch_executing_yielding c q s = (Ok (), s') \<and> steps_to ph s w L (ph(c := Leaving i)) s' w"
proof -
  note occ = occupied [OF ok c]
  have phase: "conc_rel (ph(c := Leaving i)) s' w L' = conc_rel ph s' w L'" for s' L'
    by (rule conc_rel_phase) (simp add: c(2))
  show ?thesis
  proof (cases "ts_state (tasks s i) = Running")
    case False
    have "abs_step (view ph s w L) (view (ph(c := Leaving i)) s w L)"
      unfolding view_phase using abs_step.switch_out [of c "view ph s w L" i] c False by simp
    moreover have "core_switch_executing_yielding c q s = (Ok (), s)"
      using False c occ by (simp add: core_switch_executing_yielding_def kcall_simps get_current_slot_for_core_def)
    ultimately show ?thesis using ok phase by (auto simp: sys_ok_def intro!: steps_to_step)
  next
    case True
    let ?s = "update_task i (\<lambda>task. snd (transition Running Ready task)) s"
    let ?e = "q = ExecutingTasks"
    have r1: "conc_rel ph ?s w L" by (rule conc_rel_update_task) (use ok True in \<open>auto simp: sys_ok_def\<close>)
    have nq: "i \<notin> queued L d" if "d < MAX_CORES" for d
      by (rule not_queued [OF sys_okD(3) [OF ok] _ that]) (simp add: True)
    obtain s' L' where push: "on_run_queue c (push_task ?e i (ts_priority (tasks s i))) ?s = (Ok (), s')"
      "conc_rel ph s' w L'" "view ph s' w L' = (view ph ?s w L)\<lparr>av_q := (queued L)(c := insert i (queued L c))\<rparr>"
      using push_sim [OF r1 c(1) occ(8,3) nq] by metis
    have "core_switch_executing_yielding c q s = on_run_queue c (push_task ?e i (ts_priority (tasks s i))) ?s"
      using True c occ
      by (cases q) (auto simp: core_switch_executing_yielding_def kcall_simps get_current_slot_for_core_def push_task_def update_task_def)
    with push(1) have run: "core_switch_executing_yielding c q s = (Ok (), s')" by simp
    have "view (ph(c := Leaving i)) s' w L' = (view ph s w L)\<lparr>av_state := (av_state (view ph s w L))(i := Ready),
        av_ph := ph(c := Leaving i), av_q := (queued L)(c := insert i (queued L c))\<rparr>"
      unfolding view_phase push(3) view_update_task by (auto simp: view_def True fun_eq_iff)
    then have "abs_step (view ph s w L) (view (ph(c := Leaving i)) s' w L')"
      using abs_step.requeue [of c "view ph s w L" i] c running_phase [OF ok c True] True by simp
    with run push(2) phase show ?thesis by (auto intro!: steps_to_step)
  qed
qed

lemma core_run_scheduling_sim:
  assumes "sys_ok ph s w L" "c < MAX_CORES" "phase_task (ph c) = Some i"
  shows "\<exists>s'. core_run_scheduling c s = (Ok (), s') \<and> steps_to ph s w L (ph(c := Leaving i)) s' w"
  using switch_sim [OF assms] assms(2) by (simp add: core_run_scheduling_def kcall_simps)

lemma yield_sim:
  assumes "sys_ok ph s w L" "c < MAX_CORES" "phase_task (ph c) = Some i"
  shows "\<exists>r s'. core_yield_executing_tasks c s = (Ok r, s')
    \<and> steps_to ph s w L (if r then ph(c := Leaving i) else ph) s' w"
  using switch_sim [OF assms, of YieldingTasks] assms steps_to_refl [OF assms(1)]
  by (auto simp: core_yield_executing_tasks_def core_runnable_tasks_count_def kcall_simps)

section \<open>Running a task\<close>

lemma leave_sim:
  assumes ok: "sys_ok ph s w L" and c: "c < MAX_CORES" "ph c = Leaving i"
  shows "\<exists>s'. run_task_leave c i s = (Ok (), s') \<and> steps_to ph s w L (ph(c := InLoop)) s' w"
proof -
  have c': "phase_task (ph c) = Some i" using c by simp
  note occ = occupied [OF ok c(1) c']
  have rel: "tables_rel (tasks s) (run_queues s) L" "cur_rel ph s" and conc: "conc_rel ph s w L"
    using ok by (auto simp: sys_ok_def conc_rel_def)
  define f :: "task_slot \<Rightarrow> task_slot" where "f = (\<lambda>task. if ts_state task = Dead
    then task\<lparr>ts_on_cpu := False, ts_pid := INVALID_PID, ts_state := Free\<rparr> else task\<lparr>ts_on_cpu := False\<rparr>)"
  define s' where "s' = (update_task i f s)\<lparr>current_slot := (current_slot s)(c := INVALID_SLOT),
    current_process := (current_process s)(c := INVALID_PID)\<rparr>"
  have run: "run_task_leave c i s = (Ok (), s')"
    using c occ by (auto simp: run_task_leave_def kcall_simps set_current_task_for_core_def release_task_slot_def
        update_task_def set_state_def f_def s'_def)
  have other: "j \<noteq> i" if "d < MAX_CORES" "d \<noteq> c" "phase_task (ph d) = Some j" for d j
    using occupied(5) [OF ok that(1,3)] occ(5) that(2) by auto
  have "cur_rel (ph(c := InLoop)) s'"
    using rel(2) other by (auto simp: cur_rel_def s'_def update_task_def split: option.splits)
  moreover have "tables_rel (tasks s') (run_queues s') L"
    by (rule tables_rel_cong [OF rel(1)]) (auto simp: s'_def update_task_def f_def)
  ultimately have r': "conc_rel (ph(c := InLoop)) s' w L" using conc by (simp add: conc_rel_def s'_def update_task_def)
  have "abs_step (view ph s w L) (view (ph(c := InLoop)) s' w L)"
  proof (cases "ts_state (tasks s i) = Dead")
    case True
    have "view (ph(c := InLoop)) s' w L = (view ph s w L)\<lparr>av_on := (av_on (view ph s w L))(i := False), av_ph := ph(c := InLoop),
        av_state := (av_state (view ph s w L))(i := Free), av_pid := (av_pid (view ph s w L))(i := INVALID_PID)\<rparr>"
      by (auto simp: view_def s'_def update_task_def f_def True fun_eq_iff)
    then show ?thesis using abs_step.reap [of c "view ph s w L" i] c True by simp
  next
    case False
    have "view (ph(c := InLoop)) s' w L = (view ph s w L)\<lparr>av_on := (av_on (view ph s w L))(i := False), av_ph := ph(c := InLoop)\<rparr>"
      using False by (auto simp: view_def s'_def update_task_def f_def fun_eq_iff)
    then show ?thesis using abs_step.come_back [of c "view ph s w L" i] c False by simp
  qed
  with r' run show ?thesis by (auto intro!: steps_to_step)
qed

lemma steps_to_trans:
  "steps_to ph s w L ph' s' w' \<Longrightarrow> (\<And>L'. conc_rel ph' s' w' L' \<Longrightarrow> abs_inv (view ph' s' w' L') \<Longrightarrow> steps_to ph' s' w' L' ph'' s'' w'')
    \<Longrightarrow> abs_inv (view ph s w L) \<Longrightarrow> steps_to ph s w L ph'' s'' w''"
  unfolding steps_to_def using abs_steps_inv by (meson rtranclp_trans)

lemma enter_sim:
  assumes ok: "sys_ok ph s w L" and c: "c < MAX_CORES" "ph c = InLoop"
    and pick: "pick_next_task (run_queues s c) (tasks s) = Ok (i, rq')"
      "tables_rel (tasks s) ((run_queues s)(c := rq')) L'"
      "queued L' = (queued L)(c := queued L c - {i})" "i \<in> queued L c" "i < MAX_TASKS"
      "sleeper_arr rq' = sleeper_arr (run_queues s c)"
  shows "\<exists>s'. run_task_enter c i (s\<lparr>run_queues := (run_queues s)(c := rq')\<rparr>) = (Ok (), s')
    \<and> steps_to ph s w L (ph(c := InTask i)) s' w"
proof -
  let ?s = "s\<lparr>run_queues := (run_queues s)(c := rq')\<rparr>"
  have conc: "conc_rel ph s w L" "cur_rel ph s" using ok by (auto simp: sys_ok_def conc_rel_def)
  have q: "ts_state (tasks s i) = Ready" "ts_home_core (tasks s i) = c"
    using placeD(1) [OF sys_okD(3) [OF ok] c(1), of i] pick(4) by auto
  define s' where "s' = (update_task i (\<lambda>task. task\<lparr>ts_state := Running, ts_on_cpu := True\<rparr>) ?s)
    \<lparr>current_slot := (current_slot s)(c := i), current_process := (current_process s)(c := ts_pid (tasks s i))\<rparr>"
  have run: "\<exists>s2. run_task_enter c i ?s = (Ok (), s2) \<and> same_core s' s2"
    using c pick(5) q by (simp add: run_task_enter_def kcall_simps set_current_task_for_core_def update_task_def
        set_state_def s'_def same_core_def set_slice_def)
  have "cur_rel (ph(c := InTask i)) s'"
    using conc(2) pick(5) by (auto simp: cur_rel_def s'_def update_task_def split: option.splits)
  moreover have "tables_rel (tasks s') (run_queues s') L'"
    by (rule tables_rel_cong [OF pick(2)]) (auto simp: s'_def update_task_def)
  ultimately have r': "conc_rel (ph(c := InTask i)) s' w L'"
    using conc(1) pick(6) by (simp add: conc_rel_def s'_def update_task_def)
  have lists: "list_refs ((run_queues s)(c := rq')) w = list_refs (run_queues s) w"
    by (rule list_refs_cong) (simp add: pick(6))
  have "view (ph(c := InTask i)) s' w L' = (view ph s w L)\<lparr>av_state := (av_state (view ph s w L))(i := Running),
      av_on := (av_on (view ph s w L))(i := True), av_ph := ph(c := InTask i), av_q := (queued L)(c := queued L c - {i})\<rparr>"
    by (auto simp: view_def s'_def update_task_def fun_eq_iff pick(3) lists)
  then have "abs_step (view ph s w L) (view (ph(c := InTask i)) s' w L')"
    using abs_step.pick [of c "view ph s w L" i] c pick(4) by simp
  with r' have "steps_to ph s w L (ph(c := InTask i)) s' w" by (rule steps_to_step)
  with run show ?thesis using steps_to_same_core by blast
qed

section \<open>Stealing\<close>

lemma move_stolen_sim:
  assumes ok: "sys_ok ph s w L" and cd: "c < MAX_CORES" "d < MAX_CORES" "c \<noteq> d"
    and take: "tables_rel t' ((run_queues s)(d := rq')) L'" "queued L' = (queued L)(d := queued L d - {x})"
      "x \<in> queued L d" "x < MAX_TASKS" "\<not> ts_on_cpu (tasks s x)" "links_only UNIV (tasks s) t'"
      "sleeper_arr rq' = sleeper_arr (run_queues s d)"
  shows "\<exists>s'. move_stolen c d x (s\<lparr>run_queues := (run_queues s)(d := rq'), tasks := t'\<rparr>) = (Ok (), s')
    \<and> steps_to ph s w L ph s' w"
proof -
  let ?s = "s\<lparr>run_queues := (run_queues s)(d := rq'), tasks := t'\<rparr>"
  note f = links_only_next_fields [OF take(6)] links_only_fields [OF take(6)]
  have conc: "conc_rel ph s w L" "cur_rel ph s" using ok by (auto simp: sys_ok_def conc_rel_def)
  have q: "ts_state (tasks s x) = Ready" "ts_home_core (tasks s x) = d"
    using placeD(1) [OF sys_okD(3) [OF ok] cd(2), of x] take(3) by auto
  have p: "ts_priority (tasks s x) \<le> 7" using slotD(2) [OF sys_okD(4) [OF ok] take(4)] q by auto
  have "cur_rel ph ?s" using conc(2) by (simp add: cur_rel_def f cong: option.case_cong)
  then have r0: "conc_rel ph ?s w L'" using conc(1) take(1,7) by (simp add: conc_rel_def)
  let ?u = "\<lambda>task. task\<lparr>ts_home_core := c, ts_core_migration_count := ts_core_migration_count task + 1\<rparr>"
  let ?n = "(runnable_tasks_count s)(d := runnable_tasks_count s d - 1, c := runnable_tasks_count s c + 1)"
  define s1 where "s1 = (update_task x ?u ?s)\<lparr>runnable_tasks_count := ?n\<rparr>"
  have r1: "conc_rel ph s1 w L'" unfolding s1_def conc_rel_run by (rule conc_rel_update_task [OF r0]) auto
  have nq: "x \<notin> queued L' k" if "k < MAX_CORES" for k
    using placeD(1) [OF sys_okD(3) [OF ok] that, of x] q by (auto simp: take(2))
  obtain s' L2 where push: "on_run_queue c (push_task True x (ts_priority (tasks s x))) s1 = (Ok (), s')"
    "conc_rel ph s' w L2" "view ph s' w L2 = (view ph s1 w L')\<lparr>av_q := (queued L')(c := insert x (queued L' c))\<rparr>"
    using push_sim [OF r1 cd(1) p take(4) nq] by metis
  have run: "move_stolen c d x ?s = (Ok (), s')"
    using push(1) cd take(4) f
    by (simp add: s1_def move_stolen_def kcall_simps push_task_def' sub_runnable_def add_runnable_def update_task_def)
  have lists: "list_refs ((run_queues s)(d := rq')) w = list_refs (run_queues s) w"
    by (rule list_refs_cong) (simp add: take(7))
  have "view ph s' w L2 = (view ph s w L)\<lparr>av_home := (av_home (view ph s w L))(x := c),
      av_q := (queued L)(d := queued L d - {x}, c := insert x (queued L c)), av_run := ?n\<rparr>"
    unfolding push(3) s1_def view_run view_update_task using cd(3)
    by (auto simp: view_def fun_eq_iff f lists take(2))
  then have "abs_step (view ph s w L) (view ph s' w L2)"
    using abs_step.steal [of d c x "view ph s w L"] cd take(3,5) by simp
  with push(2) run show ?thesis by (auto intro!: steps_to_step)
qed

lemma steal_sim:
  assumes ok: "sys_ok ph s w L" and c: "c < MAX_CORES" and ds: "\<forall>d \<in> set ds. d < MAX_CORES"
  shows "\<exists>r s'. steal_from locked c ds s = (Ok r, s') \<and> steps_to ph s w L ph s' w"
  using ds
proof (induction ds)
  case Nil
  then show ?case using steps_to_refl [OF ok] by (auto simp: kcall_simps)
next
  case (Cons d ds)
  show ?case
  proof (cases "d = c \<or> runnable_tasks_count s d \<le> 1 \<or> locked d")
    case True
    then show ?thesis using Cons by simp
  next
    case False
    then have d: "d < MAX_CORES" "c \<noteq> d" using Cons.prems by auto
    show ?thesis
    proof (cases rule: take_stealable_sim [OF sys_okD(1) [OF ok] d(1)])
      case 1
      then have "steal_from locked c (d # ds) s = steal_from locked c ds s" using False by simp
      with Cons show ?thesis by simp
    next
      case (2 x rq' t' L')
      from move_stolen_sim [OF ok c d(1,2) 2(3,4,5,6,2,7,8)] obtain s' where
        "move_stolen c d x (s\<lparr>run_queues := (run_queues s)(d := rq'), tasks := t'\<rparr>) = (Ok (), s')"
        "steps_to ph s w L ph s' w" by blast
      then show ?thesis using False 2(1,6) by (auto simp: Let_def kcall_simps)
    qed
  qed
qed

lemma loop_round_sim:
  assumes ok: "sys_ok ph s w L" and c: "c < MAX_CORES" "ph c = InLoop"
  shows "\<exists>r s'. scheduler_loop_round locked c s = (Ok r, s')
    \<and> steps_to ph s w L (case r of Runs i \<Rightarrow> ph(c := InTask i) | _ \<Rightarrow> ph) s' w"
proof (cases rule: pick_next_task_sim [OF sys_okD(1) [OF ok] c(1)])
  case 1
  obtain r s' where "steal_from locked c [1..<MAX_CORES] s = (Ok r, s')" "steps_to ph s w L ph s' w"
    using steal_sim [OF ok c(1), of "[1..<MAX_CORES]" locked] by auto
  with 1 c show ?thesis
    by (auto simp: scheduler_loop_round_def kcall_simps Let_def try_steal_task_def WORK_STEALING_ENABLED_def)
next
  case (2 l x xs rq')
  obtain s' where "run_task_enter c x (s\<lparr>run_queues := (run_queues s)(c := rq')\<rparr>) = (Ok (), s')"
    "steps_to ph s w L (ph(c := InTask x)) s' w"
    using enter_sim [OF ok c 2(3,4,5,6,7,8)] by blast
  with 2(3,7) c show ?thesis by (auto simp: scheduler_loop_round_def kcall_simps Let_def)
qed

section \<open>Blocking\<close>

lemma kill_pending_eval:
  assumes "sys_ok ph s w L" "c < MAX_CORES" "phase_task (ph c) = Some i"
  shows "core_current_task_kill_pending c s = (Ok (ts_kill_pending (tasks s i)), s)"
    and "core_current_task_ref c s = (Ok \<lparr>tr_slot = i, tr_pid = ts_pid (tasks s i)\<rparr>, s)"
  using occupied [OF assms] assms(2)
  by (simp_all add: core_current_task_kill_pending_def core_current_task_ref_def get_current_slot_for_core_def
      get_current_process_for_core_def kcall_simps)

text \<open>Adding a reference to an array, after a purge when the array is full.\<close>

lemma push_room:
  assumes wf: "arr_wf f arr" and range: "\<And>x. x \<in> set (used arr) \<Longrightarrow> tr_slot (f x) < MAX_TASKS"
    and i: "i < MAX_TASKS" "ts_state (t i) \<noteq> Blocked" and new: "f y \<notin> f ` set (used arr)"
  obtains arr' where
    "(if snd arr = length (fst arr) then remove_stale_loop (snd arr) f t 0 arr else Ok arr) = Ok arr'"
    "\<not> length (fst arr') \<le> snd arr'" "arr_wf f ((fst arr')[snd arr' := y], snd arr' + 1)"
    "set (used ((fst arr')[snd arr' := y], snd arr' + 1)) = insert y (set (used arr'))"
    "set (used arr') \<subseteq> set (used arr)"
proof (cases "snd arr = length (fst arr)")
  case True
  obtain arr' where a: "remove_stale_loop (snd arr) f t 0 arr = Ok arr'" "arr_wf f arr'"
    "set (used arr') = {x \<in> set (used arr). \<not> stale t (f x)}"
    by (rule remove_stale_spec [OF wf range])
  have room: "snd arr' < MAX_TASKS" by (rule purged_has_room [OF a(2), of t i]) (use a(3) range i in auto)
  have "f y \<notin> f ` set (used (fst arr', snd arr'))" using new a(3) by auto
  from arr_wf_add [OF _ room this] a that [of arr'] room True show ?thesis by (auto simp: arr_wf_def)
next
  case False
  have room: "snd arr < MAX_TASKS" using False wf by (auto simp: arr_wf_def)
  from arr_wf_add [OF _ room, of f "fst arr" y] wf new that [of arr] room False show ?thesis by (auto simp: arr_wf_def)
qed

lemma waiters_push_sim:
  assumes "arr_wf (\<lambda>r. r) (waiter_arr wl)" "\<And>x. x \<in> set (used (waiter_arr wl)) \<Longrightarrow> tr_slot x < MAX_TASKS"
    and "i < MAX_TASKS" "ts_state (t i) \<noteq> Blocked" "r \<notin> set (used (waiter_arr wl))"
  obtains wl' R where "waiters_push r t wl = Ok wl'" "arr_wf (\<lambda>r. r) (waiter_arr wl')"
    "set (used (waiter_arr wl')) = insert r R" "R \<subseteq> set (used (waiter_arr wl))"
proof -
  obtain arr' where a: "(if snd (waiter_arr wl) = length (fst (waiter_arr wl))
        then remove_stale_loop (snd (waiter_arr wl)) (\<lambda>r. r) t 0 (waiter_arr wl) else Ok (waiter_arr wl)) = Ok arr'"
    "\<not> length (fst arr') \<le> snd arr'" "arr_wf (\<lambda>r. r) ((fst arr')[snd arr' := r], snd arr' + 1)"
    "set (used ((fst arr')[snd arr' := r], snd arr' + 1)) = insert r (set (used arr'))"
    "set (used arr') \<subseteq> set (used (waiter_arr wl))"
    using push_room [of "\<lambda>r. r" "waiter_arr wl" i t r] assms by auto
  let ?w = "\<lparr>waiters = (fst arr')[snd arr' := r], waiter_count = snd arr' + 1\<rparr>"
  have "waiters_push r t wl = Ok ?w"
    using a(1,2) by (cases arr') (auto simp: waiters_push_def waiters_remove_stale_def waiter_arr_def split: if_splits)
  with a that [of ?w "set (used arr')"] show ?thesis by (simp add: waiter_arr_def)
qed

lemma add_sleeping_task_sim:
  assumes "arr_wf sl_ref (sleeper_arr rq)" "\<And>x. x \<in> sl_ref ` set (used (sleeper_arr rq)) \<Longrightarrow> tr_slot x < MAX_TASKS"
    and "i < MAX_TASKS" "ts_state (t i) \<noteq> Blocked" "r \<notin> sl_ref ` set (used (sleeper_arr rq))"
  obtains rq' R where "add_sleeping_task r wake_us t rq = Ok rq'" "arr_wf sl_ref (sleeper_arr rq')"
    "sl_ref ` set (used (sleeper_arr rq')) = insert r R" "R \<subseteq> sl_ref ` set (used (sleeper_arr rq))"
    "\<And>e. queue_tab rq' e = queue_tab rq e"
proof -
  let ?y = "\<lparr>sl_ref = r, sl_wake_time_us = wake_us\<rparr>"
  obtain arr' where a: "(if snd (sleeper_arr rq) = length (fst (sleeper_arr rq))
        then remove_stale_loop (snd (sleeper_arr rq)) sl_ref t 0 (sleeper_arr rq) else Ok (sleeper_arr rq)) = Ok arr'"
    "\<not> length (fst arr') \<le> snd arr'" "arr_wf sl_ref ((fst arr')[snd arr' := ?y], snd arr' + 1)"
    "set (used ((fst arr')[snd arr' := ?y], snd arr' + 1)) = insert ?y (set (used arr'))"
    "set (used arr') \<subseteq> set (used (sleeper_arr rq))"
    using push_room [of sl_ref "sleeper_arr rq" i t ?y] assms by auto
  let ?rq = "rq\<lparr>sleeping_tasks := (fst arr')[snd arr' := ?y], sleeping_tasks_count := snd arr' + 1\<rparr>"
  have "add_sleeping_task r wake_us t rq = Ok ?rq"
    using a(1,2) by (cases arr') (auto simp: add_sleeping_task_def remove_stale_sleeping_tasks_def sleeper_arr_def split: if_splits)
  moreover have "sl_ref ` set (used (sleeper_arr ?rq)) = insert r (sl_ref ` set (used arr'))"
    using a(4) by (simp add: sleeper_arr_def)
  ultimately show ?thesis using that [of ?rq "sl_ref ` set (used arr')"] a(3,5)
    by (auto simp: sleeper_arr_def queue_tab_def)
qed

lemma blocked_run:
  assumes ok: "sys_ok ph s w L" and c: "c < MAX_CORES" "ph c = Checked i"
  shows "0 < runnable_tasks_count s c" "ts_state (tasks s i) = Running"
    "\<And>l. \<lparr>tr_slot = i, tr_pid = ts_pid (tasks s i)\<rparr> \<notin> list_refs (run_queues s) w l"
proof -
  show st: "ts_state (tasks s i) = Running" using checkedD [OF sys_okD(3) [OF ok] c(1)] c(2) by simp
  show "0 < runnable_tasks_count s c"
    using sys_okD(5) [OF ok] c st by (auto simp: run_inv_def)
  show "\<lparr>tr_slot = i, tr_pid = ts_pid (tasks s i)\<rparr> \<notin> list_refs (run_queues s) w l" for l
    using refD(4) [OF sys_okD(6) [OF ok] c(1), of i] c(2) by (simp add: in_no_list_def av_ref_def)
qed

definition block_running :: "nat \<Rightarrow> nat \<Rightarrow> sched \<Rightarrow> sched" where
  "block_running c i s = sub_runnable c (update_task i (\<lambda>task. snd (transition Running Blocked task)) s)"

lemma conc_rel_block:
  assumes "conc_rel ph s w L" "ts_state (tasks s i) = Running"
  shows "conc_rel ph (block_running c i s) w L"
  unfolding block_running_def sub_runnable_def conc_rel_run
  by (rule conc_rel_update_task) (use assms in auto)

lemma view_block:
  assumes "ts_state (tasks s i) = Running"
  shows "view ph (block_running c i s) w L = (view ph s w L)\<lparr>av_state := (av_state (view ph s w L))(i := Blocked),
    av_run := (runnable_tasks_count s)(c := runnable_tasks_count s c - 1)\<rparr>"
  unfolding block_running_def sub_runnable_def view_run view_update_task
  by (auto simp: view_def fun_eq_iff assms update_task_def)

lemma list_refs_waiters:
  "list_refs rqs (w(q := wl)) = (list_refs rqs w)(Waiters q := set (used (waiter_arr wl)))"
proof
  show "list_refs rqs (w(q := wl)) l = ((list_refs rqs w)(Waiters q := set (used (waiter_arr wl)))) l" for l
    by (cases l) auto
qed

lemma list_refs_sleepers:
  assumes "c < MAX_CORES"
  shows "list_refs (rqs(c := rq)) w = (list_refs rqs w)(Sleepers c := sl_ref ` set (used (sleeper_arr rq)))"
proof
  show "list_refs (rqs(c := rq)) w l = ((list_refs rqs w)(Sleepers c := sl_ref ` set (used (sleeper_arr rq)))) l" for l
    using assms by (cases l) auto
qed

lemma await_sim:
  assumes ok: "sys_ok ph s w L" and c: "c < MAX_CORES" "ph c = Checked i"
  shows "\<exists>wl s'. add_current_task_and_mark_blocked c (w q) s = (Ok wl, s')
    \<and> steps_to ph s w L (ph(c := Waiting i q)) s' (w(q := wl))"
proof -
  have c': "phase_task (ph c) = Some i" using c by simp
  note occ = occupied [OF ok c(1) c'] and run = blocked_run [OF ok c] and ref = kill_pending_eval(2) [OF ok c(1) c']
  let ?r = "\<lparr>tr_slot = i, tr_pid = ts_pid (tasks s i)\<rparr>"
  have conc: "conc_rel ph s w L" using ok by (simp add: sys_ok_def)
  have refs: "tr_slot x < MAX_TASKS" if "x \<in> set (used (waiter_arr (w q)))" for x
    using refD(1) [OF sys_okD(6) [OF ok], of x "Waiters q"] that by simp
  have wf: "arr_wf (\<lambda>r. r) (waiter_arr (w q))" and new: "?r \<notin> set (used (waiter_arr (w q)))"
    using conc run(3) [of "Waiters q"] by (auto simp: conc_rel_def)
  obtain wl R where p: "waiters_push ?r (tasks s) (w q) = Ok wl" "arr_wf (\<lambda>r. r) (waiter_arr wl)"
    "set (used (waiter_arr wl)) = insert ?r R" "R \<subseteq> set (used (waiter_arr (w q)))"
    by (rule waiters_push_sim [OF wf refs occ(3) _ new, of "tasks s"]) (auto simp: run(2))
  have add: "add_current_task_and_mark_blocked c (w q) s = (Ok wl, block_running c i s)"
    using ref occ c(1) run p(1)
    by (simp add: add_current_task_and_mark_blocked_def core_task_leave_run_queue_def kcall_simps block_running_def
        update_task_def sub_runnable_def)
  let ?w = "w(q := wl)" and ?ph = "ph(c := Waiting i q)"
  let ?a1 = "(view ph s w L)\<lparr>av_lists := (list_refs (run_queues s) w)(Waiters q := R)\<rparr>"
  have "abs_step (view ph s w L) ?a1"
    using p(4) by (intro abs_step.forget) auto
  moreover have "abs_step ?a1 (view ?ph (block_running c i s) ?w L)"
  proof -
    have l: "list_refs (run_queues s) ?w = ((list_refs (run_queues s) w)(Waiters q := R))(Waiters q := insert ?r R)"
      by (simp add: list_refs_waiters p(3))
    have "view ?ph (block_running c i s) ?w L = ?a1\<lparr>av_state := (av_state ?a1)(i := Blocked), av_ph := (av_ph ?a1)(c := Waiting i q),
        av_run := (av_run ?a1)(c := av_run ?a1 c - 1),
        av_lists := (av_lists ?a1)(Waiters q := insert (av_ref ?a1 i) (av_lists ?a1 (Waiters q)))\<rparr>"
      unfolding view_phase view_block [OF run(2)] by (simp add: view_def l av_ref_def)
    then show ?thesis using abs_step.await [of c ?a1 i q] c by simp
  qed
  ultimately have "abs_step\<^sup>*\<^sup>* (view ph s w L) (view ?ph (block_running c i s) ?w L)"
    by (meson converse_rtranclp_into_rtranclp r_into_rtranclp)
  moreover have "conc_rel ?ph (block_running c i s) ?w L"
    using conc_rel_phase [of "Waiting i q" ph c] c conc_rel_block [OF conc run(2), of c] p(2) by (auto simp: conc_rel_def)
  ultimately show ?thesis using add steps_toI by blast
qed

lemma sleep_sim:
  assumes ok: "sys_ok ph s w L" and c: "c < MAX_CORES" "ph c = Checked i"
  shows "\<exists>s'. block_until_wake_time wake_us c s = (Ok c, s') \<and> steps_to ph s w L (ph(c := InTask i)) s' w"
proof -
  have c': "phase_task (ph c) = Some i" using c by simp
  note occ = occupied [OF ok c(1) c'] and run = blocked_run [OF ok c] and ref = kill_pending_eval(2) [OF ok c(1) c']
  let ?r = "\<lparr>tr_slot = i, tr_pid = ts_pid (tasks s i)\<rparr>" and ?rq = "run_queues s c"
  have conc: "conc_rel ph s w L" using ok by (simp add: sys_ok_def)
  have refs: "tr_slot x < MAX_TASKS" if "x \<in> sl_ref ` set (used (sleeper_arr ?rq))" for x
    using refD(1) [OF sys_okD(6) [OF ok], of x "Sleepers c"] that c(1) by simp
  have wf: "arr_wf sl_ref (sleeper_arr ?rq)" and new: "?r \<notin> sl_ref ` set (used (sleeper_arr ?rq))"
    using conc run(3) [of "Sleepers c"] c(1) by (auto simp: conc_rel_def)
  obtain rq' R where p: "add_sleeping_task ?r wake_us (tasks s) ?rq = Ok rq'" "arr_wf sl_ref (sleeper_arr rq')"
    "sl_ref ` set (used (sleeper_arr rq')) = insert ?r R" "R \<subseteq> sl_ref ` set (used (sleeper_arr ?rq))"
    "\<And>e. queue_tab rq' e = queue_tab ?rq e"
    by (rule add_sleeping_task_sim [OF wf refs occ(3) _ new, of "tasks s" wake_us]) (auto simp: run(2))
  let ?s1 = "s\<lparr>run_queues := (run_queues s)(c := rq')\<rparr>"
  have "tables_rel (tasks s) ((run_queues s)(c := rq')) L"
    by (rule tables_rel_cong [OF sys_okD(1) [OF ok]]) (auto simp: p(5))
  then have r1: "conc_rel ph ?s1 w L" using conc p(2) by (simp add: conc_rel_def cur_rel_def cong: option.case_cong)
  have st: "ts_state (tasks ?s1 i) = Running" using run(2) by simp
  have add: "block_until_wake_time wake_us c s = (Ok c, block_running c i ?s1)"
    using ref occ c(1) run p(1)
    by (simp add: block_until_wake_time_def core_task_leave_run_queue_def on_run_queue_def kcall_simps block_running_def
        update_task_def sub_runnable_def)
  let ?ph = "ph(c := InTask i)"
  let ?a1 = "(view ph s w L)\<lparr>av_lists := (list_refs (run_queues s) w)(Sleepers c := R)\<rparr>"
  have "abs_step (view ph s w L) ?a1"
    using p(4) c(1) by (intro abs_step.forget) auto
  moreover have "abs_step ?a1 (view ?ph (block_running c i ?s1) w L)"
  proof -
    have "view ?ph (block_running c i ?s1) w L = ?a1\<lparr>av_state := (av_state ?a1)(i := Blocked), av_ph := (av_ph ?a1)(c := InTask i),
        av_run := (av_run ?a1)(c := av_run ?a1 c - 1),
        av_lists := (av_lists ?a1)(Sleepers c := insert (av_ref ?a1 i) (av_lists ?a1 (Sleepers c)))\<rparr>"
      unfolding view_phase view_block [OF st] by (simp add: view_def list_refs_sleepers [OF c(1)] p(3) av_ref_def)
    then show ?thesis using abs_step.sleep [of c ?a1 i] c by simp
  qed
  ultimately have "abs_step\<^sup>*\<^sup>* (view ph s w L) (view ?ph (block_running c i ?s1) w L)"
    by (meson converse_rtranclp_into_rtranclp r_into_rtranclp)
  moreover have "conc_rel ?ph (block_running c i ?s1) w L"
    using conc_rel_phase [of "InTask i" ph c] c conc_rel_block [OF r1 st, of c] by simp
  ultimately show ?thesis using add steps_toI by blast
qed

section \<open>Wait queues, kill, exit and creation\<close>

text \<open>A wait queue may be replaced by one with fewer entries.\<close>

lemma forget_waiters:
  assumes ok: "sys_ok ph s w L" and wl: "arr_wf (\<lambda>r. r) (waiter_arr wl)"
      "set (used (waiter_arr wl)) \<subseteq> set (used (waiter_arr (w q)))"
  shows "sys_ok ph s (w(q := wl)) L" "abs_step (view ph s w L) (view ph s (w(q := wl)) L)"
proof -
  have "view ph s (w(q := wl)) L = (view ph s w L)\<lparr>av_lists := list_refs (run_queues s) (w(q := wl))\<rparr>"
    by (simp add: view_def)
  then show step: "abs_step (view ph s w L) (view ph s (w(q := wl)) L)"
    using abs_step.forget [of "list_refs (run_queues s) (w(q := wl))" "view ph s w L"] wl(2)
    by (simp add: list_refs_waiters)
  have "conc_rel ph s (w(q := wl)) L" using ok wl(1) by (auto simp: sys_ok_def conc_rel_def)
  with step ok show "sys_ok ph s (w(q := wl)) L" by (auto simp: sys_ok_def intro: abs_step_inv)
qed

lemma steps_to_from_step:
  "abs_step (view ph s w L) (view ph1 s1 w1 L1) \<Longrightarrow> steps_to ph1 s1 w1 L1 ph' s' w' \<Longrightarrow> steps_to ph s w L ph' s' w'"
  unfolding steps_to_def by (meson converse_rtranclp_into_rtranclp)

lemma wake_all_sim:
  assumes ok: "sys_ok ph s w L"
  shows "\<exists>wl s'. wake_all me (w q) s = (Ok wl, s') \<and> steps_to ph s w L ph s' (w(q := wl))"
proof -
  let ?wl = "(w q)\<lparr>waiter_count := 0\<rparr>" and ?rs = "take (waiter_count (w q)) (waiters (w q))"
  have rs: "set ?rs = set (used (waiter_arr (w q)))" by (simp add: used_def waiter_arr_def)
  have wf: "arr_wf (\<lambda>r. r) (waiter_arr ?wl)" "set (used (waiter_arr ?wl)) \<subseteq> set (used (waiter_arr (w q)))"
    using ok by (auto simp: sys_ok_def conc_rel_def arr_wf_def waiter_arr_def used_def)
  note fg = forget_waiters [OF ok wf]
  have "\<exists>s'. wake_each me ?rs s = (Ok (), s') \<and> steps_to ph s (w(q := ?wl)) L ph s' (w(q := ?wl))"
  proof (rule wake_each_sim [OF fg(1)])
    fix r assume r: "r \<in> set ?rs"
    show slot: "tr_slot r < MAX_TASKS" using refD(1) [OF sys_okD(6) [OF ok], of r "Waiters q"] r rs by simp
    assume "ts_pid (tasks s (tr_slot r)) = tr_pid r"
    then have ref: "av_ref (view ph s w L) (tr_slot r) = r" "av_ref (view ph s (w(q := ?wl)) L) (tr_slot r) = r"
      by (simp_all add: av_ref_def)
    have "r \<notin> list_refs (run_queues s) (w(q := ?wl)) l" if nk: "\<not> ts_kill_pending (tasks s (tr_slot r))" for l
    proof (cases "l = Waiters q")
      case True
      then show ?thesis by (simp add: used_def waiter_arr_def)
    next
      case False
      have "r \<in> list_refs (run_queues s) w (Waiters q)" using r rs by simp
      with refD(6) [OF sys_okD(6) [OF ok] slot, of l "Waiters q"] nk ref(1) False
      show ?thesis by (auto simp: list_refs_waiters simp del: list_refs.simps)
    qed
    then show "ts_kill_pending (tasks s (tr_slot r)) \<or> in_no_list (view ph s (w(q := ?wl)) L) (tr_slot r)"
      by (auto simp: in_no_list_def ref)
  qed
  then show ?thesis using steps_to_from_step [OF fg(2)] by (auto simp: wake_all_def kcall_simps)
qed

lemma index_of_nth: "index_of x xs = Some i \<Longrightarrow> i < length xs \<and> xs ! i = x"
  by (induction xs arbitrary: i) (auto split: if_splits)

lemma index_of_None: "index_of x xs = None \<longleftrightarrow> x \<notin> set xs"
  by (induction xs) auto

lemma waiters_remove_sim:
  assumes wf: "arr_wf (\<lambda>r. r) (waiter_arr wl)"
  shows "arr_wf (\<lambda>r. r) (waiter_arr (waiters_remove r wl))"
    "set (used (waiter_arr (waiters_remove r wl))) = set (used (waiter_arr wl)) - {r}"
proof -
  have "arr_wf (\<lambda>r. r) (waiter_arr (waiters_remove r wl)) \<and>
    set (used (waiter_arr (waiters_remove r wl))) = set (used (waiter_arr wl)) - {r}"
  proof (cases "index_of r (take (waiter_count wl) (waiters wl))")
    case None
    then have "waiters_remove r wl = wl" by (simp add: waiters_remove_def)
    moreover have "r \<notin> set (used (waiter_arr wl))" using None by (simp add: index_of_None used_def waiter_arr_def)
    ultimately show ?thesis using wf by simp
  next
    case (Some i)
    from index_of_nth [OF this] have i: "i < snd (waiter_arr wl)" "fst (waiter_arr wl) ! i = r"
      by (auto simp: waiter_arr_def)
    have "waiter_arr (waiters_remove r wl) = swap_remove_at i (waiter_arr wl)"
      using Some by (simp add: waiters_remove_def waiter_arr_def swap_remove_at_def)
    with arr_wf_swap_remove [OF wf i(1)] i(2) show ?thesis by simp
  qed
  then show "arr_wf (\<lambda>r. r) (waiter_arr (waiters_remove r wl))"
    "set (used (waiter_arr (waiters_remove r wl))) = set (used (waiter_arr wl)) - {r}" by auto
qed

text \<open>A task that has entered a wait queue finds its condition true, leaves the queue and wakes itself.\<close>

definition cancel_wait :: "nat \<Rightarrow> waiter_list \<Rightarrow> waiter_list kcall" where
  "cancel_wait c wl = bind (core_current_task_ref c) (\<lambda>r.
     let wl = waiters_remove r wl in bind (wake_task c r) (\<lambda>_. ret wl))"

lemma cancel_wait_sim:
  assumes ok: "sys_ok ph s w L" and c: "c < MAX_CORES" "ph c = Waiting i q"
  shows "\<exists>wl s'. cancel_wait c (w q) s = (Ok wl, s') \<and> steps_to ph s w L ph s' (w(q := wl))"
proof -
  have c': "phase_task (ph c) = Some i" using c by simp
  note occ = occupied [OF ok c(1) c'] and ref = kill_pending_eval(2) [OF ok c(1) c']
  let ?r = "\<lparr>tr_slot = i, tr_pid = ts_pid (tasks s i)\<rparr>"
  let ?wl = "waiters_remove ?r (w q)"
  have wf: "arr_wf (\<lambda>r. r) (waiter_arr (w q))" using ok by (auto simp: sys_ok_def conc_rel_def)
  note rm = waiters_remove_sim [OF wf, of ?r]
  have "set (used (waiter_arr ?wl)) \<subseteq> set (used (waiter_arr (w q)))" using rm(2) by auto
  note fg = forget_waiters [OF ok rm(1) this]
  have "?r \<notin> list_refs (run_queues s) (w(q := ?wl)) l" for l
    using refD(5) [OF sys_okD(6) [OF ok] c(1), of i q l] c(2) rm(2) by (auto simp: list_refs_waiters av_ref_def)
  then have none: "in_no_list (view ph s (w(q := ?wl)) L) i" by (simp add: in_no_list_def av_ref_def)
  obtain s' L' where "wake_task c ?r s = (Ok (), s')" "sys_ok ph s' (w(q := ?wl)) L'"
    "abs_step\<^sup>*\<^sup>* (view ph s (w(q := ?wl)) L) (view ph s' (w(q := ?wl)) L')"
    by (rule wake_task_sim [OF fg(1), of ?r c]) (use occ(3) none in simp_all)
  with fg(2) have "steps_to ph s w L ph s' (w(q := ?wl))"
    by (auto simp: steps_to_def sys_ok_def intro: converse_rtranclp_into_rtranclp)
  with ref \<open>wake_task c ?r s = (Ok (), s')\<close> show ?thesis by (auto simp: cancel_wait_def kcall_simps Let_def)
qed

lemma find_slot_by_pid_range: "find_slot_by_pid pid t = Some i \<Longrightarrow> i < MAX_TASKS \<and> ts_pid (t i) = pid"
  using find_slot_from_Some by (fastforce simp: find_slot_by_pid_def)

lemma request_kill_sim:
  assumes ok: "sys_ok ph s w L"
  shows "\<exists>r s'. request_kill me pid code s = (Ok r, s') \<and> steps_to ph s w L ph s' w"
proof (cases "find_slot_by_pid pid (tasks s)")
  case None
  then show ?thesis using steps_to_refl [OF ok] by (auto simp: request_kill_def kcall_simps)
next
  case (Some i)
  then have i: "i < MAX_TASKS" using find_slot_by_pid_range by blast
  let ?f = "\<lambda>task. task\<lparr>ts_exit_code_request := code, ts_kill_pending := True\<rparr>"
  let ?s = "update_task i ?f s" and ?r = "\<lparr>tr_slot = i, tr_pid = pid\<rparr>"
  have conc: "conc_rel ph ?s w L" by (rule conc_rel_update_task) (use ok in \<open>auto simp: sys_ok_def\<close>)
  have "view ph ?s w L = (view ph s w L)\<lparr>av_kill := (av_kill (view ph s w L))(i := True)\<rparr>"
    unfolding view_update_task by (auto simp: view_def fun_eq_iff)
  then have step: "abs_step (view ph s w L) (view ph ?s w L)"
    using abs_step.kill [of "view ph s w L" i] by simp
  then have ok1: "sys_ok ph ?s w L" using conc ok abs_step_inv by (auto simp: sys_ok_def)
  obtain s' L' where w: "wake_task me ?r ?s = (Ok (), s')" "sys_ok ph s' w L'"
    "abs_step\<^sup>*\<^sup>* (view ph ?s w L) (view ph s' w L')"
    by (rule wake_task_sim [OF ok1, of ?r me]) (use i in \<open>simp_all add: update_task_def\<close>)
  have st: "steps_to ph s w L ph s' w"
    using w(2,3) step by (auto simp: steps_to_def sys_ok_def intro: converse_rtranclp_into_rtranclp)
  have "ts_home_core (tasks s' i) < MAX_CORES" if "ts_state (tasks s' i) = Running"
    using slotD(2) [OF sys_okD(4) [OF w(2)] i] that by simp
  then have "\<exists>s2. request_kill me pid code s = (Ok True, s2) \<and> same_core s' s2"
    using w(1) Some by (auto simp: request_kill_def kcall_simps Let_def mark_core_for_reschedule_def send_reschedule_ipi_def)
  with st show ?thesis using steps_to_same_core by blast
qed

lemma exit_sim:
  assumes ok: "sys_ok ph s w L" and c: "c < MAX_CORES" "phase_task (ph c) = Some i" "ts_state (tasks s i) = Running"
  shows "\<exists>s'. exit_current_tail c s = (Ok (), s') \<and> steps_to ph s w L (ph(c := Leaving i)) s' w"
proof -
  note occ = occupied [OF ok c(1,2)]
  have conc: "conc_rel ph s w L" using ok by (simp add: sys_ok_def)
  have pos: "0 < runnable_tasks_count s c"
    using sys_okD(5) [OF ok] c by (auto simp: run_inv_def running_count_def)
  let ?s = "sub_runnable c (update_task i (set_state Dead) s)"
  have run: "exit_current_tail c s = (Ok (), ?s)"
    using c occ pos by (simp add: exit_current_tail_def core_task_leave_run_queue_def core_run_scheduling_def
        core_switch_executing_yielding_def get_current_slot_for_core_def kcall_simps update_task_def set_state_def sub_runnable_def)
  have "conc_rel ph (update_task i (set_state Dead) s) w L"
    by (rule conc_rel_update_task [OF conc]) (auto simp: set_state_def)
  then have r: "conc_rel (ph(c := Leaving i)) ?s w L"
    using conc_rel_phase [of "Leaving i" ph c] c by (simp add: sub_runnable_def conc_rel_run)
  have "view (ph(c := Leaving i)) ?s w L = (view ph s w L)\<lparr>av_state := (av_state (view ph s w L))(i := Dead),
      av_ph := ph(c := Leaving i), av_run := (runnable_tasks_count s)(c := runnable_tasks_count s c - 1)\<rparr>"
    unfolding sub_runnable_def view_phase view_run view_update_task
    by (auto simp: view_def fun_eq_iff set_state_def update_task_def)
  then have "abs_step (view ph s w L) (view (ph(c := Leaving i)) ?s w L)"
    using abs_step.die [of c "view ph s w L" i] c running_phase [OF ok c] by simp
  with run r show ?thesis by (auto intro!: steps_to_step)
qed

definition fresh_pid :: "nat \<Rightarrow> sched \<Rightarrow> (nat \<Rightarrow> waiter_list) \<Rightarrow> bool" where
  "fresh_pid pid s w \<longleftrightarrow> pid \<noteq> INVALID_PID \<and> (\<forall>j < MAX_TASKS. ts_pid (tasks s j) \<noteq> pid)
     \<and> (\<forall>l. \<forall>r \<in> list_refs (run_queues s) w l. tr_pid r \<noteq> pid)"

lemma start_sim:
  assumes ok: "sys_ok ph s w L" and c: "core < MAX_CORES" "p \<le> 7" and pid: "fresh_pid pid s w"
  shows "\<exists>r s'. start_task stack_top me pid p core cr3 s = (Ok r, s') \<and> steps_to ph s w L ph s' w"
proof -
  obtain r t where al: "allocate_task_slot stack_top pid p core cr3 (tasks s) = (r, t)" by fastforce
  then show ?thesis
  proof (cases rule: allocate_task_slot_cases)
    case full
    then have "start_task stack_top me pid p core cr3 s = (Ok False, s)"
      using al by (simp add: start_task_def kcall_simps)
    then show ?thesis using steps_to_refl [OF ok] by blast
  next
    case (got i)
    let ?s = "update_task i (set_state Ready) (s\<lparr>tasks := t\<rparr>)"
    have not_host: "phase_task (ph d) \<noteq> Some i" if "d < MAX_CORES" for d
      using occupied(7) [OF ok that, of i] got(3) by auto
    have nq: "i \<notin> queued L d" if "d < MAX_CORES" for d
      by (rule not_queued [OF sys_okD(3) [OF ok] _ that]) (simp add: got(3))
    have cur: "cur_rel ph ?s"
      using sys_okD(2) [OF ok] not_host by (auto simp: cur_rel_def update_task_def got(4) split: option.splits)
    have "ts_next (tasks ?s x) = ts_next (tasks s x)" if "x \<in> slots_of (L d e)" "d < MAX_CORES" for x d e
      using nq [OF that(2)] in_queued [of x L d e] that(1) got(4) by (auto simp: update_task_def set_state_def)
    then have "tables_rel (tasks ?s) (run_queues ?s) L"
      using sys_okD(1) [OF ok] table_rel_links [of "L d e" "tasks ?s" "tasks s" for d e]
      by (auto simp: tables_rel_def update_task_def)
    with cur have r1: "conc_rel ph ?s w L" using ok by (simp add: sys_ok_def conc_rel_def update_task_def)
    obtain s' L' where e: "core_enqueue_ready_task me core i p ?s = (Ok (), s')" "conc_rel ph s' w L'"
      "view ph s' w L' = (view ph ?s w L)\<lparr>av_q := (queued L)(core := insert i (queued L core)),
         av_run := (runnable_tasks_count ?s)(core := runnable_tasks_count ?s core + 1)\<rparr>"
      by (rule enqueue_sim [OF r1 c got(2) nq, of me])
    have run: "start_task stack_top me pid p core cr3 s = (Ok True, s')"
      using al got(1) e(1) by (simp add: start_task_def kcall_simps)
    let ?v = "view ph s w L"
    have "view ph s' w L' = ?v\<lparr>av_state := (av_state ?v)(i := Ready), av_pid := (av_pid ?v)(i := pid),
        av_home := (av_home ?v)(i := core), av_prio := (av_prio ?v)(i := p), av_on := (av_on ?v)(i := False),
        av_kill := (av_kill ?v)(i := False), av_q := (av_q ?v)(core := insert i (av_q ?v core)),
        av_run := (av_run ?v)(core := av_run ?v core + 1)\<rparr>"
      unfolding e(3)
      by (auto simp: view_def fun_eq_iff update_task_def set_state_def got(4) claim_slot_def got(3))
    moreover have "abs_step ?v \<dots>"
      using pid c got(2,3) by (intro abs_step.start) (auto simp: fresh_pid_def)
    ultimately have "abs_step ?v (view ph s' w L')" by simp
    with e(2) run show ?thesis by (auto intro!: steps_to_step)
  qed
qed

end
