(* ===== verification/Sched_Props.thy ===== *)
theory Sched_Props
  imports Sched_Actions
begin

text \<open>
  The scheduler as a state machine with serialised operations: an action is one operation of a core, a
  task or an interrupt, run to its end, and the actions of all cores come in any order; \<open>enabled\<close> says
  on which cores an operation can start. What is shown holds between operations. The source takes the
  lock of a run queue for part of an operation only: counting, queueing and the change of a task's state
  are separate steps there (\<open>core_enqueue_ready_task\<close>, \<open>wake_task\<close>, \<open>try_steal_task\<close>, the end of
  \<open>run_task\<close>), and what another core can see or do between them is not part of this model.

  The callers' obligations are part of \<open>enabled\<close>: priorities are at most 7, the levels of the queue
  tables (\<open>MAX_PRIORITY\<close> of \<open>process.rs\<close> is 8), the identifier of a new task is not in use, and a
  waiting loop calls with the number of the core its task is on. The loops of \<open>process/wait.rs\<close> read
  that number once, so they meet this as long as the task has not been moved to another core since
  its loop began; \<open>Sched_Findings\<close> shows what happens otherwise. A task enters a wait queue or goes to
  sleep only after it has found its kill flag clear, as these loops do.
\<close>

record system =
  sys_ph :: "nat \<Rightarrow> core_phase"
  sys_k :: sched
  sys_w :: "nat \<Rightarrow> waiter_list"

definition sys_init :: system where
  "sys_init = \<lparr>sys_ph = (\<lambda>c. InLoop), sys_k = sched_init, sys_w = (\<lambda>q. waiter_list_new)\<rparr>"

datatype action =
    LoopRound nat "nat \<Rightarrow> bool"
  | SwitchBack nat
  | CheckKill nat
  | SwitchOut nat
  | YieldCore nat
  | EnterWait nat nat
  | CancelWait nat nat
  | SleepUntil nat nat
  | WakeAll nat nat
  | TimerTick nat nat
  | RequestKill nat nat int
  | ExitTask nat
  | StartTask "nat \<Rightarrow> nat" nat nat nat nat nat

definition task_on :: "nat \<Rightarrow> system \<Rightarrow> nat option" where
  "task_on c \<sigma> = (case sys_ph \<sigma> c of Leaving i \<Rightarrow> None | p \<Rightarrow> phase_task p)"

definition runs :: "nat \<Rightarrow> system \<Rightarrow> bool" where
  "runs c \<sigma> \<longleftrightarrow> (case task_on c \<sigma> of None \<Rightarrow> False | Some i \<Rightarrow> ts_state (tasks (sys_k \<sigma>) i) = Running)"

fun enabled :: "action \<Rightarrow> system \<Rightarrow> bool" where
  "enabled (LoopRound c locked) \<sigma> \<longleftrightarrow> c < MAX_CORES \<and> sys_ph \<sigma> c = InLoop"
| "enabled (SwitchBack c) \<sigma> \<longleftrightarrow> c < MAX_CORES \<and> (\<exists>i. sys_ph \<sigma> c = Leaving i)"
| "enabled (CheckKill c) \<sigma> \<longleftrightarrow> c < MAX_CORES \<and> runs c \<sigma>"
| "enabled (SwitchOut c) \<sigma> \<longleftrightarrow> c < MAX_CORES \<and> task_on c \<sigma> \<noteq> None"
| "enabled (YieldCore c) \<sigma> \<longleftrightarrow> c < MAX_CORES \<and> task_on c \<sigma> \<noteq> None"
| "enabled (EnterWait c q) \<sigma> \<longleftrightarrow> c < MAX_CORES \<and> (\<exists>i. sys_ph \<sigma> c = Checked i)"
| "enabled (CancelWait c q) \<sigma> \<longleftrightarrow> c < MAX_CORES \<and> (\<exists>i. sys_ph \<sigma> c = Waiting i q)"
| "enabled (SleepUntil c wake_us) \<sigma> \<longleftrightarrow> c < MAX_CORES \<and> (\<exists>i. sys_ph \<sigma> c = Checked i)"
| "enabled (WakeAll me q) \<sigma> \<longleftrightarrow> me < MAX_CORES"
| "enabled (TimerTick c now_us) \<sigma> \<longleftrightarrow> c < MAX_CORES"
| "enabled (RequestKill me pid code) \<sigma> \<longleftrightarrow> me < MAX_CORES"
| "enabled (ExitTask c) \<sigma> \<longleftrightarrow> c < MAX_CORES \<and> runs c \<sigma>"
| "enabled (StartTask stack_top me pid priority core cr3) \<sigma> \<longleftrightarrow> me < MAX_CORES \<and> core < MAX_CORES
     \<and> priority \<le> MAX_PRIORITY \<and> fresh_pid pid (sys_k \<sigma>) (sys_w \<sigma>)"

definition perform :: "'a kcall \<Rightarrow> system \<Rightarrow> ('a \<Rightarrow> system \<Rightarrow> system) \<Rightarrow> (unit, system) outcome" where
  "perform m \<sigma> f = (case m (sys_k \<sigma>) of
     (Ok r, s) \<Rightarrow> Ok (f r (\<sigma>\<lparr>sys_k := s\<rparr>)) | (Err e, s) \<Rightarrow> Err e | (Panic, s) \<Rightarrow> Panic | (Diverge, s) \<Rightarrow> Diverge)"

definition set_phase :: "nat \<Rightarrow> core_phase \<Rightarrow> system \<Rightarrow> system" where
  "set_phase c p \<sigma> = \<sigma>\<lparr>sys_ph := (sys_ph \<sigma>)(c := p)\<rparr>"

definition set_waiters :: "nat \<Rightarrow> waiter_list \<Rightarrow> system \<Rightarrow> system" where
  "set_waiters q wl \<sigma> = \<sigma>\<lparr>sys_w := (sys_w \<sigma>)(q := wl)\<rparr>"

definition occupant :: "nat \<Rightarrow> system \<Rightarrow> nat" where
  "occupant c \<sigma> = (case phase_task (sys_ph \<sigma> c) of None \<Rightarrow> INVALID_SLOT | Some i \<Rightarrow> i)"

fun act :: "action \<Rightarrow> system \<Rightarrow> (unit, system) outcome" where
  "act (LoopRound c locked) \<sigma> = perform (scheduler_loop_round locked c) \<sigma>
     (\<lambda>r. case r of Runs i \<Rightarrow> set_phase c (InTask i) | Stole \<Rightarrow> (\<lambda>\<sigma>. \<sigma>) | Halts \<Rightarrow> (\<lambda>\<sigma>. \<sigma>))"
| "act (SwitchBack c) \<sigma> = perform (run_task_leave c (occupant c \<sigma>)) \<sigma> (\<lambda>_. set_phase c InLoop)"
| "act (CheckKill c) \<sigma> = perform (core_current_task_kill_pending c) \<sigma>
     (\<lambda>killed. if killed then (\<lambda>\<sigma>. \<sigma>) else set_phase c (Checked (occupant c \<sigma>)))"
| "act (SwitchOut c) \<sigma> = perform (core_run_scheduling c) \<sigma> (\<lambda>_. set_phase c (Leaving (occupant c \<sigma>)))"
| "act (YieldCore c) \<sigma> = perform (core_yield_executing_tasks c) \<sigma>
     (\<lambda>switched. if switched then set_phase c (Leaving (occupant c \<sigma>)) else (\<lambda>\<sigma>. \<sigma>))"
| "act (EnterWait c q) \<sigma> = perform (add_current_task_and_mark_blocked c (sys_w \<sigma> q)) \<sigma>
     (\<lambda>wl. set_waiters q wl \<circ> set_phase c (Waiting (occupant c \<sigma>) q))"
| "act (CancelWait c q) \<sigma> = perform (cancel_wait c (sys_w \<sigma> q)) \<sigma> (\<lambda>wl. set_waiters q wl)"
| "act (SleepUntil c wake_us) \<sigma> = perform (block_until_wake_time wake_us c) \<sigma>
     (\<lambda>home. set_phase c (InTask (occupant c \<sigma>)))"
| "act (WakeAll me q) \<sigma> = perform (wake_all me (sys_w \<sigma> q)) \<sigma> (\<lambda>wl. set_waiters q wl)"
| "act (TimerTick c now_us) \<sigma> = perform (on_timer_tick now_us c) \<sigma> (\<lambda>_ \<sigma>. \<sigma>)"
| "act (RequestKill me pid code) \<sigma> = perform (request_kill me pid code) \<sigma> (\<lambda>_ \<sigma>. \<sigma>)"
| "act (ExitTask c) \<sigma> = perform (exit_current_tail c) \<sigma> (\<lambda>_. set_phase c (Leaving (occupant c \<sigma>)))"
| "act (StartTask stack_top me pid priority core cr3) \<sigma> =
     perform (start_task stack_top me pid priority core cr3) \<sigma> (\<lambda>_ \<sigma>. \<sigma>)"

inductive reachable :: "system \<Rightarrow> bool" where
  reach_init: "reachable sys_init"
| reach_step: "reachable \<sigma> \<Longrightarrow> enabled a \<sigma> \<Longrightarrow> act a \<sigma> = Ok \<sigma>' \<Longrightarrow> reachable \<sigma>'"

section \<open>Every action keeps the invariant\<close>

definition sys_inv :: "system \<Rightarrow> bool" where
  "sys_inv \<sigma> \<longleftrightarrow> (\<exists>L. sys_ok (sys_ph \<sigma>) (sys_k \<sigma>) (sys_w \<sigma>) L)"

definition moves_to :: "system \<Rightarrow> core_levels \<Rightarrow> system \<Rightarrow> bool" where
  "moves_to \<sigma> L \<sigma>' \<longleftrightarrow> steps_to (sys_ph \<sigma>) (sys_k \<sigma>) (sys_w \<sigma>) L (sys_ph \<sigma>') (sys_k \<sigma>') (sys_w \<sigma>')"

lemma set_phase_fields [simp]:
  "sys_ph (set_phase c p \<sigma>) = (sys_ph \<sigma>)(c := p)" "sys_k (set_phase c p \<sigma>) = sys_k \<sigma>" "sys_w (set_phase c p \<sigma>) = sys_w \<sigma>"
  "sys_ph (set_waiters q wl \<sigma>) = sys_ph \<sigma>" "sys_k (set_waiters q wl \<sigma>) = sys_k \<sigma>"
  "sys_w (set_waiters q wl \<sigma>) = (sys_w \<sigma>)(q := wl)"
  by (simp_all add: set_phase_def set_waiters_def)

lemma perform_Ok: "m (sys_k \<sigma>) = (Ok r, s) \<Longrightarrow> perform m \<sigma> f = Ok (f r (\<sigma>\<lparr>sys_k := s\<rparr>))"
  by (simp add: perform_def)

lemma performI:
  assumes "m (sys_k \<sigma>) = (Ok r, s)" "moves_to \<sigma> L (f r (\<sigma>\<lparr>sys_k := s\<rparr>))"
  shows "\<exists>\<sigma>'. perform m \<sigma> f = Ok \<sigma>' \<and> moves_to \<sigma> L \<sigma>'"
  using assms by (auto simp: perform_def)

lemma task_on_Some: "task_on c \<sigma> = Some i \<Longrightarrow> phase_task (sys_ph \<sigma> c) = Some i"
  by (cases "sys_ph \<sigma> c") (auto simp: task_on_def)

lemma occupant_eq: "phase_task (sys_ph \<sigma> c) = Some i \<Longrightarrow> occupant c \<sigma> = i"
  by (simp add: occupant_def)

lemma runs_Some:
  assumes "runs c \<sigma>"
  obtains i where "task_on c \<sigma> = Some i" "phase_task (sys_ph \<sigma> c) = Some i" "occupant c \<sigma> = i" "ts_state (tasks (sys_k \<sigma>) i) = Running"
  using assms task_on_Some occupant_eq by (auto simp: runs_def split: option.splits)

lemma check_sim:
  assumes ok: "sys_ok ph s w L" and c: "c < MAX_CORES" "phase_task (ph c) = Some i" "ts_state (tasks s i) = Running"
    and k: "\<not> ts_kill_pending (tasks s i)"
  shows "steps_to ph s w L (ph(c := Checked i)) s w"
proof (cases "ph c = Checked i")
  case True
  then have "ph(c := Checked i) = ph" by auto
  with steps_to_refl [OF ok] show ?thesis by simp
next
  case False
  then have "ph c = InTask i" using running_phase [OF ok c] by simp
  then have "abs_step (view ph s w L) (view (ph(c := Checked i)) s w L)"
    unfolding view_phase using abs_step.check [of c "view ph s w L" i] c k by simp
  moreover have "conc_rel (ph(c := Checked i)) s w L"
    using conc_rel_phase [of "Checked i" ph c] c ok by (simp add: sys_ok_def)
  ultimately show ?thesis by (auto intro: steps_to_step)
qed

theorem action_sim:
  assumes ok: "sys_ok (sys_ph \<sigma>) (sys_k \<sigma>) (sys_w \<sigma>) L" and en: "enabled a \<sigma>"
  shows "\<exists>\<sigma>'. act a \<sigma> = Ok \<sigma>' \<and> moves_to \<sigma> L \<sigma>'"
proof (cases a)
  case (LoopRound c locked)
  with loop_round_sim [OF ok, of c locked] en obtain r s' where
    "scheduler_loop_round locked c (sys_k \<sigma>) = (Ok r, s')"
    "steps_to (sys_ph \<sigma>) (sys_k \<sigma>) (sys_w \<sigma>) L (case r of Runs i \<Rightarrow> (sys_ph \<sigma>)(c := InTask i) | _ \<Rightarrow> sys_ph \<sigma>) s' (sys_w \<sigma>)" by auto
  with LoopRound show ?thesis by (cases r) (auto simp: perform_Ok moves_to_def)
next
  case (SwitchBack c)
  with en obtain i where i: "c < MAX_CORES" "sys_ph \<sigma> c = Leaving i" "occupant c \<sigma> = i" by (auto simp: occupant_def)
  with leave_sim [OF ok i(1,2)] SwitchBack show ?thesis by (auto simp: perform_Ok moves_to_def)
next
  case (CheckKill c)
  with en obtain i where i: "c < MAX_CORES" "phase_task (sys_ph \<sigma> c) = Some i" "occupant c \<sigma> = i"
    "ts_state (tasks (sys_k \<sigma>) i) = Running" by (auto elim: runs_Some)
  note kill_pending_eval(1) [OF ok i(1,2)]
  with CheckKill i check_sim [OF ok i(1,2,4)] steps_to_refl [OF ok] show ?thesis
    by (cases "ts_kill_pending (tasks (sys_k \<sigma>) i)") (auto simp: perform_Ok moves_to_def)
next
  case (SwitchOut c)
  with en obtain i where i: "c < MAX_CORES" "phase_task (sys_ph \<sigma> c) = Some i" "occupant c \<sigma> = i"
    using task_on_Some occupant_eq by fastforce
  with core_run_scheduling_sim [OF ok i(1,2)] SwitchOut show ?thesis by (auto simp: perform_Ok moves_to_def)
next
  case (YieldCore c)
  with en obtain i where i: "c < MAX_CORES" "phase_task (sys_ph \<sigma> c) = Some i" "occupant c \<sigma> = i"
    using task_on_Some occupant_eq by fastforce
  obtain r s' where "core_yield_executing_tasks c (sys_k \<sigma>) = (Ok r, s')"
    "steps_to (sys_ph \<sigma>) (sys_k \<sigma>) (sys_w \<sigma>) L (if r then (sys_ph \<sigma>)(c := Leaving i) else sys_ph \<sigma>) s' (sys_w \<sigma>)"
    using yield_sim [OF ok i(1,2)] by blast
  with YieldCore i show ?thesis by (cases r) (auto simp: perform_Ok moves_to_def)
next
  case (EnterWait c q)
  with en obtain i where i: "c < MAX_CORES" "sys_ph \<sigma> c = Checked i" "occupant c \<sigma> = i" by (auto simp: occupant_def)
  with await_sim [OF ok i(1,2), of q] EnterWait show ?thesis by (auto simp: perform_Ok moves_to_def)
next
  case (CancelWait c q)
  with en obtain i where i: "c < MAX_CORES" "sys_ph \<sigma> c = Waiting i q" by auto
  with cancel_wait_sim [OF ok i] CancelWait show ?thesis by (auto simp: perform_Ok moves_to_def)
next
  case (SleepUntil c wake_us)
  with en obtain i where i: "c < MAX_CORES" "sys_ph \<sigma> c = Checked i" "occupant c \<sigma> = i" by (auto simp: occupant_def)
  with sleep_sim [OF ok i(1,2), of wake_us] SleepUntil show ?thesis by (auto simp: perform_Ok moves_to_def)
next
  case (WakeAll me q)
  with wake_all_sim [OF ok, of me q] show ?thesis by (auto simp: perform_Ok moves_to_def)
next
  case (TimerTick c now_us)
  with tick_sim [OF ok, of c now_us] en show ?thesis by (auto simp: perform_Ok moves_to_def)
next
  case (RequestKill me pid code)
  with request_kill_sim [OF ok, of me pid code] show ?thesis by (auto simp: perform_Ok moves_to_def)
next
  case (ExitTask c)
  with en obtain i where i: "c < MAX_CORES" "phase_task (sys_ph \<sigma> c) = Some i" "occupant c \<sigma> = i"
    "ts_state (tasks (sys_k \<sigma>) i) = Running" by (auto elim: runs_Some)
  with exit_sim [OF ok i(1,2,4)] ExitTask show ?thesis by (auto simp: perform_Ok moves_to_def)
next
  case (StartTask stack_top me pid p core cr3)
  with start_sim [OF ok, of core p pid stack_top me cr3] en show ?thesis
    by (auto simp: perform_Ok moves_to_def MAX_PRIORITY_def)
qed

lemma init_refs: "list_refs (\<lambda>c. core_run_queue_new) (\<lambda>q. waiter_list_new) l = {}"
  by (cases l) (auto simp: core_run_queue_new_def sleeper_arr_def waiter_arr_def waiter_list_new_def used_def)

lemma sys_inv_init: "sys_inv sys_init"
proof -
  let ?L = "\<lambda>c e l. [] :: nat list"
  let ?ph = "\<lambda>c. InLoop" and ?w = "\<lambda>q. waiter_list_new"
  have q: "queued ?L c = {}" for c by (simp add: queued_def slots_of_def)
  have t: "tables_rel (tasks sched_init) (run_queues sched_init) ?L"
    by (auto simp: tables_rel_def sched_init_def core_run_queue_new_def queue_tab_def table_rel_new slots_of_def)
  have "conc_rel ?ph sched_init ?w ?L"
    using t by (simp add: conc_rel_def cur_rel_def arr_wf_def sleeper_arr_def waiter_arr_def used_def sched_init_def
        core_run_queue_new_def waiter_list_new_def)
  moreover have "abs_inv (view ?ph sched_init ?w ?L)"
    by (auto simp: abs_inv_def place_inv_def slot_inv_def run_inv_def ref_inv_def q init_refs in_no_list_def sched_init_def
        task_slot_new_def view_def running_count_def simp del: list_refs.simps)
  ultimately show ?thesis unfolding sys_inv_def sys_ok_def sys_init_def by auto
qed

lemma moves_to_inv:
  "sys_ok (sys_ph \<sigma>) (sys_k \<sigma>) (sys_w \<sigma>) L \<Longrightarrow> moves_to \<sigma> L \<sigma>' \<Longrightarrow> sys_inv \<sigma>'"
  unfolding moves_to_def sys_inv_def by (rule steps_to_ok)

lemma reachable_inv: "reachable \<sigma> \<Longrightarrow> sys_inv \<sigma>"
proof (induction rule: reachable.induct)
  case reach_init
  then show ?case by (rule sys_inv_init)
next
  case (reach_step \<sigma> a \<sigma>')
  then obtain L where L: "sys_ok (sys_ph \<sigma>) (sys_k \<sigma>) (sys_w \<sigma>) L" by (auto simp: sys_inv_def)
  from action_sim [OF this reach_step.hyps(2)] reach_step.hyps(3) have "moves_to \<sigma> L \<sigma>'" by auto
  with L show ?case by (rule moves_to_inv)
qed

section \<open>What holds in every reachable state\<close>

lemma st_contains_from_rel:
  assumes "list_all2 (queue_rel t) qs xss" "i < MAX_TASKS"
  shows "st_contains_from i qs t = Ok (\<exists>xs \<in> set xss. i \<in> set xs)"
  using assms by (induction rule: list_all2_induct) (auto simp: sq_contains_rel)

lemma st_contains_rel:
  assumes "table_rel t tab L" "i < MAX_TASKS"
  shows "st_contains i tab t = Ok (i \<in> slots_of L)"
proof -
  have "list_all2 (queue_rel t) (st_queues tab) (map L [0..<8])"
    using assms(1) by (auto simp: table_rel_def list_all2_conv_all_nth)
  from st_contains_from_rel [OF this assms(2)]
  have "st_contains i tab t = Ok (\<exists>l < 8. i \<in> set (L l))" by (auto simp: st_contains_def)
  moreover have "i \<in> slots_of L \<longleftrightarrow> (\<exists>l < 8. i \<in> set (L l))"
    using assms(1) by (auto simp: slots_of_def table_rel_def) (metis empty_iff list.set(1) not_le)
  ultimately show ?thesis by simp
qed

lemma rq_contains_rel:
  assumes "tables_rel t rqs L" "c < MAX_CORES" "i < MAX_TASKS"
  shows "rq_contains i (rqs c) t = Ok (i \<in> queued L c)"
  using st_contains_rel [OF tables_relD(1) [OF assms(1,2), of True] assms(3)]
    st_contains_rel [OF tables_relD(1) [OF assms(1,2), of False] assms(3)]
  by (simp add: rq_contains_def queue_tab_def queued_def)

lemma reachable_ok:
  assumes "reachable \<sigma>"
  obtains L where "sys_ok (sys_ph \<sigma>) (sys_k \<sigma>) (sys_w \<sigma>) L"
  using reachable_inv [OF assms] by (auto simp: sys_inv_def)

lemma start_enabled_init:
  "me < MAX_CORES \<Longrightarrow> core < MAX_CORES \<Longrightarrow> p \<le> MAX_PRIORITY \<Longrightarrow> pid \<noteq> INVALID_PID \<Longrightarrow>
   enabled (StartTask stack_top me pid p core cr3) sys_init"
  by (simp add: fresh_pid_def sys_init_def sched_init_def task_slot_new_def init_refs)

text \<open>A task started on core 1 and picked up by its loop, computed from the definitions.\<close>

lemma find_slot_first: "0 < n \<Longrightarrow> p (t 0) \<Longrightarrow> find_slot_from p t [0..<n] = Some 0"
  by (simp add: upt_conv_Cons)

lemmas start_eval = perform_def start_task_def allocate_task_slot_def find_slot_first sys_init_def sched_init_def
  task_slot_new_def MAX_TASKS_def kcall_simps update_task_def set_state_def claim_slot_def core_enqueue_ready_task_def
  MAX_CORES_def add_runnable_def on_run_queue_def push_executing_task_def st_push_def MAX_PRIORITY_def sq_push_back_def
  slot_table_new_def core_run_queue_new_def PRIORITY_LEVEL_COUNT_def slot_queue_new_def set_next_def
  get_current_slot_for_core_def send_reschedule_ipi_def INVALID_SLOT_def

lemmas pick_eval = scheduler_loop_round_def pick_next_task_def st_is_empty_def st_pop_def leading_zeros8_def
  sq_pop_front_def st_update_def Let_def run_task_enter_def set_current_task_for_core_def set_slice_def set_phase_def

lemma started_state:
  obtains \<sigma> where "reachable \<sigma>" "ts_state (tasks (sys_k \<sigma>) 0) = Ready" "ts_home_core (tasks (sys_k \<sigma>) 0) = 1"
    "sys_ph \<sigma> 1 = InLoop" "runnable_tasks_count (sys_k \<sigma>) 1 = 1"
proof -
  let ?a = "StartTask (\<lambda>i. 4096 * i) 0 7 3 1 8192"
  have en: "enabled ?a sys_init"
    by (rule start_enabled_init) (simp_all add: MAX_CORES_def MAX_PRIORITY_def INVALID_PID_def)
  have "\<exists>\<sigma>. act ?a sys_init = Ok \<sigma> \<and> ts_state (tasks (sys_k \<sigma>) 0) = Ready \<and> ts_home_core (tasks (sys_k \<sigma>) 0) = 1
      \<and> sys_ph \<sigma> 1 = InLoop \<and> runnable_tasks_count (sys_k \<sigma>) 1 = 1"
    by (simp add: start_eval)
  with that reach_step [OF reach_init en] show thesis by blast
qed

lemma running_state:
  obtains \<sigma> where "reachable \<sigma>" "current_slot (sys_k \<sigma>) 1 = 0" "ts_state (tasks (sys_k \<sigma>) 0) = Running"
proof -
  let ?a = "StartTask (\<lambda>i. 4096 * i) 0 7 3 1 8192" and ?b = "LoopRound 1 (\<lambda>c. False)"
  have en: "enabled ?a sys_init"
    by (rule start_enabled_init) (simp_all add: MAX_CORES_def MAX_PRIORITY_def INVALID_PID_def)
  have "\<exists>\<sigma> \<sigma>'. act ?a sys_init = Ok \<sigma> \<and> sys_ph \<sigma> 1 = InLoop \<and> act ?b \<sigma> = Ok \<sigma>'
      \<and> current_slot (sys_k \<sigma>') 1 = 0 \<and> ts_state (tasks (sys_k \<sigma>') 0) = Running"
    by (simp add: start_eval pick_eval)
  then obtain \<sigma> \<sigma>' where s: "act ?a sys_init = Ok \<sigma>" "sys_ph \<sigma> 1 = InLoop" "act ?b \<sigma> = Ok \<sigma>'"
    "current_slot (sys_k \<sigma>') 1 = 0" "ts_state (tasks (sys_k \<sigma>') 0) = Running" by blast
  have "reachable \<sigma>'"
    by (rule reach_step [OF reach_step [OF reach_init en s(1)] _ s(3)]) (use s(2) in \<open>simp add: MAX_CORES_def\<close>)
  with that s(4,5) show thesis by blast
qed

text \<open>C4: No operation of the scheduler panics or loops, when operations do not overlap: in every state
  that the cores, the tasks and the interrupts reach from the boot state by running their operations
  one at a time, in any order, every operation that can start returns. A waiting loop calls with the
  number of the core its task is on, priorities are at most 7 and new identifiers are unused.\<close>

theorem scheduler_never_stuck:
  assumes "reachable \<sigma>" "enabled a \<sigma>"
  shows "\<exists>\<sigma>'. act a \<sigma> = Ok \<sigma>'"
  using reachable_ok [OF assms(1)] action_sim assms(2) by metis

theorem scheduler_never_stuck_witness:
  "\<exists>\<sigma>'. act (StartTask (\<lambda>i. 4096 * i) 0 7 3 1 8192) sys_init = Ok \<sigma>'"
  by (rule scheduler_never_stuck [OF reach_init start_enabled_init])
    (simp_all add: MAX_CORES_def MAX_PRIORITY_def INVALID_PID_def)

text \<open>C9: Queues and states agree between operations: after any sequence of operations, run one at a time,
  walking the linked queues of a core ends, and finds a slot exactly when its task is ready and has
  that core as its home. So no operation leaves a ready task out of the queues or in those of two
  cores, or a running, blocked, dead or free slot in a queue. (During a wake-up or a theft a ready
  task is in no queue for a moment.)\<close>

theorem queue_holds_ready_tasks:
  assumes "reachable \<sigma>" "c < MAX_CORES" "i < MAX_TASKS"
  shows "rq_contains i (run_queues (sys_k \<sigma>) c) (tasks (sys_k \<sigma>))
    = Ok (ts_state (tasks (sys_k \<sigma>) i) = Ready \<and> ts_home_core (tasks (sys_k \<sigma>) i) = c)"
proof -
  obtain L where ok: "sys_ok (sys_ph \<sigma>) (sys_k \<sigma>) (sys_w \<sigma>) L" by (rule reachable_ok [OF assms(1)])
  note place = sys_okD(3) [OF ok]
  have "i \<in> queued L c \<longleftrightarrow> ts_state (tasks (sys_k \<sigma>) i) = Ready \<and> ts_home_core (tasks (sys_k \<sigma>) i) = c"
    using placeD(1) [OF place assms(2), of i] placeD(2) [OF place assms(3)] by auto
  with rq_contains_rel [OF sys_okD(1) [OF ok] assms(2,3)] show ?thesis by simp
qed

theorem queue_holds_ready_tasks_witness:
  "\<exists>\<sigma>. reachable \<sigma> \<and> rq_contains 0 (run_queues (sys_k \<sigma>) 1) (tasks (sys_k \<sigma>)) = Ok True
     \<and> rq_contains 0 (run_queues (sys_k \<sigma>) 2) (tasks (sys_k \<sigma>)) = Ok False"
proof -
  obtain \<sigma> where s: "reachable \<sigma>" "ts_state (tasks (sys_k \<sigma>) 0) = Ready" "ts_home_core (tasks (sys_k \<sigma>) 0) = 1"
    by (rule started_state)
  with queue_holds_ready_tasks [OF s(1), of 1 0] queue_holds_ready_tasks [OF s(1), of 2 0] show ?thesis
    by (auto simp: MAX_CORES_def MAX_TASKS_def)
qed

text \<open>C14: No task is given to two cores: after any sequence of operations, run one at a time, what two
  cores have as their current task differs, and a core's current task is marked as on a cpu and has
  that core as its home. A waiting loop calls with the number of the core its task is on. (While
  \<open>run_task\<close> ends, the mark is cleared just before the entry of the core.)\<close>

theorem task_on_one_core:
  assumes "reachable \<sigma>" "c < MAX_CORES" "current_slot (sys_k \<sigma>) c \<noteq> INVALID_SLOT"
  shows "current_slot (sys_k \<sigma>) c < MAX_TASKS \<and> ts_on_cpu (tasks (sys_k \<sigma>) (current_slot (sys_k \<sigma>) c))
    \<and> ts_home_core (tasks (sys_k \<sigma>) (current_slot (sys_k \<sigma>) c)) = c
    \<and> (\<forall>d < MAX_CORES. d \<noteq> c \<longrightarrow> current_slot (sys_k \<sigma>) d \<noteq> current_slot (sys_k \<sigma>) c)"
proof -
  obtain L where ok: "sys_ok (sys_ph \<sigma>) (sys_k \<sigma>) (sys_w \<sigma>) L" by (rule reachable_ok [OF assms(1)])
  have cur: "\<exists>i. phase_task (sys_ph \<sigma> d) = Some i" if "d < MAX_CORES" "current_slot (sys_k \<sigma>) d \<noteq> INVALID_SLOT" for d
    using sys_okD(2) [OF ok] that by (auto simp: cur_rel_def split: option.splits)
  then obtain i where i: "phase_task (sys_ph \<sigma> c) = Some i" using assms by blast
  note occ = occupied [OF ok assms(2) i]
  have "current_slot (sys_k \<sigma>) d \<noteq> i" if d: "d < MAX_CORES" "d \<noteq> c" for d
  proof
    assume e: "current_slot (sys_k \<sigma>) d = i"
    with cur [OF d(1)] occ(4) obtain j where "phase_task (sys_ph \<sigma> d) = Some j" by auto
    from occupied [OF ok d(1) this] e occ(5) d(2) show False by simp
  qed
  with occ show ?thesis by simp
qed

theorem task_on_one_core_witness:
  "\<exists>\<sigma>. reachable \<sigma> \<and> current_slot (sys_k \<sigma>) 1 = 0 \<and> current_slot (sys_k \<sigma>) 2 \<noteq> 0 \<and> ts_on_cpu (tasks (sys_k \<sigma>) 0)"
proof -
  obtain \<sigma> where s: "reachable \<sigma>" "current_slot (sys_k \<sigma>) 1 = 0" by (rule running_state)
  with task_on_one_core [OF s(1), of 1] show ?thesis
    by (auto simp: MAX_CORES_def INVALID_SLOT_def)
qed

text \<open>C18: No operation leaves the count of runnable tasks of a core wrong, which decides about preemption,
  yielding and stealing: after any sequence of operations, run one at a time, it is the number of tasks
  with that core as their home that are ready or running. (Inside an operation the count and the
  state of the task change one after the other.)\<close>

theorem runnable_count_exact:
  assumes "reachable \<sigma>" "c < MAX_CORES"
  shows "runnable_tasks_count (sys_k \<sigma>) c
    = card {i. i < MAX_TASKS \<and> ts_home_core (tasks (sys_k \<sigma>) i) = c \<and> ts_state (tasks (sys_k \<sigma>) i) \<in> {Ready, Running}}"
proof -
  obtain L where ok: "sys_ok (sys_ph \<sigma>) (sys_k \<sigma>) (sys_w \<sigma>) L" by (rule reachable_ok [OF assms(1)])
  note place = sys_okD(3) [OF ok]
  let ?s = "sys_k \<sigma>" and ?v = "view (sys_ph \<sigma>) (sys_k \<sigma>) (sys_w \<sigma>) L"
  let ?run = "{i. i < MAX_TASKS \<and> ts_home_core (tasks ?s i) = c \<and> ts_state (tasks ?s i) = Running}"
  have fin: "finite (queued L c)" using place_inv_finite [OF place assms(2)] by simp
  have q: "queued L c = {i. i < MAX_TASKS \<and> ts_home_core (tasks ?s i) = c \<and> ts_state (tasks ?s i) = Ready}"
    using placeD(1) [OF place assms(2)] placeD(2) [OF place] by auto
  have "running_count ?v c = card ?run"
  proof (cases "\<exists>i. phase_task (sys_ph \<sigma> c) = Some i \<and> ts_state (tasks ?s i) = Running")
    case True
    then obtain i where i: "phase_task (sys_ph \<sigma> c) = Some i" "ts_state (tasks ?s i) = Running" by blast
    have "x = i" if "x \<in> ?run" for x
      using placeD(5) [OF place, of x] that i(1) by auto
    moreover have "i \<in> ?run" using occupied(3,5) [OF ok assms(2) i(1)] i(2) by simp
    ultimately have "?run = {i}" by blast
    with i show ?thesis by (simp add: running_count_def)
  next
    case False
    have "?run = {}" using False placeD(5) [OF place] by fastforce
    with False show ?thesis by (auto simp: running_count_def split: option.splits)
  qed
  moreover have "runnable_tasks_count ?s c = card (queued L c) + running_count ?v c"
    using sys_okD(5) [OF ok] assms(2) by (simp add: run_inv_def)
  moreover have "card (queued L c \<union> ?run) = card (queued L c) + card ?run"
  proof (rule card_Un_disjoint [OF fin])
    show "queued L c \<inter> ?run = {}" unfolding q by (auto simp: disjoint_iff)
  qed simp
  moreover have "queued L c \<union> ?run = {i. i < MAX_TASKS \<and> ts_home_core (tasks ?s i) = c \<and> ts_state (tasks ?s i) \<in> {Ready, Running}}"
    unfolding q by blast
  ultimately show ?thesis by simp
qed

theorem runnable_count_exact_witness:
  "\<exists>\<sigma>. reachable \<sigma> \<and> card {i. i < MAX_TASKS \<and> ts_home_core (tasks (sys_k \<sigma>) i) = 1
     \<and> ts_state (tasks (sys_k \<sigma>) i) \<in> {Ready, Running}} = 1"
proof -
  obtain \<sigma> where s: "reachable \<sigma>" "runnable_tasks_count (sys_k \<sigma>) 1 = 1" by (rule started_state)
  with runnable_count_exact [OF s(1), of 1] show ?thesis by (auto simp: MAX_CORES_def)
qed

end
