(* ===== verification/Sched_Order.thy ===== *)
theory Sched_Order
  imports Sched_Props
begin

text \<open>
  Which task runs next. The run queue of a core is two families of lists, one list per priority, for
  the executing and the yielding tasks of an epoch; \<open>pick_next_task\<close> takes the oldest task of the
  highest level and starts a new epoch when the executing family is empty. When every task that
  runs uses up its slice, every ready task is reached.
\<close>

section \<open>The order of the queues\<close>

primrec walk :: "nat \<Rightarrow> task_table \<Rightarrow> nat \<Rightarrow> nat list" where
  "walk 0 t h = []"
| "walk (Suc n) t h = (if h < MAX_TASKS then h # walk n t (ts_next (t h)) else [])"

definition level_lists :: "task_table \<Rightarrow> slot_table \<Rightarrow> levels" where
  "level_lists t tab l = (if l < PRIORITY_LEVEL_COUNT then walk MAX_TASKS t (sq_head (st_queues tab ! l)) else [])"

definition queue_lists :: "task_table \<Rightarrow> core_run_queue \<Rightarrow> levels \<times> levels" where
  "queue_lists t rq = (level_lists t (executing_tasks rq), level_lists t (yielding_tasks rq))"

definition highest_level :: "levels \<Rightarrow> nat option" where
  "highest_level E = find (\<lambda>l. E l \<noteq> []) (rev [0..<PRIORITY_LEVEL_COUNT])"

text \<open>What a pick means on the lists: the slot it gives and the lists it leaves.\<close>

definition spec_pick :: "levels \<times> levels \<Rightarrow> nat \<times> levels \<times> levels" where
  "spec_pick = (\<lambda>(E, Y).
     let (X, Z) = (if highest_level E = None then (Y, E) else (E, Y)) in
     case highest_level X of
       None \<Rightarrow> (INVALID_SLOT, E, Y)
     | Some l \<Rightarrow> (hd (X l), X(l := tl (X l)), Z))"

lemma walk_path: "slot_path t h xs \<Longrightarrow> length xs \<le> n \<Longrightarrow> walk n t h = xs"
proof (induction n arbitrary: h xs)
  case (Suc n)
  then show ?case by (cases xs) auto
qed simp

lemma level_lists_rel: "table_rel t tab L \<Longrightarrow> level_lists t tab = L"
proof
  fix l assume rel: "table_rel t tab L"
  show "level_lists t tab l = L l"
  proof (cases "l < 8")
    case True
    then have q: "queue_rel t (st_queues tab ! l) (L l)" using rel by (simp add: table_rel_def)
    then have "walk MAX_TASKS t (sq_head (st_queues tab ! l)) = L l"
      using queue_rel_length [OF q] by (auto simp: queue_rel_def intro: walk_path)
    with True show ?thesis by (simp add: level_lists_def PRIORITY_LEVEL_COUNT_def MAX_PRIORITY_def)
  next
    case False
    with rel show ?thesis by (simp add: level_lists_def table_rel_def PRIORITY_LEVEL_COUNT_def MAX_PRIORITY_def)
  qed
qed

lemma queue_lists_rel:
  "tables_rel t rqs L \<Longrightarrow> c < MAX_CORES \<Longrightarrow> queue_lists t (rqs c) = (L c True, L c False)"
  using level_lists_rel tables_relD(1) [of t rqs L c True] tables_relD(1) [of t rqs L c False]
  by (simp add: queue_lists_def queue_tab_def)

lemma highest_level_None:
  assumes "\<forall>l \<ge> 8. E l = []"
  shows "highest_level E = None \<longleftrightarrow> (\<forall>l. E l = [])"
  using assms by (auto simp: highest_level_def find_None_iff PRIORITY_LEVEL_COUNT_def MAX_PRIORITY_def)
    (metis not_le)

lemma find_skip: "find P xs = None \<Longrightarrow> find P (xs @ ys) = find P ys"
  by (induction xs) (auto split: if_splits)

lemma highest_level_Some:
  assumes "\<forall>k > l. E k = []" "E l \<noteq> []" "l < 8"
  shows "highest_level E = Some l"
proof -
  have n: "PRIORITY_LEVEL_COUNT = Suc l + (8 - Suc l)" using assms(3) by (simp add: PRIORITY_LEVEL_COUNT_def MAX_PRIORITY_def)
  have split: "[0..<PRIORITY_LEVEL_COUNT] = [0..<l] @ [l] @ [Suc l..<Suc l + (8 - Suc l)]"
    unfolding n by (subst upt_add_eq_append) simp_all
  have "find (\<lambda>l. E l \<noteq> []) (rev [Suc l..<Suc l + (8 - Suc l)]) = None" using assms(1) by (auto simp: find_None_iff)
  then show ?thesis using assms(2) by (simp add: highest_level_def split find_skip)
qed

lemma levels_above: "tables_rel t rqs L \<Longrightarrow> c < MAX_CORES \<Longrightarrow> \<forall>l \<ge> 8. L c e l = []"
  using tables_relD(1) [of t rqs L c e] by (simp add: table_rel_def)

lemma swap_levels_spec:
  assumes "tables_rel t rqs L" "c < MAX_CORES"
  shows "(if highest_level (L c True) = None then (L c False, L c True) else (L c True, L c False))
    = (swap_levels (L c) True, swap_levels (L c) False)"
  using highest_level_None [OF levels_above [OF assms, of True]] by (simp add: swap_levels_def)

lemma pick_spec:
  assumes rel: "tables_rel t rqs L" and c: "c < MAX_CORES"
  shows "\<exists>i rq'. pick_next_task (rqs c) t = Ok (i, rq') \<and> (i, queue_lists t rq') = spec_pick (queue_lists t (rqs c))"
proof (cases rule: pick_next_task_sim [OF rel c])
  case 1
  then have e: "\<forall>l. L c True l = []" "\<forall>l. L c False l = []"
    by (auto simp: queued_def slots_of_empty)
  then have h: "highest_level (L c True) = None" "highest_level (L c False) = None"
    using highest_level_None levels_above [OF rel c] by blast+
  show ?thesis using 1(2) h by (simp add: spec_pick_def queue_lists_rel [OF rel c])
next
  case (2 l x xs rq')
  have l8: "l < 8" using 2(1) levels_above [OF rel c] by (metis list.distinct(1) not_less swap_levels_def)
  have h: "highest_level (swap_levels (L c) True) = Some l" by (rule highest_level_Some) (use 2 l8 in auto)
  have q: "queue_lists t rq' = ((swap_levels (L c) True)(l := xs), swap_levels (L c) False)"
    using queue_lists_rel [OF 2(4) c] by simp
  have "spec_pick (queue_lists t (rqs c)) = (x, queue_lists t rq')"
    unfolding queue_lists_rel [OF rel c] spec_pick_def prod.case swap_levels_spec [OF rel c] q by (simp add: h 2(1))
  with 2(3) show ?thesis by simp
qed

text \<open>C19: Picking a task is picking from lists: in every reachable state \<open>pick_next_task\<close> returns the
  oldest task of the highest non-empty priority level among the executing tasks, or, when there are
  none, swaps the two families first (a new epoch), and it changes nothing else about the order of the queues.\<close>

theorem pick_highest_oldest:
  assumes "reachable \<sigma>" "c < MAX_CORES"
  shows "\<exists>i rq'. pick_next_task (run_queues (sys_k \<sigma>) c) (tasks (sys_k \<sigma>)) = Ok (i, rq')
    \<and> (i, queue_lists (tasks (sys_k \<sigma>)) rq') = spec_pick (queue_lists (tasks (sys_k \<sigma>)) (run_queues (sys_k \<sigma>) c))"
  using reachable_ok [OF assms(1)] pick_spec [OF sys_okD(1) assms(2)] by metis

theorem pick_highest_oldest_witness:
  "\<exists>\<sigma> rq'. reachable \<sigma> \<and> ts_state (tasks (sys_k \<sigma>) 0) = Ready
    \<and> pick_next_task (run_queues (sys_k \<sigma>) 1) (tasks (sys_k \<sigma>)) = Ok (0, rq')
    \<and> (0, queue_lists (tasks (sys_k \<sigma>)) rq') = spec_pick (queue_lists (tasks (sys_k \<sigma>)) (run_queues (sys_k \<sigma>) 1))"
proof -
  let ?a = "StartTask (\<lambda>i. 4096 * i) 0 7 3 1 8192"
  have en: "enabled ?a sys_init"
    by (rule start_enabled_init) (simp_all add: MAX_CORES_def MAX_PRIORITY_def INVALID_PID_def)
  have "\<exists>\<sigma> rq. act ?a sys_init = Ok \<sigma> \<and> ts_state (tasks (sys_k \<sigma>) 0) = Ready
      \<and> pick_next_task (run_queues (sys_k \<sigma>) 1) (tasks (sys_k \<sigma>)) = Ok (0, rq)"
    by (simp add: start_eval pick_eval)
  then obtain \<sigma> rq where r: "act ?a sys_init = Ok \<sigma>" "ts_state (tasks (sys_k \<sigma>) 0) = Ready"
    "pick_next_task (run_queues (sys_k \<sigma>) 1) (tasks (sys_k \<sigma>)) = Ok (0, rq)" by blast
  note reach = reach_step [OF reach_init en r(1)]
  have "(1::nat) < MAX_CORES" by (simp add: MAX_CORES_def)
  from pick_highest_oldest [OF reach this] show ?thesis using reach r(2,3) by auto
qed

section \<open>Every ready task gets its turn\<close>

text \<open>
  Rounds of a core whose tasks all use up their slices: a task is picked and, when its slice has
  ended, queued among the yielding tasks (\<open>core_run_scheduling\<close> with no ticks left). The result is
  the order in which tasks run.
\<close>

primrec slice_rounds :: "nat \<Rightarrow> core_run_queue \<Rightarrow> task_table \<Rightarrow> (unit, nat list) outcome" where
  "slice_rounds 0 rq t = Ok []"
| "slice_rounds (Suc n) rq t =
     and_then (pick_next_task rq t) (\<lambda>(i, rq).
       if i = INVALID_SLOT then Ok []
       else and_then (push_yielding_task i (ts_priority (t i)) rq t) (\<lambda>(rq, t).
         and_then (slice_rounds n rq t) (\<lambda>order. Ok (i # order))))"

definition turns_left :: "core_levels \<Rightarrow> nat \<Rightarrow> nat \<Rightarrow> nat" where
  "turns_left L c x = (if x \<in> slots_of (L c True) then card (slots_of (L c True))
     else card (slots_of (L c True)) + card (queued L c))"

lemma slots_finite: "tables_rel t rqs L \<Longrightarrow> c < MAX_CORES \<Longrightarrow> finite (slots_of (L c e))"
  by (rule finite_subset [of _ "{..<MAX_TASKS}"]) (auto dest: table_rel_range [OF tables_relD(1)])

lemma one_turn:
  assumes rel: "tables_rel t rqs L" and c: "c < MAX_CORES" and x: "x \<in> queued L c"
    and prio: "\<And>i. i < MAX_TASKS \<Longrightarrow> i \<in> queued L c \<Longrightarrow> ts_priority (t i) \<le> 7"
  obtains i rq1 rq2 t2 L2 where "pick_next_task (rqs c) t = Ok (i, rq1)" "i < MAX_TASKS"
    "push_yielding_task i (ts_priority (t i)) rq1 t = Ok (rq2, t2)" "tables_rel t2 (rqs(c := rq2)) L2"
    "queued L2 c = queued L c" "(\<lambda>j. ts_priority (t2 j)) = (\<lambda>j. ts_priority (t j))"
    "i = x \<or> turns_left L2 c x < turns_left L c x"
proof (cases rule: pick_next_task_sim [OF rel c])
  case 1
  with x show ?thesis by simp
next
  case (2 l y ys rq1)
  let ?B = "swap_levels (L c)"
  define L1 where "L1 = L(c := ?B(True := (?B True)(l := ys)))"
  note L1 = 2(4,5) [folded L1_def]
  have ny: "y \<notin> queued L1 d" if "d < MAX_CORES" for d
  proof -
    have "d = c" if "y \<in> queued L d"
      using tables_relD(2) [OF rel \<open>d < MAX_CORES\<close> c] that 2(6) by (fastforce dest: queued_cases)
    then show ?thesis by (auto simp: L1(2))
  qed
  obtain rq2 t2 L2 where push: "push_task False y (ts_priority (t y)) rq1 t = Ok (rq2, t2)"
    and L2: "tables_rel t2 (rqs(c := rq2)) L2" "links_only UNIV t t2" "queued L2 = (queued L1)(c := insert y (queued L1 c))"
      "L2 = L1(c := (L1 c)(False := (L1 c False)(ts_priority (t y) := L1 c False (ts_priority (t y)) @ [y])))"
    using push_task_sim [OF L1(1) c prio [OF 2(7,6)] 2(7) ny, of False] unfolding fun_upd_upd fun_upd_same by metis
  have q: "queued L2 c = queued L c" using L2(3) L1(2) 2(6) by auto
  obtain tab where "table_rel t tab (?B True)"
    using tables_relD(1) [OF rel c] by (metis swap_levels_def)
  from slots_of_pop [OF this, of l "[]" y ys] 2(1) L2(4)
  have E2: "slots_of (L2 c True) = slots_of (?B True) - {y}" "y \<in> slots_of (?B True)" by (simp_all add: L1_def)
  have fin: "finite (slots_of (L c e))" for e by (rule slots_finite [OF rel c])
  have "turns_left L2 c x < turns_left L c x" if "y \<noteq> x"
  proof (cases "\<forall>l. L c True l = []")
    case True
    then have "slots_of (L c True) = {}" "?B True = L c False" by (simp_all add: slots_of_empty swap_levels_def)
    moreover from this have "queued L c = slots_of (L c False)" by (simp add: queued_def)
    ultimately show ?thesis using E2 x that card_Diff1_less [OF fin, of y False] by (simp add: turns_left_def)
  next
    case False
    then have "?B = L c" unfolding swap_levels_def by (rule if_not_P)
    with E2 that card_Diff1_less [OF fin, of y True] q show ?thesis by (simp add: turns_left_def)
  qed
  with that [OF 2(3,7) _ L2(1) q] push links_only_fields(3) [OF L2(2)] show ?thesis
    by (auto simp: push_task_def)
qed

lemma slice_rounds_reach:
  assumes "tables_rel t rqs L" "c < MAX_CORES" "x \<in> queued L c"
    and "\<And>i. i < MAX_TASKS \<Longrightarrow> i \<in> queued L c \<Longrightarrow> ts_priority (t i) \<le> 7"
  shows "\<exists>order. slice_rounds n (rqs c) t = Ok order \<and> (turns_left L c x \<le> n \<longrightarrow> 0 < n \<longrightarrow> x \<in> set order)"
  using assms
proof (induction n arbitrary: t rqs L)
  case 0
  then show ?case by simp
next
  case (Suc n)
  obtain i rq1 rq2 t2 L2 where turn: "pick_next_task (rqs c) t = Ok (i, rq1)" "i < MAX_TASKS"
    "push_yielding_task i (ts_priority (t i)) rq1 t = Ok (rq2, t2)" "tables_rel t2 (rqs(c := rq2)) L2"
    "queued L2 c = queued L c" "(\<lambda>j. ts_priority (t2 j)) = (\<lambda>j. ts_priority (t j))"
    "i = x \<or> turns_left L2 c x < turns_left L c x"
    by (rule one_turn [OF Suc.prems])
  have x: "x \<in> queued L2 c" using Suc.prems(3) turn(5) by simp
  have p: "ts_priority (t2 i) \<le> 7" if "i < MAX_TASKS" "i \<in> queued L2 c" for i
    using Suc.prems(4) [OF that(1)] that(2) turn(5) fun_cong [OF turn(6), of i] by simp
  obtain order where order: "slice_rounds n rq2 t2 = Ok order" "turns_left L2 c x \<le> n \<longrightarrow> 0 < n \<longrightarrow> x \<in> set order"
    using Suc.IH [OF turn(4) Suc.prems(2) x p] by auto
  have "0 < turns_left L2 c x"
  proof -
    have "finite (queued L2 c)" using slots_finite [OF turn(4) Suc.prems(2)] by (simp add: queued_def)
    then have "0 < card (queued L2 c)" using x card_gt_0_iff by blast
    moreover have "0 < card (slots_of (L2 c True))" if "x \<in> slots_of (L2 c True)"
      using that slots_finite [OF turn(4) Suc.prems(2)] card_gt_0_iff by blast
    ultimately show ?thesis by (simp add: turns_left_def)
  qed
  with order(2) turn(7) have "turns_left L c x \<le> Suc n \<longrightarrow> x \<in> set (i # order)" by auto
  with turn(1,2,3) order(1) show ?case by simp
qed

text \<open>C21: No ready task starves on a core whose tasks use up their slices: within twice as many
  rounds as the core has runnable tasks, every task that is ready on it at the beginning is picked, whatever
  the priorities of the others.\<close>

theorem ready_task_gets_turn:
  assumes "reachable \<sigma>" "c < MAX_CORES" "i < MAX_TASKS"
    and "ts_state (tasks (sys_k \<sigma>) i) = Ready" "ts_home_core (tasks (sys_k \<sigma>) i) = c"
  shows "\<exists>order. slice_rounds (2 * runnable_tasks_count (sys_k \<sigma>) c) (run_queues (sys_k \<sigma>) c) (tasks (sys_k \<sigma>)) = Ok order
    \<and> i \<in> set order"
proof -
  obtain L where ok: "sys_ok (sys_ph \<sigma>) (sys_k \<sigma>) (sys_w \<sigma>) L" by (rule reachable_ok [OF assms(1)])
  let ?s = "sys_k \<sigma>"
  note rel = sys_okD(1) [OF ok] and place = sys_okD(3) [OF ok]
  have q: "i \<in> queued L c" using placeD(2) [OF place assms(3)] assms(4,5) by simp
  have prio: "ts_priority (tasks ?s j) \<le> 7" if "j < MAX_TASKS" "j \<in> queued L c" for j
    using slotD(2) [OF sys_okD(4) [OF ok] that(1)] placeD(1) [OF place assms(2), of j] that(2) by auto
  have fin: "finite (queued L c)" using slots_finite [OF rel assms(2)] by (simp add: queued_def)
  have "card (slots_of (L c True)) \<le> card (queued L c)" by (rule card_mono [OF fin]) (auto simp: queued_def)
  moreover have "card (queued L c) \<le> runnable_tasks_count ?s c"
    using sys_okD(5) [OF ok] assms(2) by (simp add: run_inv_def)
  ultimately have "turns_left L c i \<le> 2 * runnable_tasks_count ?s c" by (simp add: turns_left_def)
  moreover have "0 < card (queued L c)" using q fin card_gt_0_iff by blast
  ultimately show ?thesis
    using slice_rounds_reach [OF rel assms(2) q prio, of "2 * runnable_tasks_count ?s c"] \<open>card (queued L c) \<le> _\<close> by auto
qed

theorem ready_task_gets_turn_witness:
  "\<exists>\<sigma> order. reachable \<sigma> \<and> slice_rounds 2 (run_queues (sys_k \<sigma>) 1) (tasks (sys_k \<sigma>)) = Ok order \<and> 0 \<in> set order"
proof -
  obtain \<sigma> where s: "reachable \<sigma>" "ts_state (tasks (sys_k \<sigma>) 0) = Ready" "ts_home_core (tasks (sys_k \<sigma>) 0) = 1"
    "runnable_tasks_count (sys_k \<sigma>) 1 = 1" by (rule started_state)
  with ready_task_gets_turn [OF s(1), of 1 0] show ?thesis by (auto simp: MAX_CORES_def MAX_TASKS_def)
qed

end
