(* ===== verification/Sched_Findings.thy ===== *)
theory Sched_Findings
  imports Sched_Order
begin

text \<open>
  Two places where the waiting loops of \<open>process/wait.rs\<close> and the scheduler do not fit together, each
  shown by a run from the boot state that the definitions compute.
\<close>

lemma find_slot_second:
  "1 < n \<Longrightarrow> \<not> p (t 0) \<Longrightarrow> p (t 1) \<Longrightarrow> find_slot_from p t [0..<n] = Some 1"
  by (simp add: upt_conv_Cons)

primrec run_actions :: "action list \<Rightarrow> system \<Rightarrow> (unit, system) outcome" where
  "run_actions [] \<sigma> = Ok \<sigma>"
| "run_actions (a # as) \<sigma> = and_then (act a \<sigma>) (run_actions as)"

lemmas wait_eval = block_round_def core_current_task_kill_pending_def core_current_task_ref_def
  get_current_process_for_core_def add_current_task_and_mark_blocked_def waiters_push_def waiter_list_new_def
  core_task_leave_run_queue_def sub_runnable_def core_run_scheduling_def get_slice_ticks_for_priority_def
  BASE_SLICE_TICKS_def core_switch_executing_yielding_def

text \<open>Slot 0 runs on core 1, slot 1 on core 2.\<close>

definition two_running :: "action list" where
  "two_running = [StartTask (\<lambda>i. 4096 * i) 0 7 3 1 8192, StartTask (\<lambda>i. 4096 * i) 0 8 3 2 8192,
     LoopRound 1 (\<lambda>c. False), LoopRound 2 (\<lambda>c. False)]"

text \<open>\<open>block_current_task_until_event\<close> reads its core number once and keeps it over the switches of its
  loop. When the task comes back on another core, a round of the loop reschedules the task of the
  old core: here the task of core 2 calls with the number 1, and the task that core 1 is
  executing becomes ready and queued while core 1 still executes it.\<close>

theorem stale_core_reschedules_running_task:
  "\<exists>\<sigma> wl s'. run_actions two_running sys_init = Ok \<sigma> \<and> ts_state (tasks (sys_k \<sigma>) 0) = Running
     \<and> block_round False False 1 2 (sys_w \<sigma> 0) (sys_k \<sigma>) = (Ok (Inr wl), s')
     \<and> current_slot s' 1 = 0 \<and> ts_on_cpu (tasks s' 0) \<and> ts_state (tasks s' 0) = Ready
     \<and> sq_head (st_queues (executing_tasks (run_queues s' 1)) ! 3) = 0"
  by (simp add: two_running_def start_eval pick_eval find_slot_second wait_eval)

text \<open>Slot 0 finds its kill flag clear, is asked to exit, and then goes to sleep until time 500.\<close>

definition kill_then_sleep :: "action list" where
  "kill_then_sleep = [StartTask (\<lambda>i. 4096 * i) 0 7 3 1 8192, LoopRound 1 (\<lambda>c. False), CheckKill 1,
     RequestKill 0 7 9, SleepUntil 1 500, SwitchOut 1, SwitchBack 1]"

lemmas sleep_eval = occupant_def find_slot_by_pid_def request_kill_def wake_task_def block_until_wake_time_def
  add_sleeping_task_def run_task_leave_def on_timer_tick_def wake_due_sleeping_tasks_def rq_wake_due_sleeping_tasks_def
  ref_is_stale_def

text \<open>A kill that arrives between the check of \<open>sleep_current_task_ms\<close> and the change to the blocked
  state is not noticed before the sleep ends, although the function blocks only until the task is asked
  to exit: the task is blocked with its kill flag set, and ticks before its wake time leave it so.\<close>

theorem kill_missed_while_falling_asleep:
  "\<exists>\<sigma> \<sigma>'. run_actions kill_then_sleep sys_init = Ok \<sigma> \<and> ts_kill_pending (tasks (sys_k \<sigma>) 0)
     \<and> act (TimerTick 1 499) \<sigma> = Ok \<sigma>' \<and> ts_state (tasks (sys_k \<sigma>') 0) = Blocked
     \<and> ts_kill_pending (tasks (sys_k \<sigma>') 0)"
  by (simp add: kill_then_sleep_def start_eval pick_eval wait_eval sleep_eval)

text \<open>The duration of the sleep system call comes from the user and is multiplied without a check:
  for any duration of more than about 584 thousand years the kernel panics, and for every
  shorter one that also fits when added to the clock the wake time is the sum.\<close>

lemma sleep_duration_overflow:
  "sleep_wake_time_us now_us duration_ms =
     (if now_us + duration_ms * 1000 < 2 ^ 64 then Ok (now_us + duration_ms * 1000) else Panic)"
  by (auto simp: sleep_wake_time_us_def MICROSECONDS_PER_MILLISECOND_def)

end
