(* ===== verification/Graphics.thy ===== *)
theory Graphics
  imports Frame_Alloc
begin

text \<open>
  The pixel side of the window system: colours (the integer parts of \<open>graphics/color.rs\<close>),
  rectangles and the double buffer of a window (\<open>graphics/window.rs\<close>), and the framebuffer
  (\<open>graphics/framebuffer.rs\<close>). A \<open>u32\<close> that is a coordinate or a size is a \<open>nat\<close>, an \<open>i32\<close> an
  \<open>int\<close>, with the overflow checks of the development profile; a pixel is a word. An access through
  a raw pointer that leaves its memory, or is not aligned, is undefined in the source and a panic
  here.
\<close>

section \<open>32-bit arithmetic\<close>

definition FRAMEBUFFER_BYTES_PER_PIXEL :: nat where
  "FRAMEBUFFER_BYTES_PER_PIXEL = 4"

definition u32_add :: "nat \<Rightarrow> nat \<Rightarrow> ('e, nat) outcome" where
  "u32_add a b = (if a + b < 2 ^ 32 then Ok (a + b) else Panic)"

definition u32_sub :: "nat \<Rightarrow> nat \<Rightarrow> ('e, nat) outcome" where
  "u32_sub a b = (if b \<le> a then Ok (a - b) else Panic)"

definition u32_mul :: "nat \<Rightarrow> nat \<Rightarrow> ('e, nat) outcome" where
  "u32_mul a b = (if a * b < 2 ^ 32 then Ok (a * b) else Panic)"

definition u64_mul :: "nat \<Rightarrow> nat \<Rightarrow> ('e, nat) outcome" where
  "u64_mul a b = (if a * b < 2 ^ 64 then Ok (a * b) else Panic)"

definition i32_ok :: "int \<Rightarrow> bool" where
  "i32_ok a \<longleftrightarrow> - (2 ^ 31) \<le> a \<and> a < 2 ^ 31"

definition i32_add :: "int \<Rightarrow> int \<Rightarrow> ('e, int) outcome" where
  "i32_add a b = (if i32_ok (a + b) then Ok (a + b) else Panic)"

text \<open>The casts \<open>as i32\<close> and \<open>as u32\<close> keep the low 32 bits.\<close>

definition as_i32 :: "nat \<Rightarrow> int" where
  "as_i32 n = (let m = int n mod 2 ^ 32 in if m < 2 ^ 31 then m else m - 2 ^ 32)"

definition as_u32 :: "int \<Rightarrow> nat" where
  "as_u32 i = nat (i mod 2 ^ 32)"

lemmas arith32_defs = u32_add_def u32_sub_def u32_mul_def u64_mul_def i32_add_def i32_ok_def

section \<open>Colours\<close>

record rgba =
  ch_r :: u8
  ch_g :: u8
  ch_b :: u8
  ch_a :: u8

text \<open>The channels \<open>r()\<close>, \<open>g()\<close>, \<open>b()\<close> of an \<open>Rgb888\<close>.\<close>

type_synonym rgb888 = "u8 \<times> u8 \<times> u8"

definition from_rgb :: "u8 \<Rightarrow> u8 \<Rightarrow> u8 \<Rightarrow> rgba" where
  "from_rgb r g b = \<lparr>ch_r = r, ch_g = g, ch_b = b, ch_a = 255\<rparr>"

definition from_rgb_emb :: "rgb888 \<Rightarrow> rgba" where
  "from_rgb_emb = (\<lambda>(r, g, b). \<lparr>ch_r = r, ch_g = g, ch_b = b, ch_a = 255\<rparr>)"

definition BLACK :: rgba where
  "BLACK = \<lparr>ch_r = 0, ch_g = 0, ch_b = 0, ch_a = 255\<rparr>"

definition from_u32_rgba8 :: "u32 \<Rightarrow> rgba" where
  "from_u32_rgba8 c = \<lparr>ch_r = ucast (drop_bit 24 c AND 0xFF), ch_g = ucast (drop_bit 16 c AND 0xFF),
     ch_b = ucast (drop_bit 8 c AND 0xFF), ch_a = ucast (c AND 0xFF)\<rparr>"

definition to_u32_rgba :: "rgba \<Rightarrow> u32" where
  "to_u32_rgba c = push_bit 24 (ucast (ch_r c)) OR push_bit 16 (ucast (ch_g c)) OR push_bit 8 (ucast (ch_b c))
     OR ucast (ch_a c)"

definition from_u32_xrgb :: "u32 \<Rightarrow> rgba" where
  "from_u32_xrgb c = \<lparr>ch_r = ucast (drop_bit 16 c AND 0xFF), ch_g = ucast (drop_bit 8 c AND 0xFF),
     ch_b = ucast (c AND 0xFF), ch_a = 255\<rparr>"

definition to_u32_xrgb :: "rgba \<Rightarrow> u32" where
  "to_u32_xrgb c = push_bit 16 (ucast (ch_r c)) OR push_bit 8 (ucast (ch_g c)) OR ucast (ch_b c)"

definition rgba_to_xrgb :: "rgba \<Rightarrow> u32" where
  "rgba_to_xrgb c = push_bit 16 (ucast (ch_r c)) OR push_bit 8 (ucast (ch_g c)) OR ucast (ch_b c)"

definition xrgb_to_rgba :: "u32 \<Rightarrow> rgba" where
  "xrgb_to_rgba c = \<lparr>ch_r = ucast (drop_bit 16 c AND 0xFF), ch_g = ucast (drop_bit 8 c AND 0xFF),
     ch_b = ucast (c AND 0xFF), ch_a = 255\<rparr>"

section \<open>Rectangles\<close>

record rect =
  r_x :: nat
  r_y :: nat
  r_width :: nat
  r_height :: nat

text \<open>
  \<open>contains\<close> and \<open>intersects\<close> stop at the first comparison that fails, so an overflow further on
  goes unnoticed.
\<close>

definition rect_contains :: "rect \<Rightarrow> nat \<Rightarrow> nat \<Rightarrow> ('e, bool) outcome" where
  "rect_contains s px py =
     (if px < r_x s then Ok False
      else and_then (u32_add (r_x s) (r_width s)) (\<lambda>right.
        if \<not> px < right \<or> py < r_y s then Ok False
        else and_then (u32_add (r_y s) (r_height s)) (\<lambda>bottom. Ok (py < bottom))))"

definition rect_intersects :: "rect \<Rightarrow> rect \<Rightarrow> ('e, bool) outcome" where
  "rect_intersects s t =
     and_then (u32_add (r_x t) (r_width t)) (\<lambda>t_right.
       if \<not> r_x s < t_right then Ok False
       else and_then (u32_add (r_x s) (r_width s)) (\<lambda>s_right.
         if \<not> r_x t < s_right then Ok False
         else and_then (u32_add (r_y t) (r_height t)) (\<lambda>t_bottom.
           if \<not> r_y s < t_bottom then Ok False
           else and_then (u32_add (r_y s) (r_height s)) (\<lambda>s_bottom. Ok (r_y t < s_bottom)))))"

definition get_intersection_rect :: "rect \<Rightarrow> rect \<Rightarrow> ('e, rect option) outcome" where
  "get_intersection_rect s t =
     and_then (u32_add (r_x s) (r_width s)) (\<lambda>self_right.
     and_then (u32_add (r_y s) (r_height s)) (\<lambda>self_bottom.
     and_then (u32_add (r_x t) (r_width t)) (\<lambda>other_right.
     and_then (u32_add (r_y t) (r_height t)) (\<lambda>other_bottom.
       if self_right \<le> r_x t \<or> other_right \<le> r_x s \<or> self_bottom \<le> r_y t \<or> other_bottom \<le> r_y s then Ok None
       else let x1 = max (r_x s) (r_x t); y1 = max (r_y s) (r_y t);
                x2 = min self_right other_right; y2 = min self_bottom other_bottom in
         and_then (u32_sub x2 x1) (\<lambda>w. and_then (u32_sub y2 y1) (\<lambda>h.
           Ok (Some \<lparr>r_x = x1, r_y = y1, r_width = w, r_height = h\<rparr>)))))))"

definition get_union_rect :: "rect \<Rightarrow> rect \<Rightarrow> ('e, rect) outcome" where
  "get_union_rect s t =
     and_then (u32_add (r_x s) (r_width s)) (\<lambda>self_right.
     and_then (u32_add (r_y s) (r_height s)) (\<lambda>self_bottom.
     and_then (u32_add (r_x t) (r_width t)) (\<lambda>other_right.
     and_then (u32_add (r_y t) (r_height t)) (\<lambda>other_bottom.
       let x = min (r_x s) (r_x t); y = min (r_y s) (r_y t);
           x2 = max self_right other_right; y2 = max self_bottom other_bottom in
         and_then (u32_sub x2 x) (\<lambda>w. and_then (u32_sub y2 y) (\<lambda>h.
           Ok \<lparr>r_x = x, r_y = y, r_width = w, r_height = h\<rparr>))))))"

section \<open>Window buffers\<close>

text \<open>
  The two buffers are blocks of the kernel heap, named by their addresses; \<open>pixel_store\<close> holds the
  pixels of every block. The process that owns the window has the same pages mapped.
\<close>

type_synonym pixel_store = "nat \<Rightarrow> u32 list"

record window_buffer =
  wb_width :: nat
  wb_height :: nat
  wb_x :: int
  wb_y :: int
  wb_back :: nat
  wb_front :: nat
  needs_swap :: bool
  swap_count :: u32

text \<open>
  \<open>WindowBuffer::new\<close>; \<open>back_ptr\<close> and \<open>front_ptr\<close> are what the heap returns for the two zeroed
  blocks, 0 when it has none. A request of no bytes is undefined.
\<close>

definition window_buffer_new ::
    "nat \<Rightarrow> nat \<Rightarrow> nat \<Rightarrow> nat \<Rightarrow> int \<Rightarrow> int \<Rightarrow> pixel_store \<Rightarrow> ('e, window_buffer \<times> pixel_store) outcome" where
  "window_buffer_new back_ptr front_ptr width height x y px =
     and_then (u32_mul width height) (\<lambda>pixel_count.
       if pixel_count = 0 \<or> back_ptr = 0 \<or> front_ptr = 0 then Panic
       else Ok (\<lparr>wb_width = width, wb_height = height, wb_x = x, wb_y = y, wb_back = back_ptr, wb_front = front_ptr,
                 needs_swap = False, swap_count = 0\<rparr>,
                px(back_ptr := replicate pixel_count 0, front_ptr := replicate pixel_count 0)))"

definition present :: "window_buffer \<Rightarrow> window_buffer" where
  "present b = b\<lparr>needs_swap := True\<rparr>"

definition try_swap :: "window_buffer \<Rightarrow> bool \<times> window_buffer" where
  "try_swap b =
     (if \<not> needs_swap b then (False, b)
      else (True, b\<lparr>wb_back := wb_front b, wb_front := wb_back b, needs_swap := False, swap_count := swap_count b + 1\<rparr>))"

definition pixel_count :: "window_buffer \<Rightarrow> ('e, nat) outcome" where
  "pixel_count b = u32_mul (wb_width b) (wb_height b)"

definition page_count :: "window_buffer \<Rightarrow> ('e, nat) outcome" where
  "page_count b = and_then (pixel_count b) (\<lambda>n. Ok ((n * FRAMEBUFFER_BYTES_PER_PIXEL + (PAGE_SIZE - 1)) div PAGE_SIZE))"

definition get_bounding_rect :: "window_buffer \<Rightarrow> rect" where
  "get_bounding_rect b = \<lparr>r_x = as_u32 (wb_x b), r_y = as_u32 (wb_y b), r_width = wb_width b, r_height = wb_height b\<rparr>"

definition pixel_offset :: "window_buffer \<Rightarrow> nat \<Rightarrow> nat \<Rightarrow> ('e, nat) outcome" where
  "pixel_offset b x y = and_then (u32_mul y (wb_width b)) (\<lambda>row. u32_add row x)"

definition write_pixel_unchecked ::
    "window_buffer \<Rightarrow> pixel_store \<Rightarrow> nat \<Rightarrow> nat \<Rightarrow> rgba \<Rightarrow> ('e, window_buffer \<times> pixel_store) outcome" where
  "write_pixel_unchecked b px x y color =
     and_then (pixel_offset b x y) (\<lambda>offset.
       if offset < length (px (wb_back b))
       then Ok (b\<lparr>needs_swap := True\<rparr>, px(wb_back b := (px (wb_back b))[offset := rgba_to_xrgb color]))
       else Panic)"

definition window_write_pixel ::
    "window_buffer \<Rightarrow> pixel_store \<Rightarrow> nat \<Rightarrow> nat \<Rightarrow> rgba \<Rightarrow> ('e, window_buffer \<times> pixel_store) outcome" where
  "window_write_pixel b px x y color =
     (if x < wb_width b \<and> y < wb_height b then write_pixel_unchecked b px x y color else Ok (b, px))"

primrec clear_loop :: "nat \<Rightarrow> u32 \<Rightarrow> nat list \<Rightarrow> pixel_store \<Rightarrow> ('e, pixel_store) outcome" where
  "clear_loop p xrgb [] px = Ok px"
| "clear_loop p xrgb (i # is) px =
     (if i < length (px p) then clear_loop p xrgb is (px(p := (px p)[i := xrgb])) else Panic)"

definition window_clear :: "window_buffer \<Rightarrow> pixel_store \<Rightarrow> rgba \<Rightarrow> ('e, window_buffer \<times> pixel_store) outcome" where
  "window_clear b px color =
     and_then (u32_mul (wb_width b) (wb_height b)) (\<lambda>n.
     and_then (clear_loop (wb_back b) (rgba_to_xrgb color) [0..<n] px) (\<lambda>px'.
       Ok (b\<lparr>needs_swap := True\<rparr>, px')))"

definition read_pixel_unchecked :: "window_buffer \<Rightarrow> pixel_store \<Rightarrow> nat \<Rightarrow> nat \<Rightarrow> ('e, rgba) outcome" where
  "read_pixel_unchecked b px x y =
     and_then (pixel_offset b x y) (\<lambda>offset.
       if offset < length (px (wb_front b)) then Ok (xrgb_to_rgba (px (wb_front b) ! offset)) else Panic)"

definition read_pixel :: "window_buffer \<Rightarrow> pixel_store \<Rightarrow> nat \<Rightarrow> nat \<Rightarrow> ('e, rgba) outcome" where
  "read_pixel b px x y =
     (if x < wb_width b \<and> y < wb_height b then read_pixel_unchecked b px x y else Ok BLACK)"

text \<open>\<open>draw_iter\<close> of the back buffer; a negative coordinate becomes a large one.\<close>

primrec window_draw_iter ::
    "((int \<times> int) \<times> rgb888) list \<Rightarrow> window_buffer \<Rightarrow> pixel_store \<Rightarrow> ('e, window_buffer \<times> pixel_store) outcome" where
  "window_draw_iter [] b px = Ok (b, px)"
| "window_draw_iter (p # ps) b px =
     (case p of ((x, y), color) \<Rightarrow>
       and_then (window_write_pixel b px (as_u32 x) (as_u32 y) (from_rgb_emb color)) (\<lambda>(b', px').
         window_draw_iter ps b' px'))"

section \<open>The framebuffer\<close>

text \<open>
  The memory is \<open>height * pitch\<close> bytes from a base that is a multiple of four, read and written in
  pixels.
\<close>

record framebuffer =
  fb_width :: nat
  fb_height :: nat
  fb_pitch :: nat
  fb_mem :: "u32 list"

definition fb_size :: "framebuffer \<Rightarrow> ('e, nat) outcome" where
  "fb_size fb = u64_mul (fb_height fb) (fb_pitch fb)"

definition fb_store :: "nat \<Rightarrow> u32 list \<Rightarrow> framebuffer \<Rightarrow> ('e, framebuffer) outcome" where
  "fb_store offset px fb =
     (if offset mod 4 = 0 \<and> offset div 4 + length px \<le> length (fb_mem fb)
      then Ok (fb\<lparr>fb_mem := blit (offset div 4) px (fb_mem fb)\<rparr>) else Panic)"

definition fb_offset :: "framebuffer \<Rightarrow> nat \<Rightarrow> nat \<Rightarrow> ('e, nat) outcome" where
  "fb_offset fb x y =
     and_then (u64_mul y (fb_pitch fb)) (\<lambda>row.
     and_then (u64_mul x FRAMEBUFFER_BYTES_PER_PIXEL) (\<lambda>col.
       if row + col < 2 ^ 64 then Ok (row + col) else Panic))"

definition xrgb_of :: "rgb888 \<Rightarrow> u32" where
  "xrgb_of = (\<lambda>(r, g, b). push_bit 16 (ucast r) OR push_bit 8 (ucast g) OR ucast b)"

definition fb_write_pixel :: "nat \<Rightarrow> nat \<Rightarrow> rgb888 \<Rightarrow> framebuffer \<Rightarrow> ('e, framebuffer) outcome" where
  "fb_write_pixel x y color fb =
     (if fb_width fb \<le> x \<or> fb_height fb \<le> y then Ok fb
      else and_then (fb_offset fb x y) (\<lambda>px_offset. fb_store px_offset [xrgb_of color] fb))"

text \<open>\<open>src\<close> are the pixels that can be read from the source pointer on.\<close>

definition copy_row :: "u32 list \<Rightarrow> nat \<Rightarrow> nat \<Rightarrow> nat \<Rightarrow> framebuffer \<Rightarrow> ('e, framebuffer) outcome" where
  "copy_row src dst_y dst_x width fb =
     (if fb_height fb \<le> dst_y \<or> fb_width fb \<le> dst_x then Ok fb
      else let copy_width = min width (fb_width fb - dst_x) in
        and_then (fb_offset fb dst_x dst_y) (\<lambda>dst_offset.
          if copy_width \<le> length src then fb_store dst_offset (take copy_width src) fb else Panic))"

primrec fill_cols :: "nat \<Rightarrow> u32 \<Rightarrow> nat list \<Rightarrow> framebuffer \<Rightarrow> ('e, framebuffer) outcome" where
  "fill_cols row_offset c [] fb = Ok fb"
| "fill_cols row_offset c (col # cols) fb =
     and_then (fb_store (row_offset + 4 * col) [c] fb) (\<lambda>fb'. fill_cols row_offset c cols fb')"

primrec fill_rows :: "nat \<Rightarrow> nat \<Rightarrow> nat \<Rightarrow> u32 \<Rightarrow> nat list \<Rightarrow> framebuffer \<Rightarrow> ('e, framebuffer) outcome" where
  "fill_rows x y width c [] fb = Ok fb"
| "fill_rows x y width c (row # rows) fb =
     and_then (fb_offset fb x (y + row)) (\<lambda>row_offset.
     and_then (fill_cols row_offset c [0..<width] fb) (\<lambda>fb'. fill_rows x y width c rows fb'))"

definition fill_rect :: "nat \<Rightarrow> nat \<Rightarrow> nat \<Rightarrow> nat \<Rightarrow> rgb888 \<Rightarrow> framebuffer \<Rightarrow> ('e, framebuffer) outcome" where
  "fill_rect x y width height color fb =
     (let x = min x (fb_width fb); y = min y (fb_height fb);
          width = min width (fb_width fb - x); height = min height (fb_height fb - y) in
      fill_rows x y width (xrgb_of color) [0..<height] fb)"

definition as_u64 :: "int \<Rightarrow> nat" where
  "as_u64 i = nat (i mod 2 ^ 64)"

primrec fb_draw_iter :: "((int \<times> int) \<times> rgb888) list \<Rightarrow> framebuffer \<Rightarrow> ('e, framebuffer) outcome" where
  "fb_draw_iter [] fb = Ok fb"
| "fb_draw_iter (p # ps) fb =
     (case p of ((x, y), color) \<Rightarrow>
       and_then (fb_write_pixel (as_u64 x) (as_u64 y) color fb) (\<lambda>fb'. fb_draw_iter ps fb'))"

section \<open>Colours survive the framebuffer format\<close>

lemma bit_ff: "bit (255 :: int) n \<longleftrightarrow> n < 8"
  using bit_mask_iff [of 8 n, where 'a = int] by (simp add: mask_eq_exp_minus_1)

lemma xrgb_channels:
  "(ucast (drop_bit 16 (to_u32_xrgb c) AND 0xFF) :: u8) = ch_r c"
  "(ucast (drop_bit 8 (to_u32_xrgb c) AND 0xFF) :: u8) = ch_g c"
  "(ucast (to_u32_xrgb c AND 0xFF) :: u8) = ch_b c"
  by (rule bit_word_eqI; auto simp: to_u32_xrgb_def bit_simps bit_ff)+

lemma rgba_channels:
  "(ucast (drop_bit 24 (to_u32_rgba c) AND 0xFF) :: u8) = ch_r c"
  "(ucast (drop_bit 16 (to_u32_rgba c) AND 0xFF) :: u8) = ch_g c"
  "(ucast (drop_bit 8 (to_u32_rgba c) AND 0xFF) :: u8) = ch_b c"
  "(ucast (to_u32_rgba c AND 0xFF) :: u8) = ch_a c"
  by (rule bit_word_eqI; auto simp: to_u32_rgba_def bit_simps bit_ff)+

lemma rgba_roundtrip: "from_u32_rgba8 (to_u32_rgba c) = c"
  by (simp add: from_u32_rgba8_def rgba_channels)

lemma to_from_rgba: "to_u32_rgba (from_u32_rgba8 w) = w"
proof (rule bit_word_eqI)
  fix n assume "n < LENGTH(32)"
  then show "bit (to_u32_rgba (from_u32_rgba8 w)) n = bit w n"
    by (cases "n < 8"; cases "n < 16"; cases "n < 24")
      (simp_all add: to_u32_rgba_def from_u32_rgba8_def bit_simps bit_ff not_less less_diff_conv2)
qed

lemma xrgb_roundtrip: "xrgb_to_rgba (rgba_to_xrgb c) = c\<lparr>ch_a := 255\<rparr>"
  using xrgb_channels [of c] by (simp add: xrgb_to_rgba_def rgba_to_xrgb_def to_u32_xrgb_def)

section \<open>Rectangles as sets of points\<close>

definition rect_ok :: "rect \<Rightarrow> bool" where
  "rect_ok r \<longleftrightarrow> r_x r + r_width r < 2 ^ 32 \<and> r_y r + r_height r < 2 ^ 32"

definition in_rect :: "rect \<Rightarrow> nat \<Rightarrow> nat \<Rightarrow> bool" where
  "in_rect r px py \<longleftrightarrow> r_x r \<le> px \<and> px < r_x r + r_width r \<and> r_y r \<le> py \<and> py < r_y r + r_height r"

lemma rect_contains_iff: "rect_ok r \<Longrightarrow> rect_contains r px py = Ok (in_rect r px py)"
  by (auto simp: rect_contains_def in_rect_def rect_ok_def u32_add_def)

lemma rect_intersection_points:
  assumes "rect_ok s" "rect_ok t"
  shows "\<exists>r. get_intersection_rect s t = Ok r
    \<and> (\<forall>px py. (case r of Some u \<Rightarrow> rect_ok u \<and> in_rect u px py | None \<Rightarrow> False) = (in_rect s px py \<and> in_rect t px py))"
  using assms
  by (auto simp: get_intersection_rect_def rect_ok_def in_rect_def u32_add_def u32_sub_def Let_def)

lemma rect_intersects_iff:
  assumes "rect_ok s" "rect_ok t" "0 < r_width s" "0 < r_height s" "0 < r_width t" "0 < r_height t"
  shows "rect_intersects s t = Ok (\<exists>px py. in_rect s px py \<and> in_rect t px py)"
proof -
  have "(\<exists>px py. in_rect s px py \<and> in_rect t px py) \<longleftrightarrow>
    in_rect s (max (r_x s) (r_x t)) (max (r_y s) (r_y t)) \<and> in_rect t (max (r_x s) (r_x t)) (max (r_y s) (r_y t))"
  proof
    assume "\<exists>px py. in_rect s px py \<and> in_rect t px py"
    then obtain px py where "in_rect s px py \<and> in_rect t px py" by blast
    then show "in_rect s (max (r_x s) (r_x t)) (max (r_y s) (r_y t)) \<and> in_rect t (max (r_x s) (r_x t)) (max (r_y s) (r_y t))"
      by (simp add: in_rect_def)
  qed blast
  with assms show ?thesis
    by (auto simp: rect_intersects_def rect_ok_def in_rect_def u32_add_def)
qed

lemma rect_union_points:
  assumes "rect_ok s" "rect_ok t"
  shows "\<exists>u. get_union_rect s t = Ok u \<and> rect_ok u
    \<and> (\<forall>px py. in_rect s px py \<or> in_rect t px py \<longrightarrow> in_rect u px py)"
  using assms
  by (auto simp: get_union_rect_def rect_ok_def in_rect_def u32_add_def u32_sub_def Let_def)

section \<open>Drawing and presenting\<close>

definition window_buffer_ok :: "window_buffer \<Rightarrow> pixel_store \<Rightarrow> bool" where
  "window_buffer_ok b px \<longleftrightarrow> wb_width b * wb_height b < 2 ^ 32 \<and> wb_back b \<noteq> wb_front b
     \<and> length (px (wb_back b)) = wb_width b * wb_height b \<and> length (px (wb_front b)) = wb_width b * wb_height b"

lemma window_buffer_new_ok:
  assumes "0 < width" "0 < height" "width * height < 2 ^ 32" "back_ptr \<noteq> 0" "front_ptr \<noteq> 0" "back_ptr \<noteq> front_ptr"
  shows "\<exists>b px'. window_buffer_new back_ptr front_ptr width height x y px = Ok (b, px') \<and> window_buffer_ok b px'
    \<and> wb_width b = width \<and> wb_height b = height \<and> \<not> needs_swap b"
  using assms by (auto simp: window_buffer_new_def u32_mul_def window_buffer_ok_def)

lemma row_major_less: "x < w \<Longrightarrow> y < h \<Longrightarrow> y * w + x < w * (h :: nat)"
proof -
  assume "x < w" "y < h"
  then have "y * w + x < Suc y * w" by simp
  also have "\<dots> \<le> h * w" using \<open>y < h\<close> by (intro mult_le_mono1) simp
  finally show ?thesis by (simp add: mult.commute)
qed

lemma row_major_inj:
  "x < w \<Longrightarrow> x' < w \<Longrightarrow> y * w + x = y' * w + (x' :: nat) \<longleftrightarrow> x = x' \<and> y = y'"
  by (metis add.commute div_mult_self3 div_less add_0 mod_mult_self3 mod_less gr_implies_not0)

lemma pixel_offset_ok:
  assumes "window_buffer_ok b px" "x < wb_width b" "y < wb_height b"
  shows "pixel_offset b x y = Ok (y * wb_width b + x)" "y * wb_width b + x < wb_width b * wb_height b"
  using row_major_less [OF assms(2,3)] assms(1)
  by (auto simp: pixel_offset_def u32_mul_def u32_add_def window_buffer_ok_def)

lemma window_write_pixel_ok:
  assumes "window_buffer_ok b px" "x < wb_width b" "y < wb_height b"
  shows "window_write_pixel b px x y c =
    Ok (b\<lparr>needs_swap := True\<rparr>, px(wb_back b := (px (wb_back b))[y * wb_width b + x := rgba_to_xrgb c]))"
  using assms pixel_offset_ok(2) [OF assms]
  by (simp add: window_write_pixel_def write_pixel_unchecked_def pixel_offset_ok [OF assms] window_buffer_ok_def)

lemma read_pixel_ok:
  assumes "window_buffer_ok b px" "x < wb_width b" "y < wb_height b"
  shows "read_pixel b px x y = Ok (xrgb_to_rgba (px (wb_front b) ! (y * wb_width b + x)))"
  using assms pixel_offset_ok(2) [OF assms]
  by (simp add: read_pixel_def read_pixel_unchecked_def pixel_offset_ok [OF assms] window_buffer_ok_def)

lemma try_swap_ok: "window_buffer_ok b px \<Longrightarrow> window_buffer_ok (snd (try_swap b)) px"
  by (simp add: window_buffer_ok_def try_swap_def)

text \<open>Double buffering. A pixel drawn into a window is not seen by the reader of the front buffer
  until the buffers are swapped; after the swap the reader gets it back, opaque, and gets what the
  back buffer held everywhere else.\<close>

theorem drawn_pixel_presented:
  assumes "window_buffer_ok b px" "x < wb_width b" "y < wb_height b" "x' < wb_width b" "y' < wb_height b"
  shows "\<exists>b' px'. window_write_pixel b px x y c = Ok (b', px')
    \<and> read_pixel b' px' x' y' = read_pixel b px x' y'
    \<and> fst (try_swap b') \<and> window_buffer_ok (snd (try_swap b')) px'
    \<and> read_pixel (snd (try_swap b')) px' x' y' =
        Ok (if x' = x \<and> y' = y then c\<lparr>ch_a := 255\<rparr> else xrgb_to_rgba (px (wb_back b) ! (y' * wb_width b + x')))"
proof -
  define b' where "b' = b\<lparr>needs_swap := True\<rparr>"
  define px' where "px' = px(wb_back b := (px (wb_back b))[y * wb_width b + x := rgba_to_xrgb c])"
  have ok: "window_buffer_ok b' px'" using assms(1) by (simp add: window_buffer_ok_def b'_def px'_def)
  have dims: "x' < wb_width b'" "y' < wb_height b'" "x' < wb_width (snd (try_swap b'))" "y' < wb_height (snd (try_swap b'))"
    using assms by (simp_all add: b'_def try_swap_def)
  have "xrgb_to_rgba (px' (wb_front b') ! (y' * wb_width b' + x')) = xrgb_to_rgba (px (wb_front b) ! (y' * wb_width b + x'))"
    using assms(1) by (simp add: b'_def px'_def window_buffer_ok_def)
  moreover have "xrgb_to_rgba (px' (wb_front (snd (try_swap b'))) ! (y' * wb_width (snd (try_swap b')) + x')) =
      (if x' = x \<and> y' = y then c\<lparr>ch_a := 255\<rparr> else xrgb_to_rgba (px (wb_back b) ! (y' * wb_width b + x')))"
    using assms(1) pixel_offset_ok(2) [OF assms(1-3)] row_major_inj [OF assms(2,4), of y y']
    by (auto simp: b'_def px'_def try_swap_def window_buffer_ok_def xrgb_roundtrip nth_list_update)
  moreover have "window_write_pixel b px x y c = Ok (b', px')"
    unfolding b'_def px'_def by (rule window_write_pixel_ok [OF assms(1-3)])
  moreover have "fst (try_swap b')" by (simp add: b'_def try_swap_def)
  ultimately show ?thesis
    using try_swap_ok [OF ok]
    by (intro exI [of _ b'] exI [of _ px'])
      (simp add: read_pixel_ok [OF ok dims(1,2)] read_pixel_ok [OF assms(1,4,5)] read_pixel_ok [OF try_swap_ok [OF ok] dims(3,4)])
qed

definition sample_buffer :: window_buffer where
  "sample_buffer = \<lparr>wb_width = 2, wb_height = 2, wb_x = 0, wb_y = 0, wb_back = 4096, wb_front = 8192, needs_swap = False, swap_count = 0\<rparr>"

theorem drawn_pixel_presented_witness:
  "\<exists>b' px'. window_write_pixel sample_buffer (\<lambda>_. replicate 4 0) 1 0 (from_rgb 9 8 7) = (Ok (b', px') :: (unit, _) outcome)
    \<and> read_pixel (snd (try_swap b')) px' 1 0 = (Ok (from_rgb 9 8 7) :: (unit, _) outcome)"
proof -
  have "window_buffer_ok sample_buffer (\<lambda>_. replicate 4 0)" by (simp add: window_buffer_ok_def sample_buffer_def)
  from drawn_pixel_presented [OF this, of 1 0 1 0 "from_rgb 9 8 7"] show ?thesis
    by (simp add: sample_buffer_def from_rgb_def) blast
qed

end
