(* ===== verification/Compositor.thy ===== *)
theory Compositor
  imports Graphics Event_Buffer Processes
begin

text \<open>
  The window system (\<open>graphics/compositor.rs\<close> and the window calls of \<open>process/syscall.rs\<close>): windows
  and their identifiers, focus and stacking, the delivery of input, and the composition of a frame.
  The state \<open>desktop\<close> holds the compositor and what it works on: the process manager with the memory
  and the scheduler (\<open>Processes\<close>), the event rings by the kernel address of their page, the pixels of
  the window buffers, and the input ring that the interrupt handlers fill. The compositor is behind a
  lock, so its operations run one at a time.
\<close>

section \<open>State\<close>

definition INVALID_WINDOW_ID :: nat where "INVALID_WINDOW_ID = 2 ^ 32 - 1"
definition NORMALIZE_Z_INDEX_THRESHOLD :: nat where "NORMALIZE_Z_INDEX_THRESHOLD = 250"
definition CURSOR_COLOR_XRGB :: u32 where "CURSOR_COLOR_XRGB = 0xFFAAAAFF"
definition CLEAR_COLOR_XRGB :: u32 where "CLEAR_COLOR_XRGB = 0xFF000000"
definition CURSOR_SIZE_X :: int where "CURSOR_SIZE_X = 3"
definition CURSOR_SIZE_Y :: int where "CURSOR_SIZE_Y = 10"
definition KEY_COUNT :: nat where "KEY_COUNT = 256"
definition PROCESS_WINDOW_BUFFER_HARD_MAX_SIZE :: nat where "PROCESS_WINDOW_BUFFER_HARD_MAX_SIZE = 64 * 1024 * 1024"
definition PROCESS_EVENT_BUFFER_BASE :: nat where "PROCESS_EVENT_BUFFER_BASE = 0x800000000"

record window =
  w_id :: nat
  w_owner_pid :: nat
  w_x :: int
  w_y :: int
  w_z_index :: nat
  w_visible :: bool
  w_buffer :: window_buffer
  w_event_buffer :: "nat option"
  w_event_phys :: nat

record compositor =
  cw_width :: nat
  cw_height :: nat
  next_window_id :: nat
  focused_window :: nat
  free_window_ids :: "nat list"
  windows :: "window list"
  mouse_x :: int
  mouse_y :: int
  cursor_visible :: bool
  last_drawn_x :: int
  last_drawn_y :: int
  kbd_state :: keyboard_state

record desktop =
  d_comp :: compositor
  d_kernel :: kernel
  d_events :: "nat \<Rightarrow> event_buffer"
  d_pixels :: pixel_store
  d_input :: event_buffer
  d_shared_focus :: nat
  d_input_waiters :: waiter_list

type_synonym 'a dcall = "(desktop, unit, 'a) call"

text \<open>The codes of the three keys the compositor knows, from the keyboard driver.\<close>

record key_codes =
  kc_lalt :: u8
  kc_arrow_left :: u8
  kc_arrow_right :: u8

definition compositor_new :: "nat \<Rightarrow> nat \<Rightarrow> compositor" where
  "compositor_new width height =
     \<lparr>cw_width = width, cw_height = height, next_window_id = 0, focused_window = INVALID_WINDOW_ID, free_window_ids = [],
      windows = [], mouse_x = 0, mouse_y = 0, cursor_visible = True, last_drawn_x = 0, last_drawn_y = 0,
      kbd_state = keyboard_new\<rparr>"

definition set_comp :: "(compositor \<Rightarrow> compositor) \<Rightarrow> unit dcall" where
  "set_comp f = modify (\<lambda>d. d\<lparr>d_comp := f (d_comp d)\<rparr>)"

definition on_kernel :: "(kernel, 'e, 'a) call \<Rightarrow> (desktop, 'e, 'a) call" where
  "on_kernel m = (\<lambda>d. case m (d_kernel d) of (r, k) \<Rightarrow> (r, d\<lparr>d_kernel := k\<rparr>))"

text \<open>A change of the memory layout of a process that has been looked up before.\<close>

definition with_layout :: "nat \<Rightarrow> (process, 'e, 'a) call \<Rightarrow> (kernel, 'e, 'a) call" where
  "with_layout pid m = (\<lambda>k.
     case List.find (\<lambda>p. pr_pid p = pid) (pm_processes (k_pm k)) of
       None \<Rightarrow> (Panic, k)
     | Some p \<Rightarrow> (case m (pr_memory_layout p, k_machine k) of
         (r, (l, s)) \<Rightarrow> (r, k\<lparr>k_machine := s, k_pm := (k_pm k)\<lparr>pm_processes :=
            update_first (\<lambda>p. pr_pid p = pid) (\<lambda>p. p\<lparr>pr_memory_layout := l\<rparr>) (pm_processes (k_pm k))\<rparr>\<rparr>)))"

definition free_frame :: "nat \<Rightarrow> (kernel, 'e, unit) call" where
  "free_frame phys = on_machine (lift_frames (deallocate_frame (containing_address phys)))"

definition set_events :: "nat \<Rightarrow> event_buffer \<Rightarrow> unit dcall" where
  "set_events a b = modify (\<lambda>d. d\<lparr>d_events := (d_events d)(a := b)\<rparr>)"

text \<open>\<open>let _ = event_buffer.push(event)\<close>: a full ring drops the event.\<close>

definition push_event :: "nat \<Rightarrow> input_event \<Rightarrow> unit dcall" where
  "push_event a e = reading (\<lambda>d. case eb_push (d_events d a) e of
     Ok b \<Rightarrow> set_events a b | Err _ \<Rightarrow> ret () | Panic \<Rightarrow> panic | Diverge \<Rightarrow> diverge)"

definition publish :: "nat \<Rightarrow> key_bitset \<Rightarrow> key_modifiers \<Rightarrow> unit dcall" where
  "publish a key_down m = reading (\<lambda>d. set_events a (publish_keyboard_state (d_events d a) key_down m))"

section \<open>Addresses of window buffers in the owning process\<close>

definition event_buffer_user_vaddr :: "nat \<Rightarrow> ('e, nat) outcome" where
  "event_buffer_user_vaddr window_id =
     (if window_id = INVALID_WINDOW_ID then Panic else Ok (PROCESS_EVENT_BUFFER_BASE + window_id * PAGE_SIZE))"

definition max_window_buffer_bytes :: "compositor \<Rightarrow> ('e, nat) outcome" where
  "max_window_buffer_bytes c =
     and_then (u64_mul (cw_width c) (cw_height c)) (\<lambda>n.
     and_then (u64_mul n FRAMEBUFFER_BYTES_PER_PIXEL) (\<lambda>framebuffer_bytes.
     and_then (align_up framebuffer_bytes PAGE_SIZE) (\<lambda>a.
       Ok (min a PROCESS_WINDOW_BUFFER_HARD_MAX_SIZE))))"

definition window_buffer_user_base :: "compositor \<Rightarrow> nat \<Rightarrow> ('e, nat) outcome" where
  "window_buffer_user_base c window_id =
     and_then (max_window_buffer_bytes c) (\<lambda>bytes.
     and_then (u64_mul 2 bytes) (\<lambda>slot_size.
     and_then (u64_mul window_id slot_size) (\<lambda>offset.
       if PROCESS_WINDOW_BUFFER_BASE + offset < 2 ^ 64 then Ok (PROCESS_WINDOW_BUFFER_BASE + offset) else Panic)))"

section \<open>Focus\<close>

definition update_window :: "nat \<Rightarrow> (window \<Rightarrow> window) \<Rightarrow> compositor \<Rightarrow> compositor" where
  "update_window i f c = c\<lparr>windows := (windows c)[i := f (windows c ! i)]\<rparr>"

definition set_z_index :: "nat \<Rightarrow> nat \<Rightarrow> unit dcall" where
  "set_z_index window_id z =
     (if window_id \<noteq> INVALID_WINDOW_ID
      then bind (require (\<lambda>d. window_id < length (windows (d_comp d)))) (\<lambda>_.
        set_comp (update_window window_id (\<lambda>w. w\<lparr>w_z_index := z\<rparr>)))
      else ret ())"

text \<open>The visible windows get their rank as stacking index, one byte wide; ties keep their order.\<close>

primrec assign_ranks :: "nat list \<Rightarrow> nat \<Rightarrow> window list \<Rightarrow> window list" where
  "assign_ranks [] i ws = ws"
| "assign_ranks (j # js) i ws = assign_ranks js (Suc i) (ws[j := (ws ! j)\<lparr>w_z_index := i mod 256\<rparr>])"

definition visible_by_z :: "window list \<Rightarrow> nat list" where
  "visible_by_z ws = sort_key (\<lambda>i. w_z_index (ws ! i)) (filter (\<lambda>i. w_visible (ws ! i)) [0..<length ws])"

definition normalize_z :: "window list \<Rightarrow> window list" where
  "normalize_z ws = assign_ranks (visible_by_z ws) 0 ws"

primrec release_keys :: "nat \<Rightarrow> key_bitset \<Rightarrow> nat list \<Rightarrow> unit dcall" where
  "release_keys a key_down [] = ret ()"
| "release_keys a key_down (key # keys) =
     bind (if key_bitset_test key_down (of_nat key) then push_event a (new_key_state (of_nat key) Released 0) else ret ())
       (\<lambda>_. release_keys a key_down keys)"

definition release_held_keys :: "nat \<Rightarrow> unit dcall" where
  "release_held_keys a = reading (\<lambda>d.
     bind (release_keys a (kb_down (kbd_state (d_comp d))) [0..<KEY_COUNT]) (\<lambda>_. publish a key_bitset_new 0))"

definition get_event_buffer :: "window list \<Rightarrow> nat \<Rightarrow> nat option" where
  "get_event_buffer ws i = (if i < length ws then w_event_buffer (ws ! i) else None)"

definition publish_current :: "nat \<Rightarrow> unit dcall" where
  "publish_current a = reading (\<lambda>d. publish a (kb_down (kbd_state (d_comp d))) (kb_modifiers (kbd_state (d_comp d))))"

definition when_some :: "'a option \<Rightarrow> ('a \<Rightarrow> unit dcall) \<Rightarrow> unit dcall" where
  "when_some x f = (case x of Some a \<Rightarrow> f a | None \<Rightarrow> ret ())"

definition max_z :: "window list \<Rightarrow> nat" where
  "max_z ws = Max (set (map w_z_index ws))"

definition focus_window :: "nat \<Rightarrow> unit dcall" where
  "focus_window window_id = reading (\<lambda>d.
     let old = focused_window (d_comp d) in
     if window_id = INVALID_WINDOW_ID \<or> window_id = old then ret ()
     else if windows (d_comp d) = [] then panic
     else let max_z_index = max_z (windows (d_comp d)) in
       if window_id < length (windows (d_comp d))
       then bind (check_or_panic (max_z_index + 1 < 256)) (\<lambda>_.
         let new_event_buffer = w_event_buffer (windows (d_comp d) ! window_id) in
         bind (set_comp (\<lambda>c. update_window window_id (\<lambda>w. w\<lparr>w_z_index := max_z_index + 1\<rparr>) c\<lparr>focused_window := window_id\<rparr>)) (\<lambda>_.
         bind (if NORMALIZE_Z_INDEX_THRESHOLD < max_z_index then set_comp (\<lambda>c. c\<lparr>windows := normalize_z (windows c)\<rparr>) else ret ()) (\<lambda>_.
         bind (reading (\<lambda>d. when_some (get_event_buffer (windows (d_comp d)) old) release_held_keys)) (\<lambda>_.
         bind (when_some new_event_buffer publish_current) (\<lambda>_.
           modify (\<lambda>d. d\<lparr>d_shared_focus := window_id\<rparr>))))))
       else ret ())"

section \<open>Creating and destroying windows\<close>

definition event_buffer_flags :: u64 where
  "event_buffer_flags = PRESENT OR WRITABLE OR NO_EXECUTE"

text \<open>The fresh page reads as an empty ring, since it is all zero.\<close>

definition allocate_event_buffer_for_window :: "mapper_ops \<Rightarrow> user_mem_manager \<Rightarrow> nat \<Rightarrow> nat \<Rightarrow> (nat \<times> nat) option dcall" where
  "allocate_event_buffer_for_window ops umm window_id pid =
     bind (on_kernel (on_machine allocate_zeroed_page)) (\<lambda>page.
       case page of
         None \<Rightarrow> ret None
       | Some (phys, virt) \<Rightarrow>
           bind (set_events virt event_buffer_new) (\<lambda>_.
           bind (attempt (on_kernel (get_process pid))) (\<lambda>found.
             case found of
               Inl _ \<Rightarrow> bind (on_kernel (free_frame phys)) (\<lambda>_. ret None)
             | Inr _ \<Rightarrow>
                 bind (lift_outcome (event_buffer_user_vaddr window_id)) (\<lambda>vaddr.
                 bind (attempt (on_kernel (with_layout pid (map_frames ops umm vaddr [phys] event_buffer_flags Borrowed)))) (\<lambda>mapped.
                   case mapped of
                     Inl _ \<Rightarrow> bind (on_kernel (free_frame phys)) (\<lambda>_. ret None)
                   | Inr _ \<Rightarrow> ret (Some (virt, phys)))))))"

definition take_window_id :: "nat dcall" where
  "take_window_id = reading (\<lambda>d.
     let c = d_comp d in
     if free_window_ids c \<noteq> []
     then bind (set_comp (\<lambda>c. c\<lparr>free_window_ids := butlast (free_window_ids c)\<rparr>)) (\<lambda>_. ret (last (free_window_ids c)))
     else bind (set_comp (\<lambda>c. c\<lparr>next_window_id := (next_window_id c + 1) mod 2 ^ 32\<rparr>)) (\<lambda>_. ret (next_window_id c)))"

definition store_window :: "window \<Rightarrow> compositor \<Rightarrow> compositor" where
  "store_window w c =
     c\<lparr>windows := (if length (windows c) \<le> w_id w then windows c @ [w] else (windows c)[w_id w := w])\<rparr>"

definition open_window :: "mapper_ops \<Rightarrow> user_mem_manager \<Rightarrow> window_buffer \<Rightarrow> int \<Rightarrow> int \<Rightarrow> nat \<Rightarrow> nat \<Rightarrow> nat dcall" where
  "open_window ops umm buffer x y pid i =
     bind (allocate_event_buffer_for_window ops umm i pid) (\<lambda>eb.
     bind (set_comp (store_window \<lparr>w_id = i, w_owner_pid = pid, w_x = x, w_y = y, w_z_index = 0, w_visible = True,
             w_buffer = buffer, w_event_buffer = map_option fst eb,
             w_event_phys = (case eb of Some (a, phys) \<Rightarrow> phys | None \<Rightarrow> 0)\<rparr>)) (\<lambda>_.
     bind (focus_window i) (\<lambda>_. ret i)))"

definition create_window ::
    "mapper_ops \<Rightarrow> user_mem_manager \<Rightarrow> nat \<Rightarrow> nat \<Rightarrow> nat \<Rightarrow> nat \<Rightarrow> int \<Rightarrow> int \<Rightarrow> nat \<Rightarrow> nat dcall" where
  "create_window ops umm back_ptr front_ptr width height x y pid =
     bind (reading (\<lambda>d. lift_outcome (window_buffer_new back_ptr front_ptr width height x y (d_pixels d)))) (\<lambda>(buffer, px).
     bind (modify (\<lambda>d. d\<lparr>d_pixels := px\<rparr>)) (\<lambda>_.
     bind take_window_id (open_window ops umm buffer x y pid)))"

definition unmap_range :: "mapper_ops \<Rightarrow> user_mem_manager \<Rightarrow> nat \<Rightarrow> nat \<Rightarrow> nat \<Rightarrow> unit dcall" where
  "unmap_range ops umm pid range_start range_bytes =
     bind (check_or_panic (virt_addr_ok range_start)) (\<lambda>_.
     bind (on_kernel (with_layout pid (unmap_region ops umm range_start range_bytes))) (\<lambda>_. ret ()))"

definition unmap_window :: "mapper_ops \<Rightarrow> user_mem_manager \<Rightarrow> nat \<Rightarrow> nat \<Rightarrow> nat \<Rightarrow> nat \<Rightarrow> unit dcall" where
  "unmap_window ops umm window_id owner_pid event_buffer_phys buffer_page_count = reading (\<lambda>d.
     let buffer_bytes = buffer_page_count * PAGE_SIZE in
     bind (lift_outcome (window_buffer_user_base (d_comp d) window_id)) (\<lambda>back_buffer_base.
     bind (lift_outcome (max_window_buffer_bytes (d_comp d))) (\<lambda>max_bytes.
     bind (usize_add back_buffer_base max_bytes) (\<lambda>front_buffer_base.
     bind (unmap_range ops umm owner_pid back_buffer_base buffer_bytes) (\<lambda>_.
     bind (unmap_range ops umm owner_pid front_buffer_base buffer_bytes) (\<lambda>_.
       if event_buffer_phys \<noteq> 0
       then bind (lift_outcome (event_buffer_user_vaddr window_id)) (\<lambda>a. unmap_range ops umm owner_pid a PAGE_SIZE)
       else ret ()))))))"

definition hide_window :: "window \<Rightarrow> window" where
  "hide_window w = w\<lparr>w_visible := False, w_event_buffer := None, w_event_phys := 0\<rparr>"

definition release_window :: "mapper_ops \<Rightarrow> user_mem_manager \<Rightarrow> nat \<Rightarrow> window \<Rightarrow> nat \<Rightarrow> unit dcall" where
  "release_window ops umm window_id w buffer_page_count =
     bind (attempt (on_kernel (get_process (w_owner_pid w)))) (\<lambda>found.
     bind (case found of
             Inr p \<Rightarrow> if top_page_table_phys (pr_memory_layout p) \<noteq> 0
                      then unmap_window ops umm window_id (w_owner_pid w) (w_event_phys w) buffer_page_count else ret ()
           | Inl _ \<Rightarrow> ret ()) (\<lambda>_.
       if w_event_phys w \<noteq> 0 then on_kernel (free_frame (w_event_phys w)) else ret ()))"

definition destroy_window :: "mapper_ops \<Rightarrow> user_mem_manager \<Rightarrow> nat \<Rightarrow> unit dcall" where
  "destroy_window ops umm window_id = reading (\<lambda>d.
     if window_id = INVALID_WINDOW_ID \<or> length (windows (d_comp d)) \<le> window_id
        \<or> \<not> w_visible (windows (d_comp d) ! window_id) then ret ()
     else let w = windows (d_comp d) ! window_id in
       bind (set_comp (update_window window_id hide_window)) (\<lambda>_.
       bind (lift_outcome (page_count (w_buffer w))) (\<lambda>buffer_page_count.
       bind (set_comp (\<lambda>c. c\<lparr>free_window_ids := free_window_ids c @ [window_id]\<rparr>)) (\<lambda>_.
         release_window ops umm window_id w buffer_page_count))))"

primrec destroy_windows :: "mapper_ops \<Rightarrow> user_mem_manager \<Rightarrow> nat list \<Rightarrow> unit dcall" where
  "destroy_windows ops umm [] = ret ()"
| "destroy_windows ops umm (i # is) = bind (destroy_window ops umm i) (\<lambda>_. destroy_windows ops umm is)"

definition destroy_windows_of_process :: "mapper_ops \<Rightarrow> user_mem_manager \<Rightarrow> nat \<Rightarrow> unit dcall" where
  "destroy_windows_of_process ops umm pid = reading (\<lambda>d.
     destroy_windows ops umm (map w_id (filter (\<lambda>w. w_visible w \<and> w_owner_pid w = pid) (windows (d_comp d)))))"

definition process_has_pending_input :: "desktop \<Rightarrow> nat \<Rightarrow> bool" where
  "process_has_pending_input d pid =
     list_ex (\<lambda>w. w_owner_pid w = pid \<and> w_visible w
       \<and> (case w_event_buffer w of Some a \<Rightarrow> \<not> eb_is_empty (d_events d a) | None \<Rightarrow> False)) (windows (d_comp d))"

section \<open>Input\<close>

definition get_focused_window_event_buffer :: "compositor \<Rightarrow> nat option" where
  "get_focused_window_event_buffer c =
     (if focused_window c = INVALID_WINDOW_ID then None else get_event_buffer (windows c) (focused_window c))"

definition forward_event :: "input_event \<Rightarrow> unit dcall" where
  "forward_event e = reading (\<lambda>d. when_some (get_focused_window_event_buffer (d_comp d)) (\<lambda>a. push_event a e))"

definition key_state_of :: "u32 \<Rightarrow> key_state dcall" where
  "key_state_of raw = lift_outcome (key_state_from_raw raw)"

definition handle_key_state_event :: "input_event \<Rightarrow> unit dcall" where
  "handle_key_state_event e =
     bind (check_or_panic (unat (ev_value e) < KEY_COUNT)) (\<lambda>_.
     bind (key_state_of (ev_extra e)) (\<lambda>state.
     bind (set_comp (\<lambda>c. c\<lparr>kbd_state := keyboard_update (kbd_state c) (ucast (ev_value e)) state (get_key_modifiers e)\<rparr>)) (\<lambda>_.
     reading (\<lambda>d. when_some (get_focused_window_event_buffer (d_comp d)) (\<lambda>a.
       bind (publish_current a) (\<lambda>_. push_event a e))))))"

text \<open>Alt and an arrow move the focus to the neighbouring identifier.\<close>

definition handle_keyboard_event :: "key_codes \<Rightarrow> input_event \<Rightarrow> unit dcall" where
  "handle_keyboard_event kc e =
     bind (check_or_panic (unat (ev_value e) < KEY_COUNT)) (\<lambda>_.
     bind (key_state_of (ev_extra e)) (\<lambda>state.
     bind (reading (\<lambda>d.
       let key = ucast (ev_value e); focused_window_id = focused_window (d_comp d) in
       if is_down (kbd_state (d_comp d)) (kc_lalt kc) \<and> state = Pressed
       then if key = kc_arrow_left kc then focus_window (focused_window_id - 1)
            else if key = kc_arrow_right kc then focus_window ((focused_window_id + 1) mod 2 ^ 32)
            else ret ()
       else ret ())) (\<lambda>_.
     forward_event e)))"

text \<open>The hit test, which stops at the first comparison that fails.\<close>

definition hit :: "int \<Rightarrow> int \<Rightarrow> window \<Rightarrow> ('e, bool) outcome" where
  "hit mx my w =
     (if mx < w_x w then Ok False
      else and_then (i32_add (w_x w) (as_i32 (wb_width (w_buffer w)))) (\<lambda>right.
        if \<not> mx < right \<or> my < w_y w then Ok False
        else and_then (i32_add (w_y w) (as_i32 (wb_height (w_buffer w)))) (\<lambda>bottom. Ok (my < bottom))))"

text \<open>The last of the windows with the greatest stacking index among those that are hit.\<close>

primrec top_hit :: "int \<Rightarrow> int \<Rightarrow> window list \<Rightarrow> window option \<Rightarrow> ('e, window option) outcome" where
  "top_hit mx my [] best = Ok best"
| "top_hit mx my (w # ws) best =
     (if \<not> w_visible w then top_hit mx my ws best
      else and_then (hit mx my w) (\<lambda>inside.
        if inside \<and> (case best of Some b \<Rightarrow> w_z_index b \<le> w_z_index w | None \<Rightarrow> True)
        then top_hit mx my ws (Some w) else top_hit mx my ws best))"

definition find_and_focus_window_at :: "int \<Rightarrow> int \<Rightarrow> unit dcall" where
  "find_and_focus_window_at mx my = reading (\<lambda>d.
     bind (lift_outcome (top_hit mx my (windows (d_comp d)) None)) (\<lambda>target.
       case target of
         Some w \<Rightarrow> if w_id w \<noteq> focused_window (d_comp d) then focus_window (w_id w) else ret ()
       | None \<Rightarrow> ret ()))"

definition handle_mouse_click :: "int \<Rightarrow> int \<Rightarrow> unit dcall" where
  "handle_mouse_click mx my = reading (\<lambda>d.
     let i = focused_window (d_comp d); ws = windows (d_comp d) in
     bind (if i \<noteq> INVALID_WINDOW_ID \<and> i < length ws \<and> w_visible (ws ! i) then lift_outcome (hit mx my (ws ! i)) else ret False)
       (\<lambda>inside. if inside then ret () else find_and_focus_window_at mx my))"

definition i32_clamp :: "int \<Rightarrow> int \<Rightarrow> int \<Rightarrow> ('e, int) outcome" where
  "i32_clamp v lo hi = (if lo \<le> hi then Ok (max lo (min v hi)) else Panic)"

definition handle_mouse_event :: "input_event \<Rightarrow> unit dcall" where
  "handle_mouse_event e = reading (\<lambda>d.
     let c = d_comp d; m = decode_mouse e in
     bind (lift_outcome (i32_add (mouse_x c) (sint (x_delta m)))) (\<lambda>mx.
     bind (lift_outcome (i32_add (mouse_y c) (sint (y_delta m)))) (\<lambda>my.
     bind (lift_outcome (and_then (i32_add (as_i32 (cw_width c)) (-1)) (i32_clamp mx 0))) (\<lambda>mx.
     bind (lift_outcome (and_then (i32_add (as_i32 (cw_height c)) (-1)) (i32_clamp my 0))) (\<lambda>my.
     bind (set_comp (\<lambda>c. c\<lparr>mouse_x := mx, mouse_y := my\<rparr>)) (\<lambda>_.
     bind (if buttons m \<noteq> 0 then handle_mouse_click mx my else ret ()) (\<lambda>_.
       forward_event e)))))))"

definition handle_event :: "key_codes \<Rightarrow> input_event \<Rightarrow> unit dcall" where
  "handle_event kc e =
     (case ev_type e of
        MouseEvent \<Rightarrow> handle_mouse_event e
      | KeyEvent \<Rightarrow> handle_keyboard_event kc e
      | KeyStateEvent \<Rightarrow> handle_key_state_event e
      | _ \<Rightarrow> forward_event e)"

text \<open>
  The events that are waiting when the call starts bound the rounds: no handler writes to the input
  ring. Events that an interrupt adds while the loop runs are left to the next call. The result says
  whether there was one.
\<close>

primrec input_loop :: "nat \<Rightarrow> key_codes \<Rightarrow> bool \<Rightarrow> bool dcall" where
  "input_loop 0 kc forwarded = reading (\<lambda>d. if eb_is_empty (d_input d) then ret forwarded else diverge)"
| "input_loop (Suc rounds) kc forwarded =
     bind (reading (\<lambda>d. lift_outcome (eb_read (d_input d)))) (\<lambda>(event, input).
     bind (modify (\<lambda>d. d\<lparr>d_input := input\<rparr>)) (\<lambda>_.
       case event of
         None \<Rightarrow> ret forwarded
       | Some e \<Rightarrow> bind (handle_event kc e) (\<lambda>_. input_loop rounds kc True)))"

definition wake_input_waiters :: "nat \<Rightarrow> unit dcall" where
  "wake_input_waiters me = reading (\<lambda>d.
     bind (on_kernel (on_sched (wake_all me (d_input_waiters d)))) (\<lambda>w. modify (\<lambda>d. d\<lparr>d_input_waiters := w\<rparr>)))"

definition process_input_events :: "nat \<Rightarrow> key_codes \<Rightarrow> unit dcall" where
  "process_input_events me kc =
     bind (set_comp (\<lambda>c. c\<lparr>kbd_state := clear_transient (kbd_state c)\<rparr>)) (\<lambda>_.
     bind (reading (\<lambda>d. input_loop (unat (eb_event_count (d_input d))) kc False)) (\<lambda>forwarded_any_event.
       if forwarded_any_event then wake_input_waiters me else ret ()))"

section \<open>Composition\<close>

text \<open>The byte offset of a pixel, with the pitch cut to 32 bits.\<close>

definition dst_offset :: "framebuffer \<Rightarrow> nat \<Rightarrow> nat \<Rightarrow> ('e, nat) outcome" where
  "dst_offset fb x y =
     and_then (u32_mul y (fb_pitch fb mod 2 ^ 32)) (\<lambda>row.
     and_then (u32_mul x FRAMEBUFFER_BYTES_PER_PIXEL) (\<lambda>col. u32_add row col))"

primrec cursor_cols :: "nat \<Rightarrow> u32 \<Rightarrow> nat list \<Rightarrow> framebuffer \<Rightarrow> ('e, framebuffer) outcome" where
  "cursor_cols y c [] fb = Ok fb"
| "cursor_cols y c (x # xs) fb =
     and_then (dst_offset fb x y) (\<lambda>offset. and_then (fb_store offset [c] fb) (\<lambda>fb'. cursor_cols y c xs fb'))"

primrec cursor_rows :: "nat list \<Rightarrow> u32 \<Rightarrow> nat list \<Rightarrow> framebuffer \<Rightarrow> ('e, framebuffer) outcome" where
  "cursor_rows xs c [] fb = Ok fb"
| "cursor_rows xs c (y # ys) fb = and_then (cursor_cols y c xs fb) (\<lambda>fb'. cursor_rows xs c ys fb')"

definition draw_cursor :: "int \<Rightarrow> int \<Rightarrow> u32 \<Rightarrow> framebuffer \<Rightarrow> ('e, framebuffer) outcome" where
  "draw_cursor cx cy color fb =
     (let fw = as_i32 (fb_width fb); fh = as_i32 (fb_height fb) in
      if 0 \<le> cx \<and> cx < fw \<and> 0 \<le> cy \<and> cy < fh
      then let start_x = as_u32 (max cx 0); start_y = as_u32 (max cy 0) in
        and_then (i32_add cx CURSOR_SIZE_X) (\<lambda>ex. and_then (i32_add cy CURSOR_SIZE_Y) (\<lambda>ey.
          let end_x = as_u32 (min ex fw); end_y = as_u32 (min ey fh) in
          cursor_rows [start_x..<end_x] color [start_y..<end_y] fb))
      else Ok fb)"

text \<open>The rows of a window; \<open>src\<close> are the pixels of its front buffer.\<close>

primrec copy_rows :: "nat \<Rightarrow> nat \<Rightarrow> nat \<Rightarrow> nat \<Rightarrow> nat \<Rightarrow> nat \<Rightarrow> u32 list \<Rightarrow> nat list \<Rightarrow> framebuffer \<Rightarrow> ('e, framebuffer) outcome" where
  "copy_rows width src_x src_y start_x start_y copy_width src [] fb = Ok fb"
| "copy_rows width src_x src_y start_x start_y copy_width src (y # ys) fb =
     and_then (u32_add src_y y) (\<lambda>sy.
     and_then (u32_mul sy width) (\<lambda>row.
     and_then (u32_add row src_x) (\<lambda>src_offset.
     and_then (u32_add start_y y) (\<lambda>dy.
     and_then (dst_offset fb start_x dy) (\<lambda>offset.
       if src_offset + copy_width \<le> length src
       then and_then (fb_store offset (chunk src_offset copy_width src) fb) (\<lambda>fb'.
         copy_rows width src_x src_y start_x start_y copy_width src ys fb')
       else Panic)))))"

definition i32_neg :: "int \<Rightarrow> ('e, int) outcome" where
  "i32_neg a = (if i32_ok (- a) then Ok (- a) else Panic)"

definition src_start :: "int \<Rightarrow> ('e, nat) outcome" where
  "src_start x = (if 0 < x then Ok 0 else and_then (i32_neg x) (\<lambda>n. Ok (as_u32 n)))"

definition blit_window :: "pixel_store \<Rightarrow> window \<Rightarrow> framebuffer \<Rightarrow> ('e, framebuffer) outcome" where
  "blit_window px w fb =
     (let b = w_buffer w; start_x = as_u32 (max (w_x w) 0); start_y = as_u32 (max (w_y w) 0) in
      and_then (i32_add (w_x w) (as_i32 (wb_width b))) (\<lambda>right.
      and_then (i32_add (w_y w) (as_i32 (wb_height b))) (\<lambda>bottom.
        let end_x = as_u32 (min right (as_i32 (fb_width fb))); end_y = as_u32 (min bottom (as_i32 (fb_height fb))) in
        if end_x \<le> start_x \<or> end_y \<le> start_y then Ok fb
        else and_then (src_start (w_x w)) (\<lambda>src_x. and_then (src_start (w_y w)) (\<lambda>src_y.
          copy_rows (wb_width b) src_x src_y start_x start_y (end_x - start_x) (px (wb_front b)) [0..<end_y - start_y] fb)))))"

text \<open>The visible windows in the order of their identifiers, each after its buffers have been swapped.\<close>

primrec compose_windows :: "pixel_store \<Rightarrow> window list \<Rightarrow> framebuffer \<Rightarrow> ('e, window list \<times> framebuffer) outcome" where
  "compose_windows px [] fb = Ok ([], fb)"
| "compose_windows px (w # ws) fb =
     (if w_visible w
      then let w' = w\<lparr>w_buffer := snd (try_swap (w_buffer w))\<rparr> in
        and_then (blit_window px w' fb) (\<lambda>fb'.
        and_then (compose_windows px ws fb') (\<lambda>(ws', fb''). Ok (w' # ws', fb'')))
      else and_then (compose_windows px ws fb) (\<lambda>(ws', fb'). Ok (w # ws', fb')))"

definition compose :: "framebuffer \<Rightarrow> framebuffer dcall" where
  "compose fb = reading (\<lambda>d.
     bind (lift_outcome (draw_cursor (last_drawn_x (d_comp d)) (last_drawn_y (d_comp d)) CLEAR_COLOR_XRGB fb)) (\<lambda>fb.
     bind (lift_outcome (compose_windows (d_pixels d) (windows (d_comp d)) fb)) (\<lambda>(ws, fb).
     bind (set_comp (\<lambda>c. c\<lparr>windows := ws\<rparr>)) (\<lambda>_.
       if cursor_visible (d_comp d)
       then bind (set_comp (\<lambda>c. c\<lparr>last_drawn_x := mouse_x c, last_drawn_y := mouse_y c\<rparr>)) (\<lambda>_.
         lift_outcome (draw_cursor (mouse_x (d_comp d)) (mouse_y (d_comp d)) CURSOR_COLOR_XRGB fb))
       else ret fb))))"

end
