(* ===== verification/Syscalls.thy ===== *)
theory Syscalls
  imports Compositor Sirius
begin

text \<open>
  The system calls (\<open>process/syscall.rs\<close>), the ring buffer a process can ask for
  (\<open>data_structures/circular_buffer.rs\<close>) and the end of a task (\<open>exit_current\<close> of \<open>process/task.rs\<close>),
  over the components they call: the process manager and the memory (\<open>Processes\<close>), the window system
  (\<open>Compositor\<close>) and the file system (\<open>Sirius\<close>). The kernel reads and writes the memory of the calling
  process through its page tables: an address is translated as the processor does, from the register
  CR3 and the tables in physical memory, and an access that the tables do not allow is a page fault in
  the kernel, which stops it. The kernel is built with the feature \<open>use_cached_fs\<close>.
\<close>

section \<open>State\<close>

record 'd os =
  os_desk :: desktop
  os_fs :: "'d file_cache"
  os_cr3 :: nat
  os_futex :: waiter_list

text \<open>
  What the calls take from outside: the mapper of the paging crate and the memory manager, the driver
  below the cache and the clock, what process creation needs (the kernel stacks, the entry address,
  the shared pages, the parsed image that is built in), the addresses the heap returns for the two
  buffers of a window, and the description of the processor.
\<close>

record 'd sys_env =
  se_ops :: mapper_ops
  se_umm :: user_mem_manager
  se_driver :: "'d fs_driver"
  se_now :: nat
  se_stack_top :: "nat \<Rightarrow> nat"
  se_entry :: u64
  se_shared :: "shared_region list"
  se_odys :: "elf_load_info option"
  se_back_ptr :: nat
  se_front_ptr :: nat
  se_cpu_info :: "u8 list"

record syscall_frame =
  syscall_num :: nat
  arg1 :: nat
  arg2 :: nat
  arg3 :: nat
  arg4 :: nat

type_synonym ('d, 'a) scall = "('d os, unit, 'a) call"

definition U64_MAX :: nat where "U64_MAX = 2 ^ 64 - 1"
definition INVALID_FD :: nat where "INVALID_FD = U64_MAX"
definition FD_FLAG_READ :: u8 where "FD_FLAG_READ = 0x01"
definition FD_FLAG_WRITE :: u8 where "FD_FLAG_WRITE = 0x02"
definition USER_MEM_MAX_ADDRESS :: nat where "USER_MEM_MAX_ADDRESS = 0x0000800000000000"
definition FS_NAME_LEN :: nat where "FS_NAME_LEN = 16"

definition on_desk :: "(desktop, 'e, 'a) call \<Rightarrow> ('d os, 'e, 'a) call" where
  "on_desk m = (\<lambda>s. case m (os_desk s) of (r, d) \<Rightarrow> (r, s\<lparr>os_desk := d\<rparr>))"

definition on_fs :: "('d file_cache, 'e, 'a) call \<Rightarrow> ('d os, 'e, 'a) call" where
  "on_fs m = (\<lambda>s. case m (os_fs s) of (r, c) \<Rightarrow> (r, s\<lparr>os_fs := c\<rparr>))"

definition on_proc :: "(kernel, 'e, 'a) call \<Rightarrow> ('d os, 'e, 'a) call" where
  "on_proc m = on_desk (on_kernel m)"

definition current_pid :: "nat \<Rightarrow> ('d, nat) scall" where
  "current_pid me = on_proc (on_sched (get_current_process_for_core me))"

text \<open>\<open>match call { Ok(a) => f(a), Err(_) => return failure }\<close>\<close>

definition or_return :: "nat \<Rightarrow> ('d os, 'e, 'a) call \<Rightarrow> ('a \<Rightarrow> ('d, nat) scall) \<Rightarrow> ('d, nat) scall" where
  "or_return failure m f = bind (attempt m) (\<lambda>r. case r of Inl _ \<Rightarrow> ret failure | Inr a \<Rightarrow> f a)"

section \<open>User memory\<close>

definition validate_user_ptr :: "nat \<Rightarrow> nat \<Rightarrow> bool" where
  "validate_user_ptr ptr len =
     (let end' = saturating_add64 ptr len in ptr \<noteq> 0 \<and> end' \<le> USER_MEM_MAX_ADDRESS \<and> ptr \<le> end')"

text \<open>
  The translation of an address by the processor: four levels of tables, with pages of 1 GiB and 2 MiB
  at the third and second; a write needs the writable flag at every level (the boot loader sets
  CR0.WP). \<open>None\<close> is a page fault.
\<close>

definition phys :: "'d os \<Rightarrow> phys_mem" where
  "phys s = mem (k_machine (d_kernel (os_desk s)))"

definition hw_translate :: "phys_mem \<Rightarrow> nat \<Rightarrow> nat \<Rightarrow> (nat \<times> bool) option" where
  "hw_translate m cr3 v =
     (let present = (\<lambda>e. contains_flag (entry_flags e) PRESENT); huge = (\<lambda>e. contains_flag (entry_flags e) HUGE_PAGE);
          writable = (\<lambda>e. contains_flag (entry_flags e) WRITABLE);
          e4 = read_entry m cr3 (table_index 39 v); e3 = read_entry m (entry_addr e4) (table_index 30 v);
          e2 = read_entry m (entry_addr e3) (table_index 21 v); e1 = read_entry m (entry_addr e2) (table_index 12 v) in
      if \<not> virt_addr_ok v \<or> \<not> present e4 \<or> \<not> present e3 then None
      else if huge e3 then Some (entry_addr e3 - entry_addr e3 mod 2 ^ 30 + v mod 2 ^ 30, writable e4 \<and> writable e3)
      else if \<not> present e2 then None
      else if huge e2 then Some (entry_addr e2 - entry_addr e2 mod 2 ^ 21 + v mod 2 ^ 21, writable e4 \<and> writable e3 \<and> writable e2)
      else if \<not> present e1 then None
      else Some (entry_addr e1 + v mod 4096, writable e4 \<and> writable e3 \<and> writable e2 \<and> writable e1))"

definition user_phys :: "'d os \<Rightarrow> bool \<Rightarrow> nat \<Rightarrow> nat option" where
  "user_phys s to_write v = (case hw_translate (phys s) (os_cr3 s) v of
     Some (a, writable) \<Rightarrow> if to_write \<and> \<not> writable then None else Some a | None \<Rightarrow> None)"

definition load_user :: "nat \<Rightarrow> nat \<Rightarrow> ('d, u8 list) scall" where
  "load_user ptr len = reading (\<lambda>s.
     case those (map (user_phys s False) [ptr..<ptr + len]) of
       Some cells \<Rightarrow> if ptr = 0 then panic else ret (map (load_byte (phys s)) cells)
     | None \<Rightarrow> panic)"

primrec put_bytes :: "nat list \<Rightarrow> u8 list \<Rightarrow> phys_mem \<Rightarrow> phys_mem" where
  "put_bytes [] bytes m = m"
| "put_bytes (a # cells) bytes m = (case bytes of [] \<Rightarrow> m | b # bs \<Rightarrow> put_bytes cells bs (store_byte a b m))"

definition store_user :: "nat \<Rightarrow> u8 list \<Rightarrow> ('d, unit) scall" where
  "store_user ptr bytes = reading (\<lambda>s.
     case those (map (user_phys s True) [ptr..<ptr + length bytes]) of
       Some cells \<Rightarrow> on_proc (on_machine (on_mem (put_bytes cells bytes)))
     | None \<Rightarrow> panic)"

text \<open>A structure behind a user pointer: the development profile checks its alignment.\<close>

definition aligned :: "nat \<Rightarrow> nat \<Rightarrow> ('d, unit) scall" where
  "aligned n ptr = check_or_panic (ptr mod n = 0)"

definition le_bytes :: "nat \<Rightarrow> nat \<Rightarrow> u8 list" where
  "le_bytes n v = map (\<lambda>i. of_nat (v div 256 ^ i)) [0..<n]"

definition read_user_string :: "nat \<Rightarrow> nat \<Rightarrow> ('d, u8 list option) scall" where
  "read_user_string ptr len =
     (if \<not> validate_user_ptr ptr len then ret None
      else bind (load_user ptr len) (\<lambda>bytes. ret (if utf8_valid bytes then Some bytes else None)))"

definition with_path :: "syscall_frame \<Rightarrow> (u8 list \<Rightarrow> ('d, nat) scall) \<Rightarrow> ('d, nat) scall" where
  "with_path f k = bind (read_user_string (arg1 f) (arg2 f)) (\<lambda>path. case path of None \<Rightarrow> ret U64_MAX | Some p \<Rightarrow> k p)"

section \<open>Processes\<close>

definition sys_create_process :: "nat \<Rightarrow> 'd sys_env \<Rightarrow> syscall_frame \<Rightarrow> ('d, nat) scall" where
  \<comment> \<open>the path and the name are read for a message only\<close>
  "sys_create_process me env f =
     bind (load_user (arg1 f) (arg2 f)) (\<lambda>_.
     bind (load_user (arg3 f) (arg4 f)) (\<lambda>_.
     case se_odys env of
       None \<Rightarrow> ret U64_MAX
     | Some info \<Rightarrow>
         or_return U64_MAX (on_proc (create_process_from_elf (se_stack_top env) (se_entry env) me (se_ops env) (se_umm env) (se_shared env)
           0 info [0x70, 0x72, 0x6F, 0x63, 0x31] 5)) (\<lambda>_. ret 0)))"

datatype sys_result = Returns nat | Exits_with int | Yields | Sleeps nat | Waits_for_input nat | Waits_on_word nat u32

definition sys_terminate_process :: "nat \<Rightarrow> syscall_frame \<Rightarrow> ('d, sys_result) scall" where
  "sys_terminate_process me f =
     (let target_pid = arg1 f; exit_code = as_i32 (arg2 f) in
      bind (current_pid me) (\<lambda>caller_pid.
        if target_pid = INVALID_PID \<or> target_pid = ARCHE_PID then ret (Returns U64_MAX)
        else bind (attempt (on_proc (get_process target_pid))) (\<lambda>found.
          case found of
            Inl _ \<Rightarrow> ret (Returns U64_MAX)
          | Inr p \<Rightarrow>
              if \<not> (target_pid = caller_pid \<or> pr_parent_pid p = caller_pid \<or> caller_pid = ARCHE_PID) then ret (Returns U64_MAX)
              else if target_pid = caller_pid then ret (Exits_with exit_code)
              else bind (on_proc (on_sched (request_kill me target_pid exit_code))) (\<lambda>asked.
                ret (Returns (if asked then 0 else U64_MAX))))))"

text \<open>\<open>exit_current\<close> up to the switch away from the task, which is never scheduled again.\<close>

definition exit_current :: "nat \<Rightarrow> 'd sys_env \<Rightarrow> int \<Rightarrow> ('d, unit) scall" where
  "exit_current me env exit_code =
     bind (on_proc (on_sched (get_current_slot_for_core me))) (\<lambda>slot_index.
     bind (current_pid me) (\<lambda>pid.
     bind (check_or_panic (slot_index \<noteq> INVALID_SLOT)) (\<lambda>_.
     bind (modify (\<lambda>s. s\<lparr>os_cr3 := kernel_page_table_phys (se_umm env)\<rparr>)) (\<lambda>_.
     bind (on_desk (destroy_windows_of_process (se_ops env) (se_umm env) pid)) (\<lambda>_.
     bind (attempt (on_proc (terminate_process me (se_ops env) (se_umm env) pid exit_code False))) (\<lambda>result.
     bind (check_or_panic (case result of Inr _ \<Rightarrow> True | Inl _ \<Rightarrow> False)) (\<lambda>_.
       on_proc (on_sched (exit_current_tail me)))))))))"

definition sys_write :: "syscall_frame \<Rightarrow> ('d, nat) scall" where
  "sys_write f = bind (load_user (arg2 f) (arg3 f)) (\<lambda>_. ret (arg3 f))"

definition sys_allocate :: "nat \<Rightarrow> 'd sys_env \<Rightarrow> syscall_frame \<Rightarrow> ('d, nat) scall" where
  "sys_allocate me env f =
     bind (current_pid me) (\<lambda>pid.
     or_return U64_MAX (on_proc (get_process pid)) (\<lambda>_.
     or_return U64_MAX (on_proc (with_layout pid (allocate_heap (se_ops env) (se_umm env) (arg1 f)))) ret))"

section \<open>Windows\<close>

definition sys_create_window :: "nat \<Rightarrow> 'd sys_env \<Rightarrow> syscall_frame \<Rightarrow> ('d, nat) scall" where
  "sys_create_window me env f =
     (let width = arg1 f mod 2 ^ 32; height = arg2 f mod 2 ^ 32; x = as_i32 (arg3 f); y = as_i32 (arg4 f) in
      bind (current_pid me) (\<lambda>pid. reading (\<lambda>s.
        let c = d_comp (os_desk s) in
        if width = 0 \<or> height = 0 \<or> cw_width c < width \<or> cw_height c < height then ret U64_MAX
        else bind (on_desk (create_window (se_ops env) (se_umm env) (se_back_ptr env) (se_front_ptr env) width height x y pid)) (\<lambda>window_id.
             bind (on_desk (set_z_index window_id 7)) (\<lambda>_. ret window_id)))))"

definition sys_destroy_window :: "'d sys_env \<Rightarrow> syscall_frame \<Rightarrow> ('d, nat) scall" where
  "sys_destroy_window env f =
     bind (on_desk (destroy_window (se_ops env) (se_umm env) (arg1 f mod 2 ^ 32))) (\<lambda>_. ret 0)"

definition window_of :: "compositor \<Rightarrow> nat \<Rightarrow> window option" where
  "window_of c i = (if i < length (windows c) then Some (windows c ! i) else None)"

primrec buffer_frames :: "user_mem_manager \<Rightarrow> nat \<Rightarrow> nat list \<Rightarrow> (machine, 'e, nat list) call" where
  "buffer_frames umm vaddr [] = ret []"
| "buffer_frames umm vaddr (i # is) =
     bind (translate_kernel_heap_virt_to_phys umm (vaddr + i * PAGE_SIZE)) (\<lambda>a.
     bind (buffer_frames umm vaddr is) (\<lambda>as. ret (a # as)))"

definition map_buffers :: "'d sys_env \<Rightarrow> nat \<Rightarrow> nat \<Rightarrow> nat list \<Rightarrow> nat list \<Rightarrow> (process, unit, bool) call" where
  "map_buffers env back_user front_user back_frames front_frames =
     (let flags = PRESENT OR WRITABLE OR NO_EXECUTE; buffer_bytes = length back_frames * PAGE_SIZE in
      bind (reading (\<lambda>(l, _). lift_outcome (is_range_tracked l back_user buffer_bytes))) (\<lambda>back_tracked.
      bind (if back_tracked then reading (\<lambda>(l, _). lift_outcome (is_range_tracked l front_user buffer_bytes)) else ret False) (\<lambda>tracked.
        if tracked then ret True
        else bind (attempt (map_frames (se_ops env) (se_umm env) back_user back_frames flags Borrowed)) (\<lambda>back.
          case back of
            Inl _ \<Rightarrow> ret False
          | Inr _ \<Rightarrow>
              bind (attempt (map_frames (se_ops env) (se_umm env) front_user front_frames flags Borrowed)) (\<lambda>front.
                case front of
                  Inr _ \<Rightarrow> ret True
                | Inl _ \<Rightarrow> bind (unmap_region (se_ops env) (se_umm env) back_user buffer_bytes) (\<lambda>_. ret False))))))"

definition sys_map_window_buffer :: "nat \<Rightarrow> 'd sys_env \<Rightarrow> syscall_frame \<Rightarrow> ('d, nat) scall" where
  "sys_map_window_buffer me env f =
     (let window_id = arg1 f mod 2 ^ 32 in
      bind (current_pid me) (\<lambda>pid. reading (\<lambda>s.
        let c = d_comp (os_desk s) in
        bind (lift_outcome (max_window_buffer_bytes c)) (\<lambda>max_window_buffer_size.
        bind (lift_outcome (window_buffer_user_base c window_id)) (\<lambda>user_base.
          case window_of c window_id of
            None \<Rightarrow> ret U64_MAX
          | Some w \<Rightarrow>
              if \<not> (w_visible w \<and> w_owner_pid w = pid) then ret U64_MAX
              else let b = w_buffer w in
                bind (lift_outcome (pixel_count b)) (\<lambda>n.
                  if max_window_buffer_size < n * FRAMEBUFFER_BYTES_PER_PIXEL then ret U64_MAX
                  else bind (lift_outcome (page_count b)) (\<lambda>pages.
                    bind (on_proc (on_machine (buffer_frames (se_umm env) (wb_back b) [0..<pages]))) (\<lambda>back_frames.
                    bind (on_proc (on_machine (buffer_frames (se_umm env) (wb_front b) [0..<pages]))) (\<lambda>front_frames.
                    bind (usize_add user_base max_window_buffer_size) (\<lambda>front_user.
                    bind (check_or_panic (virt_addr_ok user_base \<and> virt_addr_ok front_user)) (\<lambda>_.
                    or_return U64_MAX (on_proc (get_process pid)) (\<lambda>_.
                    bind (on_proc (with_layout pid (map_buffers env user_base front_user back_frames front_frames))) (\<lambda>mapped.
                      ret (if mapped then user_base else U64_MAX))))))))))))))"

definition sys_present_window :: "syscall_frame \<Rightarrow> ('d, nat) scall" where
  "sys_present_window f = reading (\<lambda>s.
     let c = d_comp (os_desk s); i = arg1 f mod 2 ^ 32 in
     bind (case window_of c i of
             Some w \<Rightarrow> if w_visible w then on_desk (set_comp (update_window i (\<lambda>w. w\<lparr>w_buffer := present (w_buffer w)\<rparr>))) else ret ()
           | None \<Rightarrow> ret ()) (\<lambda>_. ret 0))"

definition sys_get_window_size :: "syscall_frame \<Rightarrow> ('d, nat) scall" where
  "sys_get_window_size f = reading (\<lambda>s.
     case window_of (d_comp (os_desk s)) (arg1 f mod 2 ^ 32) of
       Some w \<Rightarrow> ret (if w_visible w then wb_width (w_buffer w) * 2 ^ 32 + wb_height (w_buffer w) else U64_MAX)
     | None \<Rightarrow> ret U64_MAX)"

definition sys_get_window_info :: "syscall_frame \<Rightarrow> ('d, nat) scall" where
  "sys_get_window_info f =
     (let window_id = arg1 f mod 2 ^ 32; info_ptr = arg2 f in
      if \<not> validate_user_ptr info_ptr 24 then ret INVALID_FD
      else reading (\<lambda>s.
        let c = d_comp (os_desk s) in
        case window_of c window_id of
          None \<Rightarrow> ret U64_MAX
        | Some w \<Rightarrow>
            bind (aligned 8 info_ptr) (\<lambda>_.
            bind (case w_event_buffer w of Some _ \<Rightarrow> lift_outcome (event_buffer_user_vaddr window_id) | None \<Rightarrow> ret 0) (\<lambda>event_buffer_vaddr.
            bind (lift_outcome (max_window_buffer_bytes c)) (\<lambda>front_buffer_offset.
            bind (store_user info_ptr (le_bytes 4 (wb_width (w_buffer w)) @ le_bytes 4 (wb_height (w_buffer w))
               @ le_bytes 8 event_buffer_vaddr @ le_bytes 8 front_buffer_offset)) (\<lambda>_. ret 0))))))"

definition sys_focus_window :: "syscall_frame \<Rightarrow> ('d, nat) scall" where
  "sys_focus_window f = bind (on_desk (focus_window (arg1 f mod 2 ^ 32))) (\<lambda>_. ret 0)"

section \<open>Files\<close>

definition mounted :: "'d sys_env \<Rightarrow> 'd file_cache fs_driver" where
  "mounted env = cached_fs (se_now env) (se_driver env)"

definition sys_open_file :: "nat \<Rightarrow> 'd sys_env \<Rightarrow> syscall_frame \<Rightarrow> ('d, nat) scall" where
  "sys_open_file me env f = with_path f (\<lambda>path.
     let flags = (of_nat (arg3 f) :: u8) in
     or_return INVALID_FD (on_fs (resolve_path (mounted env) path)) (\<lambda>node.
     bind (current_pid me) (\<lambda>pid.
     or_return INVALID_FD (on_proc (get_process pid)) (\<lambda>p.
     bind (attempt (on_proc (change_process pid (\<lambda>p. p\<lparr>pr_file_descriptors := pr_file_descriptors p
         @ [\<lparr>fdesc_node_id = unat (fn_node_id node), fdesc_flags = flags\<rparr>]\<rparr>)))) (\<lambda>_.
       ret (length (pr_file_descriptors p)))))))"

text \<open>The last descriptor takes the place of the closed one.\<close>

definition close_fd :: "nat \<Rightarrow> file_descriptor list \<Rightarrow> file_descriptor list" where
  "close_fd fd fds = (let last' = length fds - 1 in butlast (if fd \<noteq> last' then fds[fd := fds ! last'] else fds))"

definition sys_close_file :: "nat \<Rightarrow> syscall_frame \<Rightarrow> ('d, nat) scall" where
  "sys_close_file me f =
     bind (current_pid me) (\<lambda>pid.
     or_return INVALID_FD (on_proc (get_process pid)) (\<lambda>p.
       if length (pr_file_descriptors p) \<le> arg1 f then ret INVALID_FD
       else bind (attempt (on_proc (change_process pid (\<lambda>p. p\<lparr>pr_file_descriptors := close_fd (arg1 f) (pr_file_descriptors p)\<rparr>))))
         (\<lambda>_. ret 0)))"

text \<open>The descriptor behind a number, with the flag that the call needs.\<close>

definition with_descriptor :: "nat \<Rightarrow> nat \<Rightarrow> u8 \<Rightarrow> (file_node_handle \<Rightarrow> ('d, nat) scall) \<Rightarrow> ('d, nat) scall" where
  "with_descriptor me fd flag k =
     bind (current_pid me) (\<lambda>pid.
     or_return INVALID_FD (on_proc (get_process pid)) (\<lambda>p.
       if length (pr_file_descriptors p) \<le> fd then ret INVALID_FD
       else let d = pr_file_descriptors p ! fd in
         if fdesc_flags d AND flag = 0 then ret INVALID_FD else k (of_nat (fdesc_node_id d))))"

text \<open>
  The driver writes into the buffer of the process; only the bytes it delivers are touched. (What a driver
  has put into the buffer before it reports an error is not modelled.)
\<close>

definition peek_user :: "'d os \<Rightarrow> nat \<Rightarrow> nat \<Rightarrow> u8 list" where
  "peek_user s ptr len = map (\<lambda>v. case user_phys s False v of Some a \<Rightarrow> load_byte (phys s) a | None \<Rightarrow> 0) [ptr..<ptr + len]"

definition sys_read_file :: "nat \<Rightarrow> 'd sys_env \<Rightarrow> syscall_frame \<Rightarrow> ('d, nat) scall" where
  "sys_read_file me env f =
     (let fd = arg1 f; offset = arg2 f; buffer_ptr = arg3 f; count = arg4 f in
      if \<not> validate_user_ptr buffer_ptr count then ret INVALID_FD
      else with_descriptor me fd FD_FLAG_READ (\<lambda>node_id. reading (\<lambda>s.
        or_return INVALID_FD (on_fs (drv_read_file (mounted env) node_id offset (peek_user s buffer_ptr count))) (\<lambda>(n, buffer).
        bind (store_user buffer_ptr (take n buffer)) (\<lambda>_. ret n)))))"

definition sys_write_file :: "nat \<Rightarrow> 'd sys_env \<Rightarrow> syscall_frame \<Rightarrow> ('d, nat) scall" where
  "sys_write_file me env f =
     (let fd = arg1 f; offset = arg2 f; buffer_ptr = arg3 f; count = arg4 f in
      if \<not> validate_user_ptr buffer_ptr count then ret INVALID_FD
      else with_descriptor me fd FD_FLAG_WRITE (\<lambda>node_id.
        bind (load_user buffer_ptr count) (\<lambda>buffer.
        or_return INVALID_FD (on_fs (drv_write_file (mounted env) node_id offset buffer)) ret)))"

text \<open>
  \<open>StatFlat\<close> and \<open>DirEntryFlat\<close> have the same 40 bytes: the name in 16, its length, the directory flag,
  six bytes that are left alone, the size and the two times.
\<close>

definition store_entry :: "nat \<Rightarrow> file_node \<Rightarrow> ('d, unit) scall" where
  "store_entry ptr node =
     (let copy_len = min (length (fn_name node)) FS_NAME_LEN in
      bind (aligned 8 ptr) (\<lambda>_.
      bind (store_user ptr (take copy_len (fn_name node) @ replicate (FS_NAME_LEN - copy_len) 0
         @ [of_nat copy_len, if fn_file_type node = Directory then 1 else 0])) (\<lambda>_.
      store_user (ptr + 24) (le_bytes 8 (fn_size node) @ le_bytes 4 (fn_created_time node) @ le_bytes 4 (fn_modified_time node)))))"

definition sys_stat_file :: "'d sys_env \<Rightarrow> syscall_frame \<Rightarrow> ('d, nat) scall" where
  "sys_stat_file env f = with_path f (\<lambda>path.
     if \<not> validate_user_ptr (arg3 f) 40 then ret INVALID_FD
     else or_return INVALID_FD (on_fs (resolve_path (mounted env) path)) (\<lambda>node. bind (store_entry (arg3 f) node) (\<lambda>_. ret 0)))"

primrec store_entries :: "nat \<Rightarrow> file_node list \<Rightarrow> ('d, unit) scall" where
  "store_entries ptr [] = ret ()"
| "store_entries ptr (node # nodes) = bind (store_entry ptr node) (\<lambda>_. store_entries (ptr + 40) nodes)"

definition sys_list_dir :: "'d sys_env \<Rightarrow> syscall_frame \<Rightarrow> ('d, nat) scall" where
  "sys_list_dir env f = with_path f (\<lambda>path.
     if \<not> validate_user_ptr (arg3 f) (arg4 f) then ret INVALID_FD
     else or_return INVALID_FD (on_fs (list_directory (mounted env) path)) (\<lambda>entries.
       let write_count = min (length entries) (arg4 f div 40) in
       bind (store_entries (arg3 f) (take write_count entries)) (\<lambda>_. ret write_count)))"

definition sys_create_file :: "'d sys_env \<Rightarrow> syscall_frame \<Rightarrow> ('d, nat) scall" where
  "sys_create_file env f = with_path f (\<lambda>path. or_return INVALID_FD (on_fs (create_file (mounted env) path)) (\<lambda>_. ret 0))"

definition sys_create_dir :: "'d sys_env \<Rightarrow> syscall_frame \<Rightarrow> ('d, nat) scall" where
  "sys_create_dir env f = with_path f (\<lambda>path. or_return INVALID_FD (on_fs (create_directory (mounted env) path)) (\<lambda>_. ret 0))"

definition sys_delete :: "'d sys_env \<Rightarrow> syscall_frame \<Rightarrow> ('d, nat) scall" where
  "sys_delete env f = with_path f (\<lambda>path. or_return INVALID_FD (on_fs (sirius_delete (mounted env) path)) (\<lambda>_. ret 0))"

section \<open>The file cache\<close>

definition sys_pin_file :: "'d sys_env \<Rightarrow> syscall_frame \<Rightarrow> ('d, nat) scall" where
  "sys_pin_file env f = with_path f (\<lambda>path. or_return U64_MAX (on_fs (cached_pin_file (se_driver env) path)) (\<lambda>_. ret 0))"

definition sys_unpin_file :: "'d sys_env \<Rightarrow> syscall_frame \<Rightarrow> ('d, nat) scall" where
  "sys_unpin_file env f = with_path f (\<lambda>path. or_return U64_MAX (on_fs (cached_unpin_file (se_driver env) path)) (\<lambda>_. ret 0))"

definition importance_of :: "nat \<Rightarrow> cache_importance option" where
  "importance_of n = (if n < 7 then Some ([Minimal, Low, Normal, High, VeryHigh, Critical, Resident] ! n) else None)"

definition sys_reserve_cache :: "'d sys_env \<Rightarrow> syscall_frame \<Rightarrow> ('d, nat) scall" where
  "sys_reserve_cache env f = with_path f (\<lambda>path.
     case importance_of (arg3 f) of
       None \<Rightarrow> ret U64_MAX
     | Some importance \<Rightarrow> or_return U64_MAX (on_fs (cached_reserve_cache (se_driver env) path importance)) (\<lambda>_. ret 0))"

definition sys_evict_directory :: "'d sys_env \<Rightarrow> syscall_frame \<Rightarrow> ('d, nat) scall" where
  "sys_evict_directory env f = with_path f (\<lambda>path. or_return U64_MAX (on_fs (cached_evict_directory (se_driver env) path)) ret)"

definition sys_get_cache_stats :: "syscall_frame \<Rightarrow> ('d, nat) scall" where
  "sys_get_cache_stats f =
     (if \<not> validate_user_ptr (arg1 f) 32 then ret U64_MAX
      else bind (aligned 8 (arg1 f)) (\<lambda>_. reading (\<lambda>s.
        let st = stats (os_fs s) in
        bind (store_user (arg1 f) (le_bytes 8 (total_files st) @ le_bytes 8 (total_bytes st) @ le_bytes 8 (max_bytes st)
          @ le_bytes 8 (dirty_files st))) (\<lambda>_. ret 0))))"

definition sys_flush_file_cache :: "nat \<Rightarrow> 'd sys_env \<Rightarrow> ('d, nat) scall" where
  "sys_flush_file_cache me env =
     bind (current_pid me) (\<lambda>pid.
     or_return U64_MAX (on_proc (get_process pid)) (\<lambda>p.
     or_return U64_MAX (on_fs (flush_nodes (adapter (se_driver env)) (map (\<lambda>d. of_nat (fdesc_node_id d)) (pr_file_descriptors p)))) (\<lambda>_. ret 0)))"

definition flush_all_file_caches :: "'d sys_env \<Rightarrow> ('d, unit) scall" where
  "flush_all_file_caches env = bind (attempt (on_fs (flush_all (adapter (se_driver env))))) (\<lambda>_. ret ())"

section \<open>Ring buffers of a process\<close>

definition CIRCULAR_BUFFER_MAX_VIEW_BYTES :: nat where
  "CIRCULAR_BUFFER_MAX_VIEW_BYTES = PROCESS_USER_VADDR_ALLOC_MAX_SIZE div 2"

primrec free_frames :: "nat list \<Rightarrow> (machine, 'e, unit) call" where
  "free_frames [] = ret ()"
| "free_frames (a # as) = bind (lift_frames (deallocate_frame (containing_address a))) (\<lambda>_. free_frames as)"

primrec zeroed_frames :: "nat \<Rightarrow> user_mem_manager \<Rightarrow> nat list \<Rightarrow> (machine, 'e, nat list option) call" where
  "zeroed_frames 0 umm fs = ret (Some fs)"
| "zeroed_frames (Suc n) umm fs =
     bind (lift_frames allocate_frame) (\<lambda>frame.
       case frame of
         None \<Rightarrow> bind (free_frames fs) (\<lambda>_. ret None)
       | Some a \<Rightarrow> bind (zero_frame umm a) (\<lambda>_. zeroed_frames n umm (fs @ [a])))"

definition set_next_alloc :: "nat \<Rightarrow> (process, 'e, unit) call" where
  "set_next_alloc a = (\<lambda>(l, s). (Ok (), (l\<lparr>next_alloc_vaddr := a\<rparr>, s)))"

definition map_twice :: "mapper_ops \<Rightarrow> user_mem_manager \<Rightarrow> u64 \<Rightarrow> nat \<Rightarrow> nat \<Rightarrow> nat \<Rightarrow> nat list \<Rightarrow>
    (process, unit, (nat \<times> nat \<times> nat) option) call" where
  "map_twice ops umm user_flags previous_next_alloc virt_view_base data_size fs =
     bind (virt_add virt_view_base data_size) (\<lambda>virt_second_view_base.
     bind (attempt (map_frames ops umm virt_view_base fs user_flags Owned)) (\<lambda>first.
       case first of
         Inl _ \<Rightarrow> bind (lift_machine (free_frames fs)) (\<lambda>_. bind (set_next_alloc previous_next_alloc) (\<lambda>_. ret None))
       | Inr _ \<Rightarrow>
           bind (attempt (map_frames ops umm virt_second_view_base fs user_flags Borrowed)) (\<lambda>second.
             case second of
               Inl _ \<Rightarrow> bind (unmap_region ops umm virt_view_base data_size) (\<lambda>_.
                 bind (set_next_alloc previous_next_alloc) (\<lambda>_. ret None))
             | Inr _ \<Rightarrow> ret (Some (virt_view_base, data_size, 2 * data_size)))))"

text \<open>\<open>map_for_user\<close>: the base, the size of one view and the size of both.\<close>

definition map_for_user :: "mapper_ops \<Rightarrow> user_mem_manager \<Rightarrow> nat \<Rightarrow> u64 \<Rightarrow> (process, unit, (nat \<times> nat \<times> nat) option) call" where
  "map_for_user ops umm nbytes flags =
     (if nbytes = 0 \<or> CIRCULAR_BUFFER_MAX_VIEW_BYTES < nbytes then ret None
      else bind (lift_outcome (align_up nbytes PAGE_SIZE)) (\<lambda>data_size (l, s).
        let user_flags = PRESENT OR USER_ACCESSIBLE OR NO_EXECUTE OR (if contains_flag flags WRITABLE then WRITABLE else 0);
            previous_next_alloc = next_alloc_vaddr l in
        case allocate_virtual_range l (2 * data_size) of
          (None, l) \<Rightarrow> (Ok None, (l, s))
        | (Some virt_view_base, l) \<Rightarrow>
            bind (lift_machine (zeroed_frames (data_size div PAGE_SIZE) umm [])) (\<lambda>allocated.
              case allocated of
                None \<Rightarrow> bind (set_next_alloc previous_next_alloc) (\<lambda>_. ret None)
              | Some fs \<Rightarrow> map_twice ops umm user_flags previous_next_alloc virt_view_base data_size fs) (l, s)))"

definition sys_create_circular_buffer :: "nat \<Rightarrow> 'd sys_env \<Rightarrow> syscall_frame \<Rightarrow> ('d, nat) scall" where
  "sys_create_circular_buffer me env f =
     (if \<not> validate_user_ptr (arg3 f) 24 then ret U64_MAX
      else bind (current_pid me) (\<lambda>pid.
        or_return U64_MAX (on_proc (get_process pid)) (\<lambda>_.
        bind (on_proc (with_layout pid (map_for_user (se_ops env) (se_umm env) (arg1 f) (of_nat (arg2 f))))) (\<lambda>info.
          case info of
            Some (virtual_base, view_size, total_size) \<Rightarrow>
              bind (store_user (arg3 f) (le_bytes 8 virtual_base @ le_bytes 8 view_size @ le_bytes 8 total_size)) (\<lambda>_. ret 0)
          | None \<Rightarrow> ret U64_MAX))))"

section \<open>The rest\<close>

definition sys_get_cpu_info :: "'d sys_env \<Rightarrow> syscall_frame \<Rightarrow> ('d, nat) scall" where
  "sys_get_cpu_info env f =
     (if \<not> validate_user_ptr (arg1 f) (arg2 f) then ret 2
      else bind (aligned 16 (arg1 f)) (\<lambda>_. bind (store_user (arg1 f) (se_cpu_info env)) (\<lambda>_. ret 0)))"

definition sys_futex_wake :: "nat \<Rightarrow> ('d, nat) scall" where
  "sys_futex_wake me = reading (\<lambda>s.
     bind (on_proc (on_sched (wake_all me (os_futex s)))) (\<lambda>w. bind (modify (\<lambda>s. s\<lparr>os_futex := w\<rparr>)) (\<lambda>_. ret 0)))"

datatype syscall_number =
  CreateProcess | TerminateProcess | Write | Read | GetLine | Allocate | LoadFile | UnloadFile | CreateWindow | DestroyWindow
| MapWindowBuffer | PresentWindow | GetWindowSize | FocusWindow | GetWindowInfo | OpenFile | CloseFile | ReadFile | WriteFile
| StatFile | ListDir | CreateFile | CreateDir | Delete | PinFile | UnpinFile | ReserveCache | EvictDirectory | GetCacheStats
| FlushFileCache | CreateCircularBuffer | SleepMs | WaitForInput | FutexWait | FutexWake | GetCpuInfo | GetProcessInfo | GetPID
| Yield | Exit

definition syscall_numbers :: "(nat \<times> syscall_number) list" where
  "syscall_numbers =
     [(0, CreateProcess), (1, TerminateProcess), (2, Write), (3, Read), (4, GetLine), (5, Allocate), (8, LoadFile), (9, UnloadFile),
      (10, CreateWindow), (11, DestroyWindow), (12, MapWindowBuffer), (13, PresentWindow), (14, GetWindowSize), (15, FocusWindow),
      (16, GetWindowInfo), (20, OpenFile), (21, CloseFile), (22, ReadFile), (23, WriteFile), (24, StatFile), (25, ListDir),
      (26, CreateFile), (27, CreateDir), (28, Delete), (30, PinFile), (31, UnpinFile), (32, ReserveCache), (33, EvictDirectory),
      (34, GetCacheStats), (35, FlushFileCache), (600, CreateCircularBuffer), (990, SleepMs), (991, WaitForInput), (992, FutexWait),
      (993, FutexWake), (970, GetCpuInfo), (996, GetProcessInfo), (997, GetPID), (998, Yield), (999, Exit)]"

definition returned :: "('d, nat) scall \<Rightarrow> ('d, sys_result) scall" where
  "returned m = bind m (\<lambda>n. ret (Returns n))"

text \<open>
  \<open>dispatch_syscall\<close>. Where the call goes on to the scheduler the result names what it asks for; the
  rounds of sleeping, waiting and yielding are in \<open>Scheduler\<close>. A number that is not in the enumeration
  is transmuted all the same, which is undefined.
\<close>

fun run_syscall :: "syscall_number \<Rightarrow> nat \<Rightarrow> 'd sys_env \<Rightarrow> syscall_frame \<Rightarrow> ('d, sys_result) scall" where
  "run_syscall CreateProcess me env f = returned (sys_create_process me env f)"
| "run_syscall TerminateProcess me env f = sys_terminate_process me f"
| "run_syscall Write me env f = returned (sys_write f)"
| "run_syscall CreateWindow me env f = returned (sys_create_window me env f)"
| "run_syscall DestroyWindow me env f = returned (sys_destroy_window env f)"
| "run_syscall GetPID me env f = returned (current_pid me)"
| "run_syscall Yield me env f = ret Yields"
| "run_syscall Exit me env f = ret (Exits_with (as_i32 (arg1 f)))"
| "run_syscall Allocate me env f = returned (sys_allocate me env f)"
| "run_syscall MapWindowBuffer me env f = returned (sys_map_window_buffer me env f)"
| "run_syscall PresentWindow me env f = returned (sys_present_window f)"
| "run_syscall GetWindowSize me env f = returned (sys_get_window_size f)"
| "run_syscall GetWindowInfo me env f = returned (sys_get_window_info f)"
| "run_syscall FocusWindow me env f = returned (sys_focus_window f)"
| "run_syscall OpenFile me env f = returned (sys_open_file me env f)"
| "run_syscall CloseFile me env f = returned (sys_close_file me f)"
| "run_syscall ReadFile me env f = returned (sys_read_file me env f)"
| "run_syscall WriteFile me env f = returned (sys_write_file me env f)"
| "run_syscall StatFile me env f = returned (sys_stat_file env f)"
| "run_syscall ListDir me env f = returned (sys_list_dir env f)"
| "run_syscall CreateFile me env f = returned (sys_create_file env f)"
| "run_syscall CreateDir me env f = returned (sys_create_dir env f)"
| "run_syscall Delete me env f = returned (sys_delete env f)"
| "run_syscall PinFile me env f = returned (sys_pin_file env f)"
| "run_syscall UnpinFile me env f = returned (sys_unpin_file env f)"
| "run_syscall ReserveCache me env f = returned (sys_reserve_cache env f)"
| "run_syscall EvictDirectory me env f = returned (sys_evict_directory env f)"
| "run_syscall GetCacheStats me env f = returned (sys_get_cache_stats f)"
| "run_syscall FlushFileCache me env f = returned (sys_flush_file_cache me env)"
| "run_syscall CreateCircularBuffer me env f = returned (sys_create_circular_buffer me env f)"
| "run_syscall GetCpuInfo me env f = returned (sys_get_cpu_info env f)"
| "run_syscall SleepMs me env f = ret (Sleeps (arg1 f))"
| "run_syscall WaitForInput me env f = bind (current_pid me) (\<lambda>pid. ret (Waits_for_input pid))"
| "run_syscall FutexWait me env f =
     (if \<not> validate_user_ptr (arg1 f) 4 then ret (Returns U64_MAX) else ret (Waits_on_word (arg1 f) (of_nat (arg2 f))))"
| "run_syscall FutexWake me env f = returned (sys_futex_wake me)"
| "run_syscall Read me env f = ret (Returns U64_MAX)"
| "run_syscall GetLine me env f = ret (Returns U64_MAX)"
| "run_syscall LoadFile me env f = ret (Returns U64_MAX)"
| "run_syscall UnloadFile me env f = ret (Returns U64_MAX)"
| "run_syscall GetProcessInfo me env f = ret (Returns U64_MAX)"

definition dispatch_syscall :: "nat \<Rightarrow> 'd sys_env \<Rightarrow> syscall_frame \<Rightarrow> ('d, sys_result) scall" where
  "dispatch_syscall me env f =
     (case map_of syscall_numbers (syscall_num f) of Some n \<Rightarrow> run_syscall n me env f | None \<Rightarrow> panic)"

end
