(* ===== verification/Composition.thy ===== *)
theory Composition
  imports Compositor
begin

text \<open>
  What a frame shows. The framebuffer is read as an image (\<open>pixel_at\<close>), an operation as a layer of
  pixels put over it (\<open>painted\<close>, \<open>over\<close>); the loops of \<open>draw_cursor\<close> and \<open>compose\<close> paint the layers
  \<open>cursor_layer\<close> and \<open>window_layer\<close>. The last sections show where the composition goes wrong.
\<close>

section \<open>The framebuffer as an image\<close>

definition stride :: "framebuffer \<Rightarrow> nat" where
  "stride fb = fb_pitch fb div 4"

definition fb_ok :: "framebuffer \<Rightarrow> bool" where
  "fb_ok fb \<longleftrightarrow> fb_pitch fb mod 4 = 0 \<and> fb_width fb \<le> stride fb \<and> fb_width fb < 2 ^ 31 \<and> fb_height fb < 2 ^ 31
     \<and> fb_height fb * fb_pitch fb < 2 ^ 32 \<and> fb_pitch fb < 2 ^ 32 \<and> length (fb_mem fb) = fb_height fb * stride fb"

definition pixel_at :: "framebuffer \<Rightarrow> nat \<Rightarrow> nat \<Rightarrow> u32" where
  "pixel_at fb x y = fb_mem fb ! (y * stride fb + x)"

text \<open>\<open>painted fb fb' p\<close>: the visible image of \<open>fb'\<close> is that of \<open>fb\<close> with the pixels of \<open>p\<close> put over it.\<close>

type_synonym layer = "nat \<Rightarrow> nat \<Rightarrow> u32 option"

definition over :: "layer \<Rightarrow> layer \<Rightarrow> layer" where
  "over p q = (\<lambda>x y. case p x y of Some c \<Rightarrow> Some c | None \<Rightarrow> q x y)"

definition painted :: "framebuffer \<Rightarrow> framebuffer \<Rightarrow> layer \<Rightarrow> bool" where
  "painted fb fb' p \<longleftrightarrow> fb_ok fb' \<and> fb_width fb' = fb_width fb \<and> fb_height fb' = fb_height fb \<and> fb_pitch fb' = fb_pitch fb
     \<and> (\<forall>x y. x < fb_width fb \<and> y < fb_height fb \<longrightarrow> pixel_at fb' x y = (case p x y of Some c \<Rightarrow> c | None \<Rightarrow> pixel_at fb x y))"

definition same_layer :: "framebuffer \<Rightarrow> layer \<Rightarrow> layer \<Rightarrow> bool" where
  "same_layer fb p q \<longleftrightarrow> (\<forall>x y. x < fb_width fb \<and> y < fb_height fb \<longrightarrow> p x y = q x y)"

lemma painted_none: "fb_ok fb \<Longrightarrow> painted fb fb (\<lambda>x y. None)"
  by (simp add: painted_def)

lemma painted_trans: "painted fb fb' p \<Longrightarrow> painted fb' fb'' q \<Longrightarrow> painted fb fb'' (over q p)"
  by (auto simp: painted_def over_def split: option.splits)

lemma painted_ok: "painted fb fb' p \<Longrightarrow> fb_ok fb'"
  by (simp add: painted_def)

lemma painted_cong: "painted fb fb' p \<Longrightarrow> (\<And>x y. x < fb_width fb \<Longrightarrow> y < fb_height fb \<Longrightarrow> p x y = q x y) \<Longrightarrow> painted fb fb' q"
  by (simp add: painted_def)

definition row_layer :: "nat \<Rightarrow> nat \<Rightarrow> u32 list \<Rightarrow> layer" where
  "row_layer x0 y0 px = (\<lambda>x y. if y = y0 \<and> x0 \<le> x \<and> x < x0 + length px then Some (px ! (x - x0)) else None)"

lemma row_store:
  assumes "fb_ok fb" "y0 < fb_height fb" "x0 + length px \<le> fb_width fb"
  shows "\<exists>fb'. fb_store (y0 * fb_pitch fb + 4 * x0) px fb = Ok fb' \<and> painted fb fb' (row_layer x0 y0 px)"
proof -
  let ?o = "y0 * stride fb + x0"
  have p: "fb_pitch fb = 4 * stride fb" using assms(1) by (auto simp: fb_ok_def stride_def)
  have off: "y0 * fb_pitch fb + 4 * x0 = 4 * ?o" by (simp add: p algebra_simps)
  have "?o + length px \<le> Suc y0 * stride fb" using assms by (simp add: fb_ok_def)
  also have "\<dots> \<le> fb_height fb * stride fb" using assms(2) by (intro mult_le_mono1) simp
  finally have fits: "?o + length px \<le> length (fb_mem fb)" using assms(1) by (simp add: fb_ok_def)
  define fb' where "fb' = fb\<lparr>fb_mem := blit ?o px (fb_mem fb)\<rparr>"
  have st: "stride fb' = stride fb" "fb_mem fb' = blit ?o px (fb_mem fb)" by (simp_all add: fb'_def stride_def)
  have at: "y * stride fb + x < length (fb_mem fb)" if "x < fb_width fb" "y < fb_height fb" for x y
    using row_major_less [of x "stride fb" y "fb_height fb"] that assms(1) by (simp add: fb_ok_def mult.commute)
  have "pixel_at fb' x y = (case row_layer x0 y0 px x y of Some c \<Rightarrow> c | None \<Rightarrow> pixel_at fb x y)"
    if xy: "x < fb_width fb" "y < fb_height fb" for x y
  proof (cases "y = y0")
    case True
    then show ?thesis using at [OF xy] fits
      by (auto simp: pixel_at_def st row_layer_def nth_blit)
  next
    case False
    have w: "x < stride fb" "x0 + length px \<le> stride fb" using xy assms by (auto simp: fb_ok_def)
    consider "Suc y \<le> y0" | "Suc y0 \<le> y" using False by linarith
    then have "y * stride fb + x < ?o \<or> ?o + length px \<le> y * stride fb + x"
    proof cases
      case 1
      then have "Suc y * stride fb \<le> y0 * stride fb" by (rule mult_le_mono1)
      then show ?thesis using w(1) by simp
    next
      case 2
      then have "Suc y0 * stride fb \<le> y * stride fb" by (rule mult_le_mono1)
      then show ?thesis using w(2) by simp
    qed
    then show ?thesis using at [OF xy] fits False
      by (auto simp: pixel_at_def st row_layer_def nth_blit)
  qed
  then have "painted fb fb' (row_layer x0 y0 px)"
    using assms(1) fits by (auto simp: painted_def fb_ok_def fb'_def stride_def)
  moreover have "fb_store (y0 * fb_pitch fb + 4 * x0) px fb = Ok fb'"
    unfolding off fb_store_def using fits by (simp add: fb'_def)
  ultimately show ?thesis by blast
qed

lemma dst_offset_ok:
  assumes "fb_ok fb" "x < fb_width fb" "y < fb_height fb"
  shows "dst_offset fb x y = Ok (y * fb_pitch fb + 4 * x)"
proof -
  have "4 * x < fb_pitch fb" using assms by (auto simp: fb_ok_def stride_def)
  then have "y * fb_pitch fb + 4 * x < Suc y * fb_pitch fb" by simp
  also have "\<dots> \<le> fb_height fb * fb_pitch fb" using assms(3) by (intro mult_le_mono1) simp
  finally show ?thesis using assms(1)
    by (simp add: dst_offset_def u32_mul_def u32_add_def fb_ok_def FRAMEBUFFER_BYTES_PER_PIXEL_def mult.commute)
qed

lemma painted_bounds:
  assumes "painted fb fb' p"
  shows "fb_ok fb'" "fb_width fb' = fb_width fb" "fb_height fb' = fb_height fb"
  using assms by (simp_all add: painted_def)

section \<open>The cursor\<close>

definition block_layer :: "nat set \<Rightarrow> nat set \<Rightarrow> u32 \<Rightarrow> layer" where
  "block_layer X Y c = (\<lambda>x y. if x \<in> X \<and> y \<in> Y then Some c else None)"

lemma cursor_cols_painted:
  "fb_ok fb \<Longrightarrow> y < fb_height fb \<Longrightarrow> set xs \<subseteq> {..<fb_width fb} \<Longrightarrow>
   \<exists>fb'. cursor_cols y c xs fb = Ok fb' \<and> painted fb fb' (block_layer (set xs) {y} c)"
proof (induction xs arbitrary: fb)
  case Nil
  then show ?case by (auto simp: block_layer_def intro: painted_none)
next
  case (Cons x xs)
  then have x: "x < fb_width fb" by simp
  from row_store [OF Cons.prems(1,2), of x "[c]"] x
  obtain fb1 where "fb_store (y * fb_pitch fb + 4 * x) [c] fb = (Ok fb1 :: ('a, _) outcome)" and
    p1: "painted fb fb1 (row_layer x y [c])"
    by (auto simp: Suc_le_eq)
  moreover obtain fb2 where "cursor_cols y c xs fb1 = (Ok fb2 :: ('a, _) outcome)" and p2: "painted fb1 fb2 (block_layer (set xs) {y} c)"
    using Cons.IH [OF painted_bounds(1) [OF p1]] Cons.prems painted_bounds [OF p1] by auto
  moreover have "painted fb fb2 (block_layer (set (x # xs)) {y} c)"
    by (rule painted_cong [OF painted_trans [OF p1 p2]]) (auto simp: over_def block_layer_def row_layer_def)
  ultimately show ?case by (auto simp: dst_offset_ok [OF Cons.prems(1) x Cons.prems(2)])
qed

lemma cursor_rows_painted:
  "fb_ok fb \<Longrightarrow> set ys \<subseteq> {..<fb_height fb} \<Longrightarrow> set xs \<subseteq> {..<fb_width fb} \<Longrightarrow>
   \<exists>fb'. cursor_rows xs c ys fb = Ok fb' \<and> painted fb fb' (block_layer (set xs) (set ys) c)"
proof (induction ys arbitrary: fb)
  case Nil
  then show ?case by (auto simp: block_layer_def intro: painted_none)
next
  case (Cons y ys)
  then obtain fb1 where "cursor_cols y c xs fb = (Ok fb1 :: ('a, _) outcome)" and p1: "painted fb fb1 (block_layer (set xs) {y} c)"
    using cursor_cols_painted [OF Cons.prems(1), of y xs c] by auto
  moreover obtain fb2 where "cursor_rows xs c ys fb1 = (Ok fb2 :: ('a, _) outcome)" and p2: "painted fb1 fb2 (block_layer (set xs) (set ys) c)"
    using Cons.IH [OF painted_bounds(1) [OF p1]] Cons.prems painted_bounds [OF p1] by auto
  moreover have "painted fb fb2 (block_layer (set xs) (set (y # ys)) c)"
    by (rule painted_cong [OF painted_trans [OF p1 p2]]) (auto simp: over_def block_layer_def)
  ultimately show ?case by auto
qed

lemma as_i32_small: "n < 2 ^ 31 \<Longrightarrow> as_i32 n = int n"
  by (simp add: as_i32_def Let_def)

lemma as_u32_small: "0 \<le> i \<Longrightarrow> i < 2 ^ 32 \<Longrightarrow> as_u32 i = nat i"
  by (simp add: as_u32_def)

text \<open>The cursor is a block of three by ten pixels from its position on, cut at the edges; it is not drawn when the position is outside.\<close>

definition cursor_layer :: "framebuffer \<Rightarrow> int \<Rightarrow> int \<Rightarrow> u32 \<Rightarrow> layer" where
  "cursor_layer fb cx cy c = (\<lambda>x y.
     if 0 \<le> cx \<and> 0 \<le> cy \<and> cx < int (fb_width fb) \<and> cy < int (fb_height fb)
        \<and> cx \<le> int x \<and> int x < cx + 3 \<and> cy \<le> int y \<and> int y < cy + 10 then Some c else None)"

lemma fb_ok_small:
  assumes "fb_ok fb" "0 < fb_width fb" "0 < fb_height fb"
  shows "fb_width fb < 2 ^ 30" "fb_height fb < 2 ^ 30"
proof -
  have p: "4 * fb_width fb \<le> fb_pitch fb" "fb_height fb * fb_pitch fb < 2 ^ 32" using assms(1) by (auto simp: fb_ok_def stride_def)
  have "1 * fb_pitch fb \<le> fb_height fb * fb_pitch fb" using assms(3) by (intro mult_le_mono1) simp
  with p have "4 * fb_width fb < 2 ^ 32" by linarith
  then show "fb_width fb < 2 ^ 30" by simp
  have "fb_height fb * 4 \<le> fb_height fb * fb_pitch fb" using p(1) assms(2) by (intro mult_le_mono2) simp
  with p(2) have "fb_height fb * 4 < 2 ^ 32" by linarith
  then show "fb_height fb < 2 ^ 30" by simp
qed

lemma draw_cursor_painted:
  assumes "fb_ok fb"
  shows "\<exists>fb'. draw_cursor cx cy c fb = Ok fb' \<and> painted fb fb' (cursor_layer fb cx cy c)"
proof (cases "0 \<le> cx \<and> cx < int (fb_width fb) \<and> 0 \<le> cy \<and> cy < int (fb_height fb)")
  case True
  have fw: "as_i32 (fb_width fb) = int (fb_width fb)" "as_i32 (fb_height fb) = int (fb_height fb)" 
    using assms by (auto simp: fb_ok_def intro!: as_i32_small)
  have hw: "fb_width fb < 2 ^ 30" "fb_height fb < 2 ^ 30"
    using fb_ok_small [OF assms] True by auto
  define X where "X = [nat cx..<nat (min (cx + 3) (int (fb_width fb)))]"
  define Y where "Y = [nat cy..<nat (min (cy + 10) (int (fb_height fb)))]"
  have "draw_cursor cx cy c fb = cursor_rows X c Y fb"
    using True hw unfolding draw_cursor_def fw Let_def X_def Y_def
    by (simp add: i32_add_def i32_ok_def CURSOR_SIZE_X_def CURSOR_SIZE_Y_def as_u32_small)
  moreover have "block_layer (set X) (set Y) c x y = cursor_layer fb cx cy c x y"
    if "x < fb_width fb" "y < fb_height fb" for x y
    using True that by (auto simp: block_layer_def cursor_layer_def X_def Y_def)
  moreover have "set X \<subseteq> {..<fb_width fb}" "set Y \<subseteq> {..<fb_height fb}" by (auto simp: X_def Y_def)
  ultimately show ?thesis
    using cursor_rows_painted [OF assms, of Y X c] painted_cong by metis
next
  case False
  have fw: "as_i32 (fb_width fb) = int (fb_width fb)" "as_i32 (fb_height fb) = int (fb_height fb)" 
    using assms by (auto simp: fb_ok_def intro!: as_i32_small)
  with False have "draw_cursor cx cy c fb = Ok fb" "cursor_layer fb cx cy c = (\<lambda>x y. None)"
    by (auto simp: draw_cursor_def Let_def cursor_layer_def fun_eq_iff)
  then show ?thesis using painted_none [OF assms] by auto
qed

section \<open>Windows\<close>

text \<open>
  A window that reaches the screen or lies to its right or below: its edges are \<open>i32\<close> values and
  neither its right nor its lower edge is negative. Its front buffer has all its pixels.
\<close>

definition placed :: "pixel_store \<Rightarrow> window \<Rightarrow> bool" where
  "placed px w \<longleftrightarrow> window_buffer_ok (w_buffer w) px \<and> wb_width (w_buffer w) < 2 ^ 31 \<and> wb_height (w_buffer w) < 2 ^ 31
     \<and> 0 \<le> w_x w + int (wb_width (w_buffer w)) \<and> w_x w + int (wb_width (w_buffer w)) < 2 ^ 31
     \<and> 0 \<le> w_y w + int (wb_height (w_buffer w)) \<and> w_y w + int (wb_height (w_buffer w)) < 2 ^ 31"

definition window_layer :: "pixel_store \<Rightarrow> window \<Rightarrow> layer" where
  "window_layer px w = (\<lambda>x y.
     let b = w_buffer w; u = int x - w_x w; v = int y - w_y w in
     if w_visible w \<and> 0 \<le> u \<and> u < int (wb_width b) \<and> 0 \<le> v \<and> v < int (wb_height b)
     then Some (px (wb_front b) ! (nat v * wb_width b + nat u)) else None)"

definition rows_layer :: "nat \<Rightarrow> nat \<Rightarrow> nat \<Rightarrow> nat \<Rightarrow> nat \<Rightarrow> nat \<Rightarrow> u32 list \<Rightarrow> nat set \<Rightarrow> layer" where
  "rows_layer width sx sy x0 y0 cw src R = (\<lambda>x y.
     if x0 \<le> x \<and> x < x0 + cw \<and> y0 \<le> y \<and> y - y0 \<in> R then Some (src ! ((sy + (y - y0)) * width + (sx + (x - x0)))) else None)"

lemma copy_rows_painted:
  assumes "sx + cw \<le> width" "0 < cw" "width * height < 2 ^ 32" "length src = width * height"
  shows "fb_ok fb \<Longrightarrow> x0 + cw \<le> fb_width fb \<Longrightarrow> (\<And>y. y \<in> set ys \<Longrightarrow> y0 + y < fb_height fb \<and> sy + y < height) \<Longrightarrow>
    \<exists>fb'. copy_rows width sx sy x0 y0 cw src ys fb = Ok fb' \<and> painted fb fb' (rows_layer width sx sy x0 y0 cw src (set ys))"
proof (induction ys arbitrary: fb)
  case Nil
  then show ?case by (auto simp: rows_layer_def intro: painted_none)
next
  case (Cons y ys)
  have y: "y0 + y < fb_height fb" "sy + y < height" using Cons.prems(3) [of y] by auto
  have "(sy + y) * width + (sx + cw) \<le> Suc (sy + y) * width" using assms(1) by simp
  also have "\<dots> \<le> height * width" using y(2) by (intro mult_le_mono1) simp
  finally have fit: "(sy + y) * width + sx + cw \<le> width * height" by (simp add: mult.commute)
  have "sy + y < height * width" using y(2) assms(1,2) by (metis less_le_trans mult.right_neutral mult_le_mono2 Suc_leI le_less_trans less_imp_le add_gr_0 One_nat_def)
  then have small: "sy + y < 2 ^ 32" "(sy + y) * width < 2 ^ 32" "(sy + y) * width + sx < 2 ^ 32"
    using fit assms(2,3) by (auto simp: mult.commute)
  have dy: "y0 + y < 2 ^ 32" using y(1) Cons.prems(1) by (auto simp: fb_ok_def)
  let ?row = "chunk ((sy + y) * width + sx) cw src"
  have len: "length ?row = cw" using fit assms(4) by simp
  obtain fb1 where s1: "fb_store ((y0 + y) * fb_pitch fb + 4 * x0) ?row fb = (Ok fb1 :: ('a, _) outcome)" and
    p1: "painted fb fb1 (row_layer x0 (y0 + y) ?row)"
    using row_store [OF Cons.prems(1) y(1), of x0 ?row] Cons.prems(2) len by auto
  obtain fb2 where s2: "copy_rows width sx sy x0 y0 cw src ys fb1 = (Ok fb2 :: ('a, _) outcome)" and
    p2: "painted fb1 fb2 (rows_layer width sx sy x0 y0 cw src (set ys))"
    using Cons.IH [OF painted_bounds(1) [OF p1]] Cons.prems painted_bounds [OF p1] by auto
  have "painted fb fb2 (rows_layer width sx sy x0 y0 cw src (set (y # ys)))"
  proof (rule painted_cong [OF painted_trans [OF p1 p2]])
    fix u v
    show "over (rows_layer width sx sy x0 y0 cw src (set ys)) (row_layer x0 (y0 + y) ?row) u v
        = rows_layer width sx sy x0 y0 cw src (set (y # ys)) u v"
      using fit len assms(4)
      by (auto simp: over_def rows_layer_def row_layer_def nth_chunk algebra_simps)
  qed
  moreover have "dst_offset fb x0 (y0 + y) = (Ok ((y0 + y) * fb_pitch fb + 4 * x0) :: ('a, _) outcome)"
    by (rule dst_offset_ok) (use Cons.prems(1,2) y(1) assms(2) in auto)
  ultimately show ?case
    using s1 s2 small dy fit assms(4) by (simp add: u32_add_def u32_mul_def)
qed

lemma src_start_ok: "- (2 ^ 31) < x \<Longrightarrow> x < 2 ^ 31 \<Longrightarrow> src_start x = Ok (nat (- x))"
  by (auto simp: src_start_def i32_neg_def i32_ok_def as_u32_small)

lemma blit_window_painted:
  assumes "fb_ok fb" "placed px w" "w_visible w"
  shows "\<exists>fb'. blit_window px w fb = Ok fb' \<and> painted fb fb' (window_layer px w)"
proof -
  define W H X Y where "W = wb_width (w_buffer w)" and "H = wb_height (w_buffer w)" and "X = w_x w" and "Y = w_y w"
  have pl: "W < 2 ^ 31" "H < 2 ^ 31" "0 \<le> X + int W" "X + int W < 2 ^ 31" "0 \<le> Y + int H" "Y + int H < 2 ^ 31"
    "W * H < 2 ^ 32" "length (px (wb_front (w_buffer w))) = W * H"
    using assms(2) by (auto simp: placed_def window_buffer_ok_def W_def H_def X_def Y_def)
  have fw: "as_i32 (fb_width fb) = int (fb_width fb)" "as_i32 (fb_height fb) = int (fb_height fb)"
    "fb_width fb < 2 ^ 31" "fb_height fb < 2 ^ 31"
    using assms(1) by (auto simp: fb_ok_def intro!: as_i32_small)
  define sx sy ex ey where "sx = nat (max X 0)" and "sy = nat (max Y 0)"
    and "ex = nat (min (X + int W) (int (fb_width fb)))" and "ey = nat (min (Y + int H) (int (fb_height fb)))"
  have cast: "as_u32 (max X 0) = sx" "as_u32 (max Y 0) = sy"
    "as_u32 (min (X + int W) (int (fb_width fb))) = ex" "as_u32 (min (Y + int H) (int (fb_height fb))) = ey"
    using pl fw by (auto simp: as_u32_small sx_def sy_def ex_def ey_def)
  have run: "blit_window px w fb =
      (if ex \<le> sx \<or> ey \<le> sy then Ok fb
       else copy_rows W (nat (- X)) (nat (- Y)) sx sy (ex - sx) (px (wb_front (w_buffer w))) [0..<ey - sy] fb)"
    using pl unfolding blit_window_def Let_def
    by (simp add: W_def [symmetric] H_def [symmetric] X_def [symmetric] Y_def [symmetric] as_i32_small i32_add_def i32_ok_def
        fw(1,2) cast src_start_ok)
  show ?thesis
  proof (cases "ex \<le> sx \<or> ey \<le> sy")
    case True
    then have "window_layer px w x y = None" if "x < fb_width fb" "y < fb_height fb" for x y
      using that pl by (auto simp: window_layer_def Let_def sx_def sy_def ex_def ey_def
          W_def [symmetric] H_def [symmetric] X_def [symmetric] Y_def [symmetric])
    then show ?thesis using True run painted_cong [OF painted_none [OF assms(1)]] by auto
  next
    case False
    let ?L = "rows_layer W (nat (- X)) (nat (- Y)) sx sy (ex - sx) (px (wb_front (w_buffer w))) (set [0..<ey - sy])"
    have "\<exists>fb'. copy_rows W (nat (- X)) (nat (- Y)) sx sy (ex - sx) (px (wb_front (w_buffer w))) [0..<ey - sy] fb
        = (Ok fb' :: ('a, _) outcome) \<and> painted fb fb' ?L"
    proof (rule copy_rows_painted [of _ _ _ H])
      show "nat (- X) + (ex - sx) \<le> W" "0 < ex - sx" "sx + (ex - sx) \<le> fb_width fb"
        using False pl by (auto simp: sx_def ex_def)
      show "sy + y < fb_height fb \<and> nat (- Y) + y < H" if "y \<in> set [0..<ey - sy]" for y
        using that False pl(5) by (simp add: sy_def ey_def) linarith
    qed (use pl assms(1) in auto)
    moreover have "?L x y = window_layer px w x y" if "x < fb_width fb" "y < fb_height fb" for x y
    proof -
      have "sx \<le> x \<and> x < sx + (ex - sx) \<longleftrightarrow> 0 \<le> int x - X \<and> int x - X < int W"
        using False that(1) by (simp add: sx_def ex_def) linarith
      moreover have "sy \<le> y \<and> y - sy \<in> set [0..<ey - sy] \<longleftrightarrow> 0 \<le> int y - Y \<and> int y - Y < int H"
        using False that(2) by (simp add: sy_def ey_def) linarith
      moreover have "nat (int y - Y) = nat (- Y) + (y - sy)" if "sy \<le> y" using that by (simp add: sy_def)
      moreover have "nat (int x - X) = nat (- X) + (x - sx)" if "sx \<le> x" using that by (simp add: sx_def)
      ultimately show ?thesis using assms(3) unfolding rows_layer_def window_layer_def Let_def
        W_def [symmetric] H_def [symmetric] X_def [symmetric] Y_def [symmetric]
        by (cases "sx \<le> x \<and> x < sx + (ex - sx)"; cases "sy \<le> y \<and> y - sy \<in> set [0..<ey - sy]") auto
    qed
    ultimately show ?thesis using False run painted_cong by metis
  qed
qed

section \<open>The composed frame\<close>

definition swapped :: "window \<Rightarrow> window" where
  "swapped w = (if w_visible w then w\<lparr>w_buffer := snd (try_swap (w_buffer w))\<rparr> else w)"

primrec windows_layer :: "pixel_store \<Rightarrow> window list \<Rightarrow> layer" where
  "windows_layer px [] = (\<lambda>x y. None)"
| "windows_layer px (w # ws) = over (windows_layer px ws) (window_layer px w)"

lemma placed_swapped: "placed px w \<Longrightarrow> placed px (swapped w)"
  by (auto simp: placed_def swapped_def window_buffer_ok_def try_swap_def)

lemma window_layer_hidden: "\<not> w_visible w \<Longrightarrow> window_layer px w = (\<lambda>x y. None)"
  by (simp add: window_layer_def Let_def fun_eq_iff)

lemma over_none [simp]: "over p (\<lambda>x y. None) = p" "over (\<lambda>x y. None) p = p"
  by (auto simp: over_def fun_eq_iff split: option.splits)

lemma compose_windows_painted:
  "fb_ok fb \<Longrightarrow> (\<And>w. w \<in> set ws \<Longrightarrow> w_visible w \<Longrightarrow> placed px w) \<Longrightarrow>
   \<exists>fb'. compose_windows px ws fb = Ok (map swapped ws, fb') \<and> painted fb fb' (windows_layer px (map swapped ws))"
proof (induction ws arbitrary: fb)
  case Nil
  then show ?case by (auto intro: painted_none)
next
  case (Cons w ws)
  show ?case
  proof (cases "w_visible w")
    case False
    with Cons.IH [OF Cons.prems(1)] Cons.prems(2) show ?thesis
      by (force simp: swapped_def window_layer_hidden)
  next
    case True
    have "placed px (swapped w)" "w_visible (swapped w)"
      using placed_swapped [OF Cons.prems(2) [OF _ True]] True by (auto simp: swapped_def)
    with blit_window_painted [OF Cons.prems(1), of px "swapped w"] obtain fb1
      where b: "blit_window px (swapped w) fb = (Ok fb1 :: ('a, _) outcome)" and p1: "painted fb fb1 (window_layer px (swapped w))"
      by blast
    from Cons.IH [OF painted_bounds(1) [OF p1]] Cons.prems(2) obtain fb2
      where c: "compose_windows px ws fb1 = (Ok (map swapped ws, fb2) :: ('a, _) outcome)"
        and p2: "painted fb1 fb2 (windows_layer px (map swapped ws))" by auto
    show ?thesis using b c True painted_trans [OF p1 p2] by (simp add: swapped_def [of w])
  qed
qed











section \<open>What the composition does not do\<close>

definition restack :: "(window \<Rightarrow> nat) \<Rightarrow> window \<Rightarrow> window" where
  "restack z w = w\<lparr>w_z_index := z w\<rparr>"

lemma blit_window_restack:
  "blit_window px (restack z w\<lparr>w_buffer := b\<rparr>) fb = blit_window px (w\<lparr>w_buffer := b\<rparr>) fb"
  unfolding blit_window_def restack_def Let_def by (simp cong: if_cong)

lemma and_then_assoc: "and_then (and_then r f) g = and_then r (\<lambda>a. and_then (f a) g)"
  by (cases r) auto

lemma compose_windows_restack:
  "and_then (compose_windows px (map (restack z) ws) fb) (\<lambda>(ws', fb'). k fb')
   = and_then (compose_windows px ws fb) (\<lambda>(ws', fb'). k fb')"
proof (induction ws arbitrary: fb)
  case (Cons w ws)
  have r: "w_visible (restack z w) = w_visible w" "w_buffer (restack z w) = w_buffer w" by (simp_all add: restack_def)
  show ?case
    by (simp add: r Let_def blit_window_restack and_then_assoc Cons.IH [unfolded split_def] split_def)
qed simp

definition off_left :: "pixel_store \<Rightarrow> nat \<Rightarrow> window \<Rightarrow> bool" where
  "off_left px screen_height w \<longleftrightarrow> window_buffer_ok (w_buffer w) px \<and> 0 < screen_height \<and> 0 < wb_height (w_buffer w)
     \<and> wb_width (w_buffer w) < 2 ^ 31 \<and> wb_height (w_buffer w) < 2 ^ 31
     \<and> - (2 ^ 31) < w_x w \<and> w_x w + int (wb_width (w_buffer w)) < 0
     \<and> - (2 ^ 31) < w_y w \<and> 0 < w_y w + int (wb_height (w_buffer w)) \<and> w_y w < int screen_height
     \<and> w_y w + int (wb_height (w_buffer w)) < 2 ^ 31"

lemma window_left_of_screen:
  assumes "fb_ok fb" "off_left px (fb_height fb) w"
  shows "blit_window px w fb = Panic"
proof -
  define W H X Y where "W = wb_width (w_buffer w)" and "H = wb_height (w_buffer w)" and "X = w_x w" and "Y = w_y w"
  have pl: "W < 2 ^ 31" "H < 2 ^ 31" "- (2 ^ 31) < X" "X + int W < 0" "- (2 ^ 31) < Y" "0 < Y + int H" "Y < int (fb_height fb)" "Y + int H < 2 ^ 31"
    "W * H < 2 ^ 32" "length (px (wb_front (w_buffer w))) = W * H" "0 < H" "0 < fb_height fb"
    using assms(2) by (auto simp: off_left_def window_buffer_ok_def W_def H_def X_def Y_def)
  have fw: "as_i32 (fb_width fb) = int (fb_width fb)" "as_i32 (fb_height fb) = int (fb_height fb)"
    using assms(1) by (auto simp: fb_ok_def intro!: as_i32_small)
  define sy ey ex where "sy = nat (max Y 0)" and "ey = nat (min (Y + int H) (int (fb_height fb)))" and "ex = nat (2 ^ 32 + X + int W)"
  have "(X + int W) mod 2 ^ 32 = 2 ^ 32 + X + int W"
    using pl(3,4) mod_add_self1 [of "2 ^ 32" "X + int W"] mod_pos_pos_trivial [of "2 ^ 32 + (X + int W)" "2 ^ 32"]
    by (simp add: algebra_simps)
  then have cast: "as_u32 (max X 0) = 0" "as_u32 (max Y 0) = sy" "as_u32 (min (X + int W) (int (fb_width fb))) = ex"
    "as_u32 (min (Y + int H) (int (fb_height fb))) = ey"
    using pl assms(1) by (auto simp: fb_ok_def as_u32_def sy_def ex_def ey_def min_absorb1)
  have cast0: "as_u32 0 = 0" "as_u32 (X + int W) = ex" using cast(3) pl(4) by (simp_all add: as_u32_def min_absorb1)
  have big: "0 < ex" "sy < ey" using pl by (auto simp: sy_def ey_def ex_def)
  have run: "blit_window px w fb =
      copy_rows W (nat (- X)) (nat (- Y)) 0 sy ex (px (wb_front (w_buffer w))) [0..<ey - sy] fb"
    using pl big unfolding blit_window_def Let_def
    by (simp add: W_def [symmetric] H_def [symmetric] X_def [symmetric] Y_def [symmetric] as_i32_small i32_add_def i32_ok_def
        fw(1,2) cast cast0 src_start_ok)
  have "W * H < s * W + nat (- X) + ex" for s using pl by (simp add: ex_def)
  then have long: "\<not> s * W + nat (- X) + ex \<le> length (px (wb_front (w_buffer w)))" for s
    using pl(10) by (simp add: not_le)
  have "[0..<ey - sy] = 0 # [Suc 0..<ey - sy]" using big(2) by (simp add: upt_conv_Cons)
  then show ?thesis unfolding run using long by (auto simp: u32_add_def u32_mul_def dst_offset_def)
qed

lemma compose_windows_append:
  "compose_windows px (a @ b) fb = and_then (compose_windows px a fb) (\<lambda>(a', f).
     and_then (compose_windows px b f) (\<lambda>(b', f'). Ok (a' @ b', f')))"
proof (induction a arbitrary: fb)
  case Nil
  show ?case by (cases "compose_windows px b fb :: ('a, _) outcome") auto
next
  case (Cons w a)
  show ?case
    by (cases "blit_window px (w\<lparr>w_buffer := snd (try_swap (w_buffer w))\<rparr>) fb :: ('a, _) outcome";
        cases "w_visible w"; simp add: Let_def Cons.IH)
      (auto simp: and_then_assoc split_def)
qed

text \<open>A visible window whose right edge is left of the screen is not skipped. Its end column, a negative
  number, becomes a column near \<open>2 ^ 32\<close>, and the copy that follows reads past the window buffer: the
  frame is not composed. \<open>CreateWindow\<close> takes the position from the process unchecked.\<close>

theorem window_left_of_screen_not_composed:
  assumes "fb_ok fb" "windows (d_comp d) = before @ w # after" "\<forall>v \<in> set before. w_visible v \<longrightarrow> placed (d_pixels d) v"
    and "w_visible w" "off_left (d_pixels d) (fb_height fb) w"
  shows "fst (compose fb d) = Panic"
proof -
  let ?c = "d_comp d"
  obtain fb1 where s1: "draw_cursor (last_drawn_x ?c) (last_drawn_y ?c) CLEAR_COLOR_XRGB fb = (Ok fb1 :: (unit, _) outcome)"
    and p1: "painted fb fb1 (cursor_layer fb (last_drawn_x ?c) (last_drawn_y ?c) CLEAR_COLOR_XRGB)"
    using draw_cursor_painted [OF assms(1)] by blast
  obtain fb2 where s2: "compose_windows (d_pixels d) before fb1 = (Ok (map swapped before, fb2) :: (unit, _) outcome)"
    and p2: "painted fb1 fb2 (windows_layer (d_pixels d) (map swapped before))"
    using compose_windows_painted [OF painted_bounds(1) [OF p1]] assms(3) by blast
  have "off_left (d_pixels d) (fb_height fb2) (swapped w)"
    using assms(4,5) painted_bounds [OF painted_trans [OF p1 p2]]
    by (auto simp: off_left_def swapped_def try_swap_def window_buffer_ok_def)
  then have "blit_window (d_pixels d) (swapped w) fb2 = (Panic :: (unit, _) outcome)"
    by (rule window_left_of_screen [OF painted_bounds(1) [OF painted_trans [OF p1 p2]]])
  then have "compose_windows (d_pixels d) (windows ?c) fb1 = (Panic :: (unit, _) outcome)"
    using s2 assms(4) by (simp add: assms(2) compose_windows_append Let_def swapped_def [of w])
  with s1 show ?thesis by (simp add: compose_def reading_def bind_def lift_outcome_def)
qed

text \<open>The stacking order is not drawn. The frame is the same whatever the stacking indices of the
  windows are, so a window that is raised and gets the focus stays below every overlapping window
  with a greater identifier.\<close>

theorem compose_ignores_stacking:
  "fst (compose fb (d\<lparr>d_comp := (d_comp d)\<lparr>windows := map (restack z) (windows (d_comp d))\<rparr>\<rparr>)) = fst (compose fb d)"
proof -
  let ?c = "d_comp d"
  let ?d1 = "d\<lparr>d_comp := ?c\<lparr>windows := map (restack z) (windows ?c)\<rparr>\<rparr>"
  let ?k = "\<lambda>fb. if cursor_visible ?c then draw_cursor (mouse_x ?c) (mouse_y ?c) CURSOR_COLOR_XRGB fb else (Ok fb :: (unit, framebuffer) outcome)"
  have run: "fst (compose fb d) = and_then (draw_cursor (last_drawn_x (d_comp d)) (last_drawn_y (d_comp d)) CLEAR_COLOR_XRGB fb) (\<lambda>fb.
      and_then (compose_windows (d_pixels d) (windows (d_comp d)) fb) (\<lambda>(ws, fb). 
        if cursor_visible (d_comp d) then draw_cursor (mouse_x (d_comp d)) (mouse_y (d_comp d)) CURSOR_COLOR_XRGB fb else Ok fb))" for d
    unfolding compose_def reading_def bind_def lift_outcome_def set_comp_def modify_def ret_def
    by (auto split: outcome.splits)
  show ?thesis unfolding run using compose_windows_restack [of "d_pixels d" z "windows ?c" _ ?k] by (simp cong: if_cong)
qed

section \<open>A small screen\<close>

definition small_screen :: framebuffer where
  "small_screen = \<lparr>fb_width = 4, fb_height = 2, fb_pitch = 16, fb_mem = replicate 8 7\<rparr>"

definition small_window :: "int \<Rightarrow> window" where
  "small_window x = \<lparr>w_id = 0, w_owner_pid = 1, w_x = x, w_y = 0, w_z_index = 0, w_visible = True,
     w_buffer = \<lparr>wb_width = 2, wb_height = 2, wb_x = x, wb_y = 0, wb_back = 4096, wb_front = 8192, needs_swap = True, swap_count = 0\<rparr>,
     w_event_buffer = None, w_event_phys = 0\<rparr>"

definition small_kernel :: kernel where
  "small_kernel = \<lparr>k_pm = process_manager_new, k_machine = sample_machine, k_sched = sched_init, k_stacks = (\<lambda>_. 0),
     k_saved_rsp = (\<lambda>_. 0), k_core_pool = core_pool_new\<rparr>"

definition small_desktop :: "int \<Rightarrow> desktop" where
  "small_desktop x = \<lparr>d_comp = (compositor_new 4 2)\<lparr>windows := [small_window x], next_window_id := 1, mouse_x := 3, mouse_y := 1\<rparr>,
     d_kernel = small_kernel, d_events = (\<lambda>_. event_buffer_new), d_pixels = (\<lambda>a. if a = 4096 then [1, 2, 3, 4] else replicate 4 0),
     d_input = event_buffer_new, d_shared_focus = 0, d_input_waiters = waiter_list_new\<rparr>"

lemmas small_defs = small_screen_def small_window_def small_desktop_def compositor_new_def

lemma small_screen_ok: "fb_ok small_screen"
  by (simp add: fb_ok_def stride_def small_screen_def)



theorem window_left_of_screen_not_composed_witness:
  "fst (compose small_screen (small_desktop (- 5))) = Panic"
  by (rule window_left_of_screen_not_composed [of _ _ "[]" "small_window (- 5)" "[]"])
    (simp_all add: small_screen_ok, simp_all add: off_left_def window_buffer_ok_def small_defs)

end
