(* ===== verification/Compositor_Props.thy ===== *)
theory Compositor_Props
  imports Composition
begin

text \<open>
  Windows and their identifiers, focus and stacking, clicks and the end of a process. Most calls leave
  the compositor alone (\<open>quiet\<close>); for the others the change they make is a function of the compositor
  (\<open>focus_comp\<close>, \<open>take_id_comp\<close>, \<open>destroy_comp\<close>), and the invariant \<open>comp_ok\<close> is an invariant of these. The
  input handlers are treated once, in the locale \<open>input_stable\<close>, for every property that survives a
  change of the focus, of the cursor and of the keyboard.
\<close>

section \<open>Calls that leave the compositor alone\<close>

named_theorems quiet_intros \<open>calls that do not change the compositor\<close>

definition quiet :: "(desktop, 'e, 'a) call \<Rightarrow> bool" where
  "quiet m \<longleftrightarrow> (\<forall>d. d_comp (snd (m d)) = d_comp d)"

lemma quiet_basic [quiet_intros]:
  "quiet (ret a)" "quiet (fail e)" "quiet panic" "quiet diverge" "quiet (lift_outcome r)" "quiet (check_or_panic b)"
  "quiet (usize_add m n)" "quiet (set_events p eb)" "quiet (on_kernel k)"
  by (simp_all add: quiet_def ret_def fail_def panic_def diverge_def lift_outcome_def check_or_panic_def usize_add_def
      set_events_def modify_def on_kernel_def split_beta)

lemma quiet_bind [quiet_intros]:
  assumes "quiet m" "\<And>a. quiet (f a)"
  shows "quiet (bind m f)"
proof -
  have "d_comp (snd (bind m f d)) = d_comp d" for d
  proof (cases "m d")
    case (Pair r d1)
    with assms(1) have "d_comp d1 = d_comp d" unfolding quiet_def by (metis snd_conv)
    with Pair assms(2) show ?thesis by (cases r) (simp_all add: bind_def quiet_def)
  qed
  then show ?thesis by (simp add: quiet_def)
qed

lemma quiet_reading [quiet_intros]: "(\<And>d. quiet (f d)) \<Longrightarrow> quiet (reading f)"
  by (simp add: quiet_def reading_def)

lemma quiet_attempt [quiet_intros]: "quiet m \<Longrightarrow> quiet (attempt m)"
  unfolding quiet_def attempt_def by (auto split: prod.splits outcome.splits) (metis snd_conv)+

lemma quiet_cases [quiet_intros]:
  "(b \<Longrightarrow> quiet m) \<Longrightarrow> (\<not> b \<Longrightarrow> quiet n) \<Longrightarrow> quiet (if b then m else n)"
  "quiet n \<Longrightarrow> (\<And>a. x = Some a \<Longrightarrow> quiet (f a)) \<Longrightarrow> quiet (case x of None \<Rightarrow> n | Some a \<Rightarrow> f a)"
  "(\<And>a. z = Inl a \<Longrightarrow> quiet (g a)) \<Longrightarrow> (\<And>b. z = Inr b \<Longrightarrow> quiet (h b)) \<Longrightarrow> quiet (case z of Inl a \<Rightarrow> g a | Inr b \<Rightarrow> h b)"
  "(\<And>u v. p = (u, v) \<Longrightarrow> quiet (k u v)) \<Longrightarrow> quiet (case p of (u, v) \<Rightarrow> k u v)"
  by (auto split: option.splits sum.splits prod.splits)

lemma quiet_push_event [quiet_intros]: "quiet (push_event a e)"
  unfolding push_event_def
  by (intro quiet_intros) (auto split: outcome.splits intro: quiet_intros)

lemma quiet_publish [quiet_intros]: "quiet (publish a k m)" "quiet (publish_current a)"
  unfolding publish_def publish_current_def by (intro quiet_intros)+

lemma quiet_when_some [quiet_intros]: "(\<And>a. quiet (f a)) \<Longrightarrow> quiet (when_some x f)"
  unfolding when_some_def by (intro quiet_intros)

lemma quiet_release_keys [quiet_intros]: "quiet (release_keys a k keys)"
  by (induction keys) (auto intro!: quiet_intros)

lemma quiet_release_held_keys [quiet_intros]: "quiet (release_held_keys a)"
  unfolding release_held_keys_def by (intro quiet_intros)

lemma quiet_forward_event [quiet_intros]: "quiet (forward_event e)"
  unfolding forward_event_def by (intro quiet_intros)

lemma quiet_unmap [quiet_intros]: "quiet (unmap_range ops umm pid a n)" "quiet (unmap_window ops umm i pid phys pages)"
  unfolding unmap_range_def unmap_window_def Let_def by (intro quiet_intros)+

lemma quiet_allocate [quiet_intros]: "quiet (allocate_event_buffer_for_window ops umm i pid)"
  unfolding allocate_event_buffer_for_window_def by (intro quiet_intros)

lemma quiet_release_window [quiet_intros]: "quiet (release_window ops umm i w n)"
  unfolding release_window_def by (intro quiet_intros)

lemma quiet_shared_focus [quiet_intros]: "quiet (modify (\<lambda>d. d\<lparr>d_shared_focus := i\<rparr>))" "quiet (modify (\<lambda>d. d\<lparr>d_pixels := px\<rparr>))"
  "quiet (modify (\<lambda>d. d\<lparr>d_input := b\<rparr>))" "quiet (modify (\<lambda>d. d\<lparr>d_input_waiters := w\<rparr>))"
  by (simp_all add: quiet_def modify_def)

lemma quietD: "quiet m \<Longrightarrow> m d = (r, d') \<Longrightarrow> d_comp d' = d_comp d"
  by (metis quiet_def snd_conv)

section \<open>What the operations do to the compositor\<close>

definition raised :: "nat \<Rightarrow> compositor \<Rightarrow> compositor" where
  "raised i c =
     (let ws = (windows c)[i := (windows c ! i)\<lparr>w_z_index := max_z (windows c) + 1\<rparr>] in
      c\<lparr>windows := (if NORMALIZE_Z_INDEX_THRESHOLD < max_z (windows c) then normalize_z ws else ws), focused_window := i\<rparr>)"

definition focus_comp :: "nat \<Rightarrow> compositor \<Rightarrow> compositor" where
  "focus_comp i c = (if i = INVALID_WINDOW_ID \<or> i = focused_window c \<or> length (windows c) \<le> i then c else raised i c)"

lemma reading_app: "reading f d = f d d"
  by (simp add: reading_def)

lemma set_comp_bind: "bind (set_comp f) k d = k () (d\<lparr>d_comp := f (d_comp d)\<rparr>)"
  by (simp add: set_comp_def bind_def modify_def)

lemma ret_bind: "bind (ret a) k d = k a d"
  by (simp add: bind_def ret_def)

lemma lift_outcome_app: "lift_outcome r d = (r, d)"
  by (simp add: lift_outcome_def)

lemma check_bind: "bind (check_or_panic b) f d = (if b then f () d else (Panic, d))"
  by (simp add: check_or_panic_def bind_def ret_def panic_def)

lemma focus_window_comp:
  assumes "focus_window i d = (Ok a, d')"
  shows "d_comp d' = focus_comp i (d_comp d)"
proof (cases "i = INVALID_WINDOW_ID \<or> i = focused_window (d_comp d) \<or> length (windows (d_comp d)) \<le> i")
  case True
  then show ?thesis using assms
    by (auto simp: focus_window_def reading_def focus_comp_def Let_def ret_def panic_def split: if_splits)
next
  case False
  let ?c = "d_comp d"
  let ?set = "set_comp (\<lambda>c. update_window i (\<lambda>w. w\<lparr>w_z_index := max_z (windows ?c) + 1\<rparr>) c\<lparr>focused_window := i\<rparr>)"
  let ?norm = "if NORMALIZE_Z_INDEX_THRESHOLD < max_z (windows ?c) then set_comp (\<lambda>c. c\<lparr>windows := normalize_z (windows c)\<rparr>) else ret ()"
  let ?rest = "bind (reading (\<lambda>d. when_some (get_event_buffer (windows (d_comp d)) (focused_window ?c)) release_held_keys)) (\<lambda>_.
     bind (when_some (w_event_buffer (windows ?c ! i)) publish_current) (\<lambda>_.
       modify (\<lambda>d. d\<lparr>d_shared_focus := i\<rparr>)))"
  have q: "quiet ?rest" by (intro quiet_intros)
  have comm: "c\<lparr>focused_window := j, windows := ws\<rparr> = c\<lparr>windows := ws, focused_window := j\<rparr>" for c :: compositor and j ws by simp
  have d1: "bind ?set (\<lambda>_. bind ?norm (\<lambda>_. ?rest)) d = ?rest (d\<lparr>d_comp := raised i ?c\<rparr>)"
    by (cases "NORMALIZE_Z_INDEX_THRESHOLD < max_z (windows ?c)")
      (simp_all add: set_comp_bind ret_bind raised_def update_window_def Let_def comm)
  have "bind ?set (\<lambda>_. bind ?norm (\<lambda>_. ?rest)) d = (Ok a, d')"
  proof -
    have "windows ?c \<noteq> []" using False by auto
    with False have "focus_window i d = bind (check_or_panic (max_z (windows ?c) + 1 < 256)) (\<lambda>_. bind ?set (\<lambda>_. bind ?norm (\<lambda>_. ?rest))) d"
      unfolding focus_window_def reading_app Let_def by simp
    with assms show ?thesis unfolding check_bind by (simp split: if_split_asm)
  qed
  then have "?rest (d\<lparr>d_comp := raised i ?c\<rparr>) = (Ok a, d')" by (simp only: d1)
  then have "d_comp d' = d_comp (d\<lparr>d_comp := raised i ?c\<rparr>)" by (rule quietD [OF q])
  with False show ?thesis by (simp add: focus_comp_def)
qed


lemma bind_kept:
  assumes "bind m k d = (Ok a, d')"
  obtains b d1 where "m d = (Ok b, d1)" "k b d1 = (Ok a, d')"
  using assms by (auto simp: bind_eq_Ok_iff)

definition taken_id :: "compositor \<Rightarrow> nat" where
  "taken_id c = (if free_window_ids c \<noteq> [] then last (free_window_ids c) else next_window_id c)"

definition take_id_comp :: "compositor \<Rightarrow> compositor" where
  "take_id_comp c = (if free_window_ids c \<noteq> [] then c\<lparr>free_window_ids := butlast (free_window_ids c)\<rparr>
     else c\<lparr>next_window_id := (next_window_id c + 1) mod 2 ^ 32\<rparr>)"

lemma take_window_id_comp:
  "take_window_id d = (Ok (taken_id (d_comp d)), d\<lparr>d_comp := take_id_comp (d_comp d)\<rparr>)"
  by (simp add: take_window_id_def reading_app Let_def set_comp_bind taken_id_def take_id_comp_def ret_def)

definition opened_window :: "nat \<Rightarrow> nat \<Rightarrow> int \<Rightarrow> int \<Rightarrow> window_buffer \<Rightarrow> (nat \<times> nat) option \<Rightarrow> window" where
  "opened_window i pid x y b eb = \<lparr>w_id = i, w_owner_pid = pid, w_x = x, w_y = y, w_z_index = 0, w_visible = True, w_buffer = b,
     w_event_buffer = map_option fst eb, w_event_phys = (case eb of Some (a, phys) \<Rightarrow> phys | None \<Rightarrow> 0)\<rparr>"

lemma create_window_comp:
  assumes "create_window ops umm back_ptr front_ptr width height x y pid d = (Ok i, d')"
  obtains w where "i = taken_id (d_comp d)" "w_id w = i" "w_owner_pid w = pid" "w_visible w" "w_x w = x" "w_y w = y"
    "wb_width (w_buffer w) = width" "wb_height (w_buffer w) = height"
    "d_comp d' = focus_comp i (store_window w (take_id_comp (d_comp d)))"
proof -
  let ?i = "taken_id (d_comp d)"
  obtain b px where b: "window_buffer_new back_ptr front_ptr width height x y (d_pixels d) = (Ok (b, px) :: (unit, _) outcome)"
    and run: "open_window ops umm b x y pid ?i (d\<lparr>d_pixels := px, d_comp := take_id_comp (d_comp d)\<rparr>) = (Ok i, d')"
    using assms unfolding create_window_def
    by (auto simp: bind_eq_Ok_iff reading_app lift_outcome_def modify_def take_window_id_comp)
  have dims: "wb_width b = width" "wb_height b = height"
    using b by (auto simp: window_buffer_new_def outcome_simps split: if_splits)
  obtain eb d3 u where 3: "allocate_event_buffer_for_window ops umm ?i pid (d\<lparr>d_pixels := px, d_comp := take_id_comp (d_comp d)\<rparr>) = (Ok eb, d3)"
    and 4: "focus_window ?i (d3\<lparr>d_comp := store_window (opened_window ?i pid x y b eb) (d_comp d3)\<rparr>) = (Ok u, d')" and i: "i = ?i"
    using run unfolding open_window_def opened_window_def [symmetric] by (auto simp: bind_eq_Ok_iff set_comp_def modify_def ret_def)
  have "d_comp d3 = take_id_comp (d_comp d)"
    using quietD [OF quiet_allocate 3] by simp
  with focus_window_comp [OF 4] show ?thesis
    using that [of "opened_window ?i pid x y b eb"] i dims by (simp add: opened_window_def)
qed

definition destroy_comp :: "nat \<Rightarrow> compositor \<Rightarrow> compositor" where
  "destroy_comp i c =
     (if i = INVALID_WINDOW_ID \<or> length (windows c) \<le> i \<or> \<not> w_visible (windows c ! i) then c
      else update_window i hide_window c\<lparr>free_window_ids := free_window_ids c @ [i]\<rparr>)"

lemma destroy_window_comp:
  assumes "destroy_window ops umm i d = (Ok a, d')"
  shows "d_comp d' = destroy_comp i (d_comp d)"
proof (cases "i = INVALID_WINDOW_ID \<or> length (windows (d_comp d)) \<le> i \<or> \<not> w_visible (windows (d_comp d) ! i)")
  case True
  then show ?thesis using assms by (simp add: destroy_window_def reading_app destroy_comp_def ret_def)
next
  case False
  let ?w = "windows (d_comp d) ! i" and ?c = "update_window i hide_window (d_comp d)"
  from assms False obtain n where
    "release_window ops umm i ?w n (d\<lparr>d_comp := ?c\<lparr>free_window_ids := free_window_ids ?c @ [i]\<rparr>\<rparr>) = (Ok a, d')"
    unfolding destroy_window_def reading_app Let_def
    by (auto simp: set_comp_bind bind_eq_Ok_iff [of "lift_outcome _"] lift_outcome_app)
  from quietD [OF quiet_release_window this] False show ?thesis by (simp add: destroy_comp_def update_window_def)
qed

lemma destroy_windows_comp:
  "destroy_windows ops umm is d = (Ok a, d') \<Longrightarrow> d_comp d' = fold destroy_comp is (d_comp d)"
proof (induction "is" arbitrary: d)
  case Nil
  then show ?case by (simp add: ret_def)
next
  case (Cons i js)
  from Cons.prems obtain b d1 where "destroy_window ops umm i d = (Ok b, d1)" "destroy_windows ops umm js d1 = (Ok a, d')"
    by (auto elim: bind_kept)
  then show ?case using Cons.IH [of d1] by (simp add: destroy_window_comp)
qed

section \<open>Identifiers\<close>

definition comp_ok :: "compositor \<Rightarrow> bool" where
  "comp_ok c \<longleftrightarrow> next_window_id c = length (windows c) \<and> length (windows c) < 2 ^ 32
     \<and> (\<forall>i < length (windows c). w_id (windows c ! i) = i)
     \<and> distinct (free_window_ids c)
     \<and> set (free_window_ids c) = {i. i < length (windows c) \<and> \<not> w_visible (windows c ! i)}
     \<and> (\<forall>i < length (windows c). \<not> w_visible (windows c ! i) \<longrightarrow> w_event_buffer (windows c ! i) = None)"

text \<open>Raising a window and renumbering the stack change nothing but stacking indices.\<close>

definition flat :: "window list \<Rightarrow> window list" where
  "flat = map (restack (\<lambda>_. 0))"

lemma flat_length: "flat ws = flat ws' \<Longrightarrow> length ws = length ws'"
  unfolding flat_def by (metis length_map)

lemma flat_nth:
  assumes "flat ws = flat ws'" "i < length ws"
  shows "restack (\<lambda>_. 0) (ws ! i) = restack (\<lambda>_. 0) (ws' ! i)"
  using assms flat_length [OF assms(1)] unfolding flat_def by (metis nth_map)

lemma restack_fields:
  assumes "restack f w = restack g w'"
  shows "w_id w = w_id w'" "w_visible w = w_visible w'" "w_event_buffer w = w_event_buffer w'" "w_owner_pid w = w_owner_pid w'"
    "w_x w = w_x w'" "w_y w = w_y w'" "w_buffer w = w_buffer w'" "w_event_phys w = w_event_phys w'"
  using assms unfolding restack_def
  by (metis window.select_convs window.surjective window.update_convs(5))+

lemma flat_update: "i < length ws \<Longrightarrow> flat (ws[i := (ws ! i)\<lparr>w_z_index := z\<rparr>]) = flat ws"
  by (rule nth_equalityI) (simp_all add: flat_def restack_def nth_list_update)

lemma flat_assign_ranks: "set js \<subseteq> {..<length ws} \<Longrightarrow> flat (assign_ranks js i ws) = flat ws"
  by (induction js arbitrary: i ws) (simp_all add: flat_update)

lemma visible_by_z_bounds: "set (visible_by_z ws) = {i. i < length ws \<and> w_visible (ws ! i)}" "distinct (visible_by_z ws)"
  by (auto simp: visible_by_z_def)

lemma flat_normalize: "flat (normalize_z ws) = flat ws"
  unfolding normalize_z_def by (rule flat_assign_ranks) (auto simp: visible_by_z_bounds)

lemma comp_ok_flat:
  assumes "comp_ok c" "flat (windows c') = flat (windows c)" "next_window_id c' = next_window_id c" "free_window_ids c' = free_window_ids c"
  shows "comp_ok c'"
proof -
  note len = flat_length [OF assms(2)] and nth = restack_fields [OF flat_nth [OF assms(2)]]
  have "{i. i < length (windows c') \<and> \<not> w_visible (windows c' ! i)} = {i. i < length (windows c) \<and> \<not> w_visible (windows c ! i)}"
    using len nth(2) by auto
  with assms len nth show ?thesis unfolding comp_ok_def by simp
qed

lemma flat_raised: "i < length (windows c) \<Longrightarrow> flat (windows (raised i c)) = flat (windows c)"
  by (simp add: raised_def Let_def flat_normalize flat_update)

lemma raised_fields: "next_window_id (raised i c) = next_window_id c" "free_window_ids (raised i c) = free_window_ids c"
  "focused_window (raised i c) = i"
  by (simp_all add: raised_def Let_def)

lemma flat_focus_comp: "flat (windows (focus_comp i c)) = flat (windows c)"
  by (simp add: focus_comp_def flat_raised)

lemma comp_ok_focus: "comp_ok c \<Longrightarrow> comp_ok (focus_comp i c)"
  by (rule comp_ok_flat [of c]) (simp_all add: flat_focus_comp, simp_all add: focus_comp_def raised_fields)

lemma comp_ok_new: "comp_ok (compositor_new w h)"
  by (simp add: comp_ok_def compositor_new_def)

text \<open>A window is opened under an identifier that no visible window has.\<close>

lemma store_window_fresh:
  assumes "comp_ok c" "length (windows c) + 1 < 2 ^ 32" "w_id w = taken_id c" "w_visible w"
  shows "comp_ok (store_window w (take_id_comp c))"
    and "taken_id c < length (windows (store_window w (take_id_comp c)))"
    and "taken_id c < length (windows c) \<Longrightarrow> \<not> w_visible (windows c ! taken_id c)"
    and "windows (store_window w (take_id_comp c)) ! taken_id c = w"
    and "length (windows c) \<le> length (windows (store_window w (take_id_comp c)))"
    and "j < length (windows c) \<Longrightarrow> j \<noteq> taken_id c \<Longrightarrow> windows (store_window w (take_id_comp c)) ! j = windows c ! j"
proof -
  let ?c = "store_window w (take_id_comp c)"
  consider (reuse) f js where "free_window_ids c = js @ [f]" | (fresh) "free_window_ids c = []"
    by (metis rev_exhaust)
  then have "comp_ok ?c \<and> taken_id c < length (windows ?c) \<and> (taken_id c < length (windows c) \<longrightarrow> \<not> w_visible (windows c ! taken_id c))
    \<and> windows ?c ! taken_id c = w \<and> length (windows c) \<le> length (windows ?c)
    \<and> (j < length (windows c) \<longrightarrow> j \<noteq> taken_id c \<longrightarrow> windows ?c ! j = windows c ! j)"
  proof cases
    case reuse
    have f: "f < length (windows c)" "\<not> w_visible (windows c ! f)" using assms(1) reuse by (auto simp: comp_ok_def)
    have t: "taken_id c = f" "take_id_comp c = c\<lparr>free_window_ids := js\<rparr>" using reuse by (simp_all add: taken_id_def take_id_comp_def)
    have ws: "windows ?c = (windows c)[f := w]" "free_window_ids ?c = js" "next_window_id ?c = next_window_id c"
      using f t assms(3) by (simp_all add: store_window_def)
    have "set js = {i. i < length (windows c) \<and> \<not> w_visible ((windows c)[f := w] ! i)}"
      using assms(1,4) reuse f by (auto simp: comp_ok_def nth_list_update)
    then have "comp_ok ?c" using assms(1,3,4) reuse f t unfolding comp_ok_def ws by (auto simp: nth_list_update)
    with ws f t show ?thesis by (simp add: nth_list_update)
  next
    case fresh
    have t: "taken_id c = length (windows c)" "take_id_comp c = c\<lparr>next_window_id := length (windows c) + 1\<rparr>"
      using fresh assms(1,2) by (simp_all add: taken_id_def take_id_comp_def comp_ok_def)
    have ws: "windows ?c = windows c @ [w]" "free_window_ids ?c = []" "next_window_id ?c = length (windows c) + 1"
      using t assms(3) fresh by (simp_all add: store_window_def)
    have "comp_ok ?c" using assms fresh t unfolding comp_ok_def ws by (auto simp: nth_append less_Suc_eq)
    with ws t show ?thesis by (simp add: nth_append)
  qed
  then show "comp_ok ?c" "taken_id c < length (windows ?c)" "taken_id c < length (windows c) \<Longrightarrow> \<not> w_visible (windows c ! taken_id c)"
    "windows ?c ! taken_id c = w" "length (windows c) \<le> length (windows ?c)"
    "j < length (windows c) \<Longrightarrow> j \<noteq> taken_id c \<Longrightarrow> windows ?c ! j = windows c ! j" by blast+
qed

lemma comp_ok_destroy: "comp_ok c \<Longrightarrow> comp_ok (destroy_comp i c)"
  unfolding comp_ok_def destroy_comp_def update_window_def hide_window_def
  by (auto simp: nth_list_update)

lemma comp_ok_destroys: "comp_ok c \<Longrightarrow> comp_ok (fold destroy_comp is c)"
  by (induction "is" arbitrary: c) (simp_all add: comp_ok_destroy)

section \<open>Calls that keep a property of the compositor\<close>

named_theorems keeps_intros \<open>calls that keep a property of the compositor\<close>

definition keeps :: "(compositor \<Rightarrow> bool) \<Rightarrow> (desktop, 'e, 'a) call \<Rightarrow> bool" where
  "keeps P m \<longleftrightarrow> (\<forall>d a d'. P (d_comp d) \<longrightarrow> m d = (Ok a, d') \<longrightarrow> P (d_comp d'))"

lemma keepsD: "keeps P m \<Longrightarrow> P (d_comp d) \<Longrightarrow> m d = (Ok a, d') \<Longrightarrow> P (d_comp d')"
  by (auto simp: keeps_def)

lemma keeps_quiet: "quiet m \<Longrightarrow> keeps P m"
  unfolding keeps_def by (metis quietD)

lemma keeps_bind [keeps_intros]: "keeps P m \<Longrightarrow> (\<And>a. keeps P (f a)) \<Longrightarrow> keeps P (bind m f)"
  unfolding keeps_def bind_eq_Ok_iff by blast

lemma keeps_reading [keeps_intros]: "(\<And>d. keeps P (f d)) \<Longrightarrow> keeps P (reading f)"
  by (simp add: keeps_def reading_def)

lemma keeps_set_comp [keeps_intros]: "(\<And>c. P c \<Longrightarrow> P (f c)) \<Longrightarrow> keeps P (set_comp f)"
  by (auto simp: keeps_def set_comp_def modify_def)

lemma keeps_cases [keeps_intros]:
  "(b \<Longrightarrow> keeps P m) \<Longrightarrow> (\<not> b \<Longrightarrow> keeps P n) \<Longrightarrow> keeps P (if b then m else n)"
  "keeps P n \<Longrightarrow> (\<And>a. x = Some a \<Longrightarrow> keeps P (f a)) \<Longrightarrow> keeps P (case x of None \<Rightarrow> n | Some a \<Rightarrow> f a)"
  "(\<And>u v. p = (u, v) \<Longrightarrow> keeps P (k u v)) \<Longrightarrow> keeps P (case p of (u, v) \<Rightarrow> k u v)"
  by (auto split: option.splits prod.splits)

lemma keeps_focus_window: "(\<And>c i. P c \<Longrightarrow> P (focus_comp i c)) \<Longrightarrow> keeps P (focus_window i)"
  unfolding keeps_def by (metis focus_window_comp)

text \<open>The input handlers change the focus, the position of the cursor and the keyboard.\<close>

locale input_stable =
  fixes P :: "compositor \<Rightarrow> bool"
  assumes focus_law: "P c \<Longrightarrow> P (focus_comp i c)"
    and mouse_law: "P c \<Longrightarrow> i32_clamp mx 0 (as_i32 (cw_width c) - 1) = (Ok x :: (unit, int) outcome) \<Longrightarrow>
      i32_clamp my 0 (as_i32 (cw_height c) - 1) = (Ok y :: (unit, int) outcome) \<Longrightarrow> P (c\<lparr>mouse_x := x, mouse_y := y\<rparr>)"
    and keyboard_law: "P c \<Longrightarrow> P (c\<lparr>kbd_state := k\<rparr>)"
begin

lemma keeps_focus: "keeps P (focus_window i)"
  by (rule keeps_focus_window) (rule focus_law)

lemma keeps_click: "keeps P (handle_mouse_click mx my)"
  unfolding handle_mouse_click_def find_and_focus_window_at_def Let_def
  by ((rule keeps_quiet, (intro quiet_intros; fail)) | rule keeps_intros keeps_focus | assumption)+

lemma keeps_mouse: "keeps P (handle_mouse_event e)"
  unfolding keeps_def
proof (intro allI impI)
  fix d a d' assume P: "P (d_comp d)" and run: "handle_mouse_event e d = (Ok a, d')"
  let ?c = "d_comp d" and ?m = "decode_mouse e"
  from run obtain mx my mx' my' where x: "i32_clamp mx 0 (as_i32 (cw_width ?c) - 1) = (Ok mx' :: (unit, int) outcome)"
    and y: "i32_clamp my 0 (as_i32 (cw_height ?c) - 1) = (Ok my' :: (unit, int) outcome)"
    and rest: "bind (if buttons ?m \<noteq> 0 then handle_mouse_click mx' my' else ret ()) (\<lambda>_. forward_event e)
      (d\<lparr>d_comp := ?c\<lparr>mouse_x := mx', mouse_y := my'\<rparr>\<rparr>) = (Ok a, d')"
    unfolding handle_mouse_event_def reading_app Let_def
    by (auto simp: bind_eq_Ok_iff [of "lift_outcome _"] lift_outcome_app set_comp_bind and_then_Ok_iff i32_add_def split: if_splits)
  have "keeps P (bind (if buttons ?m \<noteq> 0 then handle_mouse_click mx' my' else ret ()) (\<lambda>_. forward_event e))"
    by ((rule keeps_quiet, (intro quiet_intros; fail)) | rule keeps_intros keeps_click | assumption)+
  from keepsD [OF this _ rest] mouse_law [OF P x y] show "P (d_comp d')" by simp
qed

lemma keeps_event: "keeps P (handle_event kc e)"
proof -
  have "keeps P (handle_keyboard_event kc e)" "keeps P (handle_key_state_event e)" "keeps P (forward_event e)"
    unfolding handle_keyboard_event_def handle_key_state_event_def key_state_of_def Let_def
    by ((rule keeps_quiet, (intro quiet_intros; fail)) | rule keeps_intros keeps_focus keyboard_law | assumption)+
  with keeps_mouse show ?thesis by (auto simp: handle_event_def split: event_type.splits)
qed

lemma keeps_input_loop: "keeps P (input_loop n kc b)"
proof (induction n arbitrary: b)
  case 0
  show ?case by (auto intro!: keeps_quiet quiet_intros)
next
  case (Suc n)
  show ?case
    unfolding input_loop.simps
    by ((rule keeps_quiet, (intro quiet_intros; fail)) | rule keeps_intros keeps_event Suc.IH | assumption)+
qed

lemma keeps_input: "keeps P (process_input_events me kc)"
  unfolding process_input_events_def wake_input_waiters_def
  by ((rule keeps_quiet, (intro quiet_intros; fail)) | rule keeps_intros keyboard_law keeps_input_loop | assumption)+

end

interpretation ids: input_stable comp_ok
  by unfold_locales (auto intro: comp_ok_focus, auto simp: comp_ok_def)

text \<open>The cursor stays on the screen.\<close>

definition cursor_ok :: "compositor \<Rightarrow> bool" where
  "cursor_ok c \<longleftrightarrow> 0 < cw_width c \<and> cw_width c < 2 ^ 31 \<and> 0 < cw_height c \<and> cw_height c < 2 ^ 31
     \<and> 0 \<le> mouse_x c \<and> mouse_x c < int (cw_width c) \<and> 0 \<le> mouse_y c \<and> mouse_y c < int (cw_height c)"

lemma focus_comp_fields:
  "cw_width (focus_comp i c) = cw_width c" "cw_height (focus_comp i c) = cw_height c" "mouse_x (focus_comp i c) = mouse_x c"
  "mouse_y (focus_comp i c) = mouse_y c" "kbd_state (focus_comp i c) = kbd_state c"
  by (simp_all add: focus_comp_def raised_def Let_def)

interpretation cursor: input_stable cursor_ok
proof
  fix c mx my x y
  assume "cursor_ok c" "i32_clamp mx 0 (as_i32 (cw_width c) - 1) = (Ok x :: (unit, int) outcome)"
    "i32_clamp my 0 (as_i32 (cw_height c) - 1) = (Ok y :: (unit, int) outcome)"
  then show "cursor_ok (c\<lparr>mouse_x := x, mouse_y := y\<rparr>)"
    by (auto simp: cursor_ok_def i32_clamp_def as_i32_small split: if_splits)
qed (simp_all add: cursor_ok_def focus_comp_fields)

section \<open>Histories of the desktop\<close>

text \<open>
  The operations of the compositor in any order, each run to its end; between them the processes
  and the interrupt handlers change everything but the compositor.
\<close>

definition present_window :: "nat \<Rightarrow> unit dcall" where
  "present_window i = reading (\<lambda>d.
     if i < length (windows (d_comp d)) \<and> w_visible (windows (d_comp d) ! i)
     then set_comp (update_window i (\<lambda>w. w\<lparr>w_buffer := present (w_buffer w)\<rparr>)) else ret ())"

inductive desk_reachable :: "nat \<Rightarrow> nat \<Rightarrow> desktop \<Rightarrow> bool" for width height where
  boot: "d_comp d = compositor_new width height \<Longrightarrow> desk_reachable width height d"
| others: "desk_reachable width height d \<Longrightarrow> d_comp d' = d_comp d \<Longrightarrow> desk_reachable width height d'"
| create: "desk_reachable width height d \<Longrightarrow> length (windows (d_comp d)) + 1 < 2 ^ 32 \<Longrightarrow>
    create_window ops umm bp fp w h x y pid d = (Ok i, d') \<Longrightarrow> desk_reachable width height d'"
| destroy: "desk_reachable width height d \<Longrightarrow> destroy_window ops umm i d = (Ok (), d') \<Longrightarrow> desk_reachable width height d'"
| destroy_process: "desk_reachable width height d \<Longrightarrow> destroy_windows_of_process ops umm pid d = (Ok (), d') \<Longrightarrow>
    desk_reachable width height d'"
| focus: "desk_reachable width height d \<Longrightarrow> focus_window i d = (Ok (), d') \<Longrightarrow> desk_reachable width height d'"
| z_index: "desk_reachable width height d \<Longrightarrow> set_z_index i z d = (Ok (), d') \<Longrightarrow> desk_reachable width height d'"
| presented: "desk_reachable width height d \<Longrightarrow> present_window i d = (Ok (), d') \<Longrightarrow> desk_reachable width height d'"
| input: "desk_reachable width height d \<Longrightarrow> process_input_events me kc d = (Ok (), d') \<Longrightarrow> desk_reachable width height d'"
| composed: "desk_reachable width height d \<Longrightarrow> compose fb d = (Ok fb', d') \<Longrightarrow> desk_reachable width height d'"

lemma compose_windows_result:
  "compose_windows px ws fb = Ok (ws', fb') \<Longrightarrow> ws' = map swapped ws"
proof (induction ws arbitrary: fb ws')
  case (Cons w ws)
  then show ?case by (auto simp: outcome_simps swapped_def Let_def split: if_splits)
qed simp

lemma compose_comp:
  assumes "compose fb d = (Ok fb', d')"
  shows "windows (d_comp d') = map swapped (windows (d_comp d)) \<and> next_window_id (d_comp d') = next_window_id (d_comp d)
    \<and> free_window_ids (d_comp d') = free_window_ids (d_comp d)"
  using assms unfolding compose_def reading_app
  by (auto simp: bind_eq_Ok_iff lift_outcome_app set_comp_def modify_def ret_def dest!: compose_windows_result split: if_splits)

lemma swapped_fields:
  "w_id (swapped w) = w_id w" "w_visible (swapped w) = w_visible w" "w_event_buffer (swapped w) = w_event_buffer w"
  by (simp_all add: swapped_def)

lemma comp_ok_update:
  assumes "comp_ok c" "\<And>w. w_id (f w) = w_id w" "\<And>w. w_visible (f w) = w_visible w" "\<And>w. w_event_buffer (f w) = w_event_buffer w"
  shows "comp_ok (update_window i f c)"
proof (cases "i < length (windows c)")
  case True
  have "w_visible ((windows c)[i := f (windows c ! i)] ! j) = w_visible (windows c ! j)"
    "w_id ((windows c)[i := f (windows c ! i)] ! j) = w_id (windows c ! j)"
    "w_event_buffer ((windows c)[i := f (windows c ! i)] ! j) = w_event_buffer (windows c ! j)" for j
    using assms True by (cases "j = i"; simp)+
  then show ?thesis using assms(1) by (simp add: comp_ok_def update_window_def)
next
  case False
  then have "(windows c)[i := f (windows c ! i)] = windows c" by (simp add: list_update_beyond)
  then show ?thesis using assms(1) unfolding update_window_def by simp
qed

lemma desk_reachable_ok: "desk_reachable width height d \<Longrightarrow> comp_ok (d_comp d)"
proof (induction rule: desk_reachable.induct)
  case (create d ops umm bp fp w h x y pid i d')
  from create_window_comp [OF create.hyps(3)] obtain v where "i = taken_id (d_comp d)" "w_id v = i" "w_visible v"
    "d_comp d' = focus_comp i (store_window v (take_id_comp (d_comp d)))" by metis
  then show ?case using store_window_fresh(1) [OF create.IH create.hyps(2)] comp_ok_focus by metis
next
  case (destroy_process d ops umm pid d')
  then show ?case by (simp add: destroy_windows_of_process_def reading_app destroy_windows_comp comp_ok_destroys)
next
  case (z_index d i z d')
  then show ?case
    by (auto simp: set_z_index_def require_def bind_def set_comp_def modify_def ret_def intro!: comp_ok_update split: if_splits)
next
  case (presented d i d')
  then show ?case
    by (auto simp: present_window_def reading_app set_comp_def modify_def ret_def intro!: comp_ok_update split: if_splits)
next
  case (composed d fb fb' d')
  then show ?case using compose_comp [OF composed.hyps(2)] by (auto simp: comp_ok_def swapped_fields)
qed (auto simp: comp_ok_new destroy_window_comp focus_window_comp intro: comp_ok_destroy comp_ok_focus keepsD [OF ids.keeps_input])

text \<open>C33: window identifiers. After any history, a window stands at the place of its identifier, the free
  identifiers are exactly those of hidden windows, each once, and a hidden window has no event ring.
  A window that is created gets an identifier that no visible window has, and the other windows
  keep their identifier, owner, visibility and buffers.\<close>

theorem window_ids_unique:
  assumes "desk_reachable width height d" "length (windows (d_comp d)) + 1 < 2 ^ 32"
    and "create_window ops umm bp fp w h x y pid d = (Ok i, d')"
  shows "i < length (windows (d_comp d')) \<and> w_visible (windows (d_comp d') ! i) \<and> w_owner_pid (windows (d_comp d') ! i) = pid
    \<and> (i < length (windows (d_comp d)) \<longrightarrow> \<not> w_visible (windows (d_comp d) ! i))
    \<and> distinct (map w_id (windows (d_comp d'))) \<and> i \<notin> set (free_window_ids (d_comp d'))
    \<and> (\<forall>j < length (windows (d_comp d)). j \<noteq> i \<longrightarrow>
         restack (\<lambda>_. 0) (windows (d_comp d') ! j) = restack (\<lambda>_. 0) (windows (d_comp d) ! j))"
proof -
  let ?c = "d_comp d"
  from create_window_comp [OF assms(3)] obtain v where v: "i = taken_id ?c" "w_id v = i" "w_owner_pid v = pid" "w_visible v"
    "d_comp d' = focus_comp i (store_window v (take_id_comp ?c))" by metis
  let ?s = "store_window v (take_id_comp ?c)"
  have ok: "comp_ok ?c" by (rule desk_reachable_ok [OF assms(1)])
  note fresh = store_window_fresh [OF ok assms(2) v(2)[unfolded v(1)] v(4), folded v(1)]
  have fl: "flat (windows (d_comp d')) = flat (windows ?s)" by (simp add: v(5) flat_focus_comp)
  have ok': "comp_ok (d_comp d')" using fresh(1) comp_ok_focus v(5) by simp
  note len = flat_length [OF fl] and nth = flat_nth [OF fl]
  have i: "i < length (windows (d_comp d'))" using fresh(2) len by simp
  have new: "w_visible (windows (d_comp d') ! i)" "w_owner_pid (windows (d_comp d') ! i) = pid"
    using restack_fields(2,4) [OF nth [OF i]] fresh(4) v by simp_all
  have "map w_id (windows (d_comp d')) = [0..<length (windows (d_comp d'))]"
    using ok' by (intro nth_equalityI) (auto simp: comp_ok_def)
  then have "distinct (map w_id (windows (d_comp d')))" by simp
  moreover have "i \<notin> set (free_window_ids (d_comp d'))" using ok' new(1) by (auto simp: comp_ok_def)
  moreover have "restack (\<lambda>_. 0) (windows (d_comp d') ! j) = restack (\<lambda>_. 0) (windows ?c ! j)"
    if "j < length (windows ?c)" "j \<noteq> i" for j
    using nth [of j] fresh(5) fresh(6) [OF that] that len by simp
  ultimately show ?thesis using i new fresh(3) by blast
qed

section \<open>Stacking\<close>

lemma assign_ranks_other: "j \<notin> set js \<Longrightarrow> assign_ranks js i ws ! j = ws ! j"
  by (induction js arbitrary: i ws) auto

lemma assign_ranks_nth:
  "distinct js \<Longrightarrow> set js \<subseteq> {..<length ws} \<Longrightarrow> k < length js \<Longrightarrow>
   w_z_index (assign_ranks js i ws ! (js ! k)) = (i + k) mod 256"
proof (induction js arbitrary: i ws k)
  case (Cons a js)
  show ?case
  proof (cases k)
    case 0
    then show ?thesis using Cons.prems by (simp add: assign_ranks_other)
  next
    case (Suc m)
    then show ?thesis using Cons.IH [of _ m "Suc i"] Cons.prems by simp
  qed
qed simp

lemma normalize_order:
  assumes "j < length ws" "k < length ws" "w_visible (ws ! j)" "w_visible (ws ! k)"
    and "length (filter w_visible ws) \<le> 256" "w_z_index (ws ! j) < w_z_index (ws ! k)"
  shows "w_z_index (normalize_z ws ! j) < w_z_index (normalize_z ws ! k)"
proof -
  let ?js = "visible_by_z ws" and ?z = "\<lambda>i. w_z_index (ws ! i)"
  have len: "length ?js \<le> 256"
  proof -
    have "map ((!) ws) (filter (\<lambda>i. w_visible (ws ! i)) [0..<length ws]) = filter w_visible ws"
      by (metis comp_apply filter_cong filter_map map_nth)
    then have "length (filter (\<lambda>i. w_visible (ws ! i)) [0..<length ws]) = length (filter w_visible ws)" by (metis length_map)
    with assms(5) show ?thesis by (simp add: visible_by_z_def)
  qed
  from assms(1-4) obtain a b where ab: "a < length ?js" "?js ! a = j" "b < length ?js" "?js ! b = k"
    using visible_by_z_bounds(1) [of ws] by (metis (mono_tags, lifting) in_set_conv_nth mem_Collect_eq)
  have sub: "set ?js \<subseteq> {..<length ws}" by (auto simp: visible_by_z_bounds)
  have "sorted (map ?z ?js)" by (simp add: visible_by_z_def)
  then have "a < b" using ab assms(6) sorted_nth_mono [of "map ?z ?js" b a] by (metis leD le_less_linear length_map nth_map)
  moreover have "w_z_index (normalize_z ws ! j) = a" "w_z_index (normalize_z ws ! k) = b"
    using assign_ranks_nth [OF visible_by_z_bounds(2) sub, of a 0] assign_ranks_nth [OF visible_by_z_bounds(2) sub, of b 0] ab len
    by (simp_all add: normalize_z_def)
  ultimately show ?thesis by simp
qed

lemma max_z_ge: "j < length ws \<Longrightarrow> w_z_index (ws ! j) \<le> max_z ws"
  unfolding max_z_def by (intro Max_ge) auto

lemma raised_order:
  assumes "i < length (windows c)" "w_visible (windows c ! i)" "length (filter w_visible (windows c)) \<le> 256"
    and "j < length (windows c)" "j \<noteq> i" "w_visible (windows c ! j)"
  shows "w_z_index (windows (raised i c) ! j) < w_z_index (windows (raised i c) ! i)"
    and "k < length (windows c) \<Longrightarrow> k \<noteq> i \<Longrightarrow> w_visible (windows c ! k) \<Longrightarrow> w_z_index (windows c ! j) < w_z_index (windows c ! k)
      \<Longrightarrow> w_z_index (windows (raised i c) ! j) < w_z_index (windows (raised i c) ! k)"
proof -
  let ?ws = "(windows c)[i := (windows c ! i)\<lparr>w_z_index := max_z (windows c) + 1\<rparr>]"
  have "map w_visible ?ws = map w_visible (windows c)"
    using assms(1) by (simp add: map_update list_update_same_conv)
  then have "length (filter (\<lambda>b. b) (map w_visible ?ws)) = length (filter (\<lambda>b. b) (map w_visible (windows c)))" by simp
  then have few: "length (filter w_visible ?ws) \<le> 256" using assms(3) by (simp add: filter_map o_def)
  have vis: "w_visible (?ws ! m)" if "m < length (windows c)" "w_visible (windows c ! m)" for m
    using that by (cases "m = i") simp_all
  have top: "w_z_index (?ws ! j) < w_z_index (?ws ! i)"
    using assms max_z_ge [OF assms(4)] by simp
  show "w_z_index (windows (raised i c) ! j) < w_z_index (windows (raised i c) ! i)"
    using top normalize_order [of j ?ws i] few vis assms by (simp add: raised_def Let_def)
  show "w_z_index (windows (raised i c) ! j) < w_z_index (windows (raised i c) ! k)"
    if "k < length (windows c)" "k \<noteq> i" "w_visible (windows c ! k)" "w_z_index (windows c ! j) < w_z_index (windows c ! k)"
    using that normalize_order [of j ?ws k] few vis assms by (simp add: raised_def Let_def)
qed

section \<open>Calls that return\<close>

text \<open>With every event ring intact, the calls that only fill rings return and leave the rings intact.\<close>

named_theorems returns_intros \<open>calls that return when the rings are intact\<close>

definition rings_ok :: "desktop \<Rightarrow> bool" where
  "rings_ok d \<longleftrightarrow> (\<forall>a. eb_inv (d_events d a))"

definition proceeds :: "unit dcall \<Rightarrow> bool" where
  "proceeds m \<longleftrightarrow> (\<forall>d. rings_ok d \<longrightarrow> (\<exists>d'. m d = (Ok (), d') \<and> rings_ok d'))"

lemma proceeds_ret [returns_intros]: "proceeds (ret ())"
  by (simp add: proceeds_def ret_def)

lemma proceeds_bind [returns_intros]: "proceeds m \<Longrightarrow> (\<And>u. proceeds (f u)) \<Longrightarrow> proceeds (bind m f)"
  unfolding proceeds_def by (metis bind_Ok)

lemma proceeds_reading [returns_intros]: "(\<And>d. proceeds (f d)) \<Longrightarrow> proceeds (reading f)"
  by (simp add: proceeds_def reading_app)

lemma proceeds_cases [returns_intros]: "(b \<Longrightarrow> proceeds m) \<Longrightarrow> (\<not> b \<Longrightarrow> proceeds n) \<Longrightarrow> proceeds (if b then m else n)"
  by simp

lemma proceeds_when_some [returns_intros]: "(\<And>a. proceeds (f a)) \<Longrightarrow> proceeds (when_some x f)"
  by (auto simp: when_some_def proceeds_ret split: option.splits)

lemma proceeds_set_comp [returns_intros]: "proceeds (set_comp f)"
  by (simp add: proceeds_def set_comp_def modify_def rings_ok_def)

lemma proceeds_shared_focus [returns_intros]: "proceeds (modify (\<lambda>d. d\<lparr>d_shared_focus := i\<rparr>))"
  by (simp add: proceeds_def modify_def rings_ok_def)

lemma proceeds_push [returns_intros]: "proceeds (push_event a e)"
  unfolding proceeds_def
proof (intro allI impI)
  fix d assume "rings_ok d"
  then have inv: "eb_inv (d_events d a)" by (simp add: rings_ok_def)
  show "\<exists>d'. push_event a e d = (Ok (), d') \<and> rings_ok d'"
  proof (cases "length (eb_contents (d_events d a)) < 253")
    case True
    with eb.push_law [OF inv, of e] obtain r where "eb_push (d_events d a) e = Ok r" "eb_inv r" by blast
    then show ?thesis using \<open>rings_ok d\<close>
      by (simp add: push_event_def reading_app set_events_def modify_def rings_ok_def)
  next
    case False
    with eb.push_full_law [OF inv, of e] \<open>rings_ok d\<close> show ?thesis by (simp add: push_event_def reading_app ret_def)
  qed
qed

lemma eb_inv_publish: "eb_inv b \<Longrightarrow> eb_inv (publish_keyboard_state b k m)"
  by (simp add: eb_inv_def eb_ring_def eb_contents_def publish_keyboard_state_def)

lemma proceeds_publish [returns_intros]: "proceeds (publish a k m)"
  by (simp add: proceeds_def publish_def reading_app set_events_def modify_def rings_ok_def eb_inv_publish)

lemma proceeds_release_keys [returns_intros]: "proceeds (release_keys a k keys)"
  by (induction keys) (auto intro!: returns_intros)

lemma proceeds_focus:
  assumes "rings_ok d" "windows (d_comp d) \<noteq> []" "max_z (windows (d_comp d)) < 255"
  shows "\<exists>d'. focus_window i d = (Ok (), d') \<and> rings_ok d'"
proof -
  have "proceeds (release_held_keys a)" "proceeds (publish_current a)" for a
    unfolding release_held_keys_def publish_current_def by (intro returns_intros)+
  note [returns_intros] = this
  show ?thesis
  proof (cases "i = INVALID_WINDOW_ID \<or> i = focused_window (d_comp d) \<or> length (windows (d_comp d)) \<le> i")
    case True
    then show ?thesis using assms by (auto simp: focus_window_def reading_app Let_def ret_def)
  next
    case False
    let ?c = "d_comp d"
    have "proceeds (bind (set_comp (\<lambda>c. update_window i (\<lambda>w. w\<lparr>w_z_index := max_z (windows ?c) + 1\<rparr>) c\<lparr>focused_window := i\<rparr>)) (\<lambda>_.
         bind (if NORMALIZE_Z_INDEX_THRESHOLD < max_z (windows ?c) then set_comp (\<lambda>c. c\<lparr>windows := normalize_z (windows c)\<rparr>) else ret ()) (\<lambda>_.
         bind (reading (\<lambda>d. when_some (get_event_buffer (windows (d_comp d)) (focused_window ?c)) release_held_keys)) (\<lambda>_.
         bind (when_some (w_event_buffer (windows ?c ! i)) publish_current) (\<lambda>_.
           modify (\<lambda>d. d\<lparr>d_shared_focus := i\<rparr>))))))"
      by (intro returns_intros)
    then show ?thesis using assms False
      unfolding focus_window_def reading_app [of _ d] Let_def proceeds_def by (simp add: check_bind)
  qed
qed

section \<open>Clicks\<close>

definition geometry_ok :: "window \<Rightarrow> bool" where
  "geometry_ok w \<longleftrightarrow> wb_width (w_buffer w) < 2 ^ 31 \<and> wb_height (w_buffer w) < 2 ^ 31
     \<and> i32_ok (w_x w + int (wb_width (w_buffer w))) \<and> i32_ok (w_y w + int (wb_height (w_buffer w)))"

definition under :: "int \<Rightarrow> int \<Rightarrow> window \<Rightarrow> bool" where
  "under mx my w \<longleftrightarrow> w_visible w \<and> w_x w \<le> mx \<and> mx < w_x w + int (wb_width (w_buffer w))
     \<and> w_y w \<le> my \<and> my < w_y w + int (wb_height (w_buffer w))"

lemma hit_under: "geometry_ok w \<Longrightarrow> w_visible w \<Longrightarrow> hit mx my w = Ok (under mx my w)"
  by (auto simp: hit_def geometry_ok_def under_def as_i32_small i32_add_def)

definition topmost :: "int \<Rightarrow> int \<Rightarrow> window list \<Rightarrow> window \<Rightarrow> bool" where
  "topmost mx my ws w \<longleftrightarrow> w \<in> set ws \<and> under mx my w \<and> (\<forall>v \<in> set ws. under mx my v \<longrightarrow> w_z_index v \<le> w_z_index w)"

lemma top_hit_spec:
  assumes "\<forall>w \<in> set ws. w_visible w \<longrightarrow> geometry_ok w"
  shows "\<exists>r. top_hit mx my ws best = Ok r
    \<and> (case r of
         None \<Rightarrow> best = None \<and> (\<forall>v \<in> set ws. \<not> under mx my v)
       | Some w \<Rightarrow> (best = Some w \<or> w \<in> set ws \<and> under mx my w) \<and> (\<forall>b. best = Some b \<longrightarrow> w_z_index b \<le> w_z_index w)
           \<and> (\<forall>v \<in> set ws. under mx my v \<longrightarrow> w_z_index v \<le> w_z_index w))"
  using assms
proof (induction ws arbitrary: best)
  case Nil
  then show ?case by (auto split: option.splits)
next
  case (Cons w ws)
  let ?best = "if under mx my w \<and> (case best of Some b \<Rightarrow> w_z_index b \<le> w_z_index w | None \<Rightarrow> True) then Some w else best"
  have step: "top_hit mx my (w # ws) best = top_hit mx my ws ?best"
  proof (cases "w_visible w")
    case True
    with Cons.prems show ?thesis by (simp add: hit_under)
  next
    case False
    then show ?thesis by (simp add: under_def)
  qed
  from Cons.IH [of ?best] Cons.prems obtain r where r: "top_hit mx my ws ?best = (Ok r :: ('a, _) outcome)"
    and spec: "case r of None \<Rightarrow> ?best = None \<and> (\<forall>v \<in> set ws. \<not> under mx my v)
       | Some u \<Rightarrow> (?best = Some u \<or> u \<in> set ws \<and> under mx my u) \<and> (\<forall>b. ?best = Some b \<longrightarrow> w_z_index b \<le> w_z_index u)
           \<and> (\<forall>v \<in> set ws. under mx my v \<longrightarrow> w_z_index v \<le> w_z_index u)" by auto
  show ?case unfolding step r
    using spec by (cases best; cases r) (auto split: if_splits)
qed

lemma top_hit_topmost:
  assumes "\<forall>w \<in> set ws. w_visible w \<longrightarrow> geometry_ok w"
  shows "\<exists>r. top_hit mx my ws None = Ok r
    \<and> (case r of None \<Rightarrow> \<forall>v \<in> set ws. \<not> under mx my v | Some w \<Rightarrow> topmost mx my ws w)"
  using top_hit_spec [OF assms, of mx my None] by (auto simp: topmost_def split: option.splits)

lemma comp_ok_position:
  assumes "comp_ok c" "w \<in> set (windows c)"
  shows "w_id w < length (windows c)" "windows c ! w_id w = w" "w_id w \<noteq> INVALID_WINDOW_ID"
  using assms by (auto simp: comp_ok_def in_set_conv_nth INVALID_WINDOW_ID_def)

text \<open>C37: a click. Conditions: the event rings are intact, no visible window lies so far out that its
  right or lower edge overflows 32 bits, no stacking index has reached 255, and at most 256 windows are
  visible. Then the click is handled. If the focused window is visible and under the cursor, nothing
  changes. Otherwise, if any visible window is under the cursor, the focus
  goes to one with the greatest stacking index among these, which is then above every other visible
  window while the others keep their order; if there is none, nothing changes.\<close>

theorem click_focuses_topmost:
  assumes "comp_ok (d_comp d)" "rings_ok d" "\<forall>w \<in> set (windows (d_comp d)). w_visible w \<longrightarrow> geometry_ok w"
    and "max_z (windows (d_comp d)) < 255" "length (filter w_visible (windows (d_comp d))) \<le> 256"
  shows "\<exists>d'. handle_mouse_click mx my d = (Ok (), d') \<and> rings_ok d' \<and>
    (let ws = windows (d_comp d); ws' = windows (d_comp d'); i = focused_window (d_comp d); i' = focused_window (d_comp d') in
     if i < length ws \<and> under mx my (ws ! i) \<or> (\<forall>v \<in> set ws. \<not> under mx my v) then d_comp d' = d_comp d
     else i' < length ws \<and> topmost mx my ws (ws ! i')
       \<and> (\<forall>j < length ws. j \<noteq> i' \<and> w_visible (ws ! j) \<longrightarrow> w_z_index (ws' ! j) < w_z_index (ws' ! i'))
       \<and> (\<forall>j < length ws. \<forall>k < length ws. j \<noteq> i' \<and> k \<noteq> i' \<and> w_visible (ws ! j) \<and> w_visible (ws ! k)
            \<and> w_z_index (ws ! j) < w_z_index (ws ! k) \<longrightarrow> w_z_index (ws' ! j) < w_z_index (ws' ! k)))"
proof -
  let ?c = "d_comp d"
  let ?ws = "windows ?c" and ?i = "focused_window ?c"
  note ok = assms(1)
  have inv: "?i < length ?ws \<Longrightarrow> ?i \<noteq> INVALID_WINDOW_ID" using ok by (simp add: comp_ok_def INVALID_WINDOW_ID_def)
  have first: "(if ?i \<noteq> INVALID_WINDOW_ID \<and> ?i < length ?ws \<and> w_visible (?ws ! ?i) then lift_outcome (hit mx my (?ws ! ?i)) else ret False)
      = ret (?i < length ?ws \<and> under mx my (?ws ! ?i))"
  proof (cases "?i < length ?ws \<and> w_visible (?ws ! ?i)")
    case True
    then show ?thesis using assms(3) inv by (simp add: hit_under lift_outcome_def ret_def)
  next
    case False
    then show ?thesis by (auto simp: under_def)
  qed
  have click: "handle_mouse_click mx my d =
      (if ?i < length ?ws \<and> under mx my (?ws ! ?i) then (Ok (), d) else find_and_focus_window_at mx my d)"
    unfolding handle_mouse_click_def reading_app Let_def first ret_bind by (simp add: ret_def)
  show ?thesis
  proof (cases "?i < length ?ws \<and> under mx my (?ws ! ?i)")
    case True
    then show ?thesis using click assms(2) by simp
  next
    case out: False
    obtain r where r: "top_hit mx my ?ws None = (Ok r :: (unit, _) outcome)"
      and spec: "case r of None \<Rightarrow> \<forall>v \<in> set ?ws. \<not> under mx my v | Some w \<Rightarrow> topmost mx my ?ws w"
      using top_hit_topmost [OF assms(3)] by blast
    show ?thesis
    proof (cases r)
      case None
      then show ?thesis using click out r spec assms(2)
        by (simp add: find_and_focus_window_at_def reading_app bind_def lift_outcome_app ret_def)
    next
      case (Some w)
      then have top: "topmost mx my ?ws w" using spec by simp
      then have mem: "w \<in> set ?ws" and und: "under mx my w" by (simp_all add: topmost_def)
      note pos = comp_ok_position [OF ok mem]
      have ne: "w_id w \<noteq> ?i" using out pos und by auto
      have "?ws \<noteq> []" using mem by auto
      from proceeds_focus [OF assms(2) this assms(4), of "w_id w"] obtain d'
        where f: "focus_window (w_id w) d = (Ok (), d')" "rings_ok d'" by blast
      have comp: "d_comp d' = raised (w_id w) ?c"
        using focus_window_comp [OF f(1)] ne pos by (simp add: focus_comp_def)
      have run: "handle_mouse_click mx my d = (Ok (), d')"
        using click out r Some ne f(1) by (simp add: find_and_focus_window_at_def reading_app bind_def lift_outcome_app)
      have vis: "w_visible (?ws ! w_id w)" using pos und by (simp add: under_def)
      have notall: "\<not> (\<forall>v \<in> set ?ws. \<not> under mx my v)" using mem und by blast
      have "topmost mx my ?ws (?ws ! w_id w)" using top pos by simp
      then show ?thesis
        using run f(2) out notall pos(1) raised_order [OF pos(1) vis assms(5)]
        by (intro exI [of _ d']) (simp add: comp raised_fields Let_def, blast)
    qed
  qed
qed

section \<open>Windows of a process that ends\<close>

lemma destroy_comp_visible:
  assumes "comp_ok c"
  shows "length (windows (destroy_comp i c)) = length (windows c)"
    and "j < length (windows c) \<Longrightarrow> w_visible (windows (destroy_comp i c) ! j) \<longleftrightarrow> w_visible (windows c ! j) \<and> j \<noteq> i"
    and "j < length (windows c) \<Longrightarrow> j \<noteq> i \<Longrightarrow> windows (destroy_comp i c) ! j = windows c ! j"
    and "j < length (windows c) \<Longrightarrow> w_owner_pid (windows (destroy_comp i c) ! j) = w_owner_pid (windows c ! j)"
  using assms
  by (auto simp: destroy_comp_def update_window_def hide_window_def nth_list_update comp_ok_def INVALID_WINDOW_ID_def)

lemma destroys_visible:
  "comp_ok c \<Longrightarrow> j < length (windows c) \<Longrightarrow>
   length (windows (fold destroy_comp is c)) = length (windows c)
   \<and> (w_visible (windows (fold destroy_comp is c) ! j) \<longleftrightarrow> w_visible (windows c ! j) \<and> j \<notin> set is)
   \<and> w_owner_pid (windows (fold destroy_comp is c) ! j) = w_owner_pid (windows c ! j)
   \<and> (j \<notin> set is \<longrightarrow> windows (fold destroy_comp is c) ! j = windows c ! j)"
proof (induction "is" arbitrary: c)
  case (Cons i js)
  have "j < length (windows (destroy_comp i c))" using destroy_comp_visible(1) Cons.prems by simp
  from Cons.IH [OF comp_ok_destroy [OF Cons.prems(1)] this] destroy_comp_visible [OF Cons.prems(1)] Cons.prems(2)
  show ?case by auto
qed simp

text \<open>When the windows of a process are destroyed, none of its windows is left visible or has an event
  ring, no input reaches it, and every window of another process is as it was.\<close>

lemma process_windows_gone:
  assumes "comp_ok (d_comp d)" "destroy_windows_of_process ops umm pid d = (Ok (), d')"
  shows "(\<forall>w \<in> set (windows (d_comp d')). w_owner_pid w = pid \<longrightarrow> \<not> w_visible w \<and> w_event_buffer w = None)
    \<and> \<not> process_has_pending_input d' pid
    \<and> length (windows (d_comp d')) = length (windows (d_comp d))
    \<and> (\<forall>j < length (windows (d_comp d)). w_owner_pid (windows (d_comp d) ! j) \<noteq> pid \<longrightarrow>
         windows (d_comp d') ! j = windows (d_comp d) ! j)"
proof -
  let ?c = "d_comp d"
  let ?is = "map w_id (filter (\<lambda>w. w_visible w \<and> w_owner_pid w = pid) (windows ?c))"
  note ok = assms(1)
  have c': "d_comp d' = fold destroy_comp ?is ?c"
    using assms(2) by (simp add: destroy_windows_of_process_def reading_app destroy_windows_comp)
  have ok': "comp_ok (d_comp d')" unfolding c' by (rule comp_ok_destroys [OF ok])
  have ids: "j \<in> set ?is \<longleftrightarrow> w_visible (windows ?c ! j) \<and> w_owner_pid (windows ?c ! j) = pid" if "j < length (windows ?c)" for j
    using ok that by (auto simp: comp_ok_def in_set_conv_nth image_iff)
  have len: "length (windows (d_comp d')) = length (windows ?c)"
  proof (cases "windows ?c")
    case Nil
    then show ?thesis by (simp add: c')
  next
    case (Cons w ws)
    then show ?thesis using destroys_visible [OF ok, of 0 ?is] by (simp add: c')
  qed
  have hidden: "\<not> w_visible (windows (d_comp d') ! j) \<and> w_event_buffer (windows (d_comp d') ! j) = None"
    if "j < length (windows ?c)" "w_owner_pid (windows (d_comp d') ! j) = pid" for j
    using destroys_visible [OF ok that(1), of ?is] ids [OF that(1)] that ok' len by (auto simp: c' [symmetric] comp_ok_def)
  then have all: "\<forall>w \<in> set (windows (d_comp d')). w_owner_pid w = pid \<longrightarrow> \<not> w_visible w \<and> w_event_buffer w = None"
    using len by (metis in_set_conv_nth)
  moreover have "\<not> process_has_pending_input d' pid"
    using all by (auto simp: process_has_pending_input_def list_ex_iff)
  moreover have "windows (d_comp d') ! j = windows ?c ! j"
    if "j < length (windows ?c)" "w_owner_pid (windows ?c ! j) \<noteq> pid" for j
    using destroys_visible [OF ok that(1), of ?is] ids [OF that(1)] that by (simp add: c')
  ultimately show ?thesis using len by blast
qed

section \<open>A desktop with two windows\<close>

definition pair_desktop :: desktop where
  "pair_desktop = (small_desktop 0)\<lparr>d_comp := (compositor_new 4 2)\<lparr>next_window_id := 2, focused_window := 1,
     windows := [small_window 0, (small_window 2)\<lparr>w_id := 1, w_z_index := 1\<rparr>]\<rparr>\<rparr>"

text \<open>An empty desktop on a machine without free frames, so that a window gets no event ring.\<close>

definition empty_desktop :: desktop where
  "empty_desktop = (small_desktop 0)\<lparr>d_comp := compositor_new 4 2,
     d_kernel := small_kernel\<lparr>k_machine := \<lparr>mem = (\<lambda>_. 0), frames = frame_allocator_init []\<rparr>\<rparr>\<rparr>"

lemma pair_ok: "comp_ok (d_comp pair_desktop)" "rings_ok pair_desktop"
proof -
  show "comp_ok (d_comp pair_desktop)"
    by (simp add: comp_ok_def pair_desktop_def small_defs) (auto simp: less_Suc_eq numeral_2_eq_2)
  show "rings_ok pair_desktop"
    using eb_new_ring by (simp add: rings_ok_def pair_desktop_def small_defs eb_ring_iff)
qed

lemmas pair_defs = pair_desktop_def small_defs

theorem click_focuses_topmost_witness:
  "\<exists>d'. handle_mouse_click 1 1 pair_desktop = (Ok (), d') \<and> focused_window (d_comp d') = 0
     \<and> w_z_index (windows (d_comp d') ! 1) < w_z_index (windows (d_comp d') ! 0)"
proof -
  let ?ws = "windows (d_comp pair_desktop)"
  have geo: "\<forall>w \<in> set ?ws. w_visible w \<longrightarrow> geometry_ok w" "max_z ?ws < 255" "length (filter w_visible ?ws) \<le> 256"
    by (simp_all add: pair_defs geometry_ok_def i32_ok_def max_z_def)
  have u: "under 1 1 (?ws ! 0)" "\<not> under 1 1 (?ws ! 1)" "length ?ws = 2" "focused_window (d_comp pair_desktop) = 1"
    "w_visible (?ws ! 1)" "?ws ! 0 \<in> set ?ws"
    by (simp_all add: pair_defs under_def)
  from click_focuses_topmost [OF pair_ok geo, of 1 1] obtain d' where d': "handle_mouse_click 1 1 pair_desktop = (Ok (), d')"
    "focused_window (d_comp d') < 2" "topmost 1 1 ?ws (?ws ! focused_window (d_comp d'))"
    "\<forall>j < 2. j \<noteq> focused_window (d_comp d') \<and> w_visible (?ws ! j) \<longrightarrow>
       w_z_index (windows (d_comp d') ! j) < w_z_index (windows (d_comp d') ! focused_window (d_comp d'))"
    using u unfolding Let_def by (auto split: if_split_asm)
  then have "focused_window (d_comp d') = 0"
    using u(2) by (metis less_2_cases topmost_def One_nat_def)
  with d' u(5) show ?thesis by (intro exI [of _ d']) simp
qed

theorem window_ids_unique_witness:
  "\<exists>d'. create_window flat_mapper sample_manager 4096 8192 2 2 0 0 1 empty_desktop = (Ok 0, d') \<and> w_visible (windows (d_comp d') ! 0)"
proof -
  have "\<exists>d'. create_window flat_mapper sample_manager 4096 8192 2 2 0 0 1 empty_desktop = (Ok 0, d')"
    by (simp add: create_window_def open_window_def take_window_id_comp taken_id_def take_id_comp_def reading_app bind_def lift_outcome_def
        window_buffer_new_def u32_mul_def modify_def empty_desktop_def small_desktop_def compositor_new_def set_comp_def ret_def
        allocate_event_buffer_for_window_def on_kernel_def on_machine_def allocate_zeroed_page_def lift_frames_def allocate_frame_def
        frame_allocator_init_def allocate_loop.simps store_window_def focus_window_def Let_def INVALID_WINDOW_ID_def max_z_def
        check_or_panic_def update_window_def NORMALIZE_Z_INDEX_THRESHOLD_def get_event_buffer_def when_some_def)
  then obtain d' where c: "create_window flat_mapper sample_manager 4096 8192 2 2 0 0 1 empty_desktop = (Ok 0, d')" by blast
  have "desk_reachable 4 2 empty_desktop" by (rule boot) (simp add: empty_desktop_def)
  from window_ids_unique [OF this _ c] have "w_visible (windows (d_comp d') ! 0)" by (simp add: empty_desktop_def compositor_new_def)
  with c show ?thesis by blast
qed

section \<open>Focus without windows\<close>

text \<open>The greatest stacking index is asked for before the window is looked up, so a request for the focus
  stops the kernel when there is no window at all. A process can make the request, and so can Alt with
  an arrow key.\<close>

lemma focus_without_windows_panics:
  assumes "windows (d_comp d) = []" "i \<noteq> INVALID_WINDOW_ID" "i \<noteq> focused_window (d_comp d)"
  shows "fst (focus_window i d) = Panic"
  using assms by (simp add: focus_window_def reading_app Let_def panic_def)

end
