(* ===== verification/Syscall_Props.thy ===== *)
theory Syscall_Props
  imports Syscalls Compositor_Props Process_Props
begin

text \<open>
  What the system calls promise a process and the others: a process is ended only by those who may,
  descriptors carry their rights, and a task that exits leaves no window and no address space behind.
  What the calls write into the memory of the process is in \<open>User_Access\<close>.
\<close>

unbundle bit_operations_syntax

section \<open>The caller and its descriptors\<close>

definition caller :: "'d os \<Rightarrow> nat \<Rightarrow> nat" where
  "caller s me = current_process (k_sched (d_kernel (os_desk s))) me"

definition proc_of :: "'d os \<Rightarrow> nat \<Rightarrow> proc option" where
  "proc_of s pid = List.find (\<lambda>p. pr_pid p = pid) (pm_processes (k_pm (d_kernel (os_desk s))))"

lemma desk_id: "s\<lparr>os_desk := (os_desk s)\<lparr>d_kernel := (d_kernel (os_desk s))\<lparr>k_sched := k_sched (d_kernel (os_desk s))\<rparr>\<rparr>\<rparr> = s"
  by simp

lemma current_pid_app:
  "current_pid me s = (if me < MAX_CORES then (Ok (caller s me), s) else (Panic, s))"
  by (simp add: current_pid_def on_proc_def on_desk_def on_kernel_def on_sched_def get_current_process_for_core_def core_in_range_def
      bind_def require_def reading_def ret_def caller_def)

lemma current_pid_bind: "me < MAX_CORES \<Longrightarrow> bind (current_pid me) k s = k (caller s me) s"
  by (simp add: bind_def current_pid_app)

lemma get_process_app:
  assumes "pid \<noteq> INVALID_PID"
  shows "on_proc (get_process pid) s = (case proc_of s pid of Some p \<Rightarrow> Ok p | None \<Rightarrow> Err ProcessNotFound, s)"
  using assms
  by (auto simp: on_proc_def on_desk_def on_kernel_def get_process_def reading_def ret_def fail_def proc_of_def split: option.splits)

lemma or_return_get_process:
  "pid \<noteq> INVALID_PID \<Longrightarrow>
   or_return n (on_proc (get_process pid)) k s = (case proc_of s pid of Some p \<Rightarrow> k p s | None \<Rightarrow> (Ok n, s))"
  by (simp add: or_return_def bind_def attempt_def get_process_app ret_def split: option.splits)

lemma on_proc_invalid: "on_proc (get_process INVALID_PID) s = (Panic, s)"
  by (simp add: on_proc_def on_desk_def on_kernel_def get_process_def panic_def)

text \<open>C32: termination is refused to strangers. If \<open>TerminateProcess\<close> does anything at all, the target is a process
  other than the first one, and the caller is the target itself, its parent, or the first process.\<close>

theorem kill_needs_right:
  assumes "syscall_num f = 1" "dispatch_syscall me env f s = (Ok r, s')" "s' \<noteq> s \<or> r \<noteq> Returns U64_MAX"
  shows "\<exists>p. proc_of s (arg1 f) = Some p \<and> arg1 f \<noteq> ARCHE_PID
    \<and> (caller s me = arg1 f \<or> caller s me = pr_parent_pid p \<or> caller s me = ARCHE_PID)"
proof -
  have run: "sys_terminate_process me f s = (Ok r, s')"
    using assms(1,2) by (simp add: dispatch_syscall_def syscall_numbers_def)
  then have me: "me < MAX_CORES"
    by (auto simp: sys_terminate_process_def Let_def bind_def current_pid_app split: if_splits)
  show ?thesis
  proof (cases "arg1 f = INVALID_PID \<or> arg1 f = ARCHE_PID")
    case True
    then show ?thesis using run me assms(3) by (simp add: sys_terminate_process_def Let_def bind_def current_pid_app ret_def)
  next
    case False
    then show ?thesis using run me assms(3)
      by (cases "proc_of s (arg1 f)")
        (auto simp: sys_terminate_process_def Let_def bind_def current_pid_app ret_def attempt_def get_process_app split: if_splits)
  qed
qed

lemma with_descriptor_app:
  assumes "me < MAX_CORES" "caller s me \<noteq> INVALID_PID" "proc_of s (caller s me) = Some p"
  shows "with_descriptor me fd flag k s =
    (if length (pr_file_descriptors p) \<le> fd then (Ok INVALID_FD, s)
     else if fdesc_flags (pr_file_descriptors p ! fd) AND flag = 0 then (Ok INVALID_FD, s)
     else k (of_nat (fdesc_node_id (pr_file_descriptors p ! fd))) s)"
  unfolding with_descriptor_def current_pid_bind [OF assms(1)] or_return_get_process [OF assms(2)] assms(3) Let_def
  by (simp add: ret_def)

lemma dispatch_returns:
  "syscall_num f = 21 \<Longrightarrow> sys_close_file me f s = (Ok n, s') \<Longrightarrow> dispatch_syscall me env f s = (Ok (Returns n), s')"
  "syscall_num f = 22 \<Longrightarrow> sys_read_file me env f s = (Ok n, s') \<Longrightarrow> dispatch_syscall me env f s = (Ok (Returns n), s')"
  "syscall_num f = 23 \<Longrightarrow> sys_write_file me env f s = (Ok n, s') \<Longrightarrow> dispatch_syscall me env f s = (Ok (Returns n), s')"
  by (simp_all add: dispatch_syscall_def syscall_numbers_def returned_def bind_Ok ret_def)

text \<open>C38: descriptors carry rights. A read through a descriptor that was not opened for reading, a write through
  one that was not opened for writing, and either through a number that is not open, are refused, and
  nothing changes, neither a file nor the memory of the process.\<close>

theorem descriptor_rights:
  assumes "me < MAX_CORES" "caller s me \<noteq> INVALID_PID" "proc_of s (caller s me) = Some p"
    and "syscall_num f = 22 \<and> flag = FD_FLAG_READ \<or> syscall_num f = 23 \<and> flag = FD_FLAG_WRITE"
    and "length (pr_file_descriptors p) \<le> arg1 f \<or> fdesc_flags (pr_file_descriptors p ! arg1 f) AND flag = 0"
  shows "dispatch_syscall me env f s = (Ok (Returns INVALID_FD), s)"
proof -
  have "with_descriptor me (arg1 f) flag k s = (Ok INVALID_FD, s)" for k
    using assms(5) unfolding with_descriptor_app [OF assms(1-3)] by auto
  then have "sys_read_file me env f s = (Ok INVALID_FD, s)" if "flag = FD_FLAG_READ"
    using that by (simp add: sys_read_file_def Let_def ret_def)
  moreover have "sys_write_file me env f s = (Ok INVALID_FD, s)" if "flag = FD_FLAG_WRITE"
    using that \<open>\<And>k. with_descriptor me (arg1 f) flag k s = (Ok INVALID_FD, s)\<close> by (simp add: sys_write_file_def Let_def ret_def)
  ultimately show ?thesis using assms(4) dispatch_returns by fastforce
qed

definition fds_of :: "'d os \<Rightarrow> nat \<Rightarrow> file_descriptor list" where
  "fds_of s pid = (case proc_of s pid of Some p \<Rightarrow> pr_file_descriptors p | None \<Rightarrow> [])"

lemma find_update_first:
  "List.find q ps = Some p \<Longrightarrow> (\<And>x. q (f x) = q x) \<Longrightarrow> List.find q (update_first q f ps) = Some (f p)"
proof (induction ps)
  case (Cons a ps)
  then show ?case by (cases "q a") simp_all
qed simp

lemma change_process_app:
  assumes "pid \<noteq> INVALID_PID" "proc_of s pid = Some p" "\<And>x. pr_pid (g x) = pr_pid x"
  obtains s' where "on_proc (change_process pid g) s = (Ok (), s')" "proc_of s' pid = Some (g p)"
    "\<And>me. caller s' me = caller s me"
proof -
  let ?k = "d_kernel (os_desk s)"
  let ?k' = "?k\<lparr>k_pm := (k_pm ?k)\<lparr>pm_processes := update_first (\<lambda>p. pr_pid p = pid) g (pm_processes (k_pm ?k))\<rparr>\<rparr>"
  let ?s' = "s\<lparr>os_desk := (os_desk s)\<lparr>d_kernel := ?k'\<rparr>\<rparr>"
  have "change_process pid g ?k = (Ok (), ?k')"
    using assms(1,2) by (simp add: change_process_def get_process_def bind_def reading_def ret_def modify_def proc_of_def)
  then have "on_proc (change_process pid g) s = (Ok (), ?s')"
    by (simp add: on_proc_def on_desk_def on_kernel_def)
  moreover have "proc_of ?s' pid = Some (g p)"
    using find_update_first [of "\<lambda>p. pr_pid p = pid" _ p g] assms(2,3) by (simp add: proc_of_def)
  moreover have "caller ?s' me = caller s me" for me by (simp add: caller_def)
  ultimately show ?thesis using that by blast
qed

text \<open>Closing renumbers. After a process closes a descriptor other than its last one, the closed number is
  still open and names the file of the last descriptor, with its rights, and the number of the last
  descriptor, which the process has not closed, is refused.\<close>

theorem close_renumbers_last:
  assumes "me < MAX_CORES" "caller s me \<noteq> INVALID_PID" "proc_of s (caller s me) = Some p"
    and "syscall_num f = 21" "arg1 f + 1 < length (pr_file_descriptors p)"
  shows "\<exists>s'. dispatch_syscall me env f s = (Ok (Returns 0), s')
    \<and> fds_of s' (caller s me) ! arg1 f = last (pr_file_descriptors p)
    \<and> length (fds_of s' (caller s me)) = length (pr_file_descriptors p) - 1
    \<and> dispatch_syscall me env \<lparr>syscall_num = 22, arg1 = length (pr_file_descriptors p) - 1, arg2 = o2, arg3 = o3, arg4 = o4\<rparr> s'
        = (Ok (Returns INVALID_FD), s')"
proof -
  let ?fds = "pr_file_descriptors p" and ?pid = "caller s me"
  obtain s' where s': "on_proc (change_process ?pid (\<lambda>p. p\<lparr>pr_file_descriptors := close_fd (arg1 f) (pr_file_descriptors p)\<rparr>)) s = (Ok (), s')"
    "proc_of s' ?pid = Some (p\<lparr>pr_file_descriptors := close_fd (arg1 f) ?fds\<rparr>)" "\<And>me. caller s' me = caller s me"
    by (rule change_process_app [OF assms(2,3), of "\<lambda>p. p\<lparr>pr_file_descriptors := close_fd (arg1 f) (pr_file_descriptors p)\<rparr>"]) simp_all
  have ne: "?fds \<noteq> []" using assms(5) by auto
  have "sys_close_file me f s = (Ok 0, s')"
    unfolding sys_close_file_def current_pid_bind [OF assms(1)] or_return_get_process [OF assms(2)] assms(3)
    using assms(5) s'(1) by (simp add: bind_def attempt_def ret_def)
  then have "dispatch_syscall me env f s = (Ok (Returns 0), s')" by (rule dispatch_returns(1) [OF assms(4)])
  moreover have "length (close_fd (arg1 f) ?fds) = length ?fds - 1" "close_fd (arg1 f) ?fds ! arg1 f = last ?fds"
    using assms(5) last_conv_nth [OF ne] by (auto simp: close_fd_def Let_def nth_butlast)
  moreover have "dispatch_syscall me env \<lparr>syscall_num = 22, arg1 = length ?fds - 1, arg2 = o2, arg3 = o3, arg4 = o4\<rparr> s'
        = (Ok (Returns INVALID_FD), s')"
  proof (rule dispatch_returns(2))
    have "with_descriptor me (length ?fds - 1) FD_FLAG_READ k s' = (Ok INVALID_FD, s')" for k
      using with_descriptor_app [OF assms(1), of s'] s'(2,3) assms(2) calculation(2) by simp
    then show "sys_read_file me env \<lparr>syscall_num = 22, arg1 = length ?fds - 1, arg2 = o2, arg3 = o3, arg4 = o4\<rparr> s' = (Ok INVALID_FD, s')"
      by (simp add: sys_read_file_def Let_def ret_def)
  qed simp
  ultimately show ?thesis using s'(2) by (simp add: fds_of_def)
qed

text \<open>\<open>GetCpuInfo\<close> looks at the length the process states only to check that the range is one of user memory.
  It writes the whole description wherever the pages allow it.\<close>

lemma cpu_info_ignores_length:
  assumes "validate_user_ptr p n" "p mod 16 = 0"
  shows "sys_get_cpu_info env \<lparr>syscall_num = 970, arg1 = p, arg2 = n, arg3 = 0, arg4 = 0\<rparr>
    = bind (store_user p (se_cpu_info env)) (\<lambda>_. ret 0)"
  using assms by (simp add: sys_get_cpu_info_def aligned_def check_or_panic_def bind_def ret_def)

section \<open>The end of a task\<close>

lemma bind_Ok_step: "bind m f s = (Ok b, s') \<Longrightarrow> (\<And>a t. m s = (Ok a, t) \<Longrightarrow> f a t = (Ok b, s') \<Longrightarrow> thesis) \<Longrightarrow> thesis"
  unfolding bind_eq_Ok_iff by blast

lemma on_proc_Ok_iff:
  "on_proc m s = (Ok a, s') \<longleftrightarrow> (\<exists>k. m (d_kernel (os_desk s)) = (Ok a, k) \<and> s' = s\<lparr>os_desk := (os_desk s)\<lparr>d_kernel := k\<rparr>\<rparr>)"
  by (auto simp: on_proc_def on_desk_def on_kernel_def split: prod.splits)

lemma on_sched_pm: "on_sched m k = (r, k') \<Longrightarrow> k_pm k' = k_pm k"
  by (auto simp: on_sched_def split: prod.splits)

text \<open>Handing the children over changes neither the state nor the memory of any process.\<close>

definition essence :: "proc \<Rightarrow> nat \<times> process_state \<times> int option \<times> process_memory_layout" where
  "essence p = (pr_pid p, pr_state p, pr_exit_code p, pr_memory_layout p)"

lemma update_first_essence:
  "(\<And>p. essence (g p) = essence p) \<Longrightarrow> map essence (update_first q g ps) = map essence ps"
  by (induction ps) auto

lemma changed_processes:
  "change_process pid g k = (r, k') \<Longrightarrow>
   k' = k \<or> k' = k\<lparr>k_pm := (k_pm k)\<lparr>pm_processes := update_first (\<lambda>p. pr_pid p = pid) g (pm_processes (k_pm k))\<rparr>\<rparr>"
  by (auto simp: change_process_def get_process_def bind_def reading_def ret_def fail_def panic_def modify_def split: if_splits option.splits)

lemma attempt_change_essence:
  assumes "attempt (change_process pid g) k = (r, k')" "\<And>p. essence (g p) = essence p"
  shows "map essence (pm_processes (k_pm k')) = map essence (pm_processes (k_pm k))"
proof -
  obtain r1 k1 where c: "change_process pid g k = (r1, k1)" by (cases "change_process pid g k")
  have "k' = k1" using assms(1) by (cases r1) (simp_all add: attempt_def c)
  with changed_processes [OF c] update_first_essence [OF assms(2)] show ?thesis by auto
qed

lemma reparent_essence:
  "reparent_children cs k = (Ok (), k') \<Longrightarrow> map essence (pm_processes (k_pm k')) = map essence (pm_processes (k_pm k))"
proof (induction cs arbitrary: k)
  case Nil
  then show ?case by (simp add: ret_def)
next
  case (Cons c cs)
  from Cons.prems [unfolded reparent_children.simps bind_eq_Ok_iff] obtain a b k1 k2
    where 1: "attempt (change_process c (\<lambda>p. p\<lparr>pr_parent_pid := ARCHE_PID\<rparr>)) k = (Ok a :: (process_error, _) outcome, k1)"
      and 2: "attempt (change_process ARCHE_PID (\<lambda>p. p\<lparr>pr_children := pr_children p @ [c]\<rparr>)) k1 = (Ok b :: (process_error, _) outcome, k2)"
      and 3: "reparent_children cs k2 = (Ok (), k')"
    by blast
  have "map essence (pm_processes (k_pm k1)) = map essence (pm_processes (k_pm k))"
    by (rule attempt_change_essence [OF 1]) (simp add: essence_def)
  moreover have "map essence (pm_processes (k_pm k2)) = map essence (pm_processes (k_pm k1))"
    by (rule attempt_change_essence [OF 2]) (simp add: essence_def)
  ultimately show ?case using Cons.IH [OF 3] by simp
qed

lemma find_essence:
  assumes "map essence ps = map essence qs" "List.find (\<lambda>p. pr_pid p = pid) ps = Some p"
  shows "\<exists>q. List.find (\<lambda>p. pr_pid p = pid) qs = Some q \<and> essence q = essence p"
  using assms
proof (induction ps arbitrary: qs)
  case (Cons a ps)
  then obtain b qs' where "qs = b # qs'" "essence b = essence a" "map essence ps = map essence qs'" by (cases qs) auto
  with Cons show ?case by (auto simp: essence_def split: if_splits)
qed simp

definition find_proc :: "kernel \<Rightarrow> nat \<Rightarrow> proc option" where
  "find_proc k pid = List.find (\<lambda>p. pr_pid p = pid) (pm_processes (k_pm k))"

lemma change_process_find:
  assumes "change_process pid g k = (Ok (), k')" "\<And>x. pr_pid (g x) = pr_pid x"
  shows "\<exists>p. find_proc k pid = Some p \<and> find_proc k' pid = Some (g p)"
proof -
  from assms(1) obtain p where p: "find_proc k pid = Some p"
    and k': "k' = k\<lparr>k_pm := (k_pm k)\<lparr>pm_processes := update_first (\<lambda>p. pr_pid p = pid) g (pm_processes (k_pm k))\<rparr>\<rparr>"
    by (auto simp: change_process_def get_process_def bind_def reading_def ret_def fail_def panic_def modify_def find_proc_def
        split: if_splits option.splits)
  then show ?thesis using find_update_first [of "\<lambda>p. pr_pid p = pid" _ p g] assms(2) by (simp add: find_proc_def)
qed

lemma get_process_same: "get_process pid k = (r, k') \<Longrightarrow> k' = k"
  by (auto simp: get_process_def reading_def ret_def fail_def panic_def split: option.splits if_splits)

lemma terminate_process_find:
  assumes "terminate_process me ops umm pid code False k = (Ok (), k')"
  shows "\<exists>p. find_proc k' pid = Some p \<and> pr_state p = Terminated \<and> pr_exit_code p = Some code
    \<and> top_page_table_phys (pr_memory_layout p) = 0"
proof -
  let ?g = "\<lambda>p. p\<lparr>pr_state := Terminated, pr_exit_code := Some code\<rparr>"
  let ?h = "\<lambda>p. p\<lparr>pr_memory_layout := (pr_memory_layout p)\<lparr>top_page_table_phys := 0, regions := []\<rparr>\<rparr>"
  have pid: "pid \<noteq> INVALID_PID" using assms by (auto simp: terminate_process_def fail_def)
  from assms obtain p k0 k1 k2 u v where g0: "get_process pid k = (Ok p, k0)" "change_process pid ?g k0 = (Ok u, k1)"
    and m': "(if top_page_table_phys (pr_memory_layout p) \<noteq> 0
              then bind (on_machine (free_address_space ops umm (pr_memory_layout p))) (\<lambda>_. change_process pid ?h)
              else ret ()) k1 = (Ok v, k2)"
    and r: "reparent_children (pr_children p) k2 = (Ok (), k')"
    unfolding terminate_process_def if_not_P [OF pid] if_False
    by (elim bind_Ok_step)
  have m: "(if top_page_table_phys (pr_memory_layout p) \<noteq> 0
              then bind (on_machine (free_address_space ops umm (pr_memory_layout p))) (\<lambda>_. change_process pid ?h)
              else ret ()) k1 = (Ok (), k2)" using m' by simp
  note g = g0 [unfolded get_process_same [OF g0(1)], simplified]
  have p: "find_proc k pid = Some p"
    using g(1) by (auto simp: get_process_def reading_def ret_def fail_def panic_def find_proc_def split: if_splits option.splits)
  have k1: "find_proc k1 pid = Some (?g p)" using change_process_find [OF g(2)] p by auto
  have "\<exists>q. find_proc k2 pid = Some q \<and> pr_state q = Terminated \<and> pr_exit_code q = Some code \<and> top_page_table_phys (pr_memory_layout q) = 0"
  proof (cases "top_page_table_phys (pr_memory_layout p) = 0")
    case True
    then show ?thesis using m k1 by (simp add: ret_def)
  next
    case False
    with m obtain k1' where k1': "on_machine (free_address_space ops umm (pr_memory_layout p)) k1 = (Ok () :: (process_error, _) outcome, k1')" "change_process pid ?h k1' = (Ok (), k2)"
      by (auto simp: bind_eq_Ok_iff)
    have "find_proc k1' pid = find_proc k1 pid" using k1'(1) by (auto simp: on_machine_def find_proc_def split: prod.splits)
    then show ?thesis using change_process_find [OF k1'(2)] k1 by auto
  qed
  then obtain q where q: "find_proc k2 pid = Some q" "pr_state q = Terminated" "pr_exit_code q = Some code" "top_page_table_phys (pr_memory_layout q) = 0"
    by blast
  have "map essence (pm_processes (k_pm k2)) = map essence (pm_processes (k_pm k'))" using reparent_essence [OF r] by simp
  from find_essence [OF this q(1) [unfolded find_proc_def]] q(2-) show ?thesis by (auto simp: find_proc_def essence_def)
qed

text \<open>C29: the end of a task. When a task has exited, its process is marked as terminated with the exit code and
  has no address space any more, none of its windows is visible or has an event ring, no input is
  pending for it, and the windows of other processes are as they were.\<close>

theorem exit_releases:
  assumes "comp_ok (d_comp (os_desk s))" "exit_current me env code s = (Ok (), s')"
  shows "(\<exists>p. proc_of s' (caller s me) = Some p \<and> pr_state p = Terminated \<and> pr_exit_code p = Some code
      \<and> top_page_table_phys (pr_memory_layout p) = 0)
    \<and> (\<forall>w \<in> set (windows (d_comp (os_desk s'))). w_owner_pid w = caller s me \<longrightarrow> \<not> w_visible w \<and> w_event_buffer w = None)
    \<and> \<not> process_has_pending_input (os_desk s') (caller s me)
    \<and> (\<forall>j < length (windows (d_comp (os_desk s))). w_owner_pid (windows (d_comp (os_desk s)) ! j) \<noteq> caller s me \<longrightarrow>
         windows (d_comp (os_desk s')) ! j = windows (d_comp (os_desk s)) ! j)"
proof -
  let ?pid = "caller s me"
  have slot: "s1 = s" if "on_proc (on_sched (get_current_slot_for_core me)) s = (Ok i, s1)" for i s1
    using that by (auto simp: on_proc_Ok_iff on_sched_def get_current_slot_for_core_def core_in_range_def bind_def require_def reading_def
        ret_def split: if_splits)
  from assms(2) obtain i s1 s2 r s3 s4 s5 s6 s7 pid u u1 v w0 where g: "on_proc (on_sched (get_current_slot_for_core me)) s = (Ok i :: (unit, _) outcome, s1)"
    and c: "current_pid me s1 = (Ok pid, s2)" "check_or_panic (i \<noteq> INVALID_SLOT) s2 = (Ok u :: (unit, _) outcome, s4)"
    and x: "modify (\<lambda>s. s\<lparr>os_cr3 := kernel_page_table_phys (se_umm env)\<rparr>) s4 = (Ok u1 :: (unit, _) outcome, s5)"
    and w': "on_desk (destroy_windows_of_process (se_ops env) (se_umm env) pid) s5 = (Ok v :: (unit, _) outcome, s6)"
    and t': "attempt (on_proc (terminate_process me (se_ops env) (se_umm env) pid code False)) s6 = (Ok r :: (unit, _) outcome, s7)"
    and o: "check_or_panic (case r of Inr _ \<Rightarrow> True | Inl _ \<Rightarrow> False) s7 = (Ok w0 :: (unit, _) outcome, s3)"
    and e: "on_proc (on_sched (exit_current_tail me)) s3 = (Ok () :: (unit, _) outcome, s')"
    unfolding exit_current_def by (elim bind_Ok_step)
  have "r = Inr () \<and> s3 = s7" using o by (cases r) (simp_all add: check_or_panic_def panic_def ret_def)
  moreover have "pid = caller s1 me \<and> s4 = s1"
    using c by (auto simp: current_pid_app check_or_panic_def panic_def ret_def split: if_splits)
  ultimately have w: "on_desk (destroy_windows_of_process (se_ops env) (se_umm env) (caller s1 me)) s5 = (Ok () :: (unit, _) outcome, s6)"
    and t: "attempt (on_proc (terminate_process me (se_ops env) (se_umm env) (caller s1 me) code False)) s6 = (Ok (Inr ()) :: (unit, _) outcome, s3)"
    and s5: "s5 = s1\<lparr>os_cr3 := kernel_page_table_phys (se_umm env)\<rparr>"
    using w' t' x by (auto simp: modify_def)
  from slot [OF g] have s1: "s1 = s" .
  obtain d where d: "destroy_windows_of_process (se_ops env) (se_umm env) ?pid (os_desk s) = (Ok (), d)" "s6 = s5\<lparr>os_desk := d\<rparr>"
    using w s1 s5 by (auto simp: on_desk_def split: prod.splits)
  obtain k where k: "terminate_process me (se_ops env) (se_umm env) ?pid code False (d_kernel d) = (Ok (), k)"
    "s3 = s5\<lparr>os_desk := d\<lparr>d_kernel := k\<rparr>\<rparr>"
    using t s1 d(2) by (auto simp: attempt_def on_proc_def on_desk_def on_kernel_def split: prod.splits outcome.splits)
  obtain k' where k': "on_sched (exit_current_tail me) k = (Ok (), k')" "s' = s5\<lparr>os_desk := d\<lparr>d_kernel := k'\<rparr>\<rparr>"
    using e k(2) by (auto simp: on_proc_Ok_iff)
  have comp: "d_comp (os_desk s') = d_comp d" "d_events (os_desk s') = d_events d" by (simp_all add: k'(2))
  from terminate_process_find [OF k(1)] on_sched_pm [OF k'(1)] obtain p where
    "proc_of s' ?pid = Some p \<and> pr_state p = Terminated \<and> pr_exit_code p = Some code \<and> top_page_table_phys (pr_memory_layout p) = 0"
    by (auto simp: proc_of_def find_proc_def k'(2))
  moreover note process_windows_gone [OF assms(1) d(1)]
  moreover have "process_has_pending_input (os_desk s') ?pid = process_has_pending_input d ?pid"
    by (simp only: process_has_pending_input_def comp)
  ultimately show ?thesis unfolding comp by blast
qed

section \<open>A small machine\<close>

text \<open>
  One process besides the first one, running on core 0 in slot 0, with a window, a page of memory at
  \<open>0x400000\<close>, a descriptor for reading and one for writing, over a volume that holds nothing.
\<close>

definition small_process :: proc where
  "small_process = (process_new 1 0 3 [] False resources_default 0)\<lparr>pr_file_descriptors :=
     [\<lparr>fdesc_node_id = 5, fdesc_flags = 1\<rparr>, \<lparr>fdesc_node_id = 6, fdesc_flags = 2\<rparr>]\<rparr>"

definition small_sched :: sched where
  "small_sched = sched_init\<lparr>tasks := (\<lambda>i. if i = 0 then task_slot_new\<lparr>ts_pid := 1, ts_state := Running, ts_on_cpu := True\<rparr> else task_slot_new),
     current_slot := (\<lambda>c. if c = 0 then 0 else INVALID_SLOT), current_process := (\<lambda>c. if c = 0 then 1 else INVALID_PID),
     runnable_tasks_count := (\<lambda>c. if c = 0 then 1 else 0)\<rparr>"

definition small_cache :: "unit file_cache" where
  "small_cache = \<lparr>fc_driver = (), fc_arena = [], fc_push_offset = 0, fc_memory_used = 0, fc_max_memory = 0, fc_access_tick = 0,
     fc_files = \<lparr>fx_slots = replicate 16 Empty, fx_count = 0\<rparr>, fc_file_nodes = \<lparr>fx_slots = replicate 16 Empty, fx_count = 0\<rparr>,
     fc_directory_children = \<lparr>fx_slots = replicate 16 Empty, fx_count = 0\<rparr>,
     fc_directory_hints = \<lparr>fx_slots = replicate 16 Empty, fx_count = 0\<rparr>\<rparr>"

definition small_os :: "unit os" where
  "small_os = \<lparr>os_desk = (small_desktop 0)\<lparr>d_kernel := small_kernel\<lparr>k_pm := (init_arche process_manager_new)\<lparr>
       pm_processes := [process_new 0 0 3 [] False resources_default 0, small_process]\<rparr>, k_sched := small_sched,
       k_machine := \<lparr>mem = sample_tables, frames = sample_allocator\<rparr>\<rparr>\<rparr>,
     os_fs = small_cache, os_cr3 = 0x1000, os_futex = waiter_list_new\<rparr>"

definition empty_volume :: "unit fs_driver" where
  "empty_volume = \<lparr>drv_read_file = (\<lambda>h offset buf. fail NotFound), drv_write_file = (\<lambda>h offset data. fail NotFound),
     drv_find_node = (\<lambda>path. fail NotFound), drv_get_node = (\<lambda>h. fail NotFound), drv_list_directory = (\<lambda>h. ret []),
     drv_create_file = (\<lambda>h name. fail DirectoryFull), drv_create_directory = (\<lambda>h name. fail DirectoryFull),
     drv_delete = (\<lambda>h. fail NotFound), drv_root_node = 1\<rparr>"

definition small_env :: "unit sys_env" where
  "small_env = \<lparr>se_ops = flat_mapper, se_umm = sample_manager, se_driver = empty_volume, se_now = 0, se_stack_top = (\<lambda>_. 0),
     se_entry = 0, se_shared = [], se_odys = None, se_back_ptr = 4096, se_front_ptr = 8192, se_cpu_info = []\<rparr>"

lemma small_caller: "caller small_os 0 = 1" "proc_of small_os 1 = Some small_process" "(0::nat) < MAX_CORES" "(1::nat) \<noteq> INVALID_PID"
  by (simp_all add: caller_def proc_of_def small_os_def small_sched_def small_process_def process_new_def MAX_CORES_def INVALID_PID_def)

lemma small_comp_ok: "comp_ok (d_comp (os_desk small_os))"
  by (simp add: comp_ok_def small_os_def small_defs) (metis nth_Cons_0 gr_zeroI window.select_convs(6))

lemma small_info: "window_of (d_comp (os_desk small_os)) 0 = Some (small_window 0)" "w_event_buffer (small_window 0) = None"
  "max_window_buffer_bytes (d_comp (os_desk small_os)) = (Ok 4096 :: (unit, nat) outcome)" "wb_width (w_buffer (small_window 0)) = 2"
  by (simp_all add: window_of_def small_os_def small_desktop_def small_window_def compositor_new_def max_window_buffer_bytes_def
      u64_mul_def FRAMEBUFFER_BYTES_PER_PIXEL_def align_up_def PAGE_SIZE_def PROCESS_WINDOW_BUFFER_HARD_MAX_SIZE_def)

theorem kill_needs_right_witness:
  "fst (dispatch_syscall 0 small_env \<lparr>syscall_num = 1, arg1 = 1, arg2 = 7, arg3 = 0, arg4 = 0\<rparr> small_os) = Ok (Exits_with 7)
   \<and> caller small_os 0 = 1"
proof -
  let ?f = "\<lparr>syscall_num = 1, arg1 = 1, arg2 = 7, arg3 = 0, arg4 = 0\<rparr>"
  have "fst (dispatch_syscall 0 small_env ?f small_os) = Ok (Exits_with 7)"
    using small_caller by (simp add: dispatch_syscall_def syscall_numbers_def sys_terminate_process_def bind_def current_pid_app attempt_def get_process_app
        ret_def ARCHE_PID_def Let_def as_i32_def)
  then obtain s' where d: "dispatch_syscall 0 small_env ?f small_os = (Ok (Exits_with 7), s')"
    by (cases "dispatch_syscall 0 small_env ?f small_os") auto
  have "\<exists>p. proc_of small_os 1 = Some p \<and> (1::nat) \<noteq> ARCHE_PID
      \<and> (caller small_os 0 = 1 \<or> caller small_os 0 = pr_parent_pid p \<or> caller small_os 0 = ARCHE_PID)"
    using kill_needs_right [OF _ d] by simp
  then show ?thesis using d small_caller by (simp add: small_process_def process_new_def ARCHE_PID_def)
qed

theorem descriptor_rights_witness:
  "dispatch_syscall 0 small_env \<lparr>syscall_num = 23, arg1 = 0, arg2 = 0, arg3 = 4096, arg4 = 4\<rparr> small_os = (Ok (Returns INVALID_FD), small_os)"
  by (rule descriptor_rights [where flag = FD_FLAG_WRITE and p = small_process])
    (simp_all only: small_caller, simp_all add: FD_FLAG_WRITE_def small_process_def process_new_def)

theorem close_renumbers_last_witness:
  "\<exists>s'. dispatch_syscall 0 small_env \<lparr>syscall_num = 21, arg1 = 0, arg2 = 0, arg3 = 0, arg4 = 0\<rparr> small_os = (Ok (Returns 0), s')
     \<and> fds_of s' 1 ! 0 = \<lparr>fdesc_node_id = 6, fdesc_flags = 2\<rparr>"
proof -
  let ?f = "\<lparr>syscall_num = 21, arg1 = 0, arg2 = 0, arg3 = 0, arg4 = 0\<rparr>"
  have "length (pr_file_descriptors small_process) = 2" "last (pr_file_descriptors small_process) = \<lparr>fdesc_node_id = 6, fdesc_flags = 2\<rparr>"
    by (simp_all add: small_process_def process_new_def)
  then show ?thesis using close_renumbers_last [of 0 small_os small_process ?f small_env 0 0 0] small_caller by auto
qed

lemma small_exit:
  "\<exists>d. destroy_windows_of_process flat_mapper sample_manager 1 (os_desk small_os) = (Ok (), d) \<and> d_kernel d = d_kernel (os_desk small_os)"
  "\<exists>k. terminate_process 0 flat_mapper sample_manager 1 7 False (d_kernel (os_desk small_os)) = (Ok (), k) \<and> k_sched k = small_sched"
  "\<exists>t. exit_current_tail 0 small_sched = (Ok (), t)"
  "get_current_slot_for_core 0 small_sched = (Ok 0, small_sched)"
  "k_sched (d_kernel (os_desk small_os)) = small_sched"
proof -
  have p: "List.find (\<lambda>p. pr_pid p = Suc 0) (pm_processes (k_pm (d_kernel (os_desk small_os)))) = Some small_process"
    by (simp add: small_os_def small_process_def process_new_def)
  have l: "top_page_table_phys (pr_memory_layout small_process) = 0" "pr_children small_process = []"
    by (simp_all add: small_process_def process_new_def with_page_table_def)
  show "k_sched (d_kernel (os_desk small_os)) = small_sched" by (simp add: small_os_def)
  show "get_current_slot_for_core 0 small_sched = (Ok 0, small_sched)"
    by (simp add: get_current_slot_for_core_def small_sched_def bind_def core_in_range_def require_def reading_def ret_def MAX_CORES_def)
  show "\<exists>t. exit_current_tail 0 small_sched = (Ok (), t)"
    by (simp add: exit_current_tail_def get_current_slot_for_core_def small_sched_def sched_init_def task_slot_new_def bind_def core_in_range_def
        require_def reading_def ret_def MAX_CORES_def MAX_TASKS_def slot_in_range_def INVALID_SLOT_def update_task_def set_state_def modify_def
        core_task_leave_run_queue_def sub_runnable_def core_run_scheduling_def core_switch_executing_yielding_def)
  show "\<exists>k. terminate_process 0 flat_mapper sample_manager 1 7 False (d_kernel (os_desk small_os)) = (Ok (), k) \<and> k_sched k = small_sched"
    using p l \<open>k_sched (d_kernel (os_desk small_os)) = small_sched\<close>
    by (simp add: terminate_process_def get_process_def change_process_def bind_def reading_def ret_def modify_def INVALID_PID_def)
  show "\<exists>d. destroy_windows_of_process flat_mapper sample_manager 1 (os_desk small_os) = (Ok (), d) \<and> d_kernel d = d_kernel (os_desk small_os)"
    using p l
    by (simp add: destroy_windows_of_process_def reading_app bind_def destroy_window_def INVALID_WINDOW_ID_def set_comp_def small_os_def small_defs
        modify_def lift_outcome_def page_count_def pixel_count_def u32_mul_def update_window_def hide_window_def release_window_def
        attempt_def on_kernel_def get_process_def INVALID_PID_def ret_def Let_def)
qed

theorem exit_releases_witness:
  "\<exists>s'. exit_current 0 small_env 7 small_os = (Ok (), s') \<and> \<not> process_has_pending_input (os_desk s') 1
     \<and> (\<exists>p. proc_of s' 1 = Some p \<and> pr_exit_code p = Some 7)"
proof -
  obtain d k t where r: "destroy_windows_of_process flat_mapper sample_manager 1 (os_desk small_os) = (Ok (), d)"
      "d_kernel d = d_kernel (os_desk small_os)"
    "terminate_process 0 flat_mapper sample_manager 1 7 False (d_kernel (os_desk small_os)) = (Ok (), k)" "k_sched k = small_sched"
    "exit_current_tail 0 small_sched = (Ok (), t)"
    using small_exit(1-3) by blast
  have env: "se_ops small_env = flat_mapper" "se_umm small_env = sample_manager" by (simp_all add: small_env_def)
  have slot: "on_proc (on_sched (get_current_slot_for_core 0)) small_os = (Ok 0, small_os)"
    using small_exit(4) [folded small_exit(5)] by (simp add: on_proc_def on_desk_def on_kernel_def on_sched_def)
  have "\<exists>s'. exit_current 0 small_env 7 small_os = (Ok (), s')"
    using r slot small_caller(1,3)
    by (simp add: exit_current_def bind_def current_pid_app check_or_panic_def ret_def INVALID_SLOT_def env on_desk_def on_proc_def on_kernel_def
        on_sched_def attempt_def modify_def)
  then obtain s' where x: "exit_current 0 small_env 7 small_os = (Ok (), s')" by blast
  from exit_releases [OF small_comp_ok this] show ?thesis unfolding small_caller using x by blast
qed

end
