(* ===== verification/User_Access.thy ===== *)
theory User_Access
  imports Syscall_Props Sirius_Props
begin

text \<open>
  What the system calls write into the memory of the calling process. The addresses go through the page
  tables, so the claims are about physical memory: which of its bytes a call can change, and what a
  read of a file leaves there.
\<close>

unbundle bit_operations_syntax

section \<open>Stores through the page tables\<close>





text \<open>
  The physical bytes behind a buffer of the process, as its page tables map it for writing, and the
  condition that the tables that map the buffer do not lie in the buffer itself.
\<close>

definition buffer_cells :: "'d os \<Rightarrow> nat \<Rightarrow> nat \<Rightarrow> nat set" where
  "buffer_cells s p n = {x. \<exists>a. p \<le> a \<and> a < p + n \<and> a < USER_MEM_MAX_ADDRESS \<and> user_phys s True a = Some x}"

definition tables_apart :: "'d os \<Rightarrow> nat \<Rightarrow> nat \<Rightarrow> bool" where
  "tables_apart s p n \<longleftrightarrow> (\<forall>a. p \<le> a \<longrightarrow> a < p + n \<longrightarrow> a < USER_MEM_MAX_ADDRESS \<longrightarrow>
     set (walk_words (phys s) (os_cr3 s) a) \<inter> word_of_byte ` buffer_cells s p n = {})"

text \<open>The states a call goes through: memory differs from the memory at the start in the buffer only.\<close>

definition within :: "nat \<Rightarrow> nat \<Rightarrow> 'd os \<Rightarrow> 'd os \<Rightarrow> bool" where
  "within p n s0 s \<longleftrightarrow> os_cr3 s = os_cr3 s0
     \<and> (\<forall>w. w \<notin> word_of_byte ` buffer_cells s0 p n \<longrightarrow> phys s w = phys s0 w)
     \<and> (\<forall>x. x \<notin> buffer_cells s0 p n \<longrightarrow> load_byte (phys s) x = load_byte (phys s0) x)"




section \<open>Calls that stay within a buffer\<close>

named_theorems safe_intros \<open>calls that change the memory of the process in its result buffer only\<close>

definition safe :: "nat \<Rightarrow> nat \<Rightarrow> 'd os \<Rightarrow> ('d os, 'e, 'a) call \<Rightarrow> bool" where
  "safe p n s0 m \<longleftrightarrow> (\<forall>s. within p n s0 s \<longrightarrow> within p n s0 (snd (m s)))"

lemma safe_same_memory:
  assumes "\<And>s. phys (snd (m s)) = phys s" "\<And>s. os_cr3 (snd (m s)) = os_cr3 s"
  shows "safe p n s0 m"
  using assms by (simp add: safe_def within_def)



lemma safe_bind_strong:
  assumes "safe p n s0 m" "\<And>s a s'. m s = (Ok a, s') \<Longrightarrow> safe p n s0 (f a)"
  shows "safe p n s0 (bind m f)"
  unfolding safe_def
proof (intro allI impI)
  fix s assume w: "within p n s0 s"
  obtain r s1 where m: "m s = (r, s1)" by (cases "m s")
  have s1: "within p n s0 s1" using assms(1) w m unfolding safe_def by (metis snd_conv)
  show "within p n s0 (snd (bind m f s))"
  proof (cases r)
    case (Ok a)
    with assms(2) m s1 show ?thesis by (fastforce simp: bind_def safe_def)
  qed (use m s1 in \<open>simp_all add: bind_def\<close>)
qed

lemma safe_bind [safe_intros]: "safe p n s0 m \<Longrightarrow> (\<And>a. safe p n s0 (f a)) \<Longrightarrow> safe p n s0 (bind m f)"
  by (rule safe_bind_strong)







lemma length_le_bytes [simp]: "length (le_bytes n v) = n"
  by (simp add: le_bytes_def)












section \<open>The result buffers of the system calls\<close>



text \<open>Changes of the focus touch the windows and the event rings, not the machine below.\<close>

definition above_kernel :: "'a dcall \<Rightarrow> bool" where
  "above_kernel m \<longleftrightarrow> (\<forall>d. d_kernel (snd (m d)) = d_kernel d)"

lemma above_kernel_bind: "above_kernel m \<Longrightarrow> (\<And>a. above_kernel (f a)) \<Longrightarrow> above_kernel (bind m f)"
  unfolding above_kernel_def bind_def by (auto split: prod.splits outcome.splits) (metis snd_conv)+

lemma above_kernel_basic:
  "above_kernel (ret a)" "above_kernel panic" "above_kernel diverge" "above_kernel (check_or_panic b)" "above_kernel (set_comp h)"
  "above_kernel (set_events i ring)" "above_kernel (modify (\<lambda>d. d\<lparr>d_shared_focus := w\<rparr>))" "(\<And>d. above_kernel (g d)) \<Longrightarrow> above_kernel (reading g)"
  by (simp_all add: above_kernel_def ret_def panic_def diverge_def check_or_panic_def set_comp_def set_events_def modify_def reading_def)

lemma above_kernel_focus: "above_kernel (focus_window i)"
proof -
  note rules = above_kernel_bind above_kernel_basic
  have push: "above_kernel (push_event a e)" for a e
    by (auto simp: push_event_def intro!: rules split: outcome.splits)
  have "above_kernel (release_keys a down ks)" for a down ks
    by (induction ks) (auto intro!: rules push)
  then show ?thesis
    by (auto simp: focus_window_def when_some_def release_held_keys_def publish_current_def publish_def Let_def intro!: rules
        split: option.splits)
qed

lemma safe_focus_window [safe_intros]: "safe p n s0 (on_desk (focus_window i))"
  using above_kernel_focus [of i]
  by (intro safe_same_memory) (simp_all add: on_desk_def phys_def above_kernel_def split_beta)



section \<open>Reading a file into user memory\<close>

definition writable_buffer :: "'d os \<Rightarrow> nat \<Rightarrow> nat \<Rightarrow> bool" where
  \<comment> \<open>every address is mapped for writing, no two to the same byte\<close>
  "writable_buffer s p n \<longleftrightarrow> inj_on (user_phys s True) {p ..< p + n} \<and> (\<forall>a \<in> {p ..< p + n}. user_phys s True a \<noteq> None)"



lemma fs_update_memory [simp]:
  "phys (s\<lparr>os_fs := c\<rparr>) = phys s" "user_phys (s\<lparr>os_fs := c\<rparr>) = user_phys s" "buffer_cells (s\<lparr>os_fs := c\<rparr>) = buffer_cells s"
  "writable_buffer (s\<lparr>os_fs := c\<rparr>) = writable_buffer s" "tables_apart (s\<lparr>os_fs := c\<rparr>) = tables_apart s"
proof -
  have r: "os_cr3 (s\<lparr>os_fs := c\<rparr>) = os_cr3 s" by simp
  show p: "phys (s\<lparr>os_fs := c\<rparr>) = phys s" by (simp add: phys_def)
  then show u: "user_phys (s\<lparr>os_fs := c\<rparr>) = user_phys s" by (intro ext) (simp only: user_phys_def r)
  then show b: "buffer_cells (s\<lparr>os_fs := c\<rparr>) = buffer_cells s" by (intro ext) (simp only: buffer_cells_def)
  show "writable_buffer (s\<lparr>os_fs := c\<rparr>) = writable_buffer s" "tables_apart (s\<lparr>os_fs := c\<rparr>) = tables_apart s"
    by (intro ext, simp only: writable_buffer_def tables_apart_def p u b r)+
qed


section \<open>Runs on the small machine\<close>










end
