(* ===== verification/Spec2Isabelle.thy ===== *)
theory Spec2Isabelle
  imports Dequeue Hash_Map_Fx Event_Buffer Fat32_Props Process_Props Heap_Alloc Sirius_Props Sched_Findings User_Access
begin

text \<open>
  Verification of MofuOS, an operating system kernel for x86-64 in Rust (\<open>src/kernel/src\<close>).

  \<^bold>\<open>The program.\<close> The kernel boots several cores, hands out physical frames and a heap, loads ELF programs
  into address spaces of their own, schedules their tasks over the cores, reads and writes files on a
  FAT32 volume through a cache, and shows the windows of the programs on one screen, with the keyboard
  and the mouse going to the window in focus. A program reaches all of this through system calls. The
  parts interact by calls under locks; the scheduler is the part that cores, tasks and interrupts
  enter at any time, and the rings of input events are shared with the programs.

  \<^bold>\<open>How the code is rendered.\<close> A Rust function is a HOL function of the same name. A call on a state is
  a \<open>call\<close> of \<open>Mofu_Prelude\<close>, a function from the state to an \<open>outcome\<close> and a new state: \<open>Ok\<close> and \<open>Err\<close> are
  the two cases of \<open>Result\<close>, \<open>Panic\<close> is a failed assertion, an index out of range, an arithmetic overflow
  (the development profile checks for it), or undefined behaviour, and \<open>Diverge\<close> a loop that does not
  end. Structures are records, enumerations datatypes; an integer is a word where its bits or its
  wrap-around matter, and a natural number with the check written out elsewhere. A loop whose end is not
  evident gets a number of rounds after which it counts as diverging: a walk along a cluster chain
  gets one round for every cluster of the volume, a copying loop one for each byte, a probe of the hash
  map one for each slot, making room in the cache one for each file and one more, the input loop one for
  each event that waits. That these are enough is part of what is proved (\<open>chain_length_total\<close> says
  exactly when a walk ends). An operation is one step, except in \<open>Event_Buffer\<close>, where each access to
  the shared ring is one. Allocation of kernel memory for a container does not fail. Messages on the
  serial line are left out.

  \<^bold>\<open>Containers and events.\<close> \<open>Vector\<close>, \<open>Dequeue\<close> and \<open>Hash_Map_Fx\<close> model \<open>data_structures/vector.rs\<close>,
  \<open>dequeue.rs\<close> and \<open>hash_map_fx.rs\<close> on the raw block, the ring with its mask, and the slots with their
  tombstones, and show that they implement lists, double-ended lists and finite maps; the locales
  \<open>back_pushable\<close>, \<open>deque\<close> and \<open>keyed_store\<close> are these contracts. \<open>Event_Buffer\<close> models the ring of input
  events (\<open>events/event_buffer.rs\<close>), as a bounded queue (locale \<open>bounded_fifo\<close>) and word by word under any
  interleaving of its writer and its reader, and the state of the keyboard (\<open>events/keyboard_state.rs\<close>).

  \<^bold>\<open>Files.\<close> \<open>Disk\<close> has the device interface of \<open>io/disk.rs\<close> as a record of operations and its contract as
  the locale \<open>disk_device\<close>. \<open>Dir_Entry\<close> and \<open>Fat32\<close> model the driver (\<open>filesystem/fat32\<close>); \<open>Fat32_Table\<close>,
  \<open>Fat32_Files\<close>, \<open>Fat32_Names\<close> and \<open>Fat32_Props\<close> show what it does with the allocation table, chains,
  directories, file contents and names on every device that meets the contract. \<open>File_Cache\<close> models
  \<open>filesystem/file_cache.rs\<close>, whole files in one arena; \<open>File_Cache_Inv\<close>, \<open>File_Cache_Space\<close> and
  \<open>File_Cache_Props\<close> show that the cache is transparent: reading and writing act on a view of the files
  that eviction, compaction and write-back do not change, and flushing brings the driver up to that
  view. \<open>File_Cache_Findings\<close> has the runs in which it loses data. \<open>Sirius\<close> and \<open>Sirius_Props\<close> are the
  interface above (\<open>filesystem/sirius.rs\<close>): paths, types of nodes, and a read through all three layers.

  \<^bold>\<open>Memory.\<close> \<open>Frame_Alloc\<close> (\<open>memory/memory.rs\<close>) and \<open>Heap_Alloc\<close> (\<open>memory/allocator.rs\<close>): nothing is handed
  out twice, under any order of requests and returns; \<open>Machine\<close> has the contract of such a system as the
  locale \<open>safe_machine\<close>. \<open>User_Mem\<close> (\<open>memory/usermem.rs\<close>) has page tables as words of physical memory,
  and \<open>Process_Mem\<close> (\<open>process/process_mem.rs\<close>) the regions of a process and its heap.

  \<^bold>\<open>Processes and tasks.\<close> \<open>Elf_Loader\<close> (\<open>process/elf_loader.rs\<close>) merges segments without changing the memory
  they describe. \<open>Processes\<close> and \<open>Process_Props\<close> model \<open>process/process.rs\<close>, \<open>shared_state.rs\<close>,
  \<open>core_pool.rs\<close>, \<open>process_manager.rs\<close> and the first stack of a task: a loaded segment has its bytes at its
  addresses, and identifiers are unique. \<open>Tasks\<close>, \<open>Run_Queue\<close> and \<open>Scheduler\<close> model \<open>process/task.rs\<close>,
  \<open>scheduler.rs\<close> and \<open>wait.rs\<close>. \<open>Sched_Spec\<close> is what a scheduler promises, as a step relation on where
  each task is; \<open>Ref_Arrays\<close>, \<open>Sched_Refine\<close>, \<open>Sched_System\<close> and \<open>Sched_Actions\<close> show that every operation
  returns and does steps of it; \<open>Sched_Props\<close> concludes, for the operations of cores, tasks and interrupts
  run one at a time in any order, that nothing panics, that no task is given to two cores, and that
  queues and counts are exact between operations. The steps inside an operation that the source does
  without a lock, or after giving one up, are not interleaved with other operations (the end of
  \<open>run_task\<close>, the move of a stolen task, a wake-up before it reaches the queue), and a waiting loop
  calls with the number of the core its task is on. \<open>Sched_Order\<close> has the order in
  which tasks run and that each gets its turn, \<open>Sched_Findings\<close> two places in which waiting goes wrong.

  \<^bold>\<open>Windows.\<close> \<open>Graphics\<close> models colours, rectangles, the two buffers of a window and the screen
  (\<open>graphics/color.rs\<close>, \<open>window.rs\<close>, \<open>framebuffer.rs\<close>), \<open>Compositor\<close> the window system
  (\<open>graphics/compositor.rs\<close>). \<open>Composition\<close> reads the screen as an image and says what a composed frame
  shows, against the layers in the order of their stacking index, when overlapping windows are stacked in
  the order of their identifiers (the code composes in that order); \<open>Compositor_Props\<close> shows that identifiers of visible windows are unique under any order of
  window calls and input, which window a click goes to, and that a process leaves no windows; the
  locale \<open>input_stable\<close> collects what an invariant needs to survive the handling of input.

  \<^bold>\<open>System calls.\<close> \<open>Syscalls\<close> models the dispatcher with every call (\<open>process/syscall.rs\<close>), the ring
  buffers of a process (\<open>data_structures/circular_buffer.rs\<close>) and the end of a task, over the state of all
  components above. The memory of the calling process is reached through its page tables in physical
  memory, as the processor does; a page fault in the kernel stops it. \<open>Syscall_Props\<close>: rights are
  checked, and a task that exits leaves nothing behind. \<open>User_Access\<close>: a call changes no byte of
  physical memory but those behind the buffer it was given for its result, and a read of a file puts the
  bytes of the file there.

  \<^bold>\<open>Parameters.\<close> Code outside the repository is an argument of the definitions that use it: the mapper of
  the paging crate (\<open>mapper_ops\<close>), the fallback allocator of the heap (\<open>fallback_ops\<close>), the parser of the
  ELF crate, the key codes of the keyboard crate (\<open>key_codes\<close>), the device below the driver
  (\<open>disk_ops\<close>), the drivers below the cache and below Sirius, the addresses the heap returns for the
  buffers of a window, the clock, the core a call runs on, and the description of the processor. What is
  relied on is a named hypothesis, with a concrete instance in the witness.

  \<^bold>\<open>Not modelled.\<close> Entry code in assembly and the programming of interrupt controllers, descriptor
  tables and machine registers (\<open>interrupts.rs\<close>, \<open>trap.rs\<close>, \<open>gdt.rs\<close>, \<open>stack_guard.rs\<close>, \<open>util\<close>) and port
  access (\<open>io/ata.rs\<close>, \<open>io/serial.rs\<close>) have no meaning without the hardware; what they ask of the scheduler
  and the event ring is modelled there. The software renderer (\<open>graphics/renderer.rs\<close>, \<open>pipeline.rs\<close>,
  \<open>shaders.rs\<close>, \<open>transform.rs\<close>) computes in floating point. Memory ordering weaker than sequential
  consistency, the translation caches of the processor and the time a lock is waited for are not
  modelled, nor are failing allocations inside the containers, the bytes a driver has put into a
  buffer before it reports an error, and input that arrives while the window system empties its ring. The
  boot sequence, the programs in \<open>src/user\<close>, the tests and the build tools are left out.
\<close>

end
